(* ===== verification/Prelude.thy ===== *)
theory Prelude
  imports Main "HOL-Library.Word" "HOL-Library.Monad_Syntax"
begin

text \<open>
  What the components share: the C integer conversions that the daemon relies on, arrays
  of C as total functions on indices, the counted loop \<open>for (i = lo; i <= hi; i++)\<close> with
  \<open>break\<close> and with a body that may abort the process, and their rules.

  An operation that can reach an \<open>Alarmp(SPLOG_FATAL, ...)\<close> or an \<open>Alarmp(.., EXIT, ..)\<close>
  call, which end the process, returns an \<open>option\<close>: \<open>None\<close> is the process that has exited.
\<close>

unbundle bit_operations_syntax

named_theorems spread_defs "definitions of the daemon's small helpers"
named_theorems loop_simps "unfolding of counted loops on concrete bounds"

section \<open>Integers of C\<close>

type_synonym int32u = "32 word"

text \<open>Storing an \<open>int\<close> in a field of type \<open>int16\<close> or \<open>int16u\<close>.\<close>

definition to_int16 :: "int \<Rightarrow> int" where
  "to_int16 x = signed_take_bit 15 x"

definition to_int16u :: "int \<Rightarrow> int" where
  "to_int16u x = take_bit 16 x"

lemma to_int16_id [simp]: "- 32768 \<le> x \<Longrightarrow> x < 32768 \<Longrightarrow> to_int16 x = x"
  by (simp add: to_int16_def signed_take_bit_int_eq_self_iff)

lemma to_int16u_id [simp]: "0 \<le> x \<Longrightarrow> x < 65536 \<Longrightarrow> to_int16u x = x"
  by (simp add: to_int16u_def take_bit_int_eq_self)

lemma to_int16_range: "- 32768 \<le> to_int16 x \<and> to_int16 x < 32768"
  using signed_take_bit_int_greater_eq_minus_exp [of 15 x] signed_take_bit_int_less_exp [of 15 x]
  by (simp add: to_int16_def)

section \<open>Counted loops\<close>

datatype 's step = Continue 's | Break 's

function for_loop :: "int \<Rightarrow> int \<Rightarrow> (int \<Rightarrow> 's \<Rightarrow> 's step option) \<Rightarrow> 's \<Rightarrow> 's option" where
  "for_loop lo hi body s =
     (if lo \<le> hi
      then (case body lo s of
              None \<Rightarrow> None
            | Some (Break s') \<Rightarrow> Some s'
            | Some (Continue s') \<Rightarrow> for_loop (lo + 1) hi body s')
      else Some s)"
  by pat_completeness auto
termination
  by (relation "measure (\<lambda>(lo, hi, _, _). nat (hi + 1 - lo))") auto

declare for_loop.simps [simp del, loop_simps]

lemma for_loop_empty [simp]: "hi < lo \<Longrightarrow> for_loop lo hi body s = Some s"
  by (subst for_loop.simps) simp

lemma for_loop_step:
  "lo \<le> hi \<Longrightarrow> for_loop lo hi body s =
     (case body lo s of
        None \<Rightarrow> None
      | Some (Break s') \<Rightarrow> Some s'
      | Some (Continue s') \<Rightarrow> for_loop (lo + 1) hi body s')"
  by (subst for_loop.simps) simp

text \<open>
  The rule for loops: \<open>P i\<close> holds before round \<open>i\<close>, \<open>Q\<close> after a \<open>break\<close>.
\<close>

lemma for_loop_rule:
  assumes "for_loop lo hi body s = Some s'" and "P lo s"
    and "\<And>i t r. lo \<le> i \<Longrightarrow> i \<le> hi \<Longrightarrow> P i t \<Longrightarrow> body i t = Some (Continue r) \<Longrightarrow> P (i + 1) r"
    and "\<And>i t r. lo \<le> i \<Longrightarrow> i \<le> hi \<Longrightarrow> P i t \<Longrightarrow> body i t = Some (Break r) \<Longrightarrow> Q r"
  shows "P (max lo (hi + 1)) s' \<or> Q s'"
  using assms
proof (induction lo hi body s rule: for_loop.induct)
  case (1 lo hi body s)
  show ?case
  proof (cases "lo \<le> hi")
    case False
    then have "max lo (hi + 1) = lo" by simp
    with False "1.prems" show ?thesis by simp
  next
    case True
    from True "1.prems"(1) obtain r where r: "body lo s = Some r"
      by (auto simp: for_loop_step split: option.splits)
    show ?thesis
    proof (cases r)
      case (Continue t)
      with True r "1.prems" have "for_loop (lo + 1) hi body t = Some s'" "P (lo + 1) t"
        by (auto simp: for_loop_step)
      with "1.IH" [OF True r Continue] "1.prems"(3,4)
      have "P (max (lo + 1) (hi + 1)) s' \<or> Q s'" by fastforce
      with True show ?thesis by (simp add: max_def split: if_splits)
    next
      case (Break t)
      with True r "1.prems"(1) have "t = s'" by (simp add: for_loop_step)
      with True r Break "1.prems"(2,4) show ?thesis by blast
    qed
  qed
qed

text \<open>A property that every round keeps holds after the loop, however it ends.\<close>

lemma for_loop_invariant:
  assumes "for_loop lo hi body s = Some s'" and "P s"
    and "\<And>i t r. lo \<le> i \<Longrightarrow> i \<le> hi \<Longrightarrow> P t \<Longrightarrow> body i t = Some (Continue r) \<Longrightarrow> P r"
    and "\<And>i t r. lo \<le> i \<Longrightarrow> i \<le> hi \<Longrightarrow> P t \<Longrightarrow> body i t = Some (Break r) \<Longrightarrow> P r"
  shows "P s'"
  using for_loop_rule [where P = "\<lambda>_. P" and Q = P, OF assms(1,2)] assms(3,4) by blast

text \<open>A loop whose rounds do not abort does not abort.\<close>

lemma for_loop_total:
  assumes "P lo s"
    and "\<And>i t. lo \<le> i \<Longrightarrow> i \<le> hi \<Longrightarrow> P i t \<Longrightarrow>
          (\<exists>r. body i t = Some (Break r)) \<or> (\<exists>r. body i t = Some (Continue r) \<and> P (i + 1) r)"
  shows "\<exists>s'. for_loop lo hi body s = Some s'"
  using assms
proof (induction lo hi body s rule: for_loop.induct)
  case (1 lo hi body s)
  show ?case
  proof (cases "lo \<le> hi")
    case True
    with "1.prems" consider
        t where "body lo s = Some (Break t)"
      | t where "body lo s = Some (Continue t)" "P (lo + 1) t"
      by blast
    then show ?thesis
    proof cases
      case 1
      with True show ?thesis by (simp add: for_loop_step)
    next
      case 2
      with "1.IH" [OF True 2(1) refl 2(2)] "1.prems"(2) True show ?thesis
        by (auto simp: for_loop_step)
    qed
  qed simp
qed

text \<open>A loop without \<open>break\<close> whose rounds succeed runs to its end.\<close>

lemma for_loop_run:
  assumes start: "P lo s"
    and step: "\<And>i t. lo \<le> i \<Longrightarrow> i \<le> hi \<Longrightarrow> P i t \<Longrightarrow> \<exists>r. body i t = Some (Continue r) \<and> P (i + 1) r"
  shows "\<exists>s'. for_loop lo hi body s = Some s' \<and> P (max lo (hi + 1)) s'"
proof -
  obtain s' where run: "for_loop lo hi body s = Some s'"
    using for_loop_total [where P = P, OF start] step by blast
  moreover have "P (max lo (hi + 1)) s' \<or> False"
    by (rule for_loop_rule [where P = P and Q = "\<lambda>_. False", OF run start]) (use step in fastforce)+
  ultimately show ?thesis by simp
qed

section \<open>Linear search\<close>

text \<open>
  \<open>for (i = 0; i < n; i++) if (P(xs[i])) return i; return -1;\<close>
\<close>

fun index_of :: "('a \<Rightarrow> bool) \<Rightarrow> 'a list \<Rightarrow> int" where
  "index_of P [] = -1"
| "index_of P (x # xs) = (if P x then 0 else let i = index_of P xs in if i < 0 then -1 else i + 1)"

lemma index_of_range: "- 1 \<le> index_of P xs \<and> index_of P xs < int (length xs)"
  by (induction xs) (auto simp: Let_def)

lemma index_of_neg_iff: "index_of P xs < 0 \<longleftrightarrow> (\<forall>x \<in> set xs. \<not> P x)"
  by (induction xs) (auto simp: Let_def)

lemma index_of_minus_one: "index_of P xs = - 1 \<longleftrightarrow> (\<forall>x \<in> set xs. \<not> P x)"
  using index_of_neg_iff [of P xs] index_of_range [of P xs] by linarith

lemma index_of_nth:
  "0 \<le> index_of P xs \<Longrightarrow> nat (index_of P xs) < length xs \<and> P (xs ! nat (index_of P xs))"
  by (induction xs) (auto simp: Let_def nat_add_distrib split: if_splits)

lemma index_of_least:
  "0 \<le> index_of P xs \<Longrightarrow> j < nat (index_of P xs) \<Longrightarrow> \<not> P (xs ! j)"
proof (induction xs arbitrary: j)
  case (Cons x xs)
  then show ?case by (cases j) (auto simp: Let_def split: if_splits)
qed simp

lemma index_of_split:
  assumes "0 \<le> index_of P xs"
  obtains ys x zs where "xs = ys @ x # zs" "P x" "\<forall>y \<in> set ys. \<not> P y" "nat (index_of P xs) = length ys"
proof -
  let ?i = "nat (index_of P xs)"
  from index_of_nth [OF assms] have i: "?i < length xs" "P (xs ! ?i)" by auto
  have "\<forall>y \<in> set (take ?i xs). \<not> P y"
    using index_of_least [OF assms] i(1) by (auto simp: in_set_conv_nth)
  with that [OF id_take_nth_drop [OF i(1)] i(2)] i(1) show ?thesis by simp
qed

end
