(* ===== verification/Events.thy ===== *)
theory Events
  imports Prelude
begin

text \<open>
  The event library, \<open>libspread-util/src/events.c\<close>: the arithmetic of \<open>sp_time\<close>, the
  queue of timed events (a linked list sorted by expiry, in which a handler with the
  same code and data occurs at most once), the table of the slowest events, and the
  descriptor tables with their priorities, their activity flags and the \<open>select\<close> masks.
  A function pointer is a value of the type parameter \<open>'f\<close>; a data pointer, which the
  library only compares, is a natural number.
\<close>

section \<open>Time\<close>

record sp_time =
  sec :: int
  usec :: int

definition E_neg_time :: "sp_time \<Rightarrow> sp_time" where
  "E_neg_time t = \<lparr>sec = - sec t, usec = - usec t\<rparr>"

definition E_add_time :: "sp_time \<Rightarrow> sp_time \<Rightarrow> sp_time" where
  "E_add_time t d =
     (let s = sec t + sec d; u = usec t + usec d;
          (s, u) = (if u \<ge> 1000000 then (s + 1, u - 1000000)
                    else if u \<le> - 1000000 then (s - 1, u + 1000000) else (s, u));
          (s, u) = (if s > 0 then (if u < 0 then (s - 1, u + 1000000) else (s, u))
                    else if s < 0 then (if u > 0 then (s + 1, u - 1000000) else (s, u))
                    else (s, u))
      in \<lparr>sec = s, usec = u\<rparr>)"

definition E_sub_time :: "sp_time \<Rightarrow> sp_time \<Rightarrow> sp_time" where
  "E_sub_time t d = E_add_time t (E_neg_time d)"

definition E_compare_time :: "sp_time \<Rightarrow> sp_time \<Rightarrow> int" where
  "E_compare_time t1 t2 =
     (if sec t1 > sec t2 then 1
      else if sec t1 < sec t2 then -1
      else if usec t1 > usec t2 then 1
      else if usec t1 < usec t2 then -1
      else 0)"

text \<open>The microseconds a time stands for, and the representation the library keeps.\<close>

definition usecs :: "sp_time \<Rightarrow> int" where
  "usecs t = sec t * 1000000 + usec t"

definition time_ok :: "sp_time \<Rightarrow> bool" where
  "time_ok t \<longleftrightarrow> \<bar>usec t\<bar> < 1000000 \<and> (sec t > 0 \<longrightarrow> usec t \<ge> 0) \<and> (sec t < 0 \<longrightarrow> usec t \<le> 0)"

lemma usecs_add [simp]: "usecs (E_add_time t d) = usecs t + usecs d"
  by (simp add: E_add_time_def usecs_def Let_def)

lemma usecs_neg [simp]: "usecs (E_neg_time t) = - usecs t"
  by (simp add: E_neg_time_def usecs_def)

lemma usecs_sub [simp]: "usecs (E_sub_time t d) = usecs t - usecs d"
  by (simp add: E_sub_time_def)

lemma time_ok_neg: "time_ok t \<Longrightarrow> time_ok (E_neg_time t)"
  by (auto simp: time_ok_def E_neg_time_def)

lemma time_ok_add: "time_ok t \<Longrightarrow> time_ok d \<Longrightarrow> time_ok (E_add_time t d)"
  by (auto simp: time_ok_def E_add_time_def Let_def)

lemma time_ok_sub: "time_ok t \<Longrightarrow> time_ok d \<Longrightarrow> time_ok (E_sub_time t d)"
  by (simp add: E_sub_time_def time_ok_add time_ok_neg)

lemma compare_usecs:
  assumes "time_ok t1" "time_ok t2"
  shows "E_compare_time t1 t2 = sgn (usecs t1 - usecs t2)"
  using assms by (auto simp: E_compare_time_def usecs_def time_ok_def)

definition time_le :: "sp_time \<Rightarrow> sp_time \<Rightarrow> bool" where
  "time_le t1 t2 \<longleftrightarrow> E_compare_time t1 t2 \<le> 0"

lemma time_le_iff: "time_le t1 t2 \<longleftrightarrow> sec t1 < sec t2 \<or> sec t1 = sec t2 \<and> usec t1 \<le> usec t2"
  by (auto simp: time_le_def E_compare_time_def)

lemma compare_neg_iff: "E_compare_time t1 t2 < 0 \<longleftrightarrow> \<not> time_le t2 t1"
  by (auto simp: time_le_def E_compare_time_def)

lemma compare_pos_iff: "0 < E_compare_time t1 t2 \<longleftrightarrow> \<not> time_le t1 t2"
  by (auto simp: time_le_def E_compare_time_def)

lemma time_le_refl [simp]: "time_le t t"
  by (simp add: time_le_iff)

lemma time_le_trans: "time_le a b \<Longrightarrow> time_le b c \<Longrightarrow> time_le a c"
  by (auto simp: time_le_iff)

lemma time_le_total: "\<not> time_le a b \<Longrightarrow> time_le b a"
  by (auto simp: time_le_iff)

section \<open>The queue of timed events\<close>

record 'f time_event =
  ev_t :: sp_time
  ev_func :: 'f
  ev_code :: int
  ev_data :: nat

definition same_event :: "'f time_event \<Rightarrow> 'f time_event \<Rightarrow> bool" where
  "same_event a b \<longleftrightarrow> ev_func a = ev_func b \<and> ev_data a = ev_data b \<and> ev_code a = ev_code b"

text \<open>
  The loop of \<open>E_queue\<close> over the events after \<open>t_pre\<close>: it drops the similar event, puts
  the new one before the first event that is later, and stops once both are done. The
  result is the list that hangs off \<open>t_pre\<close>, with the append of the end of the function.
\<close>

fun E_queue_loop :: "'f time_event \<Rightarrow> bool \<Rightarrow> bool \<Rightarrow> 'f time_event list \<Rightarrow> 'f time_event list"
where
  "E_queue_loop e inserted deleted [] = (if inserted then [] else [e])"
| "E_queue_loop e inserted deleted (p # ps) =
     (if inserted \<and> deleted then p # ps
      else if same_event p e then E_queue_loop e inserted True ps
      else if \<not> inserted \<and> E_compare_time (ev_t e) (ev_t p) < 0
      then e # p # E_queue_loop e True deleted ps
      else p # E_queue_loop e inserted deleted ps)"

definition E_queue_list :: "'f time_event \<Rightarrow> 'f time_event list \<Rightarrow> 'f time_event list" where
  "E_queue_list e q =
     (let (q1, deleted) = (case q of [] \<Rightarrow> (q, False)
                           | p # ps \<Rightarrow> if same_event p e then (ps, True) else (q, False))
      in case q1 of
           [] \<Rightarrow> [e]
         | p # ps \<Rightarrow>
             if E_compare_time (ev_t e) (ev_t p) < 0
             then e # E_queue_loop e True deleted q1
             else p # E_queue_loop e False deleted ps)"

text \<open>\<open>E_dequeue\<close> returns -1 when there is no such event.\<close>

fun E_dequeue_list :: "'f \<Rightarrow> int \<Rightarrow> nat \<Rightarrow> 'f time_event list \<Rightarrow> int \<times> 'f time_event list" where
  "E_dequeue_list f c d [] = (-1, [])"
| "E_dequeue_list f c d (p # ps) =
     (if ev_func p = f \<and> ev_data p = d \<and> ev_code p = c then (0, ps)
      else (case E_dequeue_list f c d ps of (r, qs) \<Rightarrow> (r, p # qs)))"

fun E_in_queue_list :: "'f \<Rightarrow> int \<Rightarrow> nat \<Rightarrow> 'f time_event list \<Rightarrow> int" where
  "E_in_queue_list f c d [] = 0"
| "E_in_queue_list f c d (p # ps) =
     (if ev_func p = f \<and> ev_data p = d \<and> ev_code p = c then 1 else E_in_queue_list f c d ps)"

definition event_key :: "'f time_event \<Rightarrow> 'f \<times> int \<times> nat" where
  "event_key e = (ev_func e, ev_code e, ev_data e)"

lemma same_event_key: "same_event a b \<longleftrightarrow> event_key a = event_key b"
  by (auto simp: same_event_def event_key_def)

text \<open>The invariant of the queue: sorted by expiry, one event per key.\<close>

definition queue_ok :: "'f time_event list \<Rightarrow> bool" where
  "queue_ok q \<longleftrightarrow> sorted_wrt (\<lambda>a b. time_le (ev_t a) (ev_t b)) q \<and> distinct (map event_key q)"

text \<open>
  What \<open>E_queue\<close> is meant to do: forget the similar event and put the new one behind
  every event that is not later.
\<close>

definition queue_spec :: "'f time_event \<Rightarrow> 'f time_event list \<Rightarrow> 'f time_event list" where
  "queue_spec e q =
     (let q1 = filter (\<lambda>p. event_key p \<noteq> event_key e) q
      in takeWhile (\<lambda>p. time_le (ev_t p) (ev_t e)) q1 @ e # dropWhile (\<lambda>p. time_le (ev_t p) (ev_t e)) q1)"

lemma queue_ok_Cons:
  "queue_ok (p # ps) \<longleftrightarrow>
     (\<forall>x \<in> set ps. time_le (ev_t p) (ev_t x)) \<and> event_key p \<notin> event_key ` set ps \<and> queue_ok ps"
  by (auto simp: queue_ok_def)

lemma queue_loop_inserted:
  "deleted \<longrightarrow> event_key e \<notin> event_key ` set ps \<Longrightarrow> distinct (map event_key ps) \<Longrightarrow>
   E_queue_loop e True deleted ps = filter (\<lambda>p. event_key p \<noteq> event_key e) ps"
proof (induction e True deleted ps rule: E_queue_loop.induct)
  case (2 e deleted p ps)
  have keep: "filter (\<lambda>x. event_key x \<noteq> event_key e) xs = xs"
    if "event_key e \<notin> event_key ` set xs" for xs
    using that by (metis (mono_tags, lifting) filter_True image_eqI)
  show ?case
  proof (cases deleted)
    case True
    with 2 keep [of "p # ps"] show ?thesis by simp
  next
    case False
    with 2 show ?thesis by (auto simp: same_event_key)
  qed
qed simp

lemma filter_head_later:
  "\<forall>x \<in> set ps. \<not> P x \<Longrightarrow> takeWhile P (filter R ps) = [] \<and> dropWhile P (filter R ps) = filter R ps"
  by (induction ps) auto

lemma queue_loop_spec:
  "deleted \<longrightarrow> event_key e \<notin> event_key ` set ps \<Longrightarrow> queue_ok ps \<Longrightarrow>
   E_queue_loop e False deleted ps = queue_spec e ps"
proof (induction ps arbitrary: deleted)
  case Nil
  then show ?case by (simp add: queue_spec_def)
next
  case (Cons p ps)
  from Cons.prems have ok: "queue_ok ps" "\<forall>x \<in> set ps. time_le (ev_t p) (ev_t x)"
    "event_key p \<notin> event_key ` set ps" by (auto simp: queue_ok_Cons)
  show ?case
  proof (cases "event_key p = event_key e")
    case True
    with Cons.prems Cons.IH [of True] ok show ?thesis
      by (auto simp: same_event_key queue_spec_def)
  next
    case False
    note IH = Cons.IH [of deleted, OF _ ok(1)]
    show ?thesis
    proof (cases "time_le (ev_t p) (ev_t e)")
      case True
      with False Cons.prems IH show ?thesis
        by (auto simp: same_event_key queue_spec_def compare_neg_iff Let_def)
    next
      case not_le: False
      with ok(2) have later: "\<forall>x \<in> set ps. \<not> time_le (ev_t x) (ev_t e)"
        using time_le_trans by blast
      have "E_queue_loop e True deleted ps = filter (\<lambda>p. event_key p \<noteq> event_key e) ps"
        using Cons.prems ok(1) by (intro queue_loop_inserted) (auto simp: queue_ok_def)
      with not_le False filter_head_later [OF later] show ?thesis
        by (simp add: same_event_key queue_spec_def compare_neg_iff)
    qed
  qed
qed

lemma E_queue_list_spec:
  assumes "queue_ok q"
  shows "E_queue_list e q = queue_spec e q"
proof (cases q)
  case Nil
  then show ?thesis by (simp add: E_queue_list_def queue_spec_def)
next
  case (Cons p ps)
  define deleted where "deleted \<longleftrightarrow> event_key p = event_key e"
  define q1 where "q1 = (if deleted then ps else q)"
  have ok1: "queue_ok q1" using assms Cons by (auto simp: q1_def queue_ok_Cons)
  have no: "deleted \<longrightarrow> event_key e \<notin> event_key ` set q1"
    using assms Cons by (auto simp: q1_def deleted_def queue_ok_Cons)
  have spec1: "queue_spec e q = queue_spec e q1"
    using Cons by (auto simp: queue_spec_def q1_def deleted_def)
  have run: "E_queue_list e q =
      (case q1 of [] \<Rightarrow> [e]
       | p # ps \<Rightarrow> if E_compare_time (ev_t e) (ev_t p) < 0 then e # E_queue_loop e True deleted q1
                  else p # E_queue_loop e False deleted ps)"
    unfolding q1_def deleted_def E_queue_list_def using Cons by (auto simp: same_event_key split: list.split)
  have head: "event_key x \<noteq> event_key e" if "q1 = x # xs" for x xs
  proof (cases deleted)
    case True
    with no that show ?thesis by force
  next
    case False
    with that Cons show ?thesis by (auto simp: q1_def deleted_def)
  qed
  show ?thesis
  proof (cases q1)
    case Nil
    with run spec1 show ?thesis by (simp add: queue_spec_def)
  next
    case (Cons x xs)
    note okx = ok1 [unfolded Cons queue_ok_Cons]
    show ?thesis
    proof (cases "time_le (ev_t x) (ev_t e)")
      case True
      have "E_queue_loop e False deleted xs = queue_spec e xs"
        using no okx Cons by (intro queue_loop_spec) auto
      with True run spec1 Cons head [OF Cons] show ?thesis
        by (simp add: compare_neg_iff queue_spec_def Let_def)
    next
      case False
      with okx Cons have later: "\<forall>y \<in> set q1. \<not> time_le (ev_t y) (ev_t e)"
        using time_le_trans by auto
      have "E_queue_loop e True deleted q1 = filter (\<lambda>p. event_key p \<noteq> event_key e) q1"
        using no ok1 by (intro queue_loop_inserted) (auto simp: queue_ok_def)
      moreover have "queue_spec e q1 = e # filter (\<lambda>p. event_key p \<noteq> event_key e) q1"
        using filter_head_later [OF later] by (simp add: queue_spec_def Let_def)
      moreover have "E_queue_list e q = e # E_queue_loop e True deleted q1"
        using run Cons False by (simp add: compare_neg_iff)
      ultimately show ?thesis using spec1 by simp
    qed
  qed
qed

lemma set_queue_spec:
  fixes e :: "'a time_event"
  shows "set (queue_spec e q) = insert e {p \<in> set q. event_key p \<noteq> event_key e}"
proof -
  define P where "P = (\<lambda>p :: 'a time_event. time_le (ev_t p) (ev_t e))"
  define q1 where "q1 = filter (\<lambda>p. event_key p \<noteq> event_key e) q"
  have "set q1 = set (takeWhile P q1) \<union> set (dropWhile P q1)"
    by (metis set_append takeWhile_dropWhile_id)
  then show ?thesis unfolding queue_spec_def Let_def P_def [symmetric] q1_def [symmetric]
    by (auto simp: q1_def)
qed

lemma queue_spec_ok:
  fixes e :: "'a time_event"
  assumes "queue_ok q"
  shows "queue_ok (queue_spec e q)"
proof -
  define P where "P = (\<lambda>p :: 'a time_event. time_le (ev_t p) (ev_t e))"
  define q1 where "q1 = filter (\<lambda>p. event_key p \<noteq> event_key e) q"
  define l r where "l = takeWhile P q1" and "r = dropWhile P q1"
  have ok: "sorted_wrt (\<lambda>a b. time_le (ev_t a) (ev_t b)) (l @ r)" "distinct (map event_key (l @ r))"
    using assms unfolding l_def r_def q1_def takeWhile_dropWhile_id
    by (auto simp: queue_ok_def sorted_wrt_filter distinct_map_filter)
  have l: "\<forall>x \<in> set l. P x" unfolding l_def by (meson set_takeWhileD)
  have r: "\<forall>x \<in> set r. time_le (ev_t e) (ev_t x)"
  proof (cases r)
    case (Cons y ys)
    have "\<not> P y" using Cons hd_dropWhile [of P q1] unfolding r_def by simp
    then have "time_le (ev_t e) (ev_t y)" by (simp add: P_def time_le_total)
    with ok(1) Cons show ?thesis by (auto simp: sorted_wrt_append dest: time_le_trans)
  qed simp
  have "event_key e \<notin> event_key ` set (l @ r)"
    unfolding l_def r_def takeWhile_dropWhile_id by (auto simp: q1_def)
  with ok l r show ?thesis
    unfolding queue_spec_def Let_def P_def [symmetric] q1_def [symmetric]
      l_def [symmetric] r_def [symmetric]
    by (auto simp: queue_ok_def sorted_wrt_append P_def)
qed

lemma E_queue_list_ok: "queue_ok q \<Longrightarrow> queue_ok (E_queue_list e q)"
  by (simp add: E_queue_list_spec queue_spec_ok)

lemma set_E_queue_list:
  "queue_ok q \<Longrightarrow> set (E_queue_list e q) = insert e {p \<in> set q. event_key p \<noteq> event_key e}"
  by (simp add: E_queue_list_spec set_queue_spec)

lemma E_dequeue_list_spec:
  "distinct (map event_key q) \<Longrightarrow>
   E_dequeue_list f c d q =
     (if (f, c, d) \<in> event_key ` set q then 0 else -1,
      filter (\<lambda>p. event_key p \<noteq> (f, c, d)) q)"
proof (induction q)
  case (Cons p ps)
  have keep: "filter (\<lambda>x. event_key x \<noteq> k) ps = ps" if "k \<notin> event_key ` set ps" for k
    using that by (metis (mono_tags, lifting) filter_True image_eqI)
  have hit: "ev_func p = f \<and> ev_data p = d \<and> ev_code p = c \<longleftrightarrow> event_key p = (f, c, d)"
    by (auto simp: event_key_def)
  show ?case
  proof (cases "event_key p = (f, c, d)")
    case True
    with Cons.prems keep [of "(f, c, d)"] hit show ?thesis by force
  next
    case False
    with Cons hit show ?thesis by (auto split: prod.splits)
  qed
qed simp

lemma E_dequeue_list_ok:
  assumes "queue_ok q"
  shows "queue_ok (snd (E_dequeue_list f c d q))"
  using assms by (simp add: queue_ok_def E_dequeue_list_spec sorted_wrt_filter distinct_map_filter)

lemma E_in_queue_list_iff: "E_in_queue_list f c d q = (if (f, c, d) \<in> event_key ` set q then 1 else 0)"
  by (induction q) (auto simp: event_key_def)

end
