(* ===== verification/Arrays.thy ===== *)
theory Arrays
  imports Prelude "HOL-Library.Multiset"
begin

text \<open>
  Arrays with a count, as the C structures keep them: the entries \<open>a 0 .. a (n - 1)\<close> are a
  list. Removal of an entry by moving the last one into its place, and the selection sort
  that the membership protocol runs on two such arrays, with the interface of the function
  that finds the smallest entry as a locale.
\<close>

definition arr_list :: "(int \<Rightarrow> 'a) \<Rightarrow> int \<Rightarrow> 'a list" where
  "arr_list a n = map a [0..n - 1]"

lemma length_arr_list [simp]: "length (arr_list a n) = nat n"
  by (simp add: arr_list_def)

lemma arr_list_empty [simp]: "n \<le> 0 \<Longrightarrow> arr_list a n = []"
  by (simp add: arr_list_def)

lemma nth_arr_list [simp]: "i < nat n \<Longrightarrow> arr_list a n ! i = a (int i)"
  by (simp add: arr_list_def nth_upto)

lemma set_arr_list: "set (arr_list a n) = a ` {0..<n}"
  by (auto simp: arr_list_def)

lemma arr_list_snoc: "0 \<le> n \<Longrightarrow> arr_list a (n + 1) = arr_list a n @ [a n]"
  by (simp add: arr_list_def upto_rec2)

lemma arr_list_upd_beyond [simp]: "n \<le> i \<Longrightarrow> arr_list (a(i := x)) n = arr_list a n"
  by (simp add: arr_list_def)

lemma arr_list_append: "0 \<le> n \<Longrightarrow> arr_list (a(n := x)) (n + 1) = arr_list a n @ [x]"
  by (simp add: arr_list_snoc)

lemma arr_list_upd: "0 \<le> i \<Longrightarrow> i < n \<Longrightarrow> arr_list (a(i := x)) n = (arr_list a n)[nat i := x]"
  by (rule nth_equalityI) (auto simp: nth_list_update)

lemma arr_list_cong: "(\<And>i. 0 \<le> i \<Longrightarrow> i < n \<Longrightarrow> a i = b i) \<Longrightarrow> arr_list a n = arr_list b n"
  by (simp add: arr_list_def)

text \<open>\<open>xs[j] = xs[n - 1]; n--;\<close>\<close>

definition swap_remove :: "nat \<Rightarrow> 'a list \<Rightarrow> 'a list" where
  "swap_remove j q = butlast (q[j := last q])"

lemma length_swap_remove_any [simp]: "length (swap_remove j q) = length q - 1"
  by (simp add: swap_remove_def)

lemma swap_remove_append: "swap_remove (length ys) (ys @ x # zs) =
    (if zs = [] then ys else ys @ last zs # butlast zs)"
  by (simp add: swap_remove_def list_update_append butlast_append)

lemma mset_swap_remove [simp]: "mset (swap_remove (length ys) (ys @ x # zs)) = mset (ys @ zs)"
  by (cases zs rule: rev_cases) (auto simp: swap_remove_append)

lemma set_swap_remove [simp]: "set (swap_remove (length ys) (ys @ x # zs)) = set (ys @ zs)"
  by (metis mset_swap_remove set_mset_mset)

lemma filter_swap_remove [simp]:
  "length (filter P (swap_remove (length ys) (ys @ x # zs))) = length (filter P (ys @ zs))"
  by (metis mset_filter mset_swap_remove size_mset)

lemma distinct_swap_remove [simp]:
  "distinct (map f (swap_remove (length ys) (ys @ x # zs))) \<longleftrightarrow> distinct (map f (ys @ zs))"
  by (cases zs rule: rev_cases) (auto simp: swap_remove_append)

lemma mset_swap_remove_nth:
  assumes "i < length xs"
  shows "mset xs = add_mset (xs ! i) (mset (swap_remove i xs))"
proof -
  let ?l = "take i xs" and ?r = "drop (Suc i) xs"
  have xs: "xs = ?l @ xs ! i # ?r" by (rule id_take_nth_drop [OF assms])
  have "length ?l = i" using assms by simp
  with xs mset_swap_remove [of ?l "xs ! i" ?r]
  have "mset (swap_remove i xs) = mset (?l @ ?r)" by simp
  moreover have "mset xs = add_mset (xs ! i) (mset (?l @ ?r))" by (subst xs) simp
  ultimately show ?thesis by simp
qed

lemma arr_list_swap_remove:
  assumes "0 \<le> i" "i < n"
  shows "arr_list (a(i := a (n - 1))) (n - 1) = swap_remove (nat i) (arr_list a n)"
proof -
  have last: "last (arr_list a n) = a (n - 1)"
    using assms arr_list_snoc [of "n - 1" a] by simp
  have "arr_list (a(i := a (n - 1))) n = (arr_list a n)[nat i := a (n - 1)]"
    using assms by (simp add: arr_list_upd)
  moreover have "arr_list (a(i := a (n - 1))) n =
      arr_list (a(i := a (n - 1))) (n - 1) @ [(a(i := a (n - 1))) (n - 1)]"
    using assms arr_list_snoc [of "n - 1" "a(i := a (n - 1))"] by simp
  ultimately show ?thesis by (simp add: swap_remove_def last) (metis butlast_snoc)
qed

section \<open>Selection sort\<close>

text \<open>
  The loop of the two sorts: out of a copy \<open>temp\<close> of the array, entry after entry, take the
  one that \<open>pick\<close> finds, and move the last one into its place.
\<close>

definition selection_sort_array ::
  "(int \<Rightarrow> (int \<Rightarrow> 'a) \<Rightarrow> int option) \<Rightarrow> int \<Rightarrow> (int \<Rightarrow> 'a) \<Rightarrow> (int \<Rightarrow> 'a) option" where
  "selection_sort_array pick n a =
     map_option fst (for_loop 0 (n - 1)
       (\<lambda>i (out, k, temp).
          (case pick k temp of
             None \<Rightarrow> None
           | Some index \<Rightarrow>
               Some (Continue (out(i := temp index), k - 1, temp(index := temp (k - 1))))))
       (a, n, a))"

text \<open>What a caller of the search for the smallest entry relies on.\<close>

locale smallest_entry =
  fixes pick :: "int \<Rightarrow> (int \<Rightarrow> 'a) \<Rightarrow> int option"
    and valid :: "'a \<Rightarrow> bool"
    and le :: "'a \<Rightarrow> 'a \<Rightarrow> bool"
  assumes pick_least: "0 < n \<Longrightarrow> \<forall>x \<in> set (arr_list a n). valid x \<Longrightarrow>
      \<exists>i. pick n a = Some i \<and> 0 \<le> i \<and> i < n \<and> (\<forall>x \<in> set (arr_list a n). le (a i) x)"
begin

text \<open>
  With such a search the sort does not abort, permutes the entries and orders them.
\<close>

lemma sort_array:
  assumes n: "0 \<le> n" and v: "\<forall>x \<in> set (arr_list a n). valid x"
  shows "\<exists>b. selection_sort_array pick n a = Some b \<and>
    mset (arr_list b n) = mset (arr_list a n) \<and> sorted_wrt le (arr_list b n)"
proof -
  define body where "body = (\<lambda>(i :: int) (out :: int \<Rightarrow> 'a, k, temp).
          (case pick k temp of
             None \<Rightarrow> None
           | Some index \<Rightarrow>
               Some (Continue (out(i := temp index), k - 1, temp(index := temp (k - 1))))))"
  define P where "P = (\<lambda>i (out :: int \<Rightarrow> 'a, k, temp :: int \<Rightarrow> 'a).
      0 \<le> i \<and> i \<le> n \<and> k = n - i \<and>
      mset (arr_list out i) + mset (arr_list temp k) = mset (arr_list a n) \<and>
      sorted_wrt le (arr_list out i) \<and>
      (\<forall>x \<in> set (arr_list out i). \<forall>y \<in> set (arr_list temp k). le x y))"
  have start: "P 0 (a, n, a)" using n by (simp add: P_def)
  have step: "\<exists>r. body i t = Some (Continue r) \<and> P (i + 1) r" if "0 \<le> i" "i \<le> n - 1" "P i t" for i t
  proof -
    obtain out k temp where t: "t = (out, k, temp)" by (cases t)
    with that have i: "0 \<le> i" "i < n" and k: "k = n - i" "0 < k"
      and ms: "mset (arr_list out i) + mset (arr_list temp k) = mset (arr_list a n)"
      and so: "sorted_wrt le (arr_list out i)"
      and lo: "\<forall>x \<in> set (arr_list out i). \<forall>y \<in> set (arr_list temp k). le x y"
      by (auto simp: P_def)
    have "set (arr_list temp k) \<subseteq> set (arr_list a n)"
      using ms by (metis mset_subset_eq_add_right set_mset_mono set_mset_mset)
    with v k(2) obtain j where j: "pick k temp = Some j" "0 \<le> j" "j < k"
      "\<forall>x \<in> set (arr_list temp k). le (temp j) x"
      using pick_least [of k temp] by blast
    let ?temp = "temp(j := temp (k - 1))" and ?out = "out(i := temp j)"
    have out: "arr_list ?out (i + 1) = arr_list out i @ [temp j]"
      using i by (simp add: arr_list_append)
    have rest: "mset (arr_list temp k) = add_mset (temp j) (mset (arr_list ?temp (k - 1)))"
      using j mset_swap_remove_nth [of "nat j" "arr_list temp k"]
      by (simp add: arr_list_swap_remove nat_less_eq_zless)
    then have sub: "set (arr_list temp k) = insert (temp j) (set (arr_list ?temp (k - 1)))"
      by (metis set_mset_add_mset_insert set_mset_mset)
    have "temp j \<in> set (arr_list temp k)" using sub by simp
    with lo so have "sorted_wrt le (arr_list ?out (i + 1))"
      unfolding out by (simp add: sorted_wrt_append)
    moreover have "mset (arr_list ?out (i + 1)) + mset (arr_list ?temp (k - 1)) = mset (arr_list a n)"
      using ms unfolding out rest by simp
    moreover have "\<forall>x \<in> set (arr_list ?out (i + 1)). \<forall>y \<in> set (arr_list ?temp (k - 1)). le x y"
      using lo j(4) unfolding out sub by auto
    ultimately have "P (i + 1) (?out, k - 1, ?temp)" using i k by (simp add: P_def)
    then show ?thesis using j(1) t by (simp add: body_def)
  qed
  have "\<exists>s'. for_loop 0 (n - 1) body (a, n, a) = Some s' \<and> P (max 0 (n - 1 + 1)) s'"
    by (rule for_loop_run) (use start step in blast)+
  then obtain out k temp where run: "for_loop 0 (n - 1) body (a, n, a) = Some (out, k, temp)"
    and "P (max 0 (n - 1 + 1)) (out, k, temp)"
    by (metis prod_cases3)
  then have "P n (out, k, temp)" using n by simp
  then have "mset (arr_list out n) = mset (arr_list a n)" "sorted_wrt le (arr_list out n)"
    by (auto simp: P_def)
  with run show ?thesis by (auto simp: selection_sort_array_def body_def)
qed

end

end
