(* ===== verification/EventsFd.thy ===== *)
theory EventsFd
  imports Arrays
begin

text \<open>
  The descriptor tables of \<open>libspread-util/src/events.c\<close>. Per priority a table of
  descriptors with their handlers; per descriptor type the set of descriptors given to
  \<open>select\<close>; the threshold \<open>Active_priority\<close>, below which descriptors are not polled. A
  table is the list of its first \<open>num_fds\<close> entries. The handlers are opaque values.
\<close>

abbreviation (input) NUM_PRIORITY :: int where "NUM_PRIORITY \<equiv> 3"
abbreviation (input) NUM_FDTYPES :: int where "NUM_FDTYPES \<equiv> 3"
abbreviation (input) MAX_FD_EVENTS :: int where "MAX_FD_EVENTS \<equiv> 2000"
abbreviation (input) FD_SETSIZE :: int where "FD_SETSIZE \<equiv> 1024"

abbreviation (input) LOW_PRIORITY :: int where "LOW_PRIORITY \<equiv> 0"
abbreviation (input) MEDIUM_PRIORITY :: int where "MEDIUM_PRIORITY \<equiv> 1"
abbreviation (input) HIGH_PRIORITY :: int where "HIGH_PRIORITY \<equiv> 2"
abbreviation (input) READ_FD :: int where "READ_FD \<equiv> 0"

record 'f fd_event =
  fe_fd :: int
  fe_type :: int
  fe_func :: 'f
  fe_code :: int
  fe_data :: nat
  fe_active :: bool

record 'f fd_state =
  Fd_queue :: "int \<Rightarrow> 'f fd_event list"
  num_active_fds :: "int \<Rightarrow> int"
  Fd_mask :: "int \<Rightarrow> int set"
  Active_priority :: int

definition E_init_fds :: "'f fd_state" where
  "E_init_fds = \<lparr>Fd_queue = (\<lambda>_. []), num_active_fds = (\<lambda>_. 0), Fd_mask = (\<lambda>_. {}),
     Active_priority = LOW_PRIORITY\<rparr>"

definition fd_match :: "int \<Rightarrow> int \<Rightarrow> 'f fd_event \<Rightarrow> bool" where
  "fd_match fd ty e \<longleftrightarrow> fe_fd e = fd \<and> fe_type e = ty"

definition E_attach_fd ::
  "int \<Rightarrow> int \<Rightarrow> 'f \<Rightarrow> int \<Rightarrow> nat \<Rightarrow> int \<Rightarrow> 'f fd_state \<Rightarrow> int \<times> 'f fd_state" where
  "E_attach_fd fd ty fn cd dt prio s =
     (if prio < 0 \<or> prio \<ge> NUM_PRIORITY then (-1, s)
      else if ty < 0 \<or> ty \<ge> NUM_FDTYPES then (-1, s)
      else if fd < 0 \<or> fd > FD_SETSIZE then (-1, s)
      else
        let q = Fd_queue s prio; j = index_of (fd_match fd ty) q in
        if j \<ge> 0 then
          let e = q ! nat j in
          (1, s\<lparr>Fd_queue := (Fd_queue s)(prio := q[nat j :=
                   e\<lparr>fe_func := fn, fe_code := cd, fe_data := dt, fe_active := True\<rparr>]),
                num_active_fds := (if fe_active e then num_active_fds s
                   else (num_active_fds s)(prio := num_active_fds s prio + 1))\<rparr>)
        else if int (length q) = MAX_FD_EVENTS then (-1, s)
        else
          (0, s\<lparr>Fd_queue := (Fd_queue s)(prio := q @
                  [\<lparr>fe_fd = fd, fe_type = ty, fe_func = fn, fe_code = cd, fe_data = dt,
                    fe_active = True\<rparr>]),
                num_active_fds := (num_active_fds s)(prio := num_active_fds s prio + 1),
                Fd_mask := (if Active_priority s \<le> prio
                   then (Fd_mask s)(ty := insert fd (Fd_mask s ty)) else Fd_mask s)\<rparr>))"

definition E_detach_fd_priority :: "int \<Rightarrow> int \<Rightarrow> int \<Rightarrow> 'f fd_state \<Rightarrow> int \<times> 'f fd_state" where
  "E_detach_fd_priority fd ty prio s =
     (if ty < 0 \<or> ty \<ge> NUM_FDTYPES then (-1, s)
      else
        let q = Fd_queue s prio; i = index_of (fd_match fd ty) q in
        if i < 0 then (-1, s)
        else
          (0, s\<lparr>num_active_fds := (if fe_active (q ! nat i)
                   then (num_active_fds s)(prio := num_active_fds s prio - 1)
                   else num_active_fds s),
                Fd_queue := (Fd_queue s)(prio := swap_remove (nat i) q),
                Fd_mask := (Fd_mask s)(ty := Fd_mask s ty - {fd})\<rparr>))"

definition E_detach_fd :: "int \<Rightarrow> int \<Rightarrow> 'f fd_state \<Rightarrow> int \<times> 'f fd_state" where
  "E_detach_fd fd ty s =
     (if ty < 0 \<or> ty \<ge> NUM_FDTYPES then (-1, s)
      else
        let (found, s') = fold (\<lambda>i (found, s).
              (case E_detach_fd_priority fd ty i s of (r, s') \<Rightarrow> (found \<or> r = 0, s')))
              [0..NUM_PRIORITY - 1] (False, s)
        in if \<not> found then (-1, s') else (0, s'))"

text \<open>One round of the loop over the priorities in \<open>E_deactivate_fd\<close> and \<open>E_activate_fd\<close>.\<close>

definition deactivate_at :: "int \<Rightarrow> int \<Rightarrow> int \<Rightarrow> bool \<times> 'f fd_state \<Rightarrow> bool \<times> 'f fd_state" where
  "deactivate_at fd ty i fs =
     (case fs of (found, s) \<Rightarrow>
        let q = Fd_queue s i; j = index_of (fd_match fd ty) q in
        if j < 0 then (found, s)
        else
          (True, s\<lparr>num_active_fds := (if fe_active (q ! nat j)
                      then (num_active_fds s)(i := num_active_fds s i - 1)
                      else num_active_fds s),
                   Fd_queue := (Fd_queue s)(i := q[nat j := (q ! nat j)\<lparr>fe_active := False\<rparr>]),
                   Fd_mask := (Fd_mask s)(ty := Fd_mask s ty - {fd})\<rparr>))"

definition E_deactivate_fd :: "int \<Rightarrow> int \<Rightarrow> 'f fd_state \<Rightarrow> int \<times> 'f fd_state" where
  "E_deactivate_fd fd ty s =
     (if ty < 0 \<or> ty \<ge> NUM_FDTYPES then (-1, s)
      else
        let (found, s') = fold (deactivate_at fd ty) [0..NUM_PRIORITY - 1] (False, s)
        in if \<not> found then (-1, s') else (0, s'))"

definition activate_at :: "int \<Rightarrow> int \<Rightarrow> int \<Rightarrow> bool \<times> 'f fd_state \<Rightarrow> bool \<times> 'f fd_state" where
  "activate_at fd ty i fs =
     (case fs of (found, s) \<Rightarrow>
        let q = Fd_queue s i; j = index_of (fd_match fd ty) q in
        if j < 0 then (found, s)
        else
          (True, s\<lparr>num_active_fds := (if fe_active (q ! nat j) then num_active_fds s
                      else (num_active_fds s)(i := num_active_fds s i + 1)),
                   Fd_queue := (Fd_queue s)(i := q[nat j := (q ! nat j)\<lparr>fe_active := True\<rparr>]),
                   Fd_mask := (if i \<ge> Active_priority s
                      then (Fd_mask s)(ty := insert fd (Fd_mask s ty)) else Fd_mask s)\<rparr>))"

definition E_activate_fd :: "int \<Rightarrow> int \<Rightarrow> 'f fd_state \<Rightarrow> int \<times> 'f fd_state" where
  "E_activate_fd fd ty s =
     (if ty < 0 \<or> ty \<ge> NUM_FDTYPES then (-1, s)
      else
        let (found, s') = fold (activate_at fd ty) [0..NUM_PRIORITY - 1] (False, s)
        in if \<not> found then (-1, s') else (0, s'))"

definition mask_add :: "'f fd_event \<Rightarrow> (int \<Rightarrow> int set) \<Rightarrow> (int \<Rightarrow> int set)" where
  "mask_add e m =
     (if fe_active e then m(fe_type e := insert (fe_fd e) (m (fe_type e))) else m)"

definition E_set_active_threshold :: "int \<Rightarrow> 'f fd_state \<Rightarrow> int \<times> 'f fd_state" where
  "E_set_active_threshold prio s =
     (if prio < 0 \<or> prio \<ge> NUM_PRIORITY then (-1, s)
      else if prio = Active_priority s then (prio, s)
      else
        (prio, s\<lparr>Active_priority := prio,
                 Fd_mask := fold (\<lambda>i. fold mask_add (Fd_queue s i)) [prio..NUM_PRIORITY - 1] (\<lambda>_. {})\<rparr>))"

definition E_num_active :: "int \<Rightarrow> 'f fd_state \<Rightarrow> int" where
  "E_num_active prio s = (if prio < 0 \<or> prio \<ge> NUM_PRIORITY then -1 else num_active_fds s prio)"

section \<open>The invariants\<close>

definition prios :: "int set" where
  "prios = {0, 1, 2}"

text \<open>The number kept per priority is the number of active entries.\<close>

definition count_ok :: "'f fd_state \<Rightarrow> bool" where
  "count_ok s \<longleftrightarrow> (\<forall>i \<in> prios. num_active_fds s i = int (length (filter fe_active (Fd_queue s i))))"

text \<open>Descriptors that \<open>select\<close> has to watch: active, at or above the threshold.\<close>

definition watched :: "'f fd_state \<Rightarrow> int \<Rightarrow> int set" where
  "watched s ty = {fe_fd e | e. \<exists>i \<in> prios. Active_priority s \<le> i \<and> e \<in> set (Fd_queue s i) \<and>
                                 fe_type e = ty \<and> fe_active e}"

definition mask_ok :: "'f fd_state \<Rightarrow> bool" where
  "mask_ok s \<longleftrightarrow> (\<forall>ty. Fd_mask s ty = watched s ty)"

definition fe_key :: "'f fd_event \<Rightarrow> int \<times> int" where
  "fe_key e = (fe_fd e, fe_type e)"

text \<open>A descriptor of a type is in one table, once.\<close>

definition tables_ok :: "'f fd_state \<Rightarrow> bool" where
  "tables_ok s \<longleftrightarrow>
     (\<forall>i \<in> prios. distinct (map fe_key (Fd_queue s i)) \<and> int (length (Fd_queue s i)) \<le> MAX_FD_EVENTS) \<and>
     (\<forall>i \<in> prios. \<forall>j \<in> prios. i \<noteq> j \<longrightarrow>
        fe_key ` set (Fd_queue s i) \<inter> fe_key ` set (Fd_queue s j) = {})"

lemma prio_list: "[0..2] = [0, 1, 2 :: int]"
  by (simp add: upto.simps)

lemma fd_match_key: "fd_match fd ty e \<longleftrightarrow> fe_key e = (fd, ty)"
  by (auto simp: fd_match_def fe_key_def)

lemma prios_iff: "i \<in> prios \<longleftrightarrow> 0 \<le> i \<and> i < NUM_PRIORITY"
  by (auto simp: prios_def)

lemma count_attach: "count_ok s \<Longrightarrow> count_ok (snd (E_attach_fd fd ty fn cd dt prio s))"
proof -
  assume c: "count_ok s"
  let ?q = "Fd_queue s prio" and ?j = "index_of (fd_match fd ty) (Fd_queue s prio)"
  show ?thesis
  proof (cases "0 \<le> ?j")
    case True
    then obtain ys x zs where q: "?q = ys @ x # zs" "nat ?j = length ys"
      by (rule index_of_split)
    with c show ?thesis
      by (auto simp: E_attach_fd_def Let_def count_ok_def list_update_append)
  next
    case False
    with c show ?thesis by (auto simp: E_attach_fd_def Let_def count_ok_def)
  qed
qed

lemma count_detach: "count_ok s \<Longrightarrow> count_ok (snd (E_detach_fd_priority fd ty prio s))"
proof -
  assume c: "count_ok s"
  let ?q = "Fd_queue s prio" and ?j = "index_of (fd_match fd ty) (Fd_queue s prio)"
  show ?thesis
  proof (cases "0 \<le> ?j")
    case True
    then obtain ys x zs where q: "?q = ys @ x # zs" "nat ?j = length ys"
      by (rule index_of_split)
    with c show ?thesis
      by (auto simp: E_detach_fd_priority_def Let_def count_ok_def)
  next
    case False
    with c show ?thesis by (auto simp: E_detach_fd_priority_def Let_def count_ok_def)
  qed
qed

section \<open>Which descriptors are watched\<close>

lemma watched_iff:
  "fd \<in> watched s ty \<longleftrightarrow>
     (\<exists>i \<in> prios. Active_priority s \<le> i \<and>
        (\<exists>e \<in> set (Fd_queue s i). fe_key e = (fd, ty) \<and> fe_active e))"
  by (auto simp: watched_def fe_key_def)

lemma mask_okI:
  "(\<And>fd ty. fd \<in> Fd_mask s ty \<longleftrightarrow> fd \<in> watched s ty) \<Longrightarrow> mask_ok s"
  by (auto simp: mask_ok_def)

lemma mask_okD: "mask_ok s \<Longrightarrow> Fd_mask s ty = watched s ty"
  by (simp add: mask_ok_def)

lemma fold_mask_add:
  "fold mask_add q m ty = m ty \<union> {fe_fd e | e. e \<in> set q \<and> fe_type e = ty \<and> fe_active e}"
  by (induction q arbitrary: m) (auto simp: mask_add_def)

lemma fold_fold_mask_add:
  "fd \<in> fold (\<lambda>i. fold mask_add (f i)) is m ty \<longleftrightarrow>
     fd \<in> m ty \<or> (\<exists>i \<in> set is. \<exists>e \<in> set (f i). fe_key e = (fd, ty) \<and> fe_active e)"
  by (induction "is" arbitrary: m) (auto simp: fold_mask_add fe_key_def)

lemma threshold_mask_ok:
  "prio \<in> prios \<Longrightarrow> prio \<noteq> Active_priority s \<Longrightarrow> mask_ok (snd (E_set_active_threshold prio s))"
  by (intro mask_okI)
     (auto simp: E_set_active_threshold_def prios_iff fold_fold_mask_add watched_iff)

text \<open>A table in which the entry of a descriptor is the only one with its key.\<close>

lemma tables_ok_split:
  assumes "tables_ok s" "i \<in> prios" "Fd_queue s i = ys @ x # zs"
  shows "fe_key x \<notin> fe_key ` set ys" "fe_key x \<notin> fe_key ` set zs"
    "j \<in> prios \<Longrightarrow> j \<noteq> i \<Longrightarrow> fe_key x \<notin> fe_key ` set (Fd_queue s j)"
proof -
  have "distinct (map fe_key (ys @ x # zs))"
    using assms(1,2) unfolding tables_ok_def assms(3) [symmetric] by blast
  then show "fe_key x \<notin> fe_key ` set ys" "fe_key x \<notin> fe_key ` set zs" by auto
  show "fe_key x \<notin> fe_key ` set (Fd_queue s j)" if "j \<in> prios" "j \<noteq> i"
    using assms that by (fastforce simp: tables_ok_def)
qed

definition fd_ok :: "'f fd_state \<Rightarrow> bool" where
  "fd_ok s \<longleftrightarrow> count_ok s \<and> tables_ok s \<and> mask_ok s"

definition attached :: "int \<Rightarrow> int \<Rightarrow> int \<Rightarrow> 'f fd_state \<Rightarrow> bool" where
  "attached fd ty i s \<longleftrightarrow> (fd, ty) \<in> fe_key ` set (Fd_queue s i)"

lemma attached_index: "attached fd ty i s \<longleftrightarrow> 0 \<le> index_of (fd_match fd ty) (Fd_queue s i)"
  using index_of_neg_iff [of "fd_match fd ty" "Fd_queue s i"]
  by (force simp: attached_def fd_match_key image_iff)

text \<open>
  An operation on one descriptor of one table keeps the masks right if it leaves the other
  descriptors alone and sets its own bit by the new state of the entry.
\<close>

lemma mask_ok_change:
  assumes old: "mask_ok s" and act: "Active_priority s' = Active_priority s" and i: "i \<in> prios"
    and queues: "\<And>k. k \<noteq> i \<Longrightarrow> Fd_queue s' k = Fd_queue s k"
    and others: "\<And>e. fe_key e \<noteq> (fd, ty) \<Longrightarrow> e \<in> set (Fd_queue s' i) \<longleftrightarrow> e \<in> set (Fd_queue s i)"
    and only: "\<And>k. k \<in> prios \<Longrightarrow> k \<noteq> i \<Longrightarrow> \<not> attached fd ty k s"
    and mask_other: "\<And>fd' ty'. (fd', ty') \<noteq> (fd, ty) \<Longrightarrow> fd' \<in> Fd_mask s' ty' \<longleftrightarrow> fd' \<in> Fd_mask s ty'"
    and mask_this: "fd \<in> Fd_mask s' ty \<longleftrightarrow> Active_priority s \<le> i \<and>
          (\<exists>e \<in> set (Fd_queue s' i). fe_key e = (fd, ty) \<and> fe_active e)"
  shows "mask_ok s'"
proof (rule mask_okI)
  fix fd' ty'
  show "fd' \<in> Fd_mask s' ty' \<longleftrightarrow> fd' \<in> watched s' ty'"
  proof (cases "(fd', ty') = (fd, ty)")
    case True
    have "fd \<in> watched s' ty \<longleftrightarrow> Active_priority s \<le> i \<and>
        (\<exists>e \<in> set (Fd_queue s' i). fe_key e = (fd, ty) \<and> fe_active e)"
      using only queues i act unfolding watched_iff attached_def by (metis image_eqI)
    with True mask_this show ?thesis by simp
  next
    case False
    have "(\<exists>e \<in> set (Fd_queue s' k). fe_key e = (fd', ty') \<and> fe_active e) \<longleftrightarrow>
        (\<exists>e \<in> set (Fd_queue s k). fe_key e = (fd', ty') \<and> fe_active e)" for k
      using False queues [of k] others by (cases "k = i") auto
    then have "fd' \<in> watched s' ty' \<longleftrightarrow> fd' \<in> watched s ty'"
      by (simp add: watched_iff act)
    with False mask_other mask_okD [OF old, of ty'] show ?thesis by simp
  qed
qed

lemma detach_mask:
  assumes "tables_ok s" "mask_ok s" "prio \<in> prios"
  shows "mask_ok (snd (E_detach_fd_priority fd ty prio s))"
proof (cases "0 \<le> index_of (fd_match fd ty) (Fd_queue s prio) \<and> 0 \<le> ty \<and> ty < NUM_FDTYPES")
  case False
  with assms show ?thesis by (auto simp: E_detach_fd_priority_def Let_def)
next
  case True
  then have "0 \<le> index_of (fd_match fd ty) (Fd_queue s prio)" by simp
  then obtain ys x zs where q: "Fd_queue s prio = ys @ x # zs" "fd_match fd ty x"
    "nat (index_of (fd_match fd ty) (Fd_queue s prio)) = length ys"
    by (rule index_of_split)
  note only = tables_ok_split [OF assms(1,3) q(1)]
  have key: "fe_key x = (fd, ty)" using q(2) by (simp add: fd_match_key)
  let ?s = "snd (E_detach_fd_priority fd ty prio s)"
  have r: "set (Fd_queue ?s prio) = set ys \<union> set zs"
    "k \<noteq> prio \<Longrightarrow> Fd_queue ?s k = Fd_queue s k"
    "Fd_mask ?s = (Fd_mask s)(ty := Fd_mask s ty - {fd})"
    "Active_priority ?s = Active_priority s" for k
    using True q by (auto simp: E_detach_fd_priority_def Let_def)
  show ?thesis
  proof (rule mask_ok_change [OF assms(2) r(4) assms(3), of fd ty])
    show "fd \<in> Fd_mask ?s ty \<longleftrightarrow> Active_priority s \<le> prio \<and>
        (\<exists>e \<in> set (Fd_queue ?s prio). fe_key e = (fd, ty) \<and> fe_active e)"
    proof -
      have "\<not> (\<exists>e \<in> set ys \<union> set zs. fe_key e = (fd, ty))"
        using only(1,2) key by (metis Un_iff image_eqI)
      then show ?thesis unfolding r by auto
    qed
    show "e \<in> set (Fd_queue ?s prio) \<longleftrightarrow> e \<in> set (Fd_queue s prio)" if "fe_key e \<noteq> (fd, ty)" for e
      using that key unfolding r q(1) by auto
    show "\<not> attached fd ty k s" if "k \<in> prios" "k \<noteq> prio" for k
      using only(3) [OF that] key by (simp add: attached_def)
  qed (auto simp: r)
qed

lemma detach_tables:
  assumes "tables_ok s" "prio \<in> prios"
  shows "tables_ok (snd (E_detach_fd_priority fd ty prio s))"
proof (cases "0 \<le> index_of (fd_match fd ty) (Fd_queue s prio) \<and> 0 \<le> ty \<and> ty < NUM_FDTYPES")
  case False
  with assms show ?thesis by (auto simp: E_detach_fd_priority_def Let_def)
next
  case True
  then have "0 \<le> index_of (fd_match fd ty) (Fd_queue s prio)" by simp
  then obtain ys x zs where q: "Fd_queue s prio = ys @ x # zs"
    "nat (index_of (fd_match fd ty) (Fd_queue s prio)) = length ys"
    by (rule index_of_split)
  have dist: "distinct (map fe_key (ys @ x # zs))" "int (length (ys @ x # zs)) \<le> MAX_FD_EVENTS"
    using assms unfolding tables_ok_def q(1) [symmetric] by blast+
  have sub: "fe_key ` set (Fd_queue (snd (E_detach_fd_priority fd ty prio s)) i)
      \<subseteq> fe_key ` set (Fd_queue s i)" for i
    using q by (auto simp: E_detach_fd_priority_def Let_def)
  have len: "distinct (map fe_key (Fd_queue (snd (E_detach_fd_priority fd ty prio s)) i)) \<and>
      int (length (Fd_queue (snd (E_detach_fd_priority fd ty prio s)) i)) \<le> MAX_FD_EVENTS"
    if "i \<in> prios" for i
    using assms that q dist by (auto simp: E_detach_fd_priority_def Let_def tables_ok_def)
  from assms(1) have dis: "\<forall>i \<in> prios. \<forall>j \<in> prios. i \<noteq> j \<longrightarrow>
      fe_key ` set (Fd_queue s i) \<inter> fe_key ` set (Fd_queue s j) = {}"
    by (simp add: tables_ok_def)
  have "fe_key ` set (Fd_queue (snd (E_detach_fd_priority fd ty prio s)) i) \<inter>
      fe_key ` set (Fd_queue (snd (E_detach_fd_priority fd ty prio s)) j) = {}"
    if "i \<in> prios" "j \<in> prios" "i \<noteq> j" for i j
    using sub [of i] sub [of j] dis [rule_format, OF that] by (meson disjoint_iff subsetD)
  with len show ?thesis unfolding tables_ok_def by simp
qed

lemma detach_fd_ok:
  "fd_ok s \<Longrightarrow> prio \<in> prios \<Longrightarrow> fd_ok (snd (E_detach_fd_priority fd ty prio s))"
  by (simp add: fd_ok_def count_detach detach_tables detach_mask)

text \<open>
  \<open>E_activate_fd\<close> and \<open>E_deactivate_fd\<close> change the flag of one entry; \<open>flag_at b\<close> is what
  both do to one table.
\<close>

definition flag_at :: "bool \<Rightarrow> int \<Rightarrow> int \<Rightarrow> int \<Rightarrow> bool \<times> 'f fd_state \<Rightarrow> bool \<times> 'f fd_state" where
  "flag_at b = (if b then activate_at else deactivate_at)"

lemma flag_at_count:
  "count_ok s \<Longrightarrow> count_ok (snd (flag_at b fd ty i (f, s)))"
proof -
  assume c: "count_ok s"
  let ?j = "index_of (fd_match fd ty) (Fd_queue s i)"
  show ?thesis
  proof (cases "0 \<le> ?j")
    case True
    then obtain ys x zs where q: "Fd_queue s i = ys @ x # zs" "nat ?j = length ys"
      by (rule index_of_split)
    with c show ?thesis
      by (auto simp: flag_at_def activate_at_def deactivate_at_def Let_def count_ok_def
          list_update_append)
  next
    case False
    with c show ?thesis
      by (auto simp: flag_at_def activate_at_def deactivate_at_def Let_def count_ok_def)
  qed
qed

lemma map_key_flag: "map fe_key (q[j := (q ! j)\<lparr>fe_active := v\<rparr>]) = map fe_key q"
proof (cases "j < length q")
  case True
  have "fe_key ((q ! j)\<lparr>fe_active := v\<rparr>) = map fe_key q ! j" using True by (simp add: fe_key_def)
  then show ?thesis by (simp add: map_update)
qed (simp add: list_update_beyond)

lemma flag_at_keys:
  "map fe_key (Fd_queue (snd (flag_at b fd ty i (f, s))) k) = map fe_key (Fd_queue s k)"
  by (simp add: flag_at_def activate_at_def deactivate_at_def Let_def map_key_flag)

lemma flag_at_tables: "tables_ok s \<Longrightarrow> tables_ok (snd (flag_at b fd ty i (f, s)))"
  using flag_at_keys [of b fd ty i f s]
  by (simp add: tables_ok_def) (metis length_map set_map)

lemma flag_at_mask:
  assumes "tables_ok s" "mask_ok s" "i \<in> prios"
  shows "mask_ok (snd (flag_at b fd ty i (f, s)))"
proof (cases "0 \<le> index_of (fd_match fd ty) (Fd_queue s i)")
  case False
  with assms show ?thesis by (auto simp: flag_at_def activate_at_def deactivate_at_def Let_def)
next
  case True
  then obtain ys x zs where q: "Fd_queue s i = ys @ x # zs" "fd_match fd ty x"
    "nat (index_of (fd_match fd ty) (Fd_queue s i)) = length ys"
    by (rule index_of_split)
  note only = tables_ok_split [OF assms(1,3) q(1)]
  have key: "fe_key x = (fd, ty)" "fe_key (x\<lparr>fe_active := v\<rparr>) = (fd, ty)" for v
    using q(2) by (auto simp: fd_match_key fe_key_def)
  let ?s = "snd (flag_at b fd ty i (f, s))"
  have r: "set (Fd_queue ?s i) = insert (x\<lparr>fe_active := b\<rparr>) (set ys \<union> set zs)"
    "k \<noteq> i \<Longrightarrow> Fd_queue ?s k = Fd_queue s k"
    "Fd_mask ?s = (if b then if Active_priority s \<le> i then (Fd_mask s)(ty := insert fd (Fd_mask s ty))
                             else Fd_mask s
                   else (Fd_mask s)(ty := Fd_mask s ty - {fd}))"
    "Active_priority ?s = Active_priority s" for k
    using True q by (auto simp: flag_at_def activate_at_def deactivate_at_def Let_def list_update_append)
  have unwatched: "fd \<notin> Fd_mask s ty" if "\<not> Active_priority s \<le> i"
  proof
    assume "fd \<in> Fd_mask s ty"
    then obtain k e where k: "k \<in> prios" "Active_priority s \<le> k" "e \<in> set (Fd_queue s k)"
        "fe_key e = fe_key x"
      using mask_okD [OF assms(2), of ty] key(1) by (auto simp: watched_iff)
    with that have "k \<noteq> i" by auto
    with only(3) [OF k(1)] k(3,4) show False by (metis image_eqI)
  qed
  show ?thesis
  proof (rule mask_ok_change [OF assms(2) r(4) assms(3), of fd ty])
    have "(\<exists>e \<in> set (Fd_queue ?s i). fe_key e = (fd, ty) \<and> fe_active e) \<longleftrightarrow> b"
      using only(1,2) key unfolding r(1) by (auto simp: image_iff)
    then show "fd \<in> Fd_mask ?s ty \<longleftrightarrow> Active_priority s \<le> i \<and>
        (\<exists>e \<in> set (Fd_queue ?s i). fe_key e = (fd, ty) \<and> fe_active e)"
      using unwatched unfolding r(3) by auto
  qed (use r only key q in \<open>auto simp: attached_def\<close>)
qed

lemma flag_at_fd_ok: "fd_ok s \<Longrightarrow> i \<in> prios \<Longrightarrow> fd_ok (snd (flag_at b fd ty i (f, s)))"
  by (simp add: fd_ok_def flag_at_count flag_at_tables flag_at_mask)

lemma flag_fold_fd_ok:
  "set is \<subseteq> prios \<Longrightarrow> fd_ok s \<Longrightarrow> fd_ok (snd (fold (flag_at b fd ty) is (f, s)))"
proof (induction "is" arbitrary: f s)
  case (Cons i "is")
  then have "fd_ok (snd (flag_at b fd ty i (f, s)))" by (simp add: flag_at_fd_ok)
  with Cons show ?case by (cases "flag_at b fd ty i (f, s)") auto
qed simp

lemma activate_fd_ok: "fd_ok s \<Longrightarrow> fd_ok (snd (E_activate_fd fd ty s))"
  using flag_fold_fd_ok [of "[0, 1, 2]" s True fd ty False]
  by (auto simp: E_activate_fd_def prio_list flag_at_def prios_def split: prod.splits)

lemma deactivate_fd_ok: "fd_ok s \<Longrightarrow> fd_ok (snd (E_deactivate_fd fd ty s))"
  using flag_fold_fd_ok [of "[0, 1, 2]" s False fd ty False]
  by (auto simp: E_deactivate_fd_def prio_list flag_at_def prios_def split: prod.splits)

text \<open>\<open>E_attach_fd\<close> keeps the invariant for a new descriptor, and for an active one.\<close>

lemma attach_new_fd_ok:
  assumes ok: "fd_ok s" and new: "\<forall>i \<in> prios. \<not> attached fd ty i s"
  shows "fd_ok (snd (E_attach_fd fd ty fn cd dt prio s))"
proof (cases "fst (E_attach_fd fd ty fn cd dt prio s) = 0")
  case False
  with ok new show ?thesis by (auto simp: E_attach_fd_def Let_def attached_index prios_iff)
next
  case True
  let ?e = "\<lparr>fe_fd = fd, fe_type = ty, fe_func = fn, fe_code = cd, fe_data = dt, fe_active = True\<rparr>"
  let ?s = "snd (E_attach_fd fd ty fn cd dt prio s)"
  from True have p: "prio \<in> prios" "\<not> attached fd ty prio s" "int (length (Fd_queue s prio)) \<noteq> MAX_FD_EVENTS"
    and q: "Fd_queue ?s = (Fd_queue s)(prio := Fd_queue s prio @ [?e])"
    and m: "Fd_mask ?s = (if Active_priority s \<le> prio
                   then (Fd_mask s)(ty := insert fd (Fd_mask s ty)) else Fd_mask s)"
    and a: "Active_priority ?s = Active_priority s"
    by (auto simp: E_attach_fd_def Let_def attached_index prios_iff split: if_splits)
  have key: "fe_key ?e = (fd, ty)" by (simp add: fe_key_def)
  have fresh: "(fd, ty) \<notin> fe_key ` set (Fd_queue s i)" if "i \<in> prios" for i
    using new that by (simp add: attached_def)
  have old: "tables_ok s" "mask_ok s" using ok by (auto simp: fd_ok_def)
  have "tables_ok ?s"
    unfolding tables_ok_def q using old(1) p fresh key by (auto simp: tables_ok_def)
  moreover have "mask_ok ?s"
  proof (rule mask_ok_change [OF old(2) a p(1), of fd ty])
    have no: "\<not> (\<exists>e \<in> set (Fd_queue s i). fe_key e = (fd, ty))" if "i \<in> prios" for i
      using fresh [OF that] by (metis image_eqI)
    have "fd \<notin> Fd_mask s ty"
      using no mask_okD [OF old(2), of ty] by (auto simp: watched_iff)
    then show "fd \<in> Fd_mask ?s ty \<longleftrightarrow> Active_priority s \<le> prio \<and>
        (\<exists>e \<in> set (Fd_queue ?s prio). fe_key e = (fd, ty) \<and> fe_active e)"
      using no [OF p(1)] key unfolding q m by auto
    show "\<not> attached fd ty k s" if "k \<in> prios" for k using new that by blast
  qed (use key in \<open>auto simp: q m\<close>)
  ultimately show ?thesis using ok count_attach by (auto simp: fd_ok_def)
qed

end
