(* ===== verification/NetTypes.thy ===== *)
theory NetTypes
  imports Prelude
begin

text \<open>
  The wire types, \<open>daemon/net_types.h\<close> and the integer macros of \<open>daemon/arch.h\<close>: the bits
  of a packet's type word, the ARQ and retransmission counters that a token carries in its
  type word, byte swapping, and the packet and token headers. Sequence numbers are integers;
  the bounds that keep them inside an \<open>int32\<close> are theorems of the protocol theories.
\<close>

section \<open>The type word\<close>

abbreviation (input) UNRELIABLE_TYPE :: "32 word" where "UNRELIABLE_TYPE \<equiv> 0x00000001"
abbreviation (input) RELIABLE_TYPE :: "32 word" where "RELIABLE_TYPE \<equiv> 0x00000002"
abbreviation (input) FIFO_TYPE :: "32 word" where "FIFO_TYPE \<equiv> 0x00000004"
abbreviation (input) AGREED_TYPE :: "32 word" where "AGREED_TYPE \<equiv> 0x00000008"
abbreviation (input) SAFE_TYPE :: "32 word" where "SAFE_TYPE \<equiv> 0x00000010"
abbreviation (input) REGULAR_TYPE :: "32 word" where "REGULAR_TYPE \<equiv> 0x0000001f"
abbreviation (input) BLOCK_REGULAR_DELIVERY :: "32 word" where "BLOCK_REGULAR_DELIVERY \<equiv> 0x00000020"
abbreviation (input) HURRY_TYPE :: "32 word" where "HURRY_TYPE \<equiv> 0x00000040"
abbreviation (input) ALIVE_TYPE :: "32 word" where "ALIVE_TYPE \<equiv> 0x00000100"
abbreviation (input) JOIN_TYPE :: "32 word" where "JOIN_TYPE \<equiv> 0x00000200"
abbreviation (input) REFER_TYPE :: "32 word" where "REFER_TYPE \<equiv> 0x00000400"
abbreviation (input) MEMBERSHIP_TYPE :: "32 word" where "MEMBERSHIP_TYPE \<equiv> 0x00000700"
abbreviation (input) FORM1_TYPE :: "32 word" where "FORM1_TYPE \<equiv> 0x00001000"
abbreviation (input) FORM2_TYPE :: "32 word" where "FORM2_TYPE \<equiv> 0x00002000"
abbreviation (input) FORM_TYPE :: "32 word" where "FORM_TYPE \<equiv> 0x00003000"
abbreviation (input) ARQ_TYPE :: "32 word" where "ARQ_TYPE \<equiv> 0x000f0000"
abbreviation (input) RETRANS_TYPE :: "32 word" where "RETRANS_TYPE \<equiv> 0x00f00000"
abbreviation (input) STATUS_TYPE :: "32 word" where "STATUS_TYPE \<equiv> 0x01000000"
abbreviation (input) FC_TYPE :: "32 word" where "FC_TYPE \<equiv> 0x04000000"
abbreviation (input) RELOAD_TYPE :: "32 word" where "RELOAD_TYPE \<equiv> 0x08000000"
abbreviation (input) CONTROL_TYPE :: "32 word" where "CONTROL_TYPE \<equiv> 0x0f000000"
abbreviation (input) ENDIAN_TYPE :: "32 word" where "ENDIAN_TYPE \<equiv> 0x80000080"

text \<open>
  The \<open>Is_...\<close> macros mask bits of the type word and their uses test the result against 0;
  \<open>Is_type m t\<close> is that test.
\<close>

definition Is_type :: "32 word \<Rightarrow> 32 word \<Rightarrow> bool" where
  "Is_type m t \<longleftrightarrow> t AND m \<noteq> 0"

abbreviation Is_reliable :: "32 word \<Rightarrow> bool" where "Is_reliable \<equiv> Is_type RELIABLE_TYPE"
abbreviation Is_fifo :: "32 word \<Rightarrow> bool" where "Is_fifo \<equiv> Is_type FIFO_TYPE"
abbreviation Is_agreed :: "32 word \<Rightarrow> bool" where "Is_agreed \<equiv> Is_type AGREED_TYPE"
abbreviation Is_safe :: "32 word \<Rightarrow> bool" where "Is_safe \<equiv> Is_type SAFE_TYPE"
abbreviation Is_regular :: "32 word \<Rightarrow> bool" where "Is_regular \<equiv> Is_type REGULAR_TYPE"
abbreviation Is_hurry :: "32 word \<Rightarrow> bool" where "Is_hurry \<equiv> Is_type HURRY_TYPE"
abbreviation Is_alive :: "32 word \<Rightarrow> bool" where "Is_alive \<equiv> Is_type ALIVE_TYPE"
abbreviation Is_join :: "32 word \<Rightarrow> bool" where "Is_join \<equiv> Is_type JOIN_TYPE"
abbreviation Is_refer :: "32 word \<Rightarrow> bool" where "Is_refer \<equiv> Is_type REFER_TYPE"
abbreviation Is_membership :: "32 word \<Rightarrow> bool" where "Is_membership \<equiv> Is_type MEMBERSHIP_TYPE"
abbreviation Is_form :: "32 word \<Rightarrow> bool" where "Is_form \<equiv> Is_type FORM_TYPE"
abbreviation Is_form1 :: "32 word \<Rightarrow> bool" where "Is_form1 \<equiv> Is_type FORM1_TYPE"
abbreviation Is_form2 :: "32 word \<Rightarrow> bool" where "Is_form2 \<equiv> Is_type FORM2_TYPE"
abbreviation Is_status :: "32 word \<Rightarrow> bool" where "Is_status \<equiv> Is_type STATUS_TYPE"
abbreviation Is_fc :: "32 word \<Rightarrow> bool" where "Is_fc \<equiv> Is_type FC_TYPE"
abbreviation Is_conf_reload :: "32 word \<Rightarrow> bool" where "Is_conf_reload \<equiv> Is_type RELOAD_TYPE"
abbreviation Is_control :: "32 word \<Rightarrow> bool" where "Is_control \<equiv> Is_type CONTROL_TYPE"

definition Get_arq :: "32 word \<Rightarrow> 32 word" where
  "Get_arq w = drop_bit 16 (w AND ARQ_TYPE)"

definition Set_arq :: "32 word \<Rightarrow> 32 word \<Rightarrow> 32 word" where
  "Set_arq w v = (w AND NOT ARQ_TYPE) OR (push_bit 16 v AND ARQ_TYPE)"

definition Get_retrans :: "32 word \<Rightarrow> 32 word" where
  "Get_retrans w = drop_bit 20 (w AND RETRANS_TYPE)"

definition Set_retrans :: "32 word \<Rightarrow> 32 word \<Rightarrow> 32 word" where
  "Set_retrans w v = (w AND NOT RETRANS_TYPE) OR (push_bit 20 v AND RETRANS_TYPE)"

text \<open>\<open>ARCH_ENDIAN\<close> of the little-endian hosts the repository was built for is 0x80000080.\<close>

definition Same_endian :: "32 word \<Rightarrow> bool" where
  "Same_endian w \<longleftrightarrow> w AND ENDIAN_TYPE = 0x80000080"

definition Flip_int32 :: "32 word \<Rightarrow> 32 word" where
  "Flip_int32 w = (drop_bit 24 w AND 0x000000ff) OR (drop_bit 8 w AND 0x0000ff00) OR
                  (push_bit 8 w AND 0x00ff0000) OR (push_bit 24 w AND 0xff000000)"

definition Flip_int16 :: "16 word \<Rightarrow> 16 word" where
  "Flip_int16 w = (drop_bit 8 w AND 0x00ff) OR (push_bit 8 w AND 0xff00)"

text \<open>The masks as runs of bits, so that equations between words are decided bit by bit.\<close>

lemma mask_words:
  "(0x000f0000 :: 32 word) = push_bit 16 (mask 4)"
  "(0x00f00000 :: 32 word) = push_bit 20 (mask 4)"
  "(0x000000ff :: 32 word) = mask 8"
  "(0x0000ff00 :: 32 word) = push_bit 8 (mask 8)"
  "(0x00ff0000 :: 32 word) = push_bit 16 (mask 8)"
  "(0xff000000 :: 32 word) = push_bit 24 (mask 8)"
  "(15 :: 32 word) = mask 4"
  "(0x00ff :: 16 word) = mask 8"
  "(0xff00 :: 16 word) = push_bit 8 (mask 8)"
  by (simp_all add: mask_eq_exp_minus_1 push_bit_eq_mult)

lemma bit_endian: "bit (0x80000080 :: int) n \<longleftrightarrow> n = 7 \<or> n = 31"
proof -
  have eq: "(0x80000080 :: int) = push_bit 7 1 OR push_bit 31 1"
    by (simp add: push_bit_eq_mult)
  show ?thesis unfolding eq bit_or_iff bit_push_bit_iff bit_1_iff by auto
qed

lemmas word_bits = bit_and_iff bit_or_iff bit_not_iff bit_drop_bit_eq bit_push_bit_iff bit_mask_iff
  bit_set_bit_iff

lemma Get_Set_arq: "Get_arq (Set_arq w v) = v AND 15"
  unfolding Get_arq_def Set_arq_def mask_words
  by (rule bit_word_eqI) (auto simp: word_bits)

lemma Get_Set_retrans: "Get_retrans (Set_retrans w v) = v AND 15"
  unfolding Get_retrans_def Set_retrans_def mask_words
  by (rule bit_word_eqI) (auto simp: word_bits)

lemma Get_retrans_Set_arq [simp]: "Get_retrans (Set_arq w v) = Get_retrans w"
  unfolding Get_retrans_def Set_arq_def mask_words
  by (rule bit_word_eqI) (auto simp: word_bits)

lemma Get_arq_Set_retrans [simp]: "Get_arq (Set_retrans w v) = Get_arq w"
  unfolding Get_arq_def Set_retrans_def mask_words
  by (rule bit_word_eqI) (auto simp: word_bits)

lemma and_eq_cong: "(\<And>n. bit m n \<Longrightarrow> bit a n = bit b n) \<Longrightarrow> a AND m = b AND (m :: 32 word)"
  by (rule bit_word_eqI) (auto simp: word_bits)

lemma Same_endian_Set_arq [simp]: "Same_endian (Set_arq w v) = Same_endian w"
proof -
  have "Set_arq w v AND ENDIAN_TYPE = w AND ENDIAN_TYPE"
    unfolding Set_arq_def mask_words
    by (rule and_eq_cong) (auto simp: word_bits bit_endian)
  then show ?thesis by (simp add: Same_endian_def)
qed

lemma Same_endian_Set_retrans [simp]: "Same_endian (Set_retrans w v) = Same_endian w"
proof -
  have "Set_retrans w v AND ENDIAN_TYPE = w AND ENDIAN_TYPE"
    unfolding Set_retrans_def mask_words
    by (rule and_eq_cong) (auto simp: word_bits bit_endian)
  then show ?thesis by (simp add: Same_endian_def)
qed

lemma Flip_int32_twice: "Flip_int32 (Flip_int32 w) = w"
  unfolding Flip_int32_def mask_words
  by (rule bit_word_eqI, rename_tac n, case_tac "n < 8"; case_tac "n < 16"; case_tac "n < 24")
     (auto simp: word_bits less_diff_conv2 not_less)

lemma Flip_int16_twice: "Flip_int16 (Flip_int16 w) = w"
  unfolding Flip_int16_def mask_words
  by (rule bit_word_eqI, rename_tac n, case_tac "n < 8")
     (auto simp: word_bits less_diff_conv2 not_less)

text \<open>A counter read from the type word has four bits.\<close>

lemma Get_arq_small: "Get_arq w AND 15 = Get_arq w"
  unfolding Get_arq_def mask_words
  by (rule bit_word_eqI) (auto simp: word_bits)

lemma Get_retrans_small: "Get_retrans w AND 15 = Get_retrans w"
  unfolding Get_retrans_def mask_words
  by (rule bit_word_eqI) (auto simp: word_bits)

lemma and_15_mod: "(v :: 32 word) AND 15 = v mod 16"
  using take_bit_eq_mod [of 4 v] by (simp add: take_bit_eq_mask mask_eq_exp_minus_1)

lemma Get_arq_mod: "Get_arq w mod 16 = Get_arq w"
  using Get_arq_small [of w] by (simp add: and_15_mod)

section \<open>Headers\<close>

record membership_id =
  mi_proc_id :: int32u
  mi_time :: int

definition Memb_is_equal :: "membership_id \<Rightarrow> membership_id \<Rightarrow> bool" where
  "Memb_is_equal m1 m2 \<longleftrightarrow> mi_proc_id m1 = mi_proc_id m2 \<and> mi_time m1 = mi_time m2"

lemma Memb_is_equal_iff [simp]: "Memb_is_equal m1 m2 \<longleftrightarrow> m1 = m2"
  by (cases m1; cases m2) (simp add: Memb_is_equal_def)

text \<open>The two \<open>int16\<close> of a \<open>fragment_header\<close>.\<close>

record fragment_header =
  fragment_index :: int
  fragment_len :: int

record packet_header =
  ph_type :: "32 word"
  ph_transmiter_id :: int32u
  ph_proc_id :: int32u
  ph_memb_id :: membership_id
  ph_seq :: int
  ph_token_round :: int
  ph_conf_hash :: int32u
  ph_data_len :: int
  ph_first_frag :: fragment_header

record token_header =
  th_type :: "32 word"
  th_transmiter_id :: int32u
  th_proc_id :: int32u
  th_memb_id :: membership_id
  th_seq :: int
  th_aru :: int
  th_aru_last_id :: int32u
  th_flow_control :: int
  th_rtr_len :: int
  th_conf_hash :: int32u

text \<open>
  A retransmission request and the \<open>num_seq\<close> sequence numbers behind it. The body of a token
  is the list of its requests; \<open>rtr_bytes\<close> is the number of bytes it takes.
\<close>

record ring_rtr =
  rr_memb_id :: membership_id
  rr_proc_id :: int32u
  rr_seg_index :: int
  rr_seqs :: "int list"

abbreviation (input) sizeof_ring_rtr :: int where "sizeof_ring_rtr \<equiv> 16"
abbreviation (input) sizeof_int32 :: int where "sizeof_int32 \<equiv> 4"
abbreviation (input) sizeof_token_header :: int where "sizeof_token_header \<equiv> 40"
abbreviation (input) sizeof_token_body :: int where "sizeof_token_body \<equiv> 65467"
abbreviation (input) sizeof_packet_header :: int where "sizeof_packet_header \<equiv> 40"
abbreviation (input) sizeof_packet_body :: int where "sizeof_packet_body \<equiv> 1432"
abbreviation (input) sizeof_fragment_header :: int where "sizeof_fragment_header \<equiv> 4"

definition rtr_bytes :: "ring_rtr list \<Rightarrow> int" where
  "rtr_bytes rs = (\<Sum>r \<leftarrow> rs. sizeof_ring_rtr + int (length (rr_seqs r)) * sizeof_int32)"

lemma rtr_bytes_simps [simp]:
  "rtr_bytes [] = 0"
  "rtr_bytes (r # rs) = 16 + int (length (rr_seqs r)) * 4 + rtr_bytes rs"
  "rtr_bytes (rs @ rs') = rtr_bytes rs + rtr_bytes rs'"
  by (simp_all add: rtr_bytes_def)

lemma rtr_bytes_nonneg [simp]: "0 \<le> rtr_bytes rs"
  by (induction rs) auto

end
