(* ===== verification/Configuration.thy ===== *)
theory Configuration
  imports NetTypes
begin

text \<open>
  \<open>daemon/configuration.c\<close>: the processes of the system in their segments, the searches over
  them, the ring order, and the run-time parameters with their setters. A segment's array of
  \<open>num_procs\<close> pointers into \<open>allprocs\<close> is the list of those processes; of an address nothing
  is kept, because only the sockets use it. A setter that ends the process on a bad value
  returns \<open>None\<close> there.
\<close>

section \<open>Processes, segments, configurations\<close>

record proc =
  p_name :: string
  p_id :: int32u
  p_seg_index :: int
  p_index_in_seg :: int

record segment =
  procs :: "proc list"

record configuration =
  hash_code :: int32u
  allprocs :: "proc list"
  segments :: "segment list"

abbreviation (input) MAX_PROCS_RING :: int where "MAX_PROCS_RING \<equiv> 128"
abbreviation (input) MAX_PROCS_SEGMENT :: int where "MAX_PROCS_SEGMENT \<equiv> 128"

text \<open>The segment at an index below \<open>num_segments\<close>.\<close>

definition seg_at :: "configuration \<Rightarrow> int \<Rightarrow> segment" where
  "seg_at c i = segments c ! nat i"

definition num_procs :: "segment \<Rightarrow> int" where
  "num_procs sg = int (length (procs sg))"

definition Conf_proc_ref_by_id_in_conf :: "configuration \<Rightarrow> int32u \<Rightarrow> int" where
  "Conf_proc_ref_by_id_in_conf c i = index_of (\<lambda>p. p_id p = i) (allprocs c)"

text \<open>The index of the process and, where it is found, the copy of its entry.\<close>

definition Conf_proc_by_id_in_conf :: "configuration \<Rightarrow> int32u \<Rightarrow> int \<times> proc option" where
  "Conf_proc_by_id_in_conf c i =
     (let ret = Conf_proc_ref_by_id_in_conf c i
      in (ret, if ret \<ge> 0 then Some (allprocs c ! nat ret) else None))"

definition Conf_proc_ref_by_name_in_conf :: "configuration \<Rightarrow> string \<Rightarrow> int" where
  "Conf_proc_ref_by_name_in_conf c nm = index_of (\<lambda>p. p_name p = nm) (allprocs c)"

definition Conf_proc_by_name_in_conf :: "configuration \<Rightarrow> string \<Rightarrow> int \<times> proc option" where
  "Conf_proc_by_name_in_conf c nm =
     (let ret = Conf_proc_ref_by_name_in_conf c nm
      in (ret, if ret \<ge> 0 then Some (allprocs c ! nat ret) else None))"

definition Conf_id_in_seg :: "segment \<Rightarrow> int32u \<Rightarrow> int" where
  "Conf_id_in_seg sg i = index_of (\<lambda>p. p_id p = i) (procs sg)"

definition Conf_append_id_to_seg :: "configuration \<Rightarrow> segment \<Rightarrow> int32u \<Rightarrow> int \<times> segment" where
  "Conf_append_id_to_seg c sg i =
     (case Conf_proc_by_id_in_conf c i of
        (_, Some p) \<Rightarrow> (0, sg\<lparr>procs := procs sg @ [p]\<rparr>)
      | (_, None) \<Rightarrow> (-1, sg))"

definition Conf_id_in_conf :: "configuration \<Rightarrow> int32u \<Rightarrow> int" where
  "Conf_id_in_conf c i = index_of (\<lambda>sg. Conf_id_in_seg sg i \<ge> 0) (segments c)"

definition Conf_num_procs :: "configuration \<Rightarrow> int" where
  "Conf_num_procs c = foldl (\<lambda>r sg. r + num_procs sg) 0 (segments c)"

definition Conf_num_segments :: "configuration \<Rightarrow> int" where
  "Conf_num_segments c = int (length (segments c))"

text \<open>The first process of the first segment that is not empty; none is fatal.\<close>

fun first_proc :: "segment list \<Rightarrow> int32u option" where
  "first_proc [] = None"
| "first_proc (sg # sgs) = (case procs sg of p # _ \<Rightarrow> Some (p_id p) | [] \<Rightarrow> first_proc sgs)"

definition Conf_leader :: "configuration \<Rightarrow> int32u option" where
  "Conf_leader c = first_proc (segments c)"

text \<open>Downwards from a segment, the last process of the first one that is not empty.\<close>

fun last_proc :: "segment list \<Rightarrow> int32u option" where
  "last_proc [] = None"
| "last_proc (sg # sgs) =
     (if num_procs sg > 0 then Some (p_id (procs sg ! nat (num_procs sg - 1))) else last_proc sgs)"

definition Conf_last :: "configuration \<Rightarrow> int32u option" where
  "Conf_last c = last_proc (rev (segments c))"

definition Conf_previous :: "proc \<Rightarrow> configuration \<Rightarrow> int32u option" where
  "Conf_previous My c =
     (let k = nat (p_seg_index My); i = Conf_id_in_seg (seg_at c (p_seg_index My)) (p_id My)
      in if i > 0 then Some (p_id (procs (seg_at c (p_seg_index My)) ! nat (i - 1)))
         else case last_proc (rev (take k (segments c))) of
                Some q \<Rightarrow> Some q
              | None \<Rightarrow> last_proc (rev (drop k (segments c))))"

definition Conf_seg_leader :: "configuration \<Rightarrow> int \<Rightarrow> int32u option" where
  "Conf_seg_leader c i =
     (if num_procs (seg_at c i) > 0 then Some (p_id (procs (seg_at c i) ! 0)) else None)"

definition Conf_seg_last :: "configuration \<Rightarrow> int \<Rightarrow> int32u option" where
  "Conf_seg_last c i =
     (if num_procs (seg_at c i) > 0
      then Some (p_id (procs (seg_at c i) ! nat (num_procs (seg_at c i) - 1))) else None)"

definition Conf_num_procs_in_seg :: "configuration \<Rightarrow> int \<Rightarrow> int" where
  "Conf_num_procs_in_seg c i = num_procs (seg_at c i)"

section \<open>The ring\<close>

text \<open>The processes in ring order: segment after segment.\<close>

fun all_procs :: "segment list \<Rightarrow> proc list" where
  "all_procs [] = []"
| "all_procs (sg # sgs) = procs sg @ all_procs sgs"

definition ring_ids :: "configuration \<Rightarrow> int32u list" where
  "ring_ids c = map p_id (all_procs (segments c))"

lemma all_procs_append [simp]: "all_procs (xs @ ys) = all_procs xs @ all_procs ys"
  by (induction xs) auto

lemma set_all_procs: "set (all_procs sgs) = (\<Union>sg \<in> set sgs. set (procs sg))"
  by (induction sgs) auto

lemma first_proc_all:
  "first_proc sgs = (case all_procs sgs of [] \<Rightarrow> None | p # _ \<Rightarrow> Some (p_id p))"
  by (induction sgs) (auto split: list.splits)

lemma last_proc_all:
  "last_proc (rev sgs) = (if all_procs sgs = [] then None else Some (p_id (last (all_procs sgs))))"
proof (induction sgs rule: rev_induct)
  case (snoc sg sgs)
  have "procs sg ! nat (num_procs sg - 1) = last (procs sg)" if "procs sg \<noteq> []"
  proof -
    have "nat (int (length (procs sg)) - 1) = length (procs sg) - 1" by linarith
    with that show ?thesis by (simp add: num_procs_def last_conv_nth)
  qed
  with snoc show ?case by (auto simp: num_procs_def)
qed simp

lemma Conf_leader_ring:
  "Conf_leader c = (if ring_ids c = [] then None else Some (hd (ring_ids c)))"
  by (auto simp: Conf_leader_def first_proc_all ring_ids_def split: list.splits)

lemma Conf_last_ring:
  "Conf_last c = (if ring_ids c = [] then None else Some (last (ring_ids c)))"
  by (simp add: Conf_last_def last_proc_all ring_ids_def last_map)

lemma Conf_id_in_seg_iff: "0 \<le> Conf_id_in_seg sg i \<longleftrightarrow> i \<in> p_id ` set (procs sg)"
  using index_of_neg_iff [of "\<lambda>p. p_id p = i" "procs sg"]
  by (auto simp: Conf_id_in_seg_def not_less [symmetric] image_iff)

lemma Conf_id_in_conf_iff: "Conf_id_in_conf c i \<noteq> - 1 \<longleftrightarrow> i \<in> set (ring_ids c)"
  by (simp add: Conf_id_in_conf_def index_of_minus_one ring_ids_def Conf_id_in_seg_iff set_all_procs)
     blast

lemma Conf_num_procs_ring: "Conf_num_procs c = int (length (ring_ids c))"
proof -
  have "foldl (\<lambda>r sg. r + num_procs sg) r sgs = r + int (length (all_procs sgs))" for r sgs
    by (induction sgs arbitrary: r) (auto simp: num_procs_def)
  then show ?thesis by (simp add: Conf_num_procs_def ring_ids_def)
qed

lemma distinct_split_unique:
  assumes "x \<notin> set us" "x \<notin> set us'" "us @ x # vs = us' @ x # vs'"
  shows "us = us'"
proof -
  have "takeWhile (\<lambda>y. y \<noteq> x) (us @ x # vs) = us" "takeWhile (\<lambda>y. y \<noteq> x) (us' @ x # vs') = us'"
    using assms(1,2) by (auto simp: takeWhile_append takeWhile_eq_Nil_iff)
  with assms(3) show ?thesis by simp
qed

text \<open>
  \<open>Conf_previous\<close> is the predecessor on the ring, and the last process for the first one.
\<close>

lemma Conf_previous_ring:
  assumes d: "distinct (ring_ids c)" and k: "0 \<le> p_seg_index My" "p_seg_index My < Conf_num_segments c"
    and m: "p_id My \<in> p_id ` set (procs (seg_at c (p_seg_index My)))"
    and split: "ring_ids c = us @ p_id My # vs"
  shows "Conf_previous My c = Some (if us = [] then last (ring_ids c) else last us)"
proof -
  let ?k = "nat (p_seg_index My)" and ?sg = "seg_at c (p_seg_index My)"
  let ?pre = "all_procs (take ?k (segments c))" and ?post = "all_procs (drop (Suc ?k) (segments c))"
  let ?i = "Conf_id_in_seg ?sg (p_id My)"
  have kk: "?k < length (segments c)" using k by (simp add: Conf_num_segments_def nat_less_iff)
  have from_k: "drop ?k (segments c) = ?sg # drop (Suc ?k) (segments c)"
    using kk by (simp add: seg_at_def Cons_nth_drop_Suc)
  have i0: "0 \<le> ?i" using m by (simp add: Conf_id_in_seg_iff)
  then obtain ys x zs where q: "procs ?sg = ys @ x # zs" "p_id x = p_id My" "nat ?i = length ys"
    unfolding Conf_id_in_seg_def by (rule index_of_split) blast
  have "all_procs (segments c) = ?pre @ all_procs (drop ?k (segments c))"
    by (metis all_procs_append append_take_drop_id)
  then have ring: "ring_ids c = map p_id (?pre @ ys) @ p_id My # map p_id (zs @ ?post)"
    using q(1,2) from_k by (simp add: ring_ids_def)
  have us: "us = map p_id (?pre @ ys)"
  proof (rule distinct_split_unique)
    show "p_id My \<notin> set us" using d split by simp
    show "p_id My \<notin> set (map p_id (?pre @ ys))" using d ring by simp
    show "us @ p_id My # vs = map p_id (?pre @ ys) @ p_id My # map p_id (zs @ ?post)"
      using split ring by simp
  qed
  have post: "last_proc (rev (drop ?k (segments c))) = Some (last (ring_ids c))"
  proof -
    have all: "all_procs (drop ?k (segments c)) = ys @ x # zs @ ?post"
      using from_k q(1) by simp
    have "ring_ids c = map p_id ?pre @ map p_id (ys @ x # zs @ ?post)"
      using ring q(2) by simp
    then have "last (ring_ids c) = last (map p_id (ys @ x # zs @ ?post))"
      by (simp only: last_appendR map_is_Nil_conv append_is_Nil_conv list.distinct simp_thms)
    also have "\<dots> = p_id (last (ys @ x # zs @ ?post))" by (rule last_map) simp
    finally show ?thesis unfolding last_proc_all all by simp
  qed
  show ?thesis
  proof (cases "ys = []")
    case False
    with q(3) have pos: "0 < ?i" by (cases ys) auto
    then have "nat (?i - 1) = length ys - 1" using q(3) by linarith
    moreover from False have "last us = p_id (ys ! (length ys - 1))" "us \<noteq> []"
      unfolding us using last_conv_nth [OF False] by (simp_all add: last_map)
    ultimately show ?thesis
      using pos False q(1) by (simp add: Conf_previous_def Let_def nth_append)
  next
    case True
    with q(3) have "\<not> 0 < ?i" by simp
    with True us post show ?thesis
      by (simp add: Conf_previous_def Let_def last_proc_all last_map)
  qed
qed

end
