(* ===== verification/ConfParams.thy ===== *)
theory ConfParams
  imports Configuration Events
begin

text \<open>
  The run-time parameters of \<open>daemon/configuration.c\<close> with the setters that check them, and
  the choice of the membership timeouts at the start of \<open>Memb_init\<close>
  (\<open>daemon/membership.c\<close>). The nine timeout variables are one function on \<open>timeout_kind\<close>;
  the bit of a kind in \<open>TimeoutMask\<close> is its position in the \<open>enum\<close>.
\<close>

datatype timeout_kind = TokenT | HurryT | AliveT | JoinT | RepT | SegT | GatherT | FormT | LookupT

definition all_timeouts :: "timeout_kind list" where
  "all_timeouts = [TokenT, HurryT, AliveT, JoinT, RepT, SegT, GatherT, FormT, LookupT]"

definition timeout_conf :: "timeout_kind \<Rightarrow> int" where
  "timeout_conf k = (case k of TokenT \<Rightarrow> 0x1 | HurryT \<Rightarrow> 0x2 | AliveT \<Rightarrow> 0x4 | JoinT \<Rightarrow> 0x8
     | RepT \<Rightarrow> 0x10 | SegT \<Rightarrow> 0x20 | GatherT \<Rightarrow> 0x40 | FormT \<Rightarrow> 0x80 | LookupT \<Rightarrow> 0x100)"

abbreviation (input) ALL_TIMEOUT_CONF :: int where "ALL_TIMEOUT_CONF \<equiv> 0x1FF"

record conf_params =
  cp_dangerous_monitor :: bool
  cp_max_session_messages :: int
  cp_window :: int
  cp_personal_window :: int
  cp_accelerated_ring_flag :: bool
  cp_accelerated_ring :: bool
  cp_accelerated_window :: int
  cp_timeout_mask :: int
  cp_timeouts :: "timeout_kind \<Rightarrow> int"
  cp_wide_area_flag :: bool
  cp_wide_area :: bool
  cp_ip_version :: int

definition conf_defaults :: conf_params where
  "conf_defaults = \<lparr>cp_dangerous_monitor = False, cp_max_session_messages = 1000,
     cp_window = 160, cp_personal_window = 20, cp_accelerated_ring_flag = False,
     cp_accelerated_ring = False, cp_accelerated_window = 15, cp_timeout_mask = 0,
     cp_timeouts = (\<lambda>_. 0), cp_wide_area_flag = False, cp_wide_area = False, cp_ip_version = -1\<rparr>"

definition Conf_set_max_session_messages :: "int \<Rightarrow> conf_params \<Rightarrow> conf_params" where
  "Conf_set_max_session_messages n c =
     (let n = (if n < 0 then 1000 else n) in c\<lparr>cp_max_session_messages := n\<rparr>)"

definition Conf_set_window :: "int \<Rightarrow> conf_params \<Rightarrow> conf_params option" where
  "Conf_set_window w c = (if w \<le> 0 then None else Some (c\<lparr>cp_window := w\<rparr>))"

definition Conf_set_personal_window :: "int \<Rightarrow> conf_params \<Rightarrow> conf_params option" where
  "Conf_set_personal_window w c = (if w \<le> 0 then None else Some (c\<lparr>cp_personal_window := w\<rparr>))"

definition Conf_set_accelerated_window :: "int \<Rightarrow> conf_params \<Rightarrow> conf_params option" where
  "Conf_set_accelerated_window w c =
     (if w < 0 then None else Some (c\<lparr>cp_accelerated_window := w\<rparr>))"

text \<open>\<open>AF_INET\<close> and \<open>AF_INET6\<close> are constants of the system's headers.\<close>

definition Conf_set_active_ip_version ::
  "int \<Rightarrow> int \<Rightarrow> int \<Rightarrow> conf_params \<Rightarrow> conf_params option" where
  "Conf_set_active_ip_version AF_INET AF_INET6 v c =
     (if cp_ip_version c \<noteq> -1 \<and> v \<noteq> cp_ip_version c then None
      else if v = AF_INET \<or> v = AF_INET6 then Some (c\<lparr>cp_ip_version := v\<rparr>)
      else None)"

text \<open>The nine functions \<open>Conf_set_..._timeout\<close>, which differ in the variable only.\<close>

definition Conf_set_timeout :: "timeout_kind \<Rightarrow> int \<Rightarrow> conf_params \<Rightarrow> conf_params option" where
  "Conf_set_timeout k n c =
     (if n \<le> 0 then None
      else Some (c\<lparr>cp_timeout_mask := cp_timeout_mask c OR timeout_conf k,
                   cp_timeouts := (cp_timeouts c)(k := n)\<rparr>))"

definition Conf_memb_timeouts_set :: "conf_params \<Rightarrow> bool" where
  "Conf_memb_timeouts_set c \<longleftrightarrow> cp_timeout_mask c \<noteq> 0"

definition Conf_all_memb_timeouts_set :: "conf_params \<Rightarrow> bool" where
  "Conf_all_memb_timeouts_set c \<longleftrightarrow> cp_timeout_mask c = ALL_TIMEOUT_CONF"

section \<open>The timeouts of the membership protocol\<close>

definition default_timeout :: "bool \<Rightarrow> timeout_kind \<Rightarrow> sp_time" where
  "default_timeout wide k =
     (if wide then
        (case k of
           TokenT \<Rightarrow> \<lparr>sec = 5, usec = 0\<rparr> | HurryT \<Rightarrow> \<lparr>sec = 1, usec = 500000\<rparr>
         | AliveT \<Rightarrow> \<lparr>sec = 0, usec = 250000\<rparr> | JoinT \<Rightarrow> \<lparr>sec = 0, usec = 250000\<rparr>
         | RepT \<Rightarrow> \<lparr>sec = 1, usec = 250000\<rparr> | SegT \<Rightarrow> \<lparr>sec = 0, usec = 500000\<rparr>
         | GatherT \<Rightarrow> \<lparr>sec = 2, usec = 500000\<rparr> | FormT \<Rightarrow> \<lparr>sec = 2, usec = 500000\<rparr>
         | LookupT \<Rightarrow> \<lparr>sec = 45, usec = 0\<rparr>)
      else
        (case k of
           TokenT \<Rightarrow> \<lparr>sec = 1, usec = 250000\<rparr> | HurryT \<Rightarrow> \<lparr>sec = 0, usec = 500000\<rparr>
         | AliveT \<Rightarrow> \<lparr>sec = 0, usec = 250000\<rparr> | JoinT \<Rightarrow> \<lparr>sec = 0, usec = 250000\<rparr>
         | RepT \<Rightarrow> \<lparr>sec = 0, usec = 625000\<rparr> | SegT \<Rightarrow> \<lparr>sec = 0, usec = 500000\<rparr>
         | GatherT \<Rightarrow> \<lparr>sec = 1, usec = 250000\<rparr> | FormT \<Rightarrow> \<lparr>sec = 1, usec = 250000\<rparr>
         | LookupT \<Rightarrow> \<lparr>sec = 30, usec = 0\<rparr>))"

definition memb_timeouts :: "bool \<Rightarrow> conf_params \<Rightarrow> (timeout_kind \<Rightarrow> sp_time) option" where
  "memb_timeouts wide c =
     (if \<not> Conf_memb_timeouts_set c then Some (default_timeout wide)
      else if \<not> Conf_all_memb_timeouts_set c then None
      else Some (\<lambda>k. \<lparr>sec = cp_timeouts c k div 1000, usec = cp_timeouts c k mod 1000 * 1000\<rparr>))"

text \<open>What the setters keep: a kind is in the mask exactly when its value has been set.\<close>

definition timeouts_ok :: "conf_params \<Rightarrow> bool" where
  "timeouts_ok c \<longleftrightarrow> 0 \<le> cp_timeout_mask c \<and> cp_timeout_mask c AND ALL_TIMEOUT_CONF = cp_timeout_mask c \<and>
     (\<forall>k. cp_timeout_mask c AND timeout_conf k \<noteq> 0 \<longrightarrow> 0 < cp_timeouts c k)"

lemma timeout_conf_bit: "\<exists>n. timeout_conf k = 2 ^ n \<and> n < 9"
proof (cases k)
  case TokenT then show ?thesis by (intro exI [of _ 0]) (simp add: timeout_conf_def)
next
  case HurryT then show ?thesis by (intro exI [of _ 1]) (simp add: timeout_conf_def)
next
  case AliveT then show ?thesis by (intro exI [of _ 2]) (simp add: timeout_conf_def)
next
  case JoinT then show ?thesis by (intro exI [of _ 3]) (simp add: timeout_conf_def)
next
  case RepT then show ?thesis by (intro exI [of _ 4]) (simp add: timeout_conf_def)
next
  case SegT then show ?thesis by (intro exI [of _ 5]) (simp add: timeout_conf_def)
next
  case GatherT then show ?thesis by (intro exI [of _ 6]) (simp add: timeout_conf_def)
next
  case FormT then show ?thesis by (intro exI [of _ 7]) (simp add: timeout_conf_def)
next
  case LookupT then show ?thesis by (intro exI [of _ 8]) (simp add: timeout_conf_def)
qed

lemma timeout_conf_disjoint: "k \<noteq> l \<Longrightarrow> timeout_conf k AND timeout_conf l = 0"
  by (cases k; cases l) (simp_all add: timeout_conf_def)

lemma timeout_conf_mask: "timeout_conf k AND ALL_TIMEOUT_CONF = timeout_conf k"
  by (cases k) (simp_all add: timeout_conf_def)

lemma Conf_set_timeout_ok:
  assumes "timeouts_ok c" "Conf_set_timeout k n c = Some c'"
  shows "timeouts_ok c'"
proof -
  have n: "0 < n" and c': "c' = c\<lparr>cp_timeout_mask := cp_timeout_mask c OR timeout_conf k,
                   cp_timeouts := (cp_timeouts c)(k := n)\<rparr>"
    using assms(2) by (auto simp: Conf_set_timeout_def split: if_splits)
  have "0 \<le> timeout_conf k" by (simp add: timeout_conf_def split: timeout_kind.split)
  with assms(1) n timeout_conf_disjoint [of k] timeout_conf_mask [of k] show ?thesis
    unfolding c' timeouts_ok_def
    by (auto simp: and.commute [of "timeout_conf _" ALL_TIMEOUT_CONF] bit.conj_disj_distrib2)
qed

end
