(* ===== verification/MembData.thy ===== *)
theory MembData
  imports Configuration Arrays
begin

text \<open>
  The lists that the membership protocol gathers, \<open>daemon/membership.c\<close>: members and
  segment representatives, kept in arrays with a count. An array is a function on indices;
  the entries below the count are the list, \<open>member_list\<close> and \<open>rep_list\<close>. The search for
  the smallest entry and the two selection sorts are the source's.
\<close>

abbreviation (input) POTENTIAL_REP :: int where "POTENTIAL_REP \<equiv> 0"
abbreviation (input) SEG_REP :: int where "SEG_REP \<equiv> 1"
abbreviation (input) RING_REP :: int where "RING_REP \<equiv> 2"
abbreviation (input) MAX_REPS :: int where "MAX_REPS \<equiv> 25"
abbreviation (input) MAX_FORM_REPS :: int where "MAX_FORM_REPS \<equiv> 20"

record members_info =
  num_members :: int
  num_pending :: int
  members :: "int \<Rightarrow> int32u"

record rep_info =
  rep_proc_id :: int32u
  rep_type :: int
  rep_seg_index :: int

record reps_info =
  num_reps :: int
  rep_index :: int
  reps :: "int \<Rightarrow> rep_info"

definition member_list :: "members_info \<Rightarrow> int32u list" where
  "member_list m = arr_list (members m) (num_members m)"

definition rep_list :: "reps_info \<Rightarrow> rep_info list" where
  "rep_list r = arr_list (reps r) (num_reps r)"

definition Insert_member :: "members_info \<Rightarrow> int32u \<Rightarrow> int \<times> members_info" where
  "Insert_member m i =
     (if i \<in> set (member_list m) then (0, m)
      else if num_members m = MAX_PROCS_RING then (0, m)
      else (1, m\<lparr>members := (members m)(num_members m := i), num_members := num_members m + 1\<rparr>))"

text \<open>
  What \<open>Insert_rep\<close> does when its loop is at an entry \<open>x\<close>: return with a value and the
  entry rewritten, or go on (\<open>None\<close>).
\<close>

definition rep_action :: "int \<Rightarrow> proc \<Rightarrow> rep_info \<Rightarrow> (int \<times> rep_info) option" where
  "rep_action ty p x =
     (if rep_seg_index x \<noteq> p_seg_index p then None
      else if ty = POTENTIAL_REP then Some (0, x)
      else if ty = SEG_REP then
        (if rep_type x = POTENTIAL_REP then Some (1, x\<lparr>rep_type := SEG_REP, rep_proc_id := p_id p\<rparr>)
         else if rep_type x = SEG_REP then (if rep_proc_id x = p_id p then Some (0, x) else None)
         else if rep_type x = RING_REP \<and> rep_proc_id x = p_id p
         then Some (1, x\<lparr>rep_type := SEG_REP\<rparr>) else None)
      else
        (if rep_type x = POTENTIAL_REP then Some (1, x\<lparr>rep_type := RING_REP, rep_proc_id := p_id p\<rparr>)
         else if rep_type x = SEG_REP
         then (if rep_proc_id x = p_id p then Some (1, x\<lparr>rep_type := RING_REP\<rparr>) else None)
         else if rep_type x = RING_REP \<and> rep_proc_id x = p_id p then Some (0, x) else None))"

fun rep_scan :: "(rep_info \<Rightarrow> (int \<times> rep_info) option) \<Rightarrow> reps_info \<Rightarrow> int list \<Rightarrow> (int \<times> reps_info) option"
where
  "rep_scan f r [] = None"
| "rep_scan f r (i # is) =
     (case f (reps r i) of
        Some (ret, x) \<Rightarrow> Some (ret, r\<lparr>reps := (reps r)(i := x)\<rparr>)
      | None \<Rightarrow> rep_scan f r is)"

definition Insert_rep :: "configuration \<Rightarrow> reps_info \<Rightarrow> rep_info \<Rightarrow> (int \<times> reps_info) option" where
  "Insert_rep Cn r rep =
     (case snd (Conf_proc_by_id_in_conf Cn (rep_proc_id rep)) of
        None \<Rightarrow> None
      | Some p \<Rightarrow>
          if rep_type rep \<noteq> POTENTIAL_REP \<and> rep_type rep \<noteq> SEG_REP \<and> rep_type rep \<noteq> RING_REP then None
          else
            case rep_scan (rep_action (rep_type rep) p) r [0..num_reps r - 1] of
              Some res \<Rightarrow> Some res
            | None \<Rightarrow>
                if num_reps r = MAX_REPS then Some (0, r)
                else Some (1, r\<lparr>reps := (reps r)(num_reps r := rep), num_reps := num_reps r + 1\<rparr>))"

text \<open>The position of a known process in configuration order; \<open>None\<close> ends the process.\<close>

definition proc_pos :: "configuration \<Rightarrow> int32u \<Rightarrow> (int \<times> int) option" where
  "proc_pos Cn i =
     map_option (\<lambda>p. (p_seg_index p, p_index_in_seg p)) (snd (Conf_proc_by_id_in_conf Cn i))"

definition pos_less :: "int \<times> int \<Rightarrow> int \<times> int \<Rightarrow> bool" where
  "pos_less a b \<longleftrightarrow> fst a < fst b \<or> fst a = fst b \<and> snd a < snd b"

definition Smallest_member :: "configuration \<Rightarrow> members_info \<Rightarrow> (int32u \<times> int) option" where
  "Smallest_member Cn m =
     do {
       curr \<leftarrow> proc_pos Cn (members m 0);
       (current, curr) \<leftarrow> for_loop 1 (num_members m - 1)
          (\<lambda>i (current, curr).
             (case proc_pos Cn (members m i) of
                None \<Rightarrow> None
              | Some ip \<Rightarrow> Some (Continue (if pos_less ip curr then (i, ip) else (current, curr)))))
          (0, curr);
       Some (members m current, current)
     }"

text \<open>
  The comparison of \<open>Smallest_rep\<close>: does the loop move to entry \<open>x\<close> from the current \<open>c\<close>?
  A current entry of another type is fatal. The source does not check that the two processes
  are known when it compares two ring representatives of one segment; the model ends there.
\<close>

definition rep_before :: "configuration \<Rightarrow> rep_info \<Rightarrow> rep_info \<Rightarrow> bool option" where
  "rep_before Cn x c =
     (if rep_type c = SEG_REP then
        Some (rep_type x = SEG_REP \<and> rep_seg_index x < rep_seg_index c)
      else if rep_type c = RING_REP then
        (if rep_type x = RING_REP then
           (if rep_seg_index x < rep_seg_index c then Some True
            else if rep_seg_index x = rep_seg_index c then
              do {
                cp \<leftarrow> proc_pos Cn (rep_proc_id c);
                ip \<leftarrow> proc_pos Cn (rep_proc_id x);
                Some (snd ip < snd cp)
              }
            else Some False)
         else Some (rep_type x = SEG_REP))
      else None)"

definition Smallest_rep :: "configuration \<Rightarrow> reps_info \<Rightarrow> (int32u \<times> int) option" where
  "Smallest_rep Cn r =
     do {
       current \<leftarrow> for_loop 1 (num_reps r - 1)
          (\<lambda>i current.
             (case rep_before Cn (reps r i) (reps r current) of
                None \<Rightarrow> None
              | Some b \<Rightarrow> Some (Continue (if b then i else current))))
          0;
       Some (rep_proc_id (reps r current), current)
     }"

definition Sort_members :: "configuration \<Rightarrow> members_info \<Rightarrow> members_info option" where
  "Sort_members Cn m =
     map_option (\<lambda>a. m\<lparr>members := a\<rparr>)
       (selection_sort_array
          (\<lambda>n a. map_option snd (Smallest_member Cn (m\<lparr>num_members := n, members := a\<rparr>)))
          (num_members m) (members m))"

definition Sort_reps :: "configuration \<Rightarrow> reps_info \<Rightarrow> reps_info option" where
  "Sort_reps Cn r =
     map_option (\<lambda>a. r\<lparr>reps := a\<rparr>)
       (selection_sort_array
          (\<lambda>n a. map_option snd (Smallest_rep Cn (r\<lparr>num_reps := n, reps := a\<rparr>)))
          (num_reps r) (reps r))"

text \<open>
  Byte swapping of a received list. The counts are swapped first and then drive the loop, which
  is why the source says that the routine cannot be called twice; 16-bit fields are read back
  as signed.
\<close>

definition flip16 :: "int \<Rightarrow> int" where
  "flip16 x = sint (Flip_int16 (word_of_int x))"

definition Flip_members :: "members_info \<Rightarrow> members_info" where
  "Flip_members m =
     (let n = flip16 (num_members m); p = flip16 (num_pending m)
      in \<lparr>num_members = n, num_pending = p,
          members = (\<lambda>i. if 0 \<le> i \<and> i < n + p then Flip_int32 (members m i) else members m i)\<rparr>)"

definition Flip_reps :: "reps_info \<Rightarrow> reps_info" where
  "Flip_reps r =
     (let n = flip16 (num_reps r)
      in \<lparr>num_reps = n, rep_index = flip16 (rep_index r),
          reps = (\<lambda>i. if 0 \<le> i \<and> i < n
                     then \<lparr>rep_proc_id = Flip_int32 (rep_proc_id (reps r i)),
                           rep_type = flip16 (rep_type (reps r i)),
                           rep_seg_index = flip16 (rep_seg_index (reps r i))\<rparr>
                     else reps r i)\<rparr>)"

section \<open>Members\<close>

definition members_ok :: "members_info \<Rightarrow> bool" where
  "members_ok m \<longleftrightarrow> 0 \<le> num_members m \<and> num_members m \<le> MAX_PROCS_RING \<and> distinct (member_list m)"

lemma member_list_Insert:
  "members_ok m \<Longrightarrow> member_list (snd (Insert_member m i)) =
     (if i \<in> set (member_list m) \<or> num_members m = MAX_PROCS_RING then member_list m
      else member_list m @ [i])"
  by (auto simp: Insert_member_def members_ok_def member_list_def arr_list_append)

lemma members_ok_Insert: "members_ok m \<Longrightarrow> members_ok (snd (Insert_member m i))"
  by (auto simp: Insert_member_def members_ok_def member_list_def arr_list_append)

definition pos_of :: "configuration \<Rightarrow> int32u \<Rightarrow> int \<times> int" where
  "pos_of Cn i = (case proc_pos Cn i of Some x \<Rightarrow> x | None \<Rightarrow> (0, 0))"

definition pos_le :: "configuration \<Rightarrow> int32u \<Rightarrow> int32u \<Rightarrow> bool" where
  "pos_le Cn i j \<longleftrightarrow> \<not> pos_less (pos_of Cn j) (pos_of Cn i)"

lemma pos_less_trans: "\<not> pos_less b a \<Longrightarrow> \<not> pos_less c b \<Longrightarrow> \<not> pos_less c a"
  by (auto simp: pos_less_def)

lemma pos_less_asym: "pos_less a b \<Longrightarrow> \<not> pos_less b a"
  by (auto simp: pos_less_def)

lemma Smallest_member_least:
  assumes n: "0 < num_members m" and known: "\<forall>i \<in> set (member_list m). proc_pos Cn i \<noteq> None"
  shows "\<exists>k. Smallest_member Cn m = Some (members m k, k) \<and> 0 \<le> k \<and> k < num_members m \<and>
    (\<forall>i \<in> set (member_list m). pos_le Cn (members m k) i)"
proof -
  let ?a = "members m"
  let ?body = "\<lambda>i (current, curr). (case proc_pos Cn (?a i) of None \<Rightarrow> None
      | Some ip \<Rightarrow> Some (Continue (if pos_less ip curr then (i, ip) else (current, curr))))"
  define P where "P = (\<lambda>i (k, cur). 0 \<le> k \<and> k < i \<and> i \<le> num_members m \<and>
      proc_pos Cn (?a k) = Some cur \<and> (\<forall>j. 0 \<le> j \<and> j < i \<longrightarrow> pos_le Cn (?a k) (?a j)))"
  have known': "\<exists>x. proc_pos Cn (?a j) = Some x" if "0 \<le> j" "j < num_members m" for j
    using known that by (auto simp: member_list_def set_arr_list)
  then obtain c0 where c0: "proc_pos Cn (?a 0) = Some c0" using n by blast
  have "pos_le Cn (?a 0) (?a j)" if "0 \<le> j" "j < 1" for j
  proof -
    from that have "j = 0" by simp
    then show ?thesis by (simp add: pos_le_def pos_less_def)
  qed
  with n c0 have "P 1 (0, c0)" by (simp add: P_def)
  moreover have "\<exists>r. ?body i t = Some (Continue r) \<and> P (i + 1) r"
    if i: "1 \<le> i" "i \<le> num_members m - 1" and inv: "P i t" for i t
  proof -
    obtain k cur where t: "t = (k, cur)" by (cases t)
    obtain x where x: "proc_pos Cn (?a i) = Some x" using known' [of i] i by auto
    have pos: "pos_of Cn (?a i) = x" "pos_of Cn (?a k) = cur"
      using x inv by (auto simp: pos_of_def P_def t)
    have k: "0 \<le> k" "k < i" "proc_pos Cn (?a k) = Some cur" and
      le: "pos_le Cn (?a k) (?a j)" if "0 \<le> j" "j < i" for j
      using inv that by (auto simp: t P_def)
    have upto: "\<forall>j. 0 \<le> j \<and> j < i + 1 \<longrightarrow> pos_le Cn (?a q) (?a j)"
      if "\<forall>j. 0 \<le> j \<and> j < i \<longrightarrow> pos_le Cn (?a q) (?a j)" "pos_le Cn (?a q) (?a i)" for q
      using that by (metis zless_add1_eq)
    have "P (i + 1) (if pos_less x cur then (i, x) else (k, cur))"
    proof (cases "pos_less x cur")
      case True
      then have "pos_le Cn (?a i) (?a k)" by (simp add: pos_le_def pos pos_less_asym)
      then have "\<forall>j. 0 \<le> j \<and> j < i \<longrightarrow> pos_le Cn (?a i) (?a j)"
        using le unfolding pos_le_def by (metis pos_less_trans)
      then have "\<forall>j. 0 \<le> j \<and> j < i + 1 \<longrightarrow> pos_le Cn (?a i) (?a j)"
        by (rule upto) (simp add: pos_le_def pos_less_def)
      with True i x show ?thesis by (simp add: P_def)
    next
      case False
      have "\<forall>j. 0 \<le> j \<and> j < i + 1 \<longrightarrow> pos_le Cn (?a k) (?a j)"
        by (rule upto) (use le False pos in \<open>auto simp: pos_le_def\<close>)
      with False i k [of 0] show ?thesis by (simp add: P_def)
    qed
    with x t show ?thesis by simp
  qed
  ultimately have "\<exists>r. for_loop 1 (num_members m - 1) ?body (0, c0) = Some r \<and>
      P (max 1 (num_members m - 1 + 1)) r"
    by (rule for_loop_run)
  then obtain r where run: "for_loop 1 (num_members m - 1) ?body (0, c0) = Some r"
    and "P (max 1 (num_members m - 1 + 1)) r" by blast
  moreover obtain k cur where r: "r = (k, cur)" by (cases r)
  ultimately have fin: "P (num_members m) (k, cur)" using n by (simp add: max_def)
  have "Smallest_member Cn m = Some (members m k, k)"
    using run c0 by (simp add: Smallest_member_def r)
  with fin show ?thesis
    by (auto simp: P_def member_list_def set_arr_list)
qed

interpretation member_sort: smallest_entry
  "\<lambda>n a. map_option snd (Smallest_member Cn (m\<lparr>num_members := n, members := a\<rparr>))"
  "\<lambda>i. proc_pos Cn i \<noteq> None" "pos_le Cn" for Cn m
proof
  fix n and a :: "int \<Rightarrow> int32u"
  assume "0 < n" "\<forall>x \<in> set (arr_list a n). proc_pos Cn x \<noteq> None"
  then show "\<exists>i. map_option snd (Smallest_member Cn (m\<lparr>num_members := n, members := a\<rparr>)) = Some i \<and>
      0 \<le> i \<and> i < n \<and> (\<forall>x \<in> set (arr_list a n). pos_le Cn (a i) x)"
    using Smallest_member_least [of "m\<lparr>num_members := n, members := a\<rparr>" Cn]
    by (auto simp: member_list_def)
qed

lemma Sort_members_spec:
  assumes "0 \<le> num_members m" "\<forall>i \<in> set (member_list m). proc_pos Cn i \<noteq> None"
  shows "\<exists>m'. Sort_members Cn m = Some m' \<and> mset (member_list m') = mset (member_list m) \<and>
    sorted_wrt (pos_le Cn) (member_list m') \<and> num_members m' = num_members m \<and>
    num_pending m' = num_pending m"
  using member_sort.sort_array [of "num_members m" "members m" Cn m] assms
  by (auto simp: Sort_members_def member_list_def)

section \<open>Representatives\<close>

text \<open>
  The order that \<open>Smallest_rep\<close> follows: segment representatives by segment before ring
  representatives by segment and position.
\<close>

definition rep_key :: "configuration \<Rightarrow> rep_info \<Rightarrow> int \<times> int \<times> int" where
  "rep_key Cn x =
     (if rep_type x = SEG_REP then (0, rep_seg_index x, 0)
      else (1, rep_seg_index x, snd (pos_of Cn (rep_proc_id x))))"

definition key_less :: "int \<times> int \<times> int \<Rightarrow> int \<times> int \<times> int \<Rightarrow> bool" where
  "key_less a b \<longleftrightarrow> fst a < fst b \<or> fst a = fst b \<and> pos_less (snd a) (snd b)"

definition rep_valid :: "configuration \<Rightarrow> rep_info \<Rightarrow> bool" where
  "rep_valid Cn x \<longleftrightarrow>
     rep_type x = SEG_REP \<or> rep_type x = RING_REP \<and> proc_pos Cn (rep_proc_id x) \<noteq> None"

definition rep_le :: "configuration \<Rightarrow> rep_info \<Rightarrow> rep_info \<Rightarrow> bool" where
  "rep_le Cn x y \<longleftrightarrow> \<not> key_less (rep_key Cn y) (rep_key Cn x)"

lemma rep_before_key:
  "rep_valid Cn x \<Longrightarrow> rep_valid Cn c \<Longrightarrow>
   rep_before Cn x c = Some (key_less (rep_key Cn x) (rep_key Cn c))"
  by (auto simp: rep_before_def rep_valid_def rep_key_def key_less_def pos_less_def pos_of_def)

lemma rep_le_refl [simp]: "rep_le Cn x x"
  by (simp add: rep_le_def key_less_def pos_less_def)

lemma rep_le_trans: "rep_le Cn x y \<Longrightarrow> rep_le Cn y z \<Longrightarrow> rep_le Cn x z"
  by (auto simp: rep_le_def key_less_def pos_less_def)

lemma rep_le_total: "\<not> rep_le Cn x y \<Longrightarrow> rep_le Cn y x"
  by (auto simp: rep_le_def key_less_def pos_less_def)

lemma Smallest_rep_least:
  assumes n: "0 < num_reps r" and valid: "\<forall>x \<in> set (rep_list r). rep_valid Cn x"
  shows "\<exists>k. Smallest_rep Cn r = Some (rep_proc_id (reps r k), k) \<and> 0 \<le> k \<and> k < num_reps r \<and>
    (\<forall>x \<in> set (rep_list r). rep_le Cn (reps r k) x)"
proof -
  let ?a = "reps r"
  let ?body = "\<lambda>i current. (case rep_before Cn (?a i) (?a current) of None \<Rightarrow> None
      | Some b \<Rightarrow> Some (Continue (if b then i else current)))"
  define P where "P = (\<lambda>i k. 0 \<le> k \<and> k < i \<and> i \<le> num_reps r \<and>
      (\<forall>j. 0 \<le> j \<and> j < i \<longrightarrow> rep_le Cn (?a k) (?a j)))"
  have valid': "rep_valid Cn (?a j)" if "0 \<le> j" "j < num_reps r" for j
    using valid that by (auto simp: rep_list_def set_arr_list)
  have "rep_le Cn (?a 0) (?a j)" if "0 \<le> j" "j < 1" for j
  proof -
    from that have "j = 0" by simp
    then show ?thesis by simp
  qed
  with n have "P 1 0" by (simp add: P_def)
  moreover have "\<exists>q. ?body i k = Some (Continue q) \<and> P (i + 1) q"
    if i: "1 \<le> i" "i \<le> num_reps r - 1" and inv: "P i k" for i k
  proof -
    have k: "0 \<le> k" "k < i" and le: "rep_le Cn (?a k) (?a j)" if "0 \<le> j" "j < i" for j
      using inv that by (auto simp: P_def)
    have step: "rep_before Cn (?a i) (?a k) = Some (\<not> rep_le Cn (?a k) (?a i))"
      using rep_before_key [of Cn "?a i" "?a k"] valid' [of i] valid' [of k] i k [of 0]
      by (simp add: rep_le_def)
    have upto: "\<forall>j. 0 \<le> j \<and> j < i + 1 \<longrightarrow> rep_le Cn (?a q) (?a j)"
      if "\<forall>j. 0 \<le> j \<and> j < i \<longrightarrow> rep_le Cn (?a q) (?a j)" "rep_le Cn (?a q) (?a i)" for q
      using that by (metis zless_add1_eq)
    show ?thesis
    proof (cases "rep_le Cn (?a k) (?a i)")
      case True
      then have "\<forall>j. 0 \<le> j \<and> j < i + 1 \<longrightarrow> rep_le Cn (?a k) (?a j)"
        by (intro upto) (use le in auto)
      with True step i k [of 0] show ?thesis by (simp add: P_def)
    next
      case False
      then have "\<forall>j. 0 \<le> j \<and> j < i \<longrightarrow> rep_le Cn (?a i) (?a j)"
        using le rep_le_total rep_le_trans by blast
      then have "\<forall>j. 0 \<le> j \<and> j < i + 1 \<longrightarrow> rep_le Cn (?a i) (?a j)"
        by (rule upto) simp
      with False step i show ?thesis by (simp add: P_def)
    qed
  qed
  ultimately have "\<exists>k. for_loop 1 (num_reps r - 1) ?body 0 = Some k \<and>
      P (max 1 (num_reps r - 1 + 1)) k"
    by (rule for_loop_run)
  then obtain k where run: "for_loop 1 (num_reps r - 1) ?body 0 = Some k"
    and "P (max 1 (num_reps r - 1 + 1)) k" by blast
  then have fin: "P (num_reps r) k" using n by (simp add: max_def)
  have "Smallest_rep Cn r = Some (rep_proc_id (reps r k), k)"
    using run by (simp add: Smallest_rep_def)
  with fin show ?thesis by (auto simp: P_def rep_list_def set_arr_list)
qed

interpretation rep_sort: smallest_entry
  "\<lambda>n a. map_option snd (Smallest_rep Cn (r\<lparr>num_reps := n, reps := a\<rparr>))"
  "rep_valid Cn" "rep_le Cn" for Cn r
proof
  fix n and a :: "int \<Rightarrow> rep_info"
  assume "0 < n" "\<forall>x \<in> set (arr_list a n). rep_valid Cn x"
  then show "\<exists>i. map_option snd (Smallest_rep Cn (r\<lparr>num_reps := n, reps := a\<rparr>)) = Some i \<and>
      0 \<le> i \<and> i < n \<and> (\<forall>x \<in> set (arr_list a n). rep_le Cn (a i) x)"
    using Smallest_rep_least [of "r\<lparr>num_reps := n, reps := a\<rparr>" Cn]
    by (auto simp: rep_list_def)
qed

lemma Sort_reps_spec:
  assumes "0 \<le> num_reps r" "\<forall>x \<in> set (rep_list r). rep_valid Cn x"
  shows "\<exists>r'. Sort_reps Cn r = Some r' \<and> mset (rep_list r') = mset (rep_list r) \<and>
    sorted_wrt (rep_le Cn) (rep_list r') \<and> num_reps r' = num_reps r \<and> rep_index r' = rep_index r"
  using rep_sort.sort_array [of "num_reps r" "reps r" Cn r] assms
  by (auto simp: Sort_reps_def rep_list_def)

text \<open>
  The invariant that the comments of \<open>Insert_rep\<close> state: every representative is a process of
  its segment, none is listed twice, and a potential representative is the only one of its
  segment.
\<close>

definition rep_known :: "configuration \<Rightarrow> rep_info \<Rightarrow> bool" where
  "rep_known Cn x \<longleftrightarrow>
     (\<exists>p. snd (Conf_proc_by_id_in_conf Cn (rep_proc_id x)) = Some p \<and> p_seg_index p = rep_seg_index x) \<and>
     rep_type x \<in> {POTENTIAL_REP, SEG_REP, RING_REP}"

definition reps_apart :: "rep_info \<Rightarrow> rep_info \<Rightarrow> bool" where
  "reps_apart x y \<longleftrightarrow> rep_proc_id x \<noteq> rep_proc_id y \<and>
     (rep_seg_index x = rep_seg_index y \<longrightarrow>
        rep_type x \<noteq> POTENTIAL_REP \<and> rep_type y \<noteq> POTENTIAL_REP)"

definition reps_ok :: "configuration \<Rightarrow> reps_info \<Rightarrow> bool" where
  "reps_ok Cn r \<longleftrightarrow> 0 \<le> num_reps r \<and> num_reps r \<le> MAX_REPS \<and>
     (\<forall>i. 0 \<le> i \<and> i < num_reps r \<longrightarrow> rep_known Cn (reps r i)) \<and>
     (\<forall>i j. 0 \<le> i \<and> i < j \<and> j < num_reps r \<longrightarrow> reps_apart (reps r i) (reps r j))"

lemma proc_by_id_Some:
  "snd (Conf_proc_by_id_in_conf Cn i) = Some p \<Longrightarrow> p_id p = i \<and> p \<in> set (allprocs Cn)"
  using index_of_nth [of "\<lambda>p. p_id p = i" "allprocs Cn"]
  by (auto simp: Conf_proc_by_id_in_conf_def Conf_proc_ref_by_id_in_conf_def Let_def split: if_splits)

lemma rep_scan_Some:
  "rep_scan f r is = Some (ret, r') \<Longrightarrow>
   \<exists>i x. i \<in> set is \<and> f (reps r i) = Some (ret, x) \<and> r' = r\<lparr>reps := (reps r)(i := x)\<rparr>"
  by (induction "is") (auto split: option.splits)

lemma rep_scan_None: "rep_scan f r is = None \<longleftrightarrow> (\<forall>i \<in> set is. f (reps r i) = None)"
  by (induction "is") (auto split: option.splits)

lemma reps_ok_update:
  assumes ok: "reps_ok Cn r" and i: "0 \<le> i" "i < num_reps r" and known: "rep_known Cn x"
    and apart: "\<And>j. 0 \<le> j \<Longrightarrow> j < num_reps r \<Longrightarrow> j \<noteq> i \<Longrightarrow> reps_apart x (reps r j)"
  shows "reps_ok Cn (r\<lparr>reps := (reps r)(i := x)\<rparr>)"
proof -
  have "reps_apart (reps r j) x" if "0 \<le> j" "j < num_reps r" "j \<noteq> i" for j
    using apart [OF that] by (auto simp: reps_apart_def)
  with ok known apart i show ?thesis by (auto simp: reps_ok_def)
qed

lemma reps_apart_sym: "reps_apart x y \<Longrightarrow> reps_apart y x"
  by (auto simp: reps_apart_def)

lemma reps_ok_pair:
  assumes "reps_ok Cn r" "0 \<le> i" "i < num_reps r" "0 \<le> j" "j < num_reps r" "i \<noteq> j"
  shows "reps_apart (reps r i) (reps r j)"
proof (cases "i < j")
  case True
  with assms show ?thesis by (simp add: reps_ok_def)
next
  case False
  with assms have "reps_apart (reps r j) (reps r i)" by (simp add: reps_ok_def)
  then show ?thesis by (rule reps_apart_sym)
qed

lemma rep_action_ok:
  assumes ok: "reps_ok Cn r" and i: "0 \<le> i" "i < num_reps r"
    and p: "snd (Conf_proc_by_id_in_conf Cn (p_id p)) = Some p"
    and act: "rep_action ty p (reps r i) = Some (ret, x)"
  shows "reps_ok Cn (r\<lparr>reps := (reps r)(i := x)\<rparr>)"
proof (rule reps_ok_update [OF ok i])
  have seg: "rep_seg_index (reps r i) = p_seg_index p" "rep_seg_index x = p_seg_index p"
    using act by (auto simp: rep_action_def split: if_splits)
  have id: "rep_proc_id x = rep_proc_id (reps r i) \<or>
      rep_proc_id x = p_id p \<and> rep_type (reps r i) = POTENTIAL_REP"
    using act by (auto simp: rep_action_def split: if_splits)
  have ki: "rep_known Cn (reps r i)" using ok i by (auto simp: reps_ok_def)
  have ty: "rep_type x \<in> {POTENTIAL_REP, SEG_REP, RING_REP}"
    "rep_type x = POTENTIAL_REP \<longrightarrow> x = reps r i"
    using act ki by (auto simp: rep_action_def rep_known_def split: if_splits)
  show "rep_known Cn x" using id ki seg p ty by (auto simp: rep_known_def)
  fix j
  assume j: "0 \<le> j" "j < num_reps r" "j \<noteq> i"
  have old: "reps_apart (reps r i) (reps r j)" using reps_ok_pair [OF ok i j(1,2)] j(3) by simp
  have kj: "rep_known Cn (reps r j)" using ok j by (auto simp: reps_ok_def)
  show "reps_apart x (reps r j)"
  proof (cases "rep_seg_index (reps r j) = p_seg_index p")
    case True
    with old seg have "rep_type (reps r i) \<noteq> POTENTIAL_REP" "rep_type (reps r j) \<noteq> POTENTIAL_REP"
      by (auto simp: reps_apart_def)
    with old id ty show ?thesis by (auto simp: reps_apart_def)
  next
    case False
    with kj p have "rep_proc_id (reps r j) \<noteq> p_id p" by (auto simp: rep_known_def)
    with old id False seg show ?thesis by (auto simp: reps_apart_def)
  qed
qed

lemma Insert_rep_ok:
  assumes ok: "reps_ok Cn r" and rep: "rep_known Cn rep"
  shows "\<exists>ret r'. Insert_rep Cn r rep = Some (ret, r') \<and> reps_ok Cn r'"
proof -
  obtain p where p: "snd (Conf_proc_by_id_in_conf Cn (rep_proc_id rep)) = Some p"
    and seg: "p_seg_index p = rep_seg_index rep"
    using rep by (auto simp: rep_known_def)
  then have pid: "p_id p = rep_proc_id rep" by (auto dest: proc_by_id_Some)
  have ty: "rep_type rep = POTENTIAL_REP \<or> rep_type rep = SEG_REP \<or> rep_type rep = RING_REP"
    using rep by (auto simp: rep_known_def)
  let ?scan = "rep_scan (rep_action (rep_type rep) p) r [0..num_reps r - 1]"
  show ?thesis
  proof (cases ?scan)
    case (Some res)
    obtain ret r' where res: "res = (ret, r')" by (cases res)
    with Some obtain i x where i: "i \<in> set [0..num_reps r - 1]"
      "rep_action (rep_type rep) p (reps r i) = Some (ret, x)" "r' = r\<lparr>reps := (reps r)(i := x)\<rparr>"
      by (metis rep_scan_Some)
    then have "reps_ok Cn r'" using rep_action_ok [OF ok _ _ _ i(2)] p pid by auto
    with Some res p ty show ?thesis by (auto simp: Insert_rep_def)
  next
    case None
    have none: "rep_action (rep_type rep) p (reps r j) = None" if "0 \<le> j" "j < num_reps r" for j
      using None that by (auto simp: rep_scan_None)
    have "reps_apart (reps r j) rep" if "0 \<le> j" "j < num_reps r" for j
    proof -
      have "rep_known Cn (reps r j)" using ok that by (auto simp: reps_ok_def)
      with none [OF that] ty pid seg p show ?thesis
        by (auto simp: rep_action_def reps_apart_def rep_known_def split: if_splits)
    qed
    with ok rep have "num_reps r \<noteq> MAX_REPS \<Longrightarrow>
        reps_ok Cn (r\<lparr>reps := (reps r)(num_reps r := rep), num_reps := num_reps r + 1\<rparr>)"
      by (auto simp: reps_ok_def)
    with None p ty ok show ?thesis by (auto simp: Insert_rep_def)
  qed
qed

end
