(* ===== verification/DaemonState.thy ===== *)
theory DaemonState
  imports Events EventsFd ConfParams MembData
begin

text \<open>
  The state of one daemon: the globals of \<open>daemon/prot_body.h\<close>, \<open>daemon/protocol.c\<close>,
  \<open>daemon/membership.c\<close> and \<open>daemon/flow_control.c\<close>, the queue of timed events and the
  descriptor tables, and the trace \<open>out\<close> of the calls that leave the modelled code: packets
  and tokens handed to the network layer, messages and memberships handed to the session
  layer. \<open>Now\<close> and \<open>Wall_sec\<close> are what the two clocks read.
\<close>

abbreviation (input) MAX_PACKETS_IN_STRUCT :: int where "MAX_PACKETS_IN_STRUCT \<equiv> 8192"
abbreviation (input) PACKET_MASK :: int where "PACKET_MASK \<equiv> 0x00001fff"
abbreviation (input) MAX_SEQ_GAP :: int where "MAX_SEQ_GAP \<equiv> 1600"
abbreviation (input) MAX_EVS_ROUNDS :: int where "MAX_EVS_ROUNDS \<equiv> 500"
abbreviation (input) WATER_MARK :: nat where "WATER_MARK \<equiv> 500"
abbreviation (input) MAX_WRAP_SEQUENCE_VALUE :: int where "MAX_WRAP_SEQUENCE_VALUE \<equiv> 0x40000000"

type_synonym byte = "8 word"
type_synonym buffer = "int \<Rightarrow> byte"

text \<open>One element of a \<open>scatter\<close>: a buffer and the length used in it.\<close>

type_synonym scat_element = "buffer \<times> int"

definition elem_bytes :: "scat_element \<Rightarrow> byte list" where
  "elem_bytes e = arr_list (fst e) (snd e)"

record packet_info =
  pi_head :: packet_header
  pi_body :: buffer
  pi_exist :: int
  pi_proc_index :: int

record down_link =
  dl_type :: "32 word"
  dl_mess :: "scat_element list"

text \<open>
  What a form token says of one old ring. Its holes and its members, which follow the header
  in the buffer, are lists; \<open>num_holes\<close> and \<open>num_commit\<close> are their lengths.
\<close>

record ring_info =
  ri_memb_id :: membership_id
  ri_trans_time :: int
  ri_aru :: int
  ri_highest_seq :: int
  ri_holes :: "int list"
  ri_commit :: "int32u list"
  ri_num_trans :: int

record form_body =
  fm_members :: members_info
  fm_reps :: reps_info
  fm_memb_id :: membership_id
  fm_rings :: "ring_info list"

datatype net_msg =
    Packet packet_header buffer
  | Head packet_header
  | Alive packet_header members_info
  | Join packet_header members_info reps_info
  | Token token_header "ring_rtr list"
  | Form token_header form_body

datatype action =
    Net_bcast net_msg
  | Net_scast int net_msg
  | Net_ucast int32u net_msg
  | Net_send_token net_msg
  | Net_ucast_token int32u net_msg
  | Net_set_membership configuration
  | Net_set_partition "int list"
  | Net_clear_partition
  | Signal_conf_reload
  | Stat_handle_message packet_header
  | Sess_deliver_message "byte list list"
  | Sess_deliver_trans_memb configuration membership_id
  | Sess_deliver_reg_memb configuration membership_id
  | Sess_block_users_level
  | Sess_unblock_users_level

datatype handler =
    Memb_token_loss_event
  | Send_join_event
  | Form_or_fail_event
  | Prot_token_hurry_event
  | Memb_lookup_new_members_event
  | Scast_alive_event
  | Gather_or_represented_event
  | Shift_to_seg_event
  | Prot_initiate_conf_reload_event
  | Deliver_all_reliable_packets_event
  | Deliver_agreed_packets_event

datatype fd_handler = Prot_handle_bcast_fd | Prot_handle_token_fd | Other_fd nat

datatype memb_state = OP | SEG | REPRESENTED | GATHER | FORM | EVS

record daemon =
  Cn :: configuration
  My :: proc
  My_index :: int
  params :: conf_params
  Wide_network :: bool
  Timeout :: "timeout_kind \<Rightarrow> sp_time"
  Now :: sp_time
  Wall_sec :: int
  Time_queue :: "handler time_event list"
  Fds :: "fd_handler fd_state"
  Bcast_channels :: "int list"
  Token_channels :: "int list"
  out :: "action list"
  \<comment> \<open>flow control\<close>
  Window :: int
  Personal_window :: int
  Accelerated_window :: int
  Accelerated_ring :: bool
  Last_num_retrans :: int
  Last_num_sent :: int
  \<comment> \<open>protocol\<close>
  Packets :: "int \<Rightarrow> packet_info"
  Up_queue :: "int \<Rightarrow> byte list list option"
  Down_queue :: "down_link list"
  cur_element :: nat
  Send_pack_queue :: "(packet_header \<times> buffer) list"
  Highest_seq :: int
  Highest_fifo_seq :: int
  My_aru :: int
  Aru :: int
  Last_discarded :: int
  Last_delivered :: int
  Last_seq :: int
  Token_rounds :: int
  Received_token_rounds :: int
  Token_counter :: int
  Last_token :: token_header
  Prev_proc_id :: int32u
  Token_has_priority :: bool
  Prot_delivery_threshold :: "32 word"
  Prot_Need_Conf_Reload :: bool
  Conf_Reload_Singleton_State :: bool
  Gstate :: int
  \<comment> \<open>membership\<close>
  State :: memb_state
  Token_alive :: bool
  Membership :: configuration
  Membership_id :: membership_id
  Future_membership :: configuration
  Future_membership_id :: membership_id
  Reg_membership :: configuration
  Trans_membership :: configuration
  Commit_membership :: configuration
  Form1_memb_id :: membership_id
  Trans_memb_id :: membership_id
  F_trans_memb_time :: int
  Last_time_used :: int
  My_seg_rep :: int32u
  Foreign_found :: bool
  Transitional :: bool
  Memb_Just_Installed :: bool
  F_members :: members_info
  F_reps :: reps_info
  Potential_reps :: reps_info
  Commit_set :: members_info
  Future_commit_set :: members_info

definition emit :: "action \<Rightarrow> daemon \<Rightarrow> daemon" where
  "emit a s = s\<lparr>out := out s @ [a]\<rparr>"

definition E_queue :: "handler \<Rightarrow> int \<Rightarrow> sp_time \<Rightarrow> daemon \<Rightarrow> daemon" where
  "E_queue h c delta s =
     s\<lparr>Time_queue := E_queue_list
         \<lparr>ev_t = E_add_time (Now s) delta, ev_func = h, ev_code = c, ev_data = 0\<rparr> (Time_queue s)\<rparr>"

definition E_dequeue :: "handler \<Rightarrow> int \<Rightarrow> daemon \<Rightarrow> daemon" where
  "E_dequeue h c s = s\<lparr>Time_queue := snd (E_dequeue_list h c 0 (Time_queue s))\<rparr>"

definition Zero_timeout :: sp_time where
  "Zero_timeout = \<lparr>sec = 0, usec = 0\<rparr>"

definition Conf_id :: "daemon \<Rightarrow> int32u \<Rightarrow> (int \<times> proc option)" where
  "Conf_id s i = Conf_proc_by_id_in_conf (Cn s) i"

text \<open>The ring whose token is circulating: the future one while it is being installed.\<close>

definition Memb_active :: "daemon \<Rightarrow> configuration" where
  "Memb_active s = (if State s \<noteq> EVS then Membership s else Future_membership s)"

definition Memb_active_id :: "daemon \<Rightarrow> membership_id" where
  "Memb_active_id s = (if State s \<noteq> EVS then Membership_id s else Future_membership_id s)"

definition pack_entry :: "int \<Rightarrow> int" where
  "pack_entry i = i AND PACKET_MASK"

abbreviation packet_at :: "daemon \<Rightarrow> int \<Rightarrow> packet_info" where
  "packet_at s i \<equiv> Packets s (pack_entry i)"

abbreviation exist_at :: "daemon \<Rightarrow> int \<Rightarrow> int" where
  "exist_at s i \<equiv> pi_exist (Packets s (pack_entry i))"

definition set_packet :: "int \<Rightarrow> packet_info \<Rightarrow> daemon \<Rightarrow> daemon" where
  "set_packet e p s = s\<lparr>Packets := (Packets s)(e := p)\<rparr>"

definition set_exist :: "int \<Rightarrow> int \<Rightarrow> daemon \<Rightarrow> daemon" where
  "set_exist e v s = set_packet e ((Packets s e)\<lparr>pi_exist := v\<rparr>) s"

lemma pack_entry_mod: "pack_entry i = i mod 8192"
proof -
  have "i AND PACKET_MASK = take_bit 13 i" by (simp add: take_bit_eq_mask mask_eq_exp_minus_1)
  then show ?thesis by (simp add: pack_entry_def take_bit_eq_mod)
qed

lemma pack_entry_range: "0 \<le> pack_entry i \<and> pack_entry i < MAX_PACKETS_IN_STRUCT"
  by (simp add: pack_entry_mod)

text \<open>Within a window of the size of the array no two sequence numbers share an entry.\<close>

lemma pack_entry_inj:
  assumes "pack_entry i = pack_entry j" "\<bar>i - j\<bar> < MAX_PACKETS_IN_STRUCT"
  shows "i = j"
proof -
  obtain a where a: "i = 8192 * a + pack_entry i"
    unfolding pack_entry_mod by (metis mult_div_mod_eq)
  obtain b where b: "j = 8192 * b + pack_entry j"
    unfolding pack_entry_mod by (metis mult_div_mod_eq)
  have "i - j = 8192 * a - 8192 * b" using a b assms(1) by linarith
  with assms(2) have "a = b" by arith
  with a b assms(1) show ?thesis by simp
qed

end
