(* ===== verification/FlowControl.thy ===== *)
theory FlowControl
  imports DaemonState
begin

text \<open>
  \<open>daemon/flow_control.c\<close>: the windows of the daemon and how many new packets it may send on
  a token visit. The four windows are \<open>int16\<close> variables.
\<close>

definition FC_init :: "daemon \<Rightarrow> daemon" where
  "FC_init s =
     s\<lparr>Window := to_int16 (cp_window (params s)),
       Personal_window := to_int16 (cp_personal_window (params s)),
       Accelerated_ring := cp_accelerated_ring (params s),
       Accelerated_window := to_int16 (cp_accelerated_window (params s))\<rparr>"

definition FC_new_configuration :: "daemon \<Rightarrow> daemon" where
  "FC_new_configuration s = s\<lparr>Last_num_retrans := 0, Last_num_sent := 0\<rparr>"

definition FC_allowed :: "int \<Rightarrow> int \<Rightarrow> daemon \<Rightarrow> int" where
  "FC_allowed flow_control num_retrans s =
     (if State s = EVS then 0
      else if Highest_seq s > Aru s + MAX_SEQ_GAP then 0
      else
        let allowed = Window s + Personal_window s - flow_control;
            allowed = (if allowed < 0 then 0 else allowed);
            allowed = (if allowed > Window s then Window s else allowed);
            allowed = (if allowed > Personal_window s then Personal_window s else allowed)
        in allowed)"

text \<open>
  A request of the monitor: \<open>buf\<close> is the array of pairs in the packet's body, with the global
  window behind the pairs of the processes.
\<close>

definition FC_handle_message :: "packet_header \<Rightarrow> (int \<Rightarrow> int \<times> int) \<Rightarrow> daemon \<Rightarrow> daemon" where
  "FC_handle_message pack buf s =
     (if \<not> cp_dangerous_monitor (params s) then s
      else if Conf_id_in_conf (Cn s) (ph_proc_id pack) < 0 then s
      else
        let my_index = fst (Conf_id s (p_id (My s)));
            rd = (if Same_endian (ph_type pack) then (\<lambda>x. x) else flip16);
            w = rd (fst (buf (Conf_num_procs (Cn s))));
            pw = rd (fst (buf my_index));
            aw = rd (snd (buf my_index))
        in s\<lparr>Window := (if w \<noteq> -1 then w else Window s),
             Personal_window := (if pw \<noteq> -1 then pw else Personal_window s),
             Accelerated_window := (if aw \<noteq> -1 then aw else Accelerated_window s)\<rparr>)"

definition FC_signal_conf_reload :: "daemon \<Rightarrow> daemon" where
  "FC_signal_conf_reload s = FC_init s"

text \<open>The windows that the setters of the configuration leave are not negative.\<close>

definition windows_ok :: "daemon \<Rightarrow> bool" where
  "windows_ok s \<longleftrightarrow> 0 \<le> Window s \<and> Window s < 32768 \<and> 0 \<le> Personal_window s \<and> Personal_window s < 32768"

lemma FC_allowed_range:
  "windows_ok s \<Longrightarrow> 0 \<le> FC_allowed fc nr s \<and> FC_allowed fc nr s \<le> Window s \<and>
     FC_allowed fc nr s \<le> Personal_window s"
  by (auto simp: windows_ok_def FC_allowed_def Let_def)

lemma FC_allowed_gap:
  "0 < FC_allowed fc nr s \<Longrightarrow> State s \<noteq> EVS \<and> Highest_seq s \<le> Aru s + MAX_SEQ_GAP"
  by (auto simp: FC_allowed_def split: if_splits)

end
