(* ===== verification/MembSteps.thy ===== *)
theory MembSteps
  imports FlowControl
begin

text \<open>
  The operations of \<open>daemon/membership.c\<close> that the delivery of packets calls when a ring is
  installed, and \<open>Prot_set_delivery_threshold\<close> of \<open>daemon/protocol.c\<close>, which both files call.
\<close>

definition Shift_to_op :: "daemon \<Rightarrow> daemon" where
  "Shift_to_op s =
     (let s = s\<lparr>State := OP\<rparr>
      in if Prot_Need_Conf_Reload s
         then E_queue Prot_initiate_conf_reload_event 0 Zero_timeout s else s)"

definition Memb_commit :: "daemon \<Rightarrow> daemon" where
  "Memb_commit s = s\<lparr>Commit_set := Future_commit_set s\<rparr>"

fun append_ids :: "configuration \<Rightarrow> int32u list \<Rightarrow> segment \<Rightarrow> segment option" where
  "append_ids cn [] sg = Some sg"
| "append_ids cn (i # is) sg =
     (case Conf_append_id_to_seg cn sg i of
        (ret, sg') \<Rightarrow> if ret = -1 then None else append_ids cn is sg')"

text \<open>
  The loops of \<open>Memb_transitional\<close>: the segments of the configuration, restricted to the
  processes of a set of members.
\<close>

definition restrict_segments :: "configuration \<Rightarrow> int32u set \<Rightarrow> segment list option" where
  "restrict_segments cn ids =
     those (map (\<lambda>sg. append_ids cn (filter (\<lambda>i. i \<in> ids) (map p_id (procs sg))) \<lparr>procs = []\<rparr>)
               (segments cn))"

definition Memb_transitional :: "daemon \<Rightarrow> daemon option" where
  "Memb_transitional s =
     do {
       tsegs \<leftarrow> restrict_segments (Cn s)
                  (set (arr_list (members (Commit_set s)) (num_pending (Commit_set s))));
       let tm = (Trans_membership s)\<lparr>segments := tsegs\<rparr>;
       leader \<leftarrow> Conf_leader tm;
       csegs \<leftarrow> restrict_segments (Cn s)
                  (set (arr_list (members (Commit_set s)) (num_members (Commit_set s))));
       Some (s\<lparr>Transitional := True, Trans_membership := tm,
               Trans_memb_id := \<lparr>mi_proc_id = leader, mi_time = F_trans_memb_time s\<rparr>,
               Commit_membership := (Commit_membership s)\<lparr>segments := csegs\<rparr>\<rparr>)
     }"

definition Memb_regular :: "daemon \<Rightarrow> daemon option" where
  "Memb_regular s =
     do {
       let s = s\<lparr>Transitional := False, Memb_Just_Installed := True,
                 Membership := Future_membership s, Membership_id := Future_membership_id s,
                 Reg_membership := Future_membership s,
                 Commit_set := \<lparr>num_members = 1, num_pending = 1,
                                members = (members (Commit_set s))(0 := p_id (My s))\<rparr>,
                 Foreign_found := False\<rparr>;
       leader \<leftarrow> Conf_leader (Membership s);
       let s = (if leader = p_id (My s)
                then E_queue Memb_lookup_new_members_event 0 (Timeout s LookupT) s else s);
       Some (Shift_to_op s)
     }"

definition Prot_set_delivery_threshold :: "32 word \<Rightarrow> daemon \<Rightarrow> daemon option" where
  "Prot_set_delivery_threshold new_thresh s =
     (if new_thresh \<notin> {UNRELIABLE_TYPE, RELIABLE_TYPE, FIFO_TYPE, AGREED_TYPE, SAFE_TYPE,
          BLOCK_REGULAR_DELIVERY} then None
      else
        let old_thresh = Prot_delivery_threshold s;
            s = s\<lparr>Prot_delivery_threshold := new_thresh\<rparr>
        in Some
           (if new_thresh < old_thresh then
              (let s = (if new_thresh \<in> {UNRELIABLE_TYPE, RELIABLE_TYPE}
                        then E_queue Deliver_all_reliable_packets_event 0 Zero_timeout s else s)
               in if new_thresh \<in> {UNRELIABLE_TYPE, RELIABLE_TYPE, FIFO_TYPE, AGREED_TYPE}
                  then E_queue Deliver_agreed_packets_event 0 Zero_timeout s else s)
            else if new_thresh > old_thresh then
              (let s = (if new_thresh \<in> {BLOCK_REGULAR_DELIVERY, SAFE_TYPE}
                        then E_dequeue Deliver_agreed_packets_event 0 s else s)
               in if new_thresh \<in> {BLOCK_REGULAR_DELIVERY, SAFE_TYPE, AGREED_TYPE, FIFO_TYPE}
                  then E_dequeue Deliver_all_reliable_packets_event 0 s else s)
            else s))"

end
