(* ===== verification/Delivery.thy ===== *)
theory Delivery
  imports MembSteps
begin

text \<open>
  Delivery of packets to the sessions, \<open>daemon/protocol.c\<close>: \<open>Deliver_packet\<close> with the
  fragments packed behind the first one, the deliveries that come before stability, and
  \<open>Discard_packets\<close>, which delivers and forgets what is stable and, in the EVS state, delivers
  the rest of the old ring around the transitional membership.

  \<open>pi_exist\<close> is 0 for an empty entry, 1 for a packet, 2 for a delivered packet, 3 for a hole
  that nobody can fill.
\<close>

section \<open>The fragments of a packet\<close>

text \<open>The \<open>switch (processed_bytes % 4)\<close> with its fall-through; the remainder of C is negative
  for a negative operand, which no case matches.\<close>

definition padding :: "int \<Rightarrow> int" where
  "padding n = (if n < 0 then 0 else if n mod 4 = 1 then 3 else if n mod 4 = 2 then 2
                else if n mod 4 = 3 then 1 else 0)"

lemma padding_range: "0 \<le> padding n \<and> padding n \<le> 3"
  by (simp add: padding_def)

lemma padding_aligns: "0 \<le> n \<Longrightarrow> (n + padding n) mod 4 = 0"
  unfolding padding_def by presburger

definition read_int16 :: "buffer \<Rightarrow> int \<Rightarrow> int" where
  "read_int16 buf off = to_int16 (uint (buf off) + 256 * uint (buf (off + 1)))"

definition buf_bytes :: "buffer \<Rightarrow> int \<Rightarrow> int \<Rightarrow> byte list" where
  "buf_bytes buf off n = arr_list (\<lambda>i. buf (off + i)) n"

text \<open>
  The loop that makes a message of every fragment behind the first one. A fragment that runs
  past \<open>data_len\<close> ends it; a negative length, which the check lets through, makes \<open>memcpy\<close>
  copy almost the whole address space.
\<close>

function parse_fragments :: "buffer \<Rightarrow> int \<Rightarrow> int \<Rightarrow> byte list list option" where
  "parse_fragments body data_len processed =
     (if processed < data_len then
        let hd_at = processed + padding processed;
            len = read_int16 body (hd_at + 2);
            at = hd_at + sizeof_fragment_header
        in if at + len > data_len then Some []
           else if len < 0 then None
           else map_option ((#) (buf_bytes body at len)) (parse_fragments body data_len (at + len))
      else Some [])"
  by pat_completeness auto
termination
proof (relation "measure (\<lambda>(_, d, p). nat (d - p))", goal_cases)
  case (2 body data_len processed at_hdr len at)
  then show ?case using padding_range [of processed] by simp
qed simp

declare parse_fragments.simps [simp del]

abbreviation (input) MAX_SCATTER_ELEMENTS :: int where "MAX_SCATTER_ELEMENTS \<equiv> 100"

definition Deliver_packet :: "int \<Rightarrow> bool \<Rightarrow> daemon \<Rightarrow> daemon option" where
  "Deliver_packet entry to_copy s =
     (let pk = Packets s entry; head = pi_head pk; frag = ph_first_frag head in
      do {
        messages \<leftarrow> parse_fragments (pi_body pk) (ph_data_len head) (fragment_len frag);
        let proc_index = (if Is_reliable (ph_type head) \<and> fragment_index frag = -1
                          then MAX_PROCS_RING else pi_proc_index pk);
        let elements = (case Up_queue s proc_index of None \<Rightarrow> [] | Some es \<Rightarrow> es);
        let index = \<bar>fragment_index frag\<bar>;
        if int (length elements) + 1 \<noteq> index then None
        else if index > MAX_SCATTER_ELEMENTS \<or> fragment_len frag < 0 then None
        else do {
          let elements = elements @ [buf_bytes (pi_body pk) 0 (fragment_len frag)];
          let s = set_exist entry 2 s;
          let s = (if fragment_index frag < 0
                   then emit (Sess_deliver_message elements) (s\<lparr>Up_queue := (Up_queue s)(proc_index := None)\<rparr>)
                   else s\<lparr>Up_queue := (Up_queue s)(proc_index := Some elements)\<rparr>);
          Some (fold (\<lambda>m. emit (Sess_deliver_message [m])) messages s)
        }
      })"

section \<open>Delivery before stability\<close>

definition deliver_reliable_round :: "int \<Rightarrow> daemon \<Rightarrow> daemon step option" where
  "deliver_reliable_round i s =
     (if exist_at s i = 1 \<and> Is_reliable (ph_type (pi_head (packet_at s i))) \<and>
         fragment_index (ph_first_frag (pi_head (packet_at s i))) = -1
      then map_option Continue (Deliver_packet (pack_entry i) True s)
      else Some (Continue s))"

definition Deliver_reliable_packets :: "int \<Rightarrow> int \<Rightarrow> daemon \<Rightarrow> daemon option" where
  "Deliver_reliable_packets start_seq num_packets s =
     (if State s = EVS then Some s
      else if Prot_delivery_threshold s > RELIABLE_TYPE then Some s
      else
        let end_seq = start_seq + num_packets - 1;
            start_seq = (if start_seq \<le> Last_delivered s then Last_delivered s + 1 else start_seq)
        in for_loop start_seq end_seq deliver_reliable_round s)"

definition Deliver_all_reliable_packets :: "daemon \<Rightarrow> daemon option" where
  "Deliver_all_reliable_packets s = Deliver_reliable_packets 1 (Highest_seq s) s"

text \<open>
  The comparison \<open>Is_regular( type ) >= AGREED_TYPE\<close> of the source is one of masked words.
\<close>

definition deliver_agreed_round :: "int \<Rightarrow> daemon \<Rightarrow> daemon step option" where
  "deliver_agreed_round i s =
     (if exist_at s i = 1 then
        if \<not> Is_safe (ph_type (pi_head (packet_at s i))) then
          do {
            s \<leftarrow> Deliver_packet (pack_entry i) True s;
            Some (Continue (s\<lparr>Last_delivered := Last_delivered s + 1\<rparr>))
          }
        else Some (Break s)
      else if exist_at s i = 2 then
        if ph_type (pi_head (packet_at s i)) AND REGULAR_TYPE \<ge> AGREED_TYPE then None
        else Some (Continue (s\<lparr>Last_delivered := Last_delivered s + 1\<rparr>))
      else None)"

definition Deliver_agreed_packets :: "daemon \<Rightarrow> daemon option" where
  "Deliver_agreed_packets s =
     (if My_aru s \<le> Last_delivered s then Some s
      else if State s = EVS then Some s
      else if Prot_delivery_threshold s > AGREED_TYPE then Some s
      else for_loop (Last_delivered s + 1) (My_aru s) deliver_agreed_round s)"

section \<open>Discarding\<close>

text \<open>Deliver the packet unless it was, and empty its entry.\<close>

definition deliver_and_clear :: "int \<Rightarrow> daemon \<Rightarrow> daemon option" where
  "deliver_and_clear i s =
     do {
       s \<leftarrow> (if exist_at s i = 1 then Deliver_packet (pack_entry i) False s else Some s);
       Some (set_exist (pack_entry i) 0 s)
     }"

definition discard_round :: "int \<Rightarrow> daemon \<Rightarrow> daemon step option" where
  "discard_round i s =
     (if exist_at s i = 0 then None else map_option Continue (deliver_and_clear i s))"

definition discard_stable :: "daemon \<Rightarrow> daemon option" where
  "discard_stable s =
     do {
       s \<leftarrow> for_loop (Last_discarded s + 1) (Aru s) discard_round s;
       Some (s\<lparr>Last_discarded := Aru s,
               Last_delivered := (if Last_delivered s < Aru s then Aru s else Last_delivered s)\<rparr>)
     }"

text \<open>In EVS, before the transitional membership: up to the first hole or SAFE message.\<close>

definition evs_before_round :: "int \<Rightarrow> daemon \<Rightarrow> daemon step option" where
  "evs_before_round i s =
     (if exist_at s i = 0 then None
      else if exist_at s i = 3 then Some (Break s)
      else if Is_safe (ph_type (pi_head (packet_at s i))) then Some (Break s)
      else do {
        s \<leftarrow> deliver_and_clear i s;
        Some (Continue (s\<lparr>Last_discarded := i\<rparr>))
      })"

text \<open>After it: everything up to the first hole, then what the committed members sent.\<close>

definition evs_after_round :: "int \<Rightarrow> bool \<times> daemon \<Rightarrow> (bool \<times> daemon) step option" where
  "evs_after_round i fs =
     (case fs of (found_hole, s) \<Rightarrow>
        if exist_at s i = 0 then None
        else if exist_at s i = 3 then Some (Continue (True, set_exist (pack_entry i) 0 s))
        else if \<not> found_hole \<or>
                Conf_id_in_conf (Commit_membership s) (ph_proc_id (pi_head (packet_at s i))) \<noteq> -1
        then map_option (\<lambda>s. Continue (found_hole, s)) (deliver_and_clear i s)
        else Some (Continue (found_hole, set_exist (pack_entry i) 0 s)))"

definition evs_reset :: "daemon \<Rightarrow> daemon option" where
  "evs_reset s =
     do {
       s \<leftarrow> (if Conf_Reload_Singleton_State s then
               if Gstate s \<noteq> 1 \<or> Conf_num_procs (Reg_membership s) \<noteq> 1 then None
               else Some ((E_queue Memb_lookup_new_members_event 0 Zero_timeout
                            (emit Net_clear_partition s))\<lparr>Conf_Reload_Singleton_State := False\<rparr>)
             else Some s);
       Some (s\<lparr>Highest_seq := 0, Highest_fifo_seq := 0, My_aru := 0, Aru := 0,
               Last_discarded := 0, Last_delivered := 0, Token_counter := 0\<rparr>)
     }"

text \<open>Packets are sent again from the start of a message, and nothing is half received.\<close>

definition evs_clear_queues :: "daemon \<Rightarrow> daemon" where
  "evs_clear_queues s =
     s\<lparr>cur_element := (if Down_queue s \<noteq> [] then 0 else cur_element s),
       Up_queue := (\<lambda>i. if 0 \<le> i \<and> i < MAX_PROCS_RING then None else Up_queue s i)\<rparr>"

definition evs_install :: "daemon \<Rightarrow> daemon option" where
  "evs_install s =
     do {
       s \<leftarrow> for_loop (Last_discarded s + 1) (Highest_seq s) evs_before_round s;
       s \<leftarrow> Memb_transitional s;
       let s = emit (Sess_deliver_trans_memb (Trans_membership s) (Trans_memb_id s)) s;
       (_, s) \<leftarrow> for_loop (Last_discarded s + 1) (Highest_seq s) evs_after_round (False, s);
       if \<exists>i \<in> set [0..MAX_PACKETS_IN_STRUCT - 1]. pi_exist (Packets s i) \<noteq> 0 then None
       else do {
         s \<leftarrow> Memb_regular (evs_clear_queues s);
         let s = emit (Sess_deliver_reg_memb (Reg_membership s) (Membership_id s)) s;
         evs_reset s
       }
     }"

definition Discard_packets :: "daemon \<Rightarrow> daemon option" where
  "Discard_packets s =
     (if Aru s \<le> Last_discarded s then Some s
      else if State s = EVS then
        if Aru s \<noteq> Last_seq s then Some s else evs_install s
      else discard_stable s)"

end
