(* ===== verification/ProtSend.thy ===== *)
theory ProtSend
  imports Delivery
begin

text \<open>
  Sending new packets, \<open>daemon/protocol.c\<close>: \<open>Send_new_packets\<close>, which packs the fragments of
  the down queue into packets, and \<open>Prot_queue_bcast\<close> and \<open>Prot_flush_bcast\<close>, the queue of
  packets that the accelerated ring holds back until the token has gone.

  A packet that waits in the queue shares its header with the table \<open>Packets\<close>; stamping the
  round of the token in the one stamps it in the other.
\<close>

section \<open>Bytes of a packet\<close>

definition write_int16 :: "buffer \<Rightarrow> int \<Rightarrow> int \<Rightarrow> buffer" where
  "write_int16 buf off v = buf(off := word_of_int v, off + 1 := word_of_int (v div 256))"

definition put_bytes :: "buffer \<Rightarrow> int \<Rightarrow> buffer \<Rightarrow> int \<Rightarrow> buffer" where
  "put_bytes dst at src n = (\<lambda>i. if at \<le> i \<and> i < at + n then src (i - at) else dst i)"

lemma to_int16_take_bit: "to_int16 (v mod 65536) = to_int16 v"
proof -
  have "signed_take_bit 15 (take_bit 16 v) = signed_take_bit 15 v"
    by (rule bit_eqI) (simp add: bit_signed_take_bit_iff bit_take_bit_iff min_def)
  then show ?thesis by (simp add: to_int16_def take_bit_eq_mod)
qed

lemma read_write_int16: "read_int16 (write_int16 buf off v) off = to_int16 v"
proof -
  have "v mod 256 + 256 * ((v div 256) mod 256) = v mod 65536"
    using zmod_zmult2_eq [of 256 v 256] by simp
  then show ?thesis
    by (simp add: read_int16_def write_int16_def uint_word_of_int to_int16_take_bit)
qed

section \<open>The queue of packets to broadcast\<close>

definition bcast_stamped :: "packet_header \<times> buffer \<Rightarrow> daemon \<Rightarrow> packet_header \<times> daemon" where
  "bcast_stamped hb s =
     (let h = (fst hb)\<lparr>ph_token_round := Token_rounds s\<rparr>;
          e = pack_entry (ph_seq h);
          p = Packets s e;
          s = (if pi_exist p \<noteq> 0 \<and> pi_head p = fst hb then set_packet e (p\<lparr>pi_head := h\<rparr>) s else s)
      in (h, emit (Net_bcast (Packet h (snd hb))) s))"

definition queue_send_count :: "daemon \<Rightarrow> int" where
  "queue_send_count s =
     (let n = int (length (Send_pack_queue s)) in
      if \<not> Accelerated_ring s \<or> State s = EVS then n
      else
        let k = n - Accelerated_window s + 1;
            k = (if k < 0 then 0 else k)
        in if k > n then n else k)"

primrec bcast_first :: "nat \<Rightarrow> daemon \<Rightarrow> daemon" where
  "bcast_first 0 s = s"
| "bcast_first (Suc k) s =
     (case Send_pack_queue s of
        [] \<Rightarrow> s
      | hb # q \<Rightarrow> bcast_first k (snd (bcast_stamped hb (s\<lparr>Send_pack_queue := q\<rparr>))))"

definition Prot_queue_bcast :: "packet_header \<times> buffer \<Rightarrow> daemon \<Rightarrow> packet_header \<times> int \<times> daemon" where
  "Prot_queue_bcast hb s =
     (let k = queue_send_count s;
          s = bcast_first (nat k) s
      in if \<not> Accelerated_ring s \<or> Accelerated_window s = 0 \<or> State s = EVS
         then (case bcast_stamped hb s of (h, s) \<Rightarrow> (h, k + 1, s))
         else (fst hb, k, s\<lparr>Send_pack_queue := Send_pack_queue s @ [hb]\<rparr>))"

definition Prot_flush_bcast :: "daemon \<Rightarrow> int \<times> daemon" where
  "Prot_flush_bcast s =
     (let n = length (Send_pack_queue s) in (int n, bcast_first n s))"

section \<open>Packing\<close>

text \<open>
  The header of a new packet and the fragment it starts with. \<open>transmiter_id\<close> and
  \<open>conf_hash\<close> are left to the network layer, which fills them in every packet it sends.
\<close>

definition start_packet :: "down_link \<Rightarrow> scat_element \<Rightarrow> daemon \<Rightarrow> packet_header" where
  "start_packet d el s =
     \<lparr>ph_type = dl_type d, ph_transmiter_id = 0, ph_proc_id = p_id (My s),
      ph_memb_id = Membership_id s, ph_seq = Highest_seq s + 1, ph_token_round = 0,
      ph_conf_hash = 0, ph_data_len = to_int16u (snd el),
      ph_first_frag = \<lparr>fragment_index = 0, fragment_len = to_int16 (snd el)\<rparr>\<rparr>"

text \<open>
  \<open>frag_ptr\<close> is \<open>None\<close> while it points at the fragment header inside the packet header, and
  the offset in the body afterwards.
\<close>

definition set_fragment_index ::
  "int option \<Rightarrow> int \<Rightarrow> packet_header \<Rightarrow> buffer \<Rightarrow> packet_header \<times> buffer" where
  "set_fragment_index frag v head body =
     (case frag of
        None \<Rightarrow> (head\<lparr>ph_first_frag := (ph_first_frag head)\<lparr>fragment_index := to_int16 v\<rparr>\<rparr>, body)
      | Some at \<Rightarrow> (head, write_int16 body at v))"

definition advance_fragment ::
  "int option \<Rightarrow> packet_header \<Rightarrow> buffer \<Rightarrow> daemon \<Rightarrow> (packet_header \<times> buffer \<times> daemon) option" where
  "advance_fragment frag head body s =
     (let n = length (dl_mess (hd (Down_queue s)));
          cur = cur_element s + 1
      in if cur < n then
           (case set_fragment_index frag (int cur) head body of
              (head, body) \<Rightarrow> Some (head, body, s\<lparr>cur_element := cur\<rparr>))
         else if cur = n then
           (case set_fragment_index frag (- to_int16 (int n)) head body of
              (head, body) \<Rightarrow>
                let s = s\<lparr>Down_queue := tl (Down_queue s), cur_element := 0\<rparr>;
                    s = (if length (Down_queue s) < WATER_MARK then emit Sess_unblock_users_level s else s)
                in Some (head, body, s))
         else None)"

text \<open>The three reasons not to add the next fragment to the packet.\<close>

definition next_fits :: "packet_header \<Rightarrow> daemon \<Rightarrow> bool option" where
  "next_fits head s =
     (case Down_queue s of
        [] \<Rightarrow> Some False
      | d # _ \<Rightarrow>
          if length (dl_mess d) \<le> cur_element s then None
          else
            let available = sizeof_packet_body - ph_data_len head - padding (ph_data_len head)
                              - sizeof_fragment_header
            in Some (snd (dl_mess d ! cur_element s) \<le> available \<and>
                     (ph_type head = dl_type d \<or>
                      (Is_fifo (ph_type head) \<or> Is_agreed (ph_type head)) \<and>
                      (Is_fifo (dl_type d) \<or> Is_agreed (dl_type d)))))"

definition append_fragment ::
  "packet_header \<Rightarrow> buffer \<Rightarrow> scat_element \<Rightarrow> (packet_header \<times> buffer \<times> int) option" where
  "append_fragment head body el =
     (let at = ph_data_len head + padding (ph_data_len head);
          len = to_int16 (snd el);
          body = write_int16 body (at + 2) len;
          data_len = to_int16u (at + sizeof_fragment_header)
      in if len < 0 then None
         else Some (head\<lparr>ph_data_len := to_int16u (data_len + len)\<rparr>,
                    put_bytes body data_len (fst el) len, at))"

definition queued_elements :: "daemon \<Rightarrow> nat" where
  "queued_elements s = (\<Sum>d \<leftarrow> Down_queue s. length (dl_mess d)) - cur_element s"

lemma advance_fragment_less:
  assumes "advance_fragment frag head body s = Some (h, b, s')" "Down_queue s \<noteq> []"
  shows "queued_elements s' < queued_elements s"
proof -
  obtain d q where q: "Down_queue s = d # q" using assms(2) by (cases "Down_queue s") auto
  show ?thesis using assms(1)
    by (auto simp: advance_fragment_def q queued_elements_def Let_def emit_def
             split: if_splits prod.splits)
qed

text \<open>The loop that fills a packet, entered with a non-empty down queue.\<close>

function pack_loop ::
  "int option \<Rightarrow> packet_header \<Rightarrow> buffer \<Rightarrow> daemon \<Rightarrow> (packet_header \<times> buffer \<times> daemon) option" where
  "pack_loop frag head body s =
     (if Down_queue s = [] then None
      else case advance_fragment frag head body s of
        None \<Rightarrow> None
      | Some (head, body, s) \<Rightarrow>
          (case next_fits head s of
             None \<Rightarrow> None
           | Some False \<Rightarrow> Some (head, body, s)
           | Some True \<Rightarrow>
               (case append_fragment head body (dl_mess (hd (Down_queue s)) ! cur_element s) of
                  None \<Rightarrow> None
                | Some (head, body, at) \<Rightarrow> pack_loop (Some at) head body s)))"
  by pat_completeness auto
termination
  by (relation "measure (\<lambda>(_, _, _, s). queued_elements s)") (auto dest: advance_fragment_less)

declare pack_loop.simps [simp del]

definition insert_new_packet :: "packet_header \<Rightarrow> buffer \<Rightarrow> daemon \<Rightarrow> daemon option" where
  "insert_new_packet head body s =
     (let e = pack_entry (ph_seq head) in
      if pi_exist (Packets s e) \<noteq> 0 then None
      else Some (set_packet e \<lparr>pi_head = head, pi_body = body, pi_exist = 1,
                               pi_proc_index = My_index s\<rparr> s))"

definition send_one_packet :: "daemon \<Rightarrow> daemon option" where
  "send_one_packet s =
     (case Down_queue s of
        [] \<Rightarrow> None
      | d # _ \<Rightarrow>
          if length (dl_mess d) \<le> cur_element s then None
          else do {
            let el = dl_mess d ! cur_element s;
            let head = start_packet d el s;
            let s = s\<lparr>Highest_seq := Highest_seq s + 1, Highest_fifo_seq := Highest_fifo_seq s + 1\<rparr>;
            (head, body, s) \<leftarrow> pack_loop None head (fst el) s;
            let (head, _, s) = Prot_queue_bcast (head, body) s;
            insert_new_packet head body s
          })"

primrec send_packets :: "nat \<Rightarrow> daemon \<Rightarrow> (int \<times> daemon) option" where
  "send_packets 0 s = Some (0, s)"
| "send_packets (Suc k) s =
     (if Down_queue s = [] then Some (0, s)
      else do {
        s \<leftarrow> send_one_packet s;
        (n, s) \<leftarrow> send_packets k s;
        Some (n + 1, s)
      })"

definition Send_new_packets :: "int \<Rightarrow> daemon \<Rightarrow> (int \<times> daemon) option" where
  "Send_new_packets num_allowed s = send_packets (nat num_allowed) s"

end
