(* ===== verification/ProtHurry.thy ===== *)
theory ProtHurry
  imports ProtSend
begin

text \<open>
  The token that is held, hurried and retransmitted, and the message that a session queues:
  \<open>Is_token_hold\<close>, \<open>To_hold_token\<close>, \<open>Prot_token_hurry\<close>, \<open>Handle_hurry\<close>,
  \<open>Prot_new_message\<close> and \<open>Prot_set_prev_proc\<close> of \<open>daemon/protocol.c\<close>.
\<close>

definition Is_token_hold :: "daemon \<Rightarrow> bool" where
  "Is_token_hold s \<longleftrightarrow>
     (State s = OP \<or> State s = GATHER \<and> Token_alive s) \<and>
     Get_retrans (th_type (Last_token s)) \<le> 1 \<and>
     Aru s = Highest_seq s \<and> Token_counter s > 1"

definition To_hold_token :: "daemon \<Rightarrow> bool" where
  "To_hold_token s \<longleftrightarrow>
     (State s = OP \<or> State s = GATHER \<and> Token_alive s) \<and>
     Get_retrans (th_type (Last_token s)) \<le> 1 \<and>
     Aru s = Highest_seq s \<and> Token_counter s > 1"

definition Prot_token_hurry :: "daemon \<Rightarrow> daemon option" where
  "Prot_token_hurry s =
     do {
       let s = s\<lparr>Last_token := (Last_token s)\<lparr>th_rtr_len := 0\<rparr>\<rparr>;
       leader \<leftarrow> Conf_leader (Memb_active s);
       let s = (if leader = p_id (My s) then
                  let val = Get_retrans (th_type (Last_token s)) + 1
                  in E_queue Prot_token_hurry_event 0 (Timeout s HurryT)
                       (s\<lparr>Last_token := (Last_token s)\<lparr>th_type := Set_retrans (th_type (Last_token s)) val\<rparr>\<rparr>)
                else s);
       let send = emit (Net_send_token (Token (Last_token s) []));
       let s = send s;
       s \<leftarrow> (if Wide_network s then do {
               l \<leftarrow> Conf_seg_last (Memb_active s) (p_seg_index (My s));
               Some (if l = p_id (My s) then send s else s)
             } else Some s);
       Some (if Get_retrans (th_type (Last_token s)) > 1 then send (send s) else s)
     }"

definition Handle_hurry :: "packet_header \<Rightarrow> daemon \<Rightarrow> daemon option" where
  "Handle_hurry pack s =
     do {
       leader \<leftarrow> Conf_leader (Memb_active s);
       if leader = p_id (My s) \<and> Is_token_hold s \<and>
          Conf_id_in_conf (Memb_active s) (ph_proc_id pack) \<noteq> -1
       then Prot_token_hurry (s\<lparr>Token_counter := 0\<rparr>)
       else Some s
     }"

text \<open>The header that \<open>Prot_init\<close> prepares for hurry packets.\<close>

definition Hurry_head :: "daemon \<Rightarrow> packet_header" where
  "Hurry_head s =
     \<lparr>ph_type = HURRY_TYPE, ph_transmiter_id = 0, ph_proc_id = p_id (My s),
      ph_memb_id = \<lparr>mi_proc_id = 0, mi_time = 0\<rparr>, ph_seq = 0, ph_token_round = 0,
      ph_conf_hash = 0, ph_data_len = 0,
      ph_first_frag = \<lparr>fragment_index = 0, fragment_len = 0\<rparr>\<rparr>"

definition Prot_new_message :: "down_link \<Rightarrow> daemon \<Rightarrow> daemon option" where
  "Prot_new_message down s =
     (let s = s\<lparr>Down_queue := Down_queue s @ [down]\<rparr>;
          s = (if length (Down_queue s) \<ge> WATER_MARK then emit Sess_block_users_level s else s)
      in if length (Down_queue s) = 1 \<and> Is_token_hold s then
           do {
             leader \<leftarrow> Conf_leader (Memb_active s);
             if leader = p_id (My s) then Handle_hurry (Hurry_head s) s
             else Some (emit (Net_ucast leader (Head (Hurry_head s))) s)
           }
         else Some s)"

definition Prot_set_prev_proc :: "configuration \<Rightarrow> daemon \<Rightarrow> daemon option" where
  "Prot_set_prev_proc memb s =
     do {
       prev \<leftarrow> Conf_previous (My s) memb;
       Some (s\<lparr>Prev_proc_id := prev\<rparr>)
     }"

lemma Is_token_hold_To_hold: "Is_token_hold s = To_hold_token s"
  by (simp add: Is_token_hold_def To_hold_token_def)

end
