(* ===== verification/MembGather.thy ===== *)
theory MembGather
  imports ProtHurry
begin

text \<open>
  The membership protocol before a ring forms, \<open>daemon/membership.c\<close>: the shifts between the
  states, the messages that look for other daemons, and \<open>Memb_token_loss\<close>, which throws the
  daemon back to the beginning. Every state but FORM and EVS is entered here or in
  \<open>Shift_to_op\<close>.
\<close>

section \<open>Messages\<close>

text \<open>The header in \<open>Send_pack\<close>: \<open>Memb_init\<close> sets \<open>proc_id\<close>, a sender the type and the length.\<close>

definition Send_pack_head :: "32 word \<Rightarrow> int \<Rightarrow> daemon \<Rightarrow> packet_header" where
  "Send_pack_head ty len s =
     \<lparr>ph_type = ty, ph_transmiter_id = 0, ph_proc_id = p_id (My s),
      ph_memb_id = \<lparr>mi_proc_id = 0, mi_time = 0\<rparr>, ph_seq = 0, ph_token_round = 0,
      ph_conf_hash = 0, ph_data_len = to_int16u len,
      ph_first_frag = \<lparr>fragment_index = 0, fragment_len = 0\<rparr>\<rparr>"

definition members_bytes :: "members_info \<Rightarrow> int" where
  "members_bytes m = 4 + num_members m * sizeof_int32"

definition reps_bytes :: "reps_info \<Rightarrow> int" where
  "reps_bytes r = 4 + num_reps r * 8"

definition Scast_alive :: "int \<Rightarrow> daemon \<Rightarrow> daemon" where
  "Scast_alive code s =
     (let s = emit (Net_scast (p_seg_index (My s))
                (Alive (Send_pack_head ALIVE_TYPE (members_bytes (F_members s)) s) (F_members s))) s
      in if code = 0 then E_queue Scast_alive_event 0 (Timeout s AliveT) s else s)"

definition join_message :: "daemon \<Rightarrow> net_msg" where
  "join_message s =
     Join (Send_pack_head JOIN_TYPE (members_bytes (F_members s) + reps_bytes (F_reps s)) s)
          (F_members s) (F_reps s)"

definition Send_join :: "daemon \<Rightarrow> daemon" where
  "Send_join s =
     (let m = join_message s;
          s = (if \<not> Token_alive s then emit (Net_scast (p_seg_index (My s)) m) s else s);
          s = fold (\<lambda>r. emit (Net_ucast (rep_proc_id r) m)) (rep_list (Potential_reps s)) s
      in E_queue Send_join_event 0 (Timeout s JoinT) s)"

section \<open>Shifts\<close>

definition Shift_to_seg :: "daemon \<Rightarrow> daemon" where
  "Shift_to_seg s =
     (let s = s\<lparr>State := SEG,
               F_members := \<lparr>num_members = 1, num_pending = 0,
                             members = (members (F_members s))(0 := p_id (My s))\<rparr>\<rparr>;
          s = E_queue Scast_alive_event 0 Zero_timeout s
      in E_queue Gather_or_represented_event 0 (Timeout s SegT) s)"

definition Shift_to_gather :: "daemon \<Rightarrow> daemon" where
  "Shift_to_gather s =
     (let me = \<lparr>rep_proc_id = p_id (My s), rep_type = (if Token_alive s then RING_REP else SEG_REP),
                rep_seg_index = p_seg_index (My s)\<rparr>;
          s = s\<lparr>State := GATHER,
                F_reps := (F_reps s)\<lparr>num_reps := 1, reps := (reps (F_reps s))(0 := me)\<rparr>\<rparr>;
          s = E_dequeue Scast_alive_event 0 s;
          s = E_dequeue Memb_lookup_new_members_event 0 s;
          s = E_queue Send_join_event 0 Zero_timeout s
      in E_queue Form_or_fail_event 0 (Timeout s GatherT) s)"

definition Shift_to_represented :: "daemon \<Rightarrow> daemon" where
  "Shift_to_represented s =
     (let s = s\<lparr>State := REPRESENTED\<rparr>;
          s = E_dequeue Scast_alive_event 0 s;
          s = E_dequeue Gather_or_represented_event 0 s
      in E_queue Shift_to_seg_event 0 (Timeout s RepT) s)"

definition Gather_or_represented :: "daemon \<Rightarrow> daemon option" where
  "Gather_or_represented s =
     do {
       let s = s\<lparr>My_seg_rep := -1\<rparr>;
       (smallest, _) \<leftarrow> Smallest_member (Cn s) (F_members s);
       Some (if smallest = p_id (My s) then Shift_to_gather s else Shift_to_represented s)
     }"

text \<open>
  The join messages that a ring leader sends out to find daemons outside its ring. With one
  segment they go to all of it, otherwise to each process that is not a member.
\<close>

definition missing_procs :: "daemon \<Rightarrow> int32u list" where
  "missing_procs s = filter (\<lambda>i. Conf_id_in_conf (Reg_membership s) i = -1) (ring_ids (Cn s))"

definition Memb_lookup_new_members :: "daemon \<Rightarrow> daemon" where
  "Memb_lookup_new_members s =
     (if State s \<noteq> OP then s
      else
        let me = \<lparr>rep_proc_id = p_id (My s), rep_type = RING_REP, rep_seg_index = p_seg_index (My s)\<rparr>;
            s = s\<lparr>Potential_reps := (Potential_reps s)\<lparr>num_reps := 0\<rparr>,
                  F_reps := (F_reps s)\<lparr>num_reps := 1, reps := (reps (F_reps s))(0 := me)\<rparr>,
                  F_members := (F_members s)\<lparr>num_members := 0, num_pending := 0\<rparr>\<rparr>;
            m = join_message s
        in if Conf_num_segments (Cn s) = 1
           then Shift_to_gather (emit (Net_scast (p_seg_index (My s)) m) s)
           else
             let missing = missing_procs s;
                 s = fold (\<lambda>i. emit (Net_ucast i m)) missing s
             in if missing \<noteq> [] then Shift_to_gather s else s)"

section \<open>Losing the token\<close>

text \<open>Back out of an installation: forget the dummies for holes and recompute \<open>My_aru\<close>.\<close>

definition clear_dummies :: "daemon \<Rightarrow> daemon" where
  "clear_dummies s =
     fold (\<lambda>i s. if exist_at s i = 3 then set_exist (pack_entry i) 0 s else s)
       [Last_discarded s + 1..Highest_seq s] s"

fun advance_aru :: "(int \<Rightarrow> int) \<Rightarrow> int list \<Rightarrow> int \<Rightarrow> int" where
  "advance_aru ex [] a = a"
| "advance_aru ex (i # is) a = (if ex i = 0 then a else advance_aru ex is (a + 1))"

definition Backoff_membership :: "daemon \<Rightarrow> daemon" where
  "Backoff_membership s =
     (let s = clear_dummies s;
          s = s\<lparr>Aru := Last_discarded s\<rparr>
      in s\<lparr>My_aru := advance_aru (exist_at s) [Last_discarded s + 1..Highest_seq s] (Last_discarded s)\<rparr>)"

text \<open>
  A potential representative for every other segment: its first process in the ring
  \<open>memb\<close>, or the first configured one. The type is what \<open>temp_rep\<close> holds at that point.
\<close>

definition segment_potential :: "configuration \<Rightarrow> int \<Rightarrow> daemon \<Rightarrow> int \<Rightarrow> rep_info option" where
  "segment_potential memb ty s i =
     (if num_procs (seg_at memb i) > 0
      then Some \<lparr>rep_proc_id = p_id (procs (seg_at memb i) ! 0), rep_type = ty, rep_seg_index = i\<rparr>
      else map_option (\<lambda>l. \<lparr>rep_proc_id = l, rep_type = ty, rep_seg_index = i\<rparr>)
             (Conf_seg_leader (Cn s) i))"

fun insert_reps :: "configuration \<Rightarrow> rep_info list \<Rightarrow> reps_info \<Rightarrow> reps_info option" where
  "insert_reps cn [] r = Some r"
| "insert_reps cn (x # xs) r =
     (case Insert_rep cn r x of None \<Rightarrow> None | Some (_, r') \<Rightarrow> insert_reps cn xs r')"

definition insert_potentials :: "configuration \<Rightarrow> int \<Rightarrow> daemon \<Rightarrow> reps_info \<Rightarrow> reps_info option" where
  "insert_potentials memb ty s r =
     do {
       xs \<leftarrow> those (map (segment_potential memb ty s)
                    (filter (\<lambda>i. i \<noteq> p_seg_index (My s)) [0..Conf_num_segments (Cn s) - 1]));
       insert_reps (Cn s) xs r
     }"

definition clear_segments :: "int \<Rightarrow> configuration \<Rightarrow> configuration" where
  "clear_segments n c =
     c\<lparr>segments := map (\<lambda>(i, sg). if int i < n then sg\<lparr>procs := []\<rparr> else sg) (enumerate 0 (segments c))\<rparr>"

definition append_to_segment :: "configuration \<Rightarrow> int \<Rightarrow> int32u \<Rightarrow> configuration \<Rightarrow> int \<times> configuration" where
  "append_to_segment cn k i c =
     (case Conf_append_id_to_seg cn (seg_at c k) i of
        (ret, sg) \<Rightarrow> (ret, c\<lparr>segments := (segments c)[nat k := sg]\<rparr>))"

text \<open>The ring of this daemon alone.\<close>

definition singleton_ring :: "configuration \<Rightarrow> daemon \<Rightarrow> configuration" where
  "singleton_ring c s =
     snd (append_to_segment (Cn s) (p_seg_index (My s)) (p_id (My s))
            (clear_segments (Conf_num_segments (Cn s)) c))"

text \<open>
  The \<open>switch\<close> at the start of \<open>Memb_token_loss\<close>. In GATHER \<open>temp_rep\<close> is reused after the
  loop over the gathered representatives, so what it puts in for the other segments has the
  type of the last one gathered.
\<close>

definition token_loss_potentials :: "daemon \<Rightarrow> daemon option" where
  "token_loss_potentials s =
     (case State s of
        OP \<Rightarrow>
          do {
            r \<leftarrow> insert_potentials (Membership s) POTENTIAL_REP s ((Potential_reps s)\<lparr>num_reps := 0\<rparr>);
            Some (s\<lparr>Potential_reps := r\<rparr>)
          }
      | SEG \<Rightarrow> None
      | REPRESENTED \<Rightarrow> None
      | GATHER \<Rightarrow>
          if \<not> Token_alive s then None
          else do {
            let gathered = tl (rep_list (F_reps s));
            r \<leftarrow> insert_reps (Cn s) gathered ((Potential_reps s)\<lparr>num_reps := 0\<rparr>);
            let ty = (if gathered = [] then POTENTIAL_REP else rep_type (last gathered));
            r \<leftarrow> insert_potentials (Membership s) ty s r;
            Some (s\<lparr>Potential_reps := r\<rparr>)
          }
      | FORM \<Rightarrow> Some s
      | EVS \<Rightarrow>
          do {
            let s = Backoff_membership s;
            r \<leftarrow> insert_potentials (Future_membership s) POTENTIAL_REP s ((Potential_reps s)\<lparr>num_reps := 0\<rparr>);
            Some (s\<lparr>Potential_reps := r\<rparr>)
          })"

definition forget_token :: "token_header \<Rightarrow> token_header" where
  "forget_token t = t\<lparr>th_type := 0, th_seq := 0, th_aru := 0\<rparr>"

definition Memb_token_loss :: "daemon \<Rightarrow> daemon option" where
  "Memb_token_loss s =
     do {
       s \<leftarrow> token_loss_potentials s;
       let s = s\<lparr>Token_alive := False\<rparr>;
       s \<leftarrow> Prot_set_delivery_threshold BLOCK_REGULAR_DELIVERY s;
       let s = s\<lparr>Memb_Just_Installed := False\<rparr>;
       let s = E_dequeue Memb_token_loss_event 0 s;
       let s = E_dequeue Send_join_event 0 s;
       let s = E_dequeue Form_or_fail_event 0 s;
       let s = E_dequeue Prot_token_hurry_event 0 s;
       let s = E_dequeue Memb_lookup_new_members_event 0 s;
       let s = s\<lparr>Last_token := forget_token (Last_token s)\<rparr>;
       let s = s\<lparr>Membership := singleton_ring (Membership s) s\<rparr>;
       Some (Shift_to_seg s)
     }"

section \<open>Initialisation\<close>

text \<open>
  \<open>Conf\<close>, \<open>Conf_my\<close> and the parameters are what the configuration file gave; \<open>Memb_init\<close>
  starts with the daemon alone and an artificial loss of the token.
\<close>

definition Memb_init :: "daemon \<Rightarrow> daemon option" where
  "Memb_init s =
     do {
       let s = Shift_to_op s;
       let s = s\<lparr>Wide_network := (if cp_wide_area_flag (params s) then cp_wide_area (params s)
                                  else Conf_num_segments (Cn s) > 1)\<rparr>;
       let s = (if \<not> cp_accelerated_ring_flag (params s)
                then s\<lparr>params := (params s)\<lparr>cp_accelerated_ring := \<not> Wide_network s\<rparr>\<rparr> else s);
       ts \<leftarrow> memb_timeouts (Wide_network s) (params s);
       let s = s\<lparr>Timeout := ts\<rparr>;
       let m = singleton_ring (Cn s) s;
       let s = s\<lparr>Membership := m, Membership_id := \<lparr>mi_proc_id = p_id (My s), mi_time = -1\<rparr>,
                 Last_time_used := -1, Transitional := False, Reg_membership := m,
                 Commit_set := \<lparr>num_members = 1, num_pending = 1,
                                members = (members (Commit_set s))(0 := p_id (My s))\<rparr>\<rparr>;
       Memb_token_loss s
     }"

end
