(* ===== verification/FormTokens.thy ===== *)
theory FormTokens
  imports MembGather
begin

text \<open>
  The form1 token, \<open>daemon/membership.c\<close>: \<open>Create_form1\<close> and \<open>Fill_form1\<close>. The token visits
  the members and representatives of the new ring; each adds the members it stands for and
  what its old ring knows: the aru, the highest sequence number, the packets nobody has shown
  to have (holes) and the members that will install the ring together.

  The buffer of a token is the record \<open>form_body\<close>. A form2 token is the same buffer with the
  representatives cut down to the first eight bytes, which then are the membership id.
\<close>

abbreviation (input) sizeof_members_info :: int where "sizeof_members_info \<equiv> 516"
abbreviation (input) sizeof_reps_info :: int where "sizeof_reps_info \<equiv> 204"
abbreviation (input) sizeof_ring_info :: int where "sizeof_ring_info \<equiv> 28"
abbreviation (input) sizeof_membership_id :: int where "sizeof_membership_id \<equiv> 8"

definition ring_bytes :: "ring_info \<Rightarrow> int" where
  "ring_bytes r = sizeof_ring_info + (int (length (ri_holes r)) + int (length (ri_commit r))) * sizeof_int32"

definition rings_bytes :: "ring_info list \<Rightarrow> int" where
  "rings_bytes rs = sizeof_int32 + (\<Sum>r \<leftarrow> rs. ring_bytes r)"

definition holes_between :: "daemon \<Rightarrow> int \<Rightarrow> int \<Rightarrow> int list" where
  "holes_between s lo hi = filter (\<lambda>i. exist_at s i = 0) [lo..hi]"

text \<open>The ids behind the holes: this daemon, then the rest of its commit set.\<close>

definition own_commit :: "daemon \<Rightarrow> int32u list" where
  "own_commit s = p_id (My s) # filter (\<lambda>i. i \<noteq> p_id (My s)) (member_list (Commit_set s))"

definition set_member_list :: "int32u list \<Rightarrow> members_info \<Rightarrow> members_info" where
  "set_member_list xs m =
     m\<lparr>num_members := int (length xs),
       members := (\<lambda>i. if 0 \<le> i \<and> i < int (length xs) then xs ! nat i else members m i)\<rparr>"

definition rep_ids :: "reps_info \<Rightarrow> int32u set" where
  "rep_ids r = rep_proc_id ` set (rep_list r)"

text \<open>The representatives of the other segments, as potential ones.\<close>

definition form_potentials :: "reps_info \<Rightarrow> daemon \<Rightarrow> reps_info option" where
  "form_potentials r s =
     insert_reps (Cn s)
       (map (\<lambda>x. x\<lparr>rep_type := POTENTIAL_REP\<rparr>)
          (filter (\<lambda>x. rep_seg_index x \<noteq> p_seg_index (My s)) (rep_list r)))
       ((Potential_reps s)\<lparr>num_reps := 0\<rparr>)"

text \<open>The membership id that the first eight bytes of the representatives are read as.\<close>

definition reps_as_memb_id :: "reps_info \<Rightarrow> membership_id" where
  "reps_as_memb_id r =
     \<lparr>mi_proc_id = word_of_int (to_int16u (num_reps r) + 65536 * to_int16u (rep_index r)),
      mi_time = sint (rep_proc_id (reps r 0))\<rparr>"

text \<open>The end of both routines: whom to send the token to, twice.\<close>

definition send_twice :: "int32u \<Rightarrow> net_msg \<Rightarrow> daemon \<Rightarrow> daemon" where
  "send_twice i m s = emit (Net_ucast_token i m) (emit (Net_ucast_token i m) s)"

definition form1_len :: "ring_info list \<Rightarrow> int" where
  "form1_len rs = to_int16u (sizeof_members_info + sizeof_reps_info + rings_bytes rs)"

definition form2_len :: "ring_info list \<Rightarrow> int" where
  "form2_len rs = to_int16u (sizeof_members_info + sizeof_membership_id + rings_bytes rs)"

section \<open>Creating the token\<close>

definition new_form_id :: "daemon \<Rightarrow> membership_id" where
  "new_form_id s =
     \<lparr>mi_proc_id = p_id (My s),
      mi_time = (if Wall_sec s \<le> Last_time_used s then Last_time_used s + 1 else Wall_sec s)\<rparr>"

definition form1_header :: "daemon \<Rightarrow> token_header" where
  "form1_header s =
     \<lparr>th_type = FORM1_TYPE, th_transmiter_id = 0, th_proc_id = p_id (My s),
      th_memb_id = new_form_id s, th_seq = Highest_seq s + 3333, th_aru = 0, th_aru_last_id = 0,
      th_flow_control = 0, th_rtr_len = 0, th_conf_hash = 0\<rparr>"

text \<open>The members of the new ring that this daemon starts with: its ring or its segment.\<close>

definition create_members :: "daemon \<Rightarrow> members_info" where
  "create_members s =
     (let m = (if rep_type (reps (F_reps s) 0) = RING_REP
               then set_member_list (ring_ids (Membership s)) (F_members s) else F_members s);
          valid = filter (\<lambda>i. \<not> (i \<in> rep_ids (F_reps s) \<and> i \<noteq> p_id (My s))) (member_list m);
          m = set_member_list valid m
      in m\<lparr>num_pending := to_int16 (num_members m - 1), num_members := 1\<rparr>)"

definition create_ring :: "daemon \<Rightarrow> ring_info" where
  "create_ring s =
     \<lparr>ri_memb_id = Membership_id s, ri_trans_time = 0, ri_aru = Aru s, ri_highest_seq = Highest_seq s,
      ri_holes = holes_between s (My_aru s + 1) (Highest_seq s), ri_commit = own_commit s,
      ri_num_trans = 1\<rparr>"

definition send_form1 :: "token_header \<Rightarrow> ring_info list \<Rightarrow> daemon \<Rightarrow> daemon" where
  "send_form1 head rings s =
     (let m = F_members s; r = F_reps s;
          body = \<lparr>fm_members = m, fm_reps = r, fm_memb_id = reps_as_memb_id r, fm_rings = rings\<rparr>;
          tok = Form (head\<lparr>th_rtr_len := form1_len rings\<rparr>) body
      in if num_pending m > 0 then send_twice (members m (num_members m)) tok s
         else if rep_index r < num_reps r then send_twice (rep_proc_id (reps r (rep_index r))) tok s
         else
           let m = m\<lparr>num_pending := 1, num_members := 0\<rparr>;
               tok = Form (head\<lparr>th_type := FORM2_TYPE, th_rtr_len := form2_len rings\<rparr>)
                          (body\<lparr>fm_members := m\<rparr>)
           in send_twice (p_id (My s)) tok (s\<lparr>F_members := m\<rparr>))"

definition create_form1_token :: "daemon \<Rightarrow> (token_header \<times> ring_info list \<times> daemon) option" where
  "create_form1_token s =
     do {
       let head = form1_header s;
       let s = s\<lparr>Last_time_used := mi_time (new_form_id s), Form1_memb_id := new_form_id s\<rparr>;
       let s = s\<lparr>F_members := create_members s\<rparr>;
       sorted \<leftarrow> Sort_reps (Cn s) (F_reps s);
       let s = s\<lparr>F_reps := sorted\<lparr>rep_index := 1\<rparr>\<rparr>;
       pots \<leftarrow> form_potentials (F_reps s) s;
       let s = s\<lparr>Potential_reps := pots\<rparr>;
       if rings_bytes [create_ring s] > sizeof_token_body then None
       else Some (head, [create_ring s], s)
     }"

definition after_create_form1 :: "daemon \<Rightarrow> daemon option" where
  "after_create_form1 s =
     (let s = E_dequeue Send_join_event 0 s;
          s = E_queue Memb_token_loss_event 0 (Timeout s FormT) s;
          s = E_dequeue Prot_token_hurry_event 0 s;
          s = s\<lparr>Token_alive := False\<rparr>
      in map_option (\<lambda>s. s\<lparr>State := FORM\<rparr>) (Prot_set_delivery_threshold BLOCK_REGULAR_DELIVERY s))"

definition Create_form1 :: "daemon \<Rightarrow> daemon option" where
  "Create_form1 s =
     do {
       (head, rings, s) \<leftarrow> create_form1_token s;
       after_create_form1 (send_form1 head rings s)
     }"

section \<open>Filling the token\<close>

definition flip32 :: "int \<Rightarrow> int" where
  "flip32 x = sint (Flip_int32 (word_of_int x))"

definition Flip_ring :: "ring_info \<Rightarrow> ring_info" where
  "Flip_ring r =
     \<lparr>ri_memb_id = \<lparr>mi_proc_id = Flip_int32 (mi_proc_id (ri_memb_id r)),
                    mi_time = flip32 (mi_time (ri_memb_id r))\<rparr>,
      ri_trans_time = flip32 (ri_trans_time r), ri_aru = flip32 (ri_aru r),
      ri_highest_seq = flip32 (ri_highest_seq r), ri_holes = map flip32 (ri_holes r),
      ri_commit = map Flip_int32 (ri_commit r), ri_num_trans = flip16 (ri_num_trans r)\<rparr>"

definition Flip_rings :: "ring_info list \<Rightarrow> ring_info list" where
  "Flip_rings rs = map Flip_ring rs"

text \<open>
  What this daemon adds to the members on the token, by its state. \<open>None\<close> ends the process,
  \<open>Some None\<close> drops the token.
\<close>

definition fill_members_next :: "members_info \<Rightarrow> daemon \<Rightarrow> members_info option" where
  "fill_members_next m s =
     (if members m (num_members m) \<noteq> p_id (My s) \<or> num_pending m \<le> 0 then None
      else Some (m\<lparr>num_members := num_members m + 1, num_pending := num_pending m - 1\<rparr>))"

definition fill_rep_ok :: "members_info \<Rightarrow> reps_info \<Rightarrow> daemon \<Rightarrow> bool" where
  "fill_rep_ok m r s \<longleftrightarrow>
     (let x = reps r (rep_index r) in
      \<not> (rep_proc_id x \<noteq> p_id (My s) \<or> Token_alive s \<and> rep_type x = SEG_REP \<or>
         \<not> Token_alive s \<and> rep_type x = RING_REP \<or> num_pending m \<noteq> 0))"

definition fill_valid_members :: "members_info \<Rightarrow> reps_info \<Rightarrow> daemon \<Rightarrow> int32u list" where
  "fill_valid_members m r s =
     filter (\<lambda>i. \<not> (i \<in> set (member_list m) \<or>
                    i \<in> rep_ids r \<and> i \<noteq> p_id (My s) \<or>
                    i \<in> rep_ids (F_reps s) \<and> i \<noteq> p_id (My s)))
       (member_list (F_members s))"

text \<open>Write a list behind the members on the token; the first of it is this daemon itself.\<close>

definition append_members :: "int32u list \<Rightarrow> members_info \<Rightarrow> members_info" where
  "append_members xs m =
     (let n = num_members m in
      m\<lparr>members := (\<lambda>i. if n \<le> i \<and> i < n + int (length xs) then xs ! nat (i - n) else members m i),
        num_pending := to_int16 (int (length xs) - 1), num_members := n + 1\<rparr>)"

definition fill_members ::
  "members_info \<Rightarrow> reps_info \<Rightarrow> daemon \<Rightarrow> (members_info \<times> reps_info \<times> daemon) option option" where
  "fill_members m r s =
     (if State s = OP \<or> State s = REPRESENTED then
        Some (map_option (\<lambda>m. (m, r, s)) (fill_members_next m s))
      else if State s = GATHER then
        (if \<not> fill_rep_ok m r s then Some None
         else
           let s = s\<lparr>F_members := set_member_list (fill_valid_members m r s) (F_members s)\<rparr>;
               ty = rep_type (reps r (rep_index r));
               r' = r\<lparr>rep_index := rep_index r + 1\<rparr>
           in if ty = SEG_REP then Some (Some (append_members (member_list (F_members s)) m, r', s))
              else if ty = RING_REP then Some (Some (append_members (ring_ids (Membership s)) m, r', s))
              else None)
      else None)"

text \<open>The entry for this daemon's old ring when nobody wrote one before.\<close>

definition fresh_ring :: "daemon \<Rightarrow> ring_info" where
  "fresh_ring s =
     \<lparr>ri_memb_id = Membership_id s, ri_trans_time = 0, ri_aru = Aru s, ri_highest_seq = Highest_seq s,
      ri_holes = holes_between s (Last_discarded s + 1) (Highest_seq s), ri_commit = own_commit s,
      ri_num_trans = 1\<rparr>"

definition insert_members :: "int32u list \<Rightarrow> members_info \<Rightarrow> members_info" where
  "insert_members xs m = fold (\<lambda>i m. snd (Insert_member m i)) xs m"

text \<open>
  The transitional members of the entry, this daemon, then the rest of the entry's commit set
  and of this daemon's. A transitional set that does not grow by one is fatal.
\<close>

definition merge_commit :: "ring_info \<Rightarrow> daemon \<Rightarrow> members_info option" where
  "merge_commit g s =
     (let n = ri_num_trans g;
          t = insert_members (take (nat n) (ri_commit g)) \<lparr>num_members = 0, num_pending = 0, members = (\<lambda>_. 0)\<rparr>;
          t = insert_members [p_id (My s)] t
      in if num_members t \<noteq> n + 1 then None
         else
           let t = t\<lparr>num_pending := n + 1\<rparr>;
               t = insert_members (drop (nat n) (ri_commit g)) t
           in Some (insert_members (member_list (Commit_set s)) t))"

text \<open>
  The entry that an earlier member of the same ring wrote: this daemon keeps the holes it
  cannot fill either and adds those above what the others have seen.
\<close>

definition merged_ring :: "ring_info \<Rightarrow> daemon \<Rightarrow> ring_info option" where
  "merged_ring g s =
     do {
       t \<leftarrow> merge_commit g s;
       Some \<lparr>ri_memb_id = Membership_id s, ri_trans_time = 0,
             ri_aru = (if ri_aru g > Aru s then ri_aru g else Aru s),
             ri_highest_seq = (if ri_highest_seq g > Highest_seq s then ri_highest_seq g else Highest_seq s),
             ri_holes = filter (\<lambda>i. exist_at s i = 0) (ri_holes g) @
                        holes_between s (ri_highest_seq g + 1) (Highest_seq s),
             ri_commit = member_list t, ri_num_trans = num_pending t\<rparr>
     }"

definition my_old_ring :: "ring_info list \<Rightarrow> daemon \<Rightarrow> ring_info option" where
  "my_old_ring rings s =
     (case filter (\<lambda>g. Memb_is_equal (ri_memb_id g) (Membership_id s)) rings of
        [] \<Rightarrow> None | gs \<Rightarrow> Some (last gs))"

text \<open>A token with too many rings: the daemon takes itself off the list of members again.\<close>

definition remove_self :: "members_info \<Rightarrow> daemon \<Rightarrow> members_info" where
  "remove_self m s =
     (let k = index_of (\<lambda>i. i = p_id (My s)) (member_list m);
          n = num_members m + num_pending m
      in m\<lparr>members := (\<lambda>i. if 0 \<le> k \<and> k \<le> i \<and> i < n - 1 then members m (i + 1) else members m i),
           num_members := num_members m - 1\<rparr>)"

definition fill_rings ::
  "ring_info list \<Rightarrow> members_info \<Rightarrow> daemon \<Rightarrow> (ring_info list \<times> members_info) option" where
  "fill_rings rings m s =
     (let others = filter (\<lambda>g. \<not> Memb_is_equal (ri_memb_id g) (Membership_id s)) rings in
      if rings_bytes others + sizeof_ring_info > sizeof_token_body then None
      else case my_old_ring rings s of
        None \<Rightarrow>
          if int (length others) + 1 > MAX_FORM_REPS then Some (others, remove_self m s)
          else if rings_bytes (others @ [fresh_ring s]) > sizeof_token_body then None
          else Some (others @ [fresh_ring s], m)
      | Some g \<Rightarrow>
          do {
            new \<leftarrow> merged_ring g s;
            if rings_bytes (others @ [new]) > sizeof_token_body then None
            else Some (others @ [new], m)
          })"

definition send_filled ::
  "token_header \<Rightarrow> members_info \<Rightarrow> reps_info \<Rightarrow> ring_info list \<Rightarrow> daemon \<Rightarrow> daemon option" where
  "send_filled head m r rings s =
     (let body = \<lparr>fm_members = m, fm_reps = r, fm_memb_id = reps_as_memb_id r, fm_rings = rings\<rparr>;
          tok = Form (head\<lparr>th_rtr_len := form1_len rings\<rparr>) body
      in if num_pending m > 0 then Some (send_twice (members m (num_members m)) tok s)
         else if rep_index r < num_reps r
         then Some (send_twice (rep_proc_id (reps r (rep_index r))) tok s)
         else do {
           m \<leftarrow> Sort_members (Cn s) m;
           let m = m\<lparr>num_pending := num_members m, num_members := 0\<rparr>;
           Some (send_twice (members m 0)
             (Form (head\<lparr>th_type := FORM2_TYPE, th_rtr_len := form2_len rings\<rparr>) (body\<lparr>fm_members := m\<rparr>)) s)
         })"

definition after_form1 :: "daemon \<Rightarrow> daemon option" where
  "after_form1 s =
     (let s = E_dequeue Send_join_event 0 s;
          s = E_dequeue Form_or_fail_event 0 s;
          s = E_dequeue Shift_to_seg_event 0 s;
          s = E_queue Memb_token_loss_event 0 (Timeout s FormT) s;
          s = E_dequeue Prot_token_hurry_event 0 s;
          s = s\<lparr>Token_alive := False\<rparr>
      in map_option (\<lambda>s. s\<lparr>State := FORM\<rparr>) (Prot_set_delivery_threshold BLOCK_REGULAR_DELIVERY s))"

definition Fill_form1 :: "token_header \<Rightarrow> form_body \<Rightarrow> daemon \<Rightarrow> daemon option" where
  "Fill_form1 head body s =
     (let same = Same_endian (th_type head);
          m = (if same then fm_members body else Flip_members (fm_members body));
          r = (if same then fm_reps body else Flip_reps (fm_reps body));
          rings = (if same then fm_rings body else Flip_rings (fm_rings body));
          head = head\<lparr>th_proc_id := p_id (My s),
                     th_seq := (if th_seq head < Highest_seq s + 3333 then Highest_seq s + 3333
                                else th_seq head)\<rparr>
      in case fill_members m r s of
           None \<Rightarrow> None
         | Some None \<Rightarrow> Some s
         | Some (Some (m, r, s)) \<Rightarrow>
             do {
               let s = s\<lparr>Form1_memb_id := th_memb_id head\<rparr>;
               pots \<leftarrow> form_potentials r s;
               let s = s\<lparr>Potential_reps := pots\<rparr>;
               (rings, m) \<leftarrow> fill_rings rings m s;
               s \<leftarrow> send_filled head m r rings s;
               after_form1 s
             })"

end
