(* ===== verification/ReadForm2.thy ===== *)
theory ReadForm2
  imports FormTokens
begin

text \<open>
  \<open>Read_form2\<close> of \<open>daemon/membership.c\<close>: the second round of the form token. Each member
  checks the token, builds the new ring from it, forgets the packets that the token calls
  holes, recomputes \<open>My_aru\<close> and enters EVS; the last one turns the token into the first
  regular token of the ring.

  A malformed token is dropped: the state is returned as it was.
\<close>

section \<open>Checks\<close>

definition ring_ok :: "ring_info \<Rightarrow> bool" where
  "ring_ok g \<longleftrightarrow>
     \<not> (ri_num_trans g < 1 \<or> ri_num_trans g > int (length (ri_commit g)) \<or>
        int (length (ri_commit g)) > MAX_PROCS_RING \<or> int (length (ri_holes g)) > MAX_SEQ_GAP)"

fun rings_fit :: "int \<Rightarrow> int \<Rightarrow> ring_info list \<Rightarrow> bool" where
  "rings_fit tot n [] = True"
| "rings_fit tot n (g # gs) =
     (ring_ok g \<and> n + ring_bytes g \<le> tot \<and> rings_fit tot (n + ring_bytes g) gs)"

text \<open>The entry of this daemon's old ring: the last one with its membership id.\<close>

definition my_ring_index :: "ring_info list \<Rightarrow> daemon \<Rightarrow> int" where
  "my_ring_index rings s =
     (let k = index_of (\<lambda>g. Memb_is_equal (ri_memb_id g) (Membership_id s)) (rev rings)
      in if k < 0 then -1 else int (length rings) - 1 - k)"

definition form2_members_ok :: "members_info \<Rightarrow> daemon \<Rightarrow> bool" where
  "form2_members_ok m s \<longleftrightarrow>
     \<not> (num_members m < 0 \<or> num_pending m \<le> 0 \<or> num_members m + num_pending m \<ge> MAX_PROCS_RING \<or>
        members m (num_members m) \<noteq> p_id (My s))"

definition form2_ok :: "int \<Rightarrow> int \<Rightarrow> token_header \<Rightarrow> form_body \<Rightarrow> daemon \<Rightarrow> bool" where
  "form2_ok hd_len tot_len head body s \<longleftrightarrow>
     (let start = sizeof_members_info + sizeof_membership_id + sizeof_int32 in
      hd_len = sizeof_token_header \<and> start \<le> tot_len \<and>
      Memb_is_equal (th_memb_id head) (Form1_memb_id s) \<and>
      form2_members_ok (fm_members body) s \<and>
      rings_fit tot_len start (fm_rings body) \<and>
      my_ring_index (fm_rings body) s \<noteq> -1)"

section \<open>The new ring\<close>

text \<open>A new time for an id: past all that were used.\<close>

definition next_memb_time :: "daemon \<Rightarrow> int" where
  "next_memb_time s = (if Wall_sec s \<le> Last_time_used s then Last_time_used s + 1 else Wall_sec s)"

text \<open>
  The first member of the token takes two times: one for its transitional membership, the
  next for the new ring.
\<close>

definition form2_memb_id :: "members_info \<Rightarrow> membership_id \<Rightarrow> daemon \<Rightarrow> int \<times> membership_id \<times> daemon" where
  "form2_memb_id m mid s =
     (if num_members m = 1 then
        let t = next_memb_time s
        in (t, \<lparr>mi_proc_id = p_id (My s), mi_time = t + 1\<rparr>, s\<lparr>Last_time_used := t + 1\<rparr>)
      else (0, mid, s))"

fun add_members :: "configuration \<Rightarrow> int32u list \<Rightarrow> configuration \<Rightarrow> configuration option" where
  "add_members cn [] c = Some c"
| "add_members cn (i # is) c =
     (case snd (Conf_proc_by_id_in_conf cn i) of
        None \<Rightarrow> None
      | Some p \<Rightarrow>
          (case append_to_segment cn (p_seg_index p) (p_id p) c of
             (ret, c) \<Rightarrow> if ret = -1 then None else add_members cn is c))"

definition form2_membership :: "members_info \<Rightarrow> daemon \<Rightarrow> configuration option" where
  "form2_membership m s =
     add_members (Cn s) (arr_list (members m) (num_members m + num_pending m))
       (clear_segments (Conf_num_segments (Cn s)) (Cn s))"

section \<open>Packets of the old ring\<close>

text \<open>A packet that is dropped has come after the form1 token, from a daemon that is leaving.\<close>

definition droppable :: "int \<Rightarrow> daemon \<Rightarrow> bool" where
  "droppable i s \<longleftrightarrow>
     exist_at s i = 1 \<and>
     Memb_is_equal (ph_memb_id (pi_head (packet_at s i))) (Membership_id s) \<and>
     ph_seq (pi_head (packet_at s i)) = i \<and>
     fst (Conf_proc_by_id_in_conf (Future_membership s) (ph_proc_id (pi_head (packet_at s i)))) = -1"

fun forget_packets :: "int list \<Rightarrow> daemon \<Rightarrow> daemon option" where
  "forget_packets [] s = Some s"
| "forget_packets (i # is) s =
     (if exist_at s i = 0 then forget_packets is s
      else if \<not> droppable i s then None
      else forget_packets is (set_exist (pack_entry i) 0 s))"

fun mark_holes :: "int list \<Rightarrow> daemon \<Rightarrow> daemon option" where
  "mark_holes [] s = Some s"
| "mark_holes (i # is) s =
     (if exist_at s i \<noteq> 0 \<and> \<not> droppable i s then None
      else mark_holes is (set_exist (pack_entry i) 3 s))"

text \<open>
  \<open>My_aru\<close> recomputed in two ways from \<open>exist\<close>, the last number of the unbroken run and the
  one before the first hole; they have to agree.
\<close>

fun recompute_aru :: "(int \<Rightarrow> int) \<Rightarrow> int list \<Rightarrow> int \<times> int \<Rightarrow> (int \<times> int) option" where
  "recompute_aru ex [] a = Some a"
| "recompute_aru ex (i # is) (a, a2) =
     (if ex i = 1 \<or> ex i = 2 then recompute_aru ex is (if i = a + 1 then i else a, a2)
      else if ex i = 0 \<or> ex i = 3 then recompute_aru ex is (a, if a2 \<ge> i then i - 1 else a2)
      else None)"

definition restore_aru :: "daemon \<Rightarrow> daemon option" where
  "restore_aru s =
     do {
       (a, a2) \<leftarrow> recompute_aru (exist_at s) [Last_discarded s + 1..Highest_seq s]
                    (Last_discarded s, My_aru s);
       if a \<noteq> a2 then None else Some (s\<lparr>My_aru := a\<rparr>)
     }"

definition settle_old_ring :: "ring_info \<Rightarrow> daemon \<Rightarrow> daemon option" where
  "settle_old_ring g s =
     do {
       s \<leftarrow> forget_packets (rev [ri_highest_seq g + 1..Highest_seq s]) s;
       let s = s\<lparr>My_aru := (if My_aru s > ri_highest_seq g then ri_highest_seq g else My_aru s),
                 Highest_seq := ri_highest_seq g, Aru := ri_aru g\<rparr>;
       s \<leftarrow> Discard_packets s;
       s \<leftarrow> mark_holes (ri_holes g) s;
       s \<leftarrow> restore_aru s;
       Some (s\<lparr>Future_commit_set :=
                 set_member_list (ri_commit g) ((Future_commit_set s)\<lparr>num_pending := ri_num_trans g\<rparr>)\<rparr>)
     }"

section \<open>The token goes on\<close>

definition form2_trans_time :: "ring_info \<Rightarrow> int \<Rightarrow> daemon \<Rightarrow> int \<times> daemon" where
  "form2_trans_time g memb_time s =
     (if ri_trans_time g \<noteq> 0 then (ri_trans_time g, s\<lparr>F_trans_memb_time := ri_trans_time g\<rparr>)
      else
        let fresh = next_memb_time s;
            t = (if memb_time \<noteq> 0 then memb_time else fresh);
            s = (if memb_time \<noteq> 0 then s else s\<lparr>Last_time_used := fresh\<rparr>)
        in (t, s\<lparr>F_trans_memb_time := t\<rparr>))"

definition first_token :: "token_header \<Rightarrow> daemon \<Rightarrow> token_header" where
  "first_token head s =
     head\<lparr>th_type := 0, th_memb_id := Future_membership_id s, th_seq := 0, th_aru := 2147483647,
          th_aru_last_id := -1, th_flow_control := 0, th_rtr_len := 0\<rparr>"

definition send_form2 :: "token_header \<Rightarrow> form_body \<Rightarrow> daemon \<Rightarrow> daemon option" where
  "send_form2 head body s =
     do {
       l \<leftarrow> Conf_last (Future_membership s);
       let last_one = (l = p_id (My s));
       let a = Net_send_token (if last_one then Token (first_token head s) [] else Form head body);
       Some ((emit a (emit a s))\<lparr>Token_rounds := (if last_one then 1 else 0)\<rparr>)
     }"

definition enter_evs :: "daemon \<Rightarrow> daemon" where
  "enter_evs s =
     (let s = s\<lparr>Token_alive := True\<rparr>;
          s = E_queue Memb_token_loss_event 0 (Timeout s TokenT) s
      in s\<lparr>Received_token_rounds := 0, Last_token := forget_token (Last_token s), Aru := 0,
           State := EVS\<rparr>)"

definition accept_form2 :: "token_header \<Rightarrow> form_body \<Rightarrow> daemon \<Rightarrow> daemon option" where
  "accept_form2 head body s =
     (let k = my_ring_index (fm_rings body) s;
          g = fm_rings body ! nat k;
          head = head\<lparr>th_proc_id := p_id (My s)\<rparr>;
          m = (fm_members body)\<lparr>num_members := num_members (fm_members body) + 1,
                                num_pending := num_pending (fm_members body) - 1\<rparr>;
          s = s\<lparr>Last_seq := th_seq head\<rparr>
      in case form2_memb_id m (fm_memb_id body) s of
           (memb_time, mid, s) \<Rightarrow>
             do {
               future \<leftarrow> form2_membership m s;
               let s = s\<lparr>Future_membership_id := mid, Future_membership := future\<rparr>;
               let s = emit (Net_set_membership future) s;
               s \<leftarrow> Prot_set_prev_proc future s;
               let s = FC_new_configuration s;
               s \<leftarrow> settle_old_ring g s;
               let (t, s) = form2_trans_time g memb_time s;
               let body = body\<lparr>fm_members := m, fm_memb_id := mid,
                               fm_rings := (fm_rings body)[nat k := g\<lparr>ri_trans_time := t\<rparr>]\<rparr>;
               s \<leftarrow> send_form2 head body s;
               Some (enter_evs s)
             })"

definition Read_form2 :: "int \<Rightarrow> int \<Rightarrow> token_header \<Rightarrow> form_body \<Rightarrow> daemon \<Rightarrow> daemon option" where
  "Read_form2 hd_len tot_len head body s =
     (let mid = fm_memb_id body;
          body = (if Same_endian (th_type head) then body
                  else body\<lparr>fm_members := Flip_members (fm_members body),
                            fm_memb_id := \<lparr>mi_proc_id = Flip_int32 (mi_proc_id mid),
                                           mi_time = flip32 (mi_time mid)\<rparr>,
                            fm_rings := Flip_rings (fm_rings body)\<rparr>)
      in if form2_ok hd_len tot_len head body s then accept_form2 head body s else Some s)"

end
