(* ===== verification/MembHandlers.thy ===== *)
theory MembHandlers
  imports ReadForm2
begin

text \<open>
  The handlers of \<open>daemon/membership.c\<close>: what each state does with the messages and form
  tokens that arrive and when the gathering time is over.

  A received packet is its header and its decoded body, the datatype \<open>net_msg\<close>. A lookup that
  fails where the source goes on with an uninitialised \<open>proc\<close> is \<open>None\<close>.
\<close>

definition my_ring :: "configuration \<Rightarrow> packet_header \<Rightarrow> bool" where
  "my_ring c h \<longleftrightarrow> Conf_id_in_conf c (ph_proc_id h) \<noteq> -1"

definition add_F_member :: "int32u \<Rightarrow> daemon \<Rightarrow> daemon" where
  "add_F_member i s = s\<lparr>F_members := snd (Insert_member (F_members s) i)\<rparr>"

text \<open>The sender's token is lost and this daemon's with it; the sender is a member then.\<close>

definition lose_token_with :: "packet_header \<Rightarrow> daemon \<Rightarrow> daemon option" where
  "lose_token_with h s = map_option (add_F_member (ph_proc_id h)) (Memb_token_loss s)"

definition Memb_handle_alive :: "packet_header \<Rightarrow> daemon \<Rightarrow> daemon option" where
  "Memb_handle_alive h s =
     (case State s of
        OP \<Rightarrow> if my_ring (Membership s) h then lose_token_with h s else Some s
      | SEG \<Rightarrow> Some (add_F_member (ph_proc_id h) s)
      | REPRESENTED \<Rightarrow> Some (E_queue Shift_to_seg_event 0 (Timeout s RepT) s)
      | GATHER \<Rightarrow>
          if \<not> Token_alive s then Some (add_F_member (ph_proc_id h) s)
          else if my_ring (Membership s) h then lose_token_with h s else Some s
      | FORM \<Rightarrow> Some s
      | EVS \<Rightarrow> if my_ring (Future_membership s) h then lose_token_with h s else Some s)"

definition refer_message :: "int32u \<Rightarrow> int \<Rightarrow> daemon \<Rightarrow> net_msg" where
  "refer_message i ty s =
     Head ((Send_pack_head REFER_TYPE 0 s)\<lparr>ph_memb_id := \<lparr>mi_proc_id = i, mi_time = ty\<rparr>\<rparr>)"

definition join_in_op :: "packet_header \<Rightarrow> reps_info \<Rightarrow> daemon \<Rightarrow> daemon option" where
  "join_in_op h r s =
     (if \<not> my_ring (Membership s) h then
        do {
          leader \<leftarrow> Conf_leader (Membership s);
          if leader = p_id (My s) then
            Some (Shift_to_gather
              (s\<lparr>Potential_reps := (Potential_reps s)\<lparr>num_reps := 1,
                                     reps := (reps (Potential_reps s))(0 := reps r 0)\<rparr>,
                 F_members := (F_members s)\<lparr>num_members := 0, num_pending := 0\<rparr>\<rparr>))
          else do {
            answer \<leftarrow> (if rep_seg_index (reps r 0) \<noteq> p_seg_index (My s) then Some True
                       else map_option (\<lambda>l. l = p_id (My s))
                              (Conf_seg_leader (Membership s) (p_seg_index (My s))));
            Some (if answer then emit (Net_ucast (ph_proc_id h) (refer_message leader RING_REP s)) s else s)
          }
        }
      else if Conf_num_segments (Cn s) > 1 then Memb_token_loss s else Some s)"

definition is_my_seg_rep :: "packet_header \<Rightarrow> reps_info \<Rightarrow> daemon \<Rightarrow> bool option" where
  "is_my_seg_rep h r s =
     map_option (\<lambda>p. p_seg_index (My s) = p_seg_index p \<and> rep_type (reps r 0) = SEG_REP)
       (snd (Conf_id s (ph_proc_id h)))"

definition join_in_seg :: "packet_header \<Rightarrow> reps_info \<Rightarrow> daemon \<Rightarrow> daemon option" where
  "join_in_seg h r s =
     do {
       mine \<leftarrow> is_my_seg_rep h r s;
       Some (if mine then Scast_alive 1 (Shift_to_represented (s\<lparr>My_seg_rep := ph_proc_id h\<rparr>)) else s)
     }"

definition join_in_represented :: "packet_header \<Rightarrow> reps_info \<Rightarrow> daemon \<Rightarrow> daemon option" where
  "join_in_represented h r s =
     do {
       mine \<leftarrow> is_my_seg_rep h r s;
       Some (if mine then
               (let s = s\<lparr>My_seg_rep := ph_proc_id h\<rparr>;
                    s = E_queue Shift_to_seg_event 0 (Timeout s RepT) s
                in Scast_alive 1 s)
             else if My_seg_rep s \<noteq> -1
             then emit (Net_ucast (ph_proc_id h) (refer_message (My_seg_rep s) SEG_REP s)) s
             else s)
     }"

definition join_in_gather :: "reps_info \<Rightarrow> daemon \<Rightarrow> daemon option" where
  "join_in_gather r s =
     do {
       (_, fr) \<leftarrow> Insert_rep (Cn s) (F_reps s) (reps r 0);
       pr \<leftarrow> insert_reps (Cn s) (rep_list r) (Potential_reps s);
       let s = s\<lparr>F_reps := fr, Potential_reps := pr\<rparr>;
       (smallest, _) \<leftarrow> Smallest_rep (Cn s) (F_reps s);
       Some (if smallest = rep_proc_id (reps r 0)
             then E_queue Form_or_fail_event 0 (Timeout s GatherT) s else s)
     }"

text \<open>The members of a join message are swapped and then only searched without effect.\<close>

definition Memb_handle_join :: "packet_header \<Rightarrow> reps_info \<Rightarrow> daemon \<Rightarrow> daemon option" where
  "Memb_handle_join h r s =
     (let r = (if Same_endian (ph_type h) then r else Flip_reps r) in
      case State s of
        OP \<Rightarrow> join_in_op h r s
      | SEG \<Rightarrow> join_in_seg h r s
      | REPRESENTED \<Rightarrow> join_in_represented h r s
      | GATHER \<Rightarrow> join_in_gather r s
      | FORM \<Rightarrow> Some s
      | EVS \<Rightarrow> if my_ring (Future_membership s) h then lose_token_with h s else Some s)"

definition Memb_handle_refer :: "packet_header \<Rightarrow> daemon \<Rightarrow> daemon option" where
  "Memb_handle_refer h s =
     (if State s = GATHER then
        (case snd (Conf_id s (mi_proc_id (ph_memb_id h))) of
           None \<Rightarrow> Some s
         | Some p \<Rightarrow>
             do {
               (_, pr) \<leftarrow> Insert_rep (Cn s) (Potential_reps s)
                 \<lparr>rep_proc_id = p_id p, rep_type = to_int16 (mi_time (ph_memb_id h)),
                  rep_seg_index = p_seg_index p\<rparr>;
               Some (s\<lparr>Potential_reps := pr\<rparr>)
             })
      else Some s)"

definition Memb_handle_foreign :: "packet_header \<Rightarrow> net_msg \<Rightarrow> daemon \<Rightarrow> daemon option" where
  "Memb_handle_foreign h m s =
     (if State s \<noteq> OP then Some s
      else if fst (Conf_id s (ph_proc_id h)) < 0 then Some s
      else do {
        leader \<leftarrow> Conf_leader (Membership s);
        if leader = p_id (My s) then Some (Memb_lookup_new_members s)
        else do {
          l \<leftarrow> Conf_seg_leader (Membership s) (p_seg_index (My s));
          Some (if l = p_id (My s) \<and> \<not> Foreign_found s
                then emit (Net_ucast leader m) (emit (Net_ucast leader m) (s\<lparr>Foreign_found := True\<rparr>))
                else s)
        }
      })"

fun msg_head :: "net_msg \<Rightarrow> packet_header option" where
  "msg_head (Packet h b) = Some h"
| "msg_head (Head h) = Some h"
| "msg_head (Alive h m) = Some h"
| "msg_head (Join h m r) = Some h"
| "msg_head (Token t rs) = None"
| "msg_head (Form t b) = None"

definition Memb_handle_message :: "net_msg \<Rightarrow> daemon \<Rightarrow> daemon option" where
  "Memb_handle_message m s =
     (case msg_head m of
        None \<Rightarrow> None
      | Some h \<Rightarrow>
          if Is_alive (ph_type h) then Memb_handle_alive h s
          else if Is_join (ph_type h) then
            (case m of Join _ _ r \<Rightarrow> Memb_handle_join h r s | _ \<Rightarrow> None)
          else if Is_refer (ph_type h) then Memb_handle_refer h s
          else if Is_regular (ph_type h) then Memb_handle_foreign h m s
          else Some s)"

section \<open>Form tokens\<close>

definition Memb_handle_form1 :: "token_header \<Rightarrow> form_body \<Rightarrow> daemon \<Rightarrow> daemon option" where
  "Memb_handle_form1 head body s =
     (case State s of
        OP \<Rightarrow>
          do {
            leader \<leftarrow> Conf_leader (Membership s);
            if leader = p_id (My s) then Some s else Fill_form1 head body s
          }
      | REPRESENTED \<Rightarrow> Fill_form1 head body s
      | GATHER \<Rightarrow> Fill_form1 head body s
      | _ \<Rightarrow> Some s)"

definition Memb_handle_form2 :: "int \<Rightarrow> int \<Rightarrow> token_header \<Rightarrow> form_body \<Rightarrow> daemon \<Rightarrow> daemon option" where
  "Memb_handle_form2 hd_len tot_len head body s =
     (if State s = FORM then Read_form2 hd_len tot_len head body s else Some s)"

definition Memb_handle_token :: "int \<Rightarrow> int \<Rightarrow> token_header \<Rightarrow> form_body \<Rightarrow> daemon \<Rightarrow> daemon option" where
  "Memb_handle_token hd_len tot_len head body s =
     (if Is_form1 (th_type head) then Memb_handle_form1 head body s
      else if Is_form2 (th_type head) then Memb_handle_form2 hd_len tot_len head body s
      else Some s)"

section \<open>The end of gathering\<close>

definition back_to_op :: "daemon \<Rightarrow> daemon" where
  "back_to_op s =
     (let s = E_dequeue Send_join_event 0 s;
          s = E_queue Memb_lookup_new_members_event 0 (Timeout s LookupT) s
      in Shift_to_op s)"

definition Form_or_fail :: "daemon \<Rightarrow> daemon option" where
  "Form_or_fail s =
     do {
       (smallest, _) \<leftarrow> Smallest_rep (Cn s) (F_reps s);
       if smallest = p_id (My s) then
         (if Token_alive s \<and> num_reps (F_reps s) = 1 then Some (back_to_op s) else Create_form1 s)
       else if Token_alive s then Some (back_to_op s)
       else do {
         let s = s\<lparr>F_members := \<lparr>num_members = 1, num_pending = 0,
                                 members = (members (F_members s))(0 := p_id (My s))\<rparr>\<rparr>;
         r \<leftarrow> insert_reps (Cn s) (tl (rep_list (F_reps s))) ((Potential_reps s)\<lparr>num_reps := 0\<rparr>);
         Some (Shift_to_gather (s\<lparr>Potential_reps := r\<rparr>))
       }
     }"

end
