(* ===== verification/ProtBcast.thy ===== *)
theory ProtBcast
  imports MembHandlers
begin

text \<open>
  \<open>Prot_handle_bcast\<close> of \<open>daemon/protocol.c\<close>, with the reload of the configuration that a
  control message asks for: what a daemon does with a packet that arrives.
\<close>

section \<open>Reloading the configuration\<close>

text \<open>
  What \<open>Conf_reload_initiate\<close> finds in the new configuration file: the configuration, this
  daemon's entry and the parameters, and whether the ring has to break up into singletons.
\<close>

record reloaded =
  rl_conf :: configuration
  rl_my :: proc
  rl_params :: conf_params
  rl_partition :: bool

definition Prot_initiate_conf_reload :: "reloaded \<Rightarrow> daemon \<Rightarrow> daemon" where
  "Prot_initiate_conf_reload rl s =
     (if State s \<noteq> OP then s
      else
        let s = s\<lparr>Prot_Need_Conf_Reload := False\<rparr>;
            s = s\<lparr>Cn := rl_conf rl, My := rl_my rl, params := rl_params rl\<rparr>;
            s = emit Signal_conf_reload s;
            s = FC_signal_conf_reload s;
            s = s\<lparr>My_index := fst (Conf_id s (p_id (My s)))\<rparr>;
            s = (if rl_partition rl
                 then (emit (Net_set_partition [0..Conf_num_procs (Cn s) - 1]) s)\<lparr>Conf_Reload_Singleton_State := True\<rparr>
                 else s)
        in E_queue Memb_token_loss_event 0 Zero_timeout s)"

definition Prot_handle_conf_reload :: "reloaded \<Rightarrow> daemon \<Rightarrow> daemon" where
  "Prot_handle_conf_reload rl s =
     (if State s = OP then Prot_initiate_conf_reload rl s else s\<lparr>Prot_Need_Conf_Reload := True\<rparr>)"

section \<open>Fragments of a host with the other byte order\<close>

definition swap16 :: "buffer \<Rightarrow> int \<Rightarrow> buffer" where
  "swap16 b at = b(at := b (at + 1), at + 1 := b at)"

definition Flip_frag :: "fragment_header \<Rightarrow> fragment_header" where
  "Flip_frag f = \<lparr>fragment_index = flip16 (fragment_index f), fragment_len = flip16 (fragment_len f)\<rparr>"

definition flip_frag_at :: "buffer \<Rightarrow> int \<Rightarrow> buffer" where
  "flip_frag_at b at = swap16 (swap16 b at) (at + 2)"

text \<open>
  The loop over the fragments behind the first one. A length below zero moves it backwards:
  it may then read in front of the body or never end, and the result is \<open>None\<close>.
\<close>

partial_function (option) flip_fragments :: "buffer \<Rightarrow> int \<Rightarrow> int \<Rightarrow> buffer option" where
  "flip_fragments body data_len processed =
     (if processed < data_len then
        let at = processed + padding processed in
        if at + sizeof_fragment_header > data_len then Some body
        else if at < 0 then None
        else
          let body = flip_frag_at body at
          in flip_fragments body data_len (at + sizeof_fragment_header + read_int16 body (at + 2))
      else Some body)"

definition flip_packet :: "packet_header \<Rightarrow> buffer \<Rightarrow> (packet_header \<times> buffer) option" where
  "flip_packet h b =
     (if Same_endian (ph_type h) then Some (h, b)
      else
        let f = Flip_frag (ph_first_frag h)
        in map_option (\<lambda>b. (h\<lparr>ph_first_frag := f\<rparr>, b))
             (flip_fragments b (ph_data_len h) (fragment_len f)))"

section \<open>Priorities of the channels\<close>

text \<open>
  Move a descriptor to another priority. The results of some of the calls to
  \<open>E_attach_fd\<close> are not kept: the test behind them sees the result of the detach again.
\<close>

definition move_channel :: "fd_handler \<Rightarrow> int \<Rightarrow> int \<Rightarrow> bool \<Rightarrow> int \<Rightarrow> fd_handler fd_state \<Rightarrow> fd_handler fd_state option"
where
  "move_channel f from to kept fd st =
     (case E_detach_fd_priority fd READ_FD from st of
        (ret, st) \<Rightarrow>
          if ret < 0 then None
          else (case E_attach_fd fd READ_FD f 0 0 to st of
                  (ret, st) \<Rightarrow> if kept \<and> ret < 0 then None else Some st))"

fun move_channels :: "fd_handler \<Rightarrow> int \<Rightarrow> int \<Rightarrow> bool \<Rightarrow> int list \<Rightarrow> fd_handler fd_state \<Rightarrow> fd_handler fd_state option"
where
  "move_channels f from to kept [] st = Some st"
| "move_channels f from to kept (fd # fds) st =
     (case move_channel f from to kept fd st of
        None \<Rightarrow> None | Some st \<Rightarrow> move_channels f from to kept fds st)"

definition token_priority_up :: "daemon \<Rightarrow> daemon option" where
  "token_priority_up s =
     do {
       st \<leftarrow> move_channels Prot_handle_bcast_fd HIGH_PRIORITY MEDIUM_PRIORITY True (Bcast_channels s) (Fds s);
       st \<leftarrow> move_channels Prot_handle_token_fd MEDIUM_PRIORITY HIGH_PRIORITY False (Token_channels s) st;
       Some (s\<lparr>Fds := st, Token_has_priority := True\<rparr>)
     }"

definition token_priority_down :: "daemon \<Rightarrow> daemon option" where
  "token_priority_down s =
     do {
       st \<leftarrow> move_channels Prot_handle_bcast_fd MEDIUM_PRIORITY HIGH_PRIORITY False (Bcast_channels s) (Fds s);
       st \<leftarrow> move_channels Prot_handle_token_fd HIGH_PRIORITY MEDIUM_PRIORITY False (Token_channels s) st;
       Some (s\<lparr>Fds := st, Token_has_priority := False\<rparr>)
     }"

section \<open>Regular packets\<close>

text \<open>Traffic on the ring restarts the timers of the token.\<close>

definition note_traffic :: "daemon \<Rightarrow> daemon option" where
  "note_traffic s =
     (if Token_alive s then
        do {
          let s = E_queue Memb_token_loss_event 0 (Timeout s TokenT) s;
          leader \<leftarrow> Conf_leader (Memb_active s);
          Some (if leader = p_id (My s) then E_queue Prot_token_hurry_event 0 (Timeout s HurryT) s else s)
        }
      else Some s)"

definition insert_received :: "packet_header \<Rightarrow> buffer \<Rightarrow> int \<Rightarrow> daemon \<Rightarrow> daemon" where
  "insert_received h b k s =
     set_packet (pack_entry (ph_seq h)) \<lparr>pi_head = h, pi_body = b, pi_exist = 1, pi_proc_index = k\<rparr> s"

definition raise_token_priority :: "packet_header \<Rightarrow> daemon \<Rightarrow> daemon option" where
  "raise_token_priority h s =
     (if Accelerated_ring s \<and> \<not> Token_has_priority s \<and>
         ph_token_round h > Received_token_rounds s \<and> ph_transmiter_id h = Prev_proc_id s
      then token_priority_up s else Some s)"

definition note_highest :: "int \<Rightarrow> daemon \<Rightarrow> daemon" where
  "note_highest n s = s\<lparr>Highest_seq := (if Highest_seq s < n then n else Highest_seq s)\<rparr>"

definition advance_my_aru :: "int \<Rightarrow> daemon \<Rightarrow> daemon" where
  "advance_my_aru start s =
     s\<lparr>My_aru := advance_aru (exist_at s) [start..Highest_seq s] (My_aru s)\<rparr>"

definition deliver_received :: "int \<Rightarrow> daemon \<Rightarrow> daemon option" where
  "deliver_received n s =
     (if n = My_aru s + 1 then Deliver_agreed_packets (advance_my_aru n s)
      else Deliver_reliable_packets n 1 s)"

definition handle_regular :: "packet_header \<Rightarrow> buffer \<Rightarrow> daemon \<Rightarrow> daemon option" where
  "handle_regular h b s =
     do {
       s \<leftarrow> note_traffic s;
       let e = pack_entry (ph_seq h);
       if ph_seq h \<le> Last_discarded s then Some s
       else if pi_exist (Packets s e) \<noteq> 0 then Some s
       else do {
         let k = fst (Conf_id s (ph_proc_id h));
         let s = set_packet e ((Packets s e)\<lparr>pi_proc_index := k\<rparr>) s;
         if k < 0 then Some s
         else do {
           (h, b) \<leftarrow> flip_packet h b;
           let s = insert_received h b k s;
           s \<leftarrow> raise_token_priority h s;
           deliver_received (ph_seq h) (note_highest (ph_seq h) s)
         }
       }
     }"

text \<open>The pairs of windows in the body of a flow control message.\<close>

definition fc_pairs :: "buffer \<Rightarrow> int \<Rightarrow> int \<times> int" where
  "fc_pairs b i = (read_int16 b (4 * i), read_int16 b (4 * i + 2))"

definition handle_control :: "reloaded \<Rightarrow> packet_header \<Rightarrow> buffer \<Rightarrow> daemon \<Rightarrow> daemon" where
  "handle_control rl h b s =
     (if Is_status (ph_type h) then emit (Stat_handle_message h) s
      else if Is_fc (ph_type h) then FC_handle_message h (fc_pairs b) s
      else if Is_conf_reload (ph_type h) then Prot_handle_conf_reload rl s
      else s)"

text \<open>The bytes behind the header where the body is read as such.\<close>

fun msg_buffer :: "net_msg \<Rightarrow> buffer" where
  "msg_buffer (Packet h b) = b"
| "msg_buffer m = (\<lambda>_. 0)"

text \<open>
  \<open>None\<close> for the message is \<open>Net_recv\<close> having failed or dropped it; \<open>rl\<close> is what a reload
  would find.
\<close>

definition Prot_handle_bcast :: "reloaded \<Rightarrow> net_msg option \<Rightarrow> daemon \<Rightarrow> daemon option" where
  "Prot_handle_bcast rl received s =
     (case received of
        None \<Rightarrow> Some s
      | Some m \<Rightarrow>
          (case msg_head m of
             None \<Rightarrow> None
           | Some h \<Rightarrow>
               if Is_control (ph_type h) then Some (handle_control rl h (msg_buffer m) s)
               else if Is_membership (ph_type h) then Memb_handle_message m s
               else if Is_hurry (ph_type h) then Handle_hurry h s
               else if \<not> Is_regular (ph_type h) then Some s
               else if \<not> Memb_is_equal (Membership_id s) (ph_memb_id h) then Memb_handle_message m s
               else handle_regular h (msg_buffer m) s))"

end
