(* ===== verification/ProtToken.thy ===== *)
theory ProtToken
  imports ProtBcast
begin

text \<open>
  \<open>Prot_handle_token\<close> of \<open>daemon/protocol.c\<close>, from the token that arrives to the one that is
  passed on: which tokens are accepted, the retransmissions they ask for, the new packets the
  window allows, this daemon's own requests, the aru of the token, the \<open>Aru\<close> of the ring and
  the deliveries that it allows.
\<close>

section \<open>Which token is accepted\<close>

text \<open>
  The result of \<open>Net_recv_token\<close>: its return value, the lengths of the two elements and the
  token with its decoded body.
\<close>

record received_token =
  rt_ret :: int
  rt_hd_len :: int
  rt_tot_len :: int
  rt_msg :: net_msg

text \<open>The tests of membership and sender that end with \<open>goto END\<close>.\<close>

definition token_belongs :: "int \<Rightarrow> token_header \<Rightarrow> daemon \<Rightarrow> bool option" where
  "token_belongs ret t s =
     (if \<not> Token_alive s then Some False
      else if \<not> Memb_is_equal (th_memb_id t) (Memb_active_id s) then Some False
      else do {
        prev \<leftarrow> Conf_previous (My s) (Memb_active s);
        Some (th_transmiter_id t = prev \<and> ret = sizeof_token_header + th_rtr_len t \<and>
              \<not> (State s \<noteq> EVS \<and> th_seq t > MAX_WRAP_SEQUENCE_VALUE))
      })"

definition Flip_ring_rtr :: "ring_rtr \<Rightarrow> ring_rtr" where
  "Flip_ring_rtr r =
     \<lparr>rr_memb_id = \<lparr>mi_proc_id = Flip_int32 (mi_proc_id (rr_memb_id r)),
                    mi_time = flip32 (mi_time (rr_memb_id r))\<rparr>,
      rr_proc_id = Flip_int32 (rr_proc_id r), rr_seg_index = flip16 (rr_seg_index r),
      rr_seqs = map flip32 (rr_seqs r)\<rparr>"

definition Flip_token_body :: "token_header \<Rightarrow> ring_rtr list \<Rightarrow> ring_rtr list" where
  "Flip_token_body t rtr = (if th_rtr_len t \<le> 0 then rtr else map Flip_ring_rtr rtr)"

text \<open>The first token after an installation wipes the aru of the EVS rounds.\<close>

definition note_installed :: "daemon \<Rightarrow> daemon" where
  "note_installed s =
     (if Memb_Just_Installed s
      then s\<lparr>Memb_Just_Installed := False, Last_token := (Last_token s)\<lparr>th_aru := 0\<rparr>\<rparr>
      else s)"

text \<open>
  The counter that tells a new token from a repeated one. The leader takes the token back
  with the counter it sent, every other member wants the next one; a repeated token with more
  retransmissions asks a member to send its token again. \<open>False\<close> swallows the token.
\<close>

definition check_arq :: "token_header \<Rightarrow> daemon \<Rightarrow> (bool \<times> daemon) option" where
  "check_arq t s =
     do {
       leader \<leftarrow> Conf_leader (Memb_active s);
       let arq = Get_arq (th_type t);
       let last_arq = Get_arq (th_type (Last_token s));
       if leader = p_id (My s) then
         Some (if arq \<noteq> last_arq then (False, s) else (True, note_installed s))
       else if arq = last_arq then
         (if Get_retrans (th_type t) > Get_retrans (th_type (Last_token s)) then
            map_option (Pair False)
              (Prot_token_hurry
                (s\<lparr>Last_token := (Last_token s)\<lparr>th_type :=
                     Set_retrans (th_type (Last_token s)) (Get_retrans (th_type t))\<rparr>\<rparr>))
          else Some (False, s))
       else if arq \<noteq> (last_arq + 1) mod 0x10 then Some (False, s)
       else Some (True, note_installed s)
     }"

section \<open>Retransmissions\<close>

text \<open>Send a packet again to the process, the segment or everybody, as the request says.\<close>

definition resend :: "ring_rtr \<Rightarrow> int \<Rightarrow> daemon \<Rightarrow> daemon" where
  "resend r i s =
     (let p = Packet (pi_head (packet_at s i)) (pi_body (packet_at s i)) in
      emit (if rr_proc_id r \<noteq> -1 then Net_ucast (rr_proc_id r) p
            else if rr_seg_index r \<noteq> -1 then Net_scast (rr_seg_index r) p
            else Net_bcast p) s)"

text \<open>
  The state of the loop: the number resent, and the \<open>proc_id\<close> and \<open>seg_index\<close> that this
  daemon's own requests will carry, which widen when it lacks what another one asks for.
\<close>

type_synonym rtr_state = "int \<times> int32u \<times> int \<times> daemon"

fun answer_seqs :: "ring_rtr \<Rightarrow> int list \<Rightarrow> rtr_state \<Rightarrow> rtr_state option" where
  "answer_seqs r [] x = Some x"
| "answer_seqs r (i # is) (n, pid, seg, s) =
     (if i < Aru s then None
      else if exist_at s i \<noteq> 0 then answer_seqs r is (n + 1, pid, seg, resend r i s)
      else answer_seqs r is (n, -1, if rr_seg_index r \<noteq> p_seg_index (My s) then -1 else seg, s))"

fun answer_requests :: "ring_rtr list \<Rightarrow> rtr_state \<Rightarrow> (ring_rtr list \<times> rtr_state) option" where
  "answer_requests [] x = Some ([], x)"
| "answer_requests (r # rs) x =
     (if Memb_is_equal (rr_memb_id r) (Membership_id (snd (snd (snd x)))) then
        (case answer_seqs r (rr_seqs r) x of None \<Rightarrow> None | Some x \<Rightarrow> answer_requests rs x)
      else map_option (\<lambda>(kept, x). (r # kept, x)) (answer_requests rs x))"

definition Answer_retrans :: "ring_rtr list \<Rightarrow> daemon \<Rightarrow> (ring_rtr list \<times> rtr_state) option" where
  "Answer_retrans rtr s = answer_requests rtr (0, p_id (My s), p_seg_index (My s), s)"

text \<open>
  This daemon's own requests, as far as they fit. With the accelerated ring only what was
  sent before its last token is asked for.
\<close>

definition max_rtr_seq :: "daemon \<Rightarrow> int" where
  "max_rtr_seq s = (if Accelerated_ring s \<and> State s \<noteq> EVS then th_seq (Last_token s) else Highest_seq s)"

definition own_requests :: "ring_rtr list \<Rightarrow> int32u \<Rightarrow> int \<Rightarrow> daemon \<Rightarrow> ring_rtr list" where
  "own_requests kept pid seg s =
     (let allowed = (sizeof_token_body - rtr_bytes kept - sizeof_ring_rtr) div sizeof_int32 in
      if My_aru s < max_rtr_seq s \<and> allowed > 1 then
        kept @ [\<lparr>rr_memb_id = Membership_id s, rr_proc_id = pid, rr_seg_index = seg,
                 rr_seqs = take (nat allowed)
                   (filter (\<lambda>i. exist_at s i = 0) [My_aru s + 1..max_rtr_seq s])\<rparr>]
      else kept)"

section \<open>The token that is passed on\<close>

definition token_flow :: "token_header \<Rightarrow> int \<Rightarrow> int \<Rightarrow> daemon \<Rightarrow> int" where
  "token_flow t num_retrans num_sent s =
     to_int16 (th_flow_control t - Last_num_retrans s - Last_num_sent s + num_retrans + num_sent)"

text \<open>In EVS a daemon that has everything it can get commits.\<close>

definition evs_commit :: "daemon \<Rightarrow> daemon" where
  "evs_commit s =
     (if State s = EVS \<and> My_aru s = Highest_seq s then Memb_commit (s\<lparr>My_aru := Last_seq s\<rparr>) else s)"

definition update_token_aru :: "daemon \<Rightarrow> token_header \<Rightarrow> token_header" where
  "update_token_aru s t =
     (if th_aru t > My_aru s \<or> th_aru_last_id t = p_id (My s) \<or>
         th_aru t = th_seq t \<and> State s \<noteq> EVS
      then t\<lparr>th_aru := My_aru s, th_aru_last_id := p_id (My s)\<rparr> else t)"

definition stamp_token :: "bool \<Rightarrow> daemon \<Rightarrow> token_header \<Rightarrow> token_header" where
  "stamp_token leads s t =
     (let t = t\<lparr>th_proc_id := p_id (My s),
                th_seq := (if State s \<noteq> EVS then Highest_seq s else th_seq t)\<rparr>
      in if leads
         then t\<lparr>th_type := Set_retrans (Set_arq (th_type t) ((Get_arq (th_type t) + 1) mod 0x10)) 0\<rparr>
         else t)"

definition pass_token :: "bool \<Rightarrow> token_header \<Rightarrow> ring_rtr list \<Rightarrow> daemon \<Rightarrow> daemon" where
  "pass_token leads t rtr s =
     (let send = emit (Net_send_token (Token t rtr));
          s = (if \<not> (leads \<and> To_hold_token s) then
                 (let s = send s in if Get_retrans (th_type t) > 1 then send (send s) else s)
               else s);
          s = s\<lparr>Token_rounds := Token_rounds s + 1\<rparr>;
          s = (if leads then E_queue Prot_token_hurry_event 0 (Timeout s HurryT) s else s);
          s = E_queue Memb_token_loss_event 0 (Timeout s TokenT) s
      in snd (Prot_flush_bcast s))"

text \<open>
  \<open>Aru\<close> is the smaller of the arus of two consecutive tokens; that it goes down is fatal.
\<close>

definition update_Aru :: "token_header \<Rightarrow> daemon \<Rightarrow> daemon option" where
  "update_Aru t s =
     (let last = th_aru (Last_token s);
          new = (if th_aru t > last then last else th_aru t)
      in if new \<ge> Aru s then
           (let s = s\<lparr>Aru := new\<rparr>
            in Some (s\<lparr>Token_counter := (if Highest_seq s = Aru s then Token_counter s + 1 else 0)\<rparr>))
         else None)"

definition deliver_after_token :: "int \<Rightarrow> daemon \<Rightarrow> daemon option" where
  "deliver_after_token num_sent s =
     do {
       s \<leftarrow> Discard_packets s;
       s \<leftarrow> Deliver_agreed_packets s;
       s \<leftarrow> Deliver_reliable_packets (Highest_seq s - num_sent + 1) num_sent s;
       if State s = EVS \<and> Token_rounds s > MAX_EVS_ROUNDS then Memb_token_loss s else Some s
     }"

text \<open>The part that works on the ring: answers, new packets and requests.\<close>

definition serve_token ::
  "token_header \<Rightarrow> ring_rtr list \<Rightarrow> daemon \<Rightarrow> (int \<times> token_header \<times> ring_rtr list \<times> daemon) option" where
  "serve_token t rtr s =
     do {
       let s = note_highest (th_seq t) s;
       let s = s\<lparr>Received_token_rounds := Received_token_rounds s + 1\<rparr>;
       s \<leftarrow> (if Token_has_priority s then token_priority_down s else Some s);
       (kept, num_retrans, pid, seg, s) \<leftarrow> Answer_retrans rtr s;
       (num_sent, s) \<leftarrow> Send_new_packets (FC_allowed (th_flow_control t) num_retrans s) s;
       let t = t\<lparr>th_flow_control := token_flow t num_retrans num_sent s\<rparr>;
       let s = s\<lparr>Last_num_retrans := num_retrans, Last_num_sent := num_sent\<rparr>;
       let s = advance_my_aru (My_aru s + 1) s;
       let rtr = own_requests kept pid seg s;
       let s = evs_commit s;
       let t = update_token_aru s (t\<lparr>th_rtr_len := to_int16u (rtr_bytes rtr)\<rparr>);
       Some (num_sent, t, rtr, s)
     }"

definition handle_regular_token :: "token_header \<Rightarrow> ring_rtr list \<Rightarrow> daemon \<Rightarrow> daemon option" where
  "handle_regular_token t rtr s =
     do {
       (num_sent, t, rtr, s) \<leftarrow> serve_token t rtr s;
       leader \<leftarrow> Conf_leader (Memb_active s);
       let leads = (leader = p_id (My s));
       let t = stamp_token leads s t;
       let s = pass_token leads t rtr s;
       s \<leftarrow> update_Aru t s;
       deliver_after_token num_sent (s\<lparr>Last_token := t\<rparr>)
     }"

definition Prot_handle_token :: "received_token \<Rightarrow> daemon \<Rightarrow> daemon option" where
  "Prot_handle_token rt s =
     (if rt_ret rt \<le> 0 then Some s
      else case rt_msg rt of
        Form t body \<Rightarrow>
          if Is_form (th_type t) then Memb_handle_token (rt_hd_len rt) (rt_tot_len rt) t body s
          else None
      | Token t rtr \<Rightarrow>
          if Is_form (th_type t) then None
          else do {
            ok \<leftarrow> token_belongs (rt_ret rt) t s;
            if \<not> ok then Some s
            else do {
              let rtr = (if Same_endian (th_type t) then rtr else Flip_token_body t rtr);
              (accepted, s) \<leftarrow> check_arq t s;
              if accepted then handle_regular_token t rtr s else Some s
            }
          }
      | _ \<Rightarrow> None)"

section \<open>Start and timed events\<close>

text \<open>
  \<open>Prot_init\<close>: \<open>Net_init\<close> opens the channels, which are in the state already. The windows are
  read by \<open>FC_init\<close> before \<open>Memb_init\<close> chooses the default ring protocol.
\<close>

fun attach_channels :: "fd_handler \<Rightarrow> int \<Rightarrow> int list \<Rightarrow> fd_handler fd_state \<Rightarrow> fd_handler fd_state" where
  "attach_channels f prio [] st = st"
| "attach_channels f prio (fd # fds) st =
     attach_channels f prio fds (snd (E_attach_fd fd READ_FD f 0 0 prio st))"

definition init_protocol :: "daemon \<Rightarrow> daemon" where
  "init_protocol s =
     s\<lparr>My_index := fst (Conf_id s (p_id (My s))), Prev_proc_id := 0,
       Up_queue := (\<lambda>i. if 0 \<le> i \<and> i \<le> MAX_PROCS_RING then None else Up_queue s i),
       Packets := (\<lambda>e. if 0 \<le> e \<and> e < MAX_PACKETS_IN_STRUCT then (Packets s e)\<lparr>pi_exist := 0\<rparr> else Packets s e),
       Highest_seq := 0, Highest_fifo_seq := 0, My_aru := 0, Aru := 0, Last_discarded := 0,
       Last_delivered := 0, Send_pack_queue := [],
       Last_token := (Last_token s)\<lparr>th_type := 0, th_seq := 0, th_aru := 0, th_flow_control := 0,
                                    th_conf_hash := 0\<rparr>,
       Fds := attach_channels Prot_handle_token_fd MEDIUM_PRIORITY (Token_channels s)
                (attach_channels Prot_handle_bcast_fd HIGH_PRIORITY (Bcast_channels s) (Fds s)),
       Token_has_priority := False\<rparr>"

definition Prot_init :: "daemon \<Rightarrow> daemon option" where
  "Prot_init s =
     map_option (\<lambda>s. emit (Net_set_membership (Reg_membership s)) s)
       (Memb_init (FC_init (init_protocol s)))"

text \<open>The functions that \<open>E_queue\<close> is given, by name.\<close>

definition run_handler :: "reloaded \<Rightarrow> handler \<Rightarrow> int \<Rightarrow> daemon \<Rightarrow> daemon option" where
  "run_handler rl h code s =
     (case h of
        Memb_token_loss_event \<Rightarrow> Memb_token_loss s
      | Send_join_event \<Rightarrow> Some (Send_join s)
      | Form_or_fail_event \<Rightarrow> Form_or_fail s
      | Prot_token_hurry_event \<Rightarrow> Prot_token_hurry s
      | Memb_lookup_new_members_event \<Rightarrow> Some (Memb_lookup_new_members s)
      | Scast_alive_event \<Rightarrow> Some (Scast_alive code s)
      | Gather_or_represented_event \<Rightarrow> Gather_or_represented s
      | Shift_to_seg_event \<Rightarrow> Some (Shift_to_seg s)
      | Prot_initiate_conf_reload_event \<Rightarrow> Some (Prot_initiate_conf_reload rl s)
      | Deliver_all_reliable_packets_event \<Rightarrow> Deliver_all_reliable_packets s
      | Deliver_agreed_packets_event \<Rightarrow> Deliver_agreed_packets s)"

end
