(* ===== verification/Packing.thy ===== *)
theory Packing
  imports ProtSend
begin

text \<open>
  What \<open>Send_new_packets\<close> puts into packets is what \<open>Deliver_packet\<close> takes out of them: the
  fragments of the packets it creates, in the order of their sequence numbers, are the first
  elements of the down queue.
\<close>

section \<open>Bodies that hold fragments\<close>

text \<open>
  \<open>frags b p q ms\<close>: between the offsets \<open>p\<close> and \<open>q\<close> the body \<open>b\<close> holds the fragments \<open>ms\<close>.
\<close>

inductive frags :: "buffer \<Rightarrow> int \<Rightarrow> int \<Rightarrow> byte list list \<Rightarrow> bool" where
  frags_none: "frags b p p []"
| frags_more:
    "\<lbrakk> frags b p at ms; hdr = at + padding at; n = read_int16 b (hdr + 2); 0 \<le> n \<rbrakk>
     \<Longrightarrow> frags b p (hdr + sizeof_fragment_header + n)
           (ms @ [buf_bytes b (hdr + sizeof_fragment_header) n])"

inductive_cases frags_cases: "frags b p q ms"

lemma frags_le: "frags b p q ms \<Longrightarrow> p \<le> q"
proof (induction rule: frags.induct)
  case (frags_more b p at ms hdr n)
  then show ?case using padding_range [of at] by simp
qed simp

lemma frags_parse:
  "frags b p q ms \<Longrightarrow> q \<le> d \<Longrightarrow>
     parse_fragments b d p = map_option ((@) ms) (parse_fragments b d q)"
proof (induction rule: frags.induct)
  case (frags_none b p)
  show ?case by (simp add: option.map_ident)
next
  case (frags_more b p at ms hdr n)
  have at: "at < d" "at + padding at + 4 + n \<le> d"
    using frags_more.prems frags_more.hyps(2,4) padding_range [of at] by auto
  then have step: "parse_fragments b d at =
      map_option ((#) (buf_bytes b (hdr + 4) n)) (parse_fragments b d (hdr + 4 + n))"
    using frags_more.hyps(2-4) by (subst parse_fragments.simps) (simp add: Let_def algebra_simps)
  show ?case using frags_more.IH at(1)
    by (simp add: step option.map_comp comp_def)
qed

lemma frags_parse_all: "frags b p q ms \<Longrightarrow> parse_fragments b q p = Some ms"
  using frags_parse [of b p q ms q] by (simp add: parse_fragments.simps [of b q q])

lemma buf_bytes_agree:
  "(\<And>i. at \<le> i \<Longrightarrow> i < at + n \<Longrightarrow> b' i = b i) \<Longrightarrow> buf_bytes b' at n = buf_bytes b at n"
  unfolding buf_bytes_def by (rule arr_list_cong) simp

lemma frags_agree:
  "frags b p q ms \<Longrightarrow> (\<And>i. p \<le> i \<Longrightarrow> i < q \<Longrightarrow> b' i = b i) \<Longrightarrow> frags b' p q ms"
proof (induction rule: frags.induct)
  case (frags_none b p)
  show ?case by (rule frags.frags_none)
next
  case (frags_more b p at ms hdr n)
  have le: "p \<le> at" "at \<le> hdr"
    using frags_le [OF frags_more.hyps(1)] padding_range [of at] frags_more.hyps(2) by auto
  have "frags b' p at ms"
    by (rule frags_more.IH) (use frags_more.prems frags_more.hyps(4) le in auto)
  moreover have "read_int16 b' (hdr + 2) = n"
    using frags_more.prems [of "hdr + 2"] frags_more.prems [of "hdr + 2 + 1"] frags_more.hyps(3,4) le
    by (simp add: read_int16_def)
  moreover have "buf_bytes b' (hdr + 4) n = buf_bytes b (hdr + 4) n"
    by (rule buf_bytes_agree) (use frags_more.prems le in auto)
  ultimately show ?case
    using frags.frags_more [of b' p at ms hdr n] frags_more.hyps(2,4) by simp
qed

text \<open>The same, while the index in the header of the last fragment, at \<open>hdr\<close>, is still to be set.\<close>

definition frags_open :: "buffer \<Rightarrow> int \<Rightarrow> int \<Rightarrow> byte list list \<Rightarrow> int \<Rightarrow> bool" where
  "frags_open b p q ms hdr \<longleftrightarrow>
     (\<exists>at ms0 n. frags b p at ms0 \<and> hdr = at + padding at \<and> n = read_int16 b (hdr + 2) \<and> 0 \<le> n \<and>
        q = hdr + sizeof_fragment_header + n \<and>
        ms = ms0 @ [buf_bytes b (hdr + sizeof_fragment_header) n])"

lemma frags_open_close:
  assumes "frags_open b p q ms hdr"
  shows "frags (write_int16 b hdr v) p q ms" "p \<le> hdr"
proof -
  let ?b = "write_int16 b hdr v"
  obtain at ms0 n where o: "frags b p at ms0" "hdr = at + padding at" "n = read_int16 b (hdr + 2)"
      "0 \<le> n" "q = hdr + 4 + n" "ms = ms0 @ [buf_bytes b (hdr + 4) n]"
    using assms by (auto simp: frags_open_def)
  have le: "p \<le> at" "at \<le> hdr" using frags_le [OF o(1)] o(2) padding_range [of at] by auto
  then show "p \<le> hdr" by simp
  have same: "?b i = b i" if "i < hdr \<or> hdr + 2 \<le> i" for i
    using that by (auto simp: write_int16_def)
  have "frags ?b p at ms0" by (rule frags_agree [OF o(1)]) (use le same in auto)
  moreover have "read_int16 ?b (hdr + 2) = n" using o(3) same by (simp add: read_int16_def)
  moreover have "buf_bytes ?b (hdr + 4) n = buf_bytes b (hdr + 4) n"
    by (rule buf_bytes_agree) (use same in auto)
  ultimately show "frags ?b p q ms"
    using frags.frags_more [of ?b p at ms0 hdr n] o by simp
qed

lemma append_fragment_open:
  assumes "append_fragment head b el = Some (head', b', hdr)" and "frags b p (ph_data_len head) ms"
    and len: "0 \<le> p" "0 \<le> snd el"
      "snd el \<le> sizeof_packet_body - ph_data_len head - padding (ph_data_len head) - sizeof_fragment_header"
  shows "frags_open b' p (ph_data_len head') (ms @ [elem_bytes el]) hdr"
    and "head' = head\<lparr>ph_data_len := ph_data_len head'\<rparr>"
    and "ph_data_len head \<le> ph_data_len head'" and "ph_data_len head' \<le> sizeof_packet_body"
    and "\<And>i. i < ph_data_len head \<Longrightarrow> b' i = b i"
proof -
  let ?at = "ph_data_len head" and ?n = "snd el"
  let ?h = "?at + padding ?at"
  have le: "p \<le> ?at" by (rule frags_le [OF assms(2)])
  have pad: "0 \<le> padding ?at" "padding ?at \<le> 3" using padding_range [of ?at] by auto
  have r: "head' = head\<lparr>ph_data_len := ?h + 4 + ?n\<rparr>" "hdr = ?h"
      "b' = put_bytes (write_int16 b (?h + 2) ?n) (?h + 4) (fst el) ?n"
    using assms(1) len le pad by (auto simp: append_fragment_def Let_def split: if_splits)
  show "head' = head\<lparr>ph_data_len := ph_data_len head'\<rparr>" using r(1) by simp
  show "?at \<le> ph_data_len head'" "ph_data_len head' \<le> sizeof_packet_body"
    using r(1) len pad by auto
  show same: "b' i = b i" if "i < ?at" for i
    using that r(3) pad by (simp add: put_bytes_def write_int16_def)
  have "frags b' p ?at ms" by (rule frags_agree [OF assms(2)]) (use same in auto)
  moreover have "read_int16 b' (?h + 2) = read_int16 (write_int16 b (?h + 2) ?n) (?h + 2)"
    using r(3) by (simp add: read_int16_def put_bytes_def)
  then have "read_int16 b' (?h + 2) = ?n" using len pad le by (simp add: read_write_int16)
  moreover have "buf_bytes b' (?h + 4) ?n = elem_bytes el"
    unfolding buf_bytes_def elem_bytes_def r(3) by (rule arr_list_cong) (simp add: put_bytes_def)
  ultimately show "frags_open b' p (ph_data_len head') (ms @ [elem_bytes el]) hdr"
    using r(1,2) len(2) by (force simp: frags_open_def)
qed

section \<open>The elements of the down queue\<close>

definition pending_elements :: "daemon \<Rightarrow> scat_element list" where
  "pending_elements s = drop (cur_element s) (concat (map dl_mess (Down_queue s)))"

text \<open>
  The down queue as the sessions fill it: no message is empty, no fragment is longer than a
  packet body, and the first message has fragments left.
\<close>

definition down_queue_ok :: "daemon \<Rightarrow> bool" where
  "down_queue_ok s \<longleftrightarrow>
     (\<forall>d \<in> set (Down_queue s). dl_mess d \<noteq> [] \<and> length (dl_mess d) \<le> 100 \<and>
        (\<forall>el \<in> set (dl_mess d). 0 \<le> snd el \<and> snd el \<le> sizeof_packet_body)) \<and>
     (case Down_queue s of [] \<Rightarrow> cur_element s = 0 | d # _ \<Rightarrow> cur_element s < length (dl_mess d))"

lemma down_queue_ok_cong:
  "Down_queue s' = Down_queue s \<Longrightarrow> cur_element s' = cur_element s \<Longrightarrow>
   down_queue_ok s' = down_queue_ok s"
  by (simp add: down_queue_ok_def split: list.split)

text \<open>Everything that packing leaves alone.\<close>

definition same_but_queue :: "daemon \<Rightarrow> daemon \<Rightarrow> bool" where
  "same_but_queue s s' \<longleftrightarrow>
     s' = s\<lparr>Down_queue := Down_queue s', cur_element := cur_element s', out := out s'\<rparr>"

lemma same_but_queueI:
  "s' = s\<lparr>Down_queue := q, cur_element := c, out := o'\<rparr> \<Longrightarrow> same_but_queue s s'"
  by (simp add: same_but_queue_def)

lemma same_but_queue_refl: "same_but_queue s s"
  by (simp add: same_but_queue_def)

lemma same_but_queue_trans:
  assumes "same_but_queue s t" "same_but_queue t u"
  shows "same_but_queue s u"
proof -
  obtain q c o' where t: "t = s\<lparr>Down_queue := q, cur_element := c, out := o'\<rparr>"
    using assms(1) unfolding same_but_queue_def by blast
  obtain q' c' o'' where "u = t\<lparr>Down_queue := q', cur_element := c', out := o''\<rparr>"
    using assms(2) unfolding same_but_queue_def by blast
  then have "u = s\<lparr>Down_queue := q', cur_element := c', out := o''\<rparr>" using t by simp
  then show ?thesis by (rule same_but_queueI)
qed

lemma advance_fragment_spec:
  assumes "advance_fragment frag head b s = Some (head', b', s')" "down_queue_ok s"
    and "Down_queue s = d # q"
  shows "pending_elements s = dl_mess d ! cur_element s # pending_elements s'"
    and "down_queue_ok s'" and "same_but_queue s s'"
    and "\<exists>v. (head', b') = set_fragment_index frag v head b"
proof -
  let ?c = "cur_element s"
  have c: "?c < length (dl_mess d)" using assms(2,3) by (simp add: down_queue_ok_def)
  have drop: "drop ?c (dl_mess d) = dl_mess d ! ?c # drop (Suc ?c) (dl_mess d)"
    using c by (simp add: Cons_nth_drop_Suc)
  show "pending_elements s = dl_mess d ! ?c # pending_elements s'"
    using assms(1,3) c
    by (auto simp: advance_fragment_def pending_elements_def Let_def emit_def drop
             split: if_splits prod.splits)
  show "down_queue_ok s'"
    using assms c
    by (auto simp: advance_fragment_def down_queue_ok_def Let_def emit_def
             split: if_splits prod.splits list.splits)
  show "same_but_queue s s'"
    using assms(1,3)
    by (auto simp: advance_fragment_def same_but_queue_def Let_def emit_def
             split: if_splits prod.splits intro: exI)
  show "\<exists>v. (head', b') = set_fragment_index frag v head b"
    using assms(1,3)
    by (auto simp: advance_fragment_def Let_def split: if_splits prod.splits) metis+
qed

section \<open>Filling a packet\<close>

text \<open>The parts of a packet header that packing keeps.\<close>

definition header_kept :: "packet_header \<Rightarrow> packet_header \<Rightarrow> bool" where
  "header_kept h h' \<longleftrightarrow>
     ph_type h' = ph_type h \<and> ph_proc_id h' = ph_proc_id h \<and> ph_memb_id h' = ph_memb_id h \<and>
     ph_seq h' = ph_seq h \<and> fragment_len (ph_first_frag h') = fragment_len (ph_first_frag h)"

text \<open>The state of the loop before a round: \<open>ms\<close> are the fragments behind the first one.\<close>

definition packing :: "int option \<Rightarrow> packet_header \<Rightarrow> buffer \<Rightarrow> int \<Rightarrow> byte list list \<Rightarrow> bool" where
  "packing frag head b p ms \<longleftrightarrow>
     0 \<le> p \<and> ph_data_len head \<le> sizeof_packet_body \<and>
     (case frag of
        None \<Rightarrow> ph_data_len head = p \<and> ms = []
      | Some hdr \<Rightarrow> frags_open b p (ph_data_len head) ms hdr)"

lemma set_index_frags:
  assumes "packing frag head b p ms" "(head', b') = set_fragment_index frag v head b"
  shows "frags b' p (ph_data_len head') ms" "header_kept head head'"
    "ph_data_len head' = ph_data_len head" "\<And>i. i < p \<Longrightarrow> b' i = b i"
proof -
  have "frags b' p (ph_data_len head') ms \<and> header_kept head head' \<and>
      ph_data_len head' = ph_data_len head \<and> (\<forall>i<p. b' i = b i)"
  proof (cases frag)
    case None
    with assms show ?thesis
      by (auto simp: packing_def set_fragment_index_def header_kept_def intro: frags_none)
  next
    case (Some hdr)
    then have o: "frags_open b p (ph_data_len head) ms hdr" using assms(1) by (simp add: packing_def)
    from Some assms(2) have "head' = head" "b' = write_int16 b hdr v"
      by (simp_all add: set_fragment_index_def)
    with frags_open_close [OF o] show ?thesis by (auto simp: header_kept_def write_int16_def)
  qed
  then show "frags b' p (ph_data_len head') ms" "header_kept head head'"
    "ph_data_len head' = ph_data_len head" "\<And>i. i < p \<Longrightarrow> b' i = b i" by auto
qed

lemma next_element:
  assumes "down_queue_ok s" "Down_queue s = d # q"
  shows "0 \<le> snd (dl_mess d ! cur_element s)" "snd (dl_mess d ! cur_element s) \<le> sizeof_packet_body"
    "cur_element s < length (dl_mess d)"
  using assms by (auto simp: down_queue_ok_def)

lemma pack_loop_spec:
  "\<lbrakk> pack_loop frag head b s = Some (head', b', s'); down_queue_ok s; packing frag head b p ms \<rbrakk>
   \<Longrightarrow> \<exists>x E. pending_elements s = x # E @ pending_elements s' \<and>
        frags b' p (ph_data_len head') (ms @ map elem_bytes E) \<and> header_kept head head' \<and>
        ph_data_len head' \<le> sizeof_packet_body \<and> (\<forall>i<p. b' i = b i) \<and>
        down_queue_ok s' \<and> same_but_queue s s'"
proof (induction frag head b s arbitrary: ms rule: pack_loop.induct)
  case (1 frag head b s)
  let ?goal = "\<lambda>head b s ms x E. pending_elements s = x # E @ pending_elements s' \<and>
        frags b' p (ph_data_len head') (ms @ map elem_bytes E) \<and> header_kept head head' \<and>
        ph_data_len head' \<le> sizeof_packet_body \<and> (\<forall>i<p. b' i = b i) \<and>
        down_queue_ok s' \<and> same_but_queue s s'"
  have ne: "Down_queue s \<noteq> []" using "1.prems"(1) by (auto simp: pack_loop.simps [of _ _ _ s])
  then obtain d q where dq: "Down_queue s = d # q" by (cases "Down_queue s") auto
  obtain h1 b1 s1 where a: "advance_fragment frag head b s = Some (h1, b1, s1)"
    using "1.prems"(1) ne by (auto simp: pack_loop.simps [of _ _ _ s] split: option.splits prod.splits)
  note adv = advance_fragment_spec [OF a "1.prems"(2) dq]
  obtain v where v: "(h1, b1) = set_fragment_index frag v head b" using adv(4) by blast
  note idx = set_index_frags [OF "1.prems"(3) v]
  have p0: "0 \<le> p" "ph_data_len head \<le> sizeof_packet_body" using "1.prems"(3) by (auto simp: packing_def)
  obtain fits where f: "next_fits h1 s1 = Some fits"
    using "1.prems"(1) ne a by (auto simp: pack_loop.simps [of _ _ _ s] split: option.splits)
  show ?case
  proof (cases fits)
    case False
    then have "head' = h1" "b' = b1" "s' = s1"
      using "1.prems"(1) ne a f by (auto simp: pack_loop.simps [of _ _ _ s])
    then have "?goal head b s ms (dl_mess d ! cur_element s) []"
      using adv(1-3) idx p0 by simp
    then show ?thesis by blast
  next
    case True
    obtain d1 q1 where dq1: "Down_queue s1 = d1 # q1"
      using f True by (auto simp: next_fits_def split: list.splits)
    define el where "el = dl_mess d1 ! cur_element s1"
    obtain h2 b2 hdr where ap: "append_fragment h1 b1 el = Some (h2, b2, hdr)"
      using "1.prems"(1) ne a f True dq1
      by (auto simp: pack_loop.simps [of _ _ _ s] el_def split: option.splits)
    have rest: "pack_loop (Some hdr) h2 b2 s1 = Some (head', b', s')"
      using "1.prems"(1) ne a f True dq1 ap by (simp add: pack_loop.simps [of _ _ _ s] el_def)
    have fit: "snd el \<le> sizeof_packet_body - ph_data_len h1 - padding (ph_data_len h1) - sizeof_fragment_header"
      using f True dq1 by (auto simp: next_fits_def el_def Let_def split: if_splits)
    note el = next_element [OF adv(2) dq1, folded el_def]
    note app = append_fragment_open [OF ap idx(1) p0(1) el(1) fit]
    have pk: "packing (Some hdr) h2 b2 p (ms @ [elem_bytes el])"
      using app(1,4) p0(1) by (simp add: packing_def)
    have ind: "pack_loop (Some hdr) h2 b2 s1 = Some (head', b', s') \<Longrightarrow>
        \<exists>x E. ?goal h2 b2 s1 (ms @ [elem_bytes el]) x E"
      by (rule "1.IH" [OF ne a refl refl f])
         (use True dq1 ap adv(2) pk in \<open>simp_all add: el_def\<close>)
    then obtain x E where g: "?goal h2 b2 s1 (ms @ [elem_bytes el]) x E" using rest by blast
    have x: "x = el"
    proof -
      have "pending_elements s1 = el # drop (Suc (cur_element s1)) (concat (map dl_mess (Down_queue s1)))"
        using el(3) dq1
        by (simp add: pending_elements_def el_def Cons_nth_drop_Suc [symmetric])
      with g show ?thesis by simp
    qed
    have le: "p \<le> ph_data_len h1" by (rule frags_le [OF idx(1)])
    have kept: "header_kept head h2"
      using idx(2) by (subst app(2)) (simp add: header_kept_def)
    have "?goal head b s ms (dl_mess d ! cur_element s) (el # E)"
      using g x adv(1) kept idx(4) app(5) le same_but_queue_trans [OF adv(3)]
      by (auto simp: header_kept_def)
    then show ?thesis by blast
  qed
qed

end
