(* ===== verification/SendSpec.thy ===== *)
theory SendSpec
  imports Packing
begin

text \<open>
  The contract of \<open>Send_new_packets\<close>: the packets it creates have the next sequence numbers,
  their fragments are the first elements of the down queue in order, and nothing else in the
  table of packets changes but the token round of packets that leave the send queue.
\<close>

lemma same_but_queue_simps:
  assumes "same_but_queue s s'"
  shows "Packets s' = Packets s" "Highest_seq s' = Highest_seq s" "My_index s' = My_index s"
proof -
  obtain q c o' where "s' = s\<lparr>Down_queue := q, cur_element := c, out := o'\<rparr>"
    using assms unfolding same_but_queue_def by blast
  then show "Packets s' = Packets s" "Highest_seq s' = Highest_seq s" "My_index s' = My_index s"
    by simp_all
qed

section \<open>Broadcasting keeps the packets\<close>

definition packet_same :: "packet_info \<Rightarrow> packet_info \<Rightarrow> bool" where
  "packet_same p p' \<longleftrightarrow>
     (\<exists>r. p' = p\<lparr>pi_head := (pi_head p)\<lparr>ph_token_round := r\<rparr>\<rparr>)"

lemma packet_same_refl [simp]: "packet_same p p"
  unfolding packet_same_def by (rule exI [of _ "ph_token_round (pi_head p)"]) simp

lemma packet_same_trans: "packet_same p q \<Longrightarrow> packet_same q r \<Longrightarrow> packet_same p r"
  by (auto simp: packet_same_def)

lemma packet_same_simps:
  assumes "packet_same p p'"
  shows "pi_exist p' = pi_exist p" "pi_body p' = pi_body p" "pi_proc_index p' = pi_proc_index p"
    "ph_seq (pi_head p') = ph_seq (pi_head p)" "ph_type (pi_head p') = ph_type (pi_head p)"
    "ph_data_len (pi_head p') = ph_data_len (pi_head p)"
    "ph_first_frag (pi_head p') = ph_first_frag (pi_head p)"
    "ph_proc_id (pi_head p') = ph_proc_id (pi_head p)"
  using assms by (auto simp: packet_same_def)

text \<open>What broadcasting may change: the round of packets, the send queue and the output.\<close>

definition bcast_rel :: "daemon \<Rightarrow> daemon \<Rightarrow> bool" where
  "bcast_rel s s' \<longleftrightarrow>
     s' = s\<lparr>Packets := Packets s', Send_pack_queue := Send_pack_queue s', out := out s'\<rparr> \<and>
     (\<forall>e. packet_same (Packets s e) (Packets s' e))"

lemma bcast_rel_simps:
  assumes "bcast_rel s s'"
  shows "Down_queue s' = Down_queue s" "cur_element s' = cur_element s"
    "Highest_seq s' = Highest_seq s" "My_index s' = My_index s"
proof -
  obtain p q o' where "s' = s\<lparr>Packets := p, Send_pack_queue := q, out := o'\<rparr>"
    using assms unfolding bcast_rel_def by blast
  then show "Down_queue s' = Down_queue s" "cur_element s' = cur_element s"
    "Highest_seq s' = Highest_seq s" "My_index s' = My_index s" by simp_all
qed

lemma bcast_relI:
  "s' = s\<lparr>Packets := p, Send_pack_queue := q, out := o'\<rparr> \<Longrightarrow>
   (\<And>e. packet_same (Packets s e) (p e)) \<Longrightarrow> bcast_rel s s'"
  by (simp add: bcast_rel_def)

lemma bcast_rel_refl: "bcast_rel s s"
  by (simp add: bcast_rel_def)

lemma bcast_rel_trans:
  assumes "bcast_rel s t" "bcast_rel t u"
  shows "bcast_rel s u"
proof -
  obtain p q o' where t: "t = s\<lparr>Packets := p, Send_pack_queue := q, out := o'\<rparr>"
    using assms(1) unfolding bcast_rel_def by blast
  obtain p' q' o'' where u: "u = t\<lparr>Packets := p', Send_pack_queue := q', out := o''\<rparr>"
    using assms(2) unfolding bcast_rel_def by blast
  have "u = s\<lparr>Packets := p', Send_pack_queue := q', out := o''\<rparr>" using t u by simp
  moreover have "packet_same (Packets s e) (p' e)" for e
  proof (rule packet_same_trans)
    show "packet_same (Packets s e) (Packets t e)" using assms(1) by (simp add: bcast_rel_def)
    have "Packets u = p'" using u by simp
    then show "packet_same (Packets t e) (p' e)" using assms(2) by (simp add: bcast_rel_def)
  qed
  ultimately show ?thesis by (rule bcast_relI)
qed

lemma bcast_stamped_rel: "bcast_rel s (snd (bcast_stamped hb s))"
proof -
  have "packet_same p (p\<lparr>pi_head := h\<lparr>ph_token_round := r\<rparr>\<rparr>)" if "pi_head p = h" for p h r
    unfolding packet_same_def using that by blast
  then show ?thesis
    by (auto simp: bcast_stamped_def Let_def set_packet_def emit_def bcast_rel_def)
qed

lemma bcast_rel_queue: "bcast_rel s (s\<lparr>Send_pack_queue := q\<rparr>)"
  by (simp add: bcast_rel_def)

lemma bcast_first_rel: "bcast_rel s (bcast_first k s)"
proof (induction k arbitrary: s)
  case (Suc k)
  show ?case
  proof (cases "Send_pack_queue s")
    case (Cons hb q)
    let ?s = "s\<lparr>Send_pack_queue := q\<rparr>"
    have "bcast_rel s (snd (bcast_stamped hb ?s))"
      using bcast_stamped_rel bcast_rel_queue bcast_rel_trans by blast
    with Suc [of "snd (bcast_stamped hb ?s)"] Cons show ?thesis
      using bcast_rel_trans by simp
  qed (simp add: bcast_rel_refl)
qed (simp add: bcast_rel_refl)

lemma bcast_stamped_head: "fst (bcast_stamped hb s) = (fst hb)\<lparr>ph_token_round := Token_rounds s\<rparr>"
  by (simp add: bcast_stamped_def Let_def)

lemma Prot_queue_bcast_spec:
  assumes "Prot_queue_bcast hb s = (h, n, s')"
  shows "bcast_rel s s'" "\<exists>r. h = (fst hb)\<lparr>ph_token_round := r\<rparr>"
proof -
  let ?s = "bcast_first (nat (queue_send_count s)) s"
  have r: "bcast_rel s ?s" by (rule bcast_first_rel)
  have "bcast_rel s s' \<and> (\<exists>r. h = (fst hb)\<lparr>ph_token_round := r\<rparr>)"
  proof (cases "\<not> Accelerated_ring ?s \<or> Accelerated_window ?s = 0 \<or> State ?s = EVS")
    case True
    with assms have "s' = snd (bcast_stamped hb ?s)" "h = fst (bcast_stamped hb ?s)"
      by (auto simp: Prot_queue_bcast_def Let_def split: prod.splits)
    with bcast_rel_trans [OF r bcast_stamped_rel] show ?thesis by (auto simp: bcast_stamped_head)
  next
    case False
    with assms have "h = fst hb" "s' = ?s\<lparr>Send_pack_queue := Send_pack_queue ?s @ [hb]\<rparr>"
      by (auto simp: Prot_queue_bcast_def Let_def)
    moreover have "bcast_rel ?s (?s\<lparr>Send_pack_queue := Send_pack_queue ?s @ [hb]\<rparr>)"
      by (rule bcast_rel_queue)
    moreover have "h = (fst hb)\<lparr>ph_token_round := ph_token_round (fst hb)\<rparr>" using \<open>h = fst hb\<close> by simp
    ultimately show ?thesis using bcast_rel_trans [OF r] by metis
  qed
  then show "bcast_rel s s'" "\<exists>r. h = (fst hb)\<lparr>ph_token_round := r\<rparr>" by auto
qed

section \<open>One new packet\<close>

text \<open>All the fragments of a packet, as \<open>Deliver_packet\<close> reads them.\<close>

definition packet_fragments :: "packet_info \<Rightarrow> byte list list option" where
  "packet_fragments p =
     (let len = fragment_len (ph_first_frag (pi_head p)) in
      map_option ((#) (buf_bytes (pi_body p) 0 len))
        (parse_fragments (pi_body p) (ph_data_len (pi_head p)) len))"

lemma packet_fragments_same: "packet_same p p' \<Longrightarrow> packet_fragments p' = packet_fragments p"
  by (simp add: packet_fragments_def packet_same_simps)

definition send_frame :: "daemon \<Rightarrow> daemon \<Rightarrow> bool" where
  "send_frame s s' \<longleftrightarrow>
     s' = s\<lparr>Packets := Packets s', Send_pack_queue := Send_pack_queue s', out := out s',
            Down_queue := Down_queue s', cur_element := cur_element s',
            Highest_seq := Highest_seq s', Highest_fifo_seq := Highest_fifo_seq s'\<rparr>"

lemma send_frame_trans:
  assumes "send_frame s t" "send_frame t u"
  shows "send_frame s u"
proof -
  obtain p q o' d c h f where t: "t = s\<lparr>Packets := p, Send_pack_queue := q, out := o',
      Down_queue := d, cur_element := c, Highest_seq := h, Highest_fifo_seq := f\<rparr>"
    using assms(1) unfolding send_frame_def by blast
  obtain p' q' o'' d' c' h' f' where u: "u = t\<lparr>Packets := p', Send_pack_queue := q', out := o'',
      Down_queue := d', cur_element := c', Highest_seq := h', Highest_fifo_seq := f'\<rparr>"
    using assms(2) unfolding send_frame_def by blast
  show ?thesis using t u by (simp add: send_frame_def)
qed

lemma same_but_queue_frame: "same_but_queue s s' \<Longrightarrow> send_frame s s'"
proof -
  assume "same_but_queue s s'"
  then obtain q c o' where "s' = s\<lparr>Down_queue := q, cur_element := c, out := o'\<rparr>"
    unfolding same_but_queue_def by blast
  then show ?thesis by (simp add: send_frame_def)
qed

lemma bcast_rel_frame: "bcast_rel s s' \<Longrightarrow> send_frame s s'"
proof -
  assume "bcast_rel s s'"
  then obtain p q o' where "s' = s\<lparr>Packets := p, Send_pack_queue := q, out := o'\<rparr>"
    unfolding bcast_rel_def by blast
  then show ?thesis by (simp add: send_frame_def)
qed

definition new_packet_ok :: "daemon \<Rightarrow> daemon \<Rightarrow> scat_element list \<Rightarrow> bool" where
  "new_packet_ok s s' els \<longleftrightarrow>
     (let n = Highest_seq s + 1 in
      Highest_seq s' = n \<and> exist_at s n = 0 \<and> exist_at s' n = 1 \<and>
      ph_seq (pi_head (packet_at s' n)) = n \<and>
      packet_fragments (packet_at s' n) = Some (map elem_bytes els) \<and>
      (\<forall>e. e \<noteq> pack_entry n \<longrightarrow> packet_same (Packets s e) (Packets s' e)))"

lemma send_one_packet_spec:
  assumes "send_one_packet s = Some s'" "down_queue_ok s"
  obtains els where "pending_elements s = els @ pending_elements s'" "els \<noteq> []"
    "new_packet_ok s s' els" "down_queue_ok s'" "send_frame s s'"
proof -
  obtain d q where dq: "Down_queue s = d # q"
    using assms(1) by (cases "Down_queue s") (auto simp: send_one_packet_def)
  define el where "el = dl_mess d ! cur_element s"
  note el = next_element [OF assms(2) dq, folded el_def]
  define s1 where "s1 = s\<lparr>Highest_seq := Highest_seq s + 1, Highest_fifo_seq := Highest_fifo_seq s + 1\<rparr>"
  obtain h b s2 h' k s3 where
      pl: "pack_loop None (start_packet d el s) (fst el) s1 = Some (h, b, s2)" and
      bc: "Prot_queue_bcast (h, b) s2 = (h', k, s3)" and
      ins: "insert_new_packet h' b s3 = Some s'"
    using assms(1) dq el(3)
    by (auto simp: send_one_packet_def Let_def el_def s1_def split: prod.splits bind_splits)
  have ok1: "down_queue_ok s1" 
    by (subst down_queue_ok_cong [where s = s]) (use assms(2) in \<open>simp_all add: s1_def\<close>)
  have pend1: "pending_elements s1 = pending_elements s" by (simp add: s1_def pending_elements_def)
  have pk: "packing None (start_packet d el s) (fst el) (snd el) []"
    using el by (simp add: packing_def start_packet_def)
  obtain x E where
      pend: "pending_elements s1 = x # E @ pending_elements s2" and
      fr: "frags b (snd el) (ph_data_len h) (map elem_bytes E)" and
      hk: "header_kept (start_packet d el s) h" and
      keep: "\<forall>i < snd el. b i = fst el i" and ok2: "down_queue_ok s2" and same: "same_but_queue s1 s2"
    using pack_loop_spec [OF pl ok1 pk] by auto
  note bcr = Prot_queue_bcast_spec [OF bc]
  obtain r where r: "h' = h\<lparr>ph_token_round := r\<rparr>" using bcr(2) by auto
  let ?n = "Highest_seq s + 1"
  have seq: "ph_seq h' = ?n" "fragment_len (ph_first_frag h') = snd el"
    using hk r el by (simp_all add: header_kept_def start_packet_def)
  have s': "exist_at s3 ?n = 0"
      "s' = set_packet (pack_entry ?n) \<lparr>pi_head = h', pi_body = b, pi_exist = 1,
              pi_proc_index = My_index s3\<rparr> s3"
    using ins seq(1) by (auto simp: insert_new_packet_def Let_def split: if_splits)
  have P3: "packet_same (Packets s e) (Packets s3 e)" for e
  proof -
    have "Packets s2 = Packets s" using same_but_queue_simps(1) [OF same] by (simp add: s1_def)
    with bcr(1) show ?thesis by (simp add: bcast_rel_def)
  qed
  have x: "x = el"
  proof -
    have "pending_elements s1 = el # drop (Suc (cur_element s1)) (concat (map dl_mess (Down_queue s1)))"
      using el(3) dq by (simp add: pending_elements_def el_def s1_def Cons_nth_drop_Suc [symmetric])
    with pend show ?thesis by simp
  qed
  have q3: "Down_queue s3 = Down_queue s2" "cur_element s3 = cur_element s2"
      "Highest_seq s3 = Highest_seq s2"
    using bcast_rel_simps [OF bcr(1)] by simp_all
  have H2: "Highest_seq s2 = ?n"
    using same_but_queue_simps(2) [OF same] by (simp add: s1_def)
  have bb: "buf_bytes b 0 (snd el) = elem_bytes el"
    unfolding buf_bytes_def elem_bytes_def by (rule arr_list_cong) (use keep in simp)
  have "packet_fragments (packet_at s' ?n) = Some (map elem_bytes (el # E))"
    using frags_parse_all [OF fr] r seq s'(2)
    by (simp add: packet_fragments_def set_packet_def bb)
  moreover have "exist_at s ?n = 0" using P3 [of "pack_entry ?n"] s'(1) by (simp add: packet_same_simps)
  ultimately have "new_packet_ok s s' (el # E)"
    using s'(2) H2 q3 seq(1) P3 by (simp add: new_packet_ok_def set_packet_def Let_def)
  moreover have "pending_elements s = (el # E) @ pending_elements s'"
    using pend pend1 x s'(2) q3 by (simp add: pending_elements_def set_packet_def)
  moreover have "down_queue_ok s'" 
    by (subst down_queue_ok_cong [where s = s2]) (use ok2 s'(2) q3 in \<open>simp_all add: set_packet_def\<close>)
  moreover have "send_frame s s'"
  proof -
    have "send_frame s s1" by (simp add: send_frame_def s1_def)
    moreover have "send_frame s1 s2" by (rule same_but_queue_frame [OF same])
    moreover have "send_frame s2 s3" by (rule bcast_rel_frame [OF bcr(1)])
    moreover have "send_frame s3 s'" using s'(2) by (simp add: set_packet_def send_frame_def)
    ultimately show ?thesis using send_frame_trans by blast
  qed
  ultimately show ?thesis using that [of "el # E"] by simp
qed

section \<open>All the new packets of a token visit\<close>

definition fragments_between :: "daemon \<Rightarrow> int \<Rightarrow> int \<Rightarrow> byte list list option" where
  "fragments_between s i j =
     map_option concat (those (map (\<lambda>n. packet_fragments (packet_at s n)) [i..j]))"

lemma fragments_between_Cons:
  "i \<le> j \<Longrightarrow> fragments_between s i j =
     (case packet_fragments (packet_at s i) of
        None \<Rightarrow> None
      | Some ms \<Rightarrow> map_option ((@) ms) (fragments_between s (i + 1) j))"
  by (simp add: fragments_between_def upto_rec1 option.map_comp comp_def
           split: option.split)

lemma send_packets_spec:
  "send_packets k s = Some (n, s') \<Longrightarrow> down_queue_ok s \<Longrightarrow>
     \<exists>els. pending_elements s = els @ pending_elements s' \<and>
       fragments_between s' (Highest_seq s + 1) (Highest_seq s') = Some (map elem_bytes els) \<and>
       Highest_seq s' = Highest_seq s + n \<and> 0 \<le> n \<and> n \<le> int k \<and>
       (n < int k \<longrightarrow> Down_queue s' = []) \<and> down_queue_ok s' \<and> send_frame s s' \<and>
       (\<forall>i. Highest_seq s < i \<and> i \<le> Highest_seq s' \<longrightarrow>
            exist_at s i = 0 \<and> exist_at s' i = 1 \<and> ph_seq (pi_head (packet_at s' i)) = i) \<and>
       (\<forall>e. pi_exist (Packets s e) \<noteq> 0 \<longrightarrow> packet_same (Packets s e) (Packets s' e))"
proof (induction k arbitrary: s n)
  case 0
  then show ?case by (simp add: fragments_between_def send_frame_def)
next
  case (Suc k)
  show ?case
  proof (cases "Down_queue s = []")
    case True
    with Suc.prems show ?thesis by (auto simp: fragments_between_def send_frame_def)
  next
    case False
    then obtain t m where t: "send_one_packet s = Some t" and rest: "send_packets k t = Some (m, s')"
        and n: "n = m + 1"
      using Suc.prems(1) by (auto split: bind_splits)
    obtain els1 where one: "pending_elements s = els1 @ pending_elements t"
        "new_packet_ok s t els1" "down_queue_ok t" "send_frame s t"
      using send_one_packet_spec [OF t Suc.prems(2)] by metis
    obtain els2 where two: "pending_elements t = els2 @ pending_elements s'"
        "fragments_between s' (Highest_seq t + 1) (Highest_seq s') = Some (map elem_bytes els2)"
        "Highest_seq s' = Highest_seq t + m" "0 \<le> m" "m \<le> int k"
        "m < int k \<longrightarrow> Down_queue s' = []" "down_queue_ok s'" "send_frame t s'"
        "\<forall>i. Highest_seq t < i \<and> i \<le> Highest_seq s' \<longrightarrow>
            exist_at t i = 0 \<and> exist_at s' i = 1 \<and> ph_seq (pi_head (packet_at s' i)) = i"
        "\<forall>e. pi_exist (Packets t e) \<noteq> 0 \<longrightarrow> packet_same (Packets t e) (Packets s' e)"
      using Suc.IH [OF rest one(3)] by blast
    let ?h = "Highest_seq s + 1"
    from one(2) have h: "Highest_seq t = ?h" "exist_at s ?h = 0" "exist_at t ?h = 1"
        "ph_seq (pi_head (packet_at t ?h)) = ?h"
        "packet_fragments (packet_at t ?h) = Some (map elem_bytes els1)"
        "\<And>e. e \<noteq> pack_entry ?h \<Longrightarrow> packet_same (Packets s e) (Packets t e)"
      by (simp_all add: new_packet_ok_def Let_def)
    have same_h: "packet_same (packet_at t ?h) (packet_at s' ?h)" using two(10) h(3) by simp
    have frag: "fragments_between s' ?h (Highest_seq s') = Some (map elem_bytes (els1 @ els2))"
      using two(2-4) h(1,5) packet_fragments_same [OF same_h]
      by (simp add: fragments_between_Cons [of ?h])
    have new: "exist_at s i = 0 \<and> exist_at s' i = 1 \<and> ph_seq (pi_head (packet_at s' i)) = i"
      if i: "Highest_seq s < i" "i \<le> Highest_seq s'" for i
    proof (cases "i = ?h")
      case True
      with h packet_same_simps [OF same_h] show ?thesis by simp
    next
      case False
      with i h(1) have "Highest_seq t < i" by simp
      with two(9) i(2) have r: "exist_at t i = 0 \<and> exist_at s' i = 1 \<and> ph_seq (pi_head (packet_at s' i)) = i"
        by blast
      then have "pack_entry i \<noteq> pack_entry ?h" using h(3) by auto
      with h(6) r show ?thesis using packet_same_simps(1) by metis
    qed
    have old: "packet_same (Packets s e) (Packets s' e)" if "pi_exist (Packets s e) \<noteq> 0" for e
    proof -
      have "e \<noteq> pack_entry ?h" using that h(2) by auto
      then have st: "packet_same (Packets s e) (Packets t e)" by (rule h(6))
      with that have "pi_exist (Packets t e) \<noteq> 0" by (simp add: packet_same_simps)
      with two(10) st packet_same_trans show ?thesis by blast
    qed
    show ?thesis
      using one two h(1) frag new old n send_frame_trans [OF one(4) two(8)]
      by (intro exI [of _ "els1 @ els2"]) auto
  qed
qed

end
