(* ===== verification/DeliverySpec.thy ===== *)
theory DeliverySpec
  imports SendSpec
begin

text \<open>
  What \<open>Deliver_packet\<close> does in one equation, and the contracts of the routines that deliver:
  the packets they hand to the sessions, in which order, and what they leave behind.
\<close>

section \<open>One packet\<close>

lemma fold_emit: "fold (\<lambda>m. emit (f m)) ms s = s\<lparr>out := out s @ map f ms\<rparr>"
  by (induction ms arbitrary: s) (simp_all add: emit_def)

definition up_index :: "packet_info \<Rightarrow> int" where
  "up_index p =
     (if Is_reliable (ph_type (pi_head p)) \<and> fragment_index (ph_first_frag (pi_head p)) = -1
      then MAX_PROCS_RING else pi_proc_index p)"

definition up_elements :: "(int \<Rightarrow> byte list list option) \<Rightarrow> packet_info \<Rightarrow> byte list list" where
  "up_elements up p = (case up (up_index p) of None \<Rightarrow> [] | Some es \<Rightarrow> es)"

text \<open>The first fragment continues the message that its sender has begun.\<close>

definition continues :: "(int \<Rightarrow> byte list list option) \<Rightarrow> packet_info \<Rightarrow> bool" where
  "continues up p \<longleftrightarrow>
     (let f = ph_first_frag (pi_head p); n = \<bar>fragment_index f\<bar> in
      int (length (up_elements up p)) + 1 = n \<and> n \<le> MAX_SCATTER_ELEMENTS \<and> 0 \<le> fragment_len f)"

text \<open>
  The messages of a packet with fragments \<open>f # fs\<close>, and what is left of the sender's message:
  the first fragment ends a message when its index is negative, every other one is a message.
\<close>

definition packet_messages :: "(int \<Rightarrow> byte list list option) \<Rightarrow> packet_info \<Rightarrow> byte list list \<Rightarrow> byte list list list"
where
  "packet_messages up p frs =
     (if fragment_index (ph_first_frag (pi_head p)) < 0 then [up_elements up p @ [hd frs]] else []) @
     map (\<lambda>m. [m]) (tl frs)"

definition up_after :: "(int \<Rightarrow> byte list list option) \<Rightarrow> packet_info \<Rightarrow> byte list list \<Rightarrow> int \<Rightarrow> byte list list option"
where
  "up_after up p frs =
     up(up_index p := (if fragment_index (ph_first_frag (pi_head p)) < 0 then None
                       else Some (up_elements up p @ [hd frs])))"

lemma Deliver_packet_eq:
  "Deliver_packet e c s =
     (case packet_fragments (Packets s e) of
        None \<Rightarrow> None
      | Some frs \<Rightarrow>
          if continues (Up_queue s) (Packets s e)
          then Some (s\<lparr>Packets := (Packets s)(e := (Packets s e)\<lparr>pi_exist := 2\<rparr>),
                       Up_queue := up_after (Up_queue s) (Packets s e) frs,
                       out := out s @ map Sess_deliver_message
                                (packet_messages (Up_queue s) (Packets s e) frs)\<rparr>)
          else None)"
proof -
  let ?p = "Packets s e"
  let ?f = "ph_first_frag (pi_head ?p)"
  let ?first = "buf_bytes (pi_body ?p) 0 (fragment_len ?f)"
  show ?thesis
  proof (cases "parse_fragments (pi_body ?p) (ph_data_len (pi_head ?p)) (fragment_len ?f)")
    case None
    then show ?thesis by (simp add: Deliver_packet_def packet_fragments_def Let_def)
  next
    case (Some ms)
    have fr: "packet_fragments ?p = Some (?first # ms)" using Some by (simp add: packet_fragments_def)
    define up where "up = up_index ?p"
    define es where "es = up_elements (Up_queue s) ?p"
    have up_def': "(if Is_reliable (ph_type (pi_head ?p)) \<and> fragment_index ?f = - 1
        then MAX_PROCS_RING else pi_proc_index ?p) = up" by (simp add: up_def up_index_def)
    have es_def': "(case Up_queue s up of None \<Rightarrow> [] | Some es \<Rightarrow> es) = es"
      by (simp add: es_def up_elements_def up_def)
    show ?thesis
      unfolding Deliver_packet_def Let_def Some up_def' es_def' bind.bind_lunit fr
      by (auto simp: continues_def Let_def es_def [symmetric] up_def [symmetric] fold_emit
            set_exist_def set_packet_def emit_def packet_messages_def up_after_def comp_def)
  qed
qed

section \<open>The messages that a sequence of packets makes\<close>

fun message_trace ::
  "packet_info list \<Rightarrow> (int \<Rightarrow> byte list list option)
   \<Rightarrow> (byte list list list \<times> (int \<Rightarrow> byte list list option)) option"
where
  "message_trace [] up = Some ([], up)"
| "message_trace (p # ps) up =
     (case packet_fragments p of
        None \<Rightarrow> None
      | Some frs \<Rightarrow>
          if continues up p
          then map_option (\<lambda>(ms, up'). (packet_messages up p frs @ ms, up'))
                 (message_trace ps (up_after up p frs))
          else None)"

lemma message_trace_append:
  "message_trace (ps @ qs) up =
     (case message_trace ps up of
        None \<Rightarrow> None
      | Some (ms, up') \<Rightarrow> map_option (\<lambda>(ms', up''). (ms @ ms', up'')) (message_trace qs up'))"
  by (induction ps arbitrary: up)
     (auto simp: map_option_case split: option.split prod.split)

text \<open>
  \<open>delivers is s s'\<close>: from \<open>s\<close> to \<open>s'\<close> the packets numbered \<open>is\<close> were handed to the
  sessions, in this order and nothing else.
\<close>

definition delivers :: "int list \<Rightarrow> daemon \<Rightarrow> daemon \<Rightarrow> bool" where
  "delivers is s s' \<longleftrightarrow>
     (\<exists>ms. message_trace (map (packet_at s) is) (Up_queue s) = Some (ms, Up_queue s') \<and>
           out s' = out s @ map Sess_deliver_message ms)"

lemma delivers_none [simp]: "delivers [] s s' \<longleftrightarrow> Up_queue s' = Up_queue s \<and> out s' = out s"
  by (auto simp: delivers_def)

lemma delivers_append:
  assumes "delivers is s t" "delivers js t u"
    and "\<And>j. j \<in> set js \<Longrightarrow> packet_at t j = packet_at s j"
  shows "delivers (is @ js) s u"
proof -
  from assms(1) obtain ms where ms: "message_trace (map (packet_at s) is) (Up_queue s) = Some (ms, Up_queue t)"
      "out t = out s @ map Sess_deliver_message ms" by (auto simp: delivers_def)
  from assms(2) obtain ns where ns: "message_trace (map (packet_at t) js) (Up_queue t) = Some (ns, Up_queue u)"
      "out u = out t @ map Sess_deliver_message ns" by (auto simp: delivers_def)
  have "map (packet_at t) js = map (packet_at s) js" using assms(3) by simp
  with ms ns show ?thesis by (simp add: delivers_def message_trace_append)
qed

lemma delivers_cong:
  "delivers is s t \<Longrightarrow> out t' = out t \<Longrightarrow> Up_queue t' = Up_queue t \<Longrightarrow> delivers is s t'"
  by (simp add: delivers_def)

lemma delivers_cong_left:
  "delivers is s t \<Longrightarrow> out s' = out s \<Longrightarrow> Up_queue s' = Up_queue s \<Longrightarrow>
   (\<And>i. i \<in> set is \<Longrightarrow> packet_at s' i = packet_at s i) \<Longrightarrow> delivers is s' t"
proof -
  assume a: "delivers is s t" "out s' = out s" "Up_queue s' = Up_queue s"
    "\<And>i. i \<in> set is \<Longrightarrow> packet_at s' i = packet_at s i"
  have "map (packet_at s') is = map (packet_at s) is" by (rule map_cong) (simp_all add: a(4))
  then show ?thesis using a(1) unfolding delivers_def a(2,3) by metis
qed

text \<open>What delivering changes besides the output: \<open>Up_queue\<close>, \<open>Last_delivered\<close>, packets.\<close>

definition delivery_frame :: "daemon \<Rightarrow> daemon \<Rightarrow> bool" where
  "delivery_frame s s' \<longleftrightarrow>
     s' = s\<lparr>Packets := Packets s', Up_queue := Up_queue s', out := out s',
            Last_delivered := Last_delivered s', Last_discarded := Last_discarded s'\<rparr>"

lemma delivery_frameI:
  "s' = s\<lparr>Packets := p, Up_queue := u, out := o', Last_delivered := d, Last_discarded := c\<rparr> \<Longrightarrow>
   delivery_frame s s'"
  by (simp add: delivery_frame_def)

lemma delivery_frame_refl [simp]: "delivery_frame s s"
  by (simp add: delivery_frame_def)

lemma delivery_frame_trans [trans]:
  assumes "delivery_frame s t" "delivery_frame t u"
  shows "delivery_frame s u"
proof -
  obtain p q o' d c where t: "t = s\<lparr>Packets := p, Up_queue := q, out := o', Last_delivered := d, Last_discarded := c\<rparr>"
    using assms(1) unfolding delivery_frame_def by blast
  obtain p' q' o'' d' c' where u: "u = t\<lparr>Packets := p', Up_queue := q', out := o'', Last_delivered := d', Last_discarded := c'\<rparr>"
    using assms(2) unfolding delivery_frame_def by blast
  show ?thesis using t u by (simp add: delivery_frame_def)
qed

lemma delivery_frame_simps:
  assumes "delivery_frame s s'"
  shows "State s' = State s" "Token_alive s' = Token_alive s" "Time_queue s' = Time_queue s"
    "Highest_seq s' = Highest_seq s" "My_aru s' = My_aru s" "Aru s' = Aru s"
    "Commit_membership s' = Commit_membership s" "Last_seq s' = Last_seq s"
    "Prot_delivery_threshold s' = Prot_delivery_threshold s" "Last_token s' = Last_token s"
proof -
  obtain p q o' d c where "s' = s\<lparr>Packets := p, Up_queue := q, out := o', Last_delivered := d, Last_discarded := c\<rparr>"
    using assms unfolding delivery_frame_def by blast
  then show "State s' = State s" "Token_alive s' = Token_alive s" "Time_queue s' = Time_queue s"
    "Highest_seq s' = Highest_seq s" "My_aru s' = My_aru s" "Aru s' = Aru s"
    "Commit_membership s' = Commit_membership s" "Last_seq s' = Last_seq s"
    "Prot_delivery_threshold s' = Prot_delivery_threshold s" "Last_token s' = Last_token s" by simp_all
qed

lemma Deliver_packet_spec:
  assumes "Deliver_packet (pack_entry i) c s = Some s'"
  shows "delivers [i] s s'" "delivery_frame s s'"
    "Packets s' = (Packets s)(pack_entry i := (packet_at s i)\<lparr>pi_exist := 2\<rparr>)"
    "Last_delivered s' = Last_delivered s" "Last_discarded s' = Last_discarded s"
proof -
  obtain frs where frs: "packet_fragments (packet_at s i) = Some frs"
      "continues (Up_queue s) (packet_at s i)"
    using assms by (auto simp: Deliver_packet_eq split: option.splits if_splits)
  with assms have s': "s' = s\<lparr>Packets := (Packets s)(pack_entry i := (packet_at s i)\<lparr>pi_exist := 2\<rparr>),
      Up_queue := up_after (Up_queue s) (packet_at s i) frs,
      out := out s @ map Sess_deliver_message (packet_messages (Up_queue s) (packet_at s i) frs)\<rparr>"
    by (simp add: Deliver_packet_eq)
  show "delivers [i] s s'" unfolding delivers_def using frs s' by simp
  show "delivery_frame s s'" unfolding delivery_frame_def s' by simp
  show "Packets s' = (Packets s)(pack_entry i := (packet_at s i)\<lparr>pi_exist := 2\<rparr>)"
    "Last_delivered s' = Last_delivered s" "Last_discarded s' = Last_discarded s" using s' by simp_all
qed

section \<open>Delivery in agreed order\<close>

definition mark :: "int \<Rightarrow> int set \<Rightarrow> (int \<Rightarrow> packet_info) \<Rightarrow> int \<Rightarrow> packet_info" where
  "mark v E P = (\<lambda>e. if e \<in> E then (P e)\<lparr>pi_exist := v\<rparr> else P e)"

definition entries :: "int \<Rightarrow> int \<Rightarrow> int set" where
  "entries lo hi = pack_entry ` {lo..hi}"

lemma entries_empty [simp]: "hi < lo \<Longrightarrow> entries lo hi = {}"
  by (simp add: entries_def)

lemma entries_Cons: "lo \<le> hi \<Longrightarrow> entries lo hi = insert (pack_entry lo) (entries (lo + 1) hi)"
proof -
  assume "lo \<le> hi"
  then have "{lo..hi} = insert lo {lo + 1..hi}" by auto
  then show ?thesis by (simp add: entries_def)
qed

lemma pack_entry_in_entries:
  assumes "lo \<le> i" "i - lo < MAX_PACKETS_IN_STRUCT" "hi - lo < MAX_PACKETS_IN_STRUCT" "hi - i < MAX_PACKETS_IN_STRUCT"
  shows "pack_entry i \<in> entries lo hi \<longleftrightarrow> i \<le> hi"
proof
  assume "pack_entry i \<in> entries lo hi"
  then obtain j where j: "pack_entry i = pack_entry j" "lo \<le> j" "j \<le> hi" by (auto simp: entries_def)
  with assms have "\<bar>i - j\<bar> < MAX_PACKETS_IN_STRUCT" by linarith
  with j pack_entry_inj show "i \<le> hi" by blast
qed (use assms in \<open>auto simp: entries_def\<close>)

lemma mark_simps [simp]:
  "e \<in> E \<Longrightarrow> mark v E P e = (P e)\<lparr>pi_exist := v\<rparr>"
  "e \<notin> E \<Longrightarrow> mark v E P e = P e"
  "mark v {} P = P"
  by (simp_all add: mark_def fun_eq_iff)

lemma mark_head [simp]: "pi_head (mark v E P e) = pi_head (P e)" "pi_body (mark v E P e) = pi_body (P e)"
    "pi_proc_index (mark v E P e) = pi_proc_index (P e)"
  by (simp_all add: mark_def)

lemma mark_insert: "mark v E (P(e := (P e)\<lparr>pi_exist := v\<rparr>)) = mark v (insert e E) P"
  by (auto simp: mark_def fun_eq_iff)

lemma mark_present: "pi_exist (P e) = v \<Longrightarrow> mark v (insert e E) P = mark v E P"
  by (auto simp: mark_def fun_eq_iff)

lemma Deliver_packet_Last_delivered:
  "Deliver_packet e c (s\<lparr>Last_delivered := n\<rparr>) =
     map_option (\<lambda>t. t\<lparr>Last_delivered := n\<rparr>) (Deliver_packet e c s)"
  by (auto simp: Deliver_packet_eq split: option.split)

text \<open>What the loop of \<open>Deliver_agreed_packets\<close> achieves from \<open>lo\<close> on.\<close>

definition agreed_run :: "int \<Rightarrow> int \<Rightarrow> daemon \<Rightarrow> daemon \<Rightarrow> bool" where
  "agreed_run lo hi s s' \<longleftrightarrow>
     (let k = Last_delivered s' in
      lo - 1 \<le> k \<and> k \<le> hi \<and>
      delivers (filter (\<lambda>i. exist_at s i = 1) [lo..k]) s s' \<and>
      (\<forall>i. lo \<le> i \<and> i \<le> k \<longrightarrow>
         exist_at s i = 2 \<or> exist_at s i = 1 \<and> \<not> Is_safe (ph_type (pi_head (packet_at s i)))) \<and>
      (k < hi \<longrightarrow> exist_at s (k + 1) = 1 \<and> Is_safe (ph_type (pi_head (packet_at s (k + 1))))) \<and>
      Packets s' = mark 2 (entries lo k) (Packets s) \<and> Last_discarded s' = Last_discarded s \<and>
      delivery_frame s s')"

lemma agreed_round_cases:
  assumes "deliver_agreed_round lo s = Some r"
  obtains (safe) "r = Break s" "exist_at s lo = 1" "Is_safe (ph_type (pi_head (packet_at s lo)))"
  | (now) t where "exist_at s lo = 1" "\<not> Is_safe (ph_type (pi_head (packet_at s lo)))"
      "Deliver_packet (pack_entry lo) True s = Some t"
      "r = Continue (t\<lparr>Last_delivered := Last_delivered s + 1\<rparr>)"
  | (before) "exist_at s lo = 2" "r = Continue (s\<lparr>Last_delivered := Last_delivered s + 1\<rparr>)"
  using assms Deliver_packet_spec(4)
  by (auto simp: deliver_agreed_round_def split: if_splits bind_splits)

lemma agreed_run_Cons:
  assumes "agreed_run (lo + 1) hi t s'" and le: "lo \<le> hi" "hi - lo < MAX_PACKETS_IN_STRUCT"
    and P: "Packets t = mark 2 {pack_entry lo} (Packets s)" and fr: "delivery_frame s t"
    and ld: "Last_discarded t = Last_discarded s"
    and now: "delivers (filter (\<lambda>i. exist_at s i = 1) [lo]) s t"
    and ex: "exist_at s lo = 2 \<or> exist_at s lo = 1 \<and> \<not> Is_safe (ph_type (pi_head (packet_at s lo)))"
  shows "agreed_run lo hi s s'"
proof -
  let ?k = "Last_delivered s'"
  have k: "lo \<le> ?k" "?k \<le> hi" using assms(1) by (auto simp: agreed_run_def Let_def)
  have same: "packet_at t i = packet_at s i" if "lo < i" "i \<le> hi" for i
  proof -
    have "pack_entry i \<noteq> pack_entry lo" using pack_entry_inj [of i lo] that le(2) by auto
    then show ?thesis using P by simp
  qed
  have same': "exist_at t i = exist_at s i" if "lo < i" "i \<le> ?k" for i
    using same [of i] that k(2) by simp
  have sub: "filter (\<lambda>i. exist_at t i = 1) [lo + 1..?k] = filter (\<lambda>i. exist_at s i = 1) [lo + 1..?k]"
    by (rule filter_cong) (use same' in auto)
  have "delivers (filter (\<lambda>i. exist_at s i = 1) [lo] @ filter (\<lambda>i. exist_at s i = 1) [lo + 1..?k]) s s'"
    by (rule delivers_append [OF now])
       (use assms(1) sub same k(2) in \<open>auto simp: agreed_run_def Let_def\<close>)
  then have del: "delivers (filter (\<lambda>i. exist_at s i = 1) [lo..?k]) s s'"
    using k(1) by (simp add: upto_rec1 split: if_splits)
  have all: "exist_at s i = 2 \<or> exist_at s i = 1 \<and> \<not> Is_safe (ph_type (pi_head (packet_at s i)))"
    if i: "lo \<le> i" "i \<le> ?k" for i
  proof (cases "i = lo")
    case False
    then have "lo + 1 \<le> i" using i by simp
    with assms(1) i have "exist_at t i = 2 \<or> exist_at t i = 1 \<and> \<not> Is_safe (ph_type (pi_head (packet_at t i)))"
      by (auto simp: agreed_run_def Let_def)
    with same [of i] i k False show ?thesis by auto
  qed (use ex in simp)
  have stop: "exist_at s (?k + 1) = 1 \<and> Is_safe (ph_type (pi_head (packet_at s (?k + 1))))" if "?k < hi"
    using assms(1) same [of "?k + 1"] that k by (auto simp: agreed_run_def Let_def)
  have "Packets s' = mark 2 (entries lo ?k) (Packets s)"
    using assms(1) P k by (simp add: agreed_run_def Let_def entries_Cons mark_def fun_eq_iff)
  moreover have "delivery_frame s s'"
    using assms(1) fr delivery_frame_trans by (auto simp: agreed_run_def Let_def)
  ultimately show ?thesis
    using k del all stop assms(1) ld by (simp add: agreed_run_def Let_def)
qed

lemma agreed_loop:
  "for_loop lo hi deliver_agreed_round s = Some s' \<Longrightarrow> Last_delivered s = lo - 1 \<Longrightarrow>
   lo \<le> hi + 1 \<Longrightarrow> hi - lo < MAX_PACKETS_IN_STRUCT \<Longrightarrow> agreed_run lo hi s s'"
proof (induction lo hi deliver_agreed_round s rule: for_loop.induct)
  case (1 lo hi s)
  show ?case
  proof (cases "lo \<le> hi")
    case False
    with "1.prems" show ?thesis by (simp add: agreed_run_def Let_def)
  next
    case True
    then obtain r where r: "deliver_agreed_round lo s = Some r"
      using "1.prems"(1) by (auto simp: for_loop_step split: option.splits)
    from r show ?thesis
    proof (cases rule: agreed_round_cases)
      case safe
      with r True "1.prems" show ?thesis by (simp add: for_loop_step agreed_run_def Let_def)
    next
      case (now t)
      note spec = Deliver_packet_spec [OF now(3)]
      let ?t = "t\<lparr>Last_delivered := Last_delivered s + 1\<rparr>"
      have rest: "for_loop (lo + 1) hi deliver_agreed_round ?t = Some s'"
        using "1.prems"(1) True r now(4) by (simp add: for_loop_step)
      have "agreed_run (lo + 1) hi ?t s'"
        by (rule "1.hyps" [OF True r now(4) rest]) (use "1.prems" True in simp_all)
      then show ?thesis
      proof (rule agreed_run_Cons [OF _ True "1.prems"(4)])
        show "delivery_frame s ?t"
          using spec(2) by (rule delivery_frame_trans) (simp add: delivery_frame_def)
        show "delivers (filter (\<lambda>i. exist_at s i = 1) [lo]) s ?t"
          using spec(1) now(1) by (auto intro: delivers_cong)
        show "Packets ?t = mark 2 {pack_entry lo} (Packets s)"
          using spec(3) by (simp add: mark_def fun_eq_iff)
      qed (use spec now in simp_all)
    next
      case before
      let ?t = "s\<lparr>Last_delivered := Last_delivered s + 1\<rparr>"
      have rest: "for_loop (lo + 1) hi deliver_agreed_round ?t = Some s'"
        using "1.prems"(1) True r before(2) by (simp add: for_loop_step)
      have "agreed_run (lo + 1) hi ?t s'"
        by (rule "1.hyps" [OF True r before(2) rest]) (use "1.prems" True in simp_all)
      then show ?thesis
      proof (rule agreed_run_Cons [OF _ True "1.prems"(4)])
        show "Packets ?t = mark 2 {pack_entry lo} (Packets s)"
          using before(1) by (simp add: mark_def fun_eq_iff)
        show "delivery_frame s ?t" by (simp add: delivery_frame_def)
      qed (use before in simp_all)
    qed
  qed
qed

lemma Deliver_agreed_packets_run:
  assumes "Deliver_agreed_packets s = Some s'" "State s \<noteq> EVS" "Prot_delivery_threshold s \<le> AGREED_TYPE"
    "Last_delivered s \<le> My_aru s" "My_aru s - Last_delivered s \<le> MAX_PACKETS_IN_STRUCT"
  shows "agreed_run (Last_delivered s + 1) (My_aru s) s s'"
proof (cases "My_aru s \<le> Last_delivered s")
  case True
  with assms show ?thesis by (simp add: Deliver_agreed_packets_def agreed_run_def Let_def)
next
  case False
  have "\<not> AGREED_TYPE < Prot_delivery_threshold s" using assms(3) by (rule leD)
  with False assms show ?thesis
    by (intro agreed_loop) (auto simp: Deliver_agreed_packets_def)
qed

section \<open>Discarding what is stable\<close>

lemma deliver_and_clear_spec:
  assumes "deliver_and_clear i s = Some s'"
  shows "delivers (filter (\<lambda>i. exist_at s i = 1) [i]) s s'" "delivery_frame s s'"
    "Packets s' = mark 0 {pack_entry i} (Packets s)"
    "Last_delivered s' = Last_delivered s" "Last_discarded s' = Last_discarded s"
proof -
  obtain t where t: "(if exist_at s i = 1 then Deliver_packet (pack_entry i) False s else Some s) = Some t"
      "s' = set_exist (pack_entry i) 0 t"
    using assms by (auto simp: deliver_and_clear_def split: bind_splits)
  have c: "delivers (filter (\<lambda>i. exist_at s i = 1) [i]) s t \<and> delivery_frame s t \<and>
      mark 0 {pack_entry i} (Packets t) = mark 0 {pack_entry i} (Packets s) \<and>
      Last_delivered t = Last_delivered s \<and> Last_discarded t = Last_discarded s"
  proof (cases "exist_at s i = 1")
    case True
    with t(1) have "Deliver_packet (pack_entry i) False s = Some t" by simp
    note spec = Deliver_packet_spec [OF this]
    show ?thesis using spec True by (auto simp: mark_def fun_eq_iff)
  next
    case False
    with t(1) show ?thesis by simp
  qed
  have s': "s' = t\<lparr>Packets := mark 0 {pack_entry i} (Packets t)\<rparr>"
  proof -
    have "mark 0 {pack_entry i} (Packets t) = (Packets t)(pack_entry i := (packet_at t i)\<lparr>pi_exist := 0\<rparr>)"
      by (simp add: mark_def fun_eq_iff)
    then show ?thesis by (simp add: t(2) set_exist_def set_packet_def)
  qed
  show "delivers (filter (\<lambda>i. exist_at s i = 1) [i]) s s'"
    using c by (auto intro: delivers_cong simp: s' simp del: filter.simps)
  show "delivery_frame s s'"
    using c by (elim conjE delivery_frame_trans) (simp add: s' delivery_frame_def)
  show "Packets s' = mark 0 {pack_entry i} (Packets s)"
    "Last_delivered s' = Last_delivered s" "Last_discarded s' = Last_discarded s"
    using c by (simp_all add: s')
qed

definition discard_run :: "int \<Rightarrow> int \<Rightarrow> daemon \<Rightarrow> daemon \<Rightarrow> bool" where
  "discard_run lo hi s s' \<longleftrightarrow>
     (\<forall>i. lo \<le> i \<and> i \<le> hi \<longrightarrow> exist_at s i \<noteq> 0) \<and>
     delivers (filter (\<lambda>i. exist_at s i = 1) [lo..hi]) s s' \<and>
     Packets s' = mark 0 (entries lo hi) (Packets s) \<and> delivery_frame s s'"

lemma discard_loop:
  "for_loop lo hi discard_round s = Some s' \<Longrightarrow> hi - lo < MAX_PACKETS_IN_STRUCT \<Longrightarrow>
   discard_run lo hi s s' \<and> Last_delivered s' = Last_delivered s \<and> Last_discarded s' = Last_discarded s"
proof (induction lo hi discard_round s rule: for_loop.induct)
  case (1 lo hi s)
  show ?case
  proof (cases "lo \<le> hi")
    case False
    with "1.prems" show ?thesis by (simp add: discard_run_def)
  next
    case True
    obtain t where ne: "exist_at s lo \<noteq> 0" and t: "deliver_and_clear lo s = Some t"
        and round: "discard_round lo s = Some (Continue t)"
      using "1.prems"(1) True
      by (auto simp: for_loop_step discard_round_def split: option.splits if_splits)
    note spec = deliver_and_clear_spec [OF t]
    have rest: "for_loop (lo + 1) hi discard_round t = Some s'"
      using "1.prems"(1) True round by (simp add: for_loop_step)
    have ih: "discard_run (lo + 1) hi t s'" "Last_delivered s' = Last_delivered t"
        "Last_discarded s' = Last_discarded t"
      using "1.hyps" [OF True round refl rest] "1.prems"(2) by simp_all
    have same: "packet_at t i = packet_at s i" if "lo < i" "i \<le> hi" for i
    proof -
      have "pack_entry i \<noteq> pack_entry lo" using pack_entry_inj [of i lo] that "1.prems"(2) by auto
      then show ?thesis using spec(3) by simp
    qed
    have sub: "filter (\<lambda>i. exist_at t i = 1) [lo + 1..hi] = filter (\<lambda>i. exist_at s i = 1) [lo + 1..hi]"
      by (rule filter_cong) (use same in auto)
    have "delivers (filter (\<lambda>i. exist_at s i = 1) [lo] @ filter (\<lambda>i. exist_at s i = 1) [lo + 1..hi]) s s'"
      by (rule delivers_append [OF spec(1)]) (use ih(1) sub same in \<open>auto simp: discard_run_def\<close>)
    then have "delivers (filter (\<lambda>i. exist_at s i = 1) [lo..hi]) s s'"
      using True by (simp add: upto_rec1 split: if_splits)
    moreover have "exist_at s i \<noteq> 0" if i: "lo \<le> i" "i \<le> hi" for i
    proof (cases "i = lo")
      case False
      with i have "lo + 1 \<le> i" by simp
      with ih(1) i have "exist_at t i \<noteq> 0" by (auto simp: discard_run_def)
      with same [of i] i False show ?thesis by simp
    qed (use ne in simp)
    moreover have "Packets s' = mark 0 (entries lo hi) (Packets s)"
      using ih(1) spec(3) True by (simp add: discard_run_def entries_Cons mark_def fun_eq_iff)
    moreover have "delivery_frame s s'"
      using ih(1) spec(2) delivery_frame_trans by (auto simp: discard_run_def)
    ultimately show ?thesis using ih(2,3) spec(4,5) by (simp add: discard_run_def)
  qed
qed

lemma discard_stable_run:
  assumes "discard_stable s = Some s'" "Aru s - Last_discarded s \<le> MAX_PACKETS_IN_STRUCT"
  shows "discard_run (Last_discarded s + 1) (Aru s) s s'"
    "Last_discarded s' = Aru s" "Last_delivered s' = max (Last_delivered s) (Aru s)"
proof -
  obtain t where t: "for_loop (Last_discarded s + 1) (Aru s) discard_round s = Some t"
      "s' = t\<lparr>Last_discarded := Aru t, Last_delivered := (if Last_delivered t < Aru t then Aru t else Last_delivered t)\<rparr>"
    using assms(1) by (auto simp: discard_stable_def split: bind_splits)
  have run: "discard_run (Last_discarded s + 1) (Aru s) s t" "Last_delivered t = Last_delivered s"
    using discard_loop [OF t(1)] assms(2) by simp_all
  have aru: "Aru t = Aru s" using run(1) delivery_frame_simps(6) by (auto simp: discard_run_def)
  show "Last_discarded s' = Aru s" using aru t(2) by simp
  show "Last_delivered s' = max (Last_delivered s) (Aru s)" using aru run(2) t(2) by (simp add: max_def)
  have "delivery_frame t s'" by (simp add: t(2) delivery_frame_def)
  then show "discard_run (Last_discarded s + 1) (Aru s) s s'"
    using run(1) t(2) delivery_frame_trans
    by (auto simp: discard_run_def intro: delivers_cong)
qed

end
