(* ===== verification/Control.thy ===== *)
theory Control
  imports ProtToken DeliverySpec
begin

text \<open>
  The control state of the daemon: the state of the membership protocol, whether the token is
  alive, and which timers are armed. The queue of \<open>events.c\<close> is used through the interface
  \<open>timer_service\<close>; the invariant \<open>ctrl_ok\<close> says which timers may be armed in which state.
\<close>

section \<open>The interface of the timers\<close>

locale timer_service =
  fixes arm :: "'h \<Rightarrow> 't \<Rightarrow> 'q \<Rightarrow> 'q"
    and disarm :: "'h \<Rightarrow> 'q \<Rightarrow> 'q"
    and fire :: "'q \<Rightarrow> ('h \<times> 'q) option"
    and armed :: "'q \<Rightarrow> 'h set"
    and ok :: "'q \<Rightarrow> bool"
  assumes ok_arm: "ok q \<Longrightarrow> ok (arm h t q)"
    and ok_disarm: "ok q \<Longrightarrow> ok (disarm h q)"
    and ok_fire: "ok q \<Longrightarrow> fire q = Some (h, q') \<Longrightarrow> ok q'"
    and armed_arm: "ok q \<Longrightarrow> armed (arm h t q) = insert h (armed q)"
    and armed_disarm: "ok q \<Longrightarrow> armed (disarm h q) = armed q - {h}"
    and armed_fire: "ok q \<Longrightarrow> fire q = Some (h, q') \<Longrightarrow> h \<in> armed q \<and> armed q' = armed q - {h}"
    and fire_none: "ok q \<Longrightarrow> fire q = None \<Longrightarrow> armed q = {}"
begin

text \<open>A timer that was disarmed or has fired does not fire again before it is armed again.\<close>

lemma not_armed_disarm: "ok q \<Longrightarrow> h \<notin> armed (disarm h q)"
  by (simp add: armed_disarm)

lemma fire_disarmed: "ok q \<Longrightarrow> fire (disarm h q) = Some (h', q') \<Longrightarrow> h' \<noteq> h"
  using armed_fire [OF ok_disarm] armed_disarm by fastforce

lemma fire_once: "ok q \<Longrightarrow> fire q = Some (h, q') \<Longrightarrow> fire q' \<noteq> Some (h, q'')"
  using armed_fire ok_fire by blast

lemma disarm_all:
  "ok q \<Longrightarrow> ok (fold disarm hs q) \<and> armed (fold disarm hs q) = armed q - set hs"
  by (induction hs arbitrary: q) (auto simp: ok_disarm armed_disarm)

lemma arm_all:
  "ok q \<Longrightarrow> ok (fold (\<lambda>(h, t). arm h t) hs q) \<and>
     armed (fold (\<lambda>(h, t). arm h t) hs q) = armed q \<union> fst ` set hs"
proof (induction hs arbitrary: q)
  case (Cons x hs)
  then show ?case by (cases x) (simp add: ok_arm armed_arm)
qed simp

end

section \<open>The queue of events as timers\<close>

text \<open>The daemon arms its timers with code and data 0, so that the function is the key.\<close>

definition timers_ok :: "'h time_event list \<Rightarrow> bool" where
  "timers_ok q \<longleftrightarrow> queue_ok q \<and> (\<forall>e \<in> set q. ev_code e = 0 \<and> ev_data e = 0)"

definition armed_timers :: "'h time_event list \<Rightarrow> 'h set" where
  "armed_timers q = ev_func ` set q"

definition arm_timer :: "'h \<Rightarrow> sp_time \<Rightarrow> 'h time_event list \<Rightarrow> 'h time_event list" where
  "arm_timer h t q = E_queue_list \<lparr>ev_t = t, ev_func = h, ev_code = 0, ev_data = 0\<rparr> q"

definition disarm_timer :: "'h \<Rightarrow> 'h time_event list \<Rightarrow> 'h time_event list" where
  "disarm_timer h q = snd (E_dequeue_list h 0 0 q)"

fun fire_timer :: "'h time_event list \<Rightarrow> ('h \<times> 'h time_event list) option" where
  "fire_timer [] = None"
| "fire_timer (e # q) = Some (ev_func e, q)"

lemma timers_ok_key: "timers_ok q \<Longrightarrow> e \<in> set q \<Longrightarrow> event_key e = (ev_func e, 0, 0)"
  by (simp add: timers_ok_def event_key_def)

lemma timers_ok_tail: "timers_ok (e # q) \<Longrightarrow> timers_ok q \<and> ev_func e \<notin> armed_timers q"
  by (auto simp: timers_ok_def queue_ok_def armed_timers_def event_key_def)

interpretation tq: timer_service arm_timer disarm_timer fire_timer armed_timers timers_ok
proof unfold_locales
  fix q :: "'h time_event list" and h h' :: 'h and t :: sp_time and q' :: "'h time_event list"
  assume ok: "timers_ok q"
  let ?e = "\<lparr>ev_t = t, ev_func = h, ev_code = 0, ev_data = 0\<rparr>"
  have set_arm: "set (arm_timer h t q) = insert ?e {p \<in> set q. ev_func p \<noteq> h}"
    using ok timers_ok_key [OF ok]
    by (auto simp: arm_timer_def timers_ok_def set_E_queue_list event_key_def)
  then show "timers_ok (arm_timer h t q)"
    using ok by (auto simp: timers_ok_def arm_timer_def E_queue_list_ok)
  show "armed_timers (arm_timer h t q) = insert h (armed_timers q)"
    by (auto simp: armed_timers_def set_arm)
  have set_disarm: "set (disarm_timer h q) = {p \<in> set q. ev_func p \<noteq> h}"
    using ok timers_ok_key [OF ok]
    by (auto simp: disarm_timer_def timers_ok_def queue_ok_def E_dequeue_list_spec)
  then show "timers_ok (disarm_timer h q)"
    using ok by (auto simp: timers_ok_def disarm_timer_def E_dequeue_list_ok)
  show "armed_timers (disarm_timer h q) = armed_timers q - {h}"
    by (auto simp: armed_timers_def set_disarm)
  show "armed_timers q = {}" if "fire_timer q = None"
    using that by (cases q) (auto simp: armed_timers_def)
  assume "fire_timer q = Some (h, q')"
  then obtain e where e: "q = e # q'" "h = ev_func e" by (cases q) auto
  with ok timers_ok_tail show "timers_ok q'" by blast
  show "h \<in> armed_timers q \<and> armed_timers q' = armed_timers q - {h}"
    using timers_ok_tail [of e q'] ok e by (auto simp: armed_timers_def)
qed

lemma E_queue_arm: "E_queue h 0 d s = s\<lparr>Time_queue := arm_timer h (E_add_time (Now s) d) (Time_queue s)\<rparr>"
  by (simp add: E_queue_def arm_timer_def)

lemma E_dequeue_disarm: "E_dequeue h 0 s = s\<lparr>Time_queue := disarm_timer h (Time_queue s)\<rparr>"
  by (simp add: E_dequeue_def disarm_timer_def)

section \<open>The invariant\<close>

definition control :: "memb_state \<Rightarrow> bool \<Rightarrow> handler set \<Rightarrow> bool" where
  "control st alive P \<longleftrightarrow>
     (alive \<longrightarrow> st = OP \<or> st = GATHER \<or> st = EVS) \<and>
     (st = OP \<or> st = EVS \<longrightarrow> alive) \<and>
     (Memb_token_loss_event \<in> P \<longrightarrow> alive \<or> st = FORM) \<and>
     (Gather_or_represented_event \<in> P \<longrightarrow> st = SEG) \<and>
     (Scast_alive_event \<in> P \<longrightarrow> st = SEG) \<and>
     (Shift_to_seg_event \<in> P \<longrightarrow> st = REPRESENTED) \<and>
     (Form_or_fail_event \<in> P \<longrightarrow> st = GATHER) \<and>
     (Send_join_event \<in> P \<longrightarrow> st = GATHER)"

definition ctrl_ok :: "daemon \<Rightarrow> bool" where
  "ctrl_ok s \<longleftrightarrow> timers_ok (Time_queue s) \<and> control (State s) (Token_alive s) (armed_timers (Time_queue s))"

text \<open>What leaves the control state alone.\<close>

definition quiet :: "daemon \<Rightarrow> daemon \<Rightarrow> bool" where
  "quiet s s' \<longleftrightarrow> State s' = State s \<and> Token_alive s' = Token_alive s \<and> Time_queue s' = Time_queue s"

lemma quiet_ctrl: "quiet s s' \<Longrightarrow> ctrl_ok s' = ctrl_ok s"
  by (simp add: quiet_def ctrl_ok_def)

lemma quiet_refl [simp]: "quiet s s"
  by (simp add: quiet_def)

lemma quiet_trans [trans]: "quiet s t \<Longrightarrow> quiet t u \<Longrightarrow> quiet s u"
  by (simp add: quiet_def)

lemma timer_fields:
  "Time_queue (E_queue h 0 d s) = arm_timer h (E_add_time (Now s) d) (Time_queue s)"
  "State (E_queue h 0 d s) = State s" "Token_alive (E_queue h 0 d s) = Token_alive s"
  "Time_queue (E_dequeue h 0 s) = disarm_timer h (Time_queue s)"
  "State (E_dequeue h 0 s) = State s" "Token_alive (E_dequeue h 0 s) = Token_alive s"
  by (simp_all add: E_queue_arm E_dequeue_disarm)

lemmas timer_simps = timer_fields tq.ok_arm tq.ok_disarm tq.armed_arm tq.armed_disarm

section \<open>Operations that are quiet\<close>

named_theorems quiet_ops "operations that leave the control state alone"

lemma quiet_emit [simp]: "quiet s (emit a t) = quiet s t"
  by (simp add: quiet_def emit_def)

lemma quiet_set_exist [simp]: "quiet s (set_exist e v t) = quiet s t"
  by (simp add: quiet_def set_exist_def set_packet_def)

lemma quiet_set_packet [simp]: "quiet s (set_packet e p t) = quiet s t"
  by (simp add: quiet_def set_packet_def)

lemma quiet_fold: "(\<And>x s. quiet s (f x s)) \<Longrightarrow> quiet s (fold f xs s)"
proof (induction xs arbitrary: s)
  case (Cons x xs)
  then show ?case using quiet_trans by simp blast
qed simp

lemma quiet_for_loop:
  assumes "for_loop lo hi body s = Some s'"
    and "\<And>i t r. body i t = Some (Continue r) \<Longrightarrow> quiet t r"
    and "\<And>i t r. body i t = Some (Break r) \<Longrightarrow> quiet t r"
  shows "quiet s s'"
  by (rule for_loop_invariant [where P = "quiet s", OF assms(1)]) (use assms(2,3) quiet_trans quiet_refl in blast)+

lemma quiet_Deliver_packet [quiet_ops]: "Deliver_packet e c s = Some s' \<Longrightarrow> quiet s s'"
  by (auto simp: Deliver_packet_eq quiet_def split: option.splits if_splits)

lemma quiet_deliver_and_clear [quiet_ops]: "deliver_and_clear i s = Some s' \<Longrightarrow> quiet s s'"
  by (auto simp: deliver_and_clear_def dest: quiet_Deliver_packet split: bind_splits if_splits)

lemma quiet_Last_delivered: "quiet s t \<Longrightarrow> quiet s (t\<lparr>Last_delivered := n\<rparr>)"
  by (simp add: quiet_def)

lemma quiet_reliable [quiet_ops]: "Deliver_reliable_packets i n s = Some s' \<Longrightarrow> quiet s s'"
  by (auto simp: Deliver_reliable_packets_def deliver_reliable_round_def Let_def
           dest: quiet_Deliver_packet split: if_splits elim!: quiet_for_loop)

lemma quiet_agreed [quiet_ops]: "Deliver_agreed_packets s = Some s' \<Longrightarrow> quiet s s'"
  by (auto simp: Deliver_agreed_packets_def deliver_agreed_round_def Let_def
           dest!: quiet_Deliver_packet intro!: quiet_Last_delivered
           split: if_splits bind_splits elim!: quiet_for_loop)

lemma quiet_discard_stable [quiet_ops]: "discard_stable s = Some s' \<Longrightarrow> quiet s s'"
proof -
  assume "discard_stable s = Some s'"
  then obtain t where t: "for_loop (Last_discarded s + 1) (Aru s) discard_round s = Some t"
      "quiet t s'"
    by (auto simp: discard_stable_def quiet_def split: bind_splits)
  have "quiet s t"
    by (rule quiet_for_loop [OF t(1)])
       (auto simp: discard_round_def split: if_splits dest: quiet_deliver_and_clear)
  then show ?thesis using t(2) quiet_trans by blast
qed

lemma quiet_Memb_transitional [quiet_ops]: "Memb_transitional s = Some s' \<Longrightarrow> quiet s s'"
  by (auto simp: Memb_transitional_def Let_def quiet_def split: bind_splits)

lemma quiet_Memb_commit [simp]: "quiet s (Memb_commit t) = quiet s t"
  by (simp add: quiet_def Memb_commit_def)

lemma quiet_FC_init [simp]: "quiet s (FC_init t) = quiet s t"
  by (simp add: quiet_def FC_init_def)

lemma quiet_FC_new_configuration [simp]: "quiet s (FC_new_configuration t) = quiet s t"
  by (simp add: quiet_def FC_new_configuration_def)

lemma quiet_FC_handle_message: "quiet s (FC_handle_message h b s)"
  by (simp add: quiet_def FC_handle_message_def Let_def)

lemma quiet_Prot_set_prev_proc [quiet_ops]: "Prot_set_prev_proc c s = Some s' \<Longrightarrow> quiet s s'"
  by (auto simp: Prot_set_prev_proc_def quiet_def split: bind_splits)

lemma quiet_send_frame: "send_frame s s' \<Longrightarrow> quiet s s'"
proof -
  assume "send_frame s s'"
  then obtain p q o' d c h f where "s' = s\<lparr>Packets := p, Send_pack_queue := q, out := o',
      Down_queue := d, cur_element := c, Highest_seq := h, Highest_fifo_seq := f\<rparr>"
    unfolding send_frame_def by blast
  then show ?thesis by (simp add: quiet_def)
qed

end
