(* ===== verification/ControlOps.thy ===== *)
theory ControlOps
  imports Control
begin

text \<open>
  Every operation of the daemon keeps the control invariant \<open>ctrl_ok\<close>: first the routines that
  do not touch the control state, then the shifts between the states, then the handlers.
\<close>

section \<open>Sending and answering are quiet\<close>

lemma quiet_advance_fragment: "advance_fragment frag h b s = Some (h', b', s') \<Longrightarrow> quiet s s'"
  by (auto simp: advance_fragment_def Let_def quiet_def emit_def split: if_splits prod.splits)

lemma quiet_pack_loop: "pack_loop frag h b s = Some (h', b', s') \<Longrightarrow> quiet s s'"
proof (induction frag h b s rule: pack_loop.induct)
  case (1 frag h b s)
  show ?case
  proof (cases "Down_queue s = []")
    case False
    from "1.prems" False obtain h1 b1 s1 where a: "advance_fragment frag h b s = Some (h1, b1, s1)"
      by (auto simp: pack_loop.simps [of _ _ _ s] split: option.splits prod.splits)
    note q = quiet_advance_fragment [OF a]
    from "1.prems" False a obtain fits where f: "next_fits h1 s1 = Some fits"
      by (auto simp: pack_loop.simps [of _ _ _ s] split: option.splits)
    show ?thesis
    proof (cases fits)
      case False
      with "1.prems" \<open>Down_queue s \<noteq> []\<close> a f q show ?thesis
        by (auto simp: pack_loop.simps [of _ _ _ s])
    next
      case True
      with "1.prems" \<open>Down_queue s \<noteq> []\<close> a f obtain h2 b2 at where
        ap: "append_fragment h1 b1 (dl_mess (hd (Down_queue s1)) ! cur_element s1) = Some (h2, b2, at)"
        and rest: "pack_loop (Some at) h2 b2 s1 = Some (h', b', s')"
        by (auto simp: pack_loop.simps [of _ _ _ s] split: option.splits)
      have "quiet s1 s'"
        by (rule "1.IH" [OF \<open>Down_queue s \<noteq> []\<close> a refl refl f]) (use True ap rest in simp_all)
      with q quiet_trans show ?thesis by blast
    qed
  qed (use "1.prems" in \<open>simp add: pack_loop.simps [of _ _ _ s]\<close>)
qed

lemma quiet_bcast_rel: "bcast_rel s s' \<Longrightarrow> quiet s s'"
  by (rule quiet_send_frame [OF bcast_rel_frame])

lemma quiet_send_one_packet:
  assumes "send_one_packet s = Some s'"
  shows "quiet s s'"
proof -
  define s1 where "s1 = s\<lparr>Highest_seq := Highest_seq s + 1, Highest_fifo_seq := Highest_fifo_seq s + 1\<rparr>"
  obtain head el h b s2 h' k s3 where
      pl: "pack_loop None head el s1 = Some (h, b, s2)" and
      bc: "Prot_queue_bcast (h, b) s2 = (h', k, s3)" and
      ins: "insert_new_packet h' b s3 = Some s'"
    using assms
    by (auto simp: send_one_packet_def Let_def s1_def split: list.splits if_splits prod.splits bind_splits)
  have "quiet s s1" by (simp add: s1_def quiet_def)
  moreover have "quiet s1 s2" by (rule quiet_pack_loop [OF pl])
  moreover have "quiet s2 s3" by (rule quiet_bcast_rel [OF Prot_queue_bcast_spec(1) [OF bc]])
  moreover have "quiet s3 s'" using ins by (auto simp: insert_new_packet_def Let_def split: if_splits)
  ultimately show ?thesis using quiet_trans by blast
qed

lemma quiet_send_packets: "send_packets k s = Some (n, s') \<Longrightarrow> quiet s s'"
proof (induction k arbitrary: s n)
  case (Suc k)
  show ?case
  proof (cases "Down_queue s = []")
    case False
    with Suc.prems obtain t m where "send_one_packet s = Some t" "send_packets k t = Some (m, s')"
      by (auto split: bind_splits)
    with Suc.IH quiet_send_one_packet quiet_trans show ?thesis by blast
  qed (use Suc.prems in simp)
qed simp

lemma quiet_Send_new_packets: "Send_new_packets k s = Some (n, s') \<Longrightarrow> quiet s s'"
  unfolding Send_new_packets_def by (rule quiet_send_packets)

lemma quiet_answer_seqs: "answer_seqs r is (n, pid, seg, s) = Some (n', pid', seg', s') \<Longrightarrow> quiet s s'"
proof (induction "is" arbitrary: n pid seg s)
  case (Cons i "is")
  show ?case
  proof (cases "exist_at s i \<noteq> 0")
    case True
    with Cons.prems Cons.IH have "quiet (resend r i s) s'" by (auto split: if_splits)
    then show ?thesis by (auto simp: resend_def Let_def quiet_def emit_def)
  next
    case False
    with Cons.prems Cons.IH show ?thesis by (auto split: if_splits)
  qed
qed simp

lemma quiet_answer_requests: "answer_requests rs x = Some (kept, y) \<Longrightarrow> quiet (snd (snd (snd x))) (snd (snd (snd y)))"
proof (induction rs arbitrary: x kept)
  case (Cons r rs)
  obtain n pid seg s where x: "x = (n, pid, seg, s)" by (cases x) auto
  show ?case
  proof (cases "Memb_is_equal (rr_memb_id r) (Membership_id s)")
    case True
    with Cons.prems x obtain z where z: "answer_seqs r (rr_seqs r) x = Some z" "answer_requests rs z = Some (kept, y)"
      by (auto split: option.splits)
    obtain n' pid' seg' s' where z': "z = (n', pid', seg', s')" by (cases z) auto
    have "quiet s s'" using z(1) unfolding x z' by (rule quiet_answer_seqs)
    with Cons.IH [OF z(2)] quiet_trans show ?thesis by (simp add: x z' quiet_def)
  next
    case False
    with Cons.prems x obtain kept' where "answer_requests rs x = Some (kept', y)" by auto
    with Cons.IH show ?thesis by blast
  qed
qed simp

lemma quiet_Answer_retrans: "Answer_retrans rtr s = Some (kept, n, pid, seg, s') \<Longrightarrow> quiet s s'"
  unfolding Answer_retrans_def by (drule quiet_answer_requests) simp

lemma quiet_priority: "token_priority_up s = Some s' \<Longrightarrow> quiet s s'"
  "token_priority_down s = Some s' \<Longrightarrow> quiet s s'"
  by (auto simp: token_priority_up_def token_priority_down_def quiet_def split: bind_splits)

lemma quiet_forget_packets: "forget_packets is s = Some s' \<Longrightarrow> quiet s s'"
proof (induction "is" arbitrary: s)
  case (Cons i "is")
  then have "quiet s s' \<or> quiet (set_exist (pack_entry i) 0 s) s'" by (auto split: if_splits)
  then show ?case by (auto simp: quiet_def set_exist_def set_packet_def)
qed simp

lemma quiet_mark_holes: "mark_holes is s = Some s' \<Longrightarrow> quiet s s'"
proof (induction "is" arbitrary: s)
  case (Cons i "is")
  then have "quiet (set_exist (pack_entry i) 3 s) s'" by (auto split: if_splits)
  then show ?case by (auto simp: quiet_def set_exist_def set_packet_def)
qed simp

lemma quiet_restore_aru: "restore_aru s = Some s' \<Longrightarrow> quiet s s'"
  by (auto simp: restore_aru_def quiet_def split: bind_splits if_splits)

section \<open>Shifts between the states\<close>

lemma control_simps [simp]:
  "control OP True P \<longleftrightarrow> P \<inter> {Gather_or_represented_event, Scast_alive_event, Shift_to_seg_event,
     Form_or_fail_event, Send_join_event} = {}"
  "control OP False P \<longleftrightarrow> False"
  "control SEG a P \<longleftrightarrow> \<not> a \<and> P \<inter> {Memb_token_loss_event, Shift_to_seg_event, Form_or_fail_event, Send_join_event} = {}"
  "control REPRESENTED a P \<longleftrightarrow> \<not> a \<and> P \<inter> {Memb_token_loss_event, Gather_or_represented_event,
     Scast_alive_event, Form_or_fail_event, Send_join_event} = {}"
  "control GATHER a P \<longleftrightarrow> (Memb_token_loss_event \<in> P \<longrightarrow> a) \<and>
     P \<inter> {Gather_or_represented_event, Scast_alive_event, Shift_to_seg_event} = {}"
  "control FORM a P \<longleftrightarrow> \<not> a \<and> P \<inter> {Gather_or_represented_event, Scast_alive_event,
     Shift_to_seg_event, Form_or_fail_event, Send_join_event} = {}"
  "control EVS True P \<longleftrightarrow> P \<inter> {Gather_or_represented_event, Scast_alive_event, Shift_to_seg_event,
     Form_or_fail_event, Send_join_event} = {}"
  "control EVS False P \<longleftrightarrow> False"
  by (auto simp: control_def)

lemma ctrl_ok_token: "ctrl_ok s \<Longrightarrow> State s = OP \<or> State s = EVS \<Longrightarrow> Token_alive s"
  by (auto simp: ctrl_ok_def control_def)

lemma ctrl_Shift_to_op:
  "timers_ok (Time_queue s) \<Longrightarrow> control OP (Token_alive s) (armed_timers (Time_queue s)) \<Longrightarrow> ctrl_ok (Shift_to_op s)"
  by (cases "Token_alive s") (auto simp: Shift_to_op_def ctrl_ok_def timer_simps Let_def)

lemma ctrl_Shift_to_seg:
  "timers_ok (Time_queue s) \<Longrightarrow> \<not> Token_alive s \<Longrightarrow>
   armed_timers (Time_queue s) \<inter> {Memb_token_loss_event, Shift_to_seg_event, Form_or_fail_event, Send_join_event} = {} \<Longrightarrow>
   ctrl_ok (Shift_to_seg s)"
  by (auto simp: Shift_to_seg_def ctrl_ok_def timer_simps Let_def)

lemma ctrl_Shift_to_gather:
  "timers_ok (Time_queue s) \<Longrightarrow> (Memb_token_loss_event \<in> armed_timers (Time_queue s) \<longrightarrow> Token_alive s) \<Longrightarrow>
   armed_timers (Time_queue s) \<inter> {Gather_or_represented_event, Shift_to_seg_event} = {} \<Longrightarrow>
   ctrl_ok (Shift_to_gather s)"
  by (auto simp: Shift_to_gather_def ctrl_ok_def timer_simps Let_def)

lemma ctrl_Shift_to_represented:
  "timers_ok (Time_queue s) \<Longrightarrow> \<not> Token_alive s \<Longrightarrow>
   armed_timers (Time_queue s) \<inter> {Memb_token_loss_event, Form_or_fail_event, Send_join_event} = {} \<Longrightarrow>
   ctrl_ok (Shift_to_represented s)"
  by (auto simp: Shift_to_represented_def ctrl_ok_def timer_simps Let_def)

text \<open>The delivery threshold only arms and disarms the two delivery timers.\<close>

definition delivery_timers_only :: "daemon \<Rightarrow> daemon \<Rightarrow> bool" where
  "delivery_timers_only s s' \<longleftrightarrow>
     State s' = State s \<and> Token_alive s' = Token_alive s \<and>
     (timers_ok (Time_queue s) \<longrightarrow> timers_ok (Time_queue s') \<and>
        armed_timers (Time_queue s') - {Deliver_all_reliable_packets_event, Deliver_agreed_packets_event} =
        armed_timers (Time_queue s) - {Deliver_all_reliable_packets_event, Deliver_agreed_packets_event})"

lemma delivery_timers_onlyI:
  "delivery_timers_only s (s\<lparr>Prot_delivery_threshold := t\<rparr>)"
  "delivery_timers_only s x \<Longrightarrow> delivery_timers_only s (E_queue Deliver_all_reliable_packets_event 0 d x)"
  "delivery_timers_only s x \<Longrightarrow> delivery_timers_only s (E_queue Deliver_agreed_packets_event 0 d x)"
  "delivery_timers_only s x \<Longrightarrow> delivery_timers_only s (E_dequeue Deliver_all_reliable_packets_event 0 x)"
  "delivery_timers_only s x \<Longrightarrow> delivery_timers_only s (E_dequeue Deliver_agreed_packets_event 0 x)"
  by (auto simp: delivery_timers_only_def timer_simps)

lemma if_intro: "(b \<Longrightarrow> P x) \<Longrightarrow> (\<not> b \<Longrightarrow> P y) \<Longrightarrow> P (if b then x else y)"
  by simp

lemma threshold_delivery_timers:
  assumes "Prot_set_delivery_threshold t s = Some s'"
  shows "delivery_timers_only s s'"
proof (cases "t \<notin> {UNRELIABLE_TYPE, RELIABLE_TYPE, FIFO_TYPE, AGREED_TYPE, SAFE_TYPE, BLOCK_REGULAR_DELIVERY}")
  case True
  with assms show ?thesis unfolding Prot_set_delivery_threshold_def if_P [OF True] by simp
next
  case False
  note eq = assms [unfolded Prot_set_delivery_threshold_def if_not_P [OF False] Let_def option.inject]
  show ?thesis
    unfolding eq [symmetric]
    by (rule delivery_timers_onlyI if_intro [where P = "delivery_timers_only s"])+
qed

lemma threshold_control:
  assumes "Prot_set_delivery_threshold t s = Some s'" "timers_ok (Time_queue s)"
  shows "State s' = State s" "Token_alive s' = Token_alive s" "timers_ok (Time_queue s')"
    "armed_timers (Time_queue s') - {Deliver_all_reliable_packets_event, Deliver_agreed_packets_event} =
     armed_timers (Time_queue s) - {Deliver_all_reliable_packets_event, Deliver_agreed_packets_event}"
  using threshold_delivery_timers [OF assms(1)] assms(2) by (simp_all add: delivery_timers_only_def)

lemma control_delivery_timers:
  "P - {Deliver_all_reliable_packets_event, Deliver_agreed_packets_event} =
   Q - {Deliver_all_reliable_packets_event, Deliver_agreed_packets_event} \<Longrightarrow>
   control st a P = control st a Q"
proof -
  assume eq: "P - {Deliver_all_reliable_packets_event, Deliver_agreed_packets_event} =
    Q - {Deliver_all_reliable_packets_event, Deliver_agreed_packets_event}"
  have "h \<in> P \<longleftrightarrow> h \<in> Q" if "h \<noteq> Deliver_all_reliable_packets_event" "h \<noteq> Deliver_agreed_packets_event" for h
    using eq that by blast
  then show ?thesis by (simp add: control_def)
qed

lemma ctrl_threshold: "Prot_set_delivery_threshold t s = Some s' \<Longrightarrow> ctrl_ok s \<Longrightarrow> ctrl_ok s'"
proof -
  assume a: "Prot_set_delivery_threshold t s = Some s'" "ctrl_ok s"
  then have ok: "timers_ok (Time_queue s)" by (simp add: ctrl_ok_def)
  note c = threshold_control [OF a(1) ok]
  show ?thesis
    using a(2) c(1-3) control_delivery_timers [OF c(4)] by (simp add: ctrl_ok_def)
qed

end
