(* ===== verification/ControlHandlers.thy ===== *)
theory ControlHandlers
  imports ControlOps
begin

text \<open>
  The handlers of messages, tokens and timers keep the control invariant, whatever arrives.
\<close>

lemma control_insert [simp]:
  "h \<notin> {Memb_token_loss_event, Gather_or_represented_event, Scast_alive_event, Shift_to_seg_event,
     Form_or_fail_event, Send_join_event} \<Longrightarrow> control st a (insert h P) = control st a P"
  by (auto simp: control_def)

lemma ctrl_E_queue:
  "ctrl_ok s \<Longrightarrow> h \<notin> {Memb_token_loss_event, Gather_or_represented_event, Scast_alive_event,
     Shift_to_seg_event, Form_or_fail_event, Send_join_event} \<Longrightarrow> ctrl_ok (E_queue h 0 d s)"
  by (simp add: ctrl_ok_def timer_simps del: insert_iff)

lemma ctrl_E_queue_loss:
  "ctrl_ok s \<Longrightarrow> Token_alive s \<or> State s = FORM \<Longrightarrow> ctrl_ok (E_queue Memb_token_loss_event 0 d s)"
  by (auto simp: ctrl_ok_def timer_simps control_def)

lemma ctrl_E_dequeue: "ctrl_ok s \<Longrightarrow> ctrl_ok (E_dequeue h 0 s)"
  by (auto simp: ctrl_ok_def timer_simps control_def)

lemma ctrl_emit [simp]: "ctrl_ok (emit a s) = ctrl_ok s"
  by (simp add: ctrl_ok_def emit_def)

lemma quietD: "quiet s s' \<Longrightarrow> ctrl_ok s \<Longrightarrow> ctrl_ok s'" "quiet s s' \<Longrightarrow> State s' = State s"
  by (simp_all add: quiet_def ctrl_ok_def)

text \<open>In which states a timer can be armed.\<close>

lemma ctrl_armed:
  assumes "ctrl_ok s"
  shows "timers_ok (Time_queue s)"
    "Memb_token_loss_event \<in> armed_timers (Time_queue s) \<Longrightarrow> Token_alive s \<or> State s = FORM"
    "Gather_or_represented_event \<in> armed_timers (Time_queue s) \<Longrightarrow> State s = SEG"
    "Scast_alive_event \<in> armed_timers (Time_queue s) \<Longrightarrow> State s = SEG"
    "Shift_to_seg_event \<in> armed_timers (Time_queue s) \<Longrightarrow> State s = REPRESENTED"
    "Form_or_fail_event \<in> armed_timers (Time_queue s) \<Longrightarrow> State s = GATHER"
    "Send_join_event \<in> armed_timers (Time_queue s) \<Longrightarrow> State s = GATHER"
    "Token_alive s \<Longrightarrow> State s = OP \<or> State s = GATHER \<or> State s = EVS"
    "State s = OP \<or> State s = EVS \<Longrightarrow> Token_alive s"
  using assms unfolding ctrl_ok_def control_def by blast+

section \<open>Losing the token\<close>

lemma quiet_Backoff: "quiet s (Backoff_membership s)"
proof -
  have "quiet s (clear_dummies s)"
    unfolding clear_dummies_def by (rule quiet_fold) simp
  then show ?thesis by (simp add: Backoff_membership_def Let_def quiet_def)
qed

lemma quiet_token_loss_potentials:
  assumes "token_loss_potentials s = Some s'"
  shows "quiet s s'" "State s \<noteq> SEG" "State s \<noteq> REPRESENTED" "State s = GATHER \<Longrightarrow> Token_alive s"
proof -
  have "quiet s s' \<and> State s \<noteq> SEG \<and> State s \<noteq> REPRESENTED \<and> (State s = GATHER \<longrightarrow> Token_alive s)"
    using assms quiet_Backoff [of s]
    by (cases "State s") (auto simp: token_loss_potentials_def quiet_def Let_def split: bind_splits if_splits)
  then show "quiet s s'" "State s \<noteq> SEG" "State s \<noteq> REPRESENTED" "State s = GATHER \<Longrightarrow> Token_alive s"
    by auto
qed

lemma ctrl_Memb_token_loss:
  assumes "Memb_token_loss s = Some s'"
    and ok: "timers_ok (Time_queue s)" "Gather_or_represented_event \<notin> armed_timers (Time_queue s)"
      "Scast_alive_event \<notin> armed_timers (Time_queue s)" "Shift_to_seg_event \<notin> armed_timers (Time_queue s)"
  shows "ctrl_ok s'"
proof -
  obtain t u where t: "token_loss_potentials s = Some t"
      and u: "Prot_set_delivery_threshold BLOCK_REGULAR_DELIVERY (t\<lparr>Token_alive := False\<rparr>) = Some u"
      and s': "s' = Shift_to_seg (let s = u\<lparr>Memb_Just_Installed := False\<rparr>;
         s = E_dequeue Memb_token_loss_event 0 s; s = E_dequeue Send_join_event 0 s;
         s = E_dequeue Form_or_fail_event 0 s; s = E_dequeue Prot_token_hurry_event 0 s;
         s = E_dequeue Memb_lookup_new_members_event 0 s;
         s = s\<lparr>Last_token := forget_token (Last_token s)\<rparr>
        in s\<lparr>Membership := singleton_ring (Membership s) s\<rparr>)"
    using assms(1) by (auto simp: Memb_token_loss_def Let_def split: bind_splits)
  have q: "Time_queue t = Time_queue s" using quiet_token_loss_potentials(1) [OF t] by (simp add: quiet_def)
  have "timers_ok (Time_queue (t\<lparr>Token_alive := False\<rparr>))" using ok(1) q by simp
  note th = threshold_control [OF u this]
  have "Shift_to_seg_event \<notin> armed_timers (Time_queue u)" using th(4) ok(4) q by auto
  then show ?thesis
    unfolding s' Let_def using th(2,3)
    by (intro ctrl_Shift_to_seg) (auto simp: timer_simps)
qed

lemma ctrl_lose_token:
  "Memb_token_loss s = Some s' \<Longrightarrow> ctrl_ok s \<Longrightarrow> ctrl_ok s'"
proof -
  assume a: "Memb_token_loss s = Some s'" "ctrl_ok s"
  then obtain t where t: "token_loss_potentials s = Some t" by (auto simp: Memb_token_loss_def split: bind_splits)
  note st = quiet_token_loss_potentials(2-4) [OF t]
  show ?thesis
    by (rule ctrl_Memb_token_loss [OF a(1)]) (use ctrl_armed [OF a(2)] st in auto)
qed

section \<open>Installing a ring\<close>

lemma quiet_before: "for_loop lo hi evs_before_round s = Some s' \<Longrightarrow> quiet s s'"
  by (rule quiet_for_loop)
     (auto simp: evs_before_round_def quiet_def split: if_splits bind_splits dest!: quiet_deliver_and_clear)

lemma quiet_after:
  assumes "for_loop lo hi evs_after_round (f, s) = Some (f', s')"
  shows "quiet s s'"
proof -
  have "quiet s (snd (f', s'))"
    by (rule for_loop_invariant [where P = "\<lambda>fs. quiet s (snd fs)", OF assms])
       (auto simp: evs_after_round_def split: if_splits
          dest!: quiet_deliver_and_clear intro: quiet_trans)
  then show ?thesis by simp
qed

lemma ctrl_Memb_regular:
  "Memb_regular s = Some s' \<Longrightarrow> ctrl_ok s \<Longrightarrow> State s = EVS \<Longrightarrow> ctrl_ok s' \<and> State s' = OP"
  by (cases "Token_alive s")
     (auto simp: Memb_regular_def Shift_to_op_def ctrl_ok_def timer_simps Let_def split: bind_splits if_splits)

lemma ctrl_evs_reset: "evs_reset s = Some s' \<Longrightarrow> ctrl_ok s \<Longrightarrow> ctrl_ok s'"
proof -
  assume a: "evs_reset s = Some s'" "ctrl_ok s"
  have r: "ctrl_ok (E_queue Memb_lookup_new_members_event 0 Zero_timeout (emit Net_clear_partition s))"
    by (rule ctrl_E_queue) (use a(2) in simp_all)
  with a show ?thesis by (auto simp: evs_reset_def ctrl_ok_def Let_def split: bind_splits if_splits)
qed

lemma ctrl_evs_install: "evs_install s = Some s' \<Longrightarrow> ctrl_ok s \<Longrightarrow> State s = EVS \<Longrightarrow> ctrl_ok s'"
proof -
  assume a: "evs_install s = Some s'" "ctrl_ok s" "State s = EVS"
  then obtain s1 s2 f s3 s5 where
      l1: "for_loop (Last_discarded s + 1) (Highest_seq s) evs_before_round s = Some s1" and
      tr: "Memb_transitional s1 = Some s2" and
      l2: "for_loop (Last_discarded s2 + 1) (Highest_seq s2) evs_after_round
             (False, emit (Sess_deliver_trans_memb (Trans_membership s2) (Trans_memb_id s2)) s2) = Some (f, s3)" and
      rg: "Memb_regular (evs_clear_queues s3) = Some s5" and
      rs: "evs_reset (emit (Sess_deliver_reg_memb (Reg_membership s5) (Membership_id s5)) s5) = Some s'"
    by (auto simp: evs_install_def Let_def emit_def split: bind_splits if_splits)
  define s4 where "s4 = evs_clear_queues s3"
  have q4: "quiet s s4"
    using quiet_before [OF l1] quiet_Memb_transitional [OF tr] quiet_after [OF l2]
    by (simp add: quiet_def emit_def s4_def evs_clear_queues_def)
  then have "ctrl_ok s4" "State s4 = EVS" using a(2,3) q4 by (simp_all add: quiet_def ctrl_ok_def)
  with ctrl_Memb_regular [OF rg] have "ctrl_ok s5" by (simp add: s4_def)
  then have "ctrl_ok (emit (Sess_deliver_reg_memb (Reg_membership s5) (Membership_id s5)) s5)"
    by simp
  with ctrl_evs_reset [OF rs] show ?thesis by blast
qed

lemma Discard_packets_quiet: "Discard_packets s = Some s' \<Longrightarrow> State s \<noteq> EVS \<Longrightarrow> quiet s s'"
  by (auto simp: Discard_packets_def split: if_splits dest: quiet_discard_stable)

lemma ctrl_Discard_packets: "Discard_packets s = Some s' \<Longrightarrow> ctrl_ok s \<Longrightarrow> ctrl_ok s'"
  using Discard_packets_quiet [of s s'] quiet_ctrl [of s s'] ctrl_evs_install [of s s']
  by (cases "State s = EVS") (auto simp: Discard_packets_def split: if_splits)

section \<open>Tokens of the membership protocol\<close>

lemma quiet_send_twice [simp]: "quiet s (send_twice i m t) = quiet s t"
  by (simp add: send_twice_def)

lemma quiet_create_form1_token: "create_form1_token s = Some (h, rings, s') \<Longrightarrow> quiet s s'"
  by (auto simp: create_form1_token_def Let_def quiet_def split: bind_splits if_splits)

lemma quiet_send_form1: "quiet s (send_form1 h rings s)"
  by (simp add: send_form1_def Let_def) (simp add: quiet_def)

text \<open>The end of both form1 routines: the daemon waits in FORM without a token.\<close>

lemma ctrl_enter_form:
  assumes "Prot_set_delivery_threshold t (s\<lparr>Token_alive := False\<rparr>) = Some u" "timers_ok (Time_queue s)"
    and "armed_timers (Time_queue s) \<inter> {Gather_or_represented_event, Scast_alive_event, Shift_to_seg_event,
           Form_or_fail_event, Send_join_event} = {}"
  shows "ctrl_ok (u\<lparr>State := FORM\<rparr>)"
proof -
  note th = threshold_control [OF assms(1)]
  have "armed_timers (Time_queue u) \<inter> {Gather_or_represented_event, Scast_alive_event, Shift_to_seg_event,
      Form_or_fail_event, Send_join_event} = {}"
    using th(4) assms(2,3) by auto
  then show ?thesis using th(2,3) assms(2) by (simp add: ctrl_ok_def)
qed

lemma ctrl_Create_form1:
  assumes "Create_form1 s = Some s'" "ctrl_ok s" "State s = GATHER"
    and "Form_or_fail_event \<notin> armed_timers (Time_queue s)"
  shows "ctrl_ok s'"
proof -
  obtain h rings t where t: "create_form1_token s = Some (h, rings, t)"
      "after_create_form1 (send_form1 h rings t) = Some s'"
    using assms(1) by (auto simp: Create_form1_def split: bind_splits)
  let ?u = "send_form1 h rings t"
  have "quiet s ?u" using quiet_create_form1_token [OF t(1)] quiet_send_form1 quiet_trans by blast
  then have q: "Time_queue ?u = Time_queue s" by (simp add: quiet_def)
  let ?v = "E_dequeue Prot_token_hurry_event 0
      (let s = E_dequeue Send_join_event 0 ?u in E_queue Memb_token_loss_event 0 (Timeout s FormT) s)"
  obtain w where w: "Prot_set_delivery_threshold BLOCK_REGULAR_DELIVERY (?v\<lparr>Token_alive := False\<rparr>) = Some w"
      "s' = w\<lparr>State := FORM\<rparr>"
    using t(2) by (auto simp: after_create_form1_def Let_def)
  show ?thesis unfolding w(2)
    by (rule ctrl_enter_form [OF w(1)])
       (use assms(2-4) q in \<open>auto simp: ctrl_ok_def timer_simps Let_def\<close>)
qed

lemma quiet_fill_members: "fill_members m r s = Some (Some (m', r', s')) \<Longrightarrow> quiet s s'"
  by (auto simp: fill_members_def Let_def quiet_def split: if_splits)

lemma fill_members_state:
  "fill_members m r s = Some (Some (m', r', s')) \<Longrightarrow> State s = OP \<or> State s = REPRESENTED \<or> State s = GATHER"
  by (auto simp: fill_members_def split: if_splits)

lemma quiet_send_filled: "send_filled h m r rings s = Some s' \<Longrightarrow> quiet s s'"
  by (auto simp: send_filled_def Let_def split: if_splits bind_splits)

lemma ctrl_after_form1:
  assumes "after_form1 s = Some s'" "ctrl_ok s" "State s = OP \<or> State s = REPRESENTED \<or> State s = GATHER"
  shows "ctrl_ok s'"
proof -
  let ?t = "E_dequeue Shift_to_seg_event 0 (E_dequeue Form_or_fail_event 0 (E_dequeue Send_join_event 0 s))"
  let ?v = "E_dequeue Prot_token_hurry_event 0 (E_queue Memb_token_loss_event 0 (Timeout ?t FormT) ?t)"
  obtain w where w: "Prot_set_delivery_threshold BLOCK_REGULAR_DELIVERY (?v\<lparr>Token_alive := False\<rparr>) = Some w"
      "s' = w\<lparr>State := FORM\<rparr>"
    using assms(1) by (auto simp: after_form1_def Let_def)
  have "State s \<noteq> SEG" using assms(3) by auto
  then have "timers_ok (Time_queue s)" "Gather_or_represented_event \<notin> armed_timers (Time_queue s)"
      "Scast_alive_event \<notin> armed_timers (Time_queue s)"
    using ctrl_armed [OF assms(2)] by auto
  moreover define t where "t = ?t"
  ultimately have "timers_ok (Time_queue t)"
      "armed_timers (Time_queue t) \<inter> {Gather_or_represented_event, Scast_alive_event, Shift_to_seg_event,
           Form_or_fail_event, Send_join_event} = {}"
    by (auto simp: timer_simps)
  then have "timers_ok (Time_queue ?v)"
      "armed_timers (Time_queue ?v) \<inter> {Gather_or_represented_event, Scast_alive_event, Shift_to_seg_event,
           Form_or_fail_event, Send_join_event} = {}"
    unfolding t_def [symmetric] by (auto simp: timer_simps)
  then show ?thesis unfolding w(2) by (rule ctrl_enter_form [OF w(1)])
qed

lemma ctrl_Fill_form1:
  assumes "Fill_form1 h b s = Some s'" "ctrl_ok s"
  shows "ctrl_ok s'"
proof (cases "s' = s")
  case False
  then obtain m r m' r' t x y h' m'' rings' v where
      t: "fill_members m r s = Some (Some (m', r', t))" and
      v: "send_filled h' m'' r' rings' (t\<lparr>Form1_memb_id := x, Potential_reps := y\<rparr>) = Some v" and
      s': "after_form1 v = Some s'"
    using assms(1)
    by (auto simp: Fill_form1_def Let_def split: option.splits bind_splits)
  have q: "quiet s v"
    using quiet_fill_members [OF t] quiet_send_filled [OF v] by (simp add: quiet_def)
  have "ctrl_ok v" by (rule quietD(1) [OF q assms(2)])
  moreover have "State v = OP \<or> State v = REPRESENTED \<or> State v = GATHER"
    unfolding quietD(2) [OF q] by (rule fill_members_state [OF t])
  ultimately show ?thesis by (rule ctrl_after_form1 [OF s'])
qed (use assms in simp)

lemma quiet_settle_old_ring:
  assumes "settle_old_ring g s = Some s'" "State s \<noteq> EVS"
  shows "quiet s s'"
proof -
  obtain t v w x c a where t: "forget_packets (rev [ri_highest_seq g + 1..Highest_seq s]) s = Some t" and
      v: "Discard_packets (t\<lparr>My_aru := a, Highest_seq := ri_highest_seq g, Aru := ri_aru g\<rparr>) = Some v" and
      w: "mark_holes (ri_holes g) v = Some w" and x: "restore_aru w = Some x" and
      s': "s' = x\<lparr>Future_commit_set := c\<rparr>"
    using assms(1) by (auto simp: settle_old_ring_def Let_def split: bind_splits)
  note qt = quiet_forget_packets [OF t]
  have "quiet (t\<lparr>My_aru := a, Highest_seq := ri_highest_seq g, Aru := ri_aru g\<rparr>) v"
    by (rule Discard_packets_quiet [OF v]) (use qt assms(2) in \<open>simp add: quiet_def\<close>)
  with qt quiet_mark_holes [OF w] quiet_restore_aru [OF x] s' show ?thesis by (simp add: quiet_def)
qed

lemma ctrl_enter_evs: "ctrl_ok s \<Longrightarrow> State s = FORM \<Longrightarrow> ctrl_ok (enter_evs s)"
  by (auto simp: enter_evs_def ctrl_ok_def timer_simps Let_def)

lemma form2_memb_id_shape:
  "form2_memb_id m mid s = (tm, mid', s') \<Longrightarrow> \<exists>l. s' = s\<lparr>Last_time_used := l\<rparr>"
  by (cases "num_members m = 1")
     (auto simp: form2_memb_id_def Let_def intro: exI [of _ "Last_time_used s"])

lemma form2_trans_time_shape:
  "form2_trans_time g tm s = (t, s') \<Longrightarrow> \<exists>i j. s' = s\<lparr>Last_time_used := i, F_trans_memb_time := j\<rparr>"
proof -
  assume "form2_trans_time g tm s = (t, s')"
  then have "s' = s\<lparr>Last_time_used := Last_time_used s', F_trans_memb_time := F_trans_memb_time s'\<rparr>"
    by (auto simp: form2_trans_time_def Let_def split: if_splits)
  then show ?thesis by blast
qed

lemma accept_form2_parts:
  assumes "accept_form2 h b s = Some s'"
  shows "\<exists>n l mid c t2 g t3 i j h' b' t5.
     Prot_set_prev_proc c (emit (Net_set_membership c) (s\<lparr>Last_seq := n, Last_time_used := l,
             Future_membership_id := mid, Future_membership := c\<rparr>)) = Some t2 \<and>
     settle_old_ring g (FC_new_configuration t2) = Some t3 \<and>
     send_form2 h' b' (t3\<lparr>Last_time_used := i, F_trans_memb_time := j\<rparr>) = Some t5 \<and>
     s' = enter_evs t5"
proof -
  define k where "k = my_ring_index (fm_rings b) s"
  define g where "g = fm_rings b ! nat k"
  define m where "m = (fm_members b)\<lparr>num_members := num_members (fm_members b) + 1,
                                num_pending := num_pending (fm_members b) - 1\<rparr>"
  define h1 where "h1 = h\<lparr>th_proc_id := p_id (My s)\<rparr>"
  obtain tm mid s1 where e1: "form2_memb_id m (fm_memb_id b) (s\<lparr>Last_seq := th_seq h\<rparr>) = (tm, mid, s1)"
    by (cases "form2_memb_id m (fm_memb_id b) (s\<lparr>Last_seq := th_seq h\<rparr>)") auto
  obtain c t2 t3 tt s4 b' t5 where
      p: "Prot_set_prev_proc c (emit (Net_set_membership c)
            (s1\<lparr>Future_membership_id := mid, Future_membership := c\<rparr>)) = Some t2"
         "settle_old_ring g (FC_new_configuration t2) = Some t3"
         "form2_trans_time g tm t3 = (tt, s4)" "send_form2 h1 b' s4 = Some t5" "s' = enter_evs t5"
    using assms unfolding accept_form2_def Let_def k_def [symmetric] g_def [symmetric] m_def [symmetric] h1_def [symmetric]
    using e1 by (auto simp: h1_def k_def g_def split: bind_splits prod.splits)
  obtain l where l: "s1 = s\<lparr>Last_seq := th_seq h, Last_time_used := l\<rparr>"
    using form2_memb_id_shape [OF e1] by auto
  obtain i j where ij: "s4 = t3\<lparr>Last_time_used := i, F_trans_memb_time := j\<rparr>"
    using form2_trans_time_shape [OF p(3)] by auto
  show ?thesis
    by (rule exI [of _ "th_seq h"], rule exI [of _ l], rule exI [of _ mid], rule exI [of _ c],
        rule exI [of _ t2], rule exI [of _ g], rule exI [of _ t3], rule exI [of _ i], rule exI [of _ j],
        rule exI [of _ h1], rule exI [of _ b'], rule exI [of _ t5])
       (use p(1,2,4,5) in \<open>simp add: l ij\<close>)
qed

lemma ctrl_accept_form2:
  assumes "accept_form2 h b s = Some s'" "ctrl_ok s" "State s = FORM"
  shows "ctrl_ok s'"
proof -
  obtain n i l mid c t2 g t3 h' b' j t5 where
      t2: "Prot_set_prev_proc c (emit (Net_set_membership c) (s\<lparr>Last_seq := n, Last_time_used := l,
             Future_membership_id := mid, Future_membership := c\<rparr>)) = Some t2" and
      t3: "settle_old_ring g (FC_new_configuration t2) = Some t3" and
      t5: "send_form2 h' b' (t3\<lparr>Last_time_used := i, F_trans_memb_time := j\<rparr>) = Some t5" and
      s': "s' = enter_evs t5"
    using accept_form2_parts [OF assms(1)] by (elim exE conjE) rule
  define t1 where "t1 = emit (Net_set_membership c) (s\<lparr>Last_seq := n, Last_time_used := l,
             Future_membership_id := mid, Future_membership := c\<rparr>)"
  have t1: "quiet s t1" by (simp add: t1_def) (simp add: quiet_def)
  define t4 where "t4 = t3\<lparr>Last_time_used := i, F_trans_memb_time := j\<rparr>"
  have t4: "quiet t3 t4" by (simp add: t4_def quiet_def)
  note t2 = t2 [folded t1_def] and t5 = t5 [folded t4_def]
  have q2: "quiet s t2" using t1 quiet_Prot_set_prev_proc [OF t2] quiet_trans by blast
  then have "State (FC_new_configuration t2) \<noteq> EVS"
    using assms(3) by (simp add: quiet_def FC_new_configuration_def)
  then have "quiet (FC_new_configuration t2) t3" by (rule quiet_settle_old_ring [OF t3])
  then have "quiet t2 t3" by (simp add: quiet_def FC_new_configuration_def)
  moreover have "quiet t4 t5" using t5 by (auto simp: send_form2_def Let_def quiet_def emit_def split: bind_splits)
  ultimately have "quiet s t5" using q2 t4 quiet_trans by blast
  then have "ctrl_ok t5" "State t5 = FORM" using quietD [of s t5] assms(2,3) by simp_all
  then show ?thesis unfolding s' by (rule ctrl_enter_evs)
qed

lemma ctrl_Memb_handle_token:
  "Memb_handle_token a b h body s = Some s' \<Longrightarrow> ctrl_ok s \<Longrightarrow> ctrl_ok s'"
  by (auto simp: Memb_handle_token_def Memb_handle_form1_def Memb_handle_form2_def Read_form2_def Let_def
        split: if_splits memb_state.splits bind_splits dest: ctrl_Fill_form1 ctrl_accept_form2)

end
