(* ===== verification/ControlSteps.thy ===== *)
theory ControlSteps
  imports ControlHandlers
begin

text \<open>
  The rest of the handlers keep the control invariant: the messages of the membership protocol,
  regular packets and tokens, and the functions that the timers run.
\<close>

section \<open>Messages of the membership protocol\<close>

lemma ctrl_frame:
  "State s' = State s \<Longrightarrow> Token_alive s' = Token_alive s \<Longrightarrow> Time_queue s' = Time_queue s \<Longrightarrow>
   ctrl_ok s' = ctrl_ok s"
  by (simp add: ctrl_ok_def)

lemma quiet_add_F_member [simp]: "quiet s (add_F_member i t) = quiet s t"
  by (simp add: add_F_member_def quiet_def)

lemma ctrl_add_F_member [simp]: "ctrl_ok (add_F_member i s) = ctrl_ok s"
  by (simp add: add_F_member_def ctrl_ok_def)

lemma ctrl_lose_token_with: "lose_token_with h s = Some s' \<Longrightarrow> ctrl_ok s \<Longrightarrow> ctrl_ok s'"
  by (auto simp: lose_token_with_def dest: ctrl_lose_token)

lemma ctrl_E_queue_in:
  "ctrl_ok s \<Longrightarrow> State s = REPRESENTED \<Longrightarrow> ctrl_ok (E_queue Shift_to_seg_event 0 d s)"
  "ctrl_ok s \<Longrightarrow> State s = GATHER \<Longrightarrow> ctrl_ok (E_queue Form_or_fail_event 0 d s)"
  "ctrl_ok s \<Longrightarrow> State s = GATHER \<Longrightarrow> ctrl_ok (E_queue Send_join_event 0 d s)"
  "ctrl_ok s \<Longrightarrow> State s = SEG \<Longrightarrow> ctrl_ok (E_queue Scast_alive_event 0 d s)"
  by (auto simp: ctrl_ok_def timer_simps)

lemma ctrl_Memb_handle_alive: "Memb_handle_alive h s = Some s' \<Longrightarrow> ctrl_ok s \<Longrightarrow> ctrl_ok s'"
  by (cases "State s")
     (auto simp: Memb_handle_alive_def ctrl_E_queue_in split: if_splits dest: ctrl_lose_token_with)

lemma ctrl_Scast_alive_once [simp]: "ctrl_ok (Scast_alive 1 s) = ctrl_ok s"
  by (simp add: Scast_alive_def Let_def)

lemma ctrl_gather_from_op:
  "ctrl_ok s \<Longrightarrow> State s = OP \<Longrightarrow> ctrl_ok (Shift_to_gather s)"
  using ctrl_armed [of s] by (intro ctrl_Shift_to_gather) auto

lemma ctrl_join_in_op: "join_in_op h r s = Some s' \<Longrightarrow> ctrl_ok s \<Longrightarrow> State s = OP \<Longrightarrow> ctrl_ok s'"
  by (auto simp: join_in_op_def split: if_splits bind_splits
        intro!: ctrl_gather_from_op dest: ctrl_lose_token) (simp_all add: ctrl_ok_def)

lemma ctrl_join_in_seg: "join_in_seg h r s = Some s' \<Longrightarrow> ctrl_ok s \<Longrightarrow> State s = SEG \<Longrightarrow> ctrl_ok s'"
proof -
  assume a: "join_in_seg h r s = Some s'" "ctrl_ok s" "State s = SEG"
  have "ctrl_ok (Shift_to_represented (s\<lparr>My_seg_rep := ph_proc_id h\<rparr>))"
    by (rule ctrl_Shift_to_represented) (use ctrl_armed [OF a(2)] a(3) in auto)
  with a show ?thesis by (auto simp: join_in_seg_def split: bind_splits)
qed

lemma ctrl_join_in_represented:
  "join_in_represented h r s = Some s' \<Longrightarrow> ctrl_ok s \<Longrightarrow> State s = REPRESENTED \<Longrightarrow> ctrl_ok s'"
proof -
  assume a: "join_in_represented h r s = Some s'" "ctrl_ok s" "State s = REPRESENTED"
  have "ctrl_ok (s\<lparr>My_seg_rep := i\<rparr>)" for i using a(2) by (simp add: ctrl_ok_def)
  then have "ctrl_ok (E_queue Shift_to_seg_event 0 d (s\<lparr>My_seg_rep := i\<rparr>))" for i d
    using a(3) by (intro ctrl_E_queue_in) simp_all
  with a show ?thesis by (auto simp: join_in_represented_def Let_def split: bind_splits if_splits)
qed

lemma ctrl_join_in_gather: "join_in_gather r s = Some s' \<Longrightarrow> ctrl_ok s \<Longrightarrow> State s = GATHER \<Longrightarrow> ctrl_ok s'"
proof -
  assume a: "join_in_gather r s = Some s'" "ctrl_ok s" "State s = GATHER"
  have "ctrl_ok (s\<lparr>F_reps := f, Potential_reps := p\<rparr>)" for f p using a(2) by (simp add: ctrl_ok_def)
  then have "ctrl_ok (E_queue Form_or_fail_event 0 d (s\<lparr>F_reps := f, Potential_reps := p\<rparr>))" for f p d
    using a(3) by (intro ctrl_E_queue_in) simp_all
  with a show ?thesis
    by (auto simp: join_in_gather_def Let_def ctrl_ok_def split: bind_splits if_splits)
qed

lemma ctrl_Memb_handle_join: "Memb_handle_join h r s = Some s' \<Longrightarrow> ctrl_ok s \<Longrightarrow> ctrl_ok s'"
  by (cases "State s")
     (auto simp: Memb_handle_join_def Let_def split: if_splits
        dest: ctrl_lose_token_with ctrl_join_in_op ctrl_join_in_seg ctrl_join_in_represented ctrl_join_in_gather)

lemma ctrl_Memb_handle_refer: "Memb_handle_refer h s = Some s' \<Longrightarrow> ctrl_ok s \<Longrightarrow> ctrl_ok s'"
  by (auto simp: Memb_handle_refer_def ctrl_ok_def split: if_splits option.splits bind_splits)

lemma fold_emit_frame:
  "State (fold (\<lambda>x. emit (a x)) xs s) = State s" "Token_alive (fold (\<lambda>x. emit (a x)) xs s) = Token_alive s"
  "Time_queue (fold (\<lambda>x. emit (a x)) xs s) = Time_queue s"
  by (induction xs arbitrary: s) (simp_all add: emit_def)

lemma ctrl_Memb_lookup_new_members: "ctrl_ok s \<Longrightarrow> ctrl_ok (Memb_lookup_new_members s)"
proof (cases "State s = OP")
  case True
  assume ok: "ctrl_ok s"
  define t where "t = s\<lparr>Potential_reps := (Potential_reps s)\<lparr>num_reps := 0\<rparr>,
      F_reps := (F_reps s)\<lparr>num_reps := 1, reps := (reps (F_reps s))
        (0 := \<lparr>rep_proc_id = p_id (My s), rep_type = RING_REP, rep_seg_index = p_seg_index (My s)\<rparr>)\<rparr>,
      F_members := (F_members s)\<lparr>num_members := 0, num_pending := 0\<rparr>\<rparr>"
  have t: "ctrl_ok t" "State t = OP" using ok True by (simp_all add: t_def ctrl_ok_def)
  let ?fold = "fold (\<lambda>i. emit (Net_ucast i (join_message t))) (missing_procs t) t"
  have f: "ctrl_ok ?fold" "State ?fold = OP"
    using t ctrl_frame [of ?fold t] by (simp_all add: fold_emit_frame)
  have e: "ctrl_ok (emit a t)" "State (emit a t) = OP" for a
    using t by (simp_all add: emit_def ctrl_ok_def)
  have "Memb_lookup_new_members s =
     (if Conf_num_segments (Cn t) = 1
      then Shift_to_gather (emit (Net_scast (p_seg_index (My t)) (join_message t)) t)
      else if missing_procs t \<noteq> [] then Shift_to_gather ?fold else ?fold)"
    using True by (simp add: Memb_lookup_new_members_def Let_def t_def)
  then show ?thesis using ctrl_gather_from_op e f by simp
qed (simp add: Memb_lookup_new_members_def)

lemma ctrl_Memb_handle_foreign: "Memb_handle_foreign h m s = Some s' \<Longrightarrow> ctrl_ok s \<Longrightarrow> ctrl_ok s'"
  by (auto simp: Memb_handle_foreign_def ctrl_Memb_lookup_new_members split: if_splits bind_splits)
     (simp_all add: ctrl_ok_def)

lemma ctrl_Memb_handle_message: "Memb_handle_message m s = Some s' \<Longrightarrow> ctrl_ok s \<Longrightarrow> ctrl_ok s'"
  by (auto simp: Memb_handle_message_def split: option.splits if_splits net_msg.splits
        dest: ctrl_Memb_handle_alive ctrl_Memb_handle_join ctrl_Memb_handle_refer ctrl_Memb_handle_foreign)

section \<open>Packets\<close>

lemma ctrl_hurry_timer: "ctrl_ok s \<Longrightarrow> ctrl_ok (E_queue Prot_token_hurry_event 0 d s)"
  by (rule ctrl_E_queue) simp_all

lemma ctrl_Prot_token_hurry: "Prot_token_hurry s = Some s' \<Longrightarrow> ctrl_ok s \<Longrightarrow> ctrl_ok s'"
proof -
  assume a: "Prot_token_hurry s = Some s'" "ctrl_ok s"
  have "ctrl_ok (s\<lparr>Last_token := t\<rparr>)" for t using a(2) by (simp add: ctrl_ok_def)
  then have "ctrl_ok (E_queue Prot_token_hurry_event 0 d (s\<lparr>Last_token := t\<rparr>))" for t d
    by (rule ctrl_hurry_timer)
  with \<open>\<And>t. ctrl_ok (s\<lparr>Last_token := t\<rparr>)\<close> a(1) show ?thesis
    by (auto simp: Prot_token_hurry_def Let_def split: bind_splits if_splits)
qed

lemma ctrl_Handle_hurry: "Handle_hurry h s = Some s' \<Longrightarrow> ctrl_ok s \<Longrightarrow> ctrl_ok s'"
  by (auto simp: Handle_hurry_def split: bind_splits if_splits dest!: ctrl_Prot_token_hurry)
     (simp_all add: ctrl_ok_def)

lemma ctrl_Prot_new_message: "Prot_new_message d s = Some s' \<Longrightarrow> ctrl_ok s \<Longrightarrow> ctrl_ok s'"
proof -
  assume a: "Prot_new_message d s = Some s'" "ctrl_ok s"
  have "ctrl_ok (s\<lparr>Down_queue := q\<rparr>)" for q using a(2) by (simp add: ctrl_ok_def)
  then show ?thesis using a(1)
    by (auto simp: Prot_new_message_def Let_def split: bind_splits if_splits dest!: ctrl_Handle_hurry)
qed

lemma ctrl_note_traffic: "note_traffic s = Some s' \<Longrightarrow> ctrl_ok s \<Longrightarrow> ctrl_ok s'"
  by (auto simp: note_traffic_def Let_def ctrl_hurry_timer ctrl_E_queue_loss split: bind_splits if_splits)

lemma quiet_deliver_received: "deliver_received n s = Some s' \<Longrightarrow> quiet s s'"
proof -
  assume "deliver_received n s = Some s'"
  then have "quiet (advance_my_aru n s) s' \<or> quiet s s'"
    by (auto simp: deliver_received_def split: if_splits dest: quiet_agreed quiet_reliable)
  then show ?thesis by (auto simp: advance_my_aru_def quiet_def)
qed

lemma quiet_raise_token_priority: "raise_token_priority h s = Some s' \<Longrightarrow> quiet s s'"
  by (auto simp: raise_token_priority_def split: if_splits dest: quiet_priority)

lemma quiet_handle_regular_rest:
  assumes "raise_token_priority h (insert_received h b k s) = Some t" "deliver_received n (note_highest n t) = Some s'"
  shows "quiet s s'"
  using quiet_raise_token_priority [OF assms(1)] quiet_deliver_received [OF assms(2)]
  by (simp add: quiet_def insert_received_def set_packet_def note_highest_def)

lemma ctrl_handle_regular: "handle_regular h b s = Some s' \<Longrightarrow> ctrl_ok s \<Longrightarrow> ctrl_ok s'"
proof -
  assume a: "handle_regular h b s = Some s'" "ctrl_ok s"
  then obtain t where t: "note_traffic s = Some t" by (auto simp: handle_regular_def split: bind_splits)
  have "quiet t s'"
    using a(1) t
    by (auto simp: handle_regular_def Let_def set_packet_def quiet_def split: if_splits bind_splits
        dest!: quiet_handle_regular_rest)
  then show ?thesis by (rule quietD(1) [OF _ ctrl_note_traffic [OF t a(2)]])
qed

lemma ctrl_Prot_initiate_conf_reload: "ctrl_ok s \<Longrightarrow> ctrl_ok (Prot_initiate_conf_reload rl s)"
proof (cases "State s = OP")
  case True
  assume ok: "ctrl_ok s"
  let ?rest = "\<lambda>t. State t = State s \<and> Token_alive t = Token_alive s \<and> Time_queue t = Time_queue s"
  obtain t where t: "Prot_initiate_conf_reload rl s = E_queue Memb_token_loss_event 0 Zero_timeout t" "?rest t"
    using True by (simp add: Prot_initiate_conf_reload_def Let_def FC_signal_conf_reload_def FC_init_def emit_def)
  have "ctrl_ok t" "Token_alive t" using t(2) ok ctrl_armed(9) [OF ok] True by (simp_all add: ctrl_ok_def)
  then show ?thesis unfolding t(1) by (intro ctrl_E_queue_loss) simp_all
qed (simp add: Prot_initiate_conf_reload_def)

lemma ctrl_handle_control: "ctrl_ok s \<Longrightarrow> ctrl_ok (handle_control rl h b s)"
  by (auto simp: handle_control_def Prot_handle_conf_reload_def quietD(1) [OF quiet_FC_handle_message]
      ctrl_Prot_initiate_conf_reload) (simp add: ctrl_ok_def)

lemma ctrl_Prot_handle_bcast: "Prot_handle_bcast rl m s = Some s' \<Longrightarrow> ctrl_ok s \<Longrightarrow> ctrl_ok s'"
  by (auto simp: Prot_handle_bcast_def ctrl_handle_control split: option.splits if_splits
        dest: ctrl_Memb_handle_message ctrl_Handle_hurry ctrl_handle_regular)

end
