(* ===== verification/Reachable.thy ===== *)
theory Reachable
  imports ControlSteps
begin

text \<open>
  The daemon as a state machine: the events that the main loop hands to the protocols are the
  steps of \<open>daemon_step\<close>, a run starts with \<open>Prot_init\<close>, and the control invariant holds in
  every state that is reached.
\<close>

section \<open>The token\<close>

lemma ctrl_check_arq: "check_arq t s = Some (b, s') \<Longrightarrow> ctrl_ok s \<Longrightarrow> ctrl_ok s'"
proof -
  assume a: "check_arq t s = Some (b, s')" "ctrl_ok s"
  have "ctrl_ok (s\<lparr>Last_token := l\<rparr>)" for l using a(2) by (simp add: ctrl_ok_def)
  moreover have "ctrl_ok (note_installed s)" using a(2) by (simp add: note_installed_def ctrl_ok_def)
  ultimately show ?thesis using a
    by (auto simp: check_arq_def Let_def split: bind_splits if_splits dest: ctrl_Prot_token_hurry)
qed

lemma check_arq_token:
  "check_arq t s = Some (True, s') \<Longrightarrow> Token_alive s' = Token_alive s \<and> State s' = State s"
  by (auto simp: check_arq_def Let_def note_installed_def split: bind_splits if_splits)

lemma quiet_evs_commit [simp]: "quiet s (evs_commit t) = quiet s t"
  by (simp add: evs_commit_def quiet_def Memb_commit_def)

lemma quiet_serve_token: "serve_token t rtr s = Some (n, t', rtr', s') \<Longrightarrow> quiet s s'"
proof -
  assume "serve_token t rtr s = Some (n, t', rtr', s')"
  then obtain u kept r pid seg v k w where
      p: "(if Token_has_priority s
           then token_priority_down ((note_highest (th_seq t) s)\<lparr>Received_token_rounds := Received_token_rounds s + 1\<rparr>)
           else Some ((note_highest (th_seq t) s)\<lparr>Received_token_rounds := Received_token_rounds s + 1\<rparr>)) = Some u" and
      an: "Answer_retrans rtr u = Some (kept, r, pid, seg, v)" and
      sd: "Send_new_packets k v = Some (n, w)" and
      e: "s' = evs_commit (advance_my_aru (My_aru w + 1) (w\<lparr>Last_num_retrans := r, Last_num_sent := n\<rparr>))"
    by (auto simp: serve_token_def Let_def note_highest_def split: bind_splits prod.splits if_splits)
  have "quiet ((note_highest (th_seq t) s)\<lparr>Received_token_rounds := Received_token_rounds s + 1\<rparr>) u"
    using p by (auto split: if_splits dest: quiet_priority)
  then have "quiet s u" by (simp add: quiet_def note_highest_def)
  moreover have "quiet u w" using quiet_Answer_retrans [OF an] quiet_Send_new_packets [OF sd] quiet_trans by blast
  moreover have "quiet w s'" by (simp add: e) (simp add: quiet_def advance_my_aru_def)
  ultimately show ?thesis using quiet_trans by blast
qed

lemma quiet_Prot_flush_bcast: "quiet s (snd (Prot_flush_bcast s))"
  using quiet_bcast_rel [OF bcast_first_rel] by (simp add: Prot_flush_bcast_def Let_def)

lemma ctrl_pass_token: "ctrl_ok s \<Longrightarrow> Token_alive s \<Longrightarrow> ctrl_ok (pass_token leads t rtr s)"
proof -
  assume a: "ctrl_ok s" "Token_alive s"
  define u where "u = (if \<not> (leads \<and> To_hold_token s) then
      (let s = emit (Net_send_token (Token t rtr)) s
       in if Get_retrans (th_type t) > 1
          then emit (Net_send_token (Token t rtr)) (emit (Net_send_token (Token t rtr)) s) else s) else s)"
  define v where "v = u\<lparr>Token_rounds := Token_rounds u + 1\<rparr>"
  have u: "ctrl_ok v" "Token_alive v" using a by (auto simp: u_def v_def Let_def emit_def ctrl_ok_def)
  define w where "w = (if leads then E_queue Prot_token_hurry_event 0 (Timeout v HurryT) v else v)"
  have w: "ctrl_ok w" "Token_alive w" using u by (simp_all add: w_def ctrl_hurry_timer timer_fields)
  have "pass_token leads t rtr s = snd (Prot_flush_bcast (E_queue Memb_token_loss_event 0 (Timeout w TokenT) w))"
    by (simp add: pass_token_def Let_def u_def v_def w_def)
  then show ?thesis using quietD(1) [OF quiet_Prot_flush_bcast] ctrl_E_queue_loss w by simp
qed

lemma quiet_update_Aru: "update_Aru t s = Some s' \<Longrightarrow> quiet s s'"
  by (auto simp: update_Aru_def Let_def quiet_def split: if_splits)

lemma ctrl_deliver_after_token: "deliver_after_token n s = Some s' \<Longrightarrow> ctrl_ok s \<Longrightarrow> ctrl_ok s'"
proof -
  assume a: "deliver_after_token n s = Some s'" "ctrl_ok s"
  then obtain t u v where t: "Discard_packets s = Some t" and u: "Deliver_agreed_packets t = Some u" and
      v: "Deliver_reliable_packets (Highest_seq u - n + 1) n u = Some v" and s': "v = s' \<or> Memb_token_loss v = Some s'"
    by (auto simp: deliver_after_token_def split: bind_splits if_splits)
  have "ctrl_ok t" by (rule ctrl_Discard_packets [OF t a(2)])
  moreover have "quiet t v" using quiet_agreed [OF u] quiet_reliable [OF v] quiet_trans by blast
  ultimately have "ctrl_ok v" using quietD(1) by blast
  with s' show ?thesis using ctrl_lose_token by blast
qed

lemma ctrl_handle_regular_token:
  assumes "handle_regular_token t rtr s = Some s'" "ctrl_ok s" "Token_alive s"
  shows "ctrl_ok s'"
proof -
  obtain n u rtr' v leads tt w where sv: "serve_token t rtr s = Some (n, u, rtr', v)" and
      up: "update_Aru tt (pass_token leads tt rtr' v) = Some w" and
      dl: "deliver_after_token n (w\<lparr>Last_token := tt\<rparr>) = Some s'"
    using assms(1) by (auto simp: handle_regular_token_def Let_def split: bind_splits prod.splits)
  note q = quiet_serve_token [OF sv]
  have "ctrl_ok v" by (rule quietD(1) [OF q assms(2)])
  moreover have "Token_alive v" using q assms(3) by (simp add: quiet_def)
  ultimately have "ctrl_ok w" by (intro quietD(1) [OF quiet_update_Aru [OF up]] ctrl_pass_token)
  then have "ctrl_ok (w\<lparr>Last_token := tt\<rparr>)" by (simp add: ctrl_ok_def)
  then show ?thesis by (rule ctrl_deliver_after_token [OF dl])
qed

lemma ctrl_Prot_handle_token:
  assumes "Prot_handle_token rt s = Some s'" "ctrl_ok s"
  shows "ctrl_ok s'"
proof (cases "rt_msg rt")
  case (Token t rtr)
  show ?thesis
  proof (cases "s' = s")
    case False
    obtain acc r u where b: "token_belongs (rt_ret rt) t s = Some True" and
        ca: "check_arq t s = Some (acc, u)" and
        rest: "if acc then handle_regular_token t r u = Some s' else s' = u"
      using assms(1) Token False
      by (auto simp: Prot_handle_token_def Let_def split: if_splits bind_splits prod.splits)
    have "Token_alive s" using b by (auto simp: token_belongs_def split: if_splits)
    then have "acc \<Longrightarrow> Token_alive u" using check_arq_token ca by auto
    with ctrl_check_arq [OF ca assms(2)] rest ctrl_handle_regular_token show ?thesis
      by (auto split: if_splits)
  qed (use assms in simp)
qed (use assms in \<open>auto simp: Prot_handle_token_def split: if_splits dest: ctrl_Memb_handle_token\<close>)

section \<open>The functions of the timers\<close>

text \<open>A timer that fires finds the daemon in a state in which it could be armed.\<close>

lemma ctrl_fire:
  assumes "ctrl_ok s" "fire_timer (Time_queue s) = Some (h, q)"
  shows "ctrl_ok (s\<lparr>Time_queue := q\<rparr>)" "h \<in> armed_timers (Time_queue s)" "h \<notin> armed_timers q"
proof -
  have "timers_ok (Time_queue s)" using assms(1) by (simp add: ctrl_ok_def)
  note f = tq.ok_fire [OF this assms(2)] tq.armed_fire [OF this assms(2)]
  then show "h \<in> armed_timers (Time_queue s)" "h \<notin> armed_timers q" by auto
  show "ctrl_ok (s\<lparr>Time_queue := q\<rparr>)" using f assms(1) by (auto simp: ctrl_ok_def control_def)
qed

lemma ctrl_back_to_op: "ctrl_ok s \<Longrightarrow> State s = GATHER \<Longrightarrow> Token_alive s \<Longrightarrow>
    Form_or_fail_event \<notin> armed_timers (Time_queue s) \<Longrightarrow> ctrl_ok (back_to_op s)"
  unfolding back_to_op_def Let_def
  by (rule ctrl_Shift_to_op) (auto simp: timer_simps ctrl_ok_def)

lemma ctrl_Form_or_fail:
  assumes "Form_or_fail s = Some s'" "ctrl_ok s" "State s = GATHER"
    and "Form_or_fail_event \<notin> armed_timers (Time_queue s)"
  shows "ctrl_ok s'"
proof -
  have g: "ctrl_ok (Shift_to_gather (s\<lparr>F_members := m, Potential_reps := r\<rparr>))" for m r
    by (rule ctrl_Shift_to_gather) (use ctrl_armed [OF assms(2)] assms(3) in auto)
  show ?thesis
    using assms(1) g ctrl_back_to_op [OF assms(2,3) _ assms(4)] ctrl_Create_form1 [OF _ assms(2-4)]
    by (auto simp: Form_or_fail_def Let_def split: bind_splits if_splits)
qed

lemma ctrl_Gather_or_represented:
  assumes "Gather_or_represented s = Some s'" "ctrl_ok s" "State s = SEG"
    and "Gather_or_represented_event \<notin> armed_timers (Time_queue s)"
  shows "ctrl_ok s'"
proof -
  note arm = ctrl_armed [OF assms(2)]
  have "ctrl_ok (Shift_to_gather (s\<lparr>My_seg_rep := i\<rparr>))" "ctrl_ok (Shift_to_represented (s\<lparr>My_seg_rep := i\<rparr>))" for i
    by (rule ctrl_Shift_to_gather ctrl_Shift_to_represented; use arm assms(3,4) in auto)+
  with assms(1) show ?thesis
    by (auto simp: Gather_or_represented_def Let_def split: bind_splits)
qed

lemma ctrl_Send_join: "ctrl_ok s \<Longrightarrow> State s = GATHER \<Longrightarrow> ctrl_ok (Send_join s)"
proof -
  assume a: "ctrl_ok s" "State s = GATHER"
  define t where "t = fold (\<lambda>r. emit (Net_ucast (rep_proc_id r) (join_message s))) (rep_list (Potential_reps s))
      (if \<not> Token_alive s then emit (Net_scast (p_seg_index (My s)) (join_message s)) s else s)"
  have "State t = State s" "Token_alive t = Token_alive s" "Time_queue t = Time_queue s"
    by (simp_all add: t_def fold_emit_frame) (simp_all add: emit_def)
  with a have t: "ctrl_ok t" "State t = GATHER" by (simp_all add: ctrl_ok_def)
  have "Send_join s = E_queue Send_join_event 0 (Timeout t JoinT) t"
    by (auto simp: Send_join_def Let_def t_def emit_def)
  with t show ?thesis by (simp add: ctrl_E_queue_in)
qed

lemma ctrl_Scast_alive: "ctrl_ok s \<Longrightarrow> State s = SEG \<Longrightarrow> ctrl_ok (Scast_alive c s)"
proof -
  assume "ctrl_ok s" "State s = SEG"
  then have "ctrl_ok (emit a s)" "State (emit a s) = SEG" for a by (simp_all add: emit_def ctrl_ok_def)
  then show ?thesis by (auto simp: Scast_alive_def Let_def ctrl_E_queue_in)
qed

lemma ctrl_Deliver_all: "Deliver_all_reliable_packets s = Some s' \<Longrightarrow> ctrl_ok s \<Longrightarrow> ctrl_ok s'"
  by (auto simp: Deliver_all_reliable_packets_def Let_def dest: quiet_reliable intro: quietD(1))

lemma ctrl_fired:
  assumes "ctrl_ok s" "fire_timer (Time_queue s) = Some (h, q)"
    and "run_handler rl h 0 (s\<lparr>Time_queue := q\<rparr>) = Some s'"
  shows "ctrl_ok s'"
proof -
  let ?s = "s\<lparr>Time_queue := q\<rparr>"
  note f = ctrl_fire [OF assms(1,2)]
  note arm = ctrl_armed [OF assms(1)]
  have seg: "State s = REPRESENTED \<Longrightarrow> h = Shift_to_seg_event \<Longrightarrow> ctrl_ok (Shift_to_seg ?s)"
    by (rule ctrl_Shift_to_seg)
       (use ctrl_armed [OF f(1)] f(3) in auto)
  show ?thesis
    using assms(3) f arm seg
    by (cases h)
       (auto simp: run_handler_def ctrl_Memb_lookup_new_members ctrl_Prot_initiate_conf_reload
          intro!: ctrl_Send_join ctrl_Scast_alive
          dest: ctrl_lose_token ctrl_Form_or_fail ctrl_Prot_token_hurry ctrl_Gather_or_represented
            ctrl_Deliver_all quietD(1) [OF quiet_agreed])
qed

section \<open>The state machine\<close>

text \<open>
  What one turn of the main loop \<open>E_handle_events\<close> can do: read a packet or a token, run the
  first timed event when its time has come, take a message from a session or from the groups,
  change the delivery threshold; and time passes. A handler that ends the process has no step.
\<close>

inductive daemon_step :: "daemon \<Rightarrow> daemon \<Rightarrow> bool" where
  packet: "Prot_handle_bcast rl m s = Some s' \<Longrightarrow> daemon_step s s'"
| token: "Prot_handle_token rt s = Some s' \<Longrightarrow> daemon_step s s'"
| timer: "Time_queue s = e # q \<Longrightarrow> E_compare_time (Now s) (ev_t e) \<ge> 0 \<Longrightarrow>
    run_handler rl (ev_func e) (ev_code e) (s\<lparr>Time_queue := q\<rparr>) = Some s' \<Longrightarrow> daemon_step s s'"
| message: "Prot_new_message d s = Some s' \<Longrightarrow> daemon_step s s'"
| threshold: "Prot_set_delivery_threshold t s = Some s' \<Longrightarrow> daemon_step s s'"
| clock: "daemon_step s (s\<lparr>Now := n, Wall_sec := w\<rparr>)"

inductive_cases daemon_stepE: "daemon_step s s'"

text \<open>The process starts with an empty queue of events and without a token.\<close>

definition booted :: "daemon \<Rightarrow> bool" where
  "booted s \<longleftrightarrow> Time_queue s = [] \<and> \<not> Token_alive s"

inductive reachable :: "daemon \<Rightarrow> bool" where
  start: "booted b \<Longrightarrow> Prot_init b = Some s \<Longrightarrow> reachable s"
| step: "reachable s \<Longrightarrow> daemon_step s s' \<Longrightarrow> reachable s'"

lemma Memb_init_loses_token:
  assumes "Memb_init s = Some u"
  shows "\<exists>v. Memb_token_loss v = Some u \<and> Time_queue v = Time_queue (Shift_to_op s)"
proof -
  define t where "t = (Shift_to_op s)\<lparr>Wide_network := (if cp_wide_area_flag (params (Shift_to_op s))
      then cp_wide_area (params (Shift_to_op s)) else Conf_num_segments (Cn (Shift_to_op s)) > 1)\<rparr>"
  define r where "r = (if \<not> cp_accelerated_ring_flag (params t)
      then t\<lparr>params := (params t)\<lparr>cp_accelerated_ring := \<not> Wide_network t\<rparr>\<rparr> else t)"
  have r: "Time_queue r = Time_queue (Shift_to_op s)" by (simp add: r_def t_def)
  show ?thesis
    using assms unfolding Memb_init_def Let_def t_def [symmetric] r_def [symmetric]
    by (auto split: bind_splits) (intro exI conjI, assumption, simp add: r)
qed

lemma ctrl_Prot_init:
  assumes "Prot_init b = Some s" "booted b"
  shows "ctrl_ok s"
proof -
  let ?i = "FC_init (init_protocol b)"
  have b: "Time_queue ?i = []" "\<not> Token_alive ?i"
    using assms(2) by (simp_all add: booted_def FC_init_def init_protocol_def)
  obtain u where u: "Memb_init ?i = Some u" "s = emit (Net_set_membership (Reg_membership u)) u"
    using assms(1) by (auto simp: Prot_init_def)
  obtain v where v: "Time_queue v = Time_queue (Shift_to_op ?i)" "Memb_token_loss v = Some u"
    using Memb_init_loses_token [OF u(1)] by blast
  have "timers_ok ([] :: handler time_event list)" by (simp add: timers_ok_def queue_ok_def)
  then have "timers_ok (Time_queue v)" "armed_timers (Time_queue v) \<subseteq> {Prot_initiate_conf_reload_event}"
    using b(1) unfolding v(1) by (auto simp: Shift_to_op_def Let_def timer_simps) (simp_all add: armed_timers_def)
  then have "ctrl_ok u" by (intro ctrl_Memb_token_loss [OF v(2)]) auto
  then show ?thesis by (simp add: u(2))
qed

lemma ctrl_daemon_step: "daemon_step s s' \<Longrightarrow> ctrl_ok s \<Longrightarrow> ctrl_ok s'"
proof (induction rule: daemon_step.induct)
  case (timer s e q rl s')
  then have "timers_ok (Time_queue s)" by (simp add: ctrl_ok_def)
  with timer(1) have "ev_code e = 0" by (simp add: timers_ok_def)
  with timer show ?case
    by - (rule ctrl_fired [of s "ev_func e" q rl s'], simp_all)
next
  case (clock s n w)
  then show ?case by (simp add: ctrl_ok_def)
qed (blast intro: ctrl_Prot_handle_bcast ctrl_Prot_handle_token ctrl_Prot_new_message ctrl_threshold)+

lemma ctrl_reachable: "reachable s \<Longrightarrow> ctrl_ok s"
  by (induction rule: reachable.induct) (auto intro: ctrl_Prot_init ctrl_daemon_step)

end
