(* ===== verification/Samples.thy ===== *)
theory Samples
  imports Reachable
begin

text \<open>
  Concrete daemons on which the theorems are evaluated: a segment of three processes, and the
  daemon of the first of them as its process starts.
\<close>

definition sample_proc :: "int32u \<Rightarrow> int \<Rightarrow> proc" where
  "sample_proc i k = \<lparr>p_name = ''p'', p_id = i, p_seg_index = 0, p_index_in_seg = k\<rparr>"

definition sample_procs :: "proc list" where
  "sample_procs = [sample_proc 10 0, sample_proc 20 1, sample_proc 30 2]"

definition sample_conf :: configuration where
  "sample_conf = \<lparr>hash_code = 0, allprocs = sample_procs, segments = [\<lparr>procs = sample_procs\<rparr>]\<rparr>"

definition no_members :: members_info where
  "no_members = \<lparr>num_members = 0, num_pending = 0, members = (\<lambda>_. 0)\<rparr>"

definition no_reps :: reps_info where
  "no_reps = \<lparr>num_reps = 0, rep_index = 0, reps = (\<lambda>_. \<lparr>rep_proc_id = 0, rep_type = 0, rep_seg_index = 0\<rparr>)\<rparr>"

definition no_header :: packet_header where
  "no_header = \<lparr>ph_type = 0, ph_transmiter_id = 0, ph_proc_id = 0, ph_memb_id = \<lparr>mi_proc_id = 0, mi_time = 0\<rparr>,
     ph_seq = 0, ph_token_round = 0, ph_conf_hash = 0, ph_data_len = 0,
     ph_first_frag = \<lparr>fragment_index = 0, fragment_len = 0\<rparr>\<rparr>"

definition no_token :: token_header where
  "no_token = \<lparr>th_type = 0, th_transmiter_id = 0, th_proc_id = 0, th_memb_id = \<lparr>mi_proc_id = 0, mi_time = 0\<rparr>,
     th_seq = 0, th_aru = 0, th_aru_last_id = 0, th_flow_control = 0, th_rtr_len = 0, th_conf_hash = 0\<rparr>"

text \<open>All timeouts are set, so that few timed events run before the ring forms.\<close>

definition sample_params :: conf_params where
  "sample_params = conf_defaults\<lparr>cp_timeout_mask := 0x1FF,
     cp_timeouts := (\<lambda>k. if k = SegT \<or> k = GatherT then 1 else 1000)\<rparr>"

definition sample_daemon :: daemon where
  "sample_daemon =
     \<lparr>Cn = sample_conf, My = sample_proc 10 0, My_index = 0, params = sample_params, Wide_network = False,
      Timeout = default_timeout False, Now = \<lparr>sec = 100, usec = 0\<rparr>, Wall_sec = 1000, Time_queue = [],
      Fds = E_init_fds, Bcast_channels = [5], Token_channels = [6], out = [],
      Window = 0, Personal_window = 0, Accelerated_window = 0, Accelerated_ring = False,
      Last_num_retrans = 0, Last_num_sent = 0,
      Packets = (\<lambda>_. \<lparr>pi_head = no_header, pi_body = (\<lambda>_. 0), pi_exist = 0, pi_proc_index = 0\<rparr>),
      Up_queue = (\<lambda>_. None), Down_queue = [], cur_element = 0, Send_pack_queue = [],
      Highest_seq = 0, Highest_fifo_seq = 0, My_aru = 0, Aru = 0, Last_discarded = 0, Last_delivered = 0,
      Last_seq = 0, Token_rounds = 0, Received_token_rounds = 0, Token_counter = 0, Last_token = no_token,
      Prev_proc_id = 0, Token_has_priority = False, Prot_delivery_threshold = BLOCK_REGULAR_DELIVERY,
      Prot_Need_Conf_Reload = False, Conf_Reload_Singleton_State = False, Gstate = 1,
      State = OP, Token_alive = False, Membership = sample_conf,
      Membership_id = \<lparr>mi_proc_id = 10, mi_time = 0\<rparr>, Future_membership = sample_conf,
      Future_membership_id = \<lparr>mi_proc_id = 10, mi_time = 0\<rparr>, Reg_membership = sample_conf,
      Trans_membership = sample_conf, Commit_membership = sample_conf,
      Form1_memb_id = \<lparr>mi_proc_id = 10, mi_time = 0\<rparr>, Trans_memb_id = \<lparr>mi_proc_id = 10, mi_time = 0\<rparr>,
      F_trans_memb_time = 0, Last_time_used = 0, My_seg_rep = -1, Foreign_found = False,
      Transitional = False, Memb_Just_Installed = False, F_members = no_members, F_reps = no_reps,
      Potential_reps = no_reps, Commit_set = no_members, Future_commit_set = no_members\<rparr>"

lemma sample_init_eval:
  "map_option (\<lambda>s. (State s, Token_alive s, map ev_func (Time_queue s))) (Prot_init sample_daemon) =
     Some (SEG, False, [Scast_alive_event, Gather_or_represented_event])"
  by code_simp

text \<open>The daemon after its start.\<close>

definition started :: daemon where
  "started = the (Prot_init sample_daemon)"

lemma init_started: "Prot_init sample_daemon = Some started"
  using sample_init_eval by (auto simp: started_def)

lemma reachable_started: "reachable started"
  by (rule reachable.start [OF _ init_started]) (simp add: booted_def sample_daemon_def)

lemma started_fields:
  "State started = SEG" "\<not> Token_alive started"
  "map ev_func (Time_queue started) = [Scast_alive_event, Gather_or_represented_event]"
  using sample_init_eval by (simp_all add: init_started)

text \<open>Let the time pass until the first timed event and run it.\<close>

definition no_reload :: reloaded where
  "no_reload = \<lparr>rl_conf = sample_conf, rl_my = sample_proc 10 0, rl_params = conf_defaults, rl_partition = False\<rparr>"

fun fire_next :: "daemon \<Rightarrow> daemon option" where
  "fire_next s =
     (case Time_queue s of
        [] \<Rightarrow> None
      | e # q \<Rightarrow> run_handler no_reload (ev_func e) (ev_code e) (s\<lparr>Now := ev_t e, Time_queue := q\<rparr>))"

fun fire_times :: "nat \<Rightarrow> daemon \<Rightarrow> daemon option" where
  "fire_times 0 s = Some s"
| "fire_times (Suc n) s = (case fire_next s of None \<Rightarrow> None | Some s' \<Rightarrow> fire_times n s')"

lemma time_not_before_itself: "E_compare_time t t \<ge> 0"
  by (simp add: E_compare_time_def)

lemma reachable_fire_next: "reachable s \<Longrightarrow> fire_next s = Some s' \<Longrightarrow> reachable s'"
proof -
  assume a: "reachable s" "fire_next s = Some s'"
  then obtain e q where q: "Time_queue s = e # q" by (cases "Time_queue s") auto
  let ?t = "s\<lparr>Now := ev_t e, Wall_sec := Wall_sec s\<rparr>"
  have "reachable ?t" by (rule reachable.step [OF a(1) daemon_step.clock])
  moreover have "daemon_step ?t s'"
    by (rule daemon_step.timer [of _ e q no_reload]) (use a(2) q time_not_before_itself in simp_all)
  ultimately show ?thesis by (rule reachable.step)
qed

lemma reachable_fire_times: "reachable s \<Longrightarrow> fire_times n s = Some s' \<Longrightarrow> reachable s'"
  by (induction n arbitrary: s) (auto split: option.splits intro: reachable_fire_next simp del: fire_next.simps)

text \<open>Three timed events later the daemon gathers; the fourth forms its ring.\<close>

lemma gathering_eval:
  "map_option (\<lambda>s. (State s, map ev_func (Time_queue s))) (Option.bind (Prot_init sample_daemon) (fire_times 3)) =
   Some (GATHER, [Form_or_fail_event, Send_join_event])"
  by code_simp

lemma gathering_token_eval:
  "Option.bind (Option.bind (Prot_init sample_daemon) (fire_times 3)) (\<lambda>s. map_option (\<lambda>(h, r, s). th_seq h) (create_form1_token s)) =
   Some 3333"
  by code_simp

lemma gathering_smallest_eval:
  "Option.bind (Option.bind (Prot_init sample_daemon) (fire_times 3)) (\<lambda>s. map_option (\<lambda>(i, k). (i = p_id (My s), Token_alive s)) (Smallest_rep (Cn s) (F_reps s))) =
   Some (True, False)"
  by code_simp

definition gathering :: daemon where
  "gathering = the (Option.bind (Prot_init sample_daemon) (fire_times 3))"

lemma gathering_run: "Option.bind (Prot_init sample_daemon) (fire_times 3) = Some gathering"
  using gathering_eval by (auto simp: gathering_def)

lemma reachable_gathering: "reachable gathering"
  using gathering_run reachable_fire_times [OF reachable_started] by (simp add: init_started)

lemma block_threshold:
  "\<exists>s'. Prot_set_delivery_threshold BLOCK_REGULAR_DELIVERY s = Some s' \<and> State s' = State s \<and>
      (timers_ok (Time_queue s) \<longrightarrow> armed_timers (Time_queue s') \<subseteq> armed_timers (Time_queue s) \<and>
         armed_timers (Time_queue s) \<subseteq> armed_timers (Time_queue s') \<union>
           {Deliver_all_reliable_packets_event, Deliver_agreed_packets_event})"
  by (auto simp: Prot_set_delivery_threshold_def Let_def timer_simps)

lemma after_create_form1_timers:
  assumes "timers_ok (Time_queue s)"
  shows "\<exists>s'. after_create_form1 s = Some s' \<and> State s' = FORM \<and>
     armed_timers (Time_queue s') \<subseteq> insert Memb_token_loss_event (armed_timers (Time_queue s) - {Send_join_event}) \<and>
     Memb_token_loss_event \<in> armed_timers (Time_queue s')"
proof -
  let ?t = "(let s = E_dequeue Send_join_event 0 s; s = E_queue Memb_token_loss_event 0 (Timeout s FormT) s;
      s = E_dequeue Prot_token_hurry_event 0 s in s\<lparr>Token_alive := False\<rparr>)"
  have t: "timers_ok (Time_queue ?t)" "Memb_token_loss_event \<in> armed_timers (Time_queue ?t)"
      "armed_timers (Time_queue ?t) \<subseteq> insert Memb_token_loss_event (armed_timers (Time_queue s) - {Send_join_event})"
    using assms by (auto simp: Let_def timer_simps)
  obtain u where u: "Prot_set_delivery_threshold BLOCK_REGULAR_DELIVERY ?t = Some u"
      "armed_timers (Time_queue u) \<subseteq> armed_timers (Time_queue ?t)"
      "armed_timers (Time_queue ?t) \<subseteq> armed_timers (Time_queue u) \<union>
           {Deliver_all_reliable_packets_event, Deliver_agreed_packets_event}"
    using block_threshold [of ?t] t(1) by blast
  have a: "after_create_form1 s = Some (u\<lparr>State := FORM\<rparr>)"
    using u(1) by (simp add: after_create_form1_def Let_def)
  show ?thesis
    by (rule exI [of _ "u\<lparr>State := FORM\<rparr>"]) (use a u(2,3) t(2,3) in auto)
qed

lemma forming:
  "\<exists>s e q. reachable s \<and> State s = FORM \<and> Time_queue s = e # q \<and> ev_func e = Memb_token_loss_event"
proof -
  have g: "State gathering = GATHER" "map ev_func (Time_queue gathering) = [Form_or_fail_event, Send_join_event]"
    using gathering_eval by (simp_all add: gathering_run)
  then obtain e q where e: "Time_queue gathering = e # q" "ev_func e = Form_or_fail_event" "map ev_func q = [Send_join_event]"
    by auto
  let ?s = "gathering\<lparr>Now := ev_t e, Time_queue := q\<rparr>"
  obtain h r t where t: "create_form1_token gathering = Some (h, r, t)"
    using gathering_token_eval by (auto simp: gathering_run)
  obtain i k where sm: "Smallest_rep (Cn gathering) (F_reps gathering) = Some (i, k)" "i = p_id (My gathering)" "\<not> Token_alive gathering"
    using gathering_smallest_eval by (auto simp: gathering_run)
  have ok: "ctrl_ok gathering" by (rule ctrl_reachable [OF reachable_gathering])
  have "timers_ok (Time_queue gathering)" using ok by (simp add: ctrl_ok_def)
  then have q: "timers_ok q" using timers_ok_tail e(1) by metis
  obtain h' r' t' where t': "create_form1_token ?s = Some (h', r', t')"
    using t by (auto simp: create_form1_token_def Let_def form1_header_def new_form_id_def create_members_def
       create_ring_def holes_between_def own_commit_def rep_ids_def form_potentials_def split: bind_splits if_splits)
  let ?u = "send_form1 h' r' t'"
  have "quiet ?s ?u" using quiet_create_form1_token [OF t'] quiet_send_form1 quiet_trans by blast
  then have "Time_queue ?u = q" by (simp add: quiet_def)
  then obtain s' where s': "after_create_form1 ?u = Some s'" "State s' = FORM"
      "armed_timers (Time_queue s') \<subseteq> insert Memb_token_loss_event (armed_timers q - {Send_join_event})"
      "Memb_token_loss_event \<in> armed_timers (Time_queue s')"
    using after_create_form1_timers [of ?u] q by auto
  have "Form_or_fail ?s = Some s'"
    using sm t' s'(1) by (simp add: Form_or_fail_def Create_form1_def)
  moreover have "ev_code e = 0" using \<open>timers_ok (Time_queue gathering)\<close> e(1) by (simp add: timers_ok_def)
  ultimately have "fire_next gathering = Some s'"
    using e by (simp add: run_handler_def)
  then have r: "reachable s'" by (rule reachable_fire_next [OF reachable_gathering])
  have "armed_timers q = {Send_join_event}" using e(3) by (auto simp: armed_timers_def)
  with s'(3,4) have "armed_timers (Time_queue s') = {Memb_token_loss_event}" by auto
  then obtain e' q' where "Time_queue s' = e' # q'" "ev_func e' = Memb_token_loss_event"
    by (cases "Time_queue s'") (auto simp: armed_timers_def)
  with r s'(2) show ?thesis by blast
qed

end
