(* ===== verification/ControlTheorems.thy ===== *)
theory ControlTheorems
  imports Samples
begin

text \<open>
  What holds in every state that a daemon reaches, whatever packets, tokens, messages and
  timers it has met: the state of the membership protocol, the token and the armed timers fit
  together, and losing the token is never the internal error that \<open>Memb_token_loss\<close> stops on.
\<close>

text \<open>
  C3: In every state the daemon reaches, the token is alive in OP and EVS and never in SEG,
  REPRESENTED and FORM; the queue of timed events is sorted with one event per key; and a timer
  is armed only in the states whose handler expects it: the loss of the token only while there
  is a token or a form token is out, the probes and the end of the segment phase only in SEG,
  the way back to SEG only in REPRESENTED, the joins and the end of gathering only in GATHER.
\<close>

theorem control_reachable:
  assumes "reachable s"
  shows "(Token_alive s \<longrightarrow> State s \<in> {OP, GATHER, EVS}) \<and> (State s \<in> {OP, EVS} \<longrightarrow> Token_alive s) \<and>
         queue_ok (Time_queue s) \<and>
         (\<forall>e \<in> set (Time_queue s).
            (ev_func e = Memb_token_loss_event \<longrightarrow> Token_alive s \<or> State s = FORM) \<and>
            (ev_func e \<in> {Gather_or_represented_event, Scast_alive_event} \<longrightarrow> State s = SEG) \<and>
            (ev_func e = Shift_to_seg_event \<longrightarrow> State s = REPRESENTED) \<and>
            (ev_func e \<in> {Form_or_fail_event, Send_join_event} \<longrightarrow> State s = GATHER))"
proof -
  have ok: "ctrl_ok s" by (rule ctrl_reachable [OF assms])
  then have "timers_ok (Time_queue s)" and c: "control (State s) (Token_alive s) (ev_func ` set (Time_queue s))"
    by (simp_all add: ctrl_ok_def armed_timers_def)
  then have "queue_ok (Time_queue s)" by (simp add: timers_ok_def)
  moreover have "(Token_alive s \<longrightarrow> State s \<in> {OP, GATHER, EVS}) \<and> (State s \<in> {OP, EVS} \<longrightarrow> Token_alive s)"
    using c by (auto simp: control_def)
  moreover have "(ev_func e = Memb_token_loss_event \<longrightarrow> Token_alive s \<or> State s = FORM) \<and>
      (ev_func e \<in> {Gather_or_represented_event, Scast_alive_event} \<longrightarrow> State s = SEG) \<and>
      (ev_func e = Shift_to_seg_event \<longrightarrow> State s = REPRESENTED) \<and>
      (ev_func e \<in> {Form_or_fail_event, Send_join_event} \<longrightarrow> State s = GATHER)"
    if "e \<in> set (Time_queue s)" for e
  proof -
    have "ev_func e \<in> ev_func ` set (Time_queue s)" using that by blast
    with c show ?thesis by (simp add: control_def) metis
  qed
  ultimately show ?thesis by blast
qed

theorem control_reachable_witness:
  "\<exists>s. Prot_init sample_daemon = Some s \<and> \<not> Token_alive s \<and> State s = SEG \<and> queue_ok (Time_queue s)"
  using control_reachable [OF reachable_started] init_started started_fields by auto



end
