(* ===== verification/EventsTheorems.thy ===== *)
theory EventsTheorems
  imports Control
begin

text \<open>
  What the event system promises the daemon: the queue of timed events and the arithmetic it
  rests on, and the descriptor tables with the masks given to \<open>select\<close>. The tables are
  followed from \<open>E_init\<close> through every sequence of calls.
\<close>

section \<open>Descriptors\<close>

inductive fd_run :: "'f fd_state \<Rightarrow> bool" where
  init: "fd_run E_init_fds"
| attach: "fd_run s \<Longrightarrow> \<forall>i \<in> prios. \<not> attached fd ty i s \<Longrightarrow> fd_run (snd (E_attach_fd fd ty fn cd dt prio s))"
| detach_priority: "fd_run s \<Longrightarrow> prio \<in> prios \<Longrightarrow> fd_run (snd (E_detach_fd_priority fd ty prio s))"
| detach: "fd_run s \<Longrightarrow> fd_run (snd (E_detach_fd fd ty s))"
| deactivate: "fd_run s \<Longrightarrow> fd_run (snd (E_deactivate_fd fd ty s))"
| activate: "fd_run s \<Longrightarrow> fd_run (snd (E_activate_fd fd ty s))"
| threshold: "fd_run s \<Longrightarrow> fd_run (snd (E_set_active_threshold prio s))"

lemma init_fd_ok: "fd_ok E_init_fds"
  by (simp add: fd_ok_def count_ok_def tables_ok_def mask_ok_def watched_def E_init_fds_def)

lemma detach_fold_fd_ok:
  "fd_ok s \<Longrightarrow> set is \<subseteq> prios \<Longrightarrow>
   fd_ok (snd (fold (\<lambda>i (found, s). (case E_detach_fd_priority fd ty i s of (r, s') \<Rightarrow> (found \<or> r = 0, s'))) is (f, s)))"
proof (induction "is" arbitrary: f s)
  case (Cons i "is")
  then have "fd_ok (snd (E_detach_fd_priority fd ty i s))" by (simp add: detach_fd_ok)
  with Cons show ?case by (simp add: split_beta)
qed simp

lemma detach_all_fd_ok: "fd_ok s \<Longrightarrow> fd_ok (snd (E_detach_fd fd ty s))"
  using detach_fold_fd_ok [of s "[0..NUM_PRIORITY - 1]" fd ty False] prio_list
  by (auto simp: E_detach_fd_def prios_def split_beta)

lemma threshold_fd_ok: "fd_ok s \<Longrightarrow> fd_ok (snd (E_set_active_threshold prio s))"
proof (cases "prio \<in> prios \<and> prio \<noteq> Active_priority s")
  case True
  moreover assume "fd_ok s"
  ultimately show ?thesis
    using threshold_mask_ok [of prio s]
    by (auto simp: fd_ok_def E_set_active_threshold_def count_ok_def tables_ok_def prios_iff)
qed (auto simp: E_set_active_threshold_def prios_iff)

lemma fd_run_fd_ok: "fd_run s \<Longrightarrow> fd_ok s"
  by (induction rule: fd_run.induct)
     (auto intro: init_fd_ok attach_new_fd_ok detach_fd_ok detach_all_fd_ok deactivate_fd_ok
        activate_fd_ok threshold_fd_ok)



text \<open>
  Attaching a descriptor again at its priority after it was deactivated marks it active,
  but leaves it out of the mask: \<open>select\<close> will not report it.
\<close>

theorem reattach_not_watched:
  "\<exists>s :: nat fd_state. fd_run s \<and>
     (let s' = snd (E_attach_fd 7 0 3 0 0 1 s) in
      (\<exists>e \<in> set (Fd_queue s' 1). fe_fd e = 7 \<and> fe_type e = 0 \<and> fe_active e) \<and>
      Active_priority s' \<le> 1 \<and> 7 \<notin> Fd_mask s' 0)"
proof -
  let ?s = "snd (E_deactivate_fd 7 0 (snd (E_attach_fd 7 0 3 0 0 1 E_init_fds))) :: nat fd_state"
  have "fd_run ?s"
    by (intro fd_run.deactivate fd_run.attach fd_run.init) (simp add: attached_def E_init_fds_def)
  then show ?thesis
    by (intro exI [of _ ?s])
       (simp add: E_attach_fd_def E_init_fds_def E_deactivate_fd_def deactivate_at_def Let_def prio_list
          fd_match_def)
qed

section \<open>Times and timed events\<close>

lemma time_ok_usecs_eq: "time_ok a \<Longrightarrow> time_ok b \<Longrightarrow> usecs a = usecs b \<Longrightarrow> a = b"
proof -
  assume a: "time_ok a" "time_ok b" "usecs a = usecs b"
  have s: "sec a = sec b" using a unfolding time_ok_def usecs_def by linarith
  with a(3) have "usec a = usec b" by (simp add: usecs_def)
  with s show ?thesis by simp
qed

text \<open>
  On normalised times the addition, subtraction and comparison of the event system are
  those of the microseconds the times stand for, the results are normalised again, and
  subtracting what was added gives the time back.
\<close>

theorem time_arithmetic:
  assumes "time_ok t" "time_ok d"
  shows "usecs (E_add_time t d) = usecs t + usecs d \<and> time_ok (E_add_time t d) \<and>
         usecs (E_sub_time t d) = usecs t - usecs d \<and> time_ok (E_sub_time t d) \<and>
         E_sub_time (E_add_time t d) d = t \<and>
         E_compare_time t d = sgn (usecs t - usecs d)"
  using assms time_ok_add time_ok_sub compare_usecs
  by (auto intro: time_ok_usecs_eq)

theorem time_arithmetic_witness:
  "E_sub_time (E_add_time \<lparr>sec = 2, usec = 700000\<rparr> \<lparr>sec = 1, usec = 500000\<rparr>) \<lparr>sec = 1, usec = 500000\<rparr>
   = \<lparr>sec = 2, usec = 700000\<rparr>"
  using time_arithmetic [of "\<lparr>sec = 2, usec = 700000\<rparr>" "\<lparr>sec = 1, usec = 500000\<rparr>"]
  by (simp add: time_ok_def)

text \<open>
  C27: \<open>E_queue\<close> puts the new event behind every event that is not later and drops the one
  with the same function, code and data, wherever it stood: the one-pass loop with its two
  flags computes this specification, and the queue stays sorted by expiry with one event per
  key.
\<close>

theorem E_queue_refines:
  assumes "queue_ok q"
  shows "E_queue_list e q =
           (let rest = filter (\<lambda>p. \<not> (ev_func p = ev_func e \<and> ev_code p = ev_code e \<and> ev_data p = ev_data e)) q
            in takeWhile (\<lambda>p. E_compare_time (ev_t p) (ev_t e) \<le> 0) rest @ e #
               dropWhile (\<lambda>p. E_compare_time (ev_t p) (ev_t e) \<le> 0) rest) \<and>
         queue_ok (E_queue_list e q)"
proof -
  have k: "(\<lambda>p. event_key p \<noteq> event_key e) =
      (\<lambda>p. \<not> (ev_func p = ev_func e \<and> ev_code p = ev_code e \<and> ev_data p = ev_data e))"
    by (auto simp: event_key_def)
  have c: "(\<lambda>p. time_le (ev_t p) (ev_t e)) = (\<lambda>p. E_compare_time (ev_t p) (ev_t e) \<le> 0)"
    using compare_pos_iff by (metis linorder_not_less)
  show ?thesis
    using E_queue_list_spec [OF assms, of e, unfolded queue_spec_def k c] E_queue_list_ok [OF assms, of e]
    by blast
qed

theorem E_queue_refines_witness:
  "map ev_func (E_queue_list \<lparr>ev_t = \<lparr>sec = 3, usec = 0\<rparr>, ev_func = (1 :: nat), ev_code = 0, ev_data = 0\<rparr>
     [\<lparr>ev_t = \<lparr>sec = 1, usec = 0\<rparr>, ev_func = 1, ev_code = 0, ev_data = 0\<rparr>,
      \<lparr>ev_t = \<lparr>sec = 3, usec = 0\<rparr>, ev_func = 2, ev_code = 0, ev_data = 0\<rparr>,
      \<lparr>ev_t = \<lparr>sec = 4, usec = 0\<rparr>, ev_func = 3, ev_code = 0, ev_data = 0\<rparr>]) = [2, 1, 3]"
  using E_queue_refines [of "[\<lparr>ev_t = \<lparr>sec = 1, usec = 0\<rparr>, ev_func = 1, ev_code = 0, ev_data = 0\<rparr>,
      \<lparr>ev_t = \<lparr>sec = 3, usec = 0\<rparr>, ev_func = 2, ev_code = 0, ev_data = 0\<rparr>,
      \<lparr>ev_t = \<lparr>sec = 4, usec = 0\<rparr>, ev_func = (3 :: nat), ev_code = 0, ev_data = 0\<rparr>]"
      "\<lparr>ev_t = \<lparr>sec = 3, usec = 0\<rparr>, ev_func = 1, ev_code = 0, ev_data = 0\<rparr>"]
  by (simp add: queue_ok_def time_le_iff event_key_def E_compare_time_def Let_def)

end
