(* ===== verification/InstallSpec.thy ===== *)
theory InstallSpec
  imports DeliverySpec MembGather
begin

text \<open>
  What the installation of a new ring delivers, \<open>evs_install\<close>: the rest of the old ring's
  messages around the transitional membership, then the new membership.
\<close>

section \<open>Memberships\<close>

lemma append_ids_spec:
  "append_ids cn is sg = Some sg' \<Longrightarrow> map p_id (procs sg') = map p_id (procs sg) @ is"
proof (induction "is" arbitrary: sg)
  case (Cons i "is")
  obtain p where p: "snd (Conf_proc_by_id_in_conf cn i) = Some p"
      and r: "append_ids cn is (sg\<lparr>procs := procs sg @ [p]\<rparr>) = Some sg'"
    using Cons.prems by (auto simp: Conf_append_id_to_seg_def split: prod.splits option.splits if_splits)
  have "p_id p = i" using proc_by_id_Some [OF p] by simp
  with Cons.IH [OF r] show ?case by simp
qed simp

lemma restrict_segments_ids:
  "restrict_segments cn ids = Some sgs \<Longrightarrow> map p_id (all_procs sgs) = filter (\<lambda>i. i \<in> ids) (ring_ids cn)"
proof -
  have one: "those (map f gs) = Some sgs \<Longrightarrow>
      (\<And>sg sg'. f sg = Some sg' \<Longrightarrow> map p_id (procs sg') = filter (\<lambda>i. i \<in> ids) (map p_id (procs sg))) \<Longrightarrow>
      map p_id (all_procs sgs) = filter (\<lambda>i. i \<in> ids) (map p_id (all_procs gs))" for f gs sgs
  proof (induction gs arbitrary: sgs)
    case (Cons g gs)
    then obtain g' sgs' where "f g = Some g'" "those (map f gs) = Some sgs'" "sgs = g' # sgs'"
      by (auto split: option.splits)
    with Cons show ?case by simp
  qed simp
  assume "restrict_segments cn ids = Some sgs"
  then show ?thesis
    unfolding restrict_segments_def ring_ids_def
    by (rule one) (auto dest: append_ids_spec)
qed

lemma Memb_transitional_spec:
  assumes "Memb_transitional s = Some s'"
  shows "ring_ids (Trans_membership s') =
      filter (\<lambda>i. i \<in> set (arr_list (members (Commit_set s)) (num_pending (Commit_set s)))) (ring_ids (Cn s))"
    "ring_ids (Commit_membership s') =
      filter (\<lambda>i. i \<in> set (arr_list (members (Commit_set s)) (num_members (Commit_set s)))) (ring_ids (Cn s))"
    "ring_ids (Trans_membership s') \<noteq> []"
    "Trans_memb_id s' = \<lparr>mi_proc_id = hd (ring_ids (Trans_membership s')), mi_time = F_trans_memb_time s\<rparr>"
    "s' = s\<lparr>Transitional := True, Trans_membership := Trans_membership s', Trans_memb_id := Trans_memb_id s',
            Commit_membership := Commit_membership s'\<rparr>"
proof -
  obtain tsegs csegs leader where
      t: "restrict_segments (Cn s) (set (arr_list (members (Commit_set s)) (num_pending (Commit_set s)))) = Some tsegs" and
      l: "Conf_leader ((Trans_membership s)\<lparr>segments := tsegs\<rparr>) = Some leader" and
      c: "restrict_segments (Cn s) (set (arr_list (members (Commit_set s)) (num_members (Commit_set s)))) = Some csegs" and
      s': "s' = s\<lparr>Transitional := True, Trans_membership := (Trans_membership s)\<lparr>segments := tsegs\<rparr>,
               Trans_memb_id := \<lparr>mi_proc_id = leader, mi_time = F_trans_memb_time s\<rparr>,
               Commit_membership := (Commit_membership s)\<lparr>segments := csegs\<rparr>\<rparr>"
    using assms by (auto simp: Memb_transitional_def Let_def split: bind_splits)
  show "ring_ids (Trans_membership s') =
      filter (\<lambda>i. i \<in> set (arr_list (members (Commit_set s)) (num_pending (Commit_set s)))) (ring_ids (Cn s))"
    "ring_ids (Commit_membership s') =
      filter (\<lambda>i. i \<in> set (arr_list (members (Commit_set s)) (num_members (Commit_set s)))) (ring_ids (Cn s))"
    using restrict_segments_ids [OF t] restrict_segments_ids [OF c] by (simp_all add: s' ring_ids_def)
  show "ring_ids (Trans_membership s') \<noteq> []"
    "Trans_memb_id s' = \<lparr>mi_proc_id = hd (ring_ids (Trans_membership s')), mi_time = F_trans_memb_time s\<rparr>"
    using l by (auto simp: s' Conf_leader_ring split: if_splits)
  show "s' = s\<lparr>Transitional := True, Trans_membership := Trans_membership s', Trans_memb_id := Trans_memb_id s',
            Commit_membership := Commit_membership s'\<rparr>" by (simp add: s')
qed

section \<open>Before the transitional membership\<close>

lemma entries_snoc: "lo \<le> i \<Longrightarrow> entries lo i = insert (pack_entry i) (entries lo (i - 1))"
proof -
  assume "lo \<le> i"
  then have "{lo..i} = insert i {lo..i - 1}" by auto
  then show ?thesis by (simp add: entries_def)
qed

lemma entry_still_there:
  assumes "Packets t = mark 0 (entries lo (i - 1)) (Packets s)" "lo \<le> i" "i - lo < MAX_PACKETS_IN_STRUCT"
  shows "packet_at t i = packet_at s i"
proof -
  have "pack_entry i \<notin> entries lo (i - 1)"
  proof
    assume "pack_entry i \<in> entries lo (i - 1)"
    then obtain j where "pack_entry i = pack_entry j" "lo \<le> j" "j \<le> i - 1" by (auto simp: entries_def)
    with pack_entry_inj [of i j] assms(3) show False by simp
  qed
  with assms(1) show ?thesis by simp
qed

definition held :: "daemon \<Rightarrow> int \<Rightarrow> bool" where
  "held s i \<longleftrightarrow> exist_at s i \<noteq> 0 \<and> exist_at s i \<noteq> 3"

definition safe_at :: "daemon \<Rightarrow> int \<Rightarrow> bool" where
  "safe_at s i \<longleftrightarrow> Is_safe (ph_type (pi_head (packet_at s i)))"

text \<open>The state at the start of round \<open>i\<close> of a loop that has cleared \<open>lo..i - 1\<close>.\<close>

definition cleared :: "(int \<Rightarrow> bool) \<Rightarrow> int \<Rightarrow> int \<Rightarrow> daemon \<Rightarrow> daemon \<Rightarrow> bool" where
  "cleared P lo i s t \<longleftrightarrow> lo \<le> i \<and>
     delivers (filter (\<lambda>j. exist_at s j = 1 \<and> P j) [lo..i - 1]) s t \<and>
     Packets t = mark 0 (entries lo (i - 1)) (Packets s) \<and> delivery_frame s t"

lemma cleared_start: "cleared P lo lo s s"
  by (simp add: cleared_def)

text \<open>One round that delivers and clears, and one that only clears.\<close>

lemma cleared_deliver:
  assumes "cleared P lo i s t" "deliver_and_clear i t = Some r" "i - lo < MAX_PACKETS_IN_STRUCT" "P i"
  shows "cleared P lo (i + 1) s r"
proof -
  have le: "lo \<le> i" and P: "Packets t = mark 0 (entries lo (i - 1)) (Packets s)"
    using assms(1) by (simp_all add: cleared_def)
  note same = entry_still_there [OF P le assms(3)]
  note spec = deliver_and_clear_spec [OF assms(2)]
  have "delivers (filter (\<lambda>j. exist_at s j = 1 \<and> P j) [lo..i - 1] @ filter (\<lambda>j. exist_at t j = 1) [i]) s r"
    by (rule delivers_append [OF _ spec(1)]) (use assms(1) same in \<open>auto simp: cleared_def split: if_splits\<close>)
  then have "delivers (filter (\<lambda>j. exist_at s j = 1 \<and> P j) [lo..i]) s r"
    using le assms(4) same by (simp add: upto_rec2 split: if_splits)
  moreover have "Packets r = mark 0 (entries lo i) (Packets s)"
    unfolding spec(3) P entries_snoc [OF le] by (auto simp: mark_def fun_eq_iff)
  moreover have "delivery_frame s r" using assms(1) spec(2) delivery_frame_trans by (auto simp: cleared_def)
  ultimately show ?thesis using le by (simp add: cleared_def)
qed

lemma cleared_skip:
  assumes "cleared P lo i s t" "i - lo < MAX_PACKETS_IN_STRUCT" "exist_at s i \<noteq> 1 \<or> \<not> P i"
  shows "cleared P lo (i + 1) s (set_exist (pack_entry i) 0 t)"
proof -
  let ?r = "set_exist (pack_entry i) 0 t"
  have le: "lo \<le> i" and P: "Packets t = mark 0 (entries lo (i - 1)) (Packets s)"
    using assms(1) by (simp_all add: cleared_def)
  have "filter (\<lambda>j. exist_at s j = 1 \<and> P j) [lo..i] = filter (\<lambda>j. exist_at s j = 1 \<and> P j) [lo..i - 1]"
    using le assms(3) by (auto simp: upto_rec2)
  moreover have "Packets ?r = mark 0 (entries lo i) (Packets s)"
    unfolding entries_snoc [OF le] by (auto simp: set_exist_def set_packet_def P mark_def fun_eq_iff)
  moreover have "delivery_frame t ?r" by (simp add: set_exist_def set_packet_def delivery_frame_def)
  then have "delivery_frame s ?r" using assms(1) delivery_frame_trans by (auto simp: cleared_def)
  moreover have "out ?r = out t" "Up_queue ?r = Up_queue t" by (simp_all add: set_exist_def set_packet_def)
  ultimately show ?thesis using assms(1) le delivers_cong by (auto simp: cleared_def)
qed

lemma cleared_Last_discarded: "cleared P lo i s t \<Longrightarrow> cleared P lo i s (t\<lparr>Last_discarded := n\<rparr>)"
proof -
  assume a: "cleared P lo i s t"
  have "delivery_frame t (t\<lparr>Last_discarded := n\<rparr>)" by (simp add: delivery_frame_def)
  then have "delivery_frame s (t\<lparr>Last_discarded := n\<rparr>)" using a delivery_frame_trans by (auto simp: cleared_def)
  then show ?thesis using a by (auto simp: cleared_def intro: delivers_cong)
qed

text \<open>
  The packets below the first hole and the first safe message are delivered; the loop stops
  there.
\<close>

lemma evs_before_spec:
  assumes "for_loop lo hi evs_before_round s = Some s'" "Last_discarded s = lo - 1" "lo \<le> hi + 1"
    "hi - lo < MAX_PACKETS_IN_STRUCT"
  shows "\<exists>k. Last_discarded s' = k \<and> lo - 1 \<le> k \<and> k \<le> hi \<and> cleared (\<lambda>_. True) lo (k + 1) s s' \<and>
     (\<forall>i. lo \<le> i \<and> i \<le> k \<longrightarrow> held s i \<and> \<not> safe_at s i) \<and> (k < hi \<longrightarrow> \<not> held s (k + 1) \<or> safe_at s (k + 1))"
proof -
  define P where "P = (\<lambda>i t. cleared (\<lambda>_. True) lo i s t \<and> Last_discarded t = i - 1 \<and> i \<le> hi + 1 \<and>
    (\<forall>j. lo \<le> j \<and> j < i \<longrightarrow> held s j \<and> \<not> safe_at s j))"
  define Q where "Q = (\<lambda>t. \<exists>i. P i t \<and> i \<le> hi \<and> (\<not> held s i \<or> safe_at s i))"
  have P0: "P lo s" using assms(2,3) cleared_start by (auto simp: P_def)
  have "P (max lo (hi + 1)) s' \<or> Q s'"
  proof (rule for_loop_rule [where P = P and Q = Q, OF assms(1) P0])
    fix i t r assume i: "lo \<le> i" "i \<le> hi" and p: "P i t" and b: "evs_before_round i t = Some (Continue r)"
    have w: "i - lo < MAX_PACKETS_IN_STRUCT" using i assms(4) by simp
    have same: "packet_at t i = packet_at s i"
      using p i w by (intro entry_still_there) (auto simp: P_def cleared_def)
    obtain u where u: "deliver_and_clear i t = Some u" "r = u\<lparr>Last_discarded := i\<rparr>" "held s i" "\<not> safe_at s i"
      using b same by (auto simp: evs_before_round_def held_def safe_at_def split: if_splits bind_splits)
    have "cleared (\<lambda>_. True) lo (i + 1) s r"
      unfolding u(2) by (rule cleared_Last_discarded, rule cleared_deliver [OF _ u(1) w]) (use p in \<open>simp_all add: P_def\<close>)
    moreover have "held s j \<and> \<not> safe_at s j" if "lo \<le> j" "j < i + 1" for j
      using that p u(3,4) by (cases "j = i") (auto simp: P_def)
    ultimately show "P (i + 1) r" using u(2) i by (simp add: P_def)
  next
    fix i t r assume i: "lo \<le> i" "i \<le> hi" and p: "P i t" and b: "evs_before_round i t = Some (Break r)"
    have same: "packet_at t i = packet_at s i"
      using p i assms(4) by (intro entry_still_there) (auto simp: P_def cleared_def)
    have "r = t" "\<not> held s i \<or> safe_at s i"
      using b same by (auto simp: evs_before_round_def held_def safe_at_def split: if_splits bind_splits)
    with p i show "Q r" by (auto simp: Q_def)
  qed
  then have "\<exists>i. P i s' \<and> (i = hi + 1 \<or> i \<le> hi \<and> (\<not> held s i \<or> safe_at s i))"
    using assms(3) by (auto simp: Q_def max_def split: if_splits)
  then obtain i where i: "P i s'" "i = hi + 1 \<or> i \<le> hi \<and> (\<not> held s i \<or> safe_at s i)" by blast
  have "lo \<le> i" using i(1) by (simp add: P_def cleared_def)
  with i show ?thesis by (intro exI [of _ "i - 1"]) (auto simp: P_def)
qed

section \<open>After it\<close>

text \<open>
  A packet behind the first hole is delivered only when its sender installs the new ring
  together with this daemon.
\<close>

definition committed :: "daemon \<Rightarrow> daemon \<Rightarrow> int \<Rightarrow> bool" where
  "committed c s i \<longleftrightarrow> ph_proc_id (pi_head (packet_at s i)) \<in> set (ring_ids (Commit_membership c))"

definition after_hole :: "int \<Rightarrow> daemon \<Rightarrow> int \<Rightarrow> bool" where
  "after_hole lo s i \<longleftrightarrow> (\<exists>j \<in> set [lo..i]. exist_at s j = 3)"

definition goes_after :: "int \<Rightarrow> daemon \<Rightarrow> int \<Rightarrow> bool" where
  "goes_after lo s i \<longleftrightarrow> \<not> after_hole lo s i \<or> committed s s i"

lemma after_hole_step: "lo \<le> i \<Longrightarrow> after_hole lo s i \<longleftrightarrow> after_hole lo s (i - 1) \<or> exist_at s i = 3"
  by (auto simp: after_hole_def upto_rec2)

lemma evs_after_spec:
  assumes "for_loop lo hi evs_after_round (False, s) = Some (found, s')" "lo \<le> hi + 1" "hi - lo < MAX_PACKETS_IN_STRUCT"
  shows "cleared (goes_after lo s) lo (hi + 1) s s' \<and> (\<forall>i. lo \<le> i \<and> i \<le> hi \<longrightarrow> exist_at s i \<noteq> 0)"
proof -
  define P where "P = (\<lambda>i (f, t). cleared (goes_after lo s) lo i s t \<and> f = after_hole lo s (i - 1) \<and>
    (\<forall>j. lo \<le> j \<and> j < i \<longrightarrow> exist_at s j \<noteq> 0))"
  have P0: "P lo (False, s)" using cleared_start by (auto simp: P_def after_hole_def)
  have "P (max lo (hi + 1)) (found, s') \<or> False"
  proof (rule for_loop_rule [where P = P and Q = "\<lambda>_. False", OF assms(1) P0])
    fix i ft gr assume i: "lo \<le> i" "i \<le> hi" and p: "P i ft" and b: "evs_after_round i ft = Some (Continue gr)"
    obtain f t g r where ft: "ft = (f, t)" and gr: "gr = (g, r)" by (cases ft; cases gr) auto
    have w: "i - lo < MAX_PACKETS_IN_STRUCT" using i assms(3) by simp
    have cl: "cleared (goes_after lo s) lo i s t" and f: "f = after_hole lo s (i - 1)" using p by (simp_all add: P_def ft)
    have same: "packet_at t i = packet_at s i"
      using cl i w by (intro entry_still_there) (auto simp: cleared_def)
    have cm: "Commit_membership t = Commit_membership s"
      using cl delivery_frame_simps(7) by (auto simp: cleared_def)
    have ne: "exist_at s i \<noteq> 0" using b same by (auto simp: ft evs_after_round_def split: if_splits)
    have "cleared (goes_after lo s) lo (i + 1) s r \<and> g = after_hole lo s i"
    proof (cases "exist_at s i = 3")
      case True
      then have "g = True" "r = set_exist (pack_entry i) 0 t"
        using b same by (auto simp: ft gr evs_after_round_def split: if_splits)
      moreover have "cleared (goes_after lo s) lo (i + 1) s (set_exist (pack_entry i) 0 t)"
        by (rule cleared_skip [OF cl w]) (simp add: True)
      ultimately show ?thesis using True after_hole_step [OF i(1)] by simp
    next
      case no_hole: False
      then have g: "after_hole lo s i = f" using after_hole_step [OF i(1)] f by simp
      have go: "goes_after lo s i \<longleftrightarrow> \<not> f \<or> Conf_id_in_conf (Commit_membership t) (ph_proc_id (pi_head (packet_at t i))) \<noteq> -1"
        unfolding Conf_id_in_conf_iff by (simp add: goes_after_def g committed_def same cm)
      show ?thesis
      proof (cases "goes_after lo s i")
        case True
        then obtain u where "deliver_and_clear i t = Some u" "r = u" "g = f"
          using b same no_hole ne go by (auto simp: ft gr evs_after_round_def split: if_splits)
        with cleared_deliver [OF cl _ w True] g show ?thesis by simp
      next
        case False
        then have "r = set_exist (pack_entry i) 0 t" "g = f"
          using b same no_hole ne go by (auto simp: ft gr evs_after_round_def split: if_splits)
        with cleared_skip [OF cl w] False g show ?thesis by simp
      qed
    qed
    moreover have "exist_at s j \<noteq> 0" if "lo \<le> j" "j < i + 1" for j
      using that p ne by (cases "j = i") (auto simp: P_def ft)
    ultimately show "P (i + 1) gr" by (simp add: P_def gr)
  next
    fix i ft gr assume "evs_after_round i ft = Some (Break gr)"
    then show False by (auto simp: evs_after_round_def split: if_splits prod.splits)
  qed
  then show ?thesis using assms(2) by (auto simp: P_def max_def split: if_splits)
qed

section \<open>The new ring\<close>

text \<open>
  What the sessions get, in this order: messages, the transitional membership, messages, the
  regular membership.
\<close>

definition install_events :: "byte list list list \<Rightarrow> byte list list list \<Rightarrow> daemon \<Rightarrow> action list" where
  "install_events ms ns s =
     map Sess_deliver_message ms @ [Sess_deliver_trans_memb (Trans_membership s) (Trans_memb_id s)] @
     map Sess_deliver_message ns @ [Sess_deliver_reg_memb (Reg_membership s) (Membership_id s)]"

lemma Memb_regular_spec:
  assumes "Memb_regular s = Some s'"
  shows "out s' = out s" "State s' = OP" "Membership s' = Future_membership s" "Reg_membership s' = Future_membership s"
    "Membership_id s' = Future_membership_id s" "\<not> Transitional s'" "Memb_Just_Installed s'"
    "Trans_membership s' = Trans_membership s" "Trans_memb_id s' = Trans_memb_id s"
    "Conf_Reload_Singleton_State s' = Conf_Reload_Singleton_State s" "Packets s' = Packets s" "Up_queue s' = Up_queue s"
    "cur_element s' = cur_element s" "Down_queue s' = Down_queue s" "member_list (Commit_set s') = [p_id (My s)]"
  using assms
  by (auto simp: Memb_regular_def Shift_to_op_def E_queue_def Let_def member_list_def arr_list_def split: bind_splits if_splits)

lemma Memb_regular_commit: "Memb_regular s = Some s' \<Longrightarrow> Commit_membership s' = Commit_membership s"
  by (auto simp: Memb_regular_def Shift_to_op_def E_queue_def Let_def split: bind_splits if_splits)

lemma evs_reset_spec:
  assumes "evs_reset s = Some s'"
  shows "out s' = out s @ (if Conf_Reload_Singleton_State s then [Net_clear_partition] else [])"
    "State s' = State s" "Highest_seq s' = 0" "My_aru s' = 0" "Aru s' = 0" "Last_discarded s' = 0" "Last_delivered s' = 0"
    "Packets s' = Packets s" "Up_queue s' = Up_queue s" "Membership s' = Membership s" "Membership_id s' = Membership_id s"
    "Reg_membership s' = Reg_membership s" "Trans_membership s' = Trans_membership s" "Trans_memb_id s' = Trans_memb_id s"
    "Commit_membership s' = Commit_membership s" "cur_element s' = cur_element s"
  using assms by (auto simp: evs_reset_def E_queue_def emit_def split: bind_splits if_splits)

lemma evs_clear_queues_simps:
  "out (evs_clear_queues s) = out s" "Packets (evs_clear_queues s) = Packets s"
  "Trans_membership (evs_clear_queues s) = Trans_membership s" "Trans_memb_id (evs_clear_queues s) = Trans_memb_id s"
  "Commit_membership (evs_clear_queues s) = Commit_membership s" "Future_membership (evs_clear_queues s) = Future_membership s"
  "Future_membership_id (evs_clear_queues s) = Future_membership_id s"
  "Conf_Reload_Singleton_State (evs_clear_queues s) = Conf_Reload_Singleton_State s"
  "0 \<le> i \<Longrightarrow> i < MAX_PROCS_RING \<Longrightarrow> Up_queue (evs_clear_queues s) i = None"
  by (simp_all add: evs_clear_queues_def)

lemma delivery_frame_memb:
  assumes "delivery_frame s s'"
  shows "Future_membership s' = Future_membership s" "Future_membership_id s' = Future_membership_id s"
    "Commit_set s' = Commit_set s" "Cn s' = Cn s" "F_trans_memb_time s' = F_trans_memb_time s"
    "Trans_membership s' = Trans_membership s" "Trans_memb_id s' = Trans_memb_id s"
    "Conf_Reload_Singleton_State s' = Conf_Reload_Singleton_State s"
proof -
  obtain p q o' d c where "s' = s\<lparr>Packets := p, Up_queue := q, out := o', Last_delivered := d, Last_discarded := c\<rparr>"
    using assms unfolding delivery_frame_def by blast
  then show "Future_membership s' = Future_membership s" "Future_membership_id s' = Future_membership_id s"
    "Commit_set s' = Commit_set s" "Cn s' = Cn s" "F_trans_memb_time s' = F_trans_memb_time s"
    "Trans_membership s' = Trans_membership s" "Trans_memb_id s' = Trans_memb_id s"
    "Conf_Reload_Singleton_State s' = Conf_Reload_Singleton_State s" by simp_all
qed

text \<open>The stages of an installation.\<close>

lemma evs_install_cases:
  assumes "evs_install s = Some s'"
  obtains t u v f w where
    "for_loop (Last_discarded s + 1) (Highest_seq s) evs_before_round s = Some t" "Memb_transitional t = Some u"
    "for_loop (Last_discarded t + 1) (Highest_seq t) evs_after_round
       (False, emit (Sess_deliver_trans_memb (Trans_membership u) (Trans_memb_id u)) u) = Some (f, v)"
    "\<forall>i. 0 \<le> i \<and> i < MAX_PACKETS_IN_STRUCT \<longrightarrow> pi_exist (Packets v i) = 0"
    "Memb_regular (evs_clear_queues v) = Some w"
    "evs_reset (emit (Sess_deliver_reg_memb (Reg_membership w) (Membership_id w)) w) = Some s'"
proof -
  obtain t u f v w where *: "for_loop (Last_discarded s + 1) (Highest_seq s) evs_before_round s = Some t"
      "Memb_transitional t = Some u"
      "(let s = emit (Sess_deliver_trans_memb (Trans_membership u) (Trans_memb_id u)) u
        in for_loop (Last_discarded s + 1) (Highest_seq s) evs_after_round (False, s)) = Some (f, v)"
      "\<not> (\<exists>i \<in> set [0..MAX_PACKETS_IN_STRUCT - 1]. pi_exist (Packets v i) \<noteq> 0)"
      "Memb_regular (evs_clear_queues v) = Some w"
      "evs_reset (emit (Sess_deliver_reg_memb (Reg_membership w) (Membership_id w)) w) = Some s'"
    using assms by (auto simp: evs_install_def Let_def split: bind_splits if_splits prod.splits)
  obtain b a c d where "u = t\<lparr>Transitional := b, Trans_membership := a, Trans_memb_id := c, Commit_membership := d\<rparr>"
    using Memb_transitional_spec(5) [OF *(2)] by blast
  then have "Last_discarded u = Last_discarded t" "Highest_seq u = Highest_seq t" by simp_all
  with * show ?thesis by (intro that) (auto simp: emit_def Let_def)
qed

lemma evs_install_spec:
  assumes "evs_install s = Some s'" "Last_discarded s \<le> Highest_seq s"
    "Highest_seq s - Last_discarded s \<le> MAX_PACKETS_IN_STRUCT"
  shows "\<exists>k ms up ns up'. Last_discarded s \<le> k \<and> k \<le> Highest_seq s \<and>
     (\<forall>i. Last_discarded s < i \<and> i \<le> k \<longrightarrow> held s i \<and> \<not> safe_at s i) \<and>
     (k < Highest_seq s \<longrightarrow> \<not> held s (k + 1) \<or> safe_at s (k + 1)) \<and>
     message_trace (map (packet_at s) (filter (\<lambda>i. exist_at s i = 1) [Last_discarded s + 1..k])) (Up_queue s) = Some (ms, up) \<and>
     message_trace (map (packet_at s) (filter (\<lambda>i. exist_at s i = 1 \<and> (\<not> after_hole (k + 1) s i \<or> committed s' s i))
        [k + 1..Highest_seq s])) up = Some (ns, up') \<and>
     out s' = out s @ install_events ms ns s' @ (if Conf_Reload_Singleton_State s then [Net_clear_partition] else []) \<and>
     State s' = OP \<and> Membership s' = Future_membership s \<and> Membership_id s' = Future_membership_id s \<and>
     Reg_membership s' = Future_membership s \<and>
     ring_ids (Trans_membership s') =
       filter (\<lambda>i. i \<in> set (arr_list (members (Commit_set s)) (num_pending (Commit_set s)))) (ring_ids (Cn s)) \<and>
     (\<forall>e. 0 \<le> e \<and> e < MAX_PACKETS_IN_STRUCT \<longrightarrow> pi_exist (Packets s' e) = 0) \<and>
     (\<forall>i. 0 \<le> i \<and> i < MAX_PROCS_RING \<longrightarrow> Up_queue s' i = None) \<and>
     Highest_seq s' = 0 \<and> My_aru s' = 0 \<and> Aru s' = 0 \<and> Last_discarded s' = 0 \<and> Last_delivered s' = 0"
proof -
  let ?L = "Last_discarded s" and ?H = "Highest_seq s"
  obtain t u v f w where
      bef: "for_loop (?L + 1) ?H evs_before_round s = Some t" and tr: "Memb_transitional t = Some u" and
      aft: "for_loop (Last_discarded t + 1) (Highest_seq t) evs_after_round
       (False, emit (Sess_deliver_trans_memb (Trans_membership u) (Trans_memb_id u)) u) = Some (f, v)" and
      empty: "\<forall>i. 0 \<le> i \<and> i < MAX_PACKETS_IN_STRUCT \<longrightarrow> pi_exist (Packets v i) = 0" and
      reg: "Memb_regular (evs_clear_queues v) = Some w" and
      rst: "evs_reset (emit (Sess_deliver_reg_memb (Reg_membership w) (Membership_id w)) w) = Some s'"
    by (rule evs_install_cases [OF assms(1)])
  obtain k where k: "Last_discarded t = k" "?L \<le> k" "k \<le> ?H" "cleared (\<lambda>_. True) (?L + 1) (k + 1) s t"
      "\<forall>i. ?L + 1 \<le> i \<and> i \<le> k \<longrightarrow> held s i \<and> \<not> safe_at s i" "k < ?H \<longrightarrow> \<not> held s (k + 1) \<or> safe_at s (k + 1)"
    using evs_before_spec [OF bef] assms(2,3) by auto
  have ft: "delivery_frame s t" using k(4) by (simp add: cleared_def)
  note fts = delivery_frame_simps [OF ft] delivery_frame_memb [OF ft]
  define u' where "u' = emit (Sess_deliver_trans_memb (Trans_membership u) (Trans_memb_id u)) u"
  obtain b a c d where u: "u = t\<lparr>Transitional := b, Trans_membership := a, Trans_memb_id := c, Commit_membership := d\<rparr>"
    using Memb_transitional_spec(5) [OF tr] by blast
  have u': "Packets u' = Packets t" "Up_queue u' = Up_queue t" "Trans_membership u' = a" "Trans_memb_id u' = c"
      "Commit_membership u' = d" "out u' = out t @ [Sess_deliver_trans_memb a c]"
      "Future_membership u' = Future_membership t" "Future_membership_id u' = Future_membership_id t"
      "Conf_Reload_Singleton_State u' = Conf_Reload_Singleton_State t"
    by (simp_all add: u'_def u emit_def)
  have aft': "cleared (goes_after (k + 1) u') (k + 1) (?H + 1) u' v"
    using evs_after_spec [OF aft [folded u'_def]] k fts(4) assms(3) by simp
  have fv: "delivery_frame u' v" using aft' by (simp add: cleared_def)
  note fvs = delivery_frame_simps [OF fv] delivery_frame_memb [OF fv]
  have same: "packet_at u' i = packet_at s i" if "k < i" "i \<le> ?H" for i
  proof -
    have "pack_entry i \<notin> entries (?L + 1) k"
    proof
      assume "pack_entry i \<in> entries (?L + 1) k"
      then obtain j where "pack_entry i = pack_entry j" "?L + 1 \<le> j" "j \<le> k" by (auto simp: entries_def)
      with pack_entry_inj [of i j] assms(3) that show False by simp
    qed
    then show ?thesis using k(4) u'(1) by (simp add: cleared_def)
  qed
  note ws = Memb_regular_spec [OF reg] Memb_regular_commit [OF reg]
  note rs = evs_reset_spec [OF rst]
  have commit: "Commit_membership s' = d" using rs(15) ws(16) fvs(7) u'(5) by (simp add: evs_clear_queues_simps emit_def)
  obtain ms where ms: "message_trace (map (packet_at s) (filter (\<lambda>i. exist_at s i = 1) [?L + 1..k])) (Up_queue s) = Some (ms, Up_queue t)"
      "out t = out s @ map Sess_deliver_message ms"
    using k(4) by (auto simp: cleared_def delivers_def)
  have goes: "goes_after (k + 1) u' i \<longleftrightarrow> \<not> after_hole (k + 1) s i \<or> committed s' s i" if "k < i" "i \<le> ?H" for i
    using same that u'(5) commit by (auto simp: goes_after_def after_hole_def committed_def)
  have fl: "filter (\<lambda>i. exist_at u' i = 1 \<and> goes_after (k + 1) u' i) [k + 1..?H] =
      filter (\<lambda>i. exist_at s i = 1 \<and> (\<not> after_hole (k + 1) s i \<or> committed s' s i)) [k + 1..?H]"
    by (rule filter_cong) (use same goes in auto)
  obtain ns where ns: "message_trace (map (packet_at u')
        (filter (\<lambda>i. exist_at u' i = 1 \<and> goes_after (k + 1) u' i) [k + 1..?H])) (Up_queue t) = Some (ns, Up_queue v)"
      "out v = out u' @ map Sess_deliver_message ns"
    using aft' u'(2) by (auto simp: cleared_def delivers_def)
  have "map (packet_at u') (filter (\<lambda>i. exist_at u' i = 1 \<and> goes_after (k + 1) u' i) [k + 1..?H]) =
      map (packet_at s) (filter (\<lambda>i. exist_at s i = 1 \<and> (\<not> after_hole (k + 1) s i \<or> committed s' s i)) [k + 1..?H])"
    unfolding fl by (rule map_cong) (use same in auto)
  note ns' = ns(1) [unfolded this]
  have memb: "Membership s' = Future_membership s" "Membership_id s' = Future_membership_id s" "Reg_membership s' = Future_membership s"
    "Trans_membership s' = a" "Trans_memb_id s' = c" "State s' = OP"
    using rs ws fvs fts u' by (simp_all add: evs_clear_queues_simps emit_def)
  have o: "out s' = out s @ install_events ms ns s' @ (if Conf_Reload_Singleton_State s then [Net_clear_partition] else [])"
    using rs(1) ws(1,4,5,10) ms(2) ns(2) fvs fts u' memb by (simp add: evs_clear_queues_simps emit_def install_events_def)
  have tm: "ring_ids (Trans_membership s') =
       filter (\<lambda>i. i \<in> set (arr_list (members (Commit_set s)) (num_pending (Commit_set s)))) (ring_ids (Cn s))"
    using Memb_transitional_spec(1) [OF tr] memb(4) fts by (simp add: u)
  have z: "Highest_seq s' = 0 \<and> My_aru s' = 0 \<and> Aru s' = 0 \<and> Last_discarded s' = 0 \<and> Last_delivered s' = 0"
    using rs by simp
  have e: "\<forall>e. 0 \<le> e \<and> e < MAX_PACKETS_IN_STRUCT \<longrightarrow> pi_exist (Packets s' e) = 0"
    using empty rs(8) ws(11) by (simp add: evs_clear_queues_simps emit_def)
  have uq: "\<forall>i. 0 \<le> i \<and> i < MAX_PROCS_RING \<longrightarrow> Up_queue s' i = None"
    using rs(9) ws(12) by (simp add: evs_clear_queues_simps emit_def)
  show ?thesis
    by (rule exI [of _ k], rule exI [of _ ms], rule exI [of _ "Up_queue t"], rule exI [of _ ns], rule exI [of _ "Up_queue v"])
       (intro conjI; use k(2,3,5,6) ms(1) ns' memb o tm z e uq in \<open>simp add: add1_zle_eq\<close>)
qed

end
