(* ===== verification/Window.thy ===== *)
theory Window
  imports DeliverySpec ProtToken
begin

text \<open>
  The window of sequence numbers that the packet table holds: \<open>Last_discarded\<close> below,
  \<open>Highest_seq\<close> above, \<open>My_aru\<close> in between. The invariant \<open>window_ok\<close> says what the table
  contains; sending, receiving, delivering and discarding keep it, and while it holds sending
  never meets one of its fatal errors.
\<close>

section \<open>Sending does not fail\<close>

lemma advance_fragment_total:
  assumes "down_queue_ok s" "Down_queue s \<noteq> []"
  shows "\<exists>h' b' s'. advance_fragment frag h b s = Some (h', b', s')"
proof -
  obtain d q where dq: "Down_queue s = d # q" using assms(2) by (cases "Down_queue s") auto
  have "cur_element s < length (dl_mess d)" by (rule next_element(3) [OF assms(1) dq])
  then show ?thesis using dq by (auto simp: advance_fragment_def Let_def split: prod.splits)
qed

lemma next_fits_total: "down_queue_ok s \<Longrightarrow> next_fits h s \<noteq> None"
  by (auto simp: next_fits_def Let_def down_queue_ok_def split: list.splits)

lemma append_fragment_total:
  "0 \<le> snd el \<Longrightarrow> snd el \<le> sizeof_packet_body \<Longrightarrow> append_fragment h b el \<noteq> None"
  by (simp add: append_fragment_def Let_def)

lemma pack_loop_total:
  "down_queue_ok s \<Longrightarrow> Down_queue s \<noteq> [] \<Longrightarrow> pack_loop frag h b s \<noteq> None"
proof (induction frag h b s rule: pack_loop.induct)
  case (1 frag h b s)
  obtain d q where dq: "Down_queue s = d # q" using "1.prems"(2) by (cases "Down_queue s") auto
  obtain h1 b1 s1 where a: "advance_fragment frag h b s = Some (h1, b1, s1)"
    using advance_fragment_total [OF "1.prems"] by blast
  have ok: "down_queue_ok s1" by (rule advance_fragment_spec(2) [OF a "1.prems"(1) dq])
  obtain fits where f: "next_fits h1 s1 = Some fits" using next_fits_total [OF ok] by auto
  show ?case
  proof (cases fits)
    case False
    with a f "1.prems"(2) show ?thesis by (simp add: pack_loop.simps [of _ _ _ s])
  next
    case True
    then obtain d1 q1 where dq1: "Down_queue s1 = d1 # q1"
      using f by (auto simp: next_fits_def split: list.splits)
    obtain h2 b2 hdr where ap: "append_fragment h1 b1 (dl_mess d1 ! cur_element s1) = Some (h2, b2, hdr)"
      using append_fragment_total [OF next_element(1,2) [OF ok dq1]] by (metis option.exhaust prod_cases3)
    have "pack_loop (Some hdr) h2 b2 s1 \<noteq> None"
      by (rule "1.IH" [OF "1.prems"(2) a refl refl f]) (use True dq1 ap ok in simp_all)
    with a f True dq1 ap "1.prems"(2) show ?thesis by (simp add: pack_loop.simps [of _ _ _ s])
  qed
qed

text \<open>The entry of the next packet is free.\<close>

lemma send_one_packet_total:
  assumes "down_queue_ok s" "Down_queue s \<noteq> []" "exist_at s (Highest_seq s + 1) = 0"
  shows "\<exists>s'. send_one_packet s = Some s'"
proof -
  obtain d q where dq: "Down_queue s = d # q" using assms(2) by (cases "Down_queue s") auto
  define el where "el = dl_mess d ! cur_element s"
  note el = next_element [OF assms(1) dq, folded el_def]
  define s1 where "s1 = s\<lparr>Highest_seq := Highest_seq s + 1, Highest_fifo_seq := Highest_fifo_seq s + 1\<rparr>"
  have ok1: "down_queue_ok s1"
    by (subst down_queue_ok_cong [where s = s]) (use assms(1) in \<open>simp_all add: s1_def\<close>)
  obtain h b s2 where pl: "pack_loop None (start_packet d el s) (fst el) s1 = Some (h, b, s2)"
    using pack_loop_total [OF ok1] dq by (simp add: s1_def) (metis option.exhaust prod_cases3)
  obtain h' k s3 where bc: "Prot_queue_bcast (h, b) s2 = (h', k, s3)" by (cases "Prot_queue_bcast (h, b) s2") auto
  have pk: "packing None (start_packet d el s) (fst el) (snd el) []"
    using el by (simp add: packing_def start_packet_def)
  have hk: "ph_seq h = Highest_seq s + 1" and same: "same_but_queue s1 s2"
    using pack_loop_spec [OF pl ok1 pk] by (auto simp: header_kept_def start_packet_def)
  note bcr = Prot_queue_bcast_spec [OF bc]
  have "Packets s2 = Packets s" using same_but_queue_simps(1) [OF same] by (simp add: s1_def)
  then have "pi_exist (Packets s3 e) = pi_exist (Packets s e)" for e
    using bcr(1) by (simp add: bcast_rel_def) (metis packet_same_simps(1))
  moreover have "ph_seq h' = Highest_seq s + 1" using bcr(2) hk by auto
  ultimately have "insert_new_packet h' b s3 \<noteq> None" using assms(3) by (simp add: insert_new_packet_def Let_def)
  then obtain s' where "insert_new_packet h' b s3 = Some s'" by auto
  with dq el(3) pl bc show ?thesis
    by (auto simp: send_one_packet_def Let_def el_def s1_def)
qed

lemma send_packets_total:
  "down_queue_ok s \<Longrightarrow> (\<forall>i. Highest_seq s < i \<and> i \<le> Highest_seq s + int k \<longrightarrow> exist_at s i = 0) \<Longrightarrow>
   k \<le> 8192 \<Longrightarrow> \<exists>n s'. send_packets k s = Some (n, s')"
proof (induction k arbitrary: s)
  case (Suc k)
  show ?case
  proof (cases "Down_queue s = []")
    case False
    obtain t where t: "send_one_packet s = Some t"
      using send_one_packet_total [OF Suc.prems(1) False] Suc.prems(2) by auto
    obtain els where one: "new_packet_ok s t els" "down_queue_ok t"
      using send_one_packet_spec [OF t Suc.prems(1)] by metis
    have "exist_at t i = 0" if i: "Highest_seq t < i" "i \<le> Highest_seq t + int k" for i
    proof -
      have H: "Highest_seq t = Highest_seq s + 1" using one(1) by (simp add: new_packet_ok_def Let_def)
      have "pack_entry i \<noteq> pack_entry (Highest_seq s + 1)"
        using pack_entry_inj [of i "Highest_seq s + 1"] i H Suc.prems(3) by auto
      then have "packet_same (packet_at s i) (packet_at t i)" using one(1) by (simp add: new_packet_ok_def Let_def)
      then show ?thesis using Suc.prems(2) i H by (simp add: packet_same_simps)
    qed
    then obtain n s' where "send_packets k t = Some (n, s')" using Suc.IH [OF one(2)] Suc.prems(3) by auto
    with t False show ?thesis by auto
  qed simp
qed simp

section \<open>The window\<close>

text \<open>
  Up to \<open>My_aru\<close> nothing is missing, up to \<open>Last_delivered\<close> everything has been delivered, an
  entry in the window holds the packet of its number, and above the window all entries are free.
\<close>

definition window_ok :: "daemon \<Rightarrow> bool" where
  "window_ok s \<longleftrightarrow>
     Last_discarded s \<le> Last_delivered s \<and> Last_delivered s \<le> My_aru s \<and> My_aru s \<le> Highest_seq s \<and>
     Highest_seq s - Last_discarded s \<le> MAX_PACKETS_IN_STRUCT \<and>
     (\<forall>i. Last_discarded s < i \<and> i \<le> My_aru s \<longrightarrow> exist_at s i \<noteq> 0) \<and>
     (\<forall>i. Last_discarded s < i \<and> i \<le> Last_delivered s \<longrightarrow> exist_at s i = 2) \<and>
     (\<forall>i. Last_discarded s < i \<and> i \<le> Highest_seq s \<and> exist_at s i \<noteq> 0 \<longrightarrow> ph_seq (pi_head (packet_at s i)) = i) \<and>
     (\<forall>i. Highest_seq s < i \<and> i \<le> Last_discarded s + MAX_PACKETS_IN_STRUCT \<longrightarrow> exist_at s i = 0)"

text \<open>\<open>My_aru\<close> is as high as the packets allow.\<close>

definition aru_max :: "daemon \<Rightarrow> bool" where
  "aru_max s \<longleftrightarrow> My_aru s = Highest_seq s \<or> exist_at s (My_aru s + 1) = 0"

lemma window_frame:
  assumes "Packets t = Packets s" "Last_discarded t = Last_discarded s" "Last_delivered t = Last_delivered s"
    "My_aru t = My_aru s" "Highest_seq t = Highest_seq s"
  shows "window_ok t = window_ok s" "aru_max t = aru_max s"
  using assms by (simp_all add: window_ok_def aru_max_def)

subsection \<open>Delivering\<close>

text \<open>Delivering turns some packets into delivered ones.\<close>

definition kept :: "daemon \<Rightarrow> daemon \<Rightarrow> bool" where
  "kept s s' \<longleftrightarrow>
     delivery_frame s s' \<and> Last_delivered s' = Last_delivered s \<and> Last_discarded s' = Last_discarded s \<and>
     (\<forall>e. (pi_exist (Packets s' e) = pi_exist (Packets s e) \<or>
           pi_exist (Packets s e) = 1 \<and> pi_exist (Packets s' e) = 2) \<and>
          pi_head (Packets s' e) = pi_head (Packets s e))"

lemma kept_refl [simp]: "kept s s"
  by (simp add: kept_def)

lemma kept_trans:
  assumes "kept s t" "kept t u"
  shows "kept s u"
proof -
  have "(pi_exist (Packets u e) = pi_exist (Packets s e) \<or>
      pi_exist (Packets s e) = 1 \<and> pi_exist (Packets u e) = 2) \<and> pi_head (Packets u e) = pi_head (Packets s e)" for e
    using assms unfolding kept_def by (metis (no_types, lifting))
  moreover have "delivery_frame s u" using assms delivery_frame_trans by (auto simp: kept_def)
  ultimately show ?thesis using assms by (simp add: kept_def)
qed

lemma Deliver_packet_kept:
  "Deliver_packet (pack_entry i) c s = Some s' \<Longrightarrow> exist_at s i = 1 \<Longrightarrow> kept s s'"
  using Deliver_packet_spec [of i c s s'] by (simp add: kept_def)

lemma reliable_kept: "Deliver_reliable_packets i n s = Some s' \<Longrightarrow> kept s s'"
proof -
  assume a: "Deliver_reliable_packets i n s = Some s'"
  show ?thesis
  proof (cases "s' = s")
    case False
    with a obtain lo hi where l: "for_loop lo hi deliver_reliable_round s = Some s'"
      by (auto simp: Deliver_reliable_packets_def Let_def split: if_splits)
    show ?thesis
      by (rule for_loop_invariant [where P = "kept s", OF l])
         (auto simp: deliver_reliable_round_def split: if_splits dest: Deliver_packet_kept intro: kept_trans)
  qed simp
qed

lemma kept_window:
  assumes "kept s s'" "window_ok s"
  shows "window_ok s'"
proof -
  have f: "Highest_seq s' = Highest_seq s" "My_aru s' = My_aru s"
    using assms(1) delivery_frame_simps by (auto simp: kept_def)
  have e: "exist_at s' i = 0 \<longleftrightarrow> exist_at s i = 0" "exist_at s i = 2 \<Longrightarrow> exist_at s' i = 2"
      "pi_head (packet_at s' i) = pi_head (packet_at s i)" for i
    using assms(1) unfolding kept_def by (metis zero_neq_numeral zero_neq_one one_neq_zero)+
  show ?thesis using assms e f by (simp add: window_ok_def kept_def)
qed

lemma kept_aru_max: "kept s s' \<Longrightarrow> aru_max s \<Longrightarrow> aru_max s'"
proof -
  assume a: "kept s s'" "aru_max s"
  have "Highest_seq s' = Highest_seq s" "My_aru s' = My_aru s"
    using a(1) delivery_frame_simps by (auto simp: kept_def)
  moreover have "exist_at s' i = 0 \<longleftrightarrow> exist_at s i = 0" for i
    using a(1) unfolding kept_def by (metis zero_neq_numeral zero_neq_one)
  ultimately show ?thesis using a(2) by (simp add: aru_max_def)
qed

lemma agreed_window:
  assumes "Deliver_agreed_packets s = Some s'" "window_ok s"
  shows "window_ok s'" "aru_max s \<Longrightarrow> aru_max s'" "delivery_frame s s'" "Last_discarded s' = Last_discarded s"
proof -
  have "window_ok s' \<and> (aru_max s \<longrightarrow> aru_max s') \<and> delivery_frame s s' \<and> Last_discarded s' = Last_discarded s"
  proof (cases "s' = s")
    case False
    with assms(1) have run: "State s \<noteq> EVS" "\<not> AGREED_TYPE < Prot_delivery_threshold s"
      by (auto simp: Deliver_agreed_packets_def split: if_splits)
    let ?k = "Last_delivered s'"
    have w: "Last_discarded s \<le> Last_delivered s" "Last_delivered s \<le> My_aru s" "My_aru s \<le> Highest_seq s"
        "Highest_seq s - Last_discarded s \<le> 8192" using assms(2) by (simp_all add: window_ok_def)
    have r: "agreed_run (Last_delivered s + 1) (My_aru s) s s'"
      by (rule Deliver_agreed_packets_run [OF assms(1) run(1)]) (use run(2) w in auto)
    then have k: "Last_delivered s \<le> ?k" "?k \<le> My_aru s" and P: "Packets s' = mark 2 (entries (Last_delivered s + 1) ?k) (Packets s)"
        and ld: "Last_discarded s' = Last_discarded s" and fr: "delivery_frame s s'"
        and ex: "\<forall>i. Last_delivered s + 1 \<le> i \<and> i \<le> ?k \<longrightarrow> exist_at s i = 2 \<or> exist_at s i = 1"
      by (auto simp: agreed_run_def Let_def)
    have e: "exist_at s' i = 0 \<longleftrightarrow> exist_at s i = 0" for i
    proof (cases "pack_entry i \<in> entries (Last_delivered s + 1) ?k")
      case True
      then obtain j where j: "pack_entry i = pack_entry j" "Last_delivered s + 1 \<le> j" "j \<le> ?k" by (auto simp: entries_def)
      with ex True show ?thesis by (auto simp: P)
    qed (simp add: P)
    have two: "exist_at s' i = 2" if i: "Last_discarded s < i" "i \<le> ?k" for i
    proof (cases "i \<le> Last_delivered s")
      case True
      with assms(2) i have "exist_at s i = 2" by (simp add: window_ok_def)
      then show ?thesis by (simp add: P mark_def)
    next
      case False
      then have "pack_entry i \<in> entries (Last_delivered s + 1) ?k" using i by (auto simp: entries_def)
      then show ?thesis by (simp add: P)
    qed
    have hd: "pi_head (packet_at s' i) = pi_head (packet_at s i)" for i by (simp add: P)
    note f = delivery_frame_simps(4,5) [OF fr]
    have "window_ok s'" using assms(2) e two hd f k ld by (simp add: window_ok_def)
    moreover have "aru_max s \<longrightarrow> aru_max s'" using e f by (simp add: aru_max_def)
    ultimately show ?thesis using fr ld by simp
  qed (use assms in simp)
  then show "window_ok s'" "aru_max s \<Longrightarrow> aru_max s'" "delivery_frame s s'" "Last_discarded s' = Last_discarded s" by auto
qed

subsection \<open>Receiving\<close>

lemma advance_aru_spec:
  "advance_aru ex [a + 1..h] a = b \<Longrightarrow> a \<le> h \<Longrightarrow>
     a \<le> b \<and> b \<le> h \<and> (\<forall>i. a < i \<and> i \<le> b \<longrightarrow> ex i \<noteq> 0) \<and> (b = h \<or> ex (b + 1) = 0)"
proof (induction "nat (h - a)" arbitrary: a)
  case (Suc k)
  then have up: "[a + 1..h] = (a + 1) # [a + 1 + 1..h]" by (intro upto_rec1) simp
  show ?case
  proof (cases "ex (a + 1) = 0")
    case True
    with Suc.prems up show ?thesis by auto
  next
    case False
    with Suc.prems up have "advance_aru ex [a + 1 + 1..h] (a + 1) = b" by simp
    with Suc.hyps(1) [of "a + 1"] Suc.hyps(2)
    have ih: "a + 1 \<le> b \<and> b \<le> h \<and> (\<forall>i. a + 1 < i \<and> i \<le> b \<longrightarrow> ex i \<noteq> 0) \<and> (b = h \<or> ex (b + 1) = 0)"
      by simp
    moreover have "ex i \<noteq> 0" if "a < i" "i \<le> b" for i
      using that ih False by (cases "i = a + 1") auto
    ultimately show ?thesis by auto
  qed
qed auto

lemma advance_my_aru_window:
  assumes "window_ok s"
  shows "window_ok (advance_my_aru (My_aru s + 1) s)" "aru_max (advance_my_aru (My_aru s + 1) s)"
proof -
  let ?b = "advance_aru (exist_at s) [My_aru s + 1..Highest_seq s] (My_aru s)"
  have "My_aru s \<le> Highest_seq s" using assms by (simp add: window_ok_def)
  note b = advance_aru_spec [of "exist_at s" "My_aru s" "Highest_seq s" ?b, OF refl this]
  have all: "exist_at s i \<noteq> 0" if "Last_discarded s < i" "i \<le> ?b" for i
    using that b assms by (cases "i \<le> My_aru s") (auto simp: window_ok_def)
  show "window_ok (advance_my_aru (My_aru s + 1) s)"
    using assms b all by (simp add: window_ok_def advance_my_aru_def)
  show "aru_max (advance_my_aru (My_aru s + 1) s)"
    using b by (simp add: aru_max_def advance_my_aru_def)
qed

text \<open>A packet that fits in the window and is not there yet.\<close>

lemma insert_window:
  assumes w: "window_ok s" and n: "ph_seq h = n" "Last_discarded s < n" "n \<le> Last_discarded s + MAX_PACKETS_IN_STRUCT"
    and free: "exist_at s n = 0"
  shows "window_ok (note_highest n (insert_received h b k s))"
    "n \<noteq> My_aru s + 1 \<Longrightarrow> aru_max s \<Longrightarrow> aru_max (note_highest n (insert_received h b k s))"
proof -
  let ?t = "note_highest n (insert_received h b k s)"
  have t: "packet_at ?t n = \<lparr>pi_head = h, pi_body = b, pi_exist = 1, pi_proc_index = k\<rparr>"
      "Last_discarded ?t = Last_discarded s" "Last_delivered ?t = Last_delivered s" "My_aru ?t = My_aru s"
      "Highest_seq ?t = max (Highest_seq s) n"
    using n(1) by (simp_all add: note_highest_def insert_received_def set_packet_def max_def)
  have same: "packet_at ?t i = packet_at s i" if "Last_discarded s < i" "i \<le> Last_discarded s + 8192" "i \<noteq> n" for i
  proof -
    have "\<bar>i - n\<bar> < 8192" using that(1,2) n(2,3) by linarith
    then have "pack_entry i \<noteq> pack_entry n" using pack_entry_inj [of i n] that(3) by auto
    then show ?thesis using n(1) by (simp add: note_highest_def insert_received_def set_packet_def)
  qed
  have ord: "Last_discarded s \<le> Last_delivered s" "Last_delivered s \<le> My_aru s" "My_aru s \<le> Highest_seq s"
      "Highest_seq s - Last_discarded s \<le> 8192" using w by (simp_all add: window_ok_def)
  have above: "My_aru s < n" using w free n(2) ord unfolding window_ok_def by (metis linorder_not_less)
  have ex: "exist_at ?t i = (if i = n then 1 else exist_at s i)" and
      sq: "ph_seq (pi_head (packet_at ?t i)) = (if i = n then n else ph_seq (pi_head (packet_at s i)))"
    if "Last_discarded s < i" "i \<le> Last_discarded s + 8192" for i
    using that same t(1) n(1) by auto
  show "window_ok ?t"
    unfolding window_ok_def t(2-5)
  proof (intro conjI allI impI)
    show "Last_discarded s \<le> Last_delivered s" "Last_delivered s \<le> My_aru s" "My_aru s \<le> max (Highest_seq s) n"
      "max (Highest_seq s) n - Last_discarded s \<le> 8192" using ord n(3) by auto
  next
    fix i assume "Last_discarded s < i \<and> i \<le> My_aru s"
    then show "exist_at ?t i \<noteq> 0" using ex [of i] w ord above by (simp add: window_ok_def)
  next
    fix i assume "Last_discarded s < i \<and> i \<le> Last_delivered s"
    then show "exist_at ?t i = 2" using ex [of i] w ord above by (simp add: window_ok_def)
  next
    fix i assume i: "Last_discarded s < i \<and> i \<le> max (Highest_seq s) n \<and> exist_at ?t i \<noteq> 0"
    then have le: "i \<le> Last_discarded s + 8192" using ord n(3) by auto
    show "ph_seq (pi_head (packet_at ?t i)) = i"
    proof (cases "i = n")
      case False
      then have "exist_at s i \<noteq> 0" using i ex [of i] le by simp
      moreover have "i \<le> Highest_seq s"
        using calculation w i le False unfolding window_ok_def by (metis linorder_not_less)
      ultimately show ?thesis using w i sq [of i] le False by (simp add: window_ok_def)
    qed (use i le sq [of i] in simp)
  next
    fix i assume "max (Highest_seq s) n < i \<and> i \<le> Last_discarded s + 8192"
    then show "exist_at ?t i = 0" using w ex [of i] n(2) by (simp add: window_ok_def)
  qed
  show "aru_max ?t" if "n \<noteq> My_aru s + 1" "aru_max s"
  proof -
    have "exist_at s (My_aru s + 1) = 0"
    proof (cases "My_aru s = Highest_seq s")
      case True
      moreover have "My_aru s + 1 \<le> Last_discarded s + 8192" using above n(3) by simp
      ultimately show ?thesis using w by (simp add: window_ok_def)
    qed (use that(2) in \<open>simp add: aru_max_def\<close>)
    moreover have "exist_at ?t (My_aru s + 1) = exist_at s (My_aru s + 1)"
      using ex [of "My_aru s + 1"] that(1) above n(3) ord by simp
    ultimately show ?thesis using t(4) by (simp add: aru_max_def)
  qed
qed

lemma deliver_received_window:
  assumes "deliver_received n s = Some s'" "window_ok s" "n \<noteq> My_aru s + 1 \<Longrightarrow> aru_max s"
  shows "window_ok s' \<and> aru_max s'"
proof (cases "n = My_aru s + 1")
  case True
  with assms(1) have "Deliver_agreed_packets (advance_my_aru (My_aru s + 1) s) = Some s'"
    by (simp add: deliver_received_def)
  with agreed_window [OF this] advance_my_aru_window [OF assms(2)] show ?thesis by blast
next
  case False
  with assms have "kept s s'" by (auto simp: deliver_received_def dest: reliable_kept)
  with kept_window kept_aru_max assms False show ?thesis by blast
qed

text \<open>What comes before the insertion leaves the window alone.\<close>

definition same_window :: "daemon \<Rightarrow> daemon \<Rightarrow> bool" where
  "same_window s t \<longleftrightarrow> Packets t = Packets s \<and> Last_discarded t = Last_discarded s \<and>
     Last_delivered t = Last_delivered s \<and> My_aru t = My_aru s \<and> Highest_seq t = Highest_seq s"

lemma same_windowD: "same_window s t \<Longrightarrow> window_ok t = window_ok s \<and> aru_max t = aru_max s"
  using window_frame unfolding same_window_def by blast

lemma same_window_timers [simp]:
  "same_window s (E_queue h c d t) = same_window s t" "same_window s (E_dequeue h c t) = same_window s t"
  "same_window s (emit a t) = same_window s t"
  by (simp_all add: same_window_def E_queue_def E_dequeue_def emit_def)

lemma same_window_refl [simp]: "same_window s s"
  by (simp add: same_window_def)

lemma same_window_note_traffic: "note_traffic s = Some t \<Longrightarrow> same_window s t"
  by (auto simp: note_traffic_def Let_def split: if_splits bind_splits)

lemma same_window_priority:
  "token_priority_up s = Some t \<Longrightarrow> same_window s t" "token_priority_down s = Some t \<Longrightarrow> same_window s t"
  by (auto simp: token_priority_up_def token_priority_down_def same_window_def split: bind_splits)

lemma same_window_raise: "raise_token_priority h s = Some t \<Longrightarrow> same_window s t"
  by (auto simp: raise_token_priority_def same_window_priority split: if_splits)

lemma set_proc_index_window:
  "window_ok (set_packet e ((Packets s e)\<lparr>pi_proc_index := k\<rparr>) s) = window_ok s"
  "aru_max (set_packet e ((Packets s e)\<lparr>pi_proc_index := k\<rparr>) s) = aru_max s"
proof -
  let ?t = "set_packet e ((Packets s e)\<lparr>pi_proc_index := k\<rparr>) s"
  have "pi_exist (Packets ?t i) = pi_exist (Packets s i)" "pi_head (Packets ?t i) = pi_head (Packets s i)" for i
    by (simp_all add: set_packet_def)
  then show "window_ok ?t = window_ok s" "aru_max ?t = aru_max s"
    by (simp_all add: window_ok_def aru_max_def) (simp_all add: set_packet_def)
qed

lemma flip_packet_seq: "flip_packet h b = Some (h', b') \<Longrightarrow> ph_seq h' = ph_seq h"
  by (auto simp: flip_packet_def Let_def split: if_splits)

lemma handle_regular_window:
  assumes "handle_regular h b s = Some s'" "window_ok s" "aru_max s"
    and "ph_seq h \<le> Last_discarded s + MAX_PACKETS_IN_STRUCT"
  shows "window_ok s' \<and> aru_max s'"
proof -
  obtain t where t: "note_traffic s = Some t" using assms(1) by (auto simp: handle_regular_def split: bind_splits)
  note st = same_window_note_traffic [OF t]
  note w = same_windowD [OF st]
  define k where "k = fst (Conf_id t (ph_proc_id h))"
  define u where "u = set_packet (pack_entry (ph_seq h)) ((packet_at t (ph_seq h))\<lparr>pi_proc_index := k\<rparr>) t"
  have wu: "window_ok u" "aru_max u" using set_proc_index_window w assms(2,3) by (simp_all add: u_def)
  have L: "Last_discarded t = Last_discarded s" using st by (simp add: same_window_def)
  show ?thesis
  proof (cases "ph_seq h \<le> Last_discarded t \<or> exist_at t (ph_seq h) \<noteq> 0 \<or> k < 0")
    case True
    then have "s' = t \<or> s' = u"
      using assms(1) t by (auto simp: handle_regular_def Let_def k_def u_def split: if_splits)
    with w wu assms(2,3) show ?thesis by auto
  next
    case False
    then obtain h' b' v where f: "flip_packet h b = Some (h', b')" and
        r: "raise_token_priority h' (insert_received h' b' k u) = Some v" and
        d: "deliver_received (ph_seq h') (note_highest (ph_seq h') v) = Some s'"
      using assms(1) t by (auto simp: handle_regular_def Let_def k_def [symmetric] u_def [symmetric] split: bind_splits prod.splits)
    define x where "x = note_highest (ph_seq h) (insert_received h' b' k u)"
    have seq: "ph_seq h' = ph_seq h" by (rule flip_packet_seq [OF f])
    have fu: "Last_discarded u = Last_discarded t" "exist_at u (ph_seq h) = exist_at t (ph_seq h)" "My_aru u = My_aru t"
      by (simp_all add: u_def set_packet_def)
    have ins: "window_ok x" "ph_seq h \<noteq> My_aru u + 1 \<Longrightarrow> aru_max x"
      unfolding x_def
      by (rule insert_window; use wu seq fu L assms(4) False in simp)+
    have "same_window (insert_received h' b' k u) v" by (rule same_window_raise [OF r])
    then have sx: "same_window x (note_highest (ph_seq h) v)" by (simp add: same_window_def note_highest_def x_def)
    have "My_aru x = My_aru u" by (simp add: x_def note_highest_def insert_received_def set_packet_def)
    with sx have m: "My_aru (note_highest (ph_seq h) v) = My_aru u" by (simp add: same_window_def)
    show ?thesis
      by (rule deliver_received_window [OF d]) (use ins same_windowD [OF sx] m seq in auto)
  qed
qed

subsection \<open>Sending and discarding\<close>

lemma discard_window:
  assumes "discard_stable s = Some s'" "window_ok s" "Last_discarded s \<le> Aru s" "Aru s \<le> My_aru s"
  shows "window_ok s'" "aru_max s \<Longrightarrow> aru_max s'"
proof -
  have w: "Last_discarded s \<le> Last_delivered s" "Last_delivered s \<le> My_aru s" "My_aru s \<le> Highest_seq s"
      "Highest_seq s - Last_discarded s \<le> 8192" using assms(2) by (simp_all add: window_ok_def)
  have "Aru s - Last_discarded s \<le> 8192" using w assms(4) by simp
  note r = discard_stable_run [OF assms(1) this]
  have P: "Packets s' = mark 0 (entries (Last_discarded s + 1) (Aru s)) (Packets s)"
      and fr: "delivery_frame s s'" using r(1) by (simp_all add: discard_run_def)
  note f = delivery_frame_simps(4,5) [OF fr]
  have ent: "pack_entry i \<in> entries (Last_discarded s + 1) (Aru s) \<longleftrightarrow> i \<le> Aru s"
    if "Last_discarded s < i" "i \<le> Last_discarded s + 8192" for i
    by (rule pack_entry_in_entries) (use that w assms(3,4) in auto)
  have ex: "exist_at s' i = (if i \<le> Aru s then 0 else exist_at s i)" and
      hd: "pi_head (packet_at s' i) = pi_head (packet_at s i)"
    if "Last_discarded s < i" "i \<le> Last_discarded s + 8192" for i
    using ent [OF that] by (auto simp: P mark_def)
  have wrap: "exist_at s' i = 0" if i: "Last_discarded s + 8192 < i" "i \<le> Aru s + 8192" for i
  proof -
    have "pack_entry i = pack_entry (i - 8192)" by (simp add: pack_entry_mod)
    moreover have "pack_entry (i - 8192) \<in> entries (Last_discarded s + 1) (Aru s)"
      using ent [of "i - 8192"] i w assms(3,4) by simp
    ultimately show ?thesis by (simp add: P)
  qed
  show "window_ok s'"
    unfolding window_ok_def r(2,3) f
  proof (intro conjI allI impI)
    show "Aru s \<le> max (Last_delivered s) (Aru s)" "max (Last_delivered s) (Aru s) \<le> My_aru s"
      "My_aru s \<le> Highest_seq s" "Highest_seq s - Aru s \<le> 8192" using w assms(3,4) by auto
  next
    fix i assume "Aru s < i \<and> i \<le> My_aru s"
    then show "exist_at s' i \<noteq> 0" using ex [of i] assms(2,3) w by (simp add: window_ok_def)
  next
    fix i assume i: "Aru s < i \<and> i \<le> max (Last_delivered s) (Aru s)"
    then have "i \<le> Last_delivered s" by (simp add: max_def split: if_splits)
    then show "exist_at s' i = 2" using i ex [of i] assms(2,3) w by (simp add: window_ok_def)
  next
    fix i assume i: "Aru s < i \<and> i \<le> Highest_seq s \<and> exist_at s' i \<noteq> 0"
    then have "exist_at s i \<noteq> 0" using ex [of i] assms(3) w by simp
    with i show "ph_seq (pi_head (packet_at s' i)) = i"
      using hd [of i] assms(2,3) w by (simp add: window_ok_def)
  next
    fix i assume i: "Highest_seq s < i \<and> i \<le> Aru s + 8192"
    show "exist_at s' i = 0"
    proof (cases "i \<le> Last_discarded s + 8192")
      case True
      with i show ?thesis using ex [of i] assms(2) w by (simp add: window_ok_def)
    qed (use i wrap in simp)
  qed
  show "aru_max s'" if "aru_max s"
  proof (cases "My_aru s = Highest_seq s")
    case False
    with that have "exist_at s (My_aru s + 1) = 0" by (simp add: aru_max_def)
    moreover have "My_aru s + 1 \<le> Last_discarded s + 8192" using False w by simp
    ultimately show ?thesis using ex [of "My_aru s + 1"] w by (simp add: aru_max_def f)
  qed (simp add: aru_max_def f)
qed

lemma not_in_entries:
  assumes "i < lo \<or> hi < i" "\<And>j. lo \<le> j \<Longrightarrow> j \<le> hi \<Longrightarrow> \<bar>i - j\<bar> < MAX_PACKETS_IN_STRUCT"
  shows "pack_entry i \<notin> entries lo hi"
proof
  assume "pack_entry i \<in> entries lo hi"
  then obtain j where "pack_entry i = pack_entry j" "lo \<le> j" "j \<le> hi" by (auto simp: entries_def)
  with pack_entry_inj [of i j] assms show False by auto
qed

lemma send_packets_other:
  "send_packets k s = Some (n, s') \<Longrightarrow> down_queue_ok s \<Longrightarrow>
   pack_entry i \<notin> entries (Highest_seq s + 1) (Highest_seq s + n) \<Longrightarrow> exist_at s i = 0 \<Longrightarrow> exist_at s' i = 0"
proof (induction k arbitrary: s n)
  case (Suc k)
  show ?case
  proof (cases "Down_queue s = []")
    case False
    with Suc.prems obtain t m where t: "send_one_packet s = Some t" "send_packets k t = Some (m, s')" "n = m + 1"
      by (auto split: bind_splits)
    obtain els where one: "new_packet_ok s t els" "down_queue_ok t"
      using send_one_packet_spec [OF t(1) Suc.prems(2)] by metis
    have H: "Highest_seq t = Highest_seq s + 1" using one(1) by (simp add: new_packet_ok_def Let_def)
    have m: "0 \<le> m" using send_packets_spec [OF t(2) one(2)] by blast
    have en: "entries (Highest_seq s + 1) (Highest_seq s + n) =
        insert (pack_entry (Highest_seq s + 1)) (entries (Highest_seq t + 1) (Highest_seq t + m))"
      using entries_Cons [of "Highest_seq s + 1" "Highest_seq s + n"] m t(3) H by (simp add: algebra_simps)
    have "pack_entry i \<noteq> pack_entry (Highest_seq s + 1)" using Suc.prems(3) unfolding en by blast
    then have "packet_same (packet_at s i) (packet_at t i)" using one(1) by (simp add: new_packet_ok_def Let_def)
    then have "exist_at t i = 0" using Suc.prems(4) by (simp add: packet_same_simps)
    moreover have "pack_entry i \<notin> entries (Highest_seq t + 1) (Highest_seq t + m)" using Suc.prems(3) unfolding en by blast
    ultimately show ?thesis using Suc.IH [OF t(2) one(2)] by blast
  qed (use Suc.prems in simp)
qed simp

lemma send_window:
  assumes "send_packets k s = Some (n, s')" "down_queue_ok s" "window_ok s"
    and "Highest_seq s + int k \<le> Last_discarded s + MAX_PACKETS_IN_STRUCT"
  shows "window_ok s'"
proof -
  note sp = send_packets_spec [OF assms(1,2)]
  have H: "Highest_seq s' = Highest_seq s + n" "0 \<le> n" "n \<le> int k"
      and new: "\<forall>i. Highest_seq s < i \<and> i \<le> Highest_seq s' \<longrightarrow>
            exist_at s i = 0 \<and> exist_at s' i = 1 \<and> ph_seq (pi_head (packet_at s' i)) = i"
      and old: "\<forall>e. pi_exist (Packets s e) \<noteq> 0 \<longrightarrow> packet_same (Packets s e) (Packets s' e)"
      and fr: "send_frame s s'" using sp by blast+
  obtain p q o' d c h f where s': "s' = s\<lparr>Packets := p, Send_pack_queue := q, out := o',
      Down_queue := d, cur_element := c, Highest_seq := h, Highest_fifo_seq := f\<rparr>"
    using fr unfolding send_frame_def by blast
  have f: "Last_discarded s' = Last_discarded s" "Last_delivered s' = Last_delivered s" "My_aru s' = My_aru s"
    by (simp_all add: s')
  have w: "Last_discarded s \<le> Last_delivered s" "Last_delivered s \<le> My_aru s" "My_aru s \<le> Highest_seq s"
    using assms(3) by (simp_all add: window_ok_def)
  have free: "exist_at s' i = 0" if i: "Highest_seq s' < i" "i \<le> Last_discarded s + 8192" for i
  proof -
    have "pack_entry i \<notin> entries (Highest_seq s + 1) (Highest_seq s + n)"
      by (rule not_in_entries) (use i H w assms(4) in auto)
    moreover have "exist_at s i = 0" using i H assms(3) by (simp add: window_ok_def)
    ultimately show ?thesis by (rule send_packets_other [OF assms(1,2)])
  qed
  show ?thesis
    unfolding window_ok_def f
  proof (intro conjI allI impI)
    show "Last_discarded s \<le> Last_delivered s" "Last_delivered s \<le> My_aru s" "My_aru s \<le> Highest_seq s'"
      "Highest_seq s' - Last_discarded s \<le> 8192" using w H assms(4) by auto
  next
    fix i assume i: "Last_discarded s < i \<and> i \<le> My_aru s"
    then have "exist_at s i \<noteq> 0" using assms(3) by (simp add: window_ok_def)
    then show "exist_at s' i \<noteq> 0" using old packet_same_simps(1) by metis
  next
    fix i assume i: "Last_discarded s < i \<and> i \<le> Last_delivered s"
    then have "exist_at s i = 2" using assms(3) by (simp add: window_ok_def)
    then show "exist_at s' i = 2" using old packet_same_simps(1) by (metis zero_neq_numeral)
  next
    fix i assume i: "Last_discarded s < i \<and> i \<le> Highest_seq s' \<and> exist_at s' i \<noteq> 0"
    show "ph_seq (pi_head (packet_at s' i)) = i"
    proof (cases "Highest_seq s < i")
      case False
      have "exist_at s i \<noteq> 0"
      proof
        assume z: "exist_at s i = 0"
        have "pack_entry i \<notin> entries (Highest_seq s + 1) (Highest_seq s + n)"
          by (rule not_in_entries) (use i False H assms(4) in auto)
        then have "exist_at s' i = 0" by (rule send_packets_other [OF assms(1,2) _ z])
        with i show False by simp
      qed
      then have "packet_same (packet_at s i) (packet_at s' i)" using old by blast
      moreover have "ph_seq (pi_head (packet_at s i)) = i"
        using assms(3) i False \<open>exist_at s i \<noteq> 0\<close> by (simp add: window_ok_def)
      ultimately show ?thesis by (simp add: packet_same_simps)
    qed (use new i in simp)
  next
    fix i assume "Highest_seq s' < i \<and> i \<le> Last_discarded s + 8192"
    with free show "exist_at s' i = 0" by simp
  qed
qed

end
