(* ===== verification/TokenSpec.thy ===== *)
theory TokenSpec
  imports Window
begin

text \<open>
  What the regular token achieves: the answers to requests for retransmission, the requests
  a daemon adds, and the aru of the token, from which every member learns what the whole ring
  has received.
\<close>

section \<open>Answers and requests\<close>

definition mine :: "daemon \<Rightarrow> ring_rtr \<Rightarrow> bool" where
  "mine s r \<longleftrightarrow> rr_memb_id r = Membership_id s"

text \<open>The packets that are sent again for the requests of this ring, in the order asked for.\<close>

definition resent :: "daemon \<Rightarrow> ring_rtr list \<Rightarrow> (ring_rtr \<times> int) list" where
  "resent s rs =
     filter (\<lambda>(r, i). exist_at s i \<noteq> 0) (concat (map (\<lambda>r. map (Pair r) (rr_seqs r)) (filter (mine s) rs)))"

definition resend_action :: "daemon \<Rightarrow> ring_rtr \<times> int \<Rightarrow> action" where
  "resend_action s x = (case x of (r, i) \<Rightarrow>
     (let p = Packet (pi_head (packet_at s i)) (pi_body (packet_at s i)) in
      if rr_proc_id r \<noteq> -1 then Net_ucast (rr_proc_id r) p
      else if rr_seg_index r \<noteq> -1 then Net_scast (rr_seg_index r) p
      else Net_bcast p))"

lemma resend_emits: "resend r i s = emit (resend_action s (r, i)) s"
  by (simp add: resend_def resend_action_def Let_def)

lemma resend_action_out [simp]: "resend_action (s\<lparr>out := o'\<rparr>) = resend_action s"
  by (simp add: fun_eq_iff resend_action_def)

lemma answer_seqs_spec:
  "answer_seqs r is (n, pid, seg, s) = Some (n', pid', seg', s') \<Longrightarrow>
   (let present = filter (\<lambda>i. exist_at s i \<noteq> 0) is; lacking = filter (\<lambda>i. exist_at s i = 0) is in
    (\<forall>i \<in> set is. Aru s \<le> i) \<and> n' = n + int (length present) \<and>
    s' = s\<lparr>out := out s @ map (\<lambda>i. resend_action s (r, i)) present\<rparr> \<and>
    pid' = (if lacking = [] then pid else -1) \<and>
    seg' = (if lacking \<noteq> [] \<and> rr_seg_index r \<noteq> p_seg_index (My s) then -1 else seg))"
proof (induction "is" arbitrary: n pid seg s)
  case (Cons i "is")
  show ?case
  proof (cases "exist_at s i \<noteq> 0")
    case True
    define t where "t = s\<lparr>out := out s @ [resend_action s (r, i)]\<rparr>"
    have "answer_seqs r is (n + 1, pid, seg, t) = Some (n', pid', seg', s')"
      using Cons.prems True by (auto simp: t_def resend_emits emit_def split: if_splits)
    from Cons.IH [OF this] True Cons.prems show ?thesis
      by (auto simp: t_def Let_def split: if_splits)
  next
    case False
    with Cons.prems have "answer_seqs r is (n, -1, if rr_seg_index r \<noteq> p_seg_index (My s) then -1 else seg, s) =
        Some (n', pid', seg', s')" "Aru s \<le> i" by (auto split: if_splits)
    from Cons.IH [OF this(1)] this(2) False show ?thesis by (auto simp: Let_def)
  qed
qed simp

lemma answer_requests_spec:
  "answer_requests rs (n, pid, seg, s) = Some (ks, n', pid', seg', s') \<Longrightarrow>
   ks = filter (\<lambda>r. \<not> mine s r) rs \<and>
   n' = n + int (length (resent s rs)) \<and>
   s' = s\<lparr>out := out s @ map (resend_action s) (resent s rs)\<rparr> \<and>
   (\<forall>r \<in> set rs. mine s r \<longrightarrow> (\<forall>i \<in> set (rr_seqs r). Aru s \<le> i)) \<and>
   pid' = (if \<exists>r \<in> set rs. mine s r \<and> (\<exists>i \<in> set (rr_seqs r). exist_at s i = 0) then -1 else pid) \<and>
   seg' = (if \<exists>r \<in> set rs. mine s r \<and> rr_seg_index r \<noteq> p_seg_index (My s) \<and>
                 (\<exists>i \<in> set (rr_seqs r). exist_at s i = 0) then -1 else seg)"
proof (induction rs arbitrary: n pid seg s ks)
  case Nil
  then show ?case by (simp add: resent_def)
next
  case (Cons r rs)
  show ?case
  proof (cases "mine s r")
    case True
    obtain m p g t where a: "answer_seqs r (rr_seqs r) (n, pid, seg, s) = Some (m, p, g, t)"
        and rest: "answer_requests rs (m, p, g, t) = Some (ks, n', pid', seg', s')"
      using Cons.prems True by (auto simp: mine_def split: option.splits)
    have one: "\<forall>i \<in> set (rr_seqs r). Aru s \<le> i"
        "m = n + int (length (filter (\<lambda>i. exist_at s i \<noteq> 0) (rr_seqs r)))"
        "t = s\<lparr>out := out s @ map (\<lambda>i. resend_action s (r, i)) (filter (\<lambda>i. exist_at s i \<noteq> 0) (rr_seqs r))\<rparr>"
        "p = (if \<exists>i \<in> set (rr_seqs r). exist_at s i = 0 then -1 else pid)"
        "g = (if rr_seg_index r \<noteq> p_seg_index (My s) \<and> (\<exists>i \<in> set (rr_seqs r). exist_at s i = 0) then -1 else seg)"
      using answer_seqs_spec [OF a] by (auto simp: Let_def filter_empty_conv)
    have m: "mine t = mine s" by (simp add: one(3) mine_def fun_eq_iff)
    have rs: "resent s (r # rs) = map (Pair r) (filter (\<lambda>i. exist_at s i \<noteq> 0) (rr_seqs r)) @ resent s rs"
      using True by (simp add: resent_def filter_map comp_def)
    have rt: "resent t rs = resent s rs" by (simp add: resent_def m) (simp add: one(3))
    from Cons.IH [OF rest] show ?thesis
      unfolding m rt rs using True one(1,2,4,5)
      by (auto simp: one(3) comp_def)
  next
    case False
    then obtain k where "answer_requests rs (n, pid, seg, s) = Some (k, n', pid', seg', s')" "ks = r # k"
      using Cons.prems by (auto simp: mine_def)
    with Cons.IH [OF this(1)] False show ?thesis by (simp add: resent_def)
  qed
qed

lemma rtr_bytes_own:
  assumes "rtr_bytes ks \<le> sizeof_token_body"
  shows "rtr_bytes (own_requests ks pid seg s) \<le> sizeof_token_body"
proof -
  let ?a = "(sizeof_token_body - rtr_bytes ks - sizeof_ring_rtr) div sizeof_int32"
  let ?is = "take (nat ?a) (filter (\<lambda>i. exist_at s i = 0) [My_aru s + 1..max_rtr_seq s])"
  show ?thesis
  proof (cases "My_aru s < max_rtr_seq s \<and> ?a > 1")
    case True
    have "0 \<le> ?a" using True by linarith
    have "int (length ?is) \<le> int (nat ?a)" by (simp only: length_take of_nat_le_iff min.cobounded2)
    also have "\<dots> = ?a" using \<open>0 \<le> ?a\<close> by (rule int_nat_eq [THEN trans, OF if_P])
    finally have "rtr_bytes ks + (16 + int (length ?is) * 4) \<le> sizeof_token_body" using True by simp
    then show ?thesis using True by (simp add: own_requests_def Let_def)
  next
    case False
    then have "own_requests ks pid seg s = ks" by (auto simp: own_requests_def Let_def)
    with assms show ?thesis by simp
  qed
qed

section \<open>One visit of the token\<close>

definition serve_frame :: "daemon \<Rightarrow> daemon \<Rightarrow> bool" where
  "serve_frame s s' \<longleftrightarrow>
     s' = s\<lparr>Packets := Packets s', Send_pack_queue := Send_pack_queue s', out := out s',
            Down_queue := Down_queue s', cur_element := cur_element s', Highest_seq := Highest_seq s',
            Highest_fifo_seq := Highest_fifo_seq s', My_aru := My_aru s', Fds := Fds s',
            Received_token_rounds := Received_token_rounds s', Token_has_priority := Token_has_priority s',
            Last_num_retrans := Last_num_retrans s', Last_num_sent := Last_num_sent s'\<rparr>"

lemma serve_frameI:
  "s' = s\<lparr>Packets := p, Send_pack_queue := q, out := o', Down_queue := d, cur_element := c, Highest_seq := h,
          Highest_fifo_seq := f, My_aru := m, Fds := fd, Received_token_rounds := r, Token_has_priority := tp,
          Last_num_retrans := lr, Last_num_sent := ls\<rparr> \<Longrightarrow> serve_frame s s'"
  by (simp add: serve_frame_def)

lemma serve_frame_simps:
  assumes "serve_frame s s'"
  shows "State s' = State s" "My s' = My s" "Aru s' = Aru s" "Last_token s' = Last_token s"
    "Last_discarded s' = Last_discarded s" "Last_delivered s' = Last_delivered s"
    "Token_alive s' = Token_alive s" "Memb_active s' = Memb_active s" "Membership_id s' = Membership_id s"
proof -
  obtain p q o' d c h f m fd r tp lr ls where s': "s' = s\<lparr>Packets := p, Send_pack_queue := q, out := o',
      Down_queue := d, cur_element := c, Highest_seq := h, Highest_fifo_seq := f, My_aru := m, Fds := fd,
      Received_token_rounds := r, Token_has_priority := tp, Last_num_retrans := lr, Last_num_sent := ls\<rparr>"
    using assms unfolding serve_frame_def by blast
  show "State s' = State s" "My s' = My s" "Aru s' = Aru s" "Last_token s' = Last_token s"
    "Last_discarded s' = Last_discarded s" "Last_delivered s' = Last_delivered s"
    "Token_alive s' = Token_alive s" "Memb_active s' = Memb_active s" "Membership_id s' = Membership_id s"
    by (simp_all add: s' Memb_active_def)
qed

text \<open>The steps of \<open>serve_token\<close> up to the new packets, and what they keep.\<close>

lemma serve_token_cases:
  assumes "serve_token t rtr s = Some (num_sent, t', rtr', s')" "State s \<noteq> EVS" "down_queue_ok s"
  obtains s1 n pid seg s2 s3 where
    "s1 = s\<lparr>Highest_seq := max (Highest_seq s) (th_seq t), Received_token_rounds := Received_token_rounds s1,
           Fds := Fds s1, Token_has_priority := Token_has_priority s1\<rparr>"
    "s2 = s1\<lparr>out := out s1 @ map (resend_action s1) (resent s1 rtr)\<rparr>" "n = int (length (resent s1 rtr))"
    "\<forall>r \<in> set rtr. mine s1 r \<longrightarrow> (\<forall>i \<in> set (rr_seqs r). Aru s1 \<le> i)"
    "Send_new_packets (FC_allowed (th_flow_control t) n s2) s2 = Some (num_sent, s3)"
    "down_queue_ok s2" "send_frame s2 s3"
    "s' = advance_my_aru (My_aru s3 + 1) (s3\<lparr>Last_num_retrans := n, Last_num_sent := num_sent\<rparr>)"
    "rtr' = own_requests (filter (\<lambda>r. \<not> mine s1 r) rtr) pid seg s'"
    "t' = update_token_aru s' (t\<lparr>th_flow_control := token_flow t n num_sent s3, th_rtr_len := to_int16u (rtr_bytes rtr')\<rparr>)"
proof -
  let ?a = "(note_highest (th_seq t) s)\<lparr>Received_token_rounds := Received_token_rounds s + 1\<rparr>"
  obtain s1 where s1: "(if Token_has_priority ?a then token_priority_down ?a else Some ?a) = Some s1"
    using assms(1) by (auto simp: serve_token_def Let_def note_highest_def split: bind_splits if_splits)
  have f1: "s1 = s\<lparr>Highest_seq := max (Highest_seq s) (th_seq t), Received_token_rounds := Received_token_rounds s1,
      Fds := Fds s1, Token_has_priority := Token_has_priority s1\<rparr>"
    using s1 by (auto simp: token_priority_down_def note_highest_def max_def split: if_splits bind_splits)
  obtain ks n pid seg s2 num s3 where an: "Answer_retrans rtr s1 = Some (ks, n, pid, seg, s2)"
      and se: "Send_new_packets (FC_allowed (th_flow_control t) n s2) s2 = Some (num, s3)"
      and rest: "(let t = t\<lparr>th_flow_control := token_flow t n num s3\<rparr>;
         s = s3\<lparr>Last_num_retrans := n, Last_num_sent := num\<rparr>;
         s = advance_my_aru (My_aru s + 1) s;
         rtr = own_requests ks pid seg s;
         s = evs_commit s;
         t = update_token_aru s (t\<lparr>th_rtr_len := to_int16u (rtr_bytes rtr)\<rparr>)
       in Some (num, t, rtr, s)) = Some (num_sent, t', rtr', s')"
    using assms(1) s1 by (auto simp: serve_token_def Let_def note_highest_def split: bind_splits if_splits prod.splits)
  note a = answer_requests_spec [OF an [unfolded Answer_retrans_def]]
  have s2: "s2 = s1\<lparr>out := out s1 @ map (resend_action s1) (resent s1 rtr)\<rparr>" using a by blast
  have fs: "Down_queue s1 = Down_queue s" "cur_element s1 = cur_element s" "State s1 = State s"
    by (subst f1, simp)+
  have ok: "down_queue_ok s2"
    by (subst down_queue_ok_cong [where s = s]) (use assms(3) fs in \<open>simp_all add: s2\<close>)
  have fr: "send_frame s2 s3"
    using send_packets_spec [OF se [unfolded Send_new_packets_def] ok] by blast
  then obtain p q o' d c h f where s3: "s3 = s2\<lparr>Packets := p, Send_pack_queue := q, out := o',
      Down_queue := d, cur_element := c, Highest_seq := h, Highest_fifo_seq := f\<rparr>"
    unfolding send_frame_def by blast
  have st: "State s3 \<noteq> EVS" using assms(2) fs by (simp add: s2 s3)
  then have ev: "evs_commit (advance_my_aru m (s3\<lparr>Last_num_retrans := n, Last_num_sent := num\<rparr>)) =
      advance_my_aru m (s3\<lparr>Last_num_retrans := n, Last_num_sent := num\<rparr>)" for m
    by (simp add: evs_commit_def advance_my_aru_def)
  let ?u = "advance_my_aru (My_aru s3 + 1) (s3\<lparr>Last_num_retrans := n, Last_num_sent := num\<rparr>)"
  have fin: "num = num_sent" "s' = ?u" "rtr' = own_requests ks pid seg ?u"
      "t' = update_token_aru ?u (t\<lparr>th_flow_control := token_flow t n num s3, th_rtr_len := to_int16u (rtr_bytes rtr')\<rparr>)"
    using rest by (simp_all only: Let_def ev option.inject prod.inject daemon.simps) auto
  have kn: "ks = filter (\<lambda>r. \<not> mine s1 r) rtr" "n = int (length (resent s1 rtr))"
      "\<forall>r \<in> set rtr. mine s1 r \<longrightarrow> (\<forall>i \<in> set (rr_seqs r). Aru s1 \<le> i)"
    using a by auto
  show ?thesis
    by (rule that [OF f1 s2 kn(2,3) se [unfolded fin(1)] ok fr fin(2) [unfolded fin(1)] _ fin(4) [folded fin(2), unfolded fin(1)]])
       (simp only: fin(2,3) kn(1) fin(1))
qed

lemma serve_token_spec:
  assumes "serve_token t rtr s = Some (num_sent, t', rtr', s')" "State s \<noteq> EVS" "down_queue_ok s"
  shows "serve_frame s s'" "th_seq t \<le> Highest_seq s'" "Highest_seq s \<le> Highest_seq s'"
    "My_aru s \<le> Highest_seq s \<Longrightarrow> My_aru s \<le> My_aru s' \<and> My_aru s' \<le> Highest_seq s'"
    "\<exists>f l. t' = update_token_aru s' (t\<lparr>th_flow_control := f, th_rtr_len := l\<rparr>)"
proof -
  obtain s1 n pid seg s2 s3 where
      s1: "s1 = s\<lparr>Highest_seq := max (Highest_seq s) (th_seq t), Received_token_rounds := Received_token_rounds s1,
           Fds := Fds s1, Token_has_priority := Token_has_priority s1\<rparr>" and
      s2: "s2 = s1\<lparr>out := out s1 @ map (resend_action s1) (resent s1 rtr)\<rparr>" and
      se: "Send_new_packets (FC_allowed (th_flow_control t) n s2) s2 = Some (num_sent, s3)" and
      ok: "down_queue_ok s2" and fr: "send_frame s2 s3" and
      s': "s' = advance_my_aru (My_aru s3 + 1) (s3\<lparr>Last_num_retrans := n, Last_num_sent := num_sent\<rparr>)" and
      t': "t' = update_token_aru s' (t\<lparr>th_flow_control := token_flow t n num_sent s3, th_rtr_len := to_int16u (rtr_bytes rtr')\<rparr>)"
    by (rule serve_token_cases [OF assms])
  obtain r fd tp where s1': "s1 = s\<lparr>Highest_seq := max (Highest_seq s) (th_seq t), Received_token_rounds := r,
           Fds := fd, Token_has_priority := tp\<rparr>" using s1 by blast
  obtain p q o' d c h f where s3: "s3 = s2\<lparr>Packets := p, Send_pack_queue := q, out := o',
      Down_queue := d, cur_element := c, Highest_seq := h, Highest_fifo_seq := f\<rparr>"
    using fr unfolding send_frame_def by blast
  have H: "Highest_seq s2 \<le> h"
    using send_packets_spec [OF se [unfolded Send_new_packets_def] ok] s3 by auto
  show "serve_frame s s'"
    by (simp add: serve_frame_def s' advance_my_aru_def s3 s2 s1')
  have h: "Highest_seq s' = h" by (simp add: s' advance_my_aru_def s3)
  have h1: "Highest_seq s2 = max (Highest_seq s) (th_seq t)" by (simp add: s2 s1')
  show "th_seq t \<le> Highest_seq s'" "Highest_seq s \<le> Highest_seq s'" using H h h1 by simp_all
  show "My_aru s \<le> My_aru s' \<and> My_aru s' \<le> Highest_seq s'" if "My_aru s \<le> Highest_seq s"
  proof -
    have "My_aru s3 = My_aru s" by (simp add: s3 s2 s1')
    moreover have "My_aru s3 \<le> Highest_seq s3" using calculation that H h1 by (simp add: s3)
    note advance_aru_spec [OF refl this, of "exist_at s3"]
    ultimately show ?thesis by (simp add: s' advance_my_aru_def)
  qed
  show "\<exists>f l. t' = update_token_aru s' (t\<lparr>th_flow_control := f, th_rtr_len := l\<rparr>)" using t' by blast
qed

section \<open>The aru of the token\<close>

text \<open>
  One visit of the token to a daemon in regular operation: \<open>serve_token\<close> works on the token \<open>t\<close>
  and the daemon \<open>s\<close>, which becomes \<open>s'\<close>, and \<open>t'\<close> is the token that is passed on.
\<close>

definition token_visit :: "token_header \<Rightarrow> daemon \<Rightarrow> token_header \<Rightarrow> daemon \<Rightarrow> bool" where
  "token_visit t s t' s' \<longleftrightarrow>
     State s \<noteq> EVS \<and> down_queue_ok s \<and> My_aru s \<le> Highest_seq s \<and>
     (\<exists>rtr num_sent th rtr' leads.
        serve_token t rtr s = Some (num_sent, th, rtr', s') \<and> t' = stamp_token leads s' th)"

text \<open>
  The token goes round a ring of \<open>n\<close> members: the daemon of visit \<open>k + 1\<close>, which takes the token
  \<open>t k\<close> and passes on \<open>t (k + 1)\<close>, is \<open>d (k + 1)\<close> after it has served the token. The member of
  visit \<open>k\<close> is that of visit \<open>k + n\<close>, and \<open>n\<close> visits in a row are of different members.
\<close>

definition ring_visits :: "nat \<Rightarrow> (nat \<Rightarrow> daemon) \<Rightarrow> (nat \<Rightarrow> token_header) \<Rightarrow> bool" where
  "ring_visits n d t \<longleftrightarrow>
     (\<forall>k. p_id (My (d (k + n))) = p_id (My (d k))) \<and>
     (\<forall>k i. 0 < i \<and> i < n \<longrightarrow> p_id (My (d (k + i))) \<noteq> p_id (My (d k))) \<and>
     (\<forall>k. \<exists>s. token_visit (t k) s (t (Suc k)) (d (Suc k))) \<and>
     th_aru (t 0) \<le> My_aru (d 0) \<and> My_aru (d 0) \<le> Highest_seq (d 0) \<and> th_seq (t 0) = Highest_seq (d 0)"

text \<open>One visit, in terms of the aru, the sequence number and who set the aru last.\<close>

definition sets_aru :: "token_header \<Rightarrow> daemon \<Rightarrow> bool" where
  "sets_aru t s \<longleftrightarrow> th_aru t > My_aru s \<or> th_aru_last_id t = p_id (My s) \<or> th_aru t = th_seq t"

lemma visit_step:
  assumes "token_visit t s t' s'"
  shows "th_seq t' = Highest_seq s'" "th_seq t \<le> th_seq t'" "My_aru s' \<le> Highest_seq s'"
    "sets_aru t s' \<Longrightarrow> th_aru t' = My_aru s' \<and> th_aru_last_id t' = p_id (My s')"
    "\<not> sets_aru t s' \<Longrightarrow> th_aru t' = th_aru t \<and> th_aru_last_id t' = th_aru_last_id t"
proof -
  obtain rtr num_sent th rtr' leads where v: "serve_token t rtr s = Some (num_sent, th, rtr', s')"
      "t' = stamp_token leads s' th" "State s \<noteq> EVS" "down_queue_ok s" "My_aru s \<le> Highest_seq s"
    using assms unfolding token_visit_def by blast
  note sp = serve_token_spec [OF v(1,3,4)]
  have st: "State s' \<noteq> EVS" using serve_frame_simps(1) [OF sp(1)] v(3) by simp
  obtain f l where th: "th = update_token_aru s' (t\<lparr>th_flow_control := f, th_rtr_len := l\<rparr>)" using sp(5) by blast
  show "th_seq t' = Highest_seq s'" using v(2) st by (simp add: stamp_token_def Let_def)
  then show "th_seq t \<le> th_seq t'" using sp(2) by simp
  show "My_aru s' \<le> Highest_seq s'" using sp(4) v(5) by blast
  show "sets_aru t s' \<Longrightarrow> th_aru t' = My_aru s' \<and> th_aru_last_id t' = p_id (My s')"
    "\<not> sets_aru t s' \<Longrightarrow> th_aru t' = th_aru t \<and> th_aru_last_id t' = th_aru_last_id t"
    using v(2) st th by (auto simp: stamp_token_def update_token_aru_def sets_aru_def Let_def)
qed

lemma ring_visit: "ring_visits n d t \<Longrightarrow> \<exists>s. token_visit (t k) s (t (Suc k)) (d (Suc k))"
  by (simp add: ring_visits_def)

lemma visit_aru_le:
  assumes "ring_visits n d t"
  shows "th_aru (t k) \<le> My_aru (d k) \<and> My_aru (d k) \<le> th_seq (t k)"
proof (induction k)
  case 0
  then show ?case using assms by (simp add: ring_visits_def)
next
  case (Suc k)
  obtain s where "token_visit (t k) s (t (Suc k)) (d (Suc k))" using ring_visit [OF assms] by blast
  note v = visit_step [OF this]
  show ?case
  proof (cases "sets_aru (t k) (d (Suc k))")
    case True
    with v show ?thesis by simp
  next
    case False
    with v Suc show ?thesis by (auto simp: sets_aru_def)
  qed
qed

lemma visit_seq_mono: "ring_visits n d t \<Longrightarrow> i \<le> j \<Longrightarrow> th_seq (t i) \<le> th_seq (t j)"
proof (induction j)
  case (Suc j)
  obtain s where "token_visit (t j) s (t (Suc j)) (d (Suc j))" using ring_visit [OF Suc.prems(1)] by blast
  from visit_step(2) [OF this] Suc show ?case by (cases "i = Suc j") auto
qed simp

text \<open>Whoever finds its own id on the token has set the aru one round ago, and nobody since.\<close>

lemma visit_last_id:
  assumes "ring_visits n d t" "th_aru_last_id (t m) = p_id (My (d (Suc m)))"
  shows "i < n \<Longrightarrow> i \<le> m \<Longrightarrow> th_aru (t (m - i)) = th_aru (t m) \<and> th_aru_last_id (t (m - i)) = th_aru_last_id (t m)"
proof (induction i)
  case (Suc i)
  define l where "l = m - Suc i"
  have l: "Suc l = m - i" "Suc m = Suc l + Suc i" using Suc.prems(2) by (simp_all add: l_def)
  obtain s where "token_visit (t l) s (t (Suc l)) (d (Suc l))" using ring_visit [OF assms(1)] by blast
  note v = visit_step [OF this]
  have ih: "th_aru (t (Suc l)) = th_aru (t m)" "th_aru_last_id (t (Suc l)) = th_aru_last_id (t m)"
    unfolding l(1) using Suc by simp_all
  have "p_id (My (d (Suc l + Suc i))) \<noteq> p_id (My (d (Suc l)))"
    using assms(1) Suc.prems(1) unfolding ring_visits_def by blast
  then have "th_aru_last_id (t (Suc l)) \<noteq> p_id (My (d (Suc l)))"
    using assms(2) unfolding ih(2) l(2) by simp
  then have "\<not> sets_aru (t l) (d (Suc l))" using v(4) by blast
  from v(5) [OF this] ih show ?case unfolding l_def by simp
qed simp

text \<open>
  The smaller of the arus of the tokens of two consecutive visits to a daemon bounds what
  every member had when it was visited in between.
\<close>

lemma two_rounds:
  assumes r: "ring_visits n d t" and j: "k - n < j" "j \<le> k" "n \<le> k"
  shows "min (th_aru (t k)) (th_aru (t (k - n))) \<le> My_aru (d j)"
proof (cases "\<forall>i. j < i \<and> i \<le> k \<longrightarrow> th_aru (t i) \<le> My_aru (d j)")
  case True
  have "th_aru (t j) \<le> My_aru (d j)" using visit_aru_le [OF r] by blast
  with True j(2) have "th_aru (t k) \<le> My_aru (d j)" by (cases "j = k") auto
  then show ?thesis by (rule min.coboundedI1)
next
  case False
  let ?P = "\<lambda>i. j < i \<and> i \<le> k \<and> My_aru (d j) < th_aru (t i)"
  define i where "i = (LEAST i. ?P i)"
  have "\<exists>i. ?P i" using False by (auto simp: not_le)
  then have i: "?P i" unfolding i_def by (rule LeastI_ex)
  obtain m where m: "i = Suc m" using i by (cases i) auto
  have am: "th_aru (t m) \<le> My_aru (d j)"
  proof (cases "m = j")
    case True
    then show ?thesis using visit_aru_le [OF r] by blast
  next
    case False
    have "\<not> ?P m" using not_less_Least [of m ?P] m by (simp add: i_def)
    with False i m show ?thesis by auto
  qed
  obtain s where "token_visit (t m) s (t i) (d i)" using ring_visit [OF r] m by blast
  note v = visit_step [OF this]
  have "sets_aru (t m) (d i)" using v(5) i am by fastforce
  moreover have "My_aru (d i) = th_aru (t i)" using v(4) calculation by simp
  ultimately have "th_aru_last_id (t m) = p_id (My (d i)) \<or> th_aru (t m) = th_seq (t m)"
    using am i by (auto simp: sets_aru_def)
  then have "th_aru (t (k - n)) \<le> th_aru (t m)"
  proof
    assume l: "th_aru_last_id (t m) = p_id (My (d i))"
    have "m - (k - n) < n" "m - (k - n) \<le> m" using i j m by auto
    then have "th_aru (t (m - (m - (k - n)))) = th_aru (t m)"
      using visit_last_id [OF r, of m "m - (k - n)"] l m by blast
    moreover have "m - (m - (k - n)) = k - n" using i j m by linarith
    ultimately show ?thesis by simp
  next
    assume "th_aru (t m) = th_seq (t m)"
    moreover have "th_seq (t (k - n)) \<le> th_seq (t m)"
      by (rule visit_seq_mono [OF r]) (use i j m in auto)
    ultimately show ?thesis using visit_aru_le [OF r, of "k - n"] by simp
  qed
  with am have "th_aru (t (k - n)) \<le> My_aru (d j)" by simp
  then show ?thesis by (rule min.coboundedI2)
qed

end
