(* ===== verification/RingInvariant.thy ===== *)
theory RingInvariant
  imports TokenSpec
begin

text \<open>
  A whole visit of the regular token, \<open>handle_regular_token\<close>: what it leaves alone, the token
  that the daemon remembers, the new \<open>Aru\<close>, and the invariant \<open>regular_ok\<close> of regular operation.
\<close>

definition regular_ok :: "daemon \<Rightarrow> bool" where
  "regular_ok s \<longleftrightarrow> window_ok s \<and> aru_max s \<and> Aru s = Last_discarded s \<and> down_queue_ok s \<and>
     0 \<le> Window s \<and> Window s \<le> MAX_PACKETS_IN_STRUCT - MAX_SEQ_GAP \<and> 0 \<le> Personal_window s"

section \<open>Passing the token on\<close>

definition pass_frame :: "daemon \<Rightarrow> daemon \<Rightarrow> bool" where
  "pass_frame s s' \<longleftrightarrow>
     s' = s\<lparr>Packets := Packets s', Send_pack_queue := Send_pack_queue s', out := out s',
            Token_rounds := Token_rounds s', Time_queue := Time_queue s'\<rparr> \<and>
     (\<forall>e. packet_same (Packets s e) (Packets s' e))"

lemma pass_token_frame: "pass_frame s (pass_token leads t rtr s)"
proof -
  define u where "u = (if \<not> (leads \<and> To_hold_token s) then
      (let s = emit (Net_send_token (Token t rtr)) s
       in if Get_retrans (th_type t) > 1
          then emit (Net_send_token (Token t rtr)) (emit (Net_send_token (Token t rtr)) s) else s) else s)"
  have "u = s\<lparr>out := out u\<rparr>" by (simp add: u_def Let_def emit_def)
  then obtain o' where u: "u = s\<lparr>out := o'\<rparr>" by blast
  define v where "v = u\<lparr>Token_rounds := Token_rounds u + 1\<rparr>"
  define w where "w = (if leads then E_queue Prot_token_hurry_event 0 (Timeout v HurryT) v else v)"
  have "w = v\<lparr>Time_queue := Time_queue w\<rparr>" by (simp add: w_def E_queue_def)
  then obtain q' where w: "w = v\<lparr>Time_queue := q'\<rparr>" by blast
  let ?w = "E_queue Memb_token_loss_event 0 (Timeout w TokenT) w"
  have "pass_token leads t rtr s = snd (Prot_flush_bcast ?w)"
    by (simp add: pass_token_def Let_def u_def v_def w_def)
  moreover have "\<exists>n q. ?w = s\<lparr>out := o', Token_rounds := n, Time_queue := q\<rparr>"
    by (simp add: E_queue_def w v_def u) blast
  ultimately obtain n q where p: "pass_token leads t rtr s = snd (Prot_flush_bcast (s\<lparr>out := o', Token_rounds := n, Time_queue := q\<rparr>))"
    by metis
  let ?t = "s\<lparr>out := o', Token_rounds := n, Time_queue := q\<rparr>"
  have b: "bcast_rel ?t (pass_token leads t rtr s)"
    unfolding p using bcast_first_rel by (simp add: Prot_flush_bcast_def Let_def)
  then obtain P Q O' where u: "pass_token leads t rtr s = ?t\<lparr>Packets := P, Send_pack_queue := Q, out := O'\<rparr>"
    unfolding bcast_rel_def by blast
  have "packet_same (Packets s e) (Packets (pass_token leads t rtr s) e)" for e
    using b by (simp add: bcast_rel_def)
  then show ?thesis unfolding pass_frame_def using u by simp
qed

lemma pass_frame_simps:
  assumes "pass_frame s s'"
  shows "State s' = State s" "My s' = My s" "Aru s' = Aru s" "Last_token s' = Last_token s"
    "Memb_active s' = Memb_active s" "Down_queue s' = Down_queue s" "cur_element s' = cur_element s"
    "Window s' = Window s" "Personal_window s' = Personal_window s" "My_aru s' = My_aru s"
    "Highest_seq s' = Highest_seq s" "Last_discarded s' = Last_discarded s" "Last_delivered s' = Last_delivered s"
    "Membership s' = Membership s" "Token_alive s' = Token_alive s"
proof -
  obtain p q o' n tq where s': "s' = s\<lparr>Packets := p, Send_pack_queue := q, out := o', Token_rounds := n, Time_queue := tq\<rparr>"
    using assms unfolding pass_frame_def by blast
  show "State s' = State s" "My s' = My s" "Aru s' = Aru s" "Last_token s' = Last_token s"
    "Memb_active s' = Memb_active s" "Down_queue s' = Down_queue s" "cur_element s' = cur_element s"
    "Window s' = Window s" "Personal_window s' = Personal_window s" "My_aru s' = My_aru s"
    "Highest_seq s' = Highest_seq s" "Last_discarded s' = Last_discarded s" "Last_delivered s' = Last_delivered s"
    "Membership s' = Membership s" "Token_alive s' = Token_alive s"
    by (simp_all add: s' Memb_active_def)
qed

lemma pass_window:
  assumes "pass_frame s s'"
  shows "window_ok s' = window_ok s" "aru_max s' = aru_max s"
proof -
  have e: "pi_exist (Packets s' e) = pi_exist (Packets s e)" "ph_seq (pi_head (Packets s' e)) = ph_seq (pi_head (Packets s e))" for e
    using assms packet_same_simps by (auto simp: pass_frame_def)
  show "window_ok s' = window_ok s" "aru_max s' = aru_max s"
    by (simp_all add: window_ok_def aru_max_def e pass_frame_simps [OF assms])
qed

section \<open>Serving the token keeps the window\<close>

lemma note_highest_window:
  assumes "window_ok s" "n \<le> Last_discarded s + MAX_PACKETS_IN_STRUCT"
  shows "window_ok (note_highest n s)"
proof (cases "Highest_seq s < n")
  case True
  have "exist_at s i = 0" if "Highest_seq s < i" "i \<le> n" for i
    using assms that by (simp add: window_ok_def)
  then have "i \<le> Highest_seq s" if "i \<le> n" "exist_at s i \<noteq> 0" for i using that by (meson not_le)
  with assms True show ?thesis by (auto simp: window_ok_def note_highest_def)
next
  case False
  then have "note_highest n s = s" by (simp add: note_highest_def)
  with assms(1) show ?thesis by simp
qed

lemma serve_token_window:
  assumes "serve_token t rtr s = Some (num_sent, t', rtr', s')" "State s \<noteq> EVS" "regular_ok s"
    "th_seq t \<le> Last_discarded s + MAX_PACKETS_IN_STRUCT"
  shows "window_ok s' \<and> aru_max s' \<and> down_queue_ok s' \<and> Window s' = Window s \<and> Personal_window s' = Personal_window s"
proof -
  have ok0: "down_queue_ok s" using assms(3) by (simp add: regular_ok_def)
  obtain s1 n pid seg s2 s3 where
      s1: "s1 = s\<lparr>Highest_seq := max (Highest_seq s) (th_seq t), Received_token_rounds := Received_token_rounds s1,
           Fds := Fds s1, Token_has_priority := Token_has_priority s1\<rparr>" and
      s2: "s2 = s1\<lparr>out := out s1 @ map (resend_action s1) (resent s1 rtr)\<rparr>" and
      se: "Send_new_packets (FC_allowed (th_flow_control t) n s2) s2 = Some (num_sent, s3)" and
      ok: "down_queue_ok s2" and fr: "send_frame s2 s3" and
      s': "s' = advance_my_aru (My_aru s3 + 1) (s3\<lparr>Last_num_retrans := n, Last_num_sent := num_sent\<rparr>)"
    by (rule serve_token_cases [OF assms(1,2) ok0])
  obtain r fd tp where s1': "s1 = s\<lparr>Highest_seq := max (Highest_seq s) (th_seq t), Received_token_rounds := r,
           Fds := fd, Token_has_priority := tp\<rparr>" using s1 by blast
  have "window_ok (note_highest (th_seq t) s)"
    by (rule note_highest_window) (use assms(3,4) in \<open>simp_all add: regular_ok_def\<close>)
  then have w2: "window_ok s2"
    by (subst window_frame(1) [of _ "note_highest (th_seq t) s"]) (simp_all add: s2 s1' note_highest_def max_def)
  have f2: "Aru s2 = Last_discarded s2" "Window s2 = Window s" "Personal_window s2 = Personal_window s" "State s2 = State s"
    using assms(3) by (simp_all add: s2 s1' regular_ok_def)
  let ?k = "FC_allowed (th_flow_control t) n s2"
  have b: "?k \<le> Window s" "0 \<le> ?k" "Window s \<le> 6592"
    using assms(3) f2 by (auto simp: FC_allowed_def Let_def regular_ok_def)
  have fit: "Highest_seq s2 + int (nat ?k) \<le> Last_discarded s2 + MAX_PACKETS_IN_STRUCT"
  proof (cases "?k = 0")
    case True
    then show ?thesis using w2 by (simp add: window_ok_def)
  next
    case False
    then have "Highest_seq s2 \<le> Aru s2 + MAX_SEQ_GAP" by (auto simp: FC_allowed_def split: if_splits)
    with b f2(1) show ?thesis by simp
  qed
  have w3: "window_ok s3" by (rule send_window [OF se [unfolded Send_new_packets_def] ok w2 fit])
  have ok3: "down_queue_ok s3" using send_packets_spec [OF se [unfolded Send_new_packets_def] ok] by blast
  let ?u = "s3\<lparr>Last_num_retrans := n, Last_num_sent := num_sent\<rparr>"
  have "window_ok ?u" using w3 by (subst window_frame(1) [of _ s3]) simp_all
  note adv = advance_my_aru_window [OF this]
  have s'': "s' = advance_my_aru (My_aru ?u + 1) ?u" using s' by simp
  have "down_queue_ok s'"
    by (subst down_queue_ok_cong [where s = s3]) (use ok3 in \<open>simp_all add: s' advance_my_aru_def\<close>)
  moreover have "Window s' = Window s \<and> Personal_window s' = Personal_window s"
  proof -
    obtain p q o' d c h f where s3: "s3 = s2\<lparr>Packets := p, Send_pack_queue := q, out := o',
        Down_queue := d, cur_element := c, Highest_seq := h, Highest_fifo_seq := f\<rparr>"
      using fr unfolding send_frame_def by blast
    show ?thesis using f2 by (simp add: s' advance_my_aru_def s3)
  qed
  ultimately show ?thesis unfolding s'' using adv by blast
qed

section \<open>The visit as a whole\<close>

lemma update_Aru_cases:
  assumes "update_Aru t s = Some s'"
  shows "Aru s' = min (th_aru t) (th_aru (Last_token s))" "Aru s \<le> Aru s'"
    "s' = s\<lparr>Aru := Aru s', Token_counter := Token_counter s'\<rparr>"
  using assms by (auto simp: update_Aru_def Let_def min_def split: if_splits)

lemma agreed_frame: "Deliver_agreed_packets s = Some s' \<Longrightarrow> delivery_frame s s'"
proof -
  assume a: "Deliver_agreed_packets s = Some s'"
  show ?thesis
  proof (cases "s' = s")
    case False
    with a have l: "for_loop (Last_delivered s + 1) (My_aru s) deliver_agreed_round s = Some s'"
      by (auto simp: Deliver_agreed_packets_def split: if_splits)
    have upd: "delivery_frame t (t\<lparr>Last_delivered := n\<rparr>)" for t n by (simp add: delivery_frame_def)
    show ?thesis
      by (rule for_loop_invariant [where P = "delivery_frame s", OF l])
         (auto elim!: agreed_round_cases intro: delivery_frame_trans [OF _ delivery_frame_trans [OF Deliver_packet_spec(2) upd]]
            delivery_frame_trans [OF _ upd])
  qed simp
qed

lemma discard_frame: "discard_stable s = Some s' \<Longrightarrow> delivery_frame s s'"
proof -
  assume "discard_stable s = Some s'"
  then obtain t where t: "for_loop (Last_discarded s + 1) (Aru s) discard_round s = Some t"
      "s' = t\<lparr>Last_discarded := Aru t, Last_delivered := (if Last_delivered t < Aru t then Aru t else Last_delivered t)\<rparr>"
    by (auto simp: discard_stable_def split: bind_splits)
  have "delivery_frame s t"
    by (rule for_loop_invariant [where P = "delivery_frame s", OF t(1)])
       (auto simp: discard_round_def split: if_splits intro: delivery_frame_trans dest: deliver_and_clear_spec(2))
  moreover have "delivery_frame t s'" by (simp add: t(2) delivery_frame_def)
  ultimately show ?thesis by (rule delivery_frame_trans)
qed

lemma delivery_frame_more:
  assumes "delivery_frame s s'"
  shows "My s' = My s" "Memb_active s' = Memb_active s" "Down_queue s' = Down_queue s" "cur_element s' = cur_element s"
    "Window s' = Window s" "Personal_window s' = Personal_window s" "Membership s' = Membership s"
proof -
  obtain p q o' d c where s': "s' = s\<lparr>Packets := p, Up_queue := q, out := o', Last_delivered := d, Last_discarded := c\<rparr>"
    using assms unfolding delivery_frame_def by blast
  show "My s' = My s" "Memb_active s' = Memb_active s" "Down_queue s' = Down_queue s" "cur_element s' = cur_element s"
    "Window s' = Window s" "Personal_window s' = Personal_window s" "Membership s' = Membership s"
    by (simp_all add: s' Memb_active_def)
qed

text \<open>What a visit outside EVS amounts to.\<close>

lemma handle_regular_token_cases:
  assumes "handle_regular_token t rtr s = Some s'" "State s \<noteq> EVS" "down_queue_ok s"
  obtains num_sent th rtr' s1 leader s2 s3 s4 s5 where
    "serve_token t rtr s = Some (num_sent, th, rtr', s1)" "Conf_leader (Memb_active s) = Some leader"
    "pass_frame s1 s2" "update_Aru (stamp_token (leader = p_id (My s)) s1 th) s2 = Some s3"
    "Discard_packets (s3\<lparr>Last_token := stamp_token (leader = p_id (My s)) s1 th\<rparr>) = Some s4"
    "Deliver_agreed_packets s4 = Some s5"
    "Deliver_reliable_packets (Highest_seq s5 - num_sent + 1) num_sent s5 = Some s'"
    "delivery_frame (s3\<lparr>Last_token := stamp_token (leader = p_id (My s)) s1 th\<rparr>) s4"
    "delivery_frame s4 s5" "kept s5 s'" "State s3 = State s"
proof -
  obtain num_sent th rtr' s1 where sv: "serve_token t rtr s = Some (num_sent, th, rtr', s1)"
    using assms(1) by (auto simp: handle_regular_token_def split: bind_splits)
  note fr = serve_frame_simps [OF serve_token_spec(1) [OF sv assms(2,3)]]
  obtain leader where l: "Conf_leader (Memb_active s) = Some leader"
    using assms(1) sv fr by (auto simp: handle_regular_token_def split: bind_splits)
  let ?t = "stamp_token (leader = p_id (My s)) s1 th"
  let ?s2 = "pass_token (leader = p_id (My s)) ?t rtr' s1"
  obtain s3 where s3: "update_Aru ?t ?s2 = Some s3"
      and dl: "deliver_after_token num_sent (s3\<lparr>Last_token := ?t\<rparr>) = Some s'"
    using assms(1) sv fr l by (auto simp: handle_regular_token_def Let_def split: bind_splits)
  have pf: "pass_frame s1 ?s2" by (rule pass_token_frame)
  have st3: "State s3 = State s"
    by (subst update_Aru_cases(3) [OF s3]) (simp add: pass_frame_simps(1) [OF pf] fr(1))
  let ?u = "s3\<lparr>Last_token := ?t\<rparr>"
  obtain s4 s5 s6 where d: "Discard_packets ?u = Some s4" "Deliver_agreed_packets s4 = Some s5"
      "Deliver_reliable_packets (Highest_seq s5 - num_sent + 1) num_sent s5 = Some s6"
      "(if State s6 = EVS \<and> Token_rounds s6 > MAX_EVS_ROUNDS then Memb_token_loss s6 else Some s6) = Some s'"
    using dl by (auto simp: deliver_after_token_def split: bind_splits)
  have su: "State ?u = State s" using st3 by simp
  then have f4: "delivery_frame ?u s4"
    using d(1) assms(2) by (auto simp: Discard_packets_def split: if_splits dest: discard_frame)
  have f5: "delivery_frame s4 s5" by (rule agreed_frame [OF d(2)])
  have f6: "kept s5 s6" by (rule reliable_kept [OF d(3)])
  then have "delivery_frame s5 s6" by (simp add: kept_def)
  then have "State s6 = State s"
    using delivery_frame_simps(1) [OF f4] delivery_frame_simps(1) [OF f5] delivery_frame_simps(1) su by simp
  then have "s6 = s'" using d(4) assms(2) by simp
  with d f6 have e: "kept s5 s'" "Deliver_reliable_packets (Highest_seq s5 - num_sent + 1) num_sent s5 = Some s'"
    by simp_all
  show ?thesis by (rule that [OF sv l pf s3 d(1,2) e(2) f4 f5 e(1) st3])
qed

lemma stamp_token_simps [simp]:
  "th_aru (stamp_token leads s t) = th_aru t" "th_aru_last_id (stamp_token leads s t) = th_aru_last_id t"
  by (simp_all add: stamp_token_def Let_def)

lemma update_token_aru_le: "th_aru (update_token_aru s t) \<le> My_aru s"
  by (simp add: update_token_aru_def)

text \<open>What the daemon remembers of the visit.\<close>

lemma regular_token_memory:
  assumes "handle_regular_token t rtr s = Some s'" "State s \<noteq> EVS" "down_queue_ok s"
  shows "State s' = State s" "My s' = My s" "Memb_active s' = Memb_active s"
    "\<exists>leader. Conf_leader (Memb_active s) = Some leader \<and>
       Aru s' = min (th_aru (Last_token s')) (th_aru (Last_token s)) \<and> Aru s \<le> Aru s' \<and>
       (\<exists>num_sent th rtr' s1. serve_token t rtr s = Some (num_sent, th, rtr', s1) \<and> My_aru s1 = My_aru s' \<and>
          Last_token s' = stamp_token (leader = p_id (My s)) s1 th)"
proof -
  obtain num_sent th rtr' s1 leader s2 s3 s4 s5 where
      sv: "serve_token t rtr s = Some (num_sent, th, rtr', s1)" and l: "Conf_leader (Memb_active s) = Some leader" and
      pf: "pass_frame s1 s2" and up: "update_Aru (stamp_token (leader = p_id (My s)) s1 th) s2 = Some s3" and
      f4: "delivery_frame (s3\<lparr>Last_token := stamp_token (leader = p_id (My s)) s1 th\<rparr>) s4" and
      f5: "delivery_frame s4 s5" and f6: "kept s5 s'"
    by (rule handle_regular_token_cases [OF assms])
  let ?t = "stamp_token (leader = p_id (My s)) s1 th"
  have d: "delivery_frame (s3\<lparr>Last_token := ?t\<rparr>) s'"
    using f4 f5 f6 delivery_frame_trans by (auto simp: kept_def)
  note ds = delivery_frame_simps [OF d] delivery_frame_more [OF d]
  note sf = serve_frame_simps [OF serve_token_spec(1) [OF sv assms(2,3)]]
  note pfs = pass_frame_simps [OF pf]
  obtain a c where s3: "s3 = s2\<lparr>Aru := a, Token_counter := c\<rparr>" using update_Aru_cases(3) [OF up] by blast
  show "State s' = State s" "My s' = My s" using ds pfs sf by (simp_all add: s3)
  have "Memb_active (s3\<lparr>Last_token := ?t\<rparr>) = Memb_active s2" by (simp add: s3 Memb_active_def)
  then show "Memb_active s' = Memb_active s" using ds(12) pfs(5) sf(8) by simp
  have "Aru s' = min (th_aru (Last_token s')) (th_aru (Last_token s))" "Aru s \<le> Aru s'"
    using update_Aru_cases(1,2) [OF up] ds pfs sf by simp_all
  moreover have "My_aru s1 = My_aru s'" "Last_token s' = ?t" using ds pfs by (simp_all add: s3)
  ultimately show "\<exists>leader. Conf_leader (Memb_active s) = Some leader \<and>
       Aru s' = min (th_aru (Last_token s')) (th_aru (Last_token s)) \<and> Aru s \<le> Aru s' \<and>
       (\<exists>num_sent th rtr' s1. serve_token t rtr s = Some (num_sent, th, rtr', s1) \<and> My_aru s1 = My_aru s' \<and>
          Last_token s' = stamp_token (leader = p_id (My s)) s1 th)"
    using l sv by blast
qed

text \<open>The invariant of regular operation.\<close>

lemma regular_token_ok:
  assumes "handle_regular_token t rtr s = Some s'" "State s \<noteq> EVS" "regular_ok s"
    "th_seq t \<le> Last_discarded s + MAX_PACKETS_IN_STRUCT"
  shows "regular_ok s'"
proof -
  have dq: "down_queue_ok s" using assms(3) by (simp add: regular_ok_def)
  obtain num_sent th rtr' s1 leader s2 s3 s4 s5 where
      sv: "serve_token t rtr s = Some (num_sent, th, rtr', s1)" and
      pf: "pass_frame s1 s2" and up: "update_Aru (stamp_token (leader = p_id (My s)) s1 th) s2 = Some s3" and
      dc: "Discard_packets (s3\<lparr>Last_token := stamp_token (leader = p_id (My s)) s1 th\<rparr>) = Some s4" and
      ag: "Deliver_agreed_packets s4 = Some s5" and
      f4: "delivery_frame (s3\<lparr>Last_token := stamp_token (leader = p_id (My s)) s1 th\<rparr>) s4" and
      f5: "delivery_frame s4 s5" and f6: "kept s5 s'" and st3: "State s3 = State s"
    by (rule handle_regular_token_cases [OF assms(1,2) dq])
  let ?t = "stamp_token (leader = p_id (My s)) s1 th"
  let ?u = "s3\<lparr>Last_token := ?t\<rparr>"
  note sw = serve_token_window [OF sv assms(2-4)]
  note sf = serve_frame_simps [OF serve_token_spec(1) [OF sv assms(2) dq]]
  note pfs = pass_frame_simps [OF pf]
  obtain a c where s3: "s3 = s2\<lparr>Aru := a, Token_counter := c\<rparr>" using update_Aru_cases(3) [OF up] by blast
  have w: "window_ok ?u" "aru_max ?u"
    using sw pass_window [OF pf] window_frame [of ?u s2] by (simp_all add: s3)
  obtain f l where th: "th = update_token_aru s1 (t\<lparr>th_flow_control := f, th_rtr_len := l\<rparr>)"
    using serve_token_spec(5) [OF sv assms(2) dq] by blast
  have "th_aru ?t \<le> My_aru s1" by (simp add: th update_token_aru_le)
  then have am: "Aru ?u \<le> My_aru ?u" using update_Aru_cases(1) [OF up] pfs by (simp add: s3)
  have ge: "Last_discarded ?u \<le> Aru ?u"
    using update_Aru_cases(2) [OF up] pfs sf assms(3) by (simp add: s3 regular_ok_def)
  have w4: "window_ok s4 \<and> aru_max s4 \<and> Last_discarded s4 = Aru ?u"
  proof (cases "Aru ?u \<le> Last_discarded ?u")
    case True
    then have "s4 = ?u" using dc by (simp add: Discard_packets_def)
    with w ge True show ?thesis by simp
  next
    case False
    then have ds: "discard_stable ?u = Some s4"
      using dc assms(2) st3 by (auto simp: Discard_packets_def split: if_splits)
    have "Aru ?u - Last_discarded ?u \<le> MAX_PACKETS_IN_STRUCT" using w(1) am unfolding window_ok_def by linarith
    with discard_window [OF ds w(1) ge am] w(2) discard_stable_run(2) [OF ds] show ?thesis by simp
  qed
  have w5: "window_ok s5 \<and> aru_max s5 \<and> Last_discarded s5 = Aru ?u" using agreed_window [OF ag] w4 by simp
  have w6: "window_ok s' \<and> aru_max s' \<and> Last_discarded s' = Aru ?u"
    using kept_window [OF f6] kept_aru_max [OF f6] w5 f6 by (simp add: kept_def)
  have d: "delivery_frame ?u s'" using f4 f5 f6 delivery_frame_trans by (auto simp: kept_def)
  note dm = delivery_frame_simps(6) [OF d] delivery_frame_more [OF d]
  have "down_queue_ok s'"
    by (subst down_queue_ok_cong [where s = s1]) (use sw dm pfs in \<open>simp_all add: s3\<close>)
  moreover have "Window s' = Window s" "Personal_window s' = Personal_window s" using dm pfs sw by (simp_all add: s3)
  ultimately show ?thesis using w6 dm(1) assms(3) by (simp add: regular_ok_def)
qed

end
