(* ===== verification/FormSpec.thy ===== *)
theory FormSpec
  imports ReadForm2 InstallSpec RingInvariant
begin

text \<open>
  What the form tokens collect and what a member makes of them: the entry of an old ring after
  the visits of its members, the new ring, and the state of the old ring's packets.
\<close>

section \<open>Lists of members\<close>

lemma length_member_list: "members_ok m \<Longrightarrow> int (length (member_list m)) = num_members m"
  by (simp add: members_ok_def member_list_def)

lemma insert_members_spec:
  "members_ok m \<Longrightarrow> card (set (member_list m) \<union> set xs) \<le> 128 \<Longrightarrow>
   members_ok (insert_members xs m) \<and> set (member_list (insert_members xs m)) = set (member_list m) \<union> set xs \<and>
   (\<exists>ys. member_list (insert_members xs m) = member_list m @ ys) \<and>
   num_pending (insert_members xs m) = num_pending m \<and>
   (distinct xs \<and> set xs \<inter> set (member_list m) = {} \<longrightarrow> member_list (insert_members xs m) = member_list m @ xs)"
proof (induction xs arbitrary: m)
  case (Cons i xs)
  let ?m = "snd (Insert_member m i)"
  have ok: "members_ok ?m" by (rule members_ok_Insert [OF Cons.prems(1)])
  have room: "i \<notin> set (member_list m) \<Longrightarrow> num_members m \<noteq> MAX_PROCS_RING"
  proof
    assume i: "i \<notin> set (member_list m)" and n: "num_members m = MAX_PROCS_RING"
    have "card (set (member_list m)) = 128"
      using length_member_list [OF Cons.prems(1)] Cons.prems(1) n by (simp add: members_ok_def distinct_card)
    then have "card (insert i (set (member_list m))) = 129" using i by simp
    moreover have "card (insert i (set (member_list m))) \<le> card (set (member_list m) \<union> set (i # xs))"
      by (rule card_mono) auto
    ultimately show False using Cons.prems(2) by simp
  qed
  have l: "member_list ?m = (if i \<in> set (member_list m) then member_list m else member_list m @ [i])"
    using member_list_Insert [OF Cons.prems(1), of i] room by auto
  have u: "set (member_list ?m) \<union> set xs = set (member_list m) \<union> set (i # xs)" using l by auto
  have p: "num_pending ?m = num_pending m" by (simp add: Insert_member_def)
  have step: "insert_members (i # xs) m = insert_members xs ?m" by (simp add: insert_members_def)
  have "card (set (member_list ?m) \<union> set xs) \<le> 128" using Cons.prems(2) unfolding u .
  note ih = Cons.IH [OF ok this]
  show ?case unfolding step
    using ih l u p by (auto split: if_splits)
qed (simp add: insert_members_def)

section \<open>The entry of an old ring\<close>

fun visit_rings :: "ring_info \<Rightarrow> daemon list \<Rightarrow> ring_info option" where
  "visit_rings g [] = Some g"
| "visit_rings g (s # ss) = (case merged_ring g s of None \<Rightarrow> None | Some g \<Rightarrow> visit_rings g ss)"

definition my_ids :: "daemon list \<Rightarrow> int32u list" where
  "my_ids ss = map (\<lambda>s. p_id (My s)) ss"

definition commit_ids :: "daemon list \<Rightarrow> int32u set" where
  "commit_ids ss = set (my_ids ss) \<union> (\<Union>s \<in> set ss. set (member_list (Commit_set s)))"

text \<open>Members of one old ring, each with a sound window, their windows overlapping.\<close>

definition old_members :: "daemon list \<Rightarrow> bool" where
  "old_members ss \<longleftrightarrow>
     (\<forall>s \<in> set ss. window_ok s \<and> members_ok (Commit_set s)) \<and>
     (\<forall>s \<in> set ss. \<forall>s' \<in> set ss. Highest_seq s \<le> Last_discarded s' + MAX_PACKETS_IN_STRUCT) \<and>
     distinct (my_ids ss) \<and> card (commit_ids ss) \<le> 128"

text \<open>
  What the entry says of the members that it visited: the highest sequence number and aru that
  any of them has, the packets above \<open>base\<close> that none of them has, who they are in the order of
  the visits, and all that are to install the ring together.
\<close>

definition describes :: "int \<Rightarrow> ring_info \<Rightarrow> daemon list \<Rightarrow> bool" where
  "describes base g ss \<longleftrightarrow>
     (\<forall>s \<in> set ss. Highest_seq s \<le> ri_highest_seq g) \<and> (\<exists>s \<in> set ss. Highest_seq s = ri_highest_seq g) \<and>
     (\<forall>s \<in> set ss. Aru s \<le> ri_aru g) \<and> (\<exists>s \<in> set ss. Aru s = ri_aru g) \<and>
     base \<le> ri_highest_seq g \<and> sorted (ri_holes g) \<and> distinct (ri_holes g) \<and>
     set (ri_holes g) = {i. base < i \<and> i \<le> ri_highest_seq g \<and> (\<forall>s \<in> set ss. exist_at s i = 0)} \<and>
     ri_num_trans g = int (length ss) \<and> take (length ss) (ri_commit g) = my_ids ss \<and>
     distinct (ri_commit g) \<and> set (ri_commit g) = commit_ids ss"

lemma describes_fresh:
  assumes "window_ok s" "members_ok (Commit_set s)"
  shows "describes (Last_discarded s) (fresh_ring s) [s]"
proof -
  have "Last_discarded s \<le> Highest_seq s" using assms(1) by (simp add: window_ok_def)
  moreover have "distinct (own_commit s)" "set (own_commit s) = commit_ids [s]"
    using assms(2) by (auto simp: own_commit_def members_ok_def commit_ids_def my_ids_def)
  moreover have "take 1 (own_commit s) = my_ids [s]" by (simp add: own_commit_def my_ids_def)
  ultimately show ?thesis
    by (auto simp: describes_def fresh_ring_def holes_between_def sorted_wrt_filter)
qed

text \<open>The first entry, which \<open>Create_form1\<close> writes, is the same.\<close>

lemma create_ring_fresh: "window_ok s \<Longrightarrow> create_ring s = fresh_ring s"
proof -
  assume w: "window_ok s"
  have le: "Last_discarded s \<le> My_aru s" "My_aru s \<le> Highest_seq s" using w by (simp_all add: window_ok_def)
  have "[Last_discarded s + 1..Highest_seq s] = [Last_discarded s + 1..My_aru s] @ [My_aru s + 1..Highest_seq s]"
  proof (cases "Last_discarded s = My_aru s")
    case False
    then show ?thesis using le by (intro upto_split2) auto
  qed simp
  moreover have "filter (\<lambda>i. exist_at s i = 0) [Last_discarded s + 1..My_aru s] = []"
    using w by (auto simp: window_ok_def filter_empty_conv)
  ultimately show ?thesis by (simp add: create_ring_def fresh_ring_def holes_between_def)
qed

lemma merge_commit_spec:
  assumes d: "describes base g vs" and o: "old_members (vs @ [s])"
  shows "\<exists>t. merge_commit g s = Some t \<and> members_ok t \<and> num_pending t = int (length vs) + 1 \<and>
    take (length vs + 1) (member_list t) = my_ids (vs @ [s]) \<and> set (member_list t) = commit_ids (vs @ [s])"
proof -
  let ?c = "ri_commit g" and ?n = "length vs"
  let ?e = "\<lparr>num_members = 0, num_pending = 0, members = (\<lambda>_. 0)\<rparr> :: members_info"
  have e: "members_ok ?e" "member_list ?e = []" by (simp_all add: members_ok_def member_list_def)
  have g: "ri_num_trans g = int ?n" "take ?n ?c = my_ids vs" "distinct ?c" "set ?c = commit_ids vs"
    using d by (simp_all add: describes_def)
  have all: "commit_ids (vs @ [s]) = set ?c \<union> insert (p_id (My s)) (set (member_list (Commit_set s)))"
    by (auto simp: g(4) commit_ids_def my_ids_def)
  have cap: "card A \<le> 128" if "A \<subseteq> commit_ids (vs @ [s])" for A
  proof -
    have "finite (commit_ids (vs @ [s]))" by (simp add: commit_ids_def)
    then have "card A \<le> card (commit_ids (vs @ [s]))" using that by (rule card_mono)
    with o show ?thesis by (simp add: old_members_def)
  qed
  have own: "set (my_ids (vs @ [s])) \<subseteq> commit_ids (vs @ [s])" by (auto simp: commit_ids_def)
  have tk: "set (take ?n ?c) \<subseteq> set ?c" "set (drop ?n ?c) \<subseteq> set ?c" by (auto dest: in_set_takeD in_set_dropD)
  define t1 where "t1 = insert_members (take ?n ?c) ?e"
  have "card (set (member_list ?e) \<union> set (take ?n ?c)) \<le> 128" using tk by (intro cap) (auto simp: e all)
  from insert_members_spec [OF e(1) this] have t1: "members_ok t1" "member_list t1 = my_ids vs"
    using g(2) distinct_take [OF g(3), of ?n] by (auto simp: t1_def e(2))
  have new: "p_id (My s) \<notin> set (my_ids vs)" using o by (auto simp: old_members_def my_ids_def)
  define t2 where "t2 = insert_members [p_id (My s)] t1"
  have "card (set (member_list t1) \<union> set [p_id (My s)]) \<le> 128"
    by (rule cap) (auto simp: t1(2) commit_ids_def my_ids_def)
  from insert_members_spec [OF t1(1) this] have t2: "members_ok t2" "member_list t2 = my_ids (vs @ [s])"
    using new by (auto simp: t2_def t1(2) my_ids_def)
  have n2: "num_members t2 = int ?n + 1" using length_member_list [OF t2(1)] by (simp add: t2(2) my_ids_def)
  define t3 where "t3 = t2\<lparr>num_pending := int ?n + 1\<rparr>"
  have t3: "members_ok t3" "member_list t3 = my_ids (vs @ [s])" "num_pending t3 = int ?n + 1"
    using t2 by (simp_all add: t3_def members_ok_def member_list_def)
  define t4 where "t4 = insert_members (drop ?n ?c) t3"
  have "card (set (member_list t3) \<union> set (drop ?n ?c)) \<le> 128"
    using tk(2) own all by (intro cap) (auto simp: t3(2))
  note t4 = insert_members_spec [OF t3(1) this, folded t4_def]
  define t5 where "t5 = insert_members (member_list (Commit_set s)) t4"
  have s4: "set (member_list t4) = set (my_ids (vs @ [s])) \<union> set (drop ?n ?c)" using t4 t3(2) by simp
  have "set (member_list t4) \<union> set (member_list (Commit_set s)) \<subseteq> commit_ids (vs @ [s])"
    unfolding s4 using tk(2) own all by auto
  then have "card (set (member_list t4) \<union> set (member_list (Commit_set s))) \<le> 128" by (rule cap)
  note t5 = insert_members_spec [OF _ this, folded t5_def]
  have "set ?c = set (my_ids vs) \<union> set (drop ?n ?c)" using g(2) by (metis append_take_drop_id set_append)
  then have "set (member_list t5) = commit_ids (vs @ [s])"
    using t5 t4 unfolding s4 all by (auto simp: my_ids_def)
  moreover obtain ys where "member_list t5 = my_ids (vs @ [s]) @ ys"
    using t5 t4 t3(2) by (metis append.assoc)
  then have "take (?n + 1) (member_list t5) = my_ids (vs @ [s])" by (simp add: my_ids_def)
  moreover have "merge_commit g s = Some t5"
    using n2 by (simp add: merge_commit_def Let_def g(1) t1_def [symmetric] t2_def [symmetric] t3_def [symmetric]
        t4_def [symmetric] t5_def [symmetric])
  ultimately show ?thesis using t5 t4 t3(3) by auto
qed

lemma describes_step:
  assumes d: "describes base g vs" and o: "old_members (vs @ [s])" and b: "base \<le> Last_discarded s"
  shows "\<exists>g'. merged_ring g s = Some g' \<and> describes base g' (vs @ [s])"
proof -
  obtain t where t: "merge_commit g s = Some t" "members_ok t" "num_pending t = int (length vs) + 1"
      "take (length vs + 1) (member_list t) = my_ids (vs @ [s])" "set (member_list t) = commit_ids (vs @ [s])"
    using merge_commit_spec [OF d o] by blast
  let ?h = "ri_highest_seq g" and ?H = "Highest_seq s"
  let ?holes = "filter (\<lambda>i. exist_at s i = 0) (ri_holes g) @ holes_between s (?h + 1) ?H"
  have g: "sorted (ri_holes g)" "distinct (ri_holes g)" "base \<le> ?h"
      "set (ri_holes g) = {i. base < i \<and> i \<le> ?h \<and> (\<forall>s \<in> set vs. exist_at s i = 0)}"
    using d by (simp_all add: describes_def)
  have above: "exist_at v i = 0" if "v \<in> set vs" "?h < i" "i \<le> ?H" for v i
  proof -
    have "window_ok v" "?H \<le> Last_discarded v + 8192" using o that(1) by (auto simp: old_members_def)
    moreover have "Highest_seq v \<le> ?h" using d that(1) by (simp add: describes_def)
    ultimately show ?thesis using that(2,3) by (simp add: window_ok_def)
  qed
  have above_me: "exist_at s i = 0" if "?H < i" "i \<le> ?h" for i
  proof -
    obtain v where "v \<in> set vs" "Highest_seq v = ?h" using d by (auto simp: describes_def)
    then have "?h \<le> Last_discarded s + 8192" using o by (auto simp: old_members_def)
    moreover have "window_ok s" using o by (simp add: old_members_def)
    ultimately show ?thesis using that by (simp add: window_ok_def)
  qed
  have holes: "set ?holes = {i. base < i \<and> i \<le> max ?h ?H \<and> (\<forall>v \<in> set (vs @ [s]). exist_at v i = 0)}"
  proof (intro equalityI subsetI)
    fix i assume "i \<in> set ?holes"
    then show "i \<in> {i. base < i \<and> i \<le> max ?h ?H \<and> (\<forall>v \<in> set (vs @ [s]). exist_at v i = 0)}"
      using above g(3) by (auto simp: g(4) holes_between_def)
  next
    fix i assume i: "i \<in> {i. base < i \<and> i \<le> max ?h ?H \<and> (\<forall>v \<in> set (vs @ [s]). exist_at v i = 0)}"
    show "i \<in> set ?holes"
    proof (cases "i \<le> ?h")
      case True
      with i have "i \<in> set (ri_holes g)" "exist_at s i = 0" unfolding g(4) by auto
      then show ?thesis by simp
    next
      case False
      with i show ?thesis by (auto simp: holes_between_def)
    qed
  qed
  have "sorted ?holes" "distinct ?holes"
    using g(1,2) g(4) by (auto simp: holes_between_def sorted_append sorted_wrt_filter)
  moreover have "max ?h ?H = (if ?h > ?H then ?h else ?H)" by simp
  moreover have "distinct (member_list t)" using t(2) by (simp add: members_ok_def)
  ultimately have "describes base \<lparr>ri_memb_id = Membership_id s, ri_trans_time = 0,
             ri_aru = (if ri_aru g > Aru s then ri_aru g else Aru s),
             ri_highest_seq = (if ?h > ?H then ?h else ?H), ri_holes = ?holes,
             ri_commit = member_list t, ri_num_trans = num_pending t\<rparr> (vs @ [s])"
    using d holes t(3-5) g(3) by (auto simp: describes_def my_ids_def)
  with t(1) show ?thesis by (simp add: merged_ring_def)
qed

lemma old_members_prefix: "old_members (vs @ ss) \<Longrightarrow> old_members vs"
proof -
  assume o: "old_members (vs @ ss)"
  have "commit_ids vs \<subseteq> commit_ids (vs @ ss)" by (auto simp: commit_ids_def my_ids_def)
  moreover have "finite (commit_ids (vs @ ss))" by (simp add: commit_ids_def)
  ultimately have "card (commit_ids vs) \<le> card (commit_ids (vs @ ss))" by (intro card_mono)
  with o show ?thesis by (auto simp: old_members_def my_ids_def)
qed

lemma describes_visits:
  "describes base g vs \<Longrightarrow> old_members (vs @ ss) \<Longrightarrow> \<forall>s \<in> set ss. base \<le> Last_discarded s \<Longrightarrow>
   \<exists>g'. visit_rings g ss = Some g' \<and> describes base g' (vs @ ss)"
proof (induction ss arbitrary: g vs)
  case (Cons s ss)
  have "old_members (vs @ [s])" using old_members_prefix [of "vs @ [s]" ss] Cons.prems(2) by simp
  then obtain g' where g': "merged_ring g s = Some g'" "describes base g' (vs @ [s])"
    using describes_step [OF Cons.prems(1)] Cons.prems(3) by auto
  from Cons.IH [OF g'(2)] Cons.prems(2,3) g'(1) show ?case by simp
qed simp

section \<open>The new ring\<close>

lemma append_to_segment_ids:
  assumes "append_to_segment cn k i c = (ret, c')" "ret \<noteq> -1" "0 \<le> k" "k < int (length (segments c))"
  shows "length (segments c') = length (segments c)"
    "set (ring_ids c') = insert i (set (ring_ids c))" "length (ring_ids c') = Suc (length (ring_ids c))"
proof -
  obtain p where p: "snd (Conf_proc_by_id_in_conf cn i) = Some p"
      "c' = c\<lparr>segments := (segments c)[nat k := (seg_at c k)\<lparr>procs := procs (seg_at c k) @ [p]\<rparr>]\<rparr>"
    using assms(1,2) by (auto simp: append_to_segment_def Conf_append_id_to_seg_def split: prod.splits option.splits)
  have id: "p_id p = i" using proc_by_id_Some [OF p(1)] by simp
  have k: "nat k < length (segments c)" using assms(3,4) by simp
  then have sp: "segments c = take (nat k) (segments c) @ seg_at c k # drop (Suc (nat k)) (segments c)"
    by (simp add: seg_at_def id_take_nth_drop)
  have ap: "all_procs (segments c') = all_procs (take (nat k) (segments c)) @ procs (seg_at c k) @ p # all_procs (drop (Suc (nat k)) (segments c))"
    using p(2) k by (simp add: upd_conv_take_nth_drop)
  have "all_procs (segments c) = all_procs (take (nat k) (segments c)) @ procs (seg_at c k) @ all_procs (drop (Suc (nat k)) (segments c))"
    by (subst sp) simp
  with ap id show "set (ring_ids c') = insert i (set (ring_ids c))" "length (ring_ids c') = Suc (length (ring_ids c))"
    by (auto simp: ring_ids_def)
  show "length (segments c') = length (segments c)" using p(2) by simp
qed

lemma add_members_spec:
  "add_members cn is c = Some c' \<Longrightarrow>
   (\<forall>i \<in> set is. \<forall>p. snd (Conf_proc_by_id_in_conf cn i) = Some p \<longrightarrow> 0 \<le> p_seg_index p \<and> p_seg_index p < int (length (segments c))) \<Longrightarrow>
   set (ring_ids c') = set (ring_ids c) \<union> set is \<and> length (ring_ids c') = length (ring_ids c) + length is"
proof (induction "is" arbitrary: c)
  case (Cons i "is")
  obtain p where p: "snd (Conf_proc_by_id_in_conf cn i) = Some p"
    using Cons.prems(1) by (auto split: option.splits)
  obtain ret d where a: "append_to_segment cn (p_seg_index p) (p_id p) c = (ret, d)" "ret \<noteq> -1"
      and rest: "add_members cn is d = Some c'"
    using Cons.prems(1) p by (auto split: prod.splits if_splits)
  have r: "0 \<le> p_seg_index p" "p_seg_index p < int (length (segments c))" using Cons.prems(2) p by simp_all
  note ap = append_to_segment_ids [OF a r]
  have "p_id p = i" using proc_by_id_Some [OF p] by simp
  with Cons.IH [OF rest] Cons.prems(2) ap show ?case by auto
qed simp

lemma clear_segments_empty: "ring_ids (clear_segments (Conf_num_segments c) c) = [] \<and>
    length (segments (clear_segments (Conf_num_segments c) c)) = length (segments c)"
proof -
  have "procs sg = []" if "sg \<in> set (segments (clear_segments (Conf_num_segments c) c))" for sg
    using that by (auto simp: clear_segments_def Conf_num_segments_def in_set_enumerate_eq)
  then have "all_procs (segments (clear_segments (Conf_num_segments c) c)) = []"
    by (metis (no_types, lifting) UN_E all_not_in_conv empty_set set_all_procs set_empty)
  then show ?thesis by (simp add: ring_ids_def clear_segments_def)
qed

section \<open>Backing off\<close>

lemma clear_dummies_fold:
  "let s' = fold (\<lambda>i s. if exist_at s i = 3 then set_exist (pack_entry i) 0 s else s) is s in
   s' = s\<lparr>Packets := Packets s'\<rparr> \<and>
   (\<forall>e. pi_exist (Packets s' e) =
      (if e \<in> pack_entry ` set is \<and> pi_exist (Packets s e) = 3 then 0 else pi_exist (Packets s e)) \<and>
      pi_head (Packets s' e) = pi_head (Packets s e))"
proof (induction "is" arbitrary: s)
  case (Cons i "is")
  let ?t = "if exist_at s i = 3 then set_exist (pack_entry i) 0 s else s"
  have t: "?t = s\<lparr>Packets := Packets ?t\<rparr>" by (simp add: set_exist_def set_packet_def)
  have e: "pi_exist (Packets ?t e) = (if e = pack_entry i \<and> pi_exist (Packets s e) = 3 then 0 else pi_exist (Packets s e))"
      "pi_head (Packets ?t e) = pi_head (Packets s e)" for e
    by (auto simp: set_exist_def set_packet_def)
  obtain p where p: "?t = s\<lparr>Packets := p\<rparr>" using t by blast
  from Cons [of ?t] show ?case
    by (simp only: Let_def fold_Cons comp_def e) (auto simp: p)
qed simp

lemma Backoff_membership_spec:
  assumes "Last_discarded s \<le> Highest_seq s"
  shows "let s' = Backoff_membership s; L = Last_discarded s; H = Highest_seq s in
    (\<forall>i. L < i \<and> i \<le> H \<longrightarrow> exist_at s' i = (if exist_at s i = 3 then 0 else exist_at s i)) \<and>
    Last_discarded s' = L \<and> Highest_seq s' = H \<and> Aru s' = L \<and> L \<le> My_aru s' \<and> My_aru s' \<le> H \<and>
    (\<forall>i. L < i \<and> i \<le> My_aru s' \<longrightarrow> held s i) \<and> (My_aru s' = H \<or> \<not> held s (My_aru s' + 1))"
proof -
  let ?L = "Last_discarded s" and ?H = "Highest_seq s"
  let ?t = "clear_dummies s"
  have c: "?t = s\<lparr>Packets := Packets ?t\<rparr>"
    "\<forall>e. pi_exist (Packets ?t e) =
      (if e \<in> pack_entry ` set [?L + 1..?H] \<and> pi_exist (Packets s e) = 3 then 0 else pi_exist (Packets s e))"
    using clear_dummies_fold [of "[?L + 1..?H]" s] by (simp_all add: clear_dummies_def Let_def)
  obtain p where p: "?t = s\<lparr>Packets := p\<rparr>" using c(1) by blast
  have ex: "exist_at ?t i = (if exist_at s i = 3 then 0 else exist_at s i)" if "?L < i" "i \<le> ?H" for i
    using c(2) that by auto
  let ?b = "advance_aru (exist_at ?t) [?L + 1..?H] ?L"
  note b = advance_aru_spec [OF refl assms, of "exist_at ?t"]
  have s': "Backoff_membership s = ?t\<lparr>Aru := ?L, My_aru := ?b\<rparr>"
    by (simp add: Backoff_membership_def Let_def p)
  have held: "exist_at ?t i \<noteq> 0 \<longleftrightarrow> held s i" if "?L < i" "i \<le> ?H" for i
    using ex [OF that] by (auto simp: held_def)
  have up: "\<forall>i. ?L < i \<and> i \<le> ?b \<longrightarrow> held s i" using b held by auto
  have stop: "?b = ?H \<or> \<not> held s (?b + 1)" using b held [of "?b + 1"] by auto
  show ?thesis
    using b up stop ex unfolding Let_def s' by (simp add: p)
qed

section \<open>The old ring's packets\<close>

lemma recompute_aru_spec:
  "recompute_aru ex [lo..h] (a, m) = Some (b, m') \<Longrightarrow> a \<le> lo - 1 \<Longrightarrow> lo \<le> h + 1 \<Longrightarrow>
   (a < lo - 1 \<longrightarrow> b = a) \<and>
   (a = lo - 1 \<longrightarrow> a \<le> b \<and> b \<le> h \<and> (\<forall>i. a < i \<and> i \<le> b \<longrightarrow> ex i = 1 \<or> ex i = 2) \<and>
      (b < h \<longrightarrow> ex (b + 1) = 0 \<or> ex (b + 1) = 3))"
proof (induction "nat (h + 1 - lo)" arbitrary: lo a m)
  case (Suc k)
  then have up: "[lo..h] = lo # [lo + 1..h]" and k: "k = nat (h + 1 - (lo + 1))" "lo + 1 \<le> h + 1"
    by (auto intro: upto_rec1)
  show ?case
  proof (cases "ex lo = 1 \<or> ex lo = 2")
    case True
    let ?a = "if lo = a + 1 then lo else a"
    have r: "recompute_aru ex [lo + 1..h] (?a, m) = Some (b, m')" using Suc.prems(1) True by (simp add: up)
    have "?a \<le> lo + 1 - 1" using Suc.prems(2) by simp
    note ih = Suc.hyps(1) [OF k(1) r this k(2)]
    show ?thesis
    proof (cases "lo = a + 1")
      case a: True
      have "ex i = 1 \<or> ex i = 2" if "a < i" "i \<le> b" for i
        using that ih a True Suc.hyps(2) Suc.prems(3) by (cases "i = lo") auto
      then show ?thesis using ih a Suc.hyps(2) Suc.prems(3) by auto
    qed (use ih Suc.hyps(2) Suc.prems in auto)
  next
    case False
    with Suc.prems(1) obtain m2 where r: "recompute_aru ex [lo + 1..h] (a, m2) = Some (b, m')" "ex lo = 0 \<or> ex lo = 3"
      by (auto simp: up split: if_splits)
    have "a \<le> lo + 1 - 1" using Suc.prems(2) by simp
    from Suc.hyps(1) [OF k(1) r(1) this k(2)] r(2) Suc.hyps(2) Suc.prems(2,3) show ?thesis by auto
  qed
qed auto

lemma restore_aru_spec:
  assumes "restore_aru s = Some s'" "Last_discarded s \<le> Highest_seq s"
  shows "\<exists>a. s' = s\<lparr>My_aru := a\<rparr> \<and> Last_discarded s \<le> a \<and> a \<le> Highest_seq s \<and>
    (\<forall>i. Last_discarded s < i \<and> i \<le> a \<longrightarrow> held s i) \<and> (a < Highest_seq s \<longrightarrow> \<not> held s (a + 1))"
proof -
  obtain a m where a: "recompute_aru (exist_at s) [Last_discarded s + 1..Highest_seq s] (Last_discarded s, My_aru s) = Some (a, m)"
      "s' = s\<lparr>My_aru := a\<rparr>"
    using assms(1) by (auto simp: restore_aru_def split: bind_splits if_splits prod.splits)
  from recompute_aru_spec [OF a(1)] assms(2) a(2) show ?thesis
    by (intro exI [of _ a]) (auto simp: held_def)
qed

text \<open>What is restored holds without further conditions.\<close>

lemma restore_aru_held:
  assumes "restore_aru s = Some s'"
  shows "s' = s\<lparr>My_aru := My_aru s'\<rparr>" "\<forall>i. Last_discarded s < i \<and> i \<le> My_aru s' \<longrightarrow> held s i"
proof -
  show "s' = s\<lparr>My_aru := My_aru s'\<rparr>" using assms by (auto simp: restore_aru_def split: bind_splits if_splits prod.splits)
  show "\<forall>i. Last_discarded s < i \<and> i \<le> My_aru s' \<longrightarrow> held s i"
  proof (cases "Last_discarded s \<le> Highest_seq s")
    case True
    then show ?thesis using restore_aru_spec [OF assms] by auto
  next
    case False
    then have "My_aru s' = Last_discarded s"
      using assms by (auto simp: restore_aru_def split: bind_splits if_splits prod.splits)
    then show ?thesis by auto
  qed
qed

section \<open>Accepting the form2 token\<close>

definition packets_only :: "daemon \<Rightarrow> daemon \<Rightarrow> bool" where
  "packets_only s s' \<longleftrightarrow> s' = s\<lparr>Packets := Packets s'\<rparr>"

lemma packets_only_trans: "packets_only s t \<Longrightarrow> packets_only t u \<Longrightarrow> packets_only s u"
proof -
  assume "packets_only s t" "packets_only t u"
  then obtain p q where "t = s\<lparr>Packets := p\<rparr>" "u = t\<lparr>Packets := q\<rparr>" unfolding packets_only_def by blast
  then show ?thesis by (simp add: packets_only_def)
qed

lemma packets_only_set: "packets_only s (set_exist e v s)"
  by (simp add: packets_only_def set_exist_def set_packet_def)

lemma packets_only_forget: "forget_packets is s = Some s' \<Longrightarrow> packets_only s s'"
proof (induction "is" arbitrary: s)
  case (Cons i "is")
  then show ?case by (auto split: if_splits intro: packets_only_trans [OF packets_only_set])
qed (simp add: packets_only_def)

lemma packets_only_mark: "mark_holes is s = Some s' \<Longrightarrow> packets_only s s'"
proof (induction "is" arbitrary: s)
  case (Cons i "is")
  then show ?case by (auto split: if_splits intro: packets_only_trans [OF packets_only_set])
qed (simp add: packets_only_def)

lemma member_list_set: "member_list (set_member_list xs m) = xs"
  by (rule nth_equalityI) (simp_all add: member_list_def set_member_list_def)

lemma num_pending_set: "num_pending (set_member_list xs m) = num_pending m"
  by (simp add: set_member_list_def)

text \<open>What settling the old ring keeps.\<close>

lemma settle_old_ring_spec:
  assumes "settle_old_ring g s = Some s'" "State s \<noteq> EVS"
  shows "Future_membership s' = Future_membership s" "Future_membership_id s' = Future_membership_id s"
    "Membership s' = Membership s" "Membership_id s' = Membership_id s" "State s' = State s" "My s' = My s"
    "Last_seq s' = Last_seq s" "Highest_seq s' = ri_highest_seq g"
    "\<forall>i. Last_discarded s' < i \<and> i \<le> My_aru s' \<longrightarrow> held s' i"
    "member_list (Future_commit_set s') = ri_commit g \<and> num_pending (Future_commit_set s') = ri_num_trans g"
proof -
  obtain t u v w where t: "forget_packets (rev [ri_highest_seq g + 1..Highest_seq s]) s = Some t" and
      u: "Discard_packets (t\<lparr>My_aru := (if My_aru t > ri_highest_seq g then ri_highest_seq g else My_aru t),
                 Highest_seq := ri_highest_seq g, Aru := ri_aru g\<rparr>) = Some u" and
      v: "mark_holes (ri_holes g) u = Some v" and w: "restore_aru v = Some w" and
      s': "s' = w\<lparr>Future_commit_set := set_member_list (ri_commit g) ((Future_commit_set w)\<lparr>num_pending := ri_num_trans g\<rparr>)\<rparr>"
    using assms(1) by (auto simp: settle_old_ring_def Let_def split: bind_splits)
  obtain p1 where t': "t = s\<lparr>Packets := p1\<rparr>" using packets_only_forget [OF t] unfolding packets_only_def by blast
  let ?t = "t\<lparr>My_aru := (if My_aru t > ri_highest_seq g then ri_highest_seq g else My_aru t),
                 Highest_seq := ri_highest_seq g, Aru := ri_aru g\<rparr>"
  have "State ?t \<noteq> EVS" using assms(2) by (simp add: t')
  then have "delivery_frame ?t u"
    using u by (auto simp: Discard_packets_def split: if_splits dest: discard_frame)
  then obtain p q o' d c where u': "u = ?t\<lparr>Packets := p, Up_queue := q, out := o', Last_delivered := d, Last_discarded := c\<rparr>"
    unfolding delivery_frame_def by blast
  obtain p2 where v': "v = u\<lparr>Packets := p2\<rparr>" using packets_only_mark [OF v] unfolding packets_only_def by blast
  obtain a where w': "w = v\<lparr>My_aru := a\<rparr>" using restore_aru_held(1) [OF w] by blast
  show "Future_membership s' = Future_membership s" "Future_membership_id s' = Future_membership_id s"
    "Membership s' = Membership s" "Membership_id s' = Membership_id s" "State s' = State s" "My s' = My s"
    "Last_seq s' = Last_seq s" "Highest_seq s' = ri_highest_seq g"
    by (simp_all add: s' w' v' u' t')
  show "\<forall>i. Last_discarded s' < i \<and> i \<le> My_aru s' \<longrightarrow> held s' i"
    using restore_aru_held(2) [OF w] by (simp add: s' w' held_def)
  show "member_list (Future_commit_set s') = ri_commit g \<and> num_pending (Future_commit_set s') = ri_num_trans g"
    by (simp add: s' member_list_set num_pending_set)
qed

lemma form2_memb_id_frame:
  assumes "form2_memb_id m mid s = (t, mid', s')"
  shows "s' = s\<lparr>Last_time_used := Last_time_used s'\<rparr>"
  using assms by (auto simp: form2_memb_id_def Let_def split: if_splits)

lemma form2_trans_time_frame:
  assumes "form2_trans_time g k s = (t, s')"
  shows "s' = s\<lparr>Last_time_used := Last_time_used s', F_trans_memb_time := F_trans_memb_time s'\<rparr>"
  using assms by (auto simp: form2_trans_time_def Let_def split: if_splits)

lemma send_form2_frame: "send_form2 head body s = Some s' \<Longrightarrow> s' = s\<lparr>out := out s', Token_rounds := Token_rounds s'\<rparr>"
  by (auto simp: send_form2_def emit_def Let_def split: bind_splits if_splits)

text \<open>The ring entry of this daemon's old ring that the token carries.\<close>

definition token_entry :: "form_body \<Rightarrow> daemon \<Rightarrow> ring_info" where
  "token_entry body s = fm_rings body ! nat (my_ring_index (fm_rings body) s)"

definition configured :: "configuration \<Rightarrow> bool" where
  "configured c \<longleftrightarrow> (\<forall>p \<in> set (allprocs c). 0 \<le> p_seg_index p \<and> p_seg_index p < int (length (segments c)))"

lemma accept_form2_spec:
  assumes "accept_form2 head body s = Some s'" "State s \<noteq> EVS" "configured (Cn s)"
    "ids = arr_list (members (fm_members body)) (num_members (fm_members body) + num_pending (fm_members body))"
  shows "State s' = EVS" "Token_alive s'" "Aru s' = 0" "Last_seq s' = th_seq head" "Membership s' = Membership s"
    "Membership_id s' = Membership_id s" "Highest_seq s' = ri_highest_seq (token_entry body s)"
    "\<forall>i. Last_discarded s' < i \<and> i \<le> My_aru s' \<longrightarrow> held s' i"
    "set (ring_ids (Future_membership s')) = set ids" "length (ring_ids (Future_membership s')) = length ids"
    "member_list (Future_commit_set s') = ri_commit (token_entry body s) \<and>
     num_pending (Future_commit_set s') = ri_num_trans (token_entry body s)"
proof -
  let ?g = "token_entry body s"
  let ?m = "(fm_members body)\<lparr>num_members := num_members (fm_members body) + 1, num_pending := num_pending (fm_members body) - 1\<rparr>"
  let ?s = "s\<lparr>Last_seq := th_seq head\<rparr>"
  obtain k mid a where fi: "form2_memb_id ?m (fm_memb_id body) ?s = (k, mid, a)"
    by (cases "form2_memb_id ?m (fm_memb_id body) ?s") auto
  obtain n where a: "a = ?s\<lparr>Last_time_used := n\<rparr>" using form2_memb_id_frame [OF fi] by blast
  obtain fut c where fut: "form2_membership ?m a = Some fut" and
      c: "Prot_set_prev_proc fut (emit (Net_set_membership fut) (a\<lparr>Future_membership_id := mid, Future_membership := fut\<rparr>)) = Some c"
    using assms(1) fi by (auto simp: accept_form2_def Let_def token_entry_def split: bind_splits prod.splits)
  obtain e t f hd bd h where e: "settle_old_ring ?g (FC_new_configuration c) = Some e" and
      f: "form2_trans_time ?g k e = (t, f)" and h: "send_form2 hd bd f = Some h" and s': "s' = enter_evs h"
    using assms(1) fi fut c by (auto simp: accept_form2_def Let_def token_entry_def split: bind_splits prod.splits)
  obtain prev where c': "c = (emit (Net_set_membership fut) (a\<lparr>Future_membership_id := mid, Future_membership := fut\<rparr>))\<lparr>Prev_proc_id := prev\<rparr>"
    using c by (auto simp: Prot_set_prev_proc_def split: bind_splits)
  let ?c = "FC_new_configuration c"
  have fc: "State ?c = State s" "Membership ?c = Membership s" "Membership_id ?c = Membership_id s" "Last_seq ?c = th_seq head"
      "Future_membership ?c = fut"
    by (simp_all add: FC_new_configuration_def c' a emit_def)
  have "State ?c \<noteq> EVS" using fc(1) assms(2) by simp
  note st = settle_old_ring_spec [OF e this]
  obtain n2 f2 where f': "f = e\<lparr>Last_time_used := n2, F_trans_memb_time := f2\<rparr>" using form2_trans_time_frame [OF f] by blast
  obtain o' r where h': "h = f\<lparr>out := o', Token_rounds := r\<rparr>" using send_form2_frame [OF h] by blast
  have fin: "Future_membership s' = fut" "Membership s' = Membership s" "Membership_id s' = Membership_id s" "Last_seq s' = th_seq head"
      "Highest_seq s' = Highest_seq e" "My_aru s' = My_aru e" "Packets s' = Packets e" "Last_discarded s' = Last_discarded e"
      "Future_commit_set s' = Future_commit_set e"
    using st fc by (simp_all add: s' enter_evs_def Let_def E_queue_def h' f')
  show "State s' = EVS" "Token_alive s'" "Aru s' = 0" by (simp_all add: s' enter_evs_def Let_def E_queue_def)
  show "Last_seq s' = th_seq head" "Membership s' = Membership s" "Membership_id s' = Membership_id s" by (simp_all add: fin)
  show "Highest_seq s' = ri_highest_seq ?g" "\<forall>i. Last_discarded s' < i \<and> i \<le> My_aru s' \<longrightarrow> held s' i"
    using st(8,9) by (simp_all add: fin held_def)
  show "member_list (Future_commit_set s') = ri_commit ?g \<and> num_pending (Future_commit_set s') = ri_num_trans ?g"
    using st(10) by (simp add: fin)
  let ?e = "clear_segments (Conf_num_segments (Cn s)) (Cn s)"
  have am: "add_members (Cn s) ids ?e = Some fut"
    using fut assms(4) by (simp add: form2_membership_def a add.commute)
  have in_range: "\<forall>i \<in> set ids. \<forall>p. snd (Conf_proc_by_id_in_conf (Cn s) i) = Some p \<longrightarrow>
      0 \<le> p_seg_index p \<and> p_seg_index p < int (length (segments ?e))"
    using assms(3) proc_by_id_Some clear_segments_empty [of "Cn s"] by (auto simp: configured_def)
  show "set (ring_ids (Future_membership s')) = set ids" "length (ring_ids (Future_membership s')) = length ids"
    using add_members_spec [OF am in_range] clear_segments_empty [of "Cn s"] by (simp_all add: fin)
qed

end
