(* ===== verification/RingTheorems.thy ===== *)
theory RingTheorems
  imports RingInvariant Samples "HOL-Library.Sublist"
begin

text \<open>
  The properties of the ring protocol of \<open>daemon/protocol.c\<close>: sending, receiving, delivering
  and discarding of packets, and what the regular token agrees on.
\<close>

section \<open>Sending\<close>

definition byte_element :: "nat \<Rightarrow> int \<Rightarrow> scat_element" where
  "byte_element b len = (\<lambda>i. of_int i + of_nat b, len)"

definition queued :: daemon where
  "queued = sample_daemon
     \<lparr>Down_queue := [\<lparr>dl_type = 4, dl_mess = [byte_element 1 3, byte_element 7 2]\<rparr>, \<lparr>dl_type = 4, dl_mess = [byte_element 9 4]\<rparr>],
      Window := 60, Personal_window := 20\<rparr>"

lemma queued_ok: "down_queue_ok queued"
  by (simp add: queued_def down_queue_ok_def byte_element_def sample_daemon_def)

lemma sample_window: "window_ok sample_daemon" "aru_max sample_daemon"
  by (simp_all add: window_ok_def aru_max_def sample_daemon_def)

lemma queued_window: "window_ok queued"
  using sample_window(1) by (subst window_frame(1) [of _ sample_daemon]) (simp_all add: queued_def)

lemma queued_sends: "\<exists>n s'. Send_new_packets 5 queued = Some (n, s')"
  unfolding Send_new_packets_def
  by (rule send_packets_total [OF queued_ok]) (simp_all add: queued_def sample_daemon_def)

text \<open>
  C6: The packets that Send_new_packets makes carry the fragments that wait in the down queue,
  in their order, each once: read back with the parser of Deliver_packet, the fragments of the
  packets with the new sequence numbers are the first elements of the queue, and what is left
  in the queue is the rest. The numbers are the next ones, at most as many as allowed, fewer
  only when the queue runs empty, and packets that were in the table stay as they are.
\<close>
theorem new_packets_carry_queue:
  assumes "Send_new_packets allowed s = Some (n, s')" "down_queue_ok s"
  shows "\<exists>els. pending_elements s = els @ pending_elements s' \<and>
           fragments_between s' (Highest_seq s + 1) (Highest_seq s') = Some (map elem_bytes els) \<and>
           Highest_seq s' = Highest_seq s + n \<and> 0 \<le> n \<and> n \<le> max 0 allowed \<and>
           (n < allowed \<longrightarrow> Down_queue s' = []) \<and>
           (\<forall>i. Highest_seq s < i \<and> i \<le> Highest_seq s' \<longrightarrow>
                exist_at s i = 0 \<and> exist_at s' i = 1 \<and> ph_seq (pi_head (packet_at s' i)) = i) \<and>
           (\<forall>e. pi_exist (Packets s e) \<noteq> 0 \<longrightarrow> packet_same (Packets s e) (Packets s' e))"
proof -
  have k: "int (nat allowed) = max 0 allowed" by simp
  obtain els where "pending_elements s = els @ pending_elements s'"
      "fragments_between s' (Highest_seq s + 1) (Highest_seq s') = Some (map elem_bytes els)"
      "Highest_seq s' = Highest_seq s + n" "0 \<le> n" "n \<le> max 0 allowed"
      "n < max 0 allowed \<longrightarrow> Down_queue s' = []"
      "\<forall>i. Highest_seq s < i \<and> i \<le> Highest_seq s' \<longrightarrow>
          exist_at s i = 0 \<and> exist_at s' i = 1 \<and> ph_seq (pi_head (packet_at s' i)) = i"
      "\<forall>e. pi_exist (Packets s e) \<noteq> 0 \<longrightarrow> packet_same (Packets s e) (Packets s' e)"
    using send_packets_spec [OF assms(1) [unfolded Send_new_packets_def] assms(2), unfolded k] by blast
  then show ?thesis by (intro exI [of _ els]) auto
qed

theorem new_packets_carry_queue_witness:
  "\<exists>n s' els. Send_new_packets 5 queued = Some (n, s') \<and>
     pending_elements queued = els @ pending_elements s' \<and>
     fragments_between s' 1 (Highest_seq s') = Some (map elem_bytes els)"
proof -
  obtain n s' where s: "Send_new_packets 5 queued = Some (n, s')" using queued_sends by blast
  have h: "Highest_seq queued + 1 = 1" by (simp add: queued_def sample_daemon_def)
  from new_packets_carry_queue [OF s queued_ok] s show ?thesis unfolding h by blast
qed

text \<open>
  C19: With a sound window, and when everything below the aru of the ring has been discarded,
  the packets that flow control allows are sent without any of the fatal errors of
  Send_new_packets, at most Window and at most Personal_window of them, and the window stays
  sound. A window of up to 6592 packets is small enough for the table.
\<close>
theorem allowed_packets_are_sent:
  assumes "window_ok s" "down_queue_ok s" "Aru s = Last_discarded s" "0 \<le> Window s" "0 \<le> Personal_window s"
    "Window s \<le> MAX_PACKETS_IN_STRUCT - MAX_SEQ_GAP"
  shows "\<exists>n s'. Send_new_packets (FC_allowed flow retrans s) s = Some (n, s') \<and> window_ok s' \<and>
           0 \<le> n \<and> n \<le> Window s \<and> n \<le> Personal_window s \<and>
           Highest_seq s' = Highest_seq s + n \<and> Highest_seq s' - Last_discarded s' \<le> MAX_PACKETS_IN_STRUCT"
proof -
  let ?k = "nat (FC_allowed flow retrans s)"
  have b: "FC_allowed flow retrans s \<le> Window s" "FC_allowed flow retrans s \<le> Personal_window s"
      "0 \<le> FC_allowed flow retrans s"
    using assms(4,5) by (auto simp: FC_allowed_def Let_def)
  have fit: "Highest_seq s + int ?k \<le> Last_discarded s + MAX_PACKETS_IN_STRUCT"
  proof (cases "FC_allowed flow retrans s = 0")
    case True
    then show ?thesis using assms(1) by (simp add: window_ok_def)
  next
    case False
    then have "Highest_seq s \<le> Aru s + MAX_SEQ_GAP" by (auto simp: FC_allowed_def split: if_splits)
    with b assms(3,6) show ?thesis by simp
  qed
  have free: "\<forall>i. Highest_seq s < i \<and> i \<le> Highest_seq s + int ?k \<longrightarrow> exist_at s i = 0"
    using assms(1) fit by (simp add: window_ok_def)
  have "?k \<le> 8192" using b assms(6) by simp
  then obtain n s' where s: "send_packets ?k s = Some (n, s')"
    using send_packets_total [OF assms(2) free] by blast
  have w: "window_ok s'" by (rule send_window [OF s assms(2,1) fit])
  have "Highest_seq s' = Highest_seq s + n \<and> 0 \<le> n \<and> n \<le> int ?k"
    using send_packets_spec [OF s assms(2)] by blast
  with s w b show ?thesis by (intro exI [of _ n] exI [of _ s']) (auto simp: Send_new_packets_def window_ok_def)
qed

theorem allowed_packets_are_sent_witness:
  "\<exists>n s'. Send_new_packets (FC_allowed 0 0 queued) queued = Some (n, s') \<and> window_ok s' \<and> n \<le> 20"
proof -
  have "Aru queued = Last_discarded queued" "Window queued = 60" "Personal_window queued = 20"
    by (simp_all add: queued_def sample_daemon_def)
  then show ?thesis using allowed_packets_are_sent [OF queued_window queued_ok, of 0 0] by auto
qed

section \<open>Receiving\<close>

text \<open>
  C20: A regular packet whose number lies in the table's window keeps the window sound: nothing
  is missing up to My_aru, everything up to Last_delivered has been delivered, each entry holds
  the packet of its own number, and My_aru is as high as the received packets allow.
\<close>
theorem packet_keeps_window:
  assumes "handle_regular h b s = Some s'" "window_ok s" "aru_max s"
    and "ph_seq h \<le> Last_discarded s + MAX_PACKETS_IN_STRUCT"
  shows "window_ok s' \<and> aru_max s'"
  by (rule handle_regular_window [OF assms])

definition third_packet :: packet_header where
  "third_packet = no_header\<lparr>ph_type := 0x80000080, ph_proc_id := 20, ph_seq := 3\<rparr>"

lemma third_received:
  "map_option (\<lambda>s. (My_aru s, Highest_seq s)) (handle_regular third_packet (\<lambda>_. 0) sample_daemon) = Some (0, 3)"
  by code_simp

theorem packet_keeps_window_witness:
  "\<exists>s'. handle_regular third_packet (\<lambda>_. 0) sample_daemon = Some s' \<and> My_aru s' = 0 \<and> Highest_seq s' = 3 \<and>
     window_ok s' \<and> aru_max s'"
proof -
  obtain s' where s: "handle_regular third_packet (\<lambda>_. 0) sample_daemon = Some s'" "My_aru s' = 0" "Highest_seq s' = 3"
    using third_received by auto
  have "ph_seq third_packet \<le> Last_discarded sample_daemon + MAX_PACKETS_IN_STRUCT"
    by (simp add: third_packet_def sample_daemon_def)
  from packet_keeps_window [OF s(1) sample_window this] s show ?thesis by blast
qed

section \<open>Delivering and discarding\<close>

text \<open>
  C17: Deliver_agreed_packets hands the packets above Last_delivered to the sessions in the order
  of their numbers, each not delivered yet exactly once and completed into the messages of its
  sender; it goes on until My_aru or until the first packet whose message is to be safe, which
  stays undelivered, and marks exactly the packets passed over as delivered.
\<close>
theorem agreed_delivery_in_order:
  assumes "Deliver_agreed_packets s = Some s'" "State s \<noteq> EVS" "Prot_delivery_threshold s \<le> AGREED_TYPE" "window_ok s"
  shows "\<exists>k. Last_delivered s' = k \<and> Last_delivered s \<le> k \<and> k \<le> My_aru s \<and>
     delivers (filter (\<lambda>i. exist_at s i = 1) [Last_delivered s + 1..k]) s s' \<and>
     (\<forall>i. Last_delivered s < i \<and> i \<le> k \<and> exist_at s i = 1 \<longrightarrow> \<not> Is_safe (ph_type (pi_head (packet_at s i)))) \<and>
     (k < My_aru s \<longrightarrow> exist_at s (k + 1) = 1 \<and> Is_safe (ph_type (pi_head (packet_at s (k + 1))))) \<and>
     Packets s' = mark 2 (entries (Last_delivered s + 1) k) (Packets s) \<and> window_ok s'"
proof -
  have "Last_delivered s \<le> My_aru s" "My_aru s - Last_delivered s \<le> MAX_PACKETS_IN_STRUCT"
    using assms(4) by (auto simp: window_ok_def)
  note run = Deliver_agreed_packets_run [OF assms(1-3) this, unfolded agreed_run_def Let_def]
  have "\<not> Is_safe (ph_type (pi_head (packet_at s i)))"
    if "Last_delivered s < i" "i \<le> Last_delivered s'" "exist_at s i = 1" for i
  proof -
    have "exist_at s i = 2 \<or> exist_at s i = 1 \<and> \<not> Is_safe (ph_type (pi_head (packet_at s i)))"
      using run that(1,2) by simp
    with that(3) show ?thesis by simp
  qed
  then show ?thesis
    using run agreed_window(1) [OF assms(1,4)] by (intro exI [of _ "Last_delivered s'"]) simp
qed

definition ready :: daemon where
  "ready = sample_daemon
     \<lparr>Packets := (\<lambda>e. if e = 1 then \<lparr>pi_head = no_header\<lparr>ph_type := 0x80000080, ph_seq := 1,
          ph_first_frag := \<lparr>fragment_index = -1, fragment_len = 2\<rparr>, ph_data_len := 2\<rparr>,
          pi_body = (\<lambda>_. 5), pi_exist = 1, pi_proc_index = 1\<rparr> else Packets sample_daemon e),
      Highest_seq := 1, My_aru := 1, Prot_delivery_threshold := 0\<rparr>"

lemma ready_window: "window_ok ready"
proof -
  have e: "exist_at ready i = (if pack_entry i = 1 then 1 else 0)" for i
    by (simp add: ready_def sample_daemon_def)
  have p: "pack_entry i = i" if "0 < i" "i < 8192" for i using that by (simp add: pack_entry_mod)
  have q: "pack_entry 8192 = 0" by (simp add: pack_entry_mod)
  have f: "Last_discarded ready = 0" "Last_delivered ready = 0" "My_aru ready = 1" "Highest_seq ready = 1"
    by (simp_all add: ready_def sample_daemon_def)
  show ?thesis
    unfolding window_ok_def f
  proof (intro conjI allI impI)
    fix i :: int assume "0 < i \<and> i \<le> 1"
    then have "i = 1" by simp
    then have "pack_entry i = 1" using p [of 1] by simp
    then show "exist_at ready i \<noteq> 0" using e [of i] by simp
  next
    fix i :: int assume "0 < i \<and> i \<le> 1 \<and> exist_at ready i \<noteq> 0"
    then have "i = 1" by simp
    with p [of 1] show "ph_seq (pi_head (packet_at ready i)) = i" by (simp add: ready_def)
  next
    fix i :: int assume i: "1 < i \<and> i \<le> 0 + 8192"
    then have "pack_entry i \<noteq> 1" using p [of i] q by (cases "i = 8192") auto
    then show "exist_at ready i = 0" using e by simp
  qed auto
qed

lemma ready_delivers:
  "map_option (\<lambda>s. (Last_delivered s, map (\<lambda>x. case x of Sess_deliver_message m \<Rightarrow> m | _ \<Rightarrow> []) (out s)))
     (Deliver_agreed_packets ready) = Some (1, [[[5, 5]]])"
  by code_simp

theorem agreed_delivery_in_order_witness:
  "\<exists>s'. Deliver_agreed_packets ready = Some s' \<and>
     map (\<lambda>x. case x of Sess_deliver_message m \<Rightarrow> m | _ \<Rightarrow> []) (out s') = [[[5, 5]]] \<and>
     delivers (filter (\<lambda>i. exist_at ready i = 1) [1..1]) ready s'"
proof -
  obtain s' where s: "Deliver_agreed_packets ready = Some s'" "Last_delivered s' = 1"
      "map (\<lambda>x. case x of Sess_deliver_message m \<Rightarrow> m | _ \<Rightarrow> []) (out s') = [[[5, 5]]]"
    using ready_delivers by auto
  have f: "State ready \<noteq> EVS" "Prot_delivery_threshold ready \<le> AGREED_TYPE" "Last_delivered ready + 1 = 1"
    by (simp_all add: ready_def sample_daemon_def)
  from agreed_delivery_in_order [OF s(1) f(1,2) ready_window] s show ?thesis unfolding f(3) by auto
qed

text \<open>The messages of two runs over the same packets: one is a prefix of the other.\<close>

lemma message_trace_prefix:
  assumes "message_trace ps up = Some (ms, u)" "message_trace (ps @ qs) up = Some (ns, v)"
  shows "\<exists>rest. ns = ms @ rest"
  using assms by (auto simp: message_trace_append)

lemma upto_append: "i \<le> j + 1 \<Longrightarrow> j \<le> m \<Longrightarrow> [i..m] = [i..j] @ [j + 1..m :: int]"
  by (cases "i = j + 1") (simp_all add: upto_split2)

lemma delivered_none_skipped:
  assumes "\<forall>i. lo \<le> i \<and> i \<le> hi \<longrightarrow> P i"
  shows "filter P [lo..hi :: int] = [lo..hi]"
  using assms by (simp add: filter_id_conv)

text \<open>
  C5: Agreed order is a total order. Two daemons that have delivered equally far and hold the
  same packets above, none of them delivered before its turn, deliver the same messages in the
  same order: what one of them hands to its sessions is a prefix of what the other one does.
\<close>
theorem agreed_order_is_total:
  assumes "Deliver_agreed_packets a = Some a'" "State a \<noteq> EVS" "Prot_delivery_threshold a \<le> AGREED_TYPE" "window_ok a"
    and "Deliver_agreed_packets b = Some b'" "State b \<noteq> EVS" "Prot_delivery_threshold b \<le> AGREED_TYPE" "window_ok b"
    and "Last_delivered a = Last_delivered b" "Up_queue a = Up_queue b"
    and "\<And>i. Last_delivered a < i \<Longrightarrow> i \<le> My_aru a \<Longrightarrow> exist_at a i = 1"
    and "\<And>i. Last_delivered a < i \<Longrightarrow> i \<le> My_aru b \<Longrightarrow> exist_at b i = 1"
    and "\<And>i. Last_delivered a < i \<Longrightarrow> i \<le> min (My_aru a) (My_aru b) \<Longrightarrow> packet_at a i = packet_at b i"
  shows "\<exists>ms ns. out a' = out a @ map Sess_deliver_message ms \<and> out b' = out b @ map Sess_deliver_message ns \<and>
           (prefix ms ns \<or> prefix ns ms)"
proof -
  let ?l = "Last_delivered a"
  have la: "Last_delivered a \<le> My_aru a" "My_aru a - Last_delivered a \<le> MAX_PACKETS_IN_STRUCT"
      "Last_delivered b \<le> My_aru b" "My_aru b - Last_delivered b \<le> MAX_PACKETS_IN_STRUCT"
    using assms(4,8) by (auto simp: window_ok_def)
  note ra = Deliver_agreed_packets_run [OF assms(1-3) la(1,2)]
  note rb = Deliver_agreed_packets_run [OF assms(5-7) la(3,4)]
  let ?ka = "Last_delivered a'" and ?kb = "Last_delivered b'"
  have k: "?l \<le> ?ka" "?ka \<le> My_aru a" "?l \<le> ?kb" "?kb \<le> My_aru b"
    using ra rb assms(9) by (auto simp: agreed_run_def Let_def)
  have "delivers [?l + 1..?ka] a a'"
    using ra delivered_none_skipped [of "?l + 1" ?ka "\<lambda>i. exist_at a i = 1"] assms(11) k by (auto simp: agreed_run_def Let_def)
  then obtain ms where ms: "message_trace (map (packet_at a) [?l + 1..?ka]) (Up_queue a) = Some (ms, Up_queue a')"
      "out a' = out a @ map Sess_deliver_message ms" by (auto simp: delivers_def)
  have "delivers [?l + 1..?kb] b b'"
    using rb delivered_none_skipped [of "?l + 1" ?kb "\<lambda>i. exist_at b i = 1"] assms(9,12) k by (auto simp: agreed_run_def Let_def)
  then obtain ns where ns: "message_trace (map (packet_at b) [?l + 1..?kb]) (Up_queue a) = Some (ns, Up_queue b')"
      "out b' = out b @ map Sess_deliver_message ns" using assms(10) by (auto simp: delivers_def)
  have same: "map (packet_at a) [?l + 1..j] = map (packet_at b) [?l + 1..j]" if "j \<le> min ?ka ?kb" for j
    using that assms(13) k by (intro map_cong) auto
  show ?thesis
  proof (cases "?ka \<le> ?kb")
    case True
    then have "[?l + 1..?kb] = [?l + 1..?ka] @ [?ka + 1..?kb]" using k by (intro upto_append) auto
    then have "\<exists>rest. ns = ms @ rest"
      using message_trace_prefix [of "map (packet_at a) [?l + 1..?ka]" "Up_queue a" ms] ms(1) ns(1) same [of ?ka] True by simp
    with ms(2) ns(2) show ?thesis by (auto simp: prefix_def)
  next
    case False
    then have "[?l + 1..?ka] = [?l + 1..?kb] @ [?kb + 1..?ka]" using k by (intro upto_append) auto
    then have "\<exists>rest. ms = ns @ rest"
      using message_trace_prefix [of "map (packet_at b) [?l + 1..?kb]" "Up_queue a" ns] ms(1) ns(1) same [of ?kb] False by simp
    with ms(2) ns(2) show ?thesis by (auto simp: prefix_def)
  qed
qed

theorem agreed_order_is_total_witness:
  "\<exists>a'. Deliver_agreed_packets ready = Some a' \<and>
     (\<exists>ms ns. out a' = out ready @ map Sess_deliver_message ms \<and> out ready = out ready @ map Sess_deliver_message ns \<and>
        (prefix ms ns \<or> prefix ns ms))"
proof -
  obtain a' where s: "Deliver_agreed_packets ready = Some a'" using ready_delivers by auto
  have f: "State ready \<noteq> EVS" "Prot_delivery_threshold ready \<le> AGREED_TYPE" "Last_delivered ready = 0" "My_aru ready = 1"
    by (simp_all add: ready_def sample_daemon_def)
  have e: "exist_at ready i = 1" if "0 < i" "i \<le> 1" for i
  proof -
    have "i = 1" using that by simp
    then show ?thesis by (simp add: ready_def pack_entry_mod)
  qed
  define b where "b = ready\<lparr>My_aru := 0\<rparr>"
  have b: "window_ok b" "Deliver_agreed_packets b = Some b"
    using ready_window by (simp_all add: b_def window_ok_def Deliver_agreed_packets_def ready_def sample_daemon_def)
  have g: "State b \<noteq> EVS" "Prot_delivery_threshold b \<le> AGREED_TYPE" "Last_delivered ready = Last_delivered b"
      "Up_queue ready = Up_queue b" "My_aru b = 0" "out b = out ready"
    by (simp_all add: b_def ready_def sample_daemon_def)
  have "\<exists>ms ns. out a' = out ready @ map Sess_deliver_message ms \<and> out b = out b @ map Sess_deliver_message ns \<and>
      (prefix ms ns \<or> prefix ns ms)"
    by (rule agreed_order_is_total [OF s f(1,2) ready_window b(2) g(1,2) b(1) g(3,4)])
       (use f(3,4) g(5) e in auto)
  with s g(6) show ?thesis by simp
qed

text \<open>
  C18: Discarding up to the aru of the ring hands over what agreed delivery left, the safe
  messages, in the order of their numbers, and nothing that was delivered before; it frees the
  entries, moves Last_discarded to Aru, and keeps the window sound.
\<close>
theorem discard_delivers_the_rest:
  assumes "discard_stable s = Some s'" "window_ok s" "Last_discarded s \<le> Aru s" "Aru s \<le> My_aru s"
  shows "delivers (filter (\<lambda>i. exist_at s i = 1) [Last_delivered s + 1..Aru s]) s s' \<and>
     (\<forall>i. Last_discarded s < i \<and> i \<le> Aru s \<longrightarrow> exist_at s i \<noteq> 0 \<and> exist_at s' i = 0) \<and>
     Last_discarded s' = Aru s \<and> Last_delivered s' = max (Last_delivered s) (Aru s) \<and> window_ok s'"
proof -
  have w: "Last_discarded s \<le> Last_delivered s" "Last_delivered s \<le> My_aru s" "My_aru s \<le> Highest_seq s"
      "Highest_seq s - Last_discarded s \<le> 8192" using assms(2) by (simp_all add: window_ok_def)
  have "Aru s - Last_discarded s \<le> MAX_PACKETS_IN_STRUCT" using w assms(4) by simp
  note r = discard_stable_run [OF assms(1) this]
  have two: "filter (\<lambda>i. exist_at s i = 1) [Last_discarded s + 1..j] = []" if "j \<le> Last_delivered s" for j
    using assms(2) that by (auto simp: window_ok_def filter_empty_conv)
  have "filter (\<lambda>i. exist_at s i = 1) [Last_discarded s + 1..Aru s] =
      filter (\<lambda>i. exist_at s i = 1) [Last_delivered s + 1..Aru s]"
  proof (cases "Last_delivered s \<le> Aru s")
    case True
    then have "[Last_discarded s + 1..Aru s] = [Last_discarded s + 1..Last_delivered s] @ [Last_delivered s + 1..Aru s]"
      using w by (intro upto_append) auto
    then show ?thesis using two [of "Last_delivered s"] by simp
  next
    case False
    then show ?thesis using two [of "Aru s"] by simp
  qed
  moreover have "exist_at s i \<noteq> 0 \<and> exist_at s' i = 0" if "Last_discarded s < i" "i \<le> Aru s" for i
  proof -
    have "pack_entry i \<in> entries (Last_discarded s + 1) (Aru s)" using that by (auto simp: entries_def)
    then have "exist_at s' i = 0" using r(1) by (simp add: discard_run_def)
    moreover have "exist_at s i \<noteq> 0" using r(1) that by (auto simp: discard_run_def)
    ultimately show ?thesis by simp
  qed
  ultimately show ?thesis
    using r discard_window(1) [OF assms] by (auto simp: discard_run_def)
qed

lemma ready_discards: "map_option Last_discarded (discard_stable (ready\<lparr>Aru := 1\<rparr>)) = Some 1"
  by code_simp

theorem discard_delivers_the_rest_witness:
  "\<exists>s'. discard_stable (ready\<lparr>Aru := 1\<rparr>) = Some s' \<and> Last_discarded s' = 1 \<and> exist_at s' 1 = 0 \<and> window_ok s'"
proof -
  obtain s' where s: "discard_stable (ready\<lparr>Aru := 1\<rparr>) = Some s'" using ready_discards by auto
  have w: "window_ok (ready\<lparr>Aru := 1\<rparr>)" using ready_window by (simp add: window_ok_def)
  have f: "Last_discarded (ready\<lparr>Aru := 1\<rparr>) = 0" "My_aru (ready\<lparr>Aru := 1\<rparr>) = 1" "Aru (ready\<lparr>Aru := 1\<rparr>) = 1"
    by (simp_all add: ready_def sample_daemon_def)
  note d = discard_delivers_the_rest [OF s w]
  have "Last_discarded s' = 1 \<and> (\<forall>i. 0 < i \<and> i \<le> 1 \<longrightarrow> exist_at s' i = 0) \<and> window_ok s'"
    using d unfolding f by simp
  with s show ?thesis by simp
qed

end
