(* ===== verification/TokenTheorems.thy ===== *)
theory TokenTheorems
  imports RingTheorems
begin

text \<open>
  The properties of the regular token: what a visit answers, asks for, agrees on and keeps, and
  that no token is served twice.
\<close>

section \<open>The ring learns what everybody has\<close>

text \<open>
  C1: Nothing is discarded that some member lacks. When the token goes round a ring of n members
  in regular operation, the Aru that a daemon takes from its tokens of two consecutive visits is
  at most the My_aru that any member had when the token was with it in between; so that member
  holds, or has discarded, every packet that this daemon now discards.
\<close>
theorem discarded_packets_are_stable:
  assumes "ring_visits n d t" "n \<le> k" "Last_token s = t (k - n)" "update_Aru (t k) s = Some s'"
    and "k - n < j" "j \<le> k"
  shows "Aru s' \<le> My_aru (d j) \<and>
    (window_ok (d j) \<longrightarrow> (\<forall>i. Last_discarded (d j) < i \<and> i \<le> Aru s' \<longrightarrow> exist_at (d j) i \<noteq> 0))"
proof -
  have *: "Aru s' \<le> My_aru (d j)"
    using two_rounds [OF assms(1,5,6,2)] update_Aru_cases(1) [OF assms(4)] assms(3) by simp
  then have "exist_at (d j) i \<noteq> 0" if "window_ok (d j)" "Last_discarded (d j) < i" "i \<le> Aru s'" for i
    using that by (simp add: window_ok_def)
  with * show ?thesis by blast
qed

definition member :: "int32u \<Rightarrow> daemon" where
  "member i = sample_daemon\<lparr>My := sample_proc i 0\<rparr>"

definition idle_token :: "int32u \<Rightarrow> token_header" where
  "idle_token i = no_token\<lparr>th_aru_last_id := i, th_proc_id := i\<rparr>"

definition served :: "int32u \<Rightarrow> int32u \<Rightarrow> daemon" where
  "served i j = snd (snd (snd (the (serve_token (idle_token i) [] (member j)))))"

lemma served_eval:
  "map_option (\<lambda>(k, t, r, s). stamp_token False s t) (serve_token (idle_token 20) [] (member 10)) = Some (idle_token 10)"
  "map_option (\<lambda>(k, t, r, s). stamp_token False s t) (serve_token (idle_token 10) [] (member 20)) = Some (idle_token 20)"
  "map_option (\<lambda>(k, t, r, s). (p_id (My s), My_aru s, Highest_seq s)) (serve_token (idle_token 20) [] (member 10)) = Some (10, 0, 0)"
  "map_option (\<lambda>(k, t, r, s). (p_id (My s), My_aru s, Highest_seq s)) (serve_token (idle_token 10) [] (member 20)) = Some (20, 0, 0)"
  by code_simp+

lemma served_visit:
  assumes "map_option (\<lambda>(k, t, r, s). stamp_token False s t) (serve_token (idle_token i) [] (member j)) = Some (idle_token j)"
    "map_option (\<lambda>(k, t, r, s). (p_id (My s), My_aru s, Highest_seq s)) (serve_token (idle_token i) [] (member j)) = Some (j, 0, 0)"
  shows "token_visit (idle_token i) (member j) (idle_token j) (served i j)"
    "p_id (My (served i j)) = j" "My_aru (served i j) = 0" "Highest_seq (served i j) = 0"
proof -
  obtain k th r s where s: "serve_token (idle_token i) [] (member j) = Some (k, th, r, s)" using assms(1) by auto
  then have sv: "served i j = s" by (simp add: served_def)
  show "p_id (My (served i j)) = j" "My_aru (served i j) = 0" "Highest_seq (served i j) = 0"
    using assms(2) s sv by simp_all
  have "State (member j) \<noteq> EVS" "down_queue_ok (member j)" "My_aru (member j) \<le> Highest_seq (member j)"
    by (simp_all add: member_def sample_daemon_def down_queue_ok_def)
  moreover have "idle_token j = stamp_token False s th" using assms(1) s by simp
  ultimately show "token_visit (idle_token i) (member j) (idle_token j) (served i j)"
    unfolding token_visit_def sv using s by blast
qed

theorem discarded_packets_are_stable_witness:
  "\<exists>d t s s'. ring_visits 2 d t \<and> Last_token s = t 1 \<and> update_Aru (t 3) s = Some s' \<and> Aru s' \<le> My_aru (d 2)"
proof -
  define d where "d k = (if even k then served 20 10 else served 10 20)" for k :: nat
  define t where "t k = (if even k then idle_token 10 else idle_token 20)" for k :: nat
  note v1 = served_visit [OF served_eval(1,3)]
  note v2 = served_visit [OF served_eval(2,4)]
  have r: "ring_visits 2 d t"
    unfolding ring_visits_def
  proof (intro conjI allI impI)
    fix k i :: nat assume "0 < i \<and> i < 2"
    then have "i = 1" by simp
    then show "p_id (My (d (k + i))) \<noteq> p_id (My (d k))" using v1 v2 by (simp add: d_def)
  next
    fix k :: nat
    show "\<exists>s. token_visit (t k) s (t (Suc k)) (d (Suc k))"
      using v1(1) v2(1) by (cases "even k") (auto simp: d_def t_def)
  qed (use v1 v2 in \<open>simp_all add: d_def t_def idle_token_def no_token_def\<close>)
  define s where "s = sample_daemon\<lparr>Last_token := t 1\<rparr>"
  have "th_aru (t k) = 0" for k by (simp add: t_def idle_token_def no_token_def)
  then obtain s' where u: "update_Aru (t 3) s = Some s'"
    by (auto simp: update_Aru_def Let_def s_def sample_daemon_def)
  have l: "Last_token s = t (3 - 2)" by (simp add: s_def)
  have "Aru s' \<le> My_aru (d 2)" using discarded_packets_are_stable [OF r _ l u, of 2] by simp
  with r l u show ?thesis by (intro exI [of _ d] exI [of _ t] exI [of _ s] exI [of _ s']) simp
qed

section \<open>A visit keeps the invariant\<close>

text \<open>
  C4: A visit of the regular token keeps the invariant of regular operation: the window stays
  sound and as far advanced as the packets allow, exactly the packets up to Aru are discarded,
  and the token that is passed on never claims more than the daemon has.
\<close>
theorem token_keeps_regular_ok:
  assumes "handle_regular_token t rtr s = Some s'" "State s \<noteq> EVS" "regular_ok s"
    "th_seq t \<le> Last_discarded s + MAX_PACKETS_IN_STRUCT"
  shows "regular_ok s' \<and> Aru s' = min (th_aru (Last_token s')) (th_aru (Last_token s)) \<and>
    Last_discarded s' = Aru s' \<and> Last_discarded s \<le> Last_discarded s' \<and> th_aru (Last_token s') \<le> My_aru s'"
proof -
  have dq: "down_queue_ok s" using assms(3) by (simp add: regular_ok_def)
  have ok: "regular_ok s'" by (rule regular_token_ok [OF assms])
  obtain leader num_sent th rtr' s1 where m: "Aru s' = min (th_aru (Last_token s')) (th_aru (Last_token s))"
      "Aru s \<le> Aru s'" and sv: "serve_token t rtr s = Some (num_sent, th, rtr', s1)" "My_aru s1 = My_aru s'"
      "Last_token s' = stamp_token (leader = p_id (My s)) s1 th"
    using regular_token_memory(4) [OF assms(1,2) dq] by blast
  obtain f l where "th = update_token_aru s1 (t\<lparr>th_flow_control := f, th_rtr_len := l\<rparr>)"
    using serve_token_spec(5) [OF sv(1) assms(2) dq] by blast
  then have "th_aru (Last_token s') \<le> My_aru s'" using sv(2,3) update_token_aru_le [of s1] by simp
  with ok m assms(3) show ?thesis by (simp add: regular_ok_def)
qed

lemma sample_regular_ok: "regular_ok sample_daemon"
  using sample_window by (simp add: regular_ok_def down_queue_ok_def sample_daemon_def)

lemma sample_visit:
  "map_option (\<lambda>s. th_aru_last_id (Last_token s)) (handle_regular_token no_token [] sample_daemon) = Some 10"
  by code_simp

theorem token_keeps_regular_ok_witness:
  "\<exists>s'. handle_regular_token no_token [] sample_daemon = Some s' \<and> regular_ok s' \<and> Last_discarded s' = Aru s'"
proof -
  obtain s' where s: "handle_regular_token no_token [] sample_daemon = Some s'" using sample_visit by auto
  have "State sample_daemon \<noteq> EVS" "th_seq no_token \<le> Last_discarded sample_daemon + MAX_PACKETS_IN_STRUCT"
    by (simp_all add: sample_daemon_def no_token_def)
  from token_keeps_regular_ok [OF s this(1) sample_regular_ok this(2)] s show ?thesis by blast
qed

section \<open>No token is served twice\<close>

lemma next_arq_differs: "(Get_arq w + 1) mod 16 \<noteq> Get_arq w"
proof
  assume "(Get_arq w + 1) mod 16 = Get_arq w"
  then have "even ((Get_arq w + 1) AND 15) = even (Get_arq w)" by (simp add: and_15_mod)
  then show False by (simp add: even_and_iff)
qed

text \<open>
  C16: After a visit in regular operation a copy of the token that was served is swallowed: the
  counter in its type tells the daemon that it has seen it, and with no more retransmissions
  than that token it does nothing. A token with the next counter is accepted, by the leader as
  its own token come back and by everybody else as the next one.
\<close>
theorem token_served_once:
  assumes "check_arq t s = Some (True, s1)" "handle_regular_token t rtr s1 = Some s2" "State s \<noteq> EVS" "down_queue_ok s"
  shows "(Get_arq (th_type c) = Get_arq (th_type t) \<and> Get_retrans (th_type c) \<le> Get_retrans (th_type t) \<longrightarrow>
            check_arq c s2 = Some (False, s2)) \<and>
    (Get_arq (th_type c) = (Get_arq (th_type t) + 1) mod 16 \<longrightarrow> check_arq c s2 = Some (True, note_installed s2))"
proof -
  obtain leader where l: "Conf_leader (Memb_active s) = Some leader" and s1: "s1 = note_installed s"
    using assms(1) by (auto simp: check_arq_def Let_def split: bind_splits if_splits)
  have f1: "State s1 \<noteq> EVS" "Memb_active s1 = Memb_active s" "My s1 = My s"
    using assms(3) by (simp_all add: s1 note_installed_def Memb_active_def)
  have dq: "down_queue_ok s1"
    by (subst down_queue_ok_cong [where s = s]) (use assms(4) in \<open>simp_all add: s1 note_installed_def\<close>)
  note m = regular_token_memory [OF assms(2) f1(1) dq]
  obtain num_sent th rtr' s3 where sv: "serve_token t rtr s1 = Some (num_sent, th, rtr', s3)"
      and lt: "Last_token s2 = stamp_token (leader = p_id (My s)) s3 th"
    using m(4) l f1(2,3) by auto
  obtain f k where "th = update_token_aru s3 (t\<lparr>th_flow_control := f, th_rtr_len := k\<rparr>)"
    using serve_token_spec(5) [OF sv f1(1) dq] by blast
  then have ty: "th_type th = th_type t" by (simp add: update_token_aru_def)
  have last: "Get_arq (th_type (Last_token s2)) = (if leader = p_id (My s) then (Get_arq (th_type t) + 1) mod 16 else Get_arq (th_type t))"
    "leader \<noteq> p_id (My s) \<Longrightarrow> Get_retrans (th_type (Last_token s2)) = Get_retrans (th_type t)"
    by (simp_all add: lt stamp_token_def Let_def ty Get_Set_arq and_15_mod [symmetric] and.assoc)
  have ne: "(Get_arq w + 1) mod 16 \<noteq> Get_arq w" for w
    by (rule next_arq_differs)
  have ls: "Conf_leader (Memb_active s2) = Some leader" "My s2 = My s" using m(2,3) l f1 by simp_all
  show ?thesis
    using last ne [of "th_type t"] by (auto simp: check_arq_def ls Let_def not_less)
qed

lemma sample_check: "map_option fst (check_arq (no_token\<lparr>th_type := 0x10000\<rparr>) (member 20)) = Some True"
  by code_simp

theorem token_served_once_witness:
  "\<exists>s2. handle_regular_token (no_token\<lparr>th_type := 0x10000\<rparr>) [] (member 20) = Some s2 \<and>
     check_arq (no_token\<lparr>th_type := 0x10000\<rparr>) s2 = Some (False, s2) \<and>
     check_arq (no_token\<lparr>th_type := 0x20000\<rparr>) s2 = Some (True, note_installed s2)"
proof -
  let ?t = "no_token\<lparr>th_type := 0x10000\<rparr>"
  obtain s1 where c: "check_arq ?t (member 20) = Some (True, s1)" using sample_check by auto
  then have "s1 = member 20"
    by (auto simp: check_arq_def Let_def note_installed_def member_def sample_daemon_def split: bind_splits if_splits)
  have "map_option Aru (handle_regular_token ?t [] (member 20)) = Some 0" by code_simp
  then obtain s2 where h: "handle_regular_token ?t [] (member 20) = Some s2" by auto
  have f: "State (member 20) \<noteq> EVS" "down_queue_ok (member 20)"
    by (simp_all add: member_def sample_daemon_def down_queue_ok_def)
  have g: "Get_arq 0x20000 = (Get_arq 0x10000 + 1) mod 16" by code_simp
  note o = token_served_once [OF c h [folded \<open>s1 = member 20\<close>] f, unfolded \<open>s1 = member 20\<close>]
  from o [of ?t] o [of "no_token\<lparr>th_type := 0x20000\<rparr>"] h g show ?thesis by simp
qed

section \<open>Retransmissions\<close>


definition asking :: "ring_rtr list" where
  "asking = [\<lparr>rr_memb_id = \<lparr>mi_proc_id = 10, mi_time = 0\<rparr>, rr_proc_id = 20, rr_seg_index = 0, rr_seqs = [1, 2]\<rparr>,
     \<lparr>rr_memb_id = \<lparr>mi_proc_id = 30, mi_time = 0\<rparr>, rr_proc_id = 30, rr_seg_index = 0, rr_seqs = [1]\<rparr>]"

lemma ready_answers: "map_option (\<lambda>(others, n, pid, seg, s). (length others, n, pid)) (Answer_retrans asking ready) = Some (1, 1, -1)"
  by code_simp


text \<open>
  When packets are missing and the token has room, the daemon asks for them: its request is
  for this ring, names only packets that it lacks, in ascending order and among them always
  the first missing one, and the body of the token stays within its size.
\<close>
theorem missing_packets_are_requested:
  assumes "rtr_bytes others \<le> sizeof_token_body - sizeof_ring_rtr - 2 * sizeof_int32"
    and "My_aru s < max_rtr_seq s" "max_rtr_seq s \<le> Highest_seq s" "aru_max s"
  shows "\<exists>r. own_requests others pid seg s = others @ [r] \<and> rr_memb_id r = Membership_id s \<and>
    My_aru s + 1 \<in> set (rr_seqs r) \<and> sorted (rr_seqs r) \<and> distinct (rr_seqs r) \<and>
    (\<forall>i \<in> set (rr_seqs r). exist_at s i = 0 \<and> My_aru s < i \<and> i \<le> max_rtr_seq s) \<and>
    rtr_bytes (others @ [r]) \<le> sizeof_token_body"
proof -
  let ?a = "(sizeof_token_body - rtr_bytes others - sizeof_ring_rtr) div sizeof_int32"
  let ?ms = "filter (\<lambda>i. exist_at s i = 0) [My_aru s + 1..max_rtr_seq s]"
  let ?r = "\<lparr>rr_memb_id = Membership_id s, rr_proc_id = pid, rr_seg_index = seg, rr_seqs = take (nat ?a) ?ms\<rparr>"
  have a: "?a > 1" using assms(1) by simp
  have own: "own_requests others pid seg s = others @ [?r]"
    using a assms(2) by (simp add: own_requests_def Let_def)
  have "exist_at s (My_aru s + 1) = 0" using assms(2-4) by (auto simp: aru_max_def)
  then have "?ms = (My_aru s + 1) # filter (\<lambda>i. exist_at s i = 0) [My_aru s + 1 + 1..max_rtr_seq s]"
    using assms(2) by (subst upto_rec1) simp_all
  moreover obtain k where "nat ?a = Suc k" using a by (cases "nat ?a") auto
  ultimately have first: "My_aru s + 1 \<in> set (rr_seqs ?r)" by simp
  have "sorted ?ms" "distinct ?ms" by (simp_all add: sorted_wrt_filter)
  then have "sorted (rr_seqs ?r)" "distinct (rr_seqs ?r)" by (simp_all add: sorted_wrt_take)
  moreover have "\<forall>i \<in> set (rr_seqs ?r). exist_at s i = 0 \<and> My_aru s < i \<and> i \<le> max_rtr_seq s"
    by (auto dest!: in_set_takeD)
  moreover have "rtr_bytes (others @ [?r]) \<le> sizeof_token_body"
    using rtr_bytes_own [of others pid seg s] assms(1) own by simp
  moreover have "rr_memb_id ?r = Membership_id s" by simp
  ultimately show ?thesis using own first by blast
qed

theorem missing_packets_are_requested_witness:
  "\<exists>r. own_requests [] 10 0 (sample_daemon\<lparr>Highest_seq := 2\<rparr>) = [] @ [r] \<and> 1 \<in> set (rr_seqs r)"
proof -
  let ?s = "sample_daemon\<lparr>Highest_seq := 2\<rparr>"
  have "rtr_bytes [] \<le> sizeof_token_body - sizeof_ring_rtr - 2 * sizeof_int32" "My_aru ?s < max_rtr_seq ?s"
    "max_rtr_seq ?s \<le> Highest_seq ?s" "aru_max ?s" "My_aru ?s + 1 = 1"
    by (simp_all add: sample_daemon_def max_rtr_seq_def aru_max_def)
  note h = this
  obtain r where "own_requests [] 10 0 ?s = [] @ [r]" "My_aru ?s + 1 \<in> set (rr_seqs r)"
    using missing_packets_are_requested [OF h(1-4)] by blast
  then show ?thesis unfolding h(5) by blast
qed

end
