(* ===== verification/MembTheorems.thy ===== *)
theory MembTheorems
  imports FormSpec TokenTheorems
begin

text \<open>
  The properties of the membership protocol of \<open>daemon/membership.c\<close>: the lists it gathers, the
  ring order, the form tokens, the installation of a ring and backing out of one.
\<close>

section \<open>Lists and the ring\<close>

text \<open>
  C26: Inserting the representative of a configured process never ends the daemon and keeps what
  the comments of Insert_rep promise: every representative is a process of its segment, none is
  listed twice, and a potential representative is the only one of its segment.
\<close>
theorem representatives_stay_sound:
  assumes "reps_ok c r" "rep_known c rep"
  shows "\<exists>ret r'. Insert_rep c r rep = Some (ret, r') \<and> reps_ok c r'"
  by (rule Insert_rep_ok [OF assms])

theorem representatives_stay_sound_witness:
  "\<exists>ret r'. Insert_rep sample_conf no_reps \<lparr>rep_proc_id = 20, rep_type = SEG_REP, rep_seg_index = 0\<rparr> = Some (ret, r') \<and>
     reps_ok sample_conf r'"
proof -
  have "snd (Conf_proc_by_id_in_conf sample_conf 20) = Some (sample_proc 20 1)" by code_simp
  then have "rep_known sample_conf \<lparr>rep_proc_id = 20, rep_type = SEG_REP, rep_seg_index = 0\<rparr>"
    by (simp add: rep_known_def sample_proc_def)
  moreover have "reps_ok sample_conf no_reps" by (auto simp: reps_ok_def no_reps_def)
  ultimately show ?thesis by (intro representatives_stay_sound)
qed

text \<open>
  The members of a form token are put into ring order: Sort_members permutes the list, the
  result is sorted by segment and place in the segment, and the counts stay; it ends the daemon
  only for a member that is not configured.
\<close>
theorem members_are_sorted:
  assumes "0 \<le> num_members m" "\<forall>i \<in> set (member_list m). proc_pos c i \<noteq> None"
  shows "\<exists>m'. Sort_members c m = Some m' \<and> mset (member_list m') = mset (member_list m) \<and>
    sorted_wrt (pos_le c) (member_list m') \<and> num_members m' = num_members m \<and> num_pending m' = num_pending m"
  by (rule Sort_members_spec [OF assms])

definition unsorted :: members_info where
  "unsorted = \<lparr>num_members = 3, num_pending = 0, members = (\<lambda>i. if i = 0 then 30 else if i = 1 then 10 else 20)\<rparr>"

theorem members_are_sorted_witness:
  "\<exists>m'. Sort_members sample_conf unsorted = Some m' \<and> mset (member_list m') = {#10, 20, 30#} \<and>
     sorted_wrt (pos_le sample_conf) (member_list m')"
proof -
  have l: "member_list unsorted = [30, 10, 20]" by code_simp
  have "map (proc_pos sample_conf) [30, 10, 20] = [Some (0, 2), Some (0, 0), Some (0, 1)]" by code_simp
  then have "\<forall>i \<in> set (member_list unsorted). proc_pos sample_conf i \<noteq> None" by (simp add: l)
  moreover have "0 \<le> num_members unsorted" by (simp add: unsorted_def)
  ultimately show ?thesis using members_are_sorted [of unsorted sample_conf] by (auto simp: l)
qed

text \<open>
  The ring goes through the segments in order and through the processes of each: the
  predecessor of a process, whose token alone it accepts, is the process before it on the ring,
  and the last one for the leader; so going back from process to process visits all of them.
\<close>
theorem ring_order:
  assumes "distinct (ring_ids c)" "0 \<le> p_seg_index p" "p_seg_index p < Conf_num_segments c"
    and "p_id p \<in> p_id ` set (procs (seg_at c (p_seg_index p)))"
    and "k < length (ring_ids c)" "ring_ids c ! k = p_id p"
  shows "Conf_leader c = Some (ring_ids c ! 0) \<and> Conf_last c = Some (ring_ids c ! (length (ring_ids c) - 1)) \<and>
    Conf_previous p c = Some (ring_ids c ! ((k + length (ring_ids c) - 1) mod length (ring_ids c)))"
proof -
  let ?r = "ring_ids c"
  have ne: "?r \<noteq> []" using assms(5) by auto
  have split: "?r = take k ?r @ p_id p # drop (Suc k) ?r" using id_take_nth_drop [OF assms(5)] assms(6) by simp
  note prev = Conf_previous_ring [OF assms(1-4) split]
  have "(if take k ?r = [] then last ?r else last (take k ?r)) = ?r ! ((k + length ?r - 1) mod length ?r)"
  proof (cases k)
    case 0
    then show ?thesis using ne by (simp add: last_conv_nth)
  next
    case (Suc j)
    then have "last (take k ?r) = ?r ! j" using assms(5) by (simp add: take_Suc_conv_app_nth)
    moreover have "(k + length ?r - 1) mod length ?r = j" using Suc assms(5) by simp
    ultimately show ?thesis using Suc ne by simp
  qed
  with prev ne show ?thesis
    by (simp add: Conf_leader_ring Conf_last_ring hd_conv_nth last_conv_nth)
qed

theorem ring_order_witness: "Conf_previous (sample_proc 20 1) sample_conf = Some 10 \<and> Conf_last sample_conf = Some 30"
proof -
  have r: "ring_ids sample_conf = [10, 20, 30]" by code_simp
  have "p_id (sample_proc 20 1) \<in> p_id ` set (procs (seg_at sample_conf (p_seg_index (sample_proc 20 1))))"
    by (simp add: sample_conf_def sample_procs_def sample_proc_def seg_at_def)
  moreover have "p_seg_index (sample_proc 20 1) < Conf_num_segments sample_conf"
    by (simp add: sample_conf_def Conf_num_segments_def sample_proc_def)
  ultimately show ?thesis using ring_order [of sample_conf "sample_proc 20 1" 1] by (simp add: r sample_proc_def)
qed

section \<open>The form tokens\<close>


definition lacking :: daemon where
  "lacking = sample_daemon\<lparr>My := sample_proc 20 1\<rparr>"



definition alone :: form_body where
  "alone = \<lparr>fm_members = \<lparr>num_members = 0, num_pending = 1, members = (\<lambda>_. 10)\<rparr>, fm_reps = no_reps,
     fm_memb_id = \<lparr>mi_proc_id = 0, mi_time = 0\<rparr>,
     fm_rings = [\<lparr>ri_memb_id = \<lparr>mi_proc_id = 10, mi_time = 0\<rparr>, ri_trans_time = 0, ri_aru = 0, ri_highest_seq = 0,
                  ri_holes = [], ri_commit = [10], ri_num_trans = 1\<rparr>]\<rparr>"

definition form2_header :: token_header where
  "form2_header = no_token\<lparr>th_type := 0x80002080, th_memb_id := \<lparr>mi_proc_id = 10, mi_time = 0\<rparr>, th_seq := 3333\<rparr>"

lemma alone_accepted:
  "map_option State (Memb_handle_form2 sizeof_token_header 1000 form2_header alone (sample_daemon\<lparr>State := FORM\<rparr>)) = Some EVS"
  by code_simp




section \<open>Installing and backing out\<close>


definition installing :: daemon where
  "installing = ready\<lparr>State := EVS, Last_seq := 1, Aru := 1,
     Commit_set := \<lparr>num_members = 1, num_pending = 1, members = (\<lambda>_. 10)\<rparr>\<rparr>"

lemma installing_before: "map_option Last_discarded (for_loop 1 1 evs_before_round installing) = Some 1"
  by code_simp

lemma sample_restricted:
  "map_option (\<lambda>gs. first_proc gs) (restrict_segments sample_conf (set (arr_list (\<lambda>_. 10) 1))) = Some (Some 10)"
  by code_simp

lemma sample_leader: "Conf_leader sample_conf = Some 10"
  by code_simp

lemma installing_installs: "\<exists>s'. evs_install installing = Some s'"
proof -
  have f: "Last_discarded installing = 0" "Highest_seq installing = 1" "Future_membership installing = sample_conf" "Cn installing = sample_conf"
    "Commit_set installing = \<lparr>num_members = 1, num_pending = 1, members = (\<lambda>_. 10)\<rparr>" "\<not> Conf_Reload_Singleton_State installing"
    by (simp_all add: installing_def ready_def sample_daemon_def)
  obtain t where t: "for_loop 1 1 evs_before_round installing = Some t" "Last_discarded t = 1"
    using installing_before by auto
  have "cleared (\<lambda>_. True) 1 (1 + 1) installing t" using evs_before_spec [OF t(1)] f t(2) by auto
  then have P: "Packets t = mark 0 (entries 1 1) (Packets installing)" and fr: "delivery_frame installing t"
    by (simp_all add: cleared_def)
  note ft = delivery_frame_simps [OF fr] delivery_frame_memb [OF fr]
  obtain gs where gs: "restrict_segments sample_conf (set (arr_list (\<lambda>_. 10) 1)) = Some gs" "first_proc gs = Some 10"
    using sample_restricted by auto
  obtain u where u: "Memb_transitional t = Some u"
    using gs by (simp add: Memb_transitional_def Let_def ft f Conf_leader_def)
  obtain b a c d where u': "u = t\<lparr>Transitional := b, Trans_membership := a, Trans_memb_id := c, Commit_membership := d\<rparr>"
    using Memb_transitional_spec(5) [OF u] by blast
  have "pi_exist (Packets t e) = 0" if "0 \<le> e" "e < 8192" for e
  proof (cases "e = 1")
    case True
    then have "e \<in> entries 1 1" by (simp add: entries_def pack_entry_mod)
    then show ?thesis by (simp add: P)
  next
    case False
    then have "pi_exist (Packets installing e) = 0" by (simp add: installing_def ready_def sample_daemon_def)
    then show ?thesis by (simp add: P mark_def)
  qed
  then have empty: "\<not> (\<exists>i \<in> set [0..8191]. pi_exist (Packets t i) \<noteq> 0)" by auto
  have H: "Highest_seq t = 1" "Conf_Reload_Singleton_State t = False" using ft f by simp_all
  show ?thesis
    using t u empty H
    by (simp add: evs_install_def f Let_def u' emit_def for_loop.simps Memb_regular_def evs_clear_queues_def ft sample_leader
        E_queue_def Shift_to_op_def evs_reset_def del: set_upto)
qed


text \<open>
  C24: A daemon that loses the token during an installation backs out of it: it forgets the
  dummies that stood for the holes, keeps all packets that it holds, takes nothing as received
  by everybody that it had not discarded, and My_aru is again the end of the unbroken run.
\<close>
theorem backing_out_restores_the_window:
  assumes "Last_discarded s \<le> Highest_seq s" "s' = Backoff_membership s"
  shows "(\<forall>i. Last_discarded s < i \<and> i \<le> Highest_seq s \<longrightarrow> exist_at s' i = (if held s i then exist_at s i else 0)) \<and>
    Last_discarded s' = Last_discarded s \<and> Highest_seq s' = Highest_seq s \<and> Aru s' = Last_discarded s \<and>
    Last_discarded s \<le> My_aru s' \<and> My_aru s' \<le> Highest_seq s \<and>
    (\<forall>i. Last_discarded s < i \<and> i \<le> My_aru s' \<longrightarrow> held s i) \<and> (My_aru s' = Highest_seq s \<or> \<not> held s (My_aru s' + 1))"
  using Backoff_membership_spec [OF assms(1)] assms(2) by (auto simp: Let_def held_def)

theorem backing_out_restores_the_window_witness:
  "My_aru (Backoff_membership (ready\<lparr>Highest_seq := 2\<rparr>)) = 1"
proof -
  let ?s = "ready\<lparr>Highest_seq := 2\<rparr>"
  have h: "held ?s 1" "\<not> held ?s 2" by (simp_all add: held_def ready_def sample_daemon_def pack_entry_mod)
  have f: "Last_discarded ?s = 0" "Highest_seq ?s = 2" by (simp_all add: ready_def sample_daemon_def)
  let ?a = "My_aru (Backoff_membership ?s)"
  have "Last_discarded ?s \<le> Highest_seq ?s" using f by simp
  from backing_out_restores_the_window [OF this refl] have
    a: "0 \<le> ?a" "?a \<le> 2" "\<forall>i. 0 < i \<and> i \<le> ?a \<longrightarrow> held ?s i" "?a = 2 \<or> \<not> held ?s (?a + 1)"
    unfolding f by auto
  have "?a \<noteq> 2" using a(3) h(2) by auto
  moreover have "?a \<noteq> 0" using a(4) h(1) by auto
  ultimately show ?thesis using a(1,2) by linarith
qed

end
