(* ===== verification/DaemonTheorems.thy ===== *)
theory DaemonTheorems
  imports MembTheorems
begin

text \<open>
  Further properties of the daemon: the formats it exchanges with hosts of the other byte order,
  tokens that are not for it, messages that wake a held token, timeouts, and two places where
  the code does not do what it means to.
\<close>

section \<open>Formats\<close>

text \<open>
  The counters in the type word of a token are independent: what is set is read back modulo
  16, setting one leaves the other one and the byte-order bits alone; and swapping the bytes of
  a word twice restores it.
\<close>
theorem type_word_round_trips:
  "Get_arq (Set_arq w v) = v mod 16 \<and> Get_retrans (Set_retrans w v) = v mod 16 \<and>
   Get_arq (Set_retrans w v) = Get_arq w \<and> Get_retrans (Set_arq w v) = Get_retrans w \<and>
   Same_endian (Set_arq w v) = Same_endian w \<and> Same_endian (Set_retrans w v) = Same_endian w \<and>
   Flip_int32 (Flip_int32 w) = w \<and> Flip_int16 (Flip_int16 u) = u"
  by (simp add: Get_Set_arq Get_Set_retrans and_15_mod Flip_int32_twice Flip_int16_twice)

definition int16_range :: "int \<Rightarrow> bool" where
  "int16_range x \<longleftrightarrow> -32768 \<le> x \<and> x < 32768"

definition int32_range :: "int \<Rightarrow> bool" where
  "int32_range x \<longleftrightarrow> -2147483648 \<le> x \<and> x < 2147483648"

lemma sint_of_int16: "int16_range x \<Longrightarrow> sint (word_of_int x :: 16 word) = x"
  by (simp add: int16_range_def sint_sbintrunc' signed_take_bit_int_eq_self)

lemma sint_of_int32: "int32_range x \<Longrightarrow> sint (word_of_int x :: 32 word) = x"
  by (simp add: int32_range_def sint_sbintrunc' signed_take_bit_int_eq_self)

lemma flip16_twice: "int16_range x \<Longrightarrow> flip16 (flip16 x) = x"
  by (simp add: flip16_def Flip_int16_twice sint_of_int16)

lemma flip32_twice: "int32_range x \<Longrightarrow> flip32 (flip32 x) = x"
  by (simp add: flip32_def Flip_int32_twice sint_of_int32)

definition ring_rtr_range :: "ring_rtr \<Rightarrow> bool" where
  "ring_rtr_range r \<longleftrightarrow> int32_range (mi_time (rr_memb_id r)) \<and> int16_range (rr_seg_index r) \<and>
     (\<forall>i \<in> set (rr_seqs r). int32_range i)"

definition ring_info_range :: "ring_info \<Rightarrow> bool" where
  "ring_info_range r \<longleftrightarrow> int32_range (mi_time (ri_memb_id r)) \<and> int32_range (ri_trans_time r) \<and>
     int32_range (ri_aru r) \<and> int32_range (ri_highest_seq r) \<and> int16_range (ri_num_trans r) \<and>
     (\<forall>i \<in> set (ri_holes r). int32_range i)"



section \<open>Tokens that are not for this daemon\<close>

text \<open>
  A regular token is swallowed without any effect when the daemon has no token, when it is
  of another ring, when it does not come from the predecessor on the ring, and when its length
  is not the one that its header announces.
\<close>
theorem foreign_tokens_are_ignored:
  assumes "rt_msg rt = Token t rtr" "\<not> Is_form (th_type t)" "Conf_previous (My s) (Memb_active s) = Some prev"
    and "\<not> Token_alive s \<or> th_memb_id t \<noteq> Memb_active_id s \<or> th_transmiter_id t \<noteq> prev \<or>
         rt_ret rt \<noteq> sizeof_token_header + th_rtr_len t"
  shows "Prot_handle_token rt s = Some s"
  using assms by (auto simp: Prot_handle_token_def token_belongs_def)

theorem foreign_tokens_are_ignored_witness:
  "Prot_handle_token \<lparr>rt_ret = 40, rt_hd_len = 40, rt_tot_len = 40, rt_msg = Token no_token []\<rparr> sample_daemon = Some sample_daemon"
proof -
  have e: "Conf_previous (My sample_daemon) (Memb_active sample_daemon) = Some 30" "\<not> Is_form (th_type no_token)"
    by code_simp+
  show ?thesis
    by (rule foreign_tokens_are_ignored [OF _ e(2,1)]) (simp_all add: sample_daemon_def)
qed

section \<open>Waking the token\<close>

lemma token_hurry_sends:
  assumes "Prot_token_hurry s = Some s'"
  shows "\<exists>t. Net_send_token (Token t []) \<in> set (drop (length (out s)) (out s'))" "Token_counter s' = Token_counter s"
  using assms by (auto simp: Prot_token_hurry_def emit_def E_queue_def Let_def split: bind_splits if_splits)

text \<open>
  C23: A message does not wait for the hurry timer: when it is the first one in the queue and the
  token is held, the leader sends the token on at once, and any other member asks the leader,
  which does so when it gets that request; in both cases the token is not held any more.
\<close>
theorem new_message_wakes_token:
  assumes "Prot_new_message down s = Some s'" "Down_queue s = []" "Is_token_hold s" "Conf_leader (Memb_active s) = Some leader"
    and "p_id (My s) \<in> set (ring_ids (Memb_active s))"
  shows "(leader = p_id (My s) \<longrightarrow>
       (\<exists>t. Net_send_token (Token t []) \<in> set (drop (length (out s)) (out s'))) \<and> \<not> Is_token_hold s') \<and>
    (leader \<noteq> p_id (My s) \<longrightarrow> Net_ucast leader (Head (Hurry_head s)) \<in> set (out s') \<and>
       (\<forall>l l'. p_id (My l) = leader \<and> Memb_active l = Memb_active s \<and> Is_token_hold l \<and>
            Handle_hurry (Hurry_head s) l = Some l' \<longrightarrow>
          (\<exists>t. Net_send_token (Token t []) \<in> set (drop (length (out l)) (out l'))) \<and> \<not> Is_token_hold l'))"
proof -
  have me: "Conf_id_in_conf (Memb_active s) (p_id (My s)) \<noteq> -1" using assms(5) by (simp add: Conf_id_in_conf_iff)
  let ?q = "s\<lparr>Down_queue := [down]\<rparr>"
  have q: "Is_token_hold ?q" "Memb_active ?q = Memb_active s" "Hurry_head ?q = Hurry_head s"
    using assms(3) by (simp_all add: Is_token_hold_def Memb_active_def Hurry_head_def)
  have run: "(if leader = p_id (My s) then Handle_hurry (Hurry_head s) ?q
      else Some (emit (Net_ucast leader (Head (Hurry_head s))) ?q)) = Some s'"
  proof -
    have "(if length (Down_queue ?q) \<ge> WATER_MARK then emit Sess_block_users_level ?q else ?q) = ?q" by simp
    then show ?thesis
      using assms(1,4) q by (simp only: Prot_new_message_def Let_def assms(2) append_Nil) simp
  qed
  have wake: "(\<exists>t. Net_send_token (Token t []) \<in> set (drop (length (out l)) (out l'))) \<and> \<not> Is_token_hold l'"
    if l: "p_id (My l) = leader" "Memb_active l = Memb_active s" "Is_token_hold l" "Handle_hurry (Hurry_head s) l = Some l'" for l l'
  proof -
    have "ph_proc_id (Hurry_head s) = p_id (My s)" by (simp add: Hurry_head_def)
    then have h: "Prot_token_hurry (l\<lparr>Token_counter := 0\<rparr>) = Some l'"
      using l assms(4) me by (simp add: Handle_hurry_def)
    show ?thesis using token_hurry_sends [OF h] by (simp add: Is_token_hold_def)
  qed
  show ?thesis
  proof (cases "leader = p_id (My s)")
    case True
    then have "Handle_hurry (Hurry_head s) ?q = Some s'" using run by simp
    from wake [of ?q, OF _ q(2,1) this] True show ?thesis by simp
  next
    case False
    then have "s' = emit (Net_ucast leader (Head (Hurry_head s))) ?q" using run by simp
    then have "Net_ucast leader (Head (Hurry_head s)) \<in> set (out s')" by (simp add: emit_def)
    with False wake show ?thesis by blast
  qed
qed

definition holding :: daemon where
  "holding = sample_daemon\<lparr>Token_counter := 2\<rparr>"

lemma holding_eval: "map_option Token_counter (Prot_new_message \<lparr>dl_type = 4, dl_mess = [byte_element 1 3]\<rparr> holding) = Some 0"
  by code_simp

theorem new_message_wakes_token_witness:
  "\<exists>s' t. Prot_new_message \<lparr>dl_type = 4, dl_mess = [byte_element 1 3]\<rparr> holding = Some s' \<and>
     Net_send_token (Token t []) \<in> set (out s') \<and> \<not> Is_token_hold s'"
proof -
  obtain s' where s: "Prot_new_message \<lparr>dl_type = 4, dl_mess = [byte_element 1 3]\<rparr> holding = Some s'"
    using holding_eval by auto
  have e: "Conf_leader (Memb_active holding) = Some 10" "ring_ids (Memb_active holding) = [10, 20, 30]" "Is_token_hold holding"
    by code_simp+
  have f: "Down_queue holding = []" "p_id (My holding) = 10" "out holding = []"
    by (simp_all add: holding_def sample_daemon_def sample_proc_def)
  from new_message_wakes_token [OF s f(1) e(3,1)] show ?thesis using s f e by auto
qed

section \<open>Timeouts\<close>

fun set_timeouts :: "(timeout_kind \<times> int) list \<Rightarrow> conf_params \<Rightarrow> conf_params option" where
  "set_timeouts [] c = Some c"
| "set_timeouts ((k, n) # ks) c = (case Conf_set_timeout k n c of None \<Rightarrow> None | Some c \<Rightarrow> set_timeouts ks c)"

lemma set_timeouts_ok: "set_timeouts ks c = Some c' \<Longrightarrow> timeouts_ok c \<Longrightarrow> timeouts_ok c'"
proof (induction ks arbitrary: c)
  case (Cons kn ks)
  then show ?case using Conf_set_timeout_ok by (cases kn) (auto split: option.splits)
qed simp

text \<open>
  Whatever timeouts a configuration file sets, in any order and any number of times, the
  membership protocol starts with nine timeouts that are longer than zero and normalised: the
  defaults when the file sets none, those of the file when it sets all nine, and otherwise the
  daemon does not start.
\<close>
theorem timeouts_are_positive:
  assumes "set_timeouts ks conf_defaults = Some c"
  shows "(memb_timeouts wide c = None \<longleftrightarrow> cp_timeout_mask c \<noteq> 0 \<and> cp_timeout_mask c \<noteq> ALL_TIMEOUT_CONF) \<and>
    (\<forall>ts k. memb_timeouts wide c = Some ts \<longrightarrow>
       0 \<le> sec (ts k) \<and> 0 \<le> usec (ts k) \<and> usec (ts k) < 1000000 \<and> 0 < sec (ts k) + usec (ts k))"
proof -
  have "timeouts_ok conf_defaults" by (simp add: timeouts_ok_def conf_defaults_def)
  from set_timeouts_ok [OF assms this] have ok: "timeouts_ok c" .
  have pos: "0 < cp_timeouts c k" if "cp_timeout_mask c = ALL_TIMEOUT_CONF" for k
  proof -
    have "ALL_TIMEOUT_CONF AND timeout_conf k \<noteq> 0"
      using timeout_conf_mask [of k] by (simp add: and.commute) (cases k; simp add: timeout_conf_def)
    then show ?thesis using ok that by (simp add: timeouts_ok_def)
  qed
  have split: "0 < n \<Longrightarrow> 0 \<le> n div 1000 \<and> 0 \<le> n mod 1000 * 1000 \<and> n mod 1000 * 1000 < 1000000 \<and>
      0 < n div 1000 + n mod 1000 * 1000" for n :: int
    using div_mult_mod_eq [of n 1000] pos_mod_bound [of 1000 n] pos_mod_sign [of 1000 n] pos_imp_zdiv_nonneg_iff [of 1000 n] by linarith
  have default: "0 \<le> sec (default_timeout wide k) \<and> 0 \<le> usec (default_timeout wide k) \<and>
      usec (default_timeout wide k) < 1000000 \<and> 0 < sec (default_timeout wide k) + usec (default_timeout wide k)" for k
    by (cases k; cases wide) (simp_all add: default_timeout_def)
  show ?thesis
    using pos split default
    by (auto simp: memb_timeouts_def Conf_memb_timeouts_set_def Conf_all_memb_timeouts_set_def split: if_splits)
qed

theorem timeouts_are_positive_witness:
  "\<exists>c. set_timeouts [(TokenT, 500), (HurryT, 2500)] conf_defaults = Some c \<and> memb_timeouts False c = None"
proof -
  have e: "map_option cp_timeout_mask (set_timeouts [(TokenT, 500), (HurryT, 2500)] conf_defaults) = Some 3" by code_simp
  then obtain c where c: "set_timeouts [(TokenT, 500), (HurryT, 2500)] conf_defaults = Some c" "cp_timeout_mask c = 3" by auto
  from timeouts_are_positive [OF c(1), of False] c show ?thesis by simp
qed

section \<open>Where the code does not do what it means to\<close>

text \<open>
  The default for the accelerated ring does not take effect at the start: on one segment
  Memb_init turns the parameter on, but Prot_init has copied the parameters with FC_init before
  that, so the daemon runs the original ring protocol until its configuration is reloaded.
\<close>
theorem accelerated_default_comes_too_late:
  "map_option (\<lambda>s. (Wide_network s, cp_accelerated_ring (params s), Accelerated_ring s, Accelerated_ring (FC_signal_conf_reload s)))
     (Prot_init sample_daemon) = Some (False, True, False, True)"
  by code_simp

lemma append_to_segment_allprocs: "allprocs (snd (append_to_segment cn k i c)) = allprocs c"
  by (auto simp: append_to_segment_def split: prod.splits)

lemma add_members_allprocs: "add_members cn is c = Some c' \<Longrightarrow> allprocs c' = allprocs c"
proof (induction "is" arbitrary: c)
  case (Cons i "is")
  then show ?case using append_to_segment_allprocs
    by (auto split: option.splits prod.splits if_splits) (metis snd_conv)
qed simp

text \<open>
  C30: A packet that arrived after the form1 token has passed, above the highest number on the
  token, ends the daemon whenever its sender is configured: Read_form2 means to forget the
  packets of senders that are not in the new ring, but it looks the sender up among all
  configured processes, where every sender is, and takes the packet for a bug.
\<close>
theorem late_packet_is_fatal:
  assumes "form2_membership m s = Some future" "Future_membership t = future"
    and "n \<le> Highest_seq t" "n > ri_highest_seq g" "exist_at t n \<noteq> 0"
    and "\<And>i. n < i \<Longrightarrow> i \<le> Highest_seq t \<Longrightarrow> exist_at t i = 0"
    and "ph_proc_id (pi_head (packet_at t n)) \<in> p_id ` set (allprocs (Cn s))"
  shows "settle_old_ring g t = None"
proof -
  have all: "allprocs future = allprocs (Cn s)"
    using assms(1) add_members_allprocs by (auto simp: form2_membership_def clear_segments_def)
  have "fst (Conf_proc_by_id_in_conf future (ph_proc_id (pi_head (packet_at t n)))) \<noteq> -1"
    using assms(7) by (auto simp: Conf_proc_by_id_in_conf_def Conf_proc_ref_by_id_in_conf_def Let_def all index_of_minus_one)
  then have nd: "\<not> droppable n t" by (simp add: droppable_def assms(2))
  have "rev [ri_highest_seq g + 1..Highest_seq t] = rev [n + 1..Highest_seq t] @ n # rev [ri_highest_seq g + 1..n - 1]"
    using upto_split2 [of "ri_highest_seq g + 1" n "Highest_seq t"] upto_rec2 [of "ri_highest_seq g + 1" n] assms(3,4) by simp
  moreover have "forget_packets (is @ js) t = forget_packets js t" if "\<forall>i \<in> set is. exist_at t i = 0" for "is" js
    using that by (induction "is") auto
  ultimately have "forget_packets (rev [ri_highest_seq g + 1..Highest_seq t]) t = None"
    using assms(5,6) nd by simp
  then show ?thesis by (simp add: settle_old_ring_def)
qed

theorem late_packet_is_fatal_witness:
  "settle_old_ring ((hd (fm_rings alone))\<lparr>ri_highest_seq := 0\<rparr>)
     (ready\<lparr>Future_membership := the (form2_membership (fm_members alone) ready),
            Packets := (Packets ready)(1 := (Packets ready 1)\<lparr>pi_head := no_header\<lparr>ph_proc_id := 30\<rparr>\<rparr>)\<rparr>) = None"
proof -
  have "map_option hash_code (form2_membership (fm_members alone) ready) = Some 0" by code_simp
  then obtain f where f: "form2_membership (fm_members alone) ready = Some f" by auto
  show ?thesis
    by (rule late_packet_is_fatal [OF f, where n = 1])
       (simp_all add: f, simp_all add: ready_def sample_daemon_def pack_entry_mod sample_conf_def sample_procs_def sample_proc_def)
qed

end
