(* ===== verification/SkipList.thy ===== *)
theory SkipList
  imports Main
begin

text \<open>
  What the daemon uses of the sorted containers of \<open>stdutil/src/stdskl.c\<close>. A skip list is the
  list of its entries in the order of its comparison function, the order in which an iterator
  visits them. \<open>stdskl_put\<close> overwrites an entry that compares equal. The locale states what the
  comparison function has to be, and its lemmas are the contract of the container.
\<close>

fun skl_put :: "('a \<Rightarrow> 'k) \<Rightarrow> ('k \<Rightarrow> 'k \<Rightarrow> int) \<Rightarrow> 'a \<Rightarrow> 'a list \<Rightarrow> 'a list" where
  "skl_put key cmp x [] = [x]"
| "skl_put key cmp x (y # ys) =
     (if cmp (key x) (key y) < 0 then x # y # ys
      else if cmp (key x) (key y) = 0 then x # ys
      else y # skl_put key cmp x ys)"

definition skl_find :: "('a \<Rightarrow> 'k) \<Rightarrow> ('k \<Rightarrow> 'k \<Rightarrow> int) \<Rightarrow> 'k \<Rightarrow> 'a list \<Rightarrow> 'a option" where
  "skl_find key cmp k xs = find (\<lambda>x. cmp (key x) k = 0) xs"

definition skl_erase :: "('a \<Rightarrow> 'k) \<Rightarrow> ('k \<Rightarrow> 'k \<Rightarrow> int) \<Rightarrow> 'k \<Rightarrow> 'a list \<Rightarrow> 'a list" where
  "skl_erase key cmp k xs = filter (\<lambda>x. cmp (key x) k \<noteq> 0) xs"

text \<open>A change of the entry that a found pointer points to.\<close>

definition skl_update ::
  "('a \<Rightarrow> 'k) \<Rightarrow> ('k \<Rightarrow> 'k \<Rightarrow> int) \<Rightarrow> 'k \<Rightarrow> ('a \<Rightarrow> 'a) \<Rightarrow> 'a list \<Rightarrow> 'a list" where
  "skl_update key cmp k f xs = map (\<lambda>x. if cmp (key x) k = 0 then f x else x) xs"

text \<open>\<open>stdskl_put_seq_n\<close>: the entries of another list, one after the other.\<close>

definition skl_put_seq :: "('a \<Rightarrow> 'k) \<Rightarrow> ('k \<Rightarrow> 'k \<Rightarrow> int) \<Rightarrow> 'a list \<Rightarrow> 'a list \<Rightarrow> 'a list" where
  "skl_put_seq key cmp xs ys = fold (skl_put key cmp) xs ys"

definition skl_sorted :: "('a \<Rightarrow> 'k) \<Rightarrow> ('k \<Rightarrow> 'k \<Rightarrow> int) \<Rightarrow> 'a list \<Rightarrow> bool" where
  "skl_sorted key cmp = sorted_wrt (\<lambda>x y. cmp (key x) (key y) < 0)"

lemma skl_find_simps [simp]:
  "skl_find key cmp k [] = None"
  "skl_find key cmp k (x # xs) = (if cmp (key x) k = 0 then Some x else skl_find key cmp k xs)"
  by (simp_all add: skl_find_def)

lemma skl_find_SomeD: "skl_find key cmp k xs = Some x \<Longrightarrow> x \<in> set xs \<and> cmp (key x) k = 0"
  by (auto simp: skl_find_def find_Some_iff)

lemma skl_find_None: "skl_find key cmp k xs = None \<longleftrightarrow> (\<forall>x \<in> set xs. cmp (key x) k \<noteq> 0)"
  by (auto simp: skl_find_def find_None_iff)

lemma skl_sorted_simps [simp]:
  "skl_sorted key cmp []"
  "skl_sorted key cmp (x # xs) \<longleftrightarrow>
     (\<forall>y \<in> set xs. cmp (key x) (key y) < 0) \<and> skl_sorted key cmp xs"
  by (simp_all add: skl_sorted_def)

lemma skl_sorted_keys: "skl_sorted key cmp xs \<longleftrightarrow> sorted_wrt (\<lambda>a b. cmp a b < 0) (map key xs)"
  by (simp add: skl_sorted_def sorted_wrt_map)

lemma skl_sorted_append:
  "skl_sorted key cmp (xs @ ys) \<longleftrightarrow> skl_sorted key cmp xs \<and> skl_sorted key cmp ys \<and>
     (\<forall>x \<in> set xs. \<forall>y \<in> set ys. cmp (key x) (key y) < 0)"
  by (auto simp: skl_sorted_def sorted_wrt_append)

lemma skl_sorted_filter: "skl_sorted key cmp xs \<Longrightarrow> skl_sorted key cmp (filter P xs)"
  by (simp add: skl_sorted_def sorted_wrt_filter)

lemma skl_sorted_erase: "skl_sorted key cmp xs \<Longrightarrow> skl_sorted key cmp (skl_erase key cmp k xs)"
  by (simp add: skl_erase_def skl_sorted_filter)

lemma skl_sorted_map:
  assumes "\<And>x. x \<in> set xs \<Longrightarrow> key (f x) = key x"
  shows "skl_sorted key cmp (map f xs) \<longleftrightarrow> skl_sorted key cmp xs"
  using assms by (induction xs) auto

lemma skl_sorted_update:
  assumes "\<And>x. key (f x) = key x"
  shows "skl_sorted key cmp (skl_update key cmp k f xs) \<longleftrightarrow> skl_sorted key cmp xs"
  unfolding skl_update_def by (rule skl_sorted_map) (simp add: assms)

lemma set_skl_put_subset: "set (skl_put key cmp x xs) \<subseteq> insert x (set xs)"
  by (induction xs) auto

lemma skl_put_last:
  "\<forall>y \<in> set ys. cmp (key x) (key y) > 0 \<Longrightarrow> skl_put key cmp x ys = ys @ [x]"
  by (induction ys) auto

locale comparison =
  fixes cmp :: "'k \<Rightarrow> 'k \<Rightarrow> int"
  assumes cmp_self: "cmp k k = 0"
    and cmp_flip: "cmp k l < 0 \<longleftrightarrow> 0 < cmp l k"
    and cmp_trans: "cmp k l \<le> 0 \<Longrightarrow> cmp l m \<le> 0 \<Longrightarrow> cmp k m \<le> 0"
begin

lemma cmp_zero: "cmp k l = 0 \<longleftrightarrow> cmp k l \<le> 0 \<and> cmp l k \<le> 0"
  using cmp_flip [of k l] cmp_flip [of l k] by linarith

lemma cmp_sym: "cmp k l = 0 \<longleftrightarrow> cmp l k = 0"
  using cmp_zero [of k l] cmp_zero [of l k] by blast

lemma cmp_cong: "cmp k l = 0 \<Longrightarrow> (cmp k m = 0 \<longleftrightarrow> cmp l m = 0)"
  unfolding cmp_zero using cmp_trans by blast

lemma cmp_trans_less: "cmp k l \<le> 0 \<Longrightarrow> cmp l m < 0 \<Longrightarrow> cmp k m < 0"
proof -
  assume le: "cmp k l \<le> 0" and less: "cmp l m < 0"
  then have "cmp k m \<le> 0" by (intro cmp_trans [of k l m]) simp_all
  moreover have "cmp k m \<noteq> 0"
    using le less cmp_trans [of m k l] cmp_flip [of l m] cmp_sym [of k m] by auto
  ultimately show ?thesis by simp
qed

lemma cmp_less_trans: "cmp k l < 0 \<Longrightarrow> cmp l m \<le> 0 \<Longrightarrow> cmp k m < 0"
proof -
  assume less: "cmp k l < 0" and le: "cmp l m \<le> 0"
  then have "cmp k m \<le> 0" by (intro cmp_trans [of k l m]) simp_all
  moreover have "cmp k m \<noteq> 0"
    using le less cmp_trans [of l m k] cmp_flip [of k l] cmp_sym [of k m] by auto
  ultimately show ?thesis by simp
qed

lemma sorted_unique:
  assumes "skl_sorted key cmp xs" "x \<in> set xs" "y \<in> set xs" "cmp (key x) (key y) = 0"
  shows "x = y"
  using assms
proof (induction xs)
  case (Cons z zs)
  then show ?case
    using cmp_sym [of "key x" "key y"] cmp_sym [of "key y" "key x"] by fastforce
qed simp

lemma sorted_keys_distinct: "skl_sorted key cmp xs \<Longrightarrow> distinct (map key xs)"
proof (induction xs)
  case (Cons x xs)
  have "key x \<notin> set (map key xs)"
  proof
    assume "key x \<in> set (map key xs)"
    then obtain y where "y \<in> set xs" "key y = key x" by auto
    with Cons.prems cmp_self [of "key x"] show False by fastforce
  qed
  with Cons show ?case by simp
qed simp

lemma skl_find_eq:
  assumes "skl_sorted key cmp xs" "x \<in> set xs" "cmp (key x) k = 0"
  shows "skl_find key cmp k xs = Some x"
proof -
  have "skl_find key cmp k xs \<noteq> None" using assms(2,3) by (auto simp: skl_find_None)
  then obtain y where y: "skl_find key cmp k xs = Some y" by blast
  with skl_find_SomeD [OF y] have "y \<in> set xs" "cmp (key y) k = 0" by auto
  with assms have "cmp (key x) (key y) = 0" using cmp_cong [of "key y" k "key x"] cmp_sym by blast
  with sorted_unique [OF assms(1,2)] y \<open>y \<in> set xs\<close> show ?thesis by blast
qed

lemma set_skl_put:
  "skl_sorted key cmp xs \<Longrightarrow>
     set (skl_put key cmp x xs) = insert x {y \<in> set xs. cmp (key y) (key x) \<noteq> 0}"
proof (induction xs)
  case (Cons y ys)
  have later: "cmp (key z) (key x) \<noteq> 0" if "z \<in> set ys" "cmp (key x) (key y) \<le> 0" for z
    using that Cons.prems cmp_trans_less [of "key x" "key y" "key z"] cmp_sym [of "key x" "key z"]
    by auto
  consider "cmp (key x) (key y) < 0" | "cmp (key x) (key y) = 0" | "cmp (key x) (key y) > 0"
    by linarith
  then show ?case
  proof cases
    case 1
    with later have "\<forall>z \<in> set (y # ys). cmp (key z) (key x) \<noteq> 0"
      using cmp_sym [of "key y" "key x"] by auto
    with 1 show ?thesis by auto
  next
    case 2
    with later have "\<forall>z \<in> set ys. cmp (key z) (key x) \<noteq> 0" by auto
    with 2 show ?thesis using cmp_sym [of "key y" "key x"] by auto
  next
    case 3
    with Cons show ?thesis using cmp_sym [of "key y" "key x"] by auto
  qed
qed simp

lemma skl_sorted_put: "skl_sorted key cmp xs \<Longrightarrow> skl_sorted key cmp (skl_put key cmp x xs)"
proof (induction xs)
  case (Cons y ys)
  consider "cmp (key x) (key y) < 0" | "cmp (key x) (key y) = 0" | "cmp (key x) (key y) > 0"
    by linarith
  then show ?case
  proof cases
    case 1
    with Cons.prems cmp_less_trans [of "key x" "key y"] show ?thesis by fastforce
  next
    case 2
    with Cons.prems cmp_trans_less [of "key x" "key y"] show ?thesis by fastforce
  next
    case 3
    with Cons set_skl_put_subset [of key cmp x ys] cmp_flip [of "key y" "key x"] show ?thesis
      by (auto simp: skl_sorted_def)
  qed
qed simp

lemma skl_sorted_put_seq:
  "skl_sorted key cmp ys \<Longrightarrow> skl_sorted key cmp (skl_put_seq key cmp xs ys)"
  unfolding skl_put_seq_def
  by (induction xs arbitrary: ys) (simp_all add: skl_sorted_put)

lemma skl_find_put:
  assumes "skl_sorted key cmp xs"
  shows "skl_find key cmp k (skl_put key cmp x xs) =
           (if cmp (key x) k = 0 then Some x else skl_find key cmp k xs)"
proof (cases "cmp (key x) k = 0")
  case True
  have "skl_find key cmp k (skl_put key cmp x xs) = Some x"
    by (rule skl_find_eq [OF skl_sorted_put [OF assms]]) (simp_all add: set_skl_put [OF assms] True)
  with True show ?thesis by simp
next
  case False
  show ?thesis
  proof (cases "skl_find key cmp k xs")
    case None
    then have "\<forall>y \<in> set (skl_put key cmp x xs). cmp (key y) k \<noteq> 0"
      using False by (auto simp: skl_find_None set_skl_put [OF assms])
    then have "skl_find key cmp k (skl_put key cmp x xs) = None" by (simp add: skl_find_None)
    with None False show ?thesis by simp
  next
    case (Some y)
    from skl_find_SomeD [OF Some] have y: "y \<in> set xs" "cmp (key y) k = 0" by auto
    with False have "cmp (key y) (key x) \<noteq> 0" using cmp_cong [of "key y" "key x" k] by auto
    with y have "skl_find key cmp k (skl_put key cmp x xs) = Some y"
      by (intro skl_find_eq skl_sorted_put assms) (simp_all add: set_skl_put [OF assms])
    with Some False show ?thesis by simp
  qed
qed

lemma skl_find_erase:
  "skl_find key cmp k (skl_erase key cmp l xs) = (if cmp k l = 0 then None else skl_find key cmp k xs)"
proof (induction xs)
  case (Cons x xs)
  show ?case
    using Cons cmp_cong [of "key x" k l] cmp_cong [of k l "key x"] cmp_sym [of k "key x"]
      cmp_sym [of l "key x"]
    by (auto simp: skl_erase_def)
qed (simp add: skl_erase_def)

lemma skl_find_update:
  assumes "\<And>x. key (f x) = key x"
  shows "skl_find key cmp k (skl_update key cmp l f xs) =
           (if cmp k l = 0 then map_option f (skl_find key cmp k xs) else skl_find key cmp k xs)"
proof (induction xs)
  case (Cons x xs)
  show ?case
    using Cons cmp_cong [of "key x" k l] cmp_cong [of k l "key x"] cmp_sym [of k "key x"]
      cmp_sym [of l "key x"]
    by (auto simp: skl_update_def assms)
qed (simp add: skl_update_def)

text \<open>Taking an entry out again that was put with a new key.\<close>

lemma skl_erase_put:
  assumes "skl_find key cmp (key x) xs = None"
  shows "skl_erase key cmp (key x) (skl_put key cmp x xs) = xs"
proof -
  have "\<forall>y \<in> set xs. cmp (key y) (key x) \<noteq> 0 \<and> cmp (key x) (key y) \<noteq> 0"
    using assms cmp_sym by (auto simp: skl_find_None)
  then show ?thesis by (induction xs) (auto simp: skl_erase_def cmp_self filter_id_conv)
qed

text \<open>Where an entry is found, the list falls apart around it, and the operations act there.\<close>

lemma skl_find_split:
  assumes "skl_sorted key cmp xs" "skl_find key cmp k xs = Some x"
  obtains us vs where "xs = us @ x # vs" "cmp (key x) k = 0" "\<forall>u \<in> set us \<union> set vs. cmp (key u) k \<noteq> 0"
proof -
  from skl_find_SomeD [OF assms(2)] obtain us vs where xs: "xs = us @ x # vs" and k: "cmp (key x) k = 0"
    by (auto simp: in_set_conv_decomp)
  have "cmp (key u) k \<noteq> 0" if "u \<in> set us \<union> set vs" for u
  proof
    assume "cmp (key u) k = 0"
    then have "cmp (key u) (key x) = 0" using k cmp_cong [of "key u" k "key x"] cmp_sym by blast
    then show False
      using that assms(1) cmp_sym [of "key u" "key x"] by (auto simp: xs skl_sorted_append)
  qed
  with that xs k show thesis by blast
qed

lemma skl_put_split:
  assumes "skl_find key cmp (key x) xs = None"
  obtains us vs where "xs = us @ vs" "skl_put key cmp x xs = us @ x # vs"
proof -
  have "\<exists>us vs. xs = us @ vs \<and> skl_put key cmp x xs = us @ x # vs"
    using assms
  proof (induction xs)
    case (Cons y ys)
    then have "cmp (key x) (key y) \<noteq> 0" using cmp_sym [of "key x" "key y"] by (auto split: if_splits)
    then consider "cmp (key x) (key y) < 0" | "cmp (key x) (key y) > 0" by linarith
    then show ?case
    proof cases
      case 1
      then have "y # ys = [] @ y # ys \<and> skl_put key cmp x (y # ys) = [] @ x # y # ys" by simp
      then show ?thesis by blast
    next
      case 2
      from Cons obtain us vs where "ys = us @ vs" "skl_put key cmp x ys = us @ x # vs"
        by (auto split: if_splits)
      with 2 have "y # ys = (y # us) @ vs \<and> skl_put key cmp x (y # ys) = (y # us) @ x # vs" by simp
      then show ?thesis by blast
    qed
  qed simp
  with that show thesis by blast
qed

end

lemma skl_update_split:
  assumes "cmp (key x) k = 0" "\<forall>u \<in> set us \<union> set vs. cmp (key u) k \<noteq> 0"
  shows "skl_update key cmp k f (us @ x # vs) = us @ f x # vs"
  using assms by (auto simp: skl_update_def intro: map_idI)

lemma skl_erase_split:
  assumes "cmp (key x) k = 0" "\<forall>u \<in> set us \<union> set vs. cmp (key u) k \<noteq> 0"
  shows "skl_erase key cmp k (us @ x # vs) = us @ vs"
  using assms by (auto simp: skl_erase_def filter_id_conv)

end
