(* ===== verification/GroupsData.thy ===== *)
theory GroupsData
  imports Configuration SkipList "HOL-Library.List_Lexorder" "HOL-Library.Char_ord"
begin

text \<open>
  The data of \<open>daemon/groups.c\<close> with the types of \<open>daemon/sess_body.h\<close>: groups, the daemons of a
  group, their members, synced sets and sessions; the comparison functions that order the skip
  lists, each shown to be a \<open>comparison\<close>; and the parsing of private group names. A name is the
  string in its array of \<open>MAX_GROUP_NAME\<close> characters, without the terminating null.
\<close>

abbreviation (input) MAX_GROUP_NAME :: nat where "MAX_GROUP_NAME \<equiv> 32"
abbreviation (input) MAX_PRIVATE_NAME :: nat where "MAX_PRIVATE_NAME \<equiv> 10"
abbreviation (input) MAX_PROC_NAME :: nat where "MAX_PROC_NAME \<equiv> 20"

record group_id =
  gi_memb_id :: membership_id
  gi_index :: int

record daemon_members =
  dm_proc_id :: int32u
  dm_memb_id :: membership_id
  MembersList :: "string list"

record spread_group =
  gr_name :: string
  grp_id :: group_id
  changed :: bool
  gr_num_members :: int
  DaemonsList :: "daemon_members list"
  mboxes :: "int list"

text \<open>A session, as far as the groups use it: its private name, its mailbox, and whether it
  asked for membership messages.\<close>

record session =
  ses_name :: string
  ses_mbox :: int
  ses_memb :: bool

section \<open>Names\<close>

text \<open>\<open>strncmp\<close> on strings without null characters; C gives only the sign of its result.\<close>

fun strncmp :: "nat \<Rightarrow> string \<Rightarrow> string \<Rightarrow> int" where
  "strncmp 0 a b = 0"
| "strncmp (Suc n) [] [] = 0"
| "strncmp (Suc n) [] (b # bs) = -1"
| "strncmp (Suc n) (a # as) [] = 1"
| "strncmp (Suc n) (a # as) (b # bs) =
     (if a = b then strncmp n as bs
      else if (of_char a :: int) < of_char b then -1 else 1)"

definition strcmp :: "string \<Rightarrow> string \<Rightarrow> int" where
  "strcmp a b = strncmp (max (length a) (length b)) a b"

definition G_compare_nameptr :: "string \<Rightarrow> string \<Rightarrow> int" where
  "G_compare_nameptr = strncmp MAX_GROUP_NAME"

lemma of_char_less: "(of_char a :: int) < of_char b \<longleftrightarrow> a < b"
proof -
  have "(of_char ch :: int) = int (of_char ch)" for ch by (rule of_nat_of_char [symmetric])
  then show ?thesis by (simp add: less_char_def)
qed

lemma strncmp_order:
  "(strncmp n a b < 0 \<longleftrightarrow> take n a < take n b) \<and> (strncmp n a b = 0 \<longleftrightarrow> take n a = take n b)"
  by (induction n a b rule: strncmp.induct) (auto simp: of_char_less)

lemma strncmp_less: "strncmp n a b < 0 \<longleftrightarrow> take n a < take n b"
  and strncmp_zero: "strncmp n a b = 0 \<longleftrightarrow> take n a = take n b"
  using strncmp_order by blast+

lemma strcmp_zero: "strcmp a b = 0 \<longleftrightarrow> a = b"
  by (simp add: strcmp_def strncmp_zero)

interpretation names: comparison "G_compare_nameptr"
proof
  fix k l m :: string
  show "G_compare_nameptr k k = 0" by (simp add: G_compare_nameptr_def strncmp_zero)
  show "G_compare_nameptr k l < 0 \<longleftrightarrow> 0 < G_compare_nameptr l k"
    unfolding G_compare_nameptr_def
    using strncmp_less [of 32 k l] strncmp_less [of 32 l k] strncmp_zero [of 32 l k] by fastforce
  assume "G_compare_nameptr k l \<le> 0" "G_compare_nameptr l m \<le> 0"
  then show "G_compare_nameptr k m \<le> 0"
    unfolding G_compare_nameptr_def le_less strncmp_less strncmp_zero by auto
qed

lemma nameptr_zero [simp]:
  "length a < MAX_GROUP_NAME \<Longrightarrow> length b < MAX_GROUP_NAME \<Longrightarrow> G_compare_nameptr a b = 0 \<longleftrightarrow> a = b"
  by (simp add: G_compare_nameptr_def strncmp_zero)

section \<open>The order of daemons\<close>

text \<open>Values with a rank come first, in the order of their ranks; those without, by value.\<close>

definition compare_ranked :: "('k \<Rightarrow> int) \<Rightarrow> 'k::linorder \<Rightarrow> 'k \<Rightarrow> int" where
  "compare_ranked rank a b =
     (let ia = rank a; ib = rank b
      in if ia > -1 \<and> ib > -1 then ia - ib
         else if ia < 0 \<and> ib < 0 then (if a = b then 0 else if a < b then -1 else 1)
         else if ia < 0 then 1
         else if ib < 0 then -1
         else ia - ib)"

lemma compare_ranked_le:
  "compare_ranked rank a b \<le> 0 \<longleftrightarrow>
     (if 0 \<le> rank a then rank b < 0 \<or> rank a \<le> rank b else rank b < 0 \<and> a \<le> b)"
  by (auto simp: compare_ranked_def Let_def)

lemma compare_ranked_comparison: "comparison (compare_ranked rank)"
proof
  fix k l m :: 'a
  show "compare_ranked rank k k = 0" by (simp add: compare_ranked_def Let_def)
  show "compare_ranked rank k l < 0 \<longleftrightarrow> 0 < compare_ranked rank l k"
    by (auto simp: compare_ranked_def Let_def)
  assume "compare_ranked rank k l \<le> 0" "compare_ranked rank l m \<le> 0"
  then show "compare_ranked rank k m \<le> 0"
    unfolding compare_ranked_le by (auto split: if_splits)
qed

definition G_compare_proc_ids_by_conf_internal :: "configuration \<Rightarrow> int32u \<Rightarrow> int32u \<Rightarrow> int" where
  "G_compare_proc_ids_by_conf_internal c = compare_ranked (\<lambda>i. fst (Conf_proc_by_id_in_conf c i))"

lemma Conf_proc_index_inj:
  assumes "0 \<le> fst (Conf_proc_by_id_in_conf c a)"
    and "fst (Conf_proc_by_id_in_conf c a) = fst (Conf_proc_by_id_in_conf c b)"
  shows "a = b"
proof -
  have ranks: "0 \<le> index_of (\<lambda>p. p_id p = a) (allprocs c)"
    "index_of (\<lambda>p. p_id p = a) (allprocs c) = index_of (\<lambda>p. p_id p = b) (allprocs c)"
    using assms by (simp_all add: Conf_proc_by_id_in_conf_def Conf_proc_ref_by_id_in_conf_def Let_def)
  then have "0 \<le> index_of (\<lambda>p. p_id p = b) (allprocs c)" by simp
  from index_of_nth [OF ranks(1)] index_of_nth [OF this] show ?thesis
    unfolding ranks(2) by blast
qed

interpretation proc_ids: comparison "G_compare_proc_ids_by_conf_internal c" for c
  unfolding G_compare_proc_ids_by_conf_internal_def by (rule compare_ranked_comparison)

lemma compare_proc_ids_zero [simp]:
  "G_compare_proc_ids_by_conf_internal c a b = 0 \<longleftrightarrow> a = b"
proof
  assume "G_compare_proc_ids_by_conf_internal c a b = 0"
  then show "a = b"
    using Conf_proc_index_inj [of c a b]
    by (simp add: G_compare_proc_ids_by_conf_internal_def compare_ranked_def Let_def not_less
        split: if_splits)
qed (simp add: proc_ids.cmp_self)

text \<open>An unknown membership id marks a daemon that is partitioned from this one.\<close>

definition unknown_memb_id :: membership_id where
  "unknown_memb_id = \<lparr>mi_proc_id = -1, mi_time = -1\<rparr>"

definition Is_unknown_memb_id :: "membership_id \<Rightarrow> bool" where
  "Is_unknown_memb_id m \<longleftrightarrow> mi_proc_id m = -1"

definition Is_partitioned_daemon :: "daemon_members \<Rightarrow> bool" where
  "Is_partitioned_daemon d \<longleftrightarrow> Is_unknown_memb_id (dm_memb_id d)"

definition Is_established_daemon :: "daemon_members \<Rightarrow> bool" where
  "Is_established_daemon d \<longleftrightarrow> \<not> Is_unknown_memb_id (dm_memb_id d)"

lemma unknown_is_unknown [simp]: "Is_unknown_memb_id unknown_memb_id"
  by (simp add: Is_unknown_memb_id_def unknown_memb_id_def)

text \<open>
  The process ids are compared by a subtraction of values of type \<open>int32\<close>, here with the
  wrap-around of the machine (C leaves the overflow undefined).
\<close>

definition G_compare_memb_ids :: "membership_id \<Rightarrow> membership_id \<Rightarrow> int" where
  "G_compare_memb_ids m1 m2 =
     (if Is_unknown_memb_id m1 \<and> Is_unknown_memb_id m2 then 0
      else if Is_unknown_memb_id m1 then 1
      else if Is_unknown_memb_id m2 then -1
      else if mi_proc_id m1 \<noteq> mi_proc_id m2 then sint (mi_proc_id m1 - mi_proc_id m2)
      else if mi_time m1 \<noteq> mi_time m2 then mi_time m1 - mi_time m2
      else 0)"

definition G_compare_daemon_vs_set :: "configuration \<Rightarrow> daemon_members \<Rightarrow> daemon_members \<Rightarrow> int" where
  "G_compare_daemon_vs_set c da db =
     (let cmp = G_compare_memb_ids (dm_memb_id da) (dm_memb_id db)
      in if cmp = 0 then G_compare_proc_ids_by_conf_internal c (dm_proc_id da) (dm_proc_id db) else cmp)"

section \<open>Lookups\<close>

definition G_get_group :: "string \<Rightarrow> spread_group list \<Rightarrow> spread_group option" where
  "G_get_group nm gs = skl_find gr_name G_compare_nameptr nm gs"

definition G_get_daemon :: "configuration \<Rightarrow> spread_group \<Rightarrow> int32u \<Rightarrow> daemon_members option" where
  "G_get_daemon c g i = skl_find dm_proc_id (G_compare_proc_ids_by_conf_internal c) i (DaemonsList g)"

definition G_get_member :: "daemon_members \<Rightarrow> string \<Rightarrow> string option" where
  "G_get_member d nm = skl_find id G_compare_nameptr nm (MembersList d)"

text \<open>
  \<open>Sess_get_session\<close> walks the list of sessions, which is sorted by name;
  \<open>Sess_get_session_index\<close> walks the chain of the mailbox's hash value, where every session with
  that mailbox is. A session's index is the session itself here.
\<close>

fun Sess_get_session :: "string \<Rightarrow> session list \<Rightarrow> session option" where
  "Sess_get_session nm [] = None"
| "Sess_get_session nm (x # xs) =
     (let ret = strcmp (ses_name x) nm
      in if ret < 0 then Sess_get_session nm xs else if ret = 0 then Some x else None)"

definition Sess_get_session_index :: "int \<Rightarrow> session list \<Rightarrow> session option" where
  "Sess_get_session_index m xs = find (\<lambda>x. ses_mbox x = m) xs"

lemma Sess_get_session_SomeD: "Sess_get_session nm xs = Some x \<Longrightarrow> x \<in> set xs \<and> ses_name x = nm"
  by (induction xs) (auto simp: Let_def strcmp_zero split: if_splits)

lemma Sess_get_session_index_SomeD:
  "Sess_get_session_index m xs = Some x \<Longrightarrow> x \<in> set xs \<and> ses_mbox x = m"
  by (auto simp: Sess_get_session_index_def find_Some_iff)

section \<open>Private group names\<close>

text \<open>
  A private group is \<open>#private name#process name\<close>. \<open>None\<close> is \<open>ILLEGAL_GROUP\<close>, where the two
  results are not written.
\<close>

definition legal_char :: "char \<Rightarrow> bool" where
  "legal_char ch \<longleftrightarrow> (of_char CHR ''#'' :: int) < of_char ch \<and> (of_char ch :: int) \<le> of_char CHR ''~''"

definition G_private_to_names :: "string \<Rightarrow> (string \<times> string) option" where
  "G_private_to_names nm =
     (let prv = takeWhile (\<lambda>ch. ch \<noteq> CHR ''#'') (tl nm);
          pn = dropWhile (\<lambda>ch. ch \<noteq> CHR ''#'') (tl nm)
      in if pn = [] \<or> nm = [] \<or> hd nm \<noteq> CHR ''#'' \<or>
            length prv > MAX_PRIVATE_NAME \<or> length prv < 1 \<or>
            length (tl pn) \<ge> MAX_PROC_NAME \<or> length (tl pn) < 1
         then None
         else if \<not> list_all legal_char prv \<or> \<not> list_all legal_char (tl pn) then None
         else Some (prv, tl pn))"

lemma legal_char_hash [simp]: "\<not> legal_char CHR ''#''"
  by (simp add: legal_char_def)

text \<open>Exactly the well-formed names are read, and they are read back.\<close>

lemma private_to_names_iff:
  "G_private_to_names nm = Some (prv, prc) \<longleftrightarrow>
     nm = ''#'' @ prv @ ''#'' @ prc \<and> prv \<noteq> [] \<and> length prv \<le> MAX_PRIVATE_NAME \<and>
     prc \<noteq> [] \<and> length prc < MAX_PROC_NAME \<and> list_all legal_char prv \<and> list_all legal_char prc"
  (is "?l \<longleftrightarrow> ?r")
proof
  assume l: ?l
  let ?p = "takeWhile (\<lambda>ch. ch \<noteq> CHR ''#'') (tl nm)" and ?q = "dropWhile (\<lambda>ch. ch \<noteq> CHR ''#'') (tl nm)"
  have "\<not> (?q = [] \<or> nm = [] \<or> hd nm \<noteq> CHR ''#'' \<or> length ?p > MAX_PRIVATE_NAME \<or> length ?p < 1 \<or>
      length (tl ?q) \<ge> MAX_PROC_NAME \<or> length (tl ?q) < 1)"
    using l unfolding G_private_to_names_def Let_def by (rule contrapos_pn) simp
  moreover from this l have "list_all legal_char ?p \<and> list_all legal_char (tl ?q) \<and> prv = ?p \<and> prc = tl ?q"
    unfolding G_private_to_names_def Let_def by (auto split: if_splits)
  moreover have "nm = CHR ''#'' # ?p @ ?q" "?q = CHR ''#'' # tl ?q" if "?q \<noteq> []" "nm \<noteq> []" "hd nm = CHR ''#''"
    using that hd_dropWhile [of "\<lambda>ch. ch \<noteq> CHR ''#''" "tl nm"] list.collapse [of nm] list.collapse [of ?q]
    by auto
  ultimately show ?r by (auto simp: not_less not_le)
next
  assume r: ?r
  then have "CHR ''#'' \<notin> set prv" by (auto simp: list_all_iff)
  then have "takeWhile (\<lambda>ch. ch \<noteq> CHR ''#'') (prv @ CHR ''#'' # prc) = prv"
    "dropWhile (\<lambda>ch. ch \<noteq> CHR ''#'') (prv @ CHR ''#'' # prc) = CHR ''#'' # prc"
    by (auto simp: takeWhile_append dropWhile_append takeWhile_eq_all_conv)
  with r show ?l by (auto simp: G_private_to_names_def Let_def Suc_le_eq)
qed

end
