(* ===== verification/GroupsState.thy ===== *)
theory GroupsState
  imports GroupsData
begin

text \<open>
  The static variables of \<open>daemon/groups.c\<close> and the messages it makes: membership messages for
  the clients in a group, written to their mailboxes, and the groups messages that daemons
  exchange. \<open>g_out\<close> is the list of what was handed to sessions and protocol, in order. An
  operation with result \<open>None\<close> has ended the process or left what C defines.
\<close>

abbreviation (input) CAUSED_BY_JOIN :: "32 word" where "CAUSED_BY_JOIN \<equiv> 0x00000100"
abbreviation (input) CAUSED_BY_LEAVE :: "32 word" where "CAUSED_BY_LEAVE \<equiv> 0x00000200"
abbreviation (input) CAUSED_BY_DISCONNECT :: "32 word" where "CAUSED_BY_DISCONNECT \<equiv> 0x00000400"
abbreviation (input) CAUSED_BY_NETWORK :: "32 word" where "CAUSED_BY_NETWORK \<equiv> 0x00000800"
abbreviation (input) GROUPS_MESS :: "32 word" where "GROUPS_MESS \<equiv> 0x00080000"
abbreviation (input) RELIABLE_MESS :: "32 word" where "RELIABLE_MESS \<equiv> 0x00000002"
abbreviation (input) AGREED_MESS :: "32 word" where "AGREED_MESS \<equiv> 0x00000010"
abbreviation (input) sizeof_message_header :: int where "sizeof_message_header \<equiv> 48"
abbreviation (input) MAX_MESSAGE_BODY_LEN :: int where "MAX_MESSAGE_BODY_LEN \<equiv> 144000"
abbreviation (input) MAX_SCATTER_ELEMENTS :: int where "MAX_SCATTER_ELEMENTS \<equiv> 100"

datatype gstate = GOP | GTRANS | GGATHER | GGT

text \<open>
  A regular membership message: the member list, which is the array of groups of the message,
  then its data: the group id, the offset of the receiver's set and the virtual synchrony sets.
\<close>

record memb_mess =
  mm_group :: string
  mm_caused :: "32 word"
  mm_num_groups :: int
  mm_members :: "string list"
  mm_grp_id :: group_id
  mm_offset :: int
  mm_vs_sets :: "string list list"

datatype client_mess =
    Reg_memb_mess memb_mess
  | Transition_mess string group_id
  | Self_leave_mess string

text \<open>A groups message; the last four bytes of its name field count the daemons of the sender's
  synced set. The bytes are those behind the message header.\<close>

record groups_mess =
  gm_type :: "32 word"
  gm_proc_name :: string
  gm_num_daemons :: int32u
  gm_data :: "8 word list"

record groups_message_link =
  rep_proc_id :: int32u
  gl_complete :: bool
  gl_messages :: "groups_mess list"

datatype down_queue = NORMAL_DOWNQUEUE | GROUPS_DOWNQUEUE
datatype priority = LOW_PRIORITY | MEDIUM_PRIORITY

datatype group_action =
    Sess_write int client_mess
  | Session_threshold priority
  | Prot_set_down_queue down_queue
  | Prot_set_delivery_threshold "32 word"
  | Prot_new_message groups_mess

record groups_state =
  G_conf :: configuration
  G_my :: proc
  Cn_active :: configuration
  G_state :: gstate
  G_Trans_memb :: configuration
  G_Trans_memb_id :: membership_id
  G_Reg_memb :: configuration
  G_Reg_memb_id :: membership_id
  Groups_bufs :: "8 word list list"
  Groups_bufs_fresh :: bool
  Num_mess_gathered :: int
  Num_daemons_gathered :: int
  Gathered_complete :: bool
  Gathered :: "groups_message_link list"
  GroupsList :: "spread_group list"
  Num_groups :: int
  MySyncedSet :: "int32u list"
  Sessions :: "session list"
  g_out :: "group_action list"

definition g_emit :: "group_action list \<Rightarrow> groups_state \<Rightarrow> groups_state" where
  "g_emit as s = s\<lparr>g_out := g_out s @ as\<rparr>"

definition G_shift_to_GOP :: "groups_state \<Rightarrow> groups_state" where
  "G_shift_to_GOP s = g_emit [Prot_set_delivery_threshold UNRELIABLE_TYPE] (s\<lparr>G_state := GOP\<rparr>)"

section \<open>Membership messages\<close>

text \<open>
  A body that does not fit the static buffer is written past its end, and one that needs more
  than \<open>MAX_SCATTER_ELEMENTS\<close> fragments is a fatal error.
\<close>

definition body_fits :: "int \<Rightarrow> bool" where
  "body_fits n \<longleftrightarrow> n \<le> MAX_MESSAGE_BODY_LEN \<and>
     (n + sizeof_message_header - 1) div sizeof_packet_body + 1 \<le> MAX_SCATTER_ELEMENTS"

lemma body_fits_iff: "0 \<le> n \<Longrightarrow> body_fits n \<longleftrightarrow> n \<le> 143152"
  by (auto simp: body_fits_def)

text \<open>The bytes of the region of virtual synchrony sets: each is a count and its names.\<close>

definition vs_bytes :: "string list list \<Rightarrow> int" where
  "vs_bytes vs = sum_list (map (\<lambda>ns. 4 + 32 * int (length ns)) vs)"

definition data_len :: "memb_mess \<Rightarrow> int" where
  "data_len m = 12 + 4 + 4 + vs_bytes (mm_vs_sets m)"

definition mess_bytes :: "memb_mess \<Rightarrow> int" where
  "mess_bytes m = 32 * int (length (mm_members m)) + data_len m"

definition group_members :: "spread_group \<Rightarrow> string list" where
  "group_members g = concat (map MembersList (DaemonsList g))"

definition G_build_memb_buf :: "spread_group \<Rightarrow> 32 word \<Rightarrow> memb_mess" where
  "G_build_memb_buf g caused =
     \<lparr>mm_group = gr_name g, mm_caused = caused, mm_num_groups = gr_num_members g,
      mm_members = group_members g, mm_grp_id = grp_id g, mm_offset = 0, mm_vs_sets = []\<rparr>"

text \<open>
  The pass over the daemons: the sets so far, of which the last one is being filled, the
  membership id of that set, the offset of this daemon's set, and whether the joiner was met.
\<close>

record vs_pass =
  vp_sets :: "string list list"
  vp_memb_id :: membership_id
  vp_offset :: int
  vp_found :: bool

text \<open>The joiner is left out where it is met for the first time.\<close>

fun vs_members :: "string option \<Rightarrow> bool \<Rightarrow> string list \<Rightarrow> string list \<times> bool" where
  "vs_members joiner found [] = ([], found)"
| "vs_members joiner found (nm # nms) =
     (if \<not> found \<and> joiner = Some nm then vs_members joiner True nms
      else case vs_members joiner found nms of (xs, f) \<Rightarrow> (nm # xs, f))"

definition vs_daemon :: "groups_state \<Rightarrow> string option \<Rightarrow> daemon_members \<Rightarrow> vs_pass \<Rightarrow> vs_pass option" where
  "vs_daemon s joiner d v =
     (let needed = Is_unknown_memb_id (vp_memb_id v) \<or> \<not> Memb_is_equal (vp_memb_id v) (dm_memb_id d);
          sets = (if needed then vp_sets v @ [[]] else vp_sets v);
          mine = dm_proc_id d = p_id (G_my s)
      in if mine \<and> vp_offset v \<noteq> 0 then None
         else case vs_members joiner (vp_found v) (MembersList d) of (nms, found) \<Rightarrow>
           Some \<lparr>vp_sets = butlast sets @ [last sets @ nms],
                 vp_memb_id = (if needed then dm_memb_id d else vp_memb_id v),
                 vp_offset = (if mine then vs_bytes (butlast sets) else vp_offset v),
                 vp_found = found\<rparr>)"

fun vs_daemons :: "groups_state \<Rightarrow> string option \<Rightarrow> daemon_members list \<Rightarrow> vs_pass \<Rightarrow> vs_pass option" where
  "vs_daemons s joiner [] v = Some v"
| "vs_daemons s joiner (d # ds) v =
     (case vs_daemon s joiner d v of None \<Rightarrow> None | Some w \<Rightarrow> vs_daemons s joiner ds w)"

definition vs_start :: vs_pass where
  "vs_start = \<lparr>vp_sets = [], vp_memb_id = unknown_memb_id, vp_offset = 0, vp_found = False\<rparr>"

text \<open>The daemons of a group sorted by membership id and then by process id.\<close>

definition vs_sorted :: "groups_state \<Rightarrow> spread_group \<Rightarrow> daemon_members list" where
  "vs_sorted s g = skl_put_seq id (G_compare_daemon_vs_set (Cn_active s)) (DaemonsList g) []"

definition G_build_memb_vs_buf ::
  "groups_state \<Rightarrow> spread_group \<Rightarrow> 32 word \<Rightarrow> string option \<Rightarrow> memb_mess option" where
  "G_build_memb_vs_buf s g caused joiner =
     (case vs_daemons s joiner (vs_sorted s g) vs_start of
        None \<Rightarrow> None
      | Some v \<Rightarrow>
          (case joiner of
             None \<Rightarrow> Some ((G_build_memb_buf g caused)\<lparr>mm_offset := vp_offset v, mm_vs_sets := vp_sets v\<rparr>)
           | Some nm \<Rightarrow>
               if \<not> vp_found v then None
               else Some ((G_build_memb_buf g caused)
                      \<lparr>mm_offset := vp_offset v, mm_vs_sets := vp_sets v @ [[nm]]\<rparr>)))"

section \<open>Sending them\<close>

text \<open>A mailbox without a session reads \<open>Sessions[-1]\<close>.\<close>

fun write_mboxes :: "session list \<Rightarrow> client_mess \<Rightarrow> int list \<Rightarrow> group_action list option" where
  "write_mboxes ss c [] = Some []"
| "write_mboxes ss c (m # ms) =
     (case Sess_get_session_index m ss of
        None \<Rightarrow> None
      | Some x \<Rightarrow>
          (case write_mboxes ss c ms of
             None \<Rightarrow> None
           | Some acts \<Rightarrow> Some ((if ses_memb x then [Sess_write m c] else []) @ acts)))"

definition G_send_lightweight_memb ::
  "groups_state \<Rightarrow> spread_group \<Rightarrow> 32 word \<Rightarrow> string \<Rightarrow> group_action list option" where
  "G_send_lightweight_memb s g caused nm =
     (let m = (G_build_memb_buf g caused)\<lparr>mm_vs_sets := [[nm]]\<rparr>
      in if \<not> body_fits (mess_bytes m) then None
         else write_mboxes (Sessions s) (Reg_memb_mess m) (mboxes g))"

definition G_send_self_leave :: "spread_group \<Rightarrow> session \<Rightarrow> group_action list" where
  "G_send_self_leave g x = (if ses_memb x then [Sess_write (ses_mbox x) (Self_leave_mess (gr_name g))] else [])"

text \<open>
  The joiner gets a copy whose offset points to the last set. The place of the offset in the
  buffer is computed from \<open>num_groups\<close>, which has to be the number of names in front of it.
\<close>

definition G_send_heavyweight_join ::
  "groups_state \<Rightarrow> spread_group \<Rightarrow> string option \<Rightarrow> int \<Rightarrow> group_action list option" where
  "G_send_heavyweight_join s g joiner new_mbox =
     (case G_build_memb_vs_buf s g CAUSED_BY_NETWORK joiner of
        None \<Rightarrow> None
      | Some m \<Rightarrow>
          if \<not> body_fits (mess_bytes m) then None
          else
            (case write_mboxes (Sessions s) (Reg_memb_mess m)
                    (if joiner \<noteq> None then filter (\<lambda>b. new_mbox \<noteq> b) (mboxes g) else mboxes g) of
               None \<Rightarrow> None
             | Some acts \<Rightarrow>
                 if new_mbox \<noteq> -1
                 then (if mm_num_groups m \<noteq> int (length (mm_members m)) then None
                       else map_option (\<lambda>own. acts @ own)
                              (write_mboxes (Sessions s)
                                 (Reg_memb_mess (m\<lparr>mm_offset := data_len m - (4 + 32) - (12 + 2 * 4)\<rparr>))
                                 [new_mbox]))
                 else Some acts))"

definition G_send_heavyweight_memb :: "groups_state \<Rightarrow> spread_group \<Rightarrow> group_action list option" where
  "G_send_heavyweight_memb s g = G_send_heavyweight_join s g None (-1)"

definition G_build_trans_mess :: "spread_group \<Rightarrow> client_mess" where
  "G_build_trans_mess g = Transition_mess (gr_name g) (grp_id g)"

definition G_send_trans_memb :: "groups_state \<Rightarrow> spread_group \<Rightarrow> group_action list option" where
  "G_send_trans_memb s g = write_mboxes (Sessions s) (G_build_trans_mess g) (mboxes g)"

end
