(* ===== verification/GroupsBufs.thy ===== *)
theory GroupsBufs
  imports GroupsState
begin

text \<open>
  The groups messages of \<open>daemon/groups.c\<close>: how the head of a synced set writes its groups into
  buffers and sends them, and how they are read back into the list of groups. Buffers are lists
  of bytes; integers are in the order of a little-endian host and swapped by the reader when the
  sender's order differs.
\<close>

abbreviation (input) GROUPS_BUF_SIZE :: int where "GROUPS_BUF_SIZE \<equiv> 100000"
abbreviation (input) GROUPS_BUF_PREAMBLE_SIZE :: int where "GROUPS_BUF_PREAMBLE_SIZE \<equiv> 8 + 1"
abbreviation (input) GROUPS_BUF_GROUP_INFO_SIZE :: int where "GROUPS_BUF_GROUP_INFO_SIZE \<equiv> 32 + 12 + 2 + 2"
abbreviation (input) GROUPS_BUF_DAEMON_INFO_SIZE :: int where "GROUPS_BUF_DAEMON_INFO_SIZE \<equiv> 4 + 8 + 2"
abbreviation (input) MAX_LOCAL_GROUP_MEMBERS :: int where
  "MAX_LOCAL_GROUP_MEMBERS \<equiv>
     (GROUPS_BUF_SIZE - GROUPS_BUF_PREAMBLE_SIZE - GROUPS_BUF_GROUP_INFO_SIZE - GROUPS_BUF_DAEMON_INFO_SIZE) div 32"

section \<open>Fields\<close>

definition put32 :: "32 word \<Rightarrow> 8 word list" where
  "put32 w = [ucast w, ucast (drop_bit 8 w), ucast (drop_bit 16 w), ucast (drop_bit 24 w)]"

definition put16 :: "16 word \<Rightarrow> 8 word list" where
  "put16 w = [ucast w, ucast (drop_bit 8 w)]"

definition get32 :: "8 word list \<Rightarrow> 32 word" where
  "get32 bs = ucast (bs ! 0) OR push_bit 8 (ucast (bs ! 1)) OR push_bit 16 (ucast (bs ! 2)) OR
              push_bit 24 (ucast (bs ! 3))"

definition get16 :: "8 word list \<Rightarrow> 16 word" where
  "get16 bs = ucast (bs ! 0) OR push_bit 8 (ucast (bs ! 1))"

definition put_name :: "string \<Rightarrow> 8 word list" where
  "put_name nm = map (\<lambda>ch. of_nat (of_char ch)) (take 32 nm) @ replicate (32 - length nm) 0"

definition get_name :: "8 word list \<Rightarrow> string" where
  "get_name bs = map (\<lambda>b. char_of (unat b)) (takeWhile (\<lambda>b. b \<noteq> 0) (take 32 bs))"

definition put_memb_id :: "membership_id \<Rightarrow> 8 word list" where
  "put_memb_id m = put32 (mi_proc_id m) @ put32 (word_of_int (mi_time m))"

definition put_grp_id :: "group_id \<Rightarrow> 8 word list" where
  "put_grp_id g = put_memb_id (gi_memb_id g) @ put32 (word_of_int (gi_index g))"

text \<open>Fields of a sender with the other byte order are swapped.\<close>

definition flip32 :: "bool \<Rightarrow> 32 word \<Rightarrow> 32 word" where
  "flip32 same w = (if same then w else Flip_int32 w)"

definition flip16 :: "bool \<Rightarrow> 16 word \<Rightarrow> 16 word" where
  "flip16 same w = (if same then w else Flip_int16 w)"

definition get_memb_id :: "bool \<Rightarrow> 8 word list \<Rightarrow> membership_id" where
  "get_memb_id same bs =
     \<lparr>mi_proc_id = flip32 same (get32 bs), mi_time = sint (flip32 same (get32 (drop 4 bs)))\<rparr>"

definition get_grp_id :: "bool \<Rightarrow> 8 word list \<Rightarrow> group_id" where
  "get_grp_id same bs =
     \<lparr>gi_memb_id = get_memb_id same bs, gi_index = sint (flip32 same (get32 (drop 8 bs)))\<rparr>"

section \<open>Building the buffers\<close>

definition daemon_info :: "spread_group \<Rightarrow> daemon_members \<Rightarrow> 8 word list" where
  "daemon_info g d = put32 (dm_proc_id d) @ put_memb_id (gi_memb_id (grp_id g)) @
     put16 (of_nat (length (MembersList d))) @ concat (map put_name (MembersList d))"

definition group_info :: "spread_group \<Rightarrow> nat \<Rightarrow> 8 word list" where
  "group_info g num_dmns = put_name (gr_name g) @ put_grp_id (grp_id g) @
     put16 (if changed g then 1 else 0) @ put16 (of_nat num_dmns)"

text \<open>
  The daemons that still fit: their bytes, their number and the daemons left. \<open>n\<close> is the number
  of bytes in the buffer so far.
\<close>

fun buf_daemons ::
  "spread_group \<Rightarrow> int \<Rightarrow> daemon_members list \<Rightarrow> (8 word list \<times> nat \<times> daemon_members list) option" where
  "buf_daemons g n [] = Some ([], 0, [])"
| "buf_daemons g n (d # ds) =
     (let size_needed = GROUPS_BUF_DAEMON_INFO_SIZE + int (length (MembersList d)) * 32 + sizeof_message_header
      in if size_needed > GROUPS_BUF_SIZE - n then Some ([], 0, d # ds)
         else if to_int16u (int (length (MembersList d))) \<noteq> int (length (MembersList d)) then None
         else (case buf_daemons g (n + int (length (daemon_info g d))) ds of
                 None \<Rightarrow> None
               | Some (bs, k, rest) \<Rightarrow> Some (daemon_info g d @ bs, Suc k, rest)))"

text \<open>The groups, from the iterator \<open>dit\<close> into the daemons of the first one.\<close>

fun buf_groups ::
  "int \<Rightarrow> spread_group list \<Rightarrow> daemon_members list \<Rightarrow>
     (8 word list \<times> spread_group list \<times> daemon_members list) option" where
  "buf_groups n [] dit = Some ([], [], dit)"
| "buf_groups n (g # gs) dit =
     (if GROUPS_BUF_GROUP_INFO_SIZE + sizeof_message_header > GROUPS_BUF_SIZE - n then Some ([], g # gs, dit)
      else (case buf_daemons g (n + GROUPS_BUF_GROUP_INFO_SIZE) dit of
              None \<Rightarrow> None
            | Some (bs, k, rest) \<Rightarrow>
                if rest \<noteq> [] then Some (group_info g k @ bs, g # gs, rest)
                else (case buf_groups (n + int (length (group_info g k @ bs))) gs
                             (case gs of [] \<Rightarrow> [] | h # _ \<Rightarrow> DaemonsList h) of
                        None \<Rightarrow> None
                      | Some (cs, git, dit') \<Rightarrow> Some (group_info g k @ bs @ cs, git, dit'))))"

definition G_build_groups_buf ::
  "groups_state \<Rightarrow> bool \<Rightarrow> spread_group list \<Rightarrow> daemon_members list \<Rightarrow>
     (8 word list \<times> spread_group list \<times> daemon_members list) option" where
  "G_build_groups_buf s first_time git dit =
     (let pre = put_memb_id (G_Reg_memb_id s) @
            (if first_time
             then [1] @ put32 (of_nat (length (MySyncedSet s))) @ concat (map put32 (MySyncedSet s))
             else [0]);
          start = (if first_time
                   then (GroupsList s, case GroupsList s of [] \<Rightarrow> [] | g # _ \<Rightarrow> DaemonsList g)
                   else (git, dit))
      in case buf_groups (int (length pre)) (fst start) (snd start) of
           None \<Rightarrow> None
         | Some (bs, rest) \<Rightarrow> Some (pre @ bs, rest))"

text \<open>The loop of \<open>G_build_new_groups_bufs\<close>; where it does not end, the result is \<open>None\<close>.\<close>

partial_function (option) build_bufs ::
  "groups_state \<Rightarrow> bool \<Rightarrow> spread_group list \<Rightarrow> daemon_members list \<Rightarrow> 8 word list list \<Rightarrow>
     8 word list list option" where
  "build_bufs s first_time git dit bufs =
     (case G_build_groups_buf s first_time git dit of
        None \<Rightarrow> None
      | Some (b, git', dit') \<Rightarrow>
          if git' = [] then Some (b # bufs) else build_bufs s False git' dit' (b # bufs))"

definition G_build_new_groups_bufs :: "groups_state \<Rightarrow> groups_state option" where
  "G_build_new_groups_bufs s =
     map_option (\<lambda>bufs. s\<lparr>Groups_bufs := bufs\<rparr>) (build_bufs s True [] [] (Groups_bufs s))"

definition G_stamp_groups_bufs :: "groups_state \<Rightarrow> groups_state" where
  "G_stamp_groups_bufs s =
     s\<lparr>Groups_bufs := map (\<lambda>b. put_memb_id (G_Reg_memb_id s) @ drop 8 b) (Groups_bufs s)\<rparr>"

definition G_discard_groups_bufs :: "groups_state \<Rightarrow> groups_state" where
  "G_discard_groups_bufs s = s\<lparr>Groups_bufs := []\<rparr>"

section \<open>Sending them\<close>

definition Set_endian :: "32 word \<Rightarrow> 32 word" where
  "Set_endian t = (t AND NOT ENDIAN_TYPE) OR 0x80000080"

definition G_build_groups_msg_hdr :: "groups_state \<Rightarrow> 8 word list \<Rightarrow> groups_mess" where
  "G_build_groups_msg_hdr s b =
     \<lparr>gm_type = Set_endian GROUPS_MESS, gm_proc_name = p_name (G_my s),
      gm_num_daemons = of_nat (length (MySyncedSet s)), gm_data = b\<rparr>"

text \<open>All but the last are reliable, the last one is agreed.\<close>

fun groups_messages :: "groups_state \<Rightarrow> 8 word list list \<Rightarrow> groups_mess list" where
  "groups_messages s [] = []"
| "groups_messages s (b # bs) =
     (let m = G_build_groups_msg_hdr s b
      in m\<lparr>gm_type := gm_type m OR (if bs \<noteq> [] then RELIABLE_MESS else AGREED_MESS)\<rparr> # groups_messages s bs)"

definition G_send_groups_messages :: "groups_state \<Rightarrow> groups_state" where
  "G_send_groups_messages s = g_emit (map Prot_new_message (groups_messages s (Groups_bufs s))) s"

section \<open>Reading them\<close>

text \<open>
  A message that ends before what it announces makes the reader use bytes that earlier messages
  left in its buffer; that is \<open>None\<close> here.
\<close>

text \<open>What a message says of a group: its daemons with the number of their members.\<close>

record group_part =
  pt_name :: string
  pt_grp_id :: group_id
  pt_changed :: bool
  pt_daemons :: "(daemon_members \<times> int) list"

fun read_members :: "nat \<Rightarrow> 8 word list \<Rightarrow> string list \<Rightarrow> (string list \<times> 8 word list) option" where
  "read_members 0 bs ms = Some (ms, bs)"
| "read_members (Suc n) bs ms =
     (if length bs < 32 then None
      else read_members n (drop 32 bs) (skl_put id G_compare_nameptr (get_name bs) ms))"

fun read_daemons :: "bool \<Rightarrow> nat \<Rightarrow> 8 word list \<Rightarrow> ((daemon_members \<times> int) list \<times> 8 word list) option" where
  "read_daemons same 0 bs = Some ([], bs)"
| "read_daemons same (Suc n) bs =
     (if length bs < 14 then None
      else let num_memb = flip16 same (get16 (drop 12 bs))
      in (case read_members (unat num_memb) (drop 14 bs) [] of
            None \<Rightarrow> None
          | Some (ms, bs') \<Rightarrow>
              (case read_daemons same n bs' of
                 None \<Rightarrow> None
               | Some (ds, bs'') \<Rightarrow>
                   Some ((\<lparr>dm_proc_id = flip32 same (get32 bs), dm_memb_id = get_memb_id same (drop 4 bs),
                           MembersList = ms\<rparr>, uint num_memb) # ds, bs''))))"

text \<open>A group name without a terminating null would overrun the array that it is copied to.\<close>

definition read_group :: "bool \<Rightarrow> 8 word list \<Rightarrow> (group_part \<times> 8 word list) option" where
  "read_group same bs =
     (if length bs < 48 \<or> 0 \<notin> set (take 32 bs) then None
      else (case read_daemons same (unat (flip16 same (get16 (drop 46 bs)))) (drop 48 bs) of
              None \<Rightarrow> None
            | Some (ds, bs') \<Rightarrow>
                Some (\<lparr>pt_name = get_name bs, pt_grp_id = get_grp_id same (drop 32 bs),
                       pt_changed = (get16 (drop 44 bs) \<noteq> 0), pt_daemons = ds\<rparr>, bs')))"

lemma read_members_shrinks: "read_members n bs ms = Some (r, bs') \<Longrightarrow> length bs' \<le> length bs"
  by (induction n bs ms rule: read_members.induct) (auto split: if_splits)

lemma read_daemons_shrinks: "read_daemons same n bs = Some (r, bs') \<Longrightarrow> length bs' \<le> length bs"
proof (induction same n bs arbitrary: r rule: read_daemons.induct)
  case (2 same n bs)
  then show ?case
    by (fastforce simp: Let_def split: if_splits option.splits dest: read_members_shrinks)
qed simp

lemma read_group_shrinks: "read_group same bs = Some (p, bs') \<Longrightarrow> length bs' < length bs"
  by (auto simp: read_group_def split: if_splits option.splits dest!: read_daemons_shrinks)

function read_groups :: "bool \<Rightarrow> 8 word list \<Rightarrow> group_part list option" where
  "read_groups same bs =
     (if bs = [] then Some []
      else case read_group same bs of
             None \<Rightarrow> None
           | Some (p, bs') \<Rightarrow> map_option (\<lambda>ps. p # ps) (read_groups same bs'))"
  by pat_completeness auto
termination by (relation "measure (\<lambda>(_, bs). length bs)") (auto dest: read_group_shrinks)

declare read_groups.simps [simp del]

text \<open>The synced set in a first message; \<open>None\<close> inside is a later message, which has none.\<close>

definition read_synced_set :: "bool \<Rightarrow> 8 word list \<Rightarrow> (int32u list option \<times> 8 word list) option" where
  "read_synced_set same bs =
     (if length bs < 9 then None
      else if bs ! 8 = 1
      then (if length bs < 13 then None
            else let n = unat (flip32 same (get32 (drop 9 bs)))
            in if n > nat MAX_PROCS_RING \<or> length bs < 13 + 4 * n then None
               else Some (Some (map (\<lambda>i. flip32 same (get32 (drop (13 + 4 * i) bs))) [0..<n]),
                          drop (13 + 4 * n) bs))
      else Some (None, drop 9 bs))"

text \<open>Entering the daemons of a message into a group, and a group into the list of groups.\<close>

fun add_daemons :: "configuration \<Rightarrow> (daemon_members \<times> int) list \<Rightarrow> spread_group \<Rightarrow> spread_group" where
  "add_daemons c [] g = g"
| "add_daemons c ((d, num_memb) # ds) g =
     add_daemons c ds
       (g\<lparr>DaemonsList := skl_put dm_proc_id (G_compare_proc_ids_by_conf_internal c) d (DaemonsList g),
          changed := changed g \<or> \<not> Memb_is_equal (dm_memb_id d) (gi_memb_id (grp_id g)),
          gr_num_members := gr_num_members g + num_memb\<rparr>)"

definition add_group_part :: "group_part \<Rightarrow> groups_state \<Rightarrow> groups_state" where
  "add_group_part p s =
     (let fresh = \<lparr>gr_name = pt_name p, grp_id = pt_grp_id p, changed = False, gr_num_members = 0,
                   DaemonsList = [], mboxes = []\<rparr>;
          s1 = (if G_get_group (pt_name p) (GroupsList s) = None
                then s\<lparr>GroupsList := skl_put gr_name G_compare_nameptr fresh (GroupsList s),
                       Num_groups := Num_groups s + 1\<rparr>
                else s)
      in s1\<lparr>GroupsList := skl_update gr_name G_compare_nameptr (pt_name p)
                (\<lambda>g. add_daemons (Cn_active s) (pt_daemons p) (g\<lparr>changed := changed g \<or> pt_changed p\<rparr>))
                (GroupsList s1)\<rparr>)"

definition G_mess_to_groups ::
  "groups_mess \<Rightarrow> int32u list option \<Rightarrow> groups_state \<Rightarrow> (int32u list option \<times> groups_state) option" where
  "G_mess_to_groups m sset s =
     (let same = Same_endian (gm_type m)
      in case read_synced_set same (gm_data m) of
           None \<Rightarrow> None
         | Some (found, bs) \<Rightarrow>
             (case read_groups same bs of
                None \<Rightarrow> None
              | Some ps \<Rightarrow> Some (if found = None then sset else found, fold add_group_part ps s)))"

end
