(* ===== verification/GroupsOps.thy ===== *)
theory GroupsOps
  imports GroupsBufs
begin

text \<open>
  The operations of \<open>daemon/groups.c\<close> that change the groups: members that join, leave or are
  disconnected, daemons that are partitioned and eliminated, synced sets, and the choice of the
  sessions that a message goes to. A loop over the list of groups is \<open>update_groups\<close>; its step
  gives the changed group, or \<open>None\<close> for a group that is discarded, and what was sent.
\<close>

section \<open>Groups and their daemons\<close>

abbreviation daemon_order :: "groups_state \<Rightarrow> int32u \<Rightarrow> int32u \<Rightarrow> int" where
  "daemon_order s \<equiv> G_compare_proc_ids_by_conf_internal (Cn_active s)"

definition set_group :: "spread_group \<Rightarrow> groups_state \<Rightarrow> groups_state" where
  "set_group g s = s\<lparr>GroupsList := skl_update gr_name G_compare_nameptr (gr_name g) (\<lambda>_. g) (GroupsList s)\<rparr>"

text \<open>The assertions of \<open>G_remove_group\<close> on the group that it takes off the list.\<close>

definition removable :: "spread_group \<Rightarrow> bool" where
  "removable g \<longleftrightarrow> DaemonsList g = [] \<and> mboxes g = []"

fun for_groups ::
  "(spread_group \<Rightarrow> (spread_group option \<times> group_action list) option) \<Rightarrow> spread_group list \<Rightarrow>
     (spread_group list \<times> group_action list) option" where
  "for_groups step [] = Some ([], [])"
| "for_groups step (g # gs) =
     (case step g of
        None \<Rightarrow> None
      | Some (r, acts) \<Rightarrow>
          (case for_groups step gs of
             None \<Rightarrow> None
           | Some (gs', acts') \<Rightarrow> Some ((case r of None \<Rightarrow> gs' | Some g' \<Rightarrow> g' # gs'), acts @ acts')))"

definition update_groups ::
  "(spread_group \<Rightarrow> (spread_group option \<times> group_action list) option) \<Rightarrow> groups_state \<Rightarrow> groups_state option" where
  "update_groups step s =
     (case for_groups step (GroupsList s) of
        None \<Rightarrow> None
      | Some (gs, acts) \<Rightarrow>
          Some (g_emit acts
            (s\<lparr>GroupsList := gs,
               Num_groups := Num_groups s - (int (length (GroupsList s)) - int (length gs))\<rparr>)))"

definition G_remove_daemon :: "configuration \<Rightarrow> int32u \<Rightarrow> spread_group \<Rightarrow> spread_group option" where
  "G_remove_daemon c i g =
     (case G_get_daemon c g i of
        None \<Rightarrow> None
      | Some d \<Rightarrow>
          Some (g\<lparr>DaemonsList := skl_erase dm_proc_id (G_compare_proc_ids_by_conf_internal c) i (DaemonsList g),
                  gr_num_members := gr_num_members g - int (length (MembersList d))\<rparr>))"

fun eliminate_daemons ::
  "configuration \<Rightarrow> (daemon_members \<Rightarrow> bool) \<Rightarrow> daemon_members list \<Rightarrow> spread_group \<Rightarrow> bool \<Rightarrow>
     (spread_group \<times> bool) option" where
  "eliminate_daemons c needed [] g group_changed = Some (g, group_changed)"
| "eliminate_daemons c needed (d # ds) g group_changed =
     (if needed d
      then (case G_remove_daemon c (dm_proc_id d) g of
              None \<Rightarrow> None
            | Some g' \<Rightarrow> eliminate_daemons c needed ds g' True)
      else eliminate_daemons c needed ds g group_changed)"

definition outside_trans :: "groups_state \<Rightarrow> daemon_members \<Rightarrow> bool" where
  "outside_trans s d \<longleftrightarrow> Conf_id_in_conf (G_Trans_memb s) (dm_proc_id d) = -1"

definition G_eliminate_partitioned_daemons_status ::
  "groups_state \<Rightarrow> spread_group \<Rightarrow> (spread_group \<times> bool) option" where
  "G_eliminate_partitioned_daemons_status s g =
     eliminate_daemons (Cn_active s)
       (\<lambda>d. if G_state s = GGT then outside_trans s d else Is_partitioned_daemon d) (DaemonsList g) g False"

definition G_check_if_changed_by_cascade :: "groups_state \<Rightarrow> spread_group \<Rightarrow> bool" where
  "G_check_if_changed_by_cascade s g \<longleftrightarrow> list_ex (outside_trans s) (DaemonsList g)"

definition G_update_daemon_memb_ids :: "spread_group \<Rightarrow> spread_group" where
  "G_update_daemon_memb_ids g =
     g\<lparr>DaemonsList := map (\<lambda>d. if Is_established_daemon d then d\<lparr>dm_memb_id := gi_memb_id (grp_id g)\<rparr> else d)
                         (DaemonsList g)\<rparr>"

text \<open>The last mailbox takes the place of the one removed.\<close>

definition G_remove_mailbox :: "int \<Rightarrow> spread_group \<Rightarrow> spread_group option" where
  "G_remove_mailbox m g =
     (let i = index_of (\<lambda>b. b = m) (mboxes g)
      in if i < 0 then None else Some (g\<lparr>mboxes := butlast ((mboxes g)[nat i := last (mboxes g)])\<rparr>))"

definition G_get_num_local :: "string \<Rightarrow> groups_state \<Rightarrow> int" where
  "G_get_num_local nm s = (case G_get_group nm (GroupsList s) of None \<Rightarrow> 0 | Some g \<Rightarrow> int (length (mboxes g)))"

section \<open>Synced sets\<close>

definition G_update_synced_set_status :: "configuration \<Rightarrow> int32u list \<Rightarrow> int32u list \<times> bool" where
  "G_update_synced_set_status c ids =
     (let ids' = filter (\<lambda>i. Conf_id_in_conf c i \<ge> 0) ids in (ids', length ids' \<noteq> length ids))"

definition G_update_synced_set :: "configuration \<Rightarrow> int32u list \<Rightarrow> int32u list" where
  "G_update_synced_set c ids = fst (G_update_synced_set_status c ids)"

text \<open>Two sets that are sorted by the configuration are merged; they must not share a process.\<close>

fun merge_synced :: "configuration \<Rightarrow> int32u list \<Rightarrow> int32u list \<Rightarrow> int32u list option" where
  "merge_synced c [] [] = Some []"
| "merge_synced c (l # ls) [] =
     (if fst (Conf_proc_by_id_in_conf c l) = -1 then None
      else map_option (\<lambda>t. l # t) (merge_synced c ls []))"
| "merge_synced c [] (r # rs) =
     (if fst (Conf_proc_by_id_in_conf c r) = -1 then None
      else map_option (\<lambda>t. r # t) (merge_synced c [] rs))"
| "merge_synced c (l # ls) (r # rs) =
     (let index_l = fst (Conf_proc_by_id_in_conf c l); index_r = fst (Conf_proc_by_id_in_conf c r)
      in if index_l = -1 \<or> index_r = -1 then None
         else if index_l < index_r then map_option (\<lambda>t. l # t) (merge_synced c ls (r # rs))
         else if index_r < index_l then map_option (\<lambda>t. r # t) (merge_synced c (l # ls) rs)
         else None)"

definition G_add_to_synced_set :: "int32u list option \<Rightarrow> groups_state \<Rightarrow> groups_state option" where
  "G_add_to_synced_set sset s =
     (case sset of
        None \<Rightarrow> None
      | Some rs \<Rightarrow>
          (case merge_synced (G_conf s) (MySyncedSet s) rs of
             None \<Rightarrow> None
           | Some t \<Rightarrow> if int (length t) > MAX_PROCS_RING then None else Some (s\<lparr>MySyncedSet := t\<rparr>)))"

section \<open>Joining\<close>

definition new_group :: "groups_state \<Rightarrow> string \<Rightarrow> spread_group" where
  "new_group s nm =
     \<lparr>gr_name = nm,
      grp_id = \<lparr>gi_memb_id = (if G_state s = GOP then G_Reg_memb_id s else G_Trans_memb_id s), gi_index = 0\<rparr>,
      changed = False, gr_num_members = 0, DaemonsList = [], mboxes = []\<rparr>"

definition new_daemon :: "groups_state \<Rightarrow> spread_group \<Rightarrow> int32u \<Rightarrow> daemon_members" where
  "new_daemon s g i =
     \<lparr>dm_proc_id = i,
      dm_memb_id = (if G_state s = GOP \<or> Conf_id_in_conf (G_Trans_memb s) i \<noteq> -1
                    then gi_memb_id (grp_id g) else unknown_memb_id),
      MembersList = []\<rparr>"

definition get_or_add_daemon :: "groups_state \<Rightarrow> int32u \<Rightarrow> spread_group \<Rightarrow> daemon_members \<times> spread_group" where
  "get_or_add_daemon s i g =
     (case G_get_daemon (Cn_active s) g i of
        Some d \<Rightarrow> (d, g)
      | None \<Rightarrow> (new_daemon s g i,
                 g\<lparr>DaemonsList := skl_put dm_proc_id (daemon_order s) (new_daemon s g i) (DaemonsList g)\<rparr>))"

definition insert_member :: "groups_state \<Rightarrow> int32u \<Rightarrow> string \<Rightarrow> spread_group \<Rightarrow> spread_group" where
  "insert_member s i nm g =
     g\<lparr>DaemonsList := skl_update dm_proc_id (daemon_order s) i
           (\<lambda>d. d\<lparr>MembersList := skl_put id G_compare_nameptr nm (MembersList d)\<rparr>) (DaemonsList g),
       gr_num_members := gr_num_members g + 1,
       grp_id := (grp_id g)\<lparr>gi_index := gi_index (grp_id g) + 1\<rparr>\<rparr>"

definition notify_join ::
  "groups_state \<Rightarrow> string \<Rightarrow> int \<Rightarrow> spread_group \<Rightarrow> group_action list option" where
  "notify_join s nm new_mbox g =
     (if mboxes g = [] then Some []
      else if changed g
      then (case G_send_heavyweight_join s g (Some nm) new_mbox of
              None \<Rightarrow> None
            | Some acts \<Rightarrow> map_option (\<lambda>acts'. acts @ acts') (G_send_trans_memb s g))
      else G_send_lightweight_memb s g CAUSED_BY_JOIN nm)"

text \<open>The group with its new member, in its daemon \<open>d\<close>.\<close>

definition joined_group ::
  "groups_state \<Rightarrow> int32u \<Rightarrow> string \<Rightarrow> int \<Rightarrow> daemon_members \<Rightarrow> spread_group \<Rightarrow> spread_group" where
  "joined_group s i nm new_mbox d g =
     (let g2 = insert_member s i nm g;
          g3 = (if i = p_id (G_my s) then g2\<lparr>mboxes := mboxes g2 @ [new_mbox]\<rparr> else g2)
      in if Is_partitioned_daemon d \<and> \<not> changed g3 then g3\<lparr>changed := True\<rparr> else g3)"

text \<open>The group after the join; a member that is already there changes nothing.\<close>

definition join_member ::
  "groups_state \<Rightarrow> int32u \<Rightarrow> string \<Rightarrow> string \<Rightarrow> spread_group \<Rightarrow> (spread_group \<times> group_action list) option" where
  "join_member s i nm private_name g =
     (case get_or_add_daemon s i g of (d, g1) \<Rightarrow>
        if G_get_member d nm \<noteq> None then Some (g1, [])
        else
          (case (if i = p_id (G_my s)
                 then map_option ses_mbox (Sess_get_session private_name (Sessions s)) else Some (-1)) of
             None \<Rightarrow> None
           | Some new_mbox \<Rightarrow>
               map_option (\<lambda>acts. (joined_group s i nm new_mbox d g1, acts))
                 (notify_join s nm new_mbox (joined_group s i nm new_mbox d g1))))"

definition get_or_add_group :: "groups_state \<Rightarrow> string \<Rightarrow> spread_group \<times> groups_state" where
  "get_or_add_group s nm =
     (case G_get_group nm (GroupsList s) of
        Some g \<Rightarrow> (g, s)
      | None \<Rightarrow> (new_group s nm,
                 s\<lparr>GroupsList := skl_put gr_name G_compare_nameptr (new_group s nm) (GroupsList s),
                   Num_groups := Num_groups s + 1\<rparr>))"

text \<open>
  The result of \<open>G_private_to_names\<close> is not checked; for an illegal name the process name that is
  looked up next is not initialised.
\<close>

definition G_handle_join :: "string \<Rightarrow> string \<Rightarrow> groups_state \<Rightarrow> groups_state option" where
  "G_handle_join nm group_name s =
     (if G_state s = GGATHER \<or> G_state s = GGT then None
      else case G_private_to_names nm of
        None \<Rightarrow> None
      | Some (private_name, proc_name) \<Rightarrow>
          (case snd (Conf_proc_by_name_in_conf (G_conf s) proc_name) of
             None \<Rightarrow> Some s
           | Some p \<Rightarrow>
               (case get_or_add_group s group_name of (g, s1) \<Rightarrow>
                  (case join_member s1 (p_id p) nm private_name g of
                     None \<Rightarrow> None
                   | Some (g', acts) \<Rightarrow> Some (g_emit acts (set_group g' s1))))))"

section \<open>Leaving and disconnecting\<close>

text \<open>A member is taken out of its daemon, and the daemon out of the group when it is empty.\<close>

definition drop_member :: "configuration \<Rightarrow> int32u \<Rightarrow> string \<Rightarrow> spread_group \<Rightarrow> spread_group option" where
  "drop_member c i nm g =
     (let g1 = g\<lparr>DaemonsList := skl_update dm_proc_id (G_compare_proc_ids_by_conf_internal c) i
                    (\<lambda>d. d\<lparr>MembersList := skl_erase id G_compare_nameptr nm (MembersList d)\<rparr>) (DaemonsList g),
                 gr_num_members := gr_num_members g - 1\<rparr>
      in case G_get_daemon c g1 i of
           None \<Rightarrow> None
         | Some d \<Rightarrow> if MembersList d = [] then G_remove_daemon c i g1 else Some g1)"

definition notify_departure ::
  "groups_state \<Rightarrow> 32 word \<Rightarrow> string \<Rightarrow> spread_group \<Rightarrow> group_action list option" where
  "notify_departure s caused nm g =
     (if mboxes g = [] then Some []
      else if changed g
      then (case G_send_heavyweight_memb s g of
              None \<Rightarrow> None
            | Some acts \<Rightarrow> map_option (\<lambda>acts'. acts @ acts') (G_send_trans_memb s g))
      else G_send_lightweight_memb s g caused nm)"

definition depart ::
  "groups_state \<Rightarrow> int32u \<Rightarrow> string \<Rightarrow> 32 word \<Rightarrow> spread_group \<Rightarrow>
     (spread_group option \<times> group_action list) option" where
  "depart s i nm caused g =
     (case drop_member (Cn_active s) i nm g of
        None \<Rightarrow> None
      | Some g1 \<Rightarrow>
          if gr_num_members g1 = 0 then (if removable g1 then Some (None, []) else None)
          else
            let g2 = g1\<lparr>grp_id := (grp_id g1)\<lparr>gi_index := gi_index (grp_id g1) + 1\<rparr>\<rparr>
            in map_option (\<lambda>acts. (Some g2, acts)) (notify_departure s caused nm g2))"

definition is_member :: "groups_state \<Rightarrow> int32u \<Rightarrow> string \<Rightarrow> spread_group \<Rightarrow> bool" where
  "is_member s i nm g \<longleftrightarrow>
     (case G_get_daemon (Cn_active s) g i of None \<Rightarrow> False | Some d \<Rightarrow> G_get_member d nm \<noteq> None)"

definition leave_group ::
  "groups_state \<Rightarrow> int32u \<Rightarrow> string \<Rightarrow> string \<Rightarrow> spread_group \<Rightarrow>
     (spread_group option \<times> group_action list) option" where
  "leave_group s i nm private_name g =
     (if i = p_id (G_my s)
      then (case Sess_get_session private_name (Sessions s) of
              None \<Rightarrow> None
            | Some x \<Rightarrow>
                (case G_remove_mailbox (ses_mbox x) g of
                   None \<Rightarrow> None
                 | Some g1 \<Rightarrow>
                     map_option (\<lambda>(r, acts). (r, G_send_self_leave g x @ acts))
                       (depart s i nm CAUSED_BY_LEAVE g1)))
      else depart s i nm CAUSED_BY_LEAVE g)"

definition G_handle_leave :: "string \<Rightarrow> string \<Rightarrow> groups_state \<Rightarrow> groups_state option" where
  "G_handle_leave nm group_name s =
     (if G_state s = GGATHER \<or> G_state s = GGT then None
      else case G_private_to_names nm of
        None \<Rightarrow> None
      | Some (private_name, proc_name) \<Rightarrow>
          (case snd (Conf_proc_by_name_in_conf (G_conf s) proc_name) of
             None \<Rightarrow> Some s
           | Some p \<Rightarrow>
               (case G_get_group group_name (GroupsList s) of
                  None \<Rightarrow> Some s
                | Some g \<Rightarrow>
                    if \<not> is_member s (p_id p) nm g then Some s
                    else (case leave_group s (p_id p) nm private_name g of
                            None \<Rightarrow> None
                          | Some (None, acts) \<Rightarrow>
                              Some (g_emit acts
                                (s\<lparr>GroupsList := skl_erase gr_name G_compare_nameptr group_name (GroupsList s),
                                   Num_groups := Num_groups s - 1\<rparr>))
                          | Some (Some g', acts) \<Rightarrow> Some (g_emit acts (set_group g' s))))))"

definition kill_step ::
  "groups_state \<Rightarrow> int32u \<Rightarrow> string \<Rightarrow> string \<Rightarrow> spread_group \<Rightarrow>
     (spread_group option \<times> group_action list) option" where
  "kill_step s i nm private_name g =
     (if \<not> is_member s i nm g then Some (Some g, [])
      else if i = p_id (G_my s)
      then (case Sess_get_session private_name (Sessions s) of
              None \<Rightarrow> None
            | Some x \<Rightarrow>
                (case G_remove_mailbox (ses_mbox x) g of
                   None \<Rightarrow> None
                 | Some g1 \<Rightarrow> depart s i nm CAUSED_BY_DISCONNECT g1))
      else depart s i nm CAUSED_BY_DISCONNECT g)"

definition G_handle_kill :: "string \<Rightarrow> groups_state \<Rightarrow> groups_state option" where
  "G_handle_kill nm s =
     (if G_state s = GGATHER \<or> G_state s = GGT then None
      else case G_private_to_names nm of
        None \<Rightarrow> None
      | Some (private_name, proc_name) \<Rightarrow>
          (case snd (Conf_proc_by_name_in_conf (G_conf s) proc_name) of
             None \<Rightarrow> Some s
           | Some p \<Rightarrow> update_groups (kill_step s (p_id p) nm private_name) s))"

end
