(* ===== verification/GroupsHandlers.thy ===== *)
theory GroupsHandlers
  imports GroupsOps
begin

text \<open>
  The memberships of the daemons in \<open>daemon/groups.c\<close>: transitional and regular memberships, the
  groups messages of the other synced sets, the reload of the configuration, and the targets of
  a message. The state machine goes from GOP over GTRANS and GGATHER, with GGT when another
  transitional membership comes before the groups messages are complete.
\<close>

section \<open>Transitional memberships\<close>

definition mark_partitioned :: "groups_state \<Rightarrow> spread_group \<Rightarrow> spread_group" where
  "mark_partitioned s g =
     g\<lparr>DaemonsList := map (\<lambda>d. if outside_trans s d then d\<lparr>dm_memb_id := unknown_memb_id\<rparr> else d) (DaemonsList g)\<rparr>"

definition trans_step :: "groups_state \<Rightarrow> spread_group \<Rightarrow> (spread_group option \<times> group_action list) option" where
  "trans_step s g =
     (if \<not> list_ex (outside_trans s) (DaemonsList g) then Some (Some g, [])
      else
        let g1 = mark_partitioned s g;
            g2 = g1\<lparr>grp_id := \<lparr>gi_memb_id = G_Trans_memb_id s, gi_index = 1\<rparr>, changed := True\<rparr>
        in map_option (\<lambda>acts. (Some (G_update_daemon_memb_ids g2), acts))
             (if mboxes g1 \<noteq> [] then G_send_trans_memb s g1 else Some []))"

definition cascade_step :: "groups_state \<Rightarrow> spread_group \<Rightarrow> (spread_group option \<times> group_action list) option" where
  "cascade_step s g =
     Some (Some (if G_check_if_changed_by_cascade s g then g\<lparr>changed := True\<rparr> else g), [])"

definition G_handle_trans_memb :: "configuration \<Rightarrow> membership_id \<Rightarrow> groups_state \<Rightarrow> groups_state option" where
  "G_handle_trans_memb trans_memb trans_memb_id s =
     (let s1 = s\<lparr>G_Trans_memb := trans_memb, G_Trans_memb_id := trans_memb_id\<rparr>
      in case G_state s of
           GOP \<Rightarrow>
             map_option (\<lambda>t. t\<lparr>G_state := GTRANS, MySyncedSet := G_update_synced_set trans_memb (MySyncedSet t)\<rparr>)
               (update_groups (trans_step s1) s1)
         | GGATHER \<Rightarrow> map_option (\<lambda>t. t\<lparr>G_state := GGT\<rparr>) (update_groups (cascade_step s1) s1)
         | GTRANS \<Rightarrow> None
         | GGT \<Rightarrow> None)"

section \<open>Regular memberships\<close>

text \<open>Without state transfer: the changed groups lose their partitioned daemons and get a new id.\<close>

definition settle_step :: "groups_state \<Rightarrow> spread_group \<Rightarrow> (spread_group option \<times> group_action list) option" where
  "settle_step s g =
     (if \<not> changed g then Some (Some g, [])
      else case G_eliminate_partitioned_daemons_status s g of
        None \<Rightarrow> None
      | Some (g1, _) \<Rightarrow>
          if gr_num_members g1 = 0 then (if removable g1 then Some (None, []) else None)
          else
            let g2 = G_update_daemon_memb_ids
                       (g1\<lparr>grp_id := \<lparr>gi_memb_id = G_Reg_memb_id s, gi_index = 1\<rparr>, changed := False\<rparr>)
            in map_option (\<lambda>acts. (Some g2, acts))
                 (if mboxes g2 \<noteq> [] then G_send_heavyweight_memb s g2 else Some []))"

definition eliminate_step :: "groups_state \<Rightarrow> spread_group \<Rightarrow> (spread_group option \<times> group_action list) option" where
  "eliminate_step s g =
     (if \<not> changed g then Some (Some g, [])
      else case G_eliminate_partitioned_daemons_status s g of
        None \<Rightarrow> None
      | Some (g1, _) \<Rightarrow>
          if gr_num_members g1 = 0 then (if removable g1 then Some (None, []) else None)
          else Some (Some g1, []))"

definition cascade_eliminate_step ::
  "groups_state \<Rightarrow> spread_group \<Rightarrow> (spread_group option \<times> group_action list) option" where
  "cascade_eliminate_step s g =
     (case G_eliminate_partitioned_daemons_status s g of
        None \<Rightarrow> None
      | Some (g1, group_changed) \<Rightarrow>
          if \<not> group_changed then Some (Some g1, [])
          else if gr_num_members g1 = 0 then (if removable g1 then Some (None, []) else None)
          else Some (Some (g1\<lparr>changed := True\<rparr>), []))"

definition Is_synced_set_leader :: "int32u \<Rightarrow> groups_state \<Rightarrow> bool option" where
  "Is_synced_set_leader i s = (case MySyncedSet s of [] \<Rightarrow> None | j # _ \<Rightarrow> Some (i = j))"

text \<open>The groups messages of a synced set, and of all sets that are gathered.\<close>

fun link_to_groups ::
  "groups_mess list \<Rightarrow> int32u list option \<Rightarrow> groups_state \<Rightarrow> (int32u list option \<times> groups_state) option" where
  "link_to_groups [] sset s = Some (sset, s)"
| "link_to_groups (m # ms) sset s =
     (case G_mess_to_groups m sset s of
        None \<Rightarrow> None
      | Some (sset', s') \<Rightarrow> link_to_groups ms sset' s')"

text \<open>\<open>take\<close> tells whether the messages of a set are used; all of them are disposed of.\<close>

fun links_to_groups ::
  "(groups_message_link \<Rightarrow> bool) \<Rightarrow> groups_message_link list \<Rightarrow> int32u list option \<Rightarrow> groups_state \<Rightarrow>
     groups_state option" where
  "links_to_groups take_it [] sset s = Some (s\<lparr>Gathered := []\<rparr>)"
| "links_to_groups take_it (l # ls) sset s =
     (if take_it l
      then (case link_to_groups (gl_messages l) sset s of
              None \<Rightarrow> None
            | Some (sset', s1) \<Rightarrow>
                (case G_add_to_synced_set sset'
                        (if gl_messages l = [] then s1 else s1\<lparr>Groups_bufs_fresh := False\<rparr>) of
                   None \<Rightarrow> None
                 | Some s2 \<Rightarrow> links_to_groups take_it ls sset' s2))
      else links_to_groups take_it ls sset s)"

definition reset_gathering :: "groups_state \<Rightarrow> groups_state" where
  "reset_gathering s = s\<lparr>Gathered_complete := False, Num_mess_gathered := 0, Num_daemons_gathered := 0\<rparr>"

text \<open>The leader of a synced set sends its groups messages, from new buffers or the old ones.\<close>

definition rebuild_groups_bufs :: "groups_state \<Rightarrow> groups_state option" where
  "rebuild_groups_bufs s = map_option (\<lambda>t. t\<lparr>Groups_bufs_fresh := True\<rparr>) (G_build_new_groups_bufs s)"

definition refresh_groups_bufs :: "groups_state \<Rightarrow> groups_state option" where
  "refresh_groups_bufs s =
     (if Groups_bufs_fresh s then Some (G_stamp_groups_bufs s)
      else rebuild_groups_bufs (G_discard_groups_bufs s))"

definition leader_sends ::
  "(groups_state \<Rightarrow> groups_state option) \<Rightarrow> groups_state \<Rightarrow> groups_state option" where
  "leader_sends prepare s =
     (case Is_synced_set_leader (p_id (G_my s)) s of
        None \<Rightarrow> None
      | Some True \<Rightarrow> map_option G_send_groups_messages (prepare s)
      | Some False \<Rightarrow> Some s)"

definition start_gathering :: "groups_state \<Rightarrow> groups_state option" where
  "start_gathering s =
     (case update_groups (eliminate_step s) s of
        None \<Rightarrow> None
      | Some s1 \<Rightarrow>
          map_option (\<lambda>t. t\<lparr>G_state := GGATHER\<rparr>)
            (leader_sends rebuild_groups_bufs
               (g_emit [Session_threshold MEDIUM_PRIORITY, Prot_set_down_queue GROUPS_DOWNQUEUE,
                        Prot_set_delivery_threshold AGREED_TYPE] s1)))"

definition restart_gathering :: "groups_state \<Rightarrow> groups_state option" where
  "restart_gathering s =
     (case links_to_groups (\<lambda>l. Gathered_complete s \<and> gl_complete l) (Gathered s) None s of
        None \<Rightarrow> None
      | Some s1 \<Rightarrow>
          (case for_groups (cascade_eliminate_step s1) (GroupsList s1) of
             None \<Rightarrow> None
           | Some (gs, _) \<Rightarrow>
               let group_changed = list_ex (\<lambda>g. list_ex (outside_trans s1) (DaemonsList g)) (GroupsList s1);
                   s2 = s1\<lparr>GroupsList := gs,
                           Num_groups := Num_groups s1 - (int (length (GroupsList s1)) - int (length gs))\<rparr>
               in (case G_update_synced_set_status (G_Trans_memb s2) (MySyncedSet s2) of
                     (ids, synced_set_changed) \<Rightarrow>
                       map_option (\<lambda>t. t\<lparr>G_state := GGATHER\<rparr>)
                         (leader_sends refresh_groups_bufs
                            (reset_gathering
                               (s2\<lparr>MySyncedSet := ids,
                                   Groups_bufs_fresh := Groups_bufs_fresh s2 \<and> \<not> group_changed \<and> \<not> synced_set_changed\<rparr>))))))"

definition G_handle_reg_memb :: "configuration \<Rightarrow> membership_id \<Rightarrow> groups_state \<Rightarrow> groups_state option" where
  "G_handle_reg_memb reg_memb reg_memb_id s =
     (let s1 = s\<lparr>G_Reg_memb := reg_memb, G_Reg_memb_id := reg_memb_id\<rparr>
      in case G_state s of
           GOP \<Rightarrow> None
         | GTRANS \<Rightarrow>
             if Conf_num_procs (G_Trans_memb s1) = Conf_num_procs (G_Reg_memb s1)
             then map_option G_shift_to_GOP (update_groups (settle_step s1) s1)
             else start_gathering s1
         | GGATHER \<Rightarrow> None
         | GGT \<Rightarrow> restart_gathering s1)"

section \<open>Groups messages\<close>

definition notify_step :: "groups_state \<Rightarrow> spread_group \<Rightarrow> (spread_group option \<times> group_action list) option" where
  "notify_step s g =
     (if \<not> changed g then Some (Some g, [])
      else
        let g1 = g\<lparr>grp_id := \<lparr>gi_memb_id = G_Reg_memb_id s, gi_index = 1\<rparr>, changed := False\<rparr>
        in map_option (\<lambda>acts. (Some (G_update_daemon_memb_ids g1), acts))
             (if mboxes g1 \<noteq> [] then G_send_heavyweight_memb s g1 else Some []))"

definition G_compute_and_notify :: "groups_state \<Rightarrow> groups_state option" where
  "G_compute_and_notify s =
     (case links_to_groups (\<lambda>_. True) (Gathered s) None s of
        None \<Rightarrow> None
      | Some s1 \<Rightarrow>
          map_option (\<lambda>t. (G_discard_groups_bufs (reset_gathering t))\<lparr>Groups_bufs_fresh := False\<rparr>)
            (update_groups (notify_step s1) s1))"

text \<open>The link of the sender gets the message in front; \<open>complete\<close> marks the last one of a set.\<close>

fun add_to_link :: "int32u \<Rightarrow> groups_mess \<Rightarrow> bool \<Rightarrow> groups_message_link list \<Rightarrow> groups_message_link list option" where
  "add_to_link i m complete [] = None"
| "add_to_link i m complete (l # ls) =
     (if rep_proc_id l = i
      then Some (l\<lparr>gl_messages := m # gl_messages l, gl_complete := gl_complete l \<or> complete\<rparr> # ls)
      else map_option (\<lambda>ls'. l # ls') (add_to_link i m complete ls))"

definition gather_message :: "int32u \<Rightarrow> groups_mess \<Rightarrow> bool \<Rightarrow> groups_message_link list \<Rightarrow> groups_message_link list" where
  "gather_message i m complete ls =
     (case add_to_link i m complete ls of
        Some ls' \<Rightarrow> ls'
      | None \<Rightarrow> \<lparr>rep_proc_id = i, gl_complete = complete, gl_messages = [m]\<rparr> # ls)"

definition finish_gathering :: "groups_state \<Rightarrow> groups_state option" where
  "finish_gathering s =
     (case G_compute_and_notify (g_emit [Prot_set_down_queue NORMAL_DOWNQUEUE, Session_threshold LOW_PRIORITY] s) of
        None \<Rightarrow> None
      | Some s1 \<Rightarrow>
          if G_state s1 = GGATHER then Some (G_shift_to_GOP s1)
          else G_handle_trans_memb (G_Trans_memb s1) (G_Trans_memb_id s1) (G_shift_to_GOP s1))"

text \<open>A message is kept with those of its sender, unless it comes from the own leader, and counted.\<close>

definition gathered :: "groups_mess \<Rightarrow> int32u \<Rightarrow> bool \<Rightarrow> groups_state \<Rightarrow> groups_state" where
  "gathered m i own s =
     (let agreed = Is_type AGREED_MESS (gm_type m);
          num = (if agreed then sint (flip32 (Same_endian (gm_type m)) (gm_num_daemons m)) else 0);
          s1 = (if own then s\<lparr>Gathered_complete := Gathered_complete s \<or> agreed\<rparr>
                else s\<lparr>Gathered := gather_message i m agreed (Gathered s)\<rparr>)
      in s1\<lparr>Num_mess_gathered := Num_mess_gathered s1 + 1,
            Num_daemons_gathered := Num_daemons_gathered s1 + num\<rparr>)"

definition G_handle_groups :: "groups_mess \<Rightarrow> groups_state \<Rightarrow> groups_state option" where
  "G_handle_groups m s =
     (if G_state s = GOP \<or> G_state s = GTRANS \<or> length (gm_data m) < 8 then None
      else if \<not> Memb_is_equal (get_memb_id (Same_endian (gm_type m)) (gm_data m)) (G_Reg_memb_id s) then Some s
      else case snd (Conf_proc_by_name_in_conf (G_conf s) (gm_proc_name m)) of
        None \<Rightarrow> Some s
      | Some p \<Rightarrow>
          (case Is_synced_set_leader (p_id p) s of
             None \<Rightarrow> None
           | Some own \<Rightarrow>
               let s2 = gathered m (p_id p) own s
               in if Num_daemons_gathered s2 \<noteq> Conf_num_procs (G_Reg_memb s2) then Some s2
                  else finish_gathering s2))"

section \<open>Start and reload\<close>

definition G_init :: "configuration \<Rightarrow> proc \<Rightarrow> groups_state \<Rightarrow> groups_state" where
  "G_init c my s = G_shift_to_GOP
     (s\<lparr>G_conf := c, G_my := my, Cn_active := c, Num_groups := 0, GroupsList := [], MySyncedSet := [p_id my],
        Groups_bufs := [], Groups_bufs_fresh := False, Num_mess_gathered := 0, Num_daemons_gathered := 0,
        Gathered_complete := False, Gathered := []\<rparr>)"

text \<open>
  The daemons of every group move into a temporary list in the order of the new configuration
  and, when that has become the active one, back into a list of their group.
\<close>

definition resort_daemons :: "configuration \<Rightarrow> spread_group \<Rightarrow> spread_group" where
  "resort_daemons c g =
     (let tmp = skl_put_seq dm_proc_id (G_compare_proc_ids_by_conf_internal c) (DaemonsList g) []
      in g\<lparr>DaemonsList := skl_put_seq dm_proc_id (G_compare_proc_ids_by_conf_internal c) tmp []\<rparr>)"

definition G_signal_conf_reload :: "groups_state \<Rightarrow> groups_state" where
  "G_signal_conf_reload s =
     s\<lparr>Cn_active := G_conf s, GroupsList := map (resort_daemons (G_conf s)) (GroupsList s)\<rparr>"

section \<open>The targets of a message\<close>

text \<open>
  The mailboxes of one target: those of the group, or of the session that a private group names.
  The inner \<open>None\<close> is the \<open>continue\<close> of the loop.
\<close>

definition target_mboxes :: "groups_state \<Rightarrow> string \<Rightarrow> int list option option" where
  "target_mboxes s nm =
     (if nm = [] \<or> hd nm \<noteq> CHR ''#''
      then (case G_get_group nm (GroupsList s) of
              None \<Rightarrow> Some None
            | Some g \<Rightarrow> if G_state s = GOP \<or> G_state s = GTRANS then Some (Some (mboxes g)) else None)
      else
        (case G_private_to_names nm of
           None \<Rightarrow> Some None
         | Some (private_name, proc_name) \<Rightarrow>
             if p_name (G_my s) \<noteq> proc_name then Some None
             else Some (map_option (\<lambda>x. [ses_mbox x]) (Sess_get_session private_name (Sessions s)))))"

text \<open>The first mailboxes are taken as they are; of the others those that are not there yet.\<close>

definition add_targets :: "int list \<Rightarrow> int list \<Rightarrow> int list" where
  "add_targets big lit = (if big \<noteq> [] then big @ filter (\<lambda>m. m \<notin> set big) lit else lit)"

fun collect_targets :: "groups_state \<Rightarrow> string list \<Rightarrow> int list \<Rightarrow> int list option" where
  "collect_targets s [] big = Some big"
| "collect_targets s (nm # nms) big =
     (case target_mboxes s nm of
        None \<Rightarrow> None
      | Some None \<Rightarrow> collect_targets s nms big
      | Some (Some lit) \<Rightarrow> collect_targets s nms (add_targets big lit))"

definition G_analize_groups :: "string list \<Rightarrow> groups_state \<Rightarrow> session option list option" where
  "G_analize_groups nms s =
     map_option (map (\<lambda>m. Sess_get_session_index m (Sessions s)))
       (case nms of
          [nm] \<Rightarrow> map_option (\<lambda>r. case r of None \<Rightarrow> [] | Some lit \<Rightarrow> lit) (target_mboxes s nm)
        | _ \<Rightarrow> collect_targets s nms [])"

end
