(* ===== verification/GroupsInv.thy ===== *)
theory GroupsInv
  imports GroupsHandlers "HOL-Library.Multiset"
begin

text \<open>
  What holds of the lists of groups between the operations of \<open>daemon/groups.c\<close>: the lists are
  in order and have no empty entries, the counters count, and the mailboxes of a group are those
  of its local members. The lemmas say what each operation on one group does to this.
\<close>

section \<open>Splitting the lists\<close>

lemma find_daemon_split:
  assumes "skl_sorted dm_proc_id (G_compare_proc_ids_by_conf_internal c) (DaemonsList g)"
    and "G_get_daemon c g i = Some d"
  obtains us vs where "DaemonsList g = us @ d # vs" "dm_proc_id d = i"
    "\<forall>u \<in> set us \<union> set vs. dm_proc_id u \<noteq> i"
  using proc_ids.skl_find_split [OF assms(1) assms(2) [unfolded G_get_daemon_def]] by auto

lemma put_daemon_split:
  assumes "G_get_daemon c g (dm_proc_id d) = None"
  obtains us vs where "DaemonsList g = us @ vs"
    "skl_put dm_proc_id (G_compare_proc_ids_by_conf_internal c) d (DaemonsList g) = us @ d # vs"
  using proc_ids.skl_put_split [OF assms [unfolded G_get_daemon_def]] .

lemma update_daemon_split:
  assumes "\<forall>u \<in> set us \<union> set vs. dm_proc_id u \<noteq> dm_proc_id d"
  shows "skl_update dm_proc_id (G_compare_proc_ids_by_conf_internal c) (dm_proc_id d) f (us @ d # vs) = us @ f d # vs"
  using assms by (intro skl_update_split) auto

lemma erase_daemon_split:
  assumes "\<forall>u \<in> set us \<union> set vs. dm_proc_id u \<noteq> dm_proc_id d"
  shows "skl_erase dm_proc_id (G_compare_proc_ids_by_conf_internal c) (dm_proc_id d) (us @ d # vs) = us @ vs"
  using assms by (intro skl_erase_split) auto

lemmas sorted_ids_distinct = proc_ids.sorted_keys_distinct [where key = dm_proc_id]
lemmas sorted_names_distinct = names.sorted_keys_distinct

section \<open>Sound groups\<close>

definition daemon_ok :: "daemon_members \<Rightarrow> bool" where
  "daemon_ok d \<longleftrightarrow> MembersList d \<noteq> [] \<and> skl_sorted id G_compare_nameptr (MembersList d)"

definition daemons_ok :: "configuration \<Rightarrow> spread_group \<Rightarrow> bool" where
  "daemons_ok c g \<longleftrightarrow>
     skl_sorted dm_proc_id (G_compare_proc_ids_by_conf_internal c) (DaemonsList g) \<and>
     (\<forall>d \<in> set (DaemonsList g). daemon_ok d) \<and>
     gr_num_members g = int (length (group_members g))"

text \<open>The mailbox of a member with a live session, and the members at this daemon.\<close>

definition box :: "session list \<Rightarrow> string \<Rightarrow> int option" where
  "box ss nm = (case G_private_to_names nm of
                  None \<Rightarrow> None
                | Some (private_name, _) \<Rightarrow> map_option ses_mbox (Sess_get_session private_name ss))"

definition members_at :: "int32u \<Rightarrow> spread_group \<Rightarrow> string list" where
  "members_at i g = concat (map MembersList (filter (\<lambda>d. dm_proc_id d = i) (DaemonsList g)))"

definition boxes_ok :: "session list \<Rightarrow> proc \<Rightarrow> spread_group \<Rightarrow> bool" where
  "boxes_ok ss my g \<longleftrightarrow>
     mset (map Some (mboxes g)) = mset (map (box ss) (members_at (p_id my) g)) \<and>
     (\<forall>nm \<in> set (members_at (p_id my) g). \<exists>private_name. G_private_to_names nm = Some (private_name, p_name my))"

text \<open>The synced set has every established daemon; an unchanged group is one virtual synchrony set.\<close>

definition ids_ok :: "int32u set \<Rightarrow> spread_group \<Rightarrow> bool" where
  "ids_ok synced g \<longleftrightarrow>
     (\<not> changed g \<longrightarrow> (\<forall>d \<in> set (DaemonsList g). dm_memb_id d = gi_memb_id (grp_id g))) \<and>
     \<not> Is_unknown_memb_id (gi_memb_id (grp_id g)) \<and>
     (\<forall>d \<in> set (DaemonsList g). Is_established_daemon d \<longrightarrow> dm_proc_id d \<in> synced)"

definition state_ok :: "gstate \<Rightarrow> configuration \<Rightarrow> spread_group \<Rightarrow> bool" where
  "state_ok st tm g \<longleftrightarrow>
     (case st of
        GOP \<Rightarrow> \<not> changed g
      | GTRANS \<Rightarrow> (\<forall>d \<in> set (DaemonsList g). Is_partitioned_daemon d \<longleftrightarrow> Conf_id_in_conf tm (dm_proc_id d) = -1)
      | _ \<Rightarrow> (\<forall>d \<in> set (DaemonsList g). Is_established_daemon d))"

lemma group_members_split:
  "group_members (g\<lparr>DaemonsList := us @ d # vs\<rparr>) =
     group_members (g\<lparr>DaemonsList := us\<rparr>) @ MembersList d @ group_members (g\<lparr>DaemonsList := vs\<rparr>)"
  by (simp add: group_members_def)

lemma group_members_cong: "DaemonsList g = DaemonsList h \<Longrightarrow> group_members g = group_members h"
  by (simp add: group_members_def)

lemma members_at_cong: "DaemonsList g = DaemonsList h \<Longrightarrow> members_at i g = members_at i h"
  by (simp add: members_at_def)

lemma no_members:
  assumes "daemons_ok c g"
  shows "gr_num_members g = 0 \<longleftrightarrow> DaemonsList g = []"
proof (cases "DaemonsList g")
  case (Cons d ds)
  with assms have "MembersList d \<noteq> []" "gr_num_members g = int (length (MembersList d @ concat (map MembersList ds)))"
    by (auto simp: daemons_ok_def daemon_ok_def group_members_def)
  with Cons show ?thesis by (cases "MembersList d") auto
qed (use assms in \<open>simp add: daemons_ok_def group_members_def\<close>)

lemma boxes_ok_distinct:
  assumes b: "boxes_ok ss my g" and s: "distinct (map ses_mbox ss)" and d: "distinct (members_at (p_id my) g)"
  shows "distinct (mboxes g)"
proof -
  let ?ms = "members_at (p_id my) g"
  have "inj_on (box ss) (set ?ms)"
  proof (rule inj_onI)
    fix x y assume x: "x \<in> set ?ms" and y: "y \<in> set ?ms" and eq: "box ss x = box ss y"
    from b x y obtain p q where names: "G_private_to_names x = Some (p, p_name my)"
        "G_private_to_names y = Some (q, p_name my)"
      unfolding boxes_ok_def by blast
    have "box ss x \<in> set (map Some (mboxes g))"
      using b x unfolding boxes_ok_def by (metis image_eqI set_map set_mset_mset)
    then obtain m where "box ss x = Some m" by auto
    with eq names obtain u v where u: "Sess_get_session p ss = Some u" "Sess_get_session q ss = Some v"
        "ses_mbox u = ses_mbox v"
      by (auto simp: box_def)
    with s Sess_get_session_SomeD [OF u(1)] Sess_get_session_SomeD [OF u(2)] have "p = q"
      by (auto simp: distinct_map inj_on_def)
    with names show "x = y" by (auto simp: private_to_names_iff)
  qed
  with d have "distinct (map (box ss) ?ms)" by (simp add: distinct_map)
  with b have "distinct (map Some (mboxes g))"
    unfolding boxes_ok_def by (metis mset_eq_imp_distinct_iff)
  then show ?thesis by (simp add: distinct_map)
qed

section \<open>One member more, one member less\<close>

lemma put_member:
  assumes "G_get_member d nm = None"
  shows "mset (skl_put id G_compare_nameptr nm (MembersList d)) = add_mset nm (mset (MembersList d))"
proof -
  obtain us vs where "MembersList d = us @ vs" "skl_put id G_compare_nameptr nm (MembersList d) = us @ nm # vs"
    using names.skl_put_split [where key = id and x = nm and xs = "MembersList d"] assms
    by (auto simp: G_get_member_def)
  then show ?thesis by simp
qed

lemma put_member_length:
  "G_get_member d nm = None \<Longrightarrow>
     length (skl_put id G_compare_nameptr nm (MembersList d)) = Suc (length (MembersList d))"
  using put_member [of d nm] by (metis size_add_mset size_mset)

text \<open>
  What a join does to a group: nothing when the member is there, and otherwise the member is
  entered in its daemon \<open>d\<close>, which is made when the group does not have it.
\<close>

lemma join_member_cases:
  assumes j: "join_member s i nm private_name g = Some (g', acts)"
    and srt: "skl_sorted dm_proc_id (daemon_order s) (DaemonsList g)"
  obtains (already) "is_member s i nm g" "g' = g" "acts = []"
  | (joined) d us vs new_mbox where "\<not> is_member s i nm g" "G_get_member d nm = None" "dm_proc_id d = i"
      "DaemonsList g = us @ d # vs \<or> DaemonsList g = us @ vs \<and> d = new_daemon s g i \<and> G_get_daemon (Cn_active s) g i = None"
      "DaemonsList g' = us @ d\<lparr>MembersList := skl_put id G_compare_nameptr nm (MembersList d)\<rparr> # vs"
      "\<forall>u \<in> set us \<union> set vs. dm_proc_id u \<noteq> i" "skl_sorted dm_proc_id (daemon_order s) (us @ d # vs)"
      "i = p_id (G_my s) \<Longrightarrow> map_option ses_mbox (Sess_get_session private_name (Sessions s)) = Some new_mbox"
      "g' = g\<lparr>DaemonsList := DaemonsList g', gr_num_members := gr_num_members g + 1,
             grp_id := (grp_id g)\<lparr>gi_index := gi_index (grp_id g) + 1\<rparr>,
             mboxes := (if i = p_id (G_my s) then mboxes g @ [new_mbox] else mboxes g),
             changed := changed g \<or> Is_partitioned_daemon d\<rparr>"
      "notify_join s nm (if i = p_id (G_my s) then new_mbox else - 1) g' = Some acts"
proof (cases "is_member s i nm g")
  case True
  then obtain d where d: "G_get_daemon (Cn_active s) g i = Some d" "G_get_member d nm \<noteq> None"
    by (auto simp: is_member_def split: option.splits)
  with j have "g' = g" "acts = []" by (simp_all add: join_member_def get_or_add_daemon_def)
  with True show ?thesis by (rule already)
next
  case False
  obtain d g1 where ga: "get_or_add_daemon s i g = (d, g1)" by fastforce
  have fresh: "G_get_member d nm = None"
    using ga False
    by (auto simp: get_or_add_daemon_def is_member_def G_get_member_def new_daemon_def split: option.splits)
  have "\<exists>us vs. (DaemonsList g = us @ d # vs \<or> DaemonsList g = us @ vs \<and> d = new_daemon s g i \<and> G_get_daemon (Cn_active s) g i = None)
      \<and> g1 = g\<lparr>DaemonsList := us @ d # vs\<rparr> \<and> dm_proc_id d = i \<and> (\<forall>u \<in> set us \<union> set vs. dm_proc_id u \<noteq> i)
      \<and> skl_sorted dm_proc_id (daemon_order s) (us @ d # vs)"
  proof (cases "G_get_daemon (Cn_active s) g i")
    case None
    with ga have d: "d = new_daemon s g i"
      and g1: "g1 = g\<lparr>DaemonsList := skl_put dm_proc_id (daemon_order s) d (DaemonsList g)\<rparr>"
      by (auto simp: get_or_add_daemon_def)
    have i: "dm_proc_id d = i" by (simp add: d new_daemon_def)
    obtain us vs where uv: "DaemonsList g = us @ vs"
      "skl_put dm_proc_id (daemon_order s) d (DaemonsList g) = us @ d # vs"
      using put_daemon_split [of "Cn_active s" g d] None i by blast
    then have "\<forall>u \<in> set us \<union> set vs. dm_proc_id u \<noteq> i"
      using None by (simp add: G_get_daemon_def skl_find_None)
    moreover have "skl_sorted dm_proc_id (daemon_order s) (us @ d # vs)"
      using proc_ids.skl_sorted_put [OF srt, of d] uv(2) by simp
    ultimately show ?thesis using None d i g1 uv by fastforce
  next
    case (Some e)
    with ga have d: "e = d" "g1 = g" by (auto simp: get_or_add_daemon_def)
    from find_daemon_split [OF srt Some] obtain us vs where
      "DaemonsList g = us @ e # vs" "dm_proc_id e = i" "\<forall>u \<in> set us \<union> set vs. dm_proc_id u \<noteq> i" by blast
    moreover from this have "g1 = g\<lparr>DaemonsList := us @ e # vs\<rparr>" using d by simp
    ultimately show ?thesis using d srt by metis
  qed
  then obtain us vs where split: "DaemonsList g = us @ d # vs \<or> DaemonsList g = us @ vs \<and> d = new_daemon s g i \<and> G_get_daemon (Cn_active s) g i = None"
    and g1: "g1 = g\<lparr>DaemonsList := us @ d # vs\<rparr>" and i: "dm_proc_id d = i"
    and others: "\<forall>u \<in> set us \<union> set vs. dm_proc_id u \<noteq> i"
    and srt': "skl_sorted dm_proc_id (daemon_order s) (us @ d # vs)" by blast
  have ins: "DaemonsList (insert_member s i nm g1) = us @ d\<lparr>MembersList := skl_put id G_compare_nameptr nm (MembersList d)\<rparr> # vs"
    using update_daemon_split [of us vs d "Cn_active s"] others i by (simp add: insert_member_def g1)
  obtain new_mbox where
    m: "(if i = p_id (G_my s) then map_option ses_mbox (Sess_get_session private_name (Sessions s)) else Some (-1)) =
        Some new_mbox"
    and g': "g' = joined_group s i nm new_mbox d g1" "notify_join s nm new_mbox g' = Some acts"
    using j fresh unfolding join_member_def ga prod.case
    by (fastforce split: option.split_asm simp del: not_None_eq)
  have shape: "joined_group s i nm new_mbox d g1 = g\<lparr>DaemonsList := DaemonsList (insert_member s i nm g1),
      gr_num_members := gr_num_members g + 1,
      grp_id := (grp_id g)\<lparr>gi_index := gi_index (grp_id g) + 1\<rparr>,
      mboxes := (if i = p_id (G_my s) then mboxes g @ [new_mbox] else mboxes g),
      changed := changed g \<or> Is_partitioned_daemon d\<rparr>"
    by (cases "i = p_id (G_my s)"; cases "Is_partitioned_daemon d"; cases "changed g")
      (simp_all add: joined_group_def Let_def insert_member_def g1)
  then have ds: "DaemonsList g' = DaemonsList (insert_member s i nm g1)" by (simp add: g'(1))
  show ?thesis
  proof (rule joined [OF False fresh i split _ others srt'])
    show "DaemonsList g' = us @ d\<lparr>MembersList := skl_put id G_compare_nameptr nm (MembersList d)\<rparr> # vs"
      using ds ins by simp
    show "g' = g\<lparr>DaemonsList := DaemonsList g', gr_num_members := gr_num_members g + 1,
             grp_id := (grp_id g)\<lparr>gi_index := gi_index (grp_id g) + 1\<rparr>,
             mboxes := (if i = p_id (G_my s) then mboxes g @ [new_mbox] else mboxes g),
             changed := changed g \<or> Is_partitioned_daemon d\<rparr>"
      unfolding ds using shape g'(1) by simp
    show "notify_join s nm (if i = p_id (G_my s) then new_mbox else - 1) g' = Some acts"
      using g'(2) m by (auto split: if_splits)
  qed (use m in simp)
qed

lemma erase_member:
  assumes "skl_sorted id G_compare_nameptr (MembersList d)" "G_get_member d nm = Some e"
  shows "mset (MembersList d) = add_mset e (mset (skl_erase id G_compare_nameptr nm (MembersList d)))"
proof -
  obtain us vs where m: "MembersList d = us @ e # vs" "G_compare_nameptr (id e) nm = 0"
      "\<forall>u \<in> set us \<union> set vs. G_compare_nameptr (id u) nm \<noteq> 0"
    using names.skl_find_split [OF assms(1) assms(2) [unfolded G_get_member_def]] .
  then show ?thesis by (simp only: skl_erase_split) simp
qed

text \<open>A member is taken out of its daemon \<open>d\<close>, which goes when it has no other.\<close>

lemma drop_member_cases:
  assumes srt: "skl_sorted dm_proc_id (G_compare_proc_ids_by_conf_internal c) (DaemonsList g)"
    and d: "G_get_daemon c g i = Some d"
  obtains us vs ms where "DaemonsList g = us @ d # vs" "dm_proc_id d = i"
    "\<forall>u \<in> set us \<union> set vs. dm_proc_id u \<noteq> i" "ms = skl_erase id G_compare_nameptr nm (MembersList d)"
    "drop_member c i nm g = Some (g\<lparr>DaemonsList := us @ (if ms = [] then [] else [d\<lparr>MembersList := ms\<rparr>]) @ vs,
        gr_num_members := gr_num_members g - 1\<rparr>)"
proof -
  obtain us vs where s: "DaemonsList g = us @ d # vs" "dm_proc_id d = i"
    "\<forall>u \<in> set us \<union> set vs. dm_proc_id u \<noteq> i"
    using find_daemon_split [OF srt d] .
  let ?ms = "skl_erase id G_compare_nameptr nm (MembersList d)"
  let ?e = "d\<lparr>MembersList := ?ms\<rparr>"
  let ?g = "g\<lparr>DaemonsList := us @ ?e # vs, gr_num_members := gr_num_members g - 1\<rparr>"
  have up: "skl_update dm_proc_id (G_compare_proc_ids_by_conf_internal c) i
      (\<lambda>d. d\<lparr>MembersList := skl_erase id G_compare_nameptr nm (MembersList d)\<rparr>) (DaemonsList g) = us @ ?e # vs"
    unfolding s(1) using s(2,3) by (intro skl_update_split) auto
  have "skl_sorted dm_proc_id (G_compare_proc_ids_by_conf_internal c) (us @ ?e # vs)"
    using srt by (simp add: s(1) skl_sorted_keys)
  then have get: "G_get_daemon c ?g i = Some ?e"
    unfolding G_get_daemon_def using s(2) by (intro proc_ids.skl_find_eq) auto
  have er: "skl_erase dm_proc_id (G_compare_proc_ids_by_conf_internal c) i (us @ ?e # vs) = us @ vs"
    using s(2,3) by (intro skl_erase_split) auto
  have "drop_member c i nm g = Some (g\<lparr>DaemonsList := us @ (if ?ms = [] then [] else [?e]) @ vs,
        gr_num_members := gr_num_members g - 1\<rparr>)"
  proof (cases "?ms = []")
    case True
    have "G_remove_daemon c i ?g = Some (g\<lparr>DaemonsList := us @ vs, gr_num_members := gr_num_members g - 1\<rparr>)"
      unfolding G_remove_daemon_def get using True er by simp
    with True show ?thesis unfolding drop_member_def Let_def up get option.case by simp
  qed (simp add: drop_member_def Let_def up get)
  with s that show thesis by blast
qed

end
