(* ===== verification/GroupsKeep.thy ===== *)
theory GroupsKeep
  imports GroupsInv
begin

text \<open>
  Every step of \<open>daemon/groups.c\<close> on one group keeps it sound: joins, departures, transitional
  and regular memberships. \<open>group_ok\<close> is the invariant of a group and its daemon's state.
\<close>

definition group_ok :: "groups_state \<Rightarrow> spread_group \<Rightarrow> bool" where
  "group_ok s g \<longleftrightarrow> DaemonsList g \<noteq> [] \<and> daemons_ok (Cn_active s) g \<and> boxes_ok (Sessions s) (G_my s) g \<and>
     ids_ok (set (MySyncedSet s)) g \<and> state_ok (G_state s) (G_Trans_memb s) g"

lemma members_at_here:
  assumes "DaemonsList g = us @ ds @ vs" "\<forall>u \<in> set us \<union> set vs. dm_proc_id u \<noteq> i" "\<forall>d \<in> set ds. dm_proc_id d = i"
  shows "members_at i g = concat (map MembersList ds)"
proof -
  have "filter (\<lambda>d. dm_proc_id d = i) us = []" "filter (\<lambda>d. dm_proc_id d = i) vs = []"
    "filter (\<lambda>d. dm_proc_id d = i) ds = ds"
    using assms(2,3) by (auto simp: filter_empty_conv filter_id_conv)
  then show ?thesis by (simp add: members_at_def assms(1))
qed

lemma members_at_elsewhere:
  assumes "DaemonsList g = us @ ds @ vs" "DaemonsList h = us @ es @ vs"
    "\<forall>d \<in> set ds \<union> set es. dm_proc_id d \<noteq> i"
  shows "members_at i h = members_at i g"
proof -
  have "filter (\<lambda>d. dm_proc_id d = i) ds = []" "filter (\<lambda>d. dm_proc_id d = i) es = []"
    using assms(3) by (auto simp: filter_empty_conv)
  then show ?thesis by (simp add: members_at_def assms(1,2))
qed

section \<open>Joining\<close>

text \<open>The daemon is entered or found; in front of the new member the group reads \<open>us @ ds @ vs\<close>.\<close>

lemma join_keeps_lists:
  assumes j: "join_member s i nm private_name g = Some (g', acts)"
    and d: "daemons_ok (Cn_active s) g"
  shows "daemons_ok (Cn_active s) g'" and "\<not> is_member s i nm g \<Longrightarrow> DaemonsList g' \<noteq> []" and "gr_name g' = gr_name g"
proof -
  have srt: "skl_sorted dm_proc_id (daemon_order s) (DaemonsList g)" using d by (simp add: daemons_ok_def)
  have "daemons_ok (Cn_active s) g' \<and> (\<not> is_member s i nm g \<longrightarrow> DaemonsList g' \<noteq> []) \<and> gr_name g' = gr_name g"
    using j srt
  proof (cases rule: join_member_cases)
    case (joined dm us vs new_mbox)
    let ?e = "dm\<lparr>MembersList := skl_put id G_compare_nameptr nm (MembersList dm)\<rparr>"
    have "skl_sorted dm_proc_id (daemon_order s) (us @ ?e # vs)"
      using joined(7) by (simp add: skl_sorted_keys)
    moreover have mem: "daemon_ok ?e"
    proof -
      have "skl_sorted id G_compare_nameptr (MembersList dm)"
        using joined(4) d by (auto simp: daemons_ok_def daemon_ok_def new_daemon_def)
      then show ?thesis
        using put_member_length [OF joined(2)] names.skl_sorted_put [of id "MembersList dm" nm]
        by (auto simp: daemon_ok_def)
    qed
    moreover have "\<forall>u \<in> set us \<union> set vs. daemon_ok u" using joined(4) d by (auto simp: daemons_ok_def)
    moreover have "int (length (group_members g')) = int (length (group_members g)) + 1"
      using joined(4,5) put_member_length [OF joined(2)] by (auto simp: group_members_def new_daemon_def)
    ultimately show ?thesis
      using d joined(5,9) by (auto simp: daemons_ok_def)
  qed (use d in simp)
  then show "daemons_ok (Cn_active s) g'" "\<not> is_member s i nm g \<Longrightarrow> DaemonsList g' \<noteq> []" "gr_name g' = gr_name g"
    by blast+
qed

lemma join_keeps_boxes:
  assumes j: "join_member s i nm private_name g = Some (g', acts)"
    and d: "daemons_ok (Cn_active s) g" and b: "boxes_ok (Sessions s) (G_my s) g"
    and nm: "G_private_to_names nm = Some (private_name, proc_name)"
    and my: "i = p_id (G_my s) \<Longrightarrow> proc_name = p_name (G_my s)"
  shows "boxes_ok (Sessions s) (G_my s) g'"
proof -
  have srt: "skl_sorted dm_proc_id (daemon_order s) (DaemonsList g)" using d by (simp add: daemons_ok_def)
  show ?thesis
    using j srt
  proof (cases rule: join_member_cases)
    case (joined dm us vs new_mbox)
    let ?e = "dm\<lparr>MembersList := skl_put id G_compare_nameptr nm (MembersList dm)\<rparr>"
    define ds where "ds = (if DaemonsList g = us @ dm # vs then [dm] else [])"
    have g: "DaemonsList g = us @ ds @ vs" "DaemonsList g' = us @ [?e] @ vs"
      using joined(4,5) by (auto simp: ds_def)
    have ms: "concat (map MembersList ds) = MembersList dm"
      using joined(4) by (auto simp: ds_def new_daemon_def)
    have ids: "\<forall>x \<in> set ds. dm_proc_id x = i" using joined(3) by (simp add: ds_def)
    show ?thesis
    proof (cases "i = p_id (G_my s)")
      case True
      have "members_at i g = MembersList dm" "members_at i g' = MembersList ?e"
        using members_at_here [OF g(1) joined(6) ids] members_at_here [OF g(2) joined(6)] joined(3) ms by auto
      then have m: "mset (members_at i g') = add_mset nm (mset (members_at i g))"
        using put_member [OF joined(2)] by simp
      then have "set (members_at i g') = insert nm (set (members_at i g))"
        by (metis set_mset_add_mset_insert set_mset_mset)
      moreover have "box (Sessions s) nm = Some new_mbox" using joined(8) [OF True] nm by (auto simp: box_def)
      moreover have "mboxes g' = mboxes g @ [new_mbox]" by (subst joined(9)) (simp add: True)
      ultimately show ?thesis using b m nm my [OF True] True by (simp add: boxes_ok_def)
    next
      case False
      have "members_at (p_id (G_my s)) g' = members_at (p_id (G_my s)) g"
        using g by (rule members_at_elsewhere) (use ids joined(3) False in auto)
      moreover have "mboxes g' = mboxes g" by (subst joined(9)) (simp add: False)
      ultimately show ?thesis using b by (simp add: boxes_ok_def)
    qed
  qed (use b in simp)
qed

lemma new_daemon_partitioned:
  assumes "\<not> Is_unknown_memb_id (gi_memb_id (grp_id g))"
  shows "Is_partitioned_daemon (new_daemon s g i) \<longleftrightarrow> G_state s \<noteq> GOP \<and> Conf_id_in_conf (G_Trans_memb s) i = - 1"
  using assms by (simp add: Is_partitioned_daemon_def new_daemon_def)

lemma established_iff: "Is_established_daemon d \<longleftrightarrow> \<not> Is_partitioned_daemon d"
  by (simp add: Is_established_daemon_def Is_partitioned_daemon_def)

text \<open>The membership ids stay sound when the joiner's daemon is in the synced set or outside of the transitional one.\<close>

lemma join_keeps_ids:
  assumes j: "join_member s i nm private_name g = Some (g', acts)"
    and d: "daemons_ok (Cn_active s) g" and k: "ids_ok (set (MySyncedSet s)) g"
    and st: "state_ok (G_state s) (G_Trans_memb s) g" and quiet: "G_state s = GOP \<or> G_state s = GTRANS"
    and i: "i \<in> set (MySyncedSet s) \<or> G_state s = GTRANS \<and> Conf_id_in_conf (G_Trans_memb s) i = - 1"
  shows "ids_ok (set (MySyncedSet s)) g' \<and> state_ok (G_state s) (G_Trans_memb s) g'"
proof -
  have srt: "skl_sorted dm_proc_id (daemon_order s) (DaemonsList g)" using d by (simp add: daemons_ok_def)
  show ?thesis
    using j srt
  proof (cases rule: join_member_cases)
    case (joined dm us vs new_mbox)
    let ?e = "dm\<lparr>MembersList := skl_put id G_compare_nameptr nm (MembersList dm)\<rparr>"
    have known: "\<not> Is_unknown_memb_id (gi_memb_id (grp_id g))" using k by (simp add: ids_ok_def)
    have same: "Is_partitioned_daemon ?e \<longleftrightarrow> Is_partitioned_daemon dm" "dm_proc_id ?e = i"
      by (simp_all add: Is_partitioned_daemon_def joined(3))
    have old: "\<forall>u \<in> set us \<union> set vs. u \<in> set (DaemonsList g)" using joined(4) by auto
    have ch: "changed g' = (changed g \<or> Is_partitioned_daemon dm)" and gid: "gi_memb_id (grp_id g') = gi_memb_id (grp_id g)"
      by (subst joined(9), simp)+
    have dm: "dm_memb_id dm = gi_memb_id (grp_id g)" if "\<not> changed g'"
      using joined(4) k that ch new_daemon_partitioned [OF known, of s i]
      by (auto simp: ids_ok_def new_daemon_def Is_partitioned_daemon_def split: if_splits)
    have est: "i \<in> set (MySyncedSet s)" if "Is_established_daemon dm"
    proof (cases "DaemonsList g = us @ dm # vs")
      case True
      with that k joined(3) show ?thesis by (auto simp: ids_ok_def)
    next
      case False
      with joined(4) that i new_daemon_partitioned [OF known, of s i] show ?thesis
        by (auto simp: established_iff)
    qed
    have "ids_ok (set (MySyncedSet s)) g'"
      unfolding ids_ok_def joined(5) gid using old dm est k ch known joined(3)
      by (auto simp: ids_ok_def Is_established_daemon_def)
    moreover have "state_ok (G_state s) (G_Trans_memb s) g'"
    proof (cases "G_state s")
      case GOP
      then have "\<not> changed g" using st by (simp add: state_ok_def)
      then have "\<not> Is_partitioned_daemon dm"
        using joined(4) k known new_daemon_partitioned [OF known, of s i] GOP
        by (auto simp: ids_ok_def Is_partitioned_daemon_def)
      with GOP ch \<open>\<not> changed g\<close> show ?thesis by (simp add: state_ok_def)
    next
      case GTRANS
      have "Is_partitioned_daemon dm \<longleftrightarrow> Conf_id_in_conf (G_Trans_memb s) (dm_proc_id dm) = - 1"
        using joined(4) st GTRANS new_daemon_partitioned [OF known, of s i] joined(3)
        by (auto simp: state_ok_def)
      with GTRANS st old same joined(3) show ?thesis by (auto simp: state_ok_def joined(5))
    qed (use quiet in simp_all)
    ultimately show ?thesis ..
  qed (use k st in simp)
qed

section \<open>Departing\<close>

lemma remove_mailbox_mset:
  assumes "G_remove_mailbox m g = Some g1"
  shows "mset (mboxes g) = add_mset m (mset (mboxes g1))" and "g1 = g\<lparr>mboxes := mboxes g1\<rparr>"
proof -
  let ?i = "index_of (\<lambda>b. b = m) (mboxes g)"
  have i: "0 \<le> ?i" and g1: "g1 = g\<lparr>mboxes := butlast ((mboxes g)[nat ?i := last (mboxes g)])\<rparr>"
    using assms by (auto simp: G_remove_mailbox_def Let_def split: if_splits)
  from index_of_nth [OF i] have k: "nat ?i < length (mboxes g)" "mboxes g ! nat ?i = m" by auto
  then have ne: "mboxes g \<noteq> []" by auto
  let ?l = "(mboxes g)[nat ?i := last (mboxes g)]"
  have "mset ?l = add_mset (last (mboxes g)) (mset (mboxes g) - {#m#})"
    using k by (simp add: mset_update)
  moreover have "last ?l = last (mboxes g)"
    using ne k by (simp add: last_conv_nth nth_list_update)
  moreover have "mset ?l = add_mset (last ?l) (mset (butlast ?l))"
    using ne by (metis append_butlast_last_id list_update_nonempty mset_append mset_single_iff_right add_mset_add_single mset.simps(1) mset.simps(2))
  ultimately have "mset (butlast ?l) = mset (mboxes g) - {#m#}" by simp
  moreover have "m \<in># mset (mboxes g)" using k by (metis nth_mem set_mset_mset)
  ultimately show "mset (mboxes g) = add_mset m (mset (mboxes g1))" by (simp add: g1)
  show "g1 = g\<lparr>mboxes := mboxes g1\<rparr>" using g1 by simp
qed

text \<open>A departure, after the mailbox of a local member was taken off: \<open>ms\<close> are the others.\<close>

lemma depart_keeps:
  assumes dep: "depart s i nm caused (g\<lparr>mboxes := ms\<rparr>) = Some (Some g', acts)" and ok: "group_ok s g"
    and mem: "is_member s i nm g" and len: "length nm < MAX_GROUP_NAME"
    and here: "i = p_id (G_my s) \<Longrightarrow> mset (map Some (mboxes g)) = add_mset (box (Sessions s) nm) (mset (map Some ms))"
    and there: "i \<noteq> p_id (G_my s) \<Longrightarrow> ms = mboxes g"
  shows "group_ok s g' \<and> gr_name g' = gr_name g"
proof -
  let ?c = "Cn_active s" and ?h = "g\<lparr>mboxes := ms\<rparr>" and ?my = "p_id (G_my s)"
  have lists: "daemons_ok ?c g" and b: "boxes_ok (Sessions s) (G_my s) g" and k: "ids_ok (set (MySyncedSet s)) g"
    and st: "state_ok (G_state s) (G_Trans_memb s) g" using ok by (auto simp: group_ok_def)
  have srt: "skl_sorted dm_proc_id (daemon_order s) (DaemonsList ?h)" using lists by (simp add: daemons_ok_def)
  obtain d e where d: "G_get_daemon ?c ?h i = Some d" and e: "G_get_member d nm = Some e"
    using mem by (auto simp: is_member_def G_get_daemon_def split: option.splits)
  obtain us vs rest where s: "DaemonsList ?h = us @ d # vs" "dm_proc_id d = i"
      "\<forall>u \<in> set us \<union> set vs. dm_proc_id u \<noteq> i" "rest = skl_erase id G_compare_nameptr nm (MembersList d)"
      and drop: "drop_member ?c i nm ?h = Some (?h\<lparr>DaemonsList := us @ (if rest = [] then [] else [d\<lparr>MembersList := rest\<rparr>]) @ vs,
        gr_num_members := gr_num_members ?h - 1\<rparr>)"
    using drop_member_cases [OF srt d] by blast
  define ds where "ds = (if rest = [] then [] else [d\<lparr>MembersList := rest\<rparr>])"
  define g1 where "g1 = ?h\<lparr>DaemonsList := us @ ds @ vs, gr_num_members := gr_num_members g - 1\<rparr>"
  have drop': "drop_member ?c i nm ?h = Some g1" using drop by (simp add: g1_def ds_def)
  have ne: "gr_num_members g1 \<noteq> 0"
    and g': "g' = g1\<lparr>grp_id := (grp_id g1)\<lparr>gi_index := gi_index (grp_id g1) + 1\<rparr>\<rparr>"
    using dep by (auto simp: depart_def drop' Let_def split: if_splits)
  have D: "DaemonsList g = us @ [d] @ vs" "DaemonsList g' = us @ ds @ vs" using s(1) by (simp_all add: g' g1_def)
  have dok: "daemon_ok d" using lists D(1) by (simp add: daemons_ok_def)
  then have split: "mset (MembersList d) = add_mset e (mset rest)"
    using erase_member [OF _ e] s(4) by (simp add: daemon_ok_def)
  have ids: "\<forall>x \<in> set ds. dm_proc_id x = i \<and> dm_memb_id x = dm_memb_id d \<and> daemon_ok x"
    using s(2,4) dok skl_sorted_erase [of id G_compare_nameptr "MembersList d" nm]
    by (simp add: ds_def daemon_ok_def)
  have cm: "concat (map MembersList ds) = rest" by (simp add: ds_def)
  have "length (MembersList d) = Suc (length rest)" using split by (metis size_add_mset size_mset)
  then have num: "length (group_members g) = Suc (length (group_members g'))"
    using cm unfolding group_members_def D by simp
  have "skl_sorted dm_proc_id (daemon_order s) (us @ ds @ vs)"
    using srt unfolding s(1) by (auto simp: skl_sorted_append ds_def)
  moreover have "\<forall>u \<in> set us \<union> set vs. daemon_ok u" using lists D(1) by (auto simp: daemons_ok_def)
  ultimately have lists': "daemons_ok ?c g'"
    using ids num lists unfolding daemons_ok_def D(2) by (auto simp: g' g1_def)
  moreover have "DaemonsList g' \<noteq> []" using no_members [OF lists'] ne by (simp add: g')
  moreover have "boxes_ok (Sessions s) (G_my s) g'"
  proof (cases "i = ?my")
    case True
    have at: "members_at ?my g = MembersList d" "members_at ?my g' = rest"
      using members_at_here [OF D(1) s(3)] members_at_here [OF D(2) s(3)] s(2) ids cm True by auto
    have "e \<in> set (MembersList d)" using split by (metis set_mset_mset union_single_eq_member)
    then obtain pn where "G_private_to_names e = Some (pn, p_name (G_my s))"
      using b at(1) by (auto simp: boxes_ok_def)
    then have "length e < MAX_GROUP_NAME" by (auto simp: private_to_names_iff)
    moreover have "G_compare_nameptr e nm = 0"
      using e by (auto simp: G_get_member_def dest!: skl_find_SomeD)
    ultimately have e: "e = nm" using len by simp
    have "mset (map Some ms) = mset (map (box (Sessions s)) rest)"
      using b here [OF True] at split e by (simp add: boxes_ok_def)
    moreover have "set rest \<subseteq> set (MembersList d)" using s(4) by (auto simp: skl_erase_def)
    moreover have "mboxes g' = ms" by (simp add: g' g1_def)
    ultimately show ?thesis using b at by (auto simp: boxes_ok_def)
  next
    case False
    have "members_at ?my g' = members_at ?my g"
      using D by (rule members_at_elsewhere) (use ids s(2) False in auto)
    with b there [OF False] show ?thesis by (simp add: boxes_ok_def g' g1_def)
  qed
  moreover have "ids_ok (set (MySyncedSet s)) g'"
    using k ids s(2) unfolding ids_ok_def D by (auto simp: g' g1_def Is_established_daemon_def)
  moreover have "state_ok (G_state s) (G_Trans_memb s) g'"
    using st ids s(2) unfolding state_ok_def D
    by (auto simp: g' g1_def Is_partitioned_daemon_def Is_established_daemon_def split: gstate.splits)
  moreover have "gr_name g' = gr_name g" by (simp add: g' g1_def)
  ultimately show ?thesis by (simp add: group_ok_def)
qed

text \<open>The two ways to depart, with the mailbox of a local member taken off first.\<close>

lemma local_box:
  assumes "G_private_to_names nm = Some (private_name, proc_name)" "Sess_get_session private_name ss = Some x"
  shows "box ss nm = Some (ses_mbox x)"
  using assms by (simp add: box_def)

lemma private_length: "G_private_to_names nm = Some (private_name, proc_name) \<Longrightarrow> length nm < MAX_GROUP_NAME"
  by (auto simp: private_to_names_iff)

lemma leave_group_keeps:
  assumes l: "leave_group s i nm private_name g = Some (Some g', acts)" and ok: "group_ok s g"
    and mem: "is_member s i nm g" and nm: "G_private_to_names nm = Some (private_name, proc_name)"
  shows "group_ok s g' \<and> gr_name g' = gr_name g"
proof (cases "i = p_id (G_my s)")
  case True
  with l obtain x g1 a where x: "Sess_get_session private_name (Sessions s) = Some x"
    and g1: "G_remove_mailbox (ses_mbox x) g = Some g1" and dep: "depart s i nm CAUSED_BY_LEAVE g1 = Some (Some g', a)"
    by (auto simp: leave_group_def split: option.splits)
  note m = remove_mailbox_mset [OF g1]
  have "depart s i nm CAUSED_BY_LEAVE (g\<lparr>mboxes := mboxes g1\<rparr>) = Some (Some g', a)" using dep m(2) by simp
  from depart_keeps [OF this ok mem private_length [OF nm]] show ?thesis
    using True m(1) local_box [OF nm x] by simp
next
  case False
  with l have "depart s i nm CAUSED_BY_LEAVE (g\<lparr>mboxes := mboxes g\<rparr>) = Some (Some g', acts)"
    by (simp add: leave_group_def)
  from depart_keeps [OF this ok mem private_length [OF nm]] show ?thesis using False by simp
qed

lemma kill_step_keeps:
  assumes l: "kill_step s i nm private_name g = Some (Some g', acts)" and ok: "group_ok s g"
    and nm: "G_private_to_names nm = Some (private_name, proc_name)"
  shows "group_ok s g' \<and> gr_name g' = gr_name g"
proof (cases "is_member s i nm g")
  case False
  with l ok show ?thesis by (simp add: kill_step_def)
next
  case mem: True
  show ?thesis
  proof (cases "i = p_id (G_my s)")
    case True
    with l mem obtain x g1 where x: "Sess_get_session private_name (Sessions s) = Some x"
      and g1: "G_remove_mailbox (ses_mbox x) g = Some g1"
      and dep: "depart s i nm CAUSED_BY_DISCONNECT g1 = Some (Some g', acts)"
      by (auto simp: kill_step_def split: option.splits)
    note m = remove_mailbox_mset [OF g1]
    have "depart s i nm CAUSED_BY_DISCONNECT (g\<lparr>mboxes := mboxes g1\<rparr>) = Some (Some g', acts)" using dep m(2) by simp
    from depart_keeps [OF this ok mem private_length [OF nm]] show ?thesis
      using True m(1) local_box [OF nm x] by simp
  next
    case False
    with l mem have "depart s i nm CAUSED_BY_DISCONNECT (g\<lparr>mboxes := mboxes g\<rparr>) = Some (Some g', acts)"
      by (simp add: kill_step_def)
    from depart_keeps [OF this ok mem private_length [OF nm]] show ?thesis using False by simp
  qed
qed

section \<open>Memberships\<close>

text \<open>Eliminating daemons is a filter of the list.\<close>

lemma eliminate_daemons_filter:
  assumes "skl_sorted dm_proc_id (G_compare_proc_ids_by_conf_internal c) (pre @ ds)" "DaemonsList g = pre @ ds"
  shows "eliminate_daemons c needed ds g ch =
     Some (g\<lparr>DaemonsList := pre @ filter (\<lambda>d. \<not> needed d) ds,
             gr_num_members := gr_num_members g - int (length (concat (map MembersList (filter needed ds))))\<rparr>,
           ch \<or> list_ex needed ds)"
  using assms
proof (induction ds arbitrary: pre g ch)
  case (Cons d ds)
  show ?case
  proof (cases "needed d")
    case False
    with Cons.IH [of "pre @ [d]" g ch] Cons.prems show ?thesis by simp
  next
    case True
    have others: "\<forall>u \<in> set pre \<union> set ds. dm_proc_id u \<noteq> dm_proc_id d"
      using sorted_ids_distinct [OF Cons.prems(1)] by (auto simp: image_iff)
    have "G_get_daemon c g (dm_proc_id d) = Some d"
      unfolding G_get_daemon_def Cons.prems(2) by (rule proc_ids.skl_find_eq [OF Cons.prems(1)]) simp_all
    then have rm: "G_remove_daemon c (dm_proc_id d) g =
        Some (g\<lparr>DaemonsList := pre @ ds, gr_num_members := gr_num_members g - int (length (MembersList d))\<rparr>)"
      using erase_daemon_split [OF others, of c] by (simp add: G_remove_daemon_def Cons.prems(2))
    have "skl_sorted dm_proc_id (G_compare_proc_ids_by_conf_internal c) (pre @ ds)"
      using Cons.prems(1) by (simp add: skl_sorted_append)
    from Cons.IH [OF this, of "g\<lparr>DaemonsList := pre @ ds, gr_num_members := gr_num_members g - int (length (MembersList d))\<rparr>" True]
    show ?thesis using True by (simp add: rm algebra_simps)
  qed
qed simp

definition without :: "(daemon_members \<Rightarrow> bool) \<Rightarrow> spread_group \<Rightarrow> spread_group" where
  "without needed g =
     g\<lparr>DaemonsList := filter (\<lambda>d. \<not> needed d) (DaemonsList g),
       gr_num_members := gr_num_members g - int (length (concat (map MembersList (filter needed (DaemonsList g)))))\<rparr>"

definition gone :: "groups_state \<Rightarrow> daemon_members \<Rightarrow> bool" where
  "gone s d = (if G_state s = GGT then outside_trans s d else Is_partitioned_daemon d)"

lemma eliminate_status:
  assumes "daemons_ok (Cn_active s) g"
  shows "G_eliminate_partitioned_daemons_status s g = Some (without (gone s) g, list_ex (gone s) (DaemonsList g))"
  using eliminate_daemons_filter [of "Cn_active s" "[]" "DaemonsList g" g "gone s" False] assms
  by (simp add: G_eliminate_partitioned_daemons_status_def without_def gone_def [abs_def] daemons_ok_def)

lemma length_without:
  "length (concat (map f xs)) = length (concat (map f (filter P xs))) + length (concat (map f (filter (\<lambda>x. \<not> P x) xs)))"
  by (induction xs) auto

lemma without_lists: "daemons_ok c g \<Longrightarrow> daemons_ok c (without needed g)"
  using length_without [of MembersList "DaemonsList g" needed]
  by (auto simp: daemons_ok_def without_def group_members_def skl_sorted_filter)

lemma without_boxes:
  assumes "boxes_ok ss my g" "\<And>d. d \<in> set (DaemonsList g) \<Longrightarrow> dm_proc_id d = p_id my \<Longrightarrow> \<not> needed d"
  shows "boxes_ok ss my (without needed g)"
proof -
  have "filter (\<lambda>d. \<not> needed d \<and> dm_proc_id d = p_id my) (DaemonsList g) = filter (\<lambda>d. dm_proc_id d = p_id my) (DaemonsList g)"
    using assms(2) by (auto intro: filter_cong)
  then have "members_at (p_id my) (without needed g) = members_at (p_id my) g"
    by (simp add: members_at_def without_def)
  with assms(1) show ?thesis by (simp add: boxes_ok_def without_def)
qed

lemma boxes_empty:
  "boxes_ok ss my g \<Longrightarrow> DaemonsList g = [] \<Longrightarrow> removable g"
  by (simp add: boxes_ok_def members_at_def removable_def)

text \<open>Changes that only touch ids and flags leave the lists and mailboxes alone.\<close>

lemma lists_map:
  assumes "\<And>d. d \<in> set (DaemonsList g) \<Longrightarrow> dm_proc_id (f d) = dm_proc_id d \<and> MembersList (f d) = MembersList d"
    and "DaemonsList h = map f (DaemonsList g)" "gr_num_members h = gr_num_members g" "mboxes h = mboxes g"
  shows "daemons_ok c g \<Longrightarrow> daemons_ok c h" and "boxes_ok ss my g \<Longrightarrow> boxes_ok ss my h"
proof -
  have ids: "map dm_proc_id (DaemonsList h) = map dm_proc_id (DaemonsList g)"
    and ms: "map MembersList (DaemonsList h) = map MembersList (DaemonsList g)"
    using assms(1) by (simp_all add: assms(2))
  have "group_members h = group_members g" by (simp add: group_members_def ms)
  moreover have "\<forall>d \<in> set (DaemonsList g). daemon_ok (f d) = daemon_ok d" using assms(1) by (simp add: daemon_ok_def)
  moreover have "skl_sorted dm_proc_id cmp (DaemonsList h) = skl_sorted dm_proc_id cmp (DaemonsList g)" for cmp
    by (simp only: skl_sorted_keys ids)
  moreover have "set (DaemonsList h) = f ` set (DaemonsList g)" by (simp add: assms(2))
  ultimately show "daemons_ok c h" if "daemons_ok c g"
    using that assms(3) by (auto simp: daemons_ok_def)
  have "members_at i h = members_at i g" for i
  proof -
    have "filter (\<lambda>d. dm_proc_id d = i) (map f ds) = map f (filter (\<lambda>d. dm_proc_id d = i) ds) \<and>
        concat (map MembersList (map f (filter (\<lambda>d. dm_proc_id d = i) ds))) = concat (map MembersList (filter (\<lambda>d. dm_proc_id d = i) ds))"
      if "set ds \<subseteq> set (DaemonsList g)" for ds
      using that assms(1) by (induction ds) auto
    then show ?thesis by (simp add: members_at_def assms(2))
  qed
  then show "boxes_ok ss my h" if "boxes_ok ss my g" using that assms(4) by (simp add: boxes_ok_def)
qed

lemma update_ids_lists:
  "daemons_ok c g \<Longrightarrow> daemons_ok c (G_update_daemon_memb_ids g)"
  "boxes_ok ss my g \<Longrightarrow> boxes_ok ss my (G_update_daemon_memb_ids g)"
  by (rule lists_map [of g "\<lambda>d. if Is_established_daemon d then d\<lparr>dm_memb_id := gi_memb_id (grp_id g)\<rparr> else d"],
      simp_all add: G_update_daemon_memb_ids_def)+

lemma flags_lists [simp]:
  "daemons_ok c (g\<lparr>grp_id := x\<rparr>) = daemons_ok c g"
  "boxes_ok ss my (g\<lparr>grp_id := x\<rparr>) = boxes_ok ss my g"
  "daemons_ok c (g\<lparr>changed := b\<rparr>) = daemons_ok c g"
  "boxes_ok ss my (g\<lparr>changed := b\<rparr>) = boxes_ok ss my g"
  by (simp_all add: daemons_ok_def boxes_ok_def group_members_def members_at_def)

lemma synced_filter: "set (G_update_synced_set c ids) = {i \<in> set ids. Conf_id_in_conf c i \<noteq> - 1}"
proof -
  have "Conf_id_in_conf c i \<ge> 0 \<longleftrightarrow> Conf_id_in_conf c i \<noteq> - 1" for i
    using index_of_range [of "\<lambda>sg. Conf_id_in_seg sg i \<ge> 0" "segments c"] by (auto simp: Conf_id_in_conf_def)
  then show ?thesis by (auto simp: G_update_synced_set_def G_update_synced_set_status_def Let_def)
qed

lemma trans_step_keeps:
  assumes r: "trans_step s g = Some (r, acts)" and ok: "group_ok s g" and st: "G_state s = GOP"
    and known: "\<not> Is_unknown_memb_id (G_Trans_memb_id s)"
  obtains g' where "r = Some g'" "gr_name g' = gr_name g"
    "group_ok (s\<lparr>G_state := GTRANS, MySyncedSet := G_update_synced_set (G_Trans_memb s) (MySyncedSet s)\<rparr>) g'"
proof -
  have old: "daemons_ok (Cn_active s) g" "boxes_ok (Sessions s) (G_my s) g" "DaemonsList g \<noteq> []" "\<not> changed g"
      "\<And>d. d \<in> set (DaemonsList g) \<Longrightarrow> dm_memb_id d = gi_memb_id (grp_id g) \<and> dm_proc_id d \<in> set (MySyncedSet s)"
      "\<not> Is_unknown_memb_id (gi_memb_id (grp_id g))"
    using ok st by (auto simp: group_ok_def ids_ok_def state_ok_def Is_established_daemon_def)
  then have est: "\<And>d. d \<in> set (DaemonsList g) \<Longrightarrow> Is_established_daemon d" by (simp add: Is_established_daemon_def)
  show thesis
  proof (cases "list_ex (outside_trans s) (DaemonsList g)")
    case False
    then have "\<And>d. d \<in> set (DaemonsList g) \<Longrightarrow> Conf_id_in_conf (G_Trans_memb s) (dm_proc_id d) \<noteq> - 1"
      by (auto simp: list_ex_iff outside_trans_def)
    with old est have "group_ok (s\<lparr>G_state := GTRANS, MySyncedSet := G_update_synced_set (G_Trans_memb s) (MySyncedSet s)\<rparr>) g"
      by (auto simp: group_ok_def ids_ok_def state_ok_def synced_filter established_iff)
    moreover have "r = Some g" using r False by (simp add: trans_step_def)
    ultimately show thesis using that by simp
  next
    case True
    let ?g2 = "(mark_partitioned s g)\<lparr>grp_id := \<lparr>gi_memb_id = G_Trans_memb_id s, gi_index = 1\<rparr>, changed := True\<rparr>"
    let ?f = "\<lambda>d. if outside_trans s d then d\<lparr>dm_memb_id := unknown_memb_id\<rparr> else d\<lparr>dm_memb_id := G_Trans_memb_id s\<rparr>"
    have r': "r = Some (G_update_daemon_memb_ids ?g2)" using r True by (auto simp: trans_step_def Let_def)
    have D: "DaemonsList (G_update_daemon_memb_ids ?g2) = map ?f (DaemonsList g)"
      using est by (auto simp: G_update_daemon_memb_ids_def mark_partitioned_def Is_established_daemon_def)
    have "daemons_ok (Cn_active s) (G_update_daemon_memb_ids ?g2)" "boxes_ok (Sessions s) (G_my s) (G_update_daemon_memb_ids ?g2)"
      by (rule lists_map [OF _ D]; use old(1,2) in \<open>simp add: G_update_daemon_memb_ids_def mark_partitioned_def\<close>)+
    moreover have "ids_ok (set (G_update_synced_set (G_Trans_memb s) (MySyncedSet s))) (G_update_daemon_memb_ids ?g2)"
      using known old(5) unfolding ids_ok_def D
      by (auto simp: G_update_daemon_memb_ids_def mark_partitioned_def synced_filter Is_established_daemon_def outside_trans_def)
    moreover have "state_ok GTRANS (G_Trans_memb s) (G_update_daemon_memb_ids ?g2)"
      using known unfolding state_ok_def D by (auto simp: Is_partitioned_daemon_def outside_trans_def)
    ultimately have "group_ok (s\<lparr>G_state := GTRANS, MySyncedSet := G_update_synced_set (G_Trans_memb s) (MySyncedSet s)\<rparr>)
        (G_update_daemon_memb_ids ?g2)"
      using old(3) by (simp add: group_ok_def D)
    moreover have "gr_name (G_update_daemon_memb_ids ?g2) = gr_name g"
      by (simp add: G_update_daemon_memb_ids_def mark_partitioned_def)
    ultimately show thesis using that r' by blast
  qed
qed

lemma cascade_step_keeps:
  assumes "cascade_step s g = Some (r, acts)" "group_ok s g" "G_state s = GGATHER"
  obtains g' where "r = Some g'" "gr_name g' = gr_name g" "group_ok (s\<lparr>G_state := GGT\<rparr>) g'"
proof -
  have "r = Some (if G_check_if_changed_by_cascade s g then g\<lparr>changed := True\<rparr> else g)"
    using assms(1) by (simp add: cascade_step_def)
  moreover have "group_ok (s\<lparr>G_state := GGT\<rparr>) (if G_check_if_changed_by_cascade s g then g\<lparr>changed := True\<rparr> else g)"
    using assms(2,3) by (auto simp: group_ok_def ids_ok_def state_ok_def)
  ultimately show thesis using that by simp
qed

lemma without_ids: "ids_ok synced g \<Longrightarrow> ids_ok synced (without needed g)"
  by (auto simp: ids_ok_def without_def)

lemma without_name [simp]: "gr_name (without needed g) = gr_name g"
  by (simp add: without_def)

text \<open>This daemon is established in its groups and not outside of a membership that it is in.\<close>

lemma mine_stays:
  assumes "group_ok s g" "G_state s = GTRANS \<or> G_state s = GGT"
    and "Conf_id_in_conf (G_Trans_memb s) (p_id (G_my s)) \<noteq> - 1"
  shows "\<And>d. d \<in> set (DaemonsList g) \<Longrightarrow> dm_proc_id d = p_id (G_my s) \<Longrightarrow> \<not> gone s d"
  using assms by (auto simp: group_ok_def state_ok_def gone_def outside_trans_def)

text \<open>The group that is left, with the assertions for one that is discarded.\<close>

lemma without_keeps:
  assumes ok: "group_ok s g" and st: "G_state s = GTRANS \<or> G_state s = GGT"
    and my: "Conf_id_in_conf (G_Trans_memb s) (p_id (G_my s)) \<noteq> - 1"
  shows "daemons_ok (Cn_active s) (without (gone s) g)" "boxes_ok (Sessions s) (G_my s) (without (gone s) g)"
    "ids_ok (set (MySyncedSet s)) (without (gone s) g)"
    "gr_num_members (without (gone s) g) = 0 \<longleftrightarrow> DaemonsList (without (gone s) g) = []"
    "DaemonsList (without (gone s) g) = [] \<Longrightarrow> removable (without (gone s) g)"
    "\<forall>d \<in> set (DaemonsList (without (gone s) g)). Is_established_daemon d \<and>
       (Conf_id_in_conf (G_Trans_memb s) (dm_proc_id d) \<noteq> - 1)"
proof -
  show d: "daemons_ok (Cn_active s) (without (gone s) g)" and b: "boxes_ok (Sessions s) (G_my s) (without (gone s) g)"
    and "ids_ok (set (MySyncedSet s)) (without (gone s) g)"
    using ok without_lists without_boxes [OF _ mine_stays [OF ok st my]] without_ids by (auto simp: group_ok_def)
  show "gr_num_members (without (gone s) g) = 0 \<longleftrightarrow> DaemonsList (without (gone s) g) = []"
    by (rule no_members [OF d])
  show "DaemonsList (without (gone s) g) = [] \<Longrightarrow> removable (without (gone s) g)" by (rule boxes_empty [OF b])
  show "\<forall>d \<in> set (DaemonsList (without (gone s) g)). Is_established_daemon d \<and>
       (Conf_id_in_conf (G_Trans_memb s) (dm_proc_id d) \<noteq> - 1)"
    using ok st by (auto simp: group_ok_def state_ok_def without_def gone_def established_iff outside_trans_def)
qed

lemma renumbered_keeps:
  assumes "daemons_ok (Cn_active s) g" "boxes_ok (Sessions s) (G_my s) g" "ids_ok (set (MySyncedSet s)) g"
    "DaemonsList g \<noteq> []" "\<forall>d \<in> set (DaemonsList g). Is_established_daemon d" "\<not> Is_unknown_memb_id m"
  shows "group_ok (s\<lparr>G_state := GOP\<rparr>) (G_update_daemon_memb_ids (g\<lparr>grp_id := \<lparr>gi_memb_id = m, gi_index = k\<rparr>, changed := False\<rparr>))"
proof -
  let ?h = "g\<lparr>grp_id := \<lparr>gi_memb_id = m, gi_index = k\<rparr>, changed := False\<rparr>"
  have "daemons_ok (Cn_active s) (G_update_daemon_memb_ids ?h)" "boxes_ok (Sessions s) (G_my s) (G_update_daemon_memb_ids ?h)"
    by (rule update_ids_lists; use assms(1,2) in simp)+
  moreover have "ids_ok (set (MySyncedSet s)) (G_update_daemon_memb_ids ?h)" "\<not> changed (G_update_daemon_memb_ids ?h)"
      "DaemonsList (G_update_daemon_memb_ids ?h) \<noteq> []"
    using assms(3-6) by (auto simp: G_update_daemon_memb_ids_def ids_ok_def)
  ultimately show ?thesis by (simp add: group_ok_def state_ok_def)
qed

lemma settle_step_keeps:
  assumes r: "settle_step s g = Some (r, acts)" and ok: "group_ok s g" and st: "G_state s = GTRANS"
    and my: "Conf_id_in_conf (G_Trans_memb s) (p_id (G_my s)) \<noteq> - 1" and known: "\<not> Is_unknown_memb_id (G_Reg_memb_id s)"
    and g': "r = Some g'"
  shows "gr_name g' = gr_name g \<and> group_ok (s\<lparr>G_state := GOP\<rparr>) g'"
proof (cases "changed g")
  case False
  with r ok st g' show ?thesis by (auto simp: settle_step_def group_ok_def state_ok_def)
next
  case True
  have d: "daemons_ok (Cn_active s) g" using ok by (simp add: group_ok_def)
  note w = without_keeps [OF ok _ my]
  have ne: "DaemonsList (without (gone s) g) \<noteq> []"
    and g2: "g' = G_update_daemon_memb_ids ((without (gone s) g)\<lparr>grp_id := \<lparr>gi_memb_id = G_Reg_memb_id s, gi_index = 1\<rparr>, changed := False\<rparr>)"
    using r True w(4) st g' by (auto simp: settle_step_def eliminate_status [OF d] Let_def split: if_splits)
  have "group_ok (s\<lparr>G_state := GOP\<rparr>) g'"
    unfolding g2 using w st ne known by (intro renumbered_keeps) auto
  then show ?thesis by (simp add: g2 G_update_daemon_memb_ids_def)
qed

lemma eliminate_step_keeps:
  assumes r: "eliminate_step s g = Some (r, acts)" and ok: "group_ok s g" and st: "G_state s = GTRANS"
    and my: "Conf_id_in_conf (G_Trans_memb s) (p_id (G_my s)) \<noteq> - 1" and g': "r = Some g'"
  shows "gr_name g' = gr_name g \<and> group_ok (s\<lparr>G_state := GGATHER\<rparr>) g'"
proof (cases "changed g")
  case False
  then have "g' = g" using r g' by (simp add: eliminate_step_def)
  moreover have "\<forall>d \<in> set (DaemonsList g). Is_established_daemon d"
    using ok False by (auto simp: group_ok_def ids_ok_def Is_established_daemon_def)
  ultimately show ?thesis using ok by (auto simp: group_ok_def state_ok_def)
next
  case True
  have d: "daemons_ok (Cn_active s) g" using ok by (simp add: group_ok_def)
  note w = without_keeps [OF ok _ my]
  have "DaemonsList (without (gone s) g) \<noteq> []" and "g' = without (gone s) g"
    using r True w(4) st g' by (auto simp: eliminate_step_def eliminate_status [OF d] split: if_splits)
  with w st show ?thesis by (simp add: group_ok_def state_ok_def)
qed

lemma cascade_eliminate_step_keeps:
  assumes r: "cascade_eliminate_step s g = Some (r, acts)" and ok: "group_ok s g" and st: "G_state s = GGT"
    and my: "Conf_id_in_conf (G_Trans_memb s) (p_id (G_my s)) \<noteq> - 1" and g': "r = Some g'"
  shows "gr_name g' = gr_name g \<and>
    group_ok (s\<lparr>G_state := GGATHER, MySyncedSet := G_update_synced_set (G_Trans_memb s) (MySyncedSet s)\<rparr>) g'"
proof -
  have d: "daemons_ok (Cn_active s) g" using ok by (simp add: group_ok_def)
  note w = without_keeps [OF ok _ my]
  have g'': "(g' = without (gone s) g \<and> \<not> list_ex (gone s) (DaemonsList g) \<or> g' = (without (gone s) g)\<lparr>changed := True\<rparr>) \<and>
      (list_ex (gone s) (DaemonsList g) \<longrightarrow> DaemonsList (without (gone s) g) \<noteq> [])"
    using r w(4) st g' by (auto simp: cascade_eliminate_step_def eliminate_status [OF d] split: if_splits)
  have ne: "DaemonsList g' \<noteq> []"
  proof (cases "list_ex (gone s) (DaemonsList g)")
    case False
    then have "DaemonsList (without (gone s) g) = DaemonsList g"
      by (auto simp: without_def list_ex_iff filter_id_conv)
    with ok g'' show ?thesis by (auto simp: group_ok_def)
  qed (use g'' in auto)
  have "ids_ok (set (G_update_synced_set (G_Trans_memb s) (MySyncedSet s))) (without (gone s) g)"
    using w(3,6) st by (auto simp: ids_ok_def synced_filter)
  then have "ids_ok (set (G_update_synced_set (G_Trans_memb s) (MySyncedSet s))) g'"
    using g'' by (auto simp: ids_ok_def)
  with w st ne g'' show ?thesis by (auto simp: group_ok_def state_ok_def)
qed

lemma notify_step_keeps:
  assumes r: "notify_step s g = Some (r, acts)" and ok: "group_ok s g" and st: "G_state s = GGATHER \<or> G_state s = GGT"
    and known: "\<not> Is_unknown_memb_id (G_Reg_memb_id s)"
  obtains g' where "r = Some g'" "gr_name g' = gr_name g" "group_ok (s\<lparr>G_state := GOP\<rparr>) g'"
proof (cases "changed g")
  case False
  with r ok that show thesis by (auto simp: notify_step_def group_ok_def state_ok_def)
next
  case True
  let ?g = "G_update_daemon_memb_ids (g\<lparr>grp_id := \<lparr>gi_memb_id = G_Reg_memb_id s, gi_index = 1\<rparr>, changed := False\<rparr>)"
  have "r = Some ?g" using r True by (auto simp: notify_step_def Let_def)
  moreover have "group_ok (s\<lparr>G_state := GOP\<rparr>) ?g"
    using ok st known by (intro renumbered_keeps) (auto simp: group_ok_def state_ok_def)
  moreover have "gr_name ?g = gr_name g" by (simp add: G_update_daemon_memb_ids_def)
  ultimately show thesis using that by blast
qed

end
