(* ===== verification/GroupsView.thy ===== *)
theory GroupsView
  imports GroupsKeep
begin

text \<open>
  The abstract state of \<open>daemon/groups.c\<close>: which members, at which daemons, are in which groups.
  A join inserts, a departure deletes, and a membership filters.
\<close>

definition group_view :: "spread_group \<Rightarrow> (int32u \<times> string) set" where
  "group_view g = {(dm_proc_id d, nm) | d nm. d \<in> set (DaemonsList g) \<and> nm \<in> set (MembersList d)}"

definition views :: "spread_group list \<Rightarrow> (string \<times> int32u \<times> string) set" where
  "views gs = (\<Union>g \<in> set gs. Pair (gr_name g) ` group_view g)"

definition view :: "groups_state \<Rightarrow> (string \<times> int32u \<times> string) set" where
  "view s = views (GroupsList s)"

lemma views_iff: "(n, x) \<in> views gs \<longleftrightarrow> (\<exists>g \<in> set gs. gr_name g = n \<and> x \<in> group_view g)"
  by (auto simp: views_def)

lemma views_append [simp]: "views (xs @ ys) = views xs \<union> views ys" "views [] = {}"
  "views (g # gs) = Pair (gr_name g) ` group_view g \<union> views gs"
  by (auto simp: views_def)

lemma group_view_daemons:
  "DaemonsList g = ds \<Longrightarrow> group_view g = (\<Union>d \<in> set ds. Pair (dm_proc_id d) ` set (MembersList d))"
  by (auto simp: group_view_def)

lemma view_emit [simp]: "view (g_emit a s) = view s"
  by (simp add: view_def g_emit_def)

lemma nameptr_short: "length b < MAX_GROUP_NAME \<Longrightarrow> G_compare_nameptr a b = 0 \<longleftrightarrow> a = b"
  by (auto simp: G_compare_nameptr_def strncmp_zero take_all_iff min_def dest!: arg_cong [of _ _ length] split: if_splits)

section \<open>One group\<close>

lemma is_member_iff:
  assumes "daemons_ok (Cn_active s) g" "length nm < MAX_GROUP_NAME"
  shows "is_member s i nm g \<longleftrightarrow> (i, nm) \<in> group_view g"
proof (cases "G_get_daemon (Cn_active s) g i")
  case None
  then have "\<forall>d \<in> set (DaemonsList g). dm_proc_id d \<noteq> i" by (simp add: G_get_daemon_def skl_find_None)
  with None show ?thesis by (auto simp: is_member_def group_view_def)
next
  case (Some d)
  have srt: "skl_sorted dm_proc_id (G_compare_proc_ids_by_conf_internal (Cn_active s)) (DaemonsList g)"
    using assms(1) by (simp add: daemons_ok_def)
  obtain us vs where uv: "DaemonsList g = us @ d # vs" "dm_proc_id d = i" "\<forall>u \<in> set us \<union> set vs. dm_proc_id u \<noteq> i"
    using find_daemon_split [OF srt Some] .
  have "G_get_member d nm \<noteq> None \<longleftrightarrow> nm \<in> set (MembersList d)"
    using assms(2) by (auto simp: G_get_member_def skl_find_None nameptr_short)
  with Some uv show ?thesis by (auto simp: is_member_def group_view_def)
qed

lemma join_member_view:
  assumes j: "join_member s i nm private_name g = Some (g', acts)" and d: "daemons_ok (Cn_active s) g"
    and len: "length nm < MAX_GROUP_NAME"
  shows "group_view g' = insert (i, nm) (group_view g)"
proof -
  have srt: "skl_sorted dm_proc_id (daemon_order s) (DaemonsList g)" using d by (simp add: daemons_ok_def)
  from j srt show ?thesis
  proof (cases rule: join_member_cases)
    case already
    with is_member_iff [OF d len] show ?thesis by auto
  next
    case (joined e us vs new_mbox)
    have "set (skl_put id G_compare_nameptr nm (MembersList e)) = insert nm (set (MembersList e))"
    proof -
      obtain xs ys where "MembersList e = xs @ ys" "skl_put id G_compare_nameptr nm (MembersList e) = xs @ nm # ys"
        using names.skl_put_split [where key = id and x = nm and xs = "MembersList e"] joined(2)
        by (auto simp: G_get_member_def)
      then show ?thesis by simp
    qed
    then have "group_view g' = insert (i, nm) (group_view (g\<lparr>DaemonsList := us @ e # vs\<rparr>))"
      using joined(3) by (simp add: group_view_daemons [OF joined(5)] group_view_daemons [of _ "us @ e # vs"])
    moreover have "group_view (g\<lparr>DaemonsList := us @ e # vs\<rparr>) = group_view g"
      using joined(4)
    proof
      assume "DaemonsList g = us @ vs \<and> e = new_daemon s g i \<and> G_get_daemon (Cn_active s) g i = None"
      then show ?thesis by (auto simp: group_view_def new_daemon_def)
    qed (simp add: group_view_def)
    ultimately show ?thesis by simp
  qed
qed

lemma depart_view:
  assumes dep: "depart s i nm caused g = Some (r, acts)" and d: "daemons_ok (Cn_active s) g"
    and mem: "is_member s i nm g" and len: "length nm < MAX_GROUP_NAME"
  shows "case r of None \<Rightarrow> group_view g - {(i, nm)} = {} | Some g' \<Rightarrow> gr_name g' = gr_name g \<and> group_view g' = group_view g - {(i, nm)}"
proof -
  let ?c = "Cn_active s"
  have srt: "skl_sorted dm_proc_id (daemon_order s) (DaemonsList g)" using d by (simp add: daemons_ok_def)
  obtain e where e: "G_get_daemon ?c g i = Some e" using mem by (auto simp: is_member_def split: option.splits)
  obtain us vs ms where s: "DaemonsList g = us @ e # vs" "dm_proc_id e = i" "\<forall>u \<in> set us \<union> set vs. dm_proc_id u \<noteq> i"
      "ms = skl_erase id G_compare_nameptr nm (MembersList e)"
      and drop: "drop_member ?c i nm g = Some (g\<lparr>DaemonsList := us @ (if ms = [] then [] else [e\<lparr>MembersList := ms\<rparr>]) @ vs,
        gr_num_members := gr_num_members g - 1\<rparr>)"
    using drop_member_cases [OF srt e] by blast
  define g1 where "g1 = g\<lparr>DaemonsList := us @ (if ms = [] then [] else [e\<lparr>MembersList := ms\<rparr>]) @ vs,
        gr_num_members := gr_num_members g - 1\<rparr>"
  have drop': "drop_member ?c i nm g = Some g1" using drop by (simp add: g1_def)
  have ms: "set ms = set (MembersList e) - {nm}"
    using s(4) len by (auto simp: skl_erase_def nameptr_short)
  have "DaemonsList g1 = us @ (if ms = [] then [] else [e\<lparr>MembersList := ms\<rparr>]) @ vs" by (simp add: g1_def)
  from group_view_daemons [OF this] have v: "group_view g1 = group_view g - {(i, nm)}"
    using s(2,3) ms by (cases "ms = []") (auto simp: group_view_daemons [OF s(1)])
  have empty: "DaemonsList g1 = [] \<Longrightarrow> group_view g1 = {}" by (simp add: group_view_def)
  show ?thesis
  proof (cases r)
    case None
    with dep have "removable g1" by (auto simp: depart_def drop' Let_def split: if_splits)
    with None v empty show ?thesis by (simp add: removable_def)
  next
    case (Some g')
    with dep have "g' = g1\<lparr>grp_id := (grp_id g1)\<lparr>gi_index := gi_index (grp_id g1) + 1\<rparr>\<rparr>"
      by (auto simp: depart_def drop' Let_def split: if_splits)
    then have "gr_name g' = gr_name g" "DaemonsList g' = DaemonsList g1" by (simp_all add: g1_def)
    with Some v show ?thesis by (simp add: group_view_def)
  qed
qed

lemma mailbox_view:
  assumes "G_remove_mailbox m g = Some g1"
  shows "group_view g1 = group_view g" "daemons_ok c g1 = daemons_ok c g" "is_member s i nm g1 = is_member s i nm g"
    "gr_name g1 = gr_name g"
proof -
  obtain ms where "g1 = g\<lparr>mboxes := ms\<rparr>" using remove_mailbox_mset(2) [OF assms] by blast
  then show "group_view g1 = group_view g" "daemons_ok c g1 = daemons_ok c g" "is_member s i nm g1 = is_member s i nm g"
    "gr_name g1 = gr_name g"
    by (simp_all add: group_view_def daemons_ok_def group_members_def is_member_def G_get_daemon_def)
qed

lemma leave_group_view:
  assumes l: "leave_group s i nm private_name g = Some (r, acts)" and d: "daemons_ok (Cn_active s) g"
    and mem: "is_member s i nm g" and len: "length nm < MAX_GROUP_NAME"
  shows "case r of None \<Rightarrow> group_view g - {(i, nm)} = {} | Some g' \<Rightarrow> gr_name g' = gr_name g \<and> group_view g' = group_view g - {(i, nm)}"
proof (cases "i = p_id (G_my s)")
  case True
  with l obtain x :: session and g1 a where g1: "G_remove_mailbox (ses_mbox x) g = Some g1" and dep: "depart s i nm CAUSED_BY_LEAVE g1 = Some (r, a)"
    by (auto simp: leave_group_def split: option.splits)
  from depart_view [OF dep _ _ len] show ?thesis using mailbox_view [OF g1] d mem by (cases r) simp_all
next
  case False
  with l have "depart s i nm CAUSED_BY_LEAVE g = Some (r, acts)" by (simp add: leave_group_def)
  from depart_view [OF this d mem len] show ?thesis .
qed

lemma kill_step_view:
  assumes l: "kill_step s i nm private_name g = Some (r, acts)" and d: "daemons_ok (Cn_active s) g"
    and len: "length nm < MAX_GROUP_NAME"
  shows "case r of None \<Rightarrow> group_view g - {(i, nm)} = {} | Some g' \<Rightarrow> gr_name g' = gr_name g \<and> group_view g' = group_view g - {(i, nm)}"
proof (cases "is_member s i nm g")
  case False
  with l is_member_iff [OF d len, of i] show ?thesis by (auto simp: kill_step_def)
next
  case mem: True
  show ?thesis
  proof (cases "i = p_id (G_my s)")
    case True
    with l mem obtain x :: session and g1 where g1: "G_remove_mailbox (ses_mbox x) g = Some g1"
      and dep: "depart s i nm CAUSED_BY_DISCONNECT g1 = Some (r, acts)"
      by (auto simp: kill_step_def split: option.splits)
    from depart_view [OF dep _ _ len] show ?thesis using mailbox_view [OF g1] d mem by (cases r) simp_all
  next
    case False
    with l mem have "depart s i nm CAUSED_BY_DISCONNECT g = Some (r, acts)" by (simp add: kill_step_def)
    from depart_view [OF this d mem len] show ?thesis .
  qed
qed

section \<open>All groups\<close>

lemma for_groups_views:
  assumes "for_groups step gs = Some (gs', acts)"
    and "\<And>g r acts. g \<in> set gs \<Longrightarrow> step g = Some (r, acts) \<Longrightarrow>
       (case r of None \<Rightarrow> {x \<in> group_view g. P x} = {} | Some g' \<Rightarrow> gr_name g' = gr_name g \<and> group_view g' = {x \<in> group_view g. P x})"
  shows "views gs' = {(n, x). (n, x) \<in> views gs \<and> P x}"
  using assms
proof (induction gs arbitrary: gs' acts)
  case (Cons g gs)
  from Cons.prems(1) obtain r a hs b where r: "step g = Some (r, a)" and hs: "for_groups step gs = Some (hs, b)"
    and gs': "gs' = (case r of None \<Rightarrow> hs | Some g' \<Rightarrow> g' # hs)"
    by (cases "step g"; cases "for_groups step gs") auto
  have IH: "views hs = {(n, x). (n, x) \<in> views gs \<and> P x}"
    by (rule Cons.IH [OF hs]) (rule Cons.prems(2), simp_all)
  show ?case
    using Cons.prems(2) [OF _ r] IH gs' by (cases r) auto
qed simp

lemma update_groups_view:
  assumes "update_groups step s = Some t"
    and "\<And>g r acts. g \<in> set (GroupsList s) \<Longrightarrow> step g = Some (r, acts) \<Longrightarrow>
       (case r of None \<Rightarrow> {x \<in> group_view g. P x} = {} | Some g' \<Rightarrow> gr_name g' = gr_name g \<and> group_view g' = {x \<in> group_view g. P x})"
  shows "view t = {(n, x). (n, x) \<in> view s \<and> P x}"
proof -
  obtain gs acts where "for_groups step (GroupsList s) = Some (gs, acts)" "GroupsList t = gs"
    using assms(1) by (auto simp: update_groups_def g_emit_def split: option.splits)
  with for_groups_views [OF this(1) assms(2)] show ?thesis by (simp add: view_def)
qed

section \<open>Memberships\<close>

lemma group_view_map:
  assumes "\<And>d. dm_proc_id (f d) = dm_proc_id d \<and> MembersList (f d) = MembersList d" "DaemonsList h = map f (DaemonsList g)"
  shows "group_view h = group_view g"
  using assms(1) by (auto simp: group_view_daemons [OF assms(2)] group_view_daemons [of g, OF refl])

lemma group_view_simps [simp]:
  "group_view (G_update_daemon_memb_ids g) = group_view g" "group_view (mark_partitioned s g) = group_view g"
  "group_view (g\<lparr>grp_id := x\<rparr>) = group_view g" "group_view (g\<lparr>changed := b\<rparr>) = group_view g"
  "gr_name (G_update_daemon_memb_ids g) = gr_name g" "gr_name (mark_partitioned s g) = gr_name g"
      apply (rule group_view_map [where f = "\<lambda>d. if Is_established_daemon d then d\<lparr>dm_memb_id := gi_memb_id (grp_id g)\<rparr> else d"];
        simp add: G_update_daemon_memb_ids_def)
     apply (rule group_view_map [where f = "\<lambda>d. if outside_trans s d then d\<lparr>dm_memb_id := unknown_memb_id\<rparr> else d"];
       simp add: mark_partitioned_def)
    by (simp_all add: group_view_def G_update_daemon_memb_ids_def mark_partitioned_def)

lemma trans_step_view:
  "trans_step s g = Some (r, acts) \<Longrightarrow> \<exists>g'. r = Some g' \<and> gr_name g' = gr_name g \<and> group_view g' = group_view g"
  by (auto simp: trans_step_def Let_def split: if_splits)

lemma cascade_step_view:
  "cascade_step s g = Some (r, acts) \<Longrightarrow> \<exists>g'. r = Some g' \<and> gr_name g' = gr_name g \<and> group_view g' = group_view g"
  by (auto simp: cascade_step_def)

lemma notify_step_view:
  "notify_step s g = Some (r, acts) \<Longrightarrow> \<exists>g'. r = Some g' \<and> gr_name g' = gr_name g \<and> group_view g' = group_view g"
  by (auto simp: notify_step_def Let_def split: if_splits)

text \<open>What is left are the members of daemons in the transitional membership.\<close>

lemma without_view:
  assumes "\<And>d. d \<in> set (DaemonsList g) \<Longrightarrow> gone s d \<longleftrightarrow> \<not> in_memb (dm_proc_id d)"
  shows "group_view (without (gone s) g) = {x \<in> group_view g. in_memb (fst x)}"
  using assms by (fastforce simp: group_view_def without_def)

lemma gone_outside:
  assumes "group_ok s g" "G_state s = GTRANS \<or> G_state s = GGT" "d \<in> set (DaemonsList g)"
  shows "gone s d \<longleftrightarrow> \<not> Conf_id_in_conf (G_Trans_memb s) (dm_proc_id d) \<noteq> - 1"
  using assms by (auto simp: group_ok_def state_ok_def gone_def outside_trans_def)

lemma unchanged_stays:
  assumes ok: "group_ok s g" and st: "G_state s = GTRANS" and ch: "\<not> changed g"
  shows "{x \<in> group_view g. Conf_id_in_conf (G_Trans_memb s) (fst x) \<noteq> - 1} = group_view g"
proof -
  have "Conf_id_in_conf (G_Trans_memb s) (dm_proc_id d) \<noteq> - 1" if "d \<in> set (DaemonsList g)" for d
    using that ok st ch by (auto simp: group_ok_def ids_ok_def state_ok_def Is_partitioned_daemon_def)
  then show ?thesis by (auto simp: group_view_def)
qed

lemma emptied:
  assumes "group_ok s g" "G_state s = GTRANS \<or> G_state s = GGT" "Conf_id_in_conf (G_Trans_memb s) (p_id (G_my s)) \<noteq> - 1"
    and "gr_num_members (without (gone s) g) = 0"
  shows "{x \<in> group_view g. Conf_id_in_conf (G_Trans_memb s) (fst x) \<noteq> - 1} = {}"
proof -
  have "group_view (without (gone s) g) = {}"
    using without_keeps(4) [OF assms(1-3)] assms(4) by (simp add: group_view_def)
  with without_view [OF gone_outside [OF assms(1,2)]] show ?thesis by simp
qed

abbreviation in_trans :: "groups_state \<Rightarrow> int32u \<times> string \<Rightarrow> bool" where
  "in_trans s x \<equiv> Conf_id_in_conf (G_Trans_memb s) (fst x) \<noteq> - 1"

lemma eliminating_view:
  assumes ok: "group_ok s g" and my: "Conf_id_in_conf (G_Trans_memb s) (p_id (G_my s)) \<noteq> - 1"
    and r: "settle_step s g = Some (r, acts) \<and> G_state s = GTRANS \<or> eliminate_step s g = Some (r, acts) \<and> G_state s = GTRANS \<or>
      cascade_eliminate_step s g = Some (r, acts) \<and> G_state s = GGT"
  shows "case r of None \<Rightarrow> {x \<in> group_view g. in_trans s x} = {}
    | Some g' \<Rightarrow> gr_name g' = gr_name g \<and> group_view g' = {x \<in> group_view g. in_trans s x}"
proof -
  have d: "daemons_ok (Cn_active s) g" using ok by (simp add: group_ok_def)
  have st: "G_state s = GTRANS \<or> G_state s = GGT" using r by auto
  let ?w = "without (gone s) g"
  have v: "group_view ?w = {x \<in> group_view g. in_trans s x}" by (rule without_view [OF gone_outside [OF ok st]])
  have e: "gr_num_members ?w = 0 \<Longrightarrow> {x \<in> group_view g. in_trans s x} = {}" by (rule emptied [OF ok st my])
  have same: "G_state s = GTRANS \<Longrightarrow> \<not> changed g \<Longrightarrow> {x \<in> group_view g. in_trans s x} = group_view g"
    by (rule unchanged_stays [OF ok])
  consider "G_state s = GTRANS" "\<not> changed g" "r = Some g" | "r = None" "gr_num_members ?w = 0"
    | g' where "r = Some g'" "gr_name g' = gr_name ?w" "group_view g' = group_view ?w"
    using r by (auto simp: settle_step_def eliminate_step_def cascade_eliminate_step_def eliminate_status [OF d] Let_def split: if_splits)
  then show ?thesis by cases (use v e same in auto)
qed

end
