(* ===== verification/GroupsMerge.thy ===== *)
theory GroupsMerge
  imports GroupsView
begin

text \<open>
  Merging the groups messages of another synced set into the groups of this daemon. What the
  messages of one set say is a list of \<open>group_part\<close>s; \<open>parts_ok\<close> is what holds of it when the sender
  runs the same code: only daemons of the sender's set, each once in a group, with its members.
\<close>

definition part_pairs :: "group_part list \<Rightarrow> (string \<times> int32u) list" where
  "part_pairs ps = concat (map (\<lambda>p. map (\<lambda>x. (pt_name p, dm_proc_id (fst x))) (pt_daemons p)) ps)"

definition entry_ok :: "int32u list \<Rightarrow> daemon_members \<times> int \<Rightarrow> bool" where
  "entry_ok sset x \<longleftrightarrow> daemon_ok (fst x) \<and> snd x = int (length (MembersList (fst x))) \<and>
     Is_established_daemon (fst x) \<and> dm_proc_id (fst x) \<in> set sset"

definition part_ok :: "int32u list \<Rightarrow> group_part \<Rightarrow> bool" where
  "part_ok sset p \<longleftrightarrow> \<not> Is_unknown_memb_id (gi_memb_id (pt_grp_id p)) \<and> length (pt_name p) < MAX_GROUP_NAME \<and>
     (\<forall>x \<in> set (pt_daemons p). entry_ok sset x)"

definition parts_ok :: "int32u list \<Rightarrow> group_part list \<Rightarrow> bool" where
  "parts_ok sset ps \<longleftrightarrow> (\<forall>p \<in> set ps. part_ok sset p) \<and> distinct (part_pairs ps) \<and>
     (\<forall>p \<in> set ps. \<exists>q \<in> set ps. pt_name q = pt_name p \<and> pt_daemons q \<noteq> [])"

section \<open>One group\<close>

text \<open>A group while messages are merged: it may still be empty, and its daemons are of both sets.\<close>

definition merging_ok :: "groups_state \<Rightarrow> int32u list \<Rightarrow> spread_group \<Rightarrow> bool" where
  "merging_ok s sset g \<longleftrightarrow> daemons_ok (Cn_active s) g \<and> boxes_ok (Sessions s) (G_my s) g \<and>
     ids_ok (set (MySyncedSet s) \<union> set sset) g \<and> (\<forall>d \<in> set (DaemonsList g). Is_established_daemon d)"

lemma merge_daemon:
  assumes ok: "merging_ok s sset g" and e: "entry_ok sset (d, n)"
    and fresh: "\<forall>u \<in> set (DaemonsList g). dm_proc_id u \<noteq> dm_proc_id d" and my: "p_id (G_my s) \<notin> set sset"
  defines "h \<equiv> g\<lparr>DaemonsList := skl_put dm_proc_id (daemon_order s) d (DaemonsList g),
        changed := changed g \<or> \<not> Memb_is_equal (dm_memb_id d) (gi_memb_id (grp_id g)),
        gr_num_members := gr_num_members g + n\<rparr>"
  shows "merging_ok s sset h \<and> set (DaemonsList h) = insert d (set (DaemonsList g))"
proof -
  have srt: "skl_sorted dm_proc_id (daemon_order s) (DaemonsList g)"
    using ok by (simp add: merging_ok_def daemons_ok_def)
  have none: "G_get_daemon (Cn_active s) g (dm_proc_id d) = None"
    using fresh by (auto simp: G_get_daemon_def skl_find_None)
  obtain us vs where uv: "DaemonsList g = us @ vs" "skl_put dm_proc_id (daemon_order s) d (DaemonsList g) = us @ d # vs"
    using put_daemon_split [OF none] .
  have D: "DaemonsList g = us @ [] @ vs" "DaemonsList h = us @ [d] @ vs" using uv by (simp_all add: h_def)
  have "skl_sorted dm_proc_id (daemon_order s) (DaemonsList h)"
    using proc_ids.skl_sorted_put [OF srt, of d] by (simp add: h_def)
  moreover have "length (group_members h) = length (group_members g) + length (MembersList d)"
    by (simp add: group_members_def D)
  ultimately have "daemons_ok (Cn_active s) h"
    using ok e by (auto simp: daemons_ok_def merging_ok_def entry_ok_def D) (simp_all add: h_def)
  moreover have "boxes_ok (Sessions s) (G_my s) h"
  proof -
    have "members_at (p_id (G_my s)) h = members_at (p_id (G_my s)) g"
      using D by (rule members_at_elsewhere) (use e my in \<open>auto simp: entry_ok_def\<close>)
    moreover have "mboxes h = mboxes g" by (simp add: h_def)
    ultimately show ?thesis using ok by (simp add: merging_ok_def boxes_ok_def)
  qed
  moreover have "ids_ok (set (MySyncedSet s) \<union> set sset) h"
    using ok e unfolding merging_ok_def ids_ok_def D by (auto simp: h_def entry_ok_def)
  moreover have "\<forall>d \<in> set (DaemonsList h). Is_established_daemon d"
    using ok e by (auto simp: merging_ok_def entry_ok_def D)
  ultimately show ?thesis by (simp add: merging_ok_def D)
qed

lemma merge_daemons:
  assumes "merging_ok s sset g" "\<forall>x \<in> set ds. entry_ok sset x" "distinct (map (\<lambda>x. dm_proc_id (fst x)) ds)"
    "\<forall>x \<in> set ds. \<forall>u \<in> set (DaemonsList g). dm_proc_id u \<noteq> dm_proc_id (fst x)" "p_id (G_my s) \<notin> set sset"
  shows "merging_ok s sset (add_daemons (Cn_active s) ds g) \<and>
     set (DaemonsList (add_daemons (Cn_active s) ds g)) = set (DaemonsList g) \<union> fst ` set ds \<and>
     gr_name (add_daemons (Cn_active s) ds g) = gr_name g"
  using assms
proof (induction "Cn_active s" ds g rule: add_daemons.induct)
  case (2 d n ds g)
  let ?h = "g\<lparr>DaemonsList := skl_put dm_proc_id (daemon_order s) d (DaemonsList g),
        changed := changed g \<or> \<not> Memb_is_equal (dm_memb_id d) (gi_memb_id (grp_id g)),
        gr_num_members := gr_num_members g + n\<rparr>"
  have h: "merging_ok s sset ?h \<and> set (DaemonsList ?h) = insert d (set (DaemonsList g))"
    by (rule merge_daemon [OF 2(2) _ _ 2(6)]) (use 2(3,5) in auto)
  have "merging_ok s sset (add_daemons (Cn_active s) ds ?h) \<and>
     set (DaemonsList (add_daemons (Cn_active s) ds ?h)) = set (DaemonsList ?h) \<union> fst ` set ds \<and>
     gr_name (add_daemons (Cn_active s) ds ?h) = gr_name ?h"
  proof (rule 2(1))
    show "merging_ok s sset ?h" using h by blast
    show "\<forall>x \<in> set ds. \<forall>u \<in> set (DaemonsList ?h). dm_proc_id u \<noteq> dm_proc_id (fst x)"
      using h 2(4,5) by (auto simp: image_iff)
  qed (use 2(3,4,6) in auto)
  moreover have "gr_name ?h = gr_name g" by simp
  ultimately show ?case using h by (simp del: Memb_is_equal_iff)
qed simp

section \<open>The list of groups\<close>

text \<open>\<open>ps\<close> are the parts still to come.\<close>

definition merging :: "int32u list \<Rightarrow> group_part list \<Rightarrow> groups_state \<Rightarrow> bool" where
  "merging sset ps s \<longleftrightarrow>
     skl_sorted gr_name G_compare_nameptr (GroupsList s) \<and> Num_groups s = int (length (GroupsList s)) \<and>
     (\<forall>g \<in> set (GroupsList s). length (gr_name g) < MAX_GROUP_NAME \<and> merging_ok s sset g \<and>
        (DaemonsList g = [] \<longrightarrow> (\<exists>q \<in> set ps. pt_name q = gr_name g \<and> pt_daemons q \<noteq> [])) \<and>
        (\<forall>d \<in> set (DaemonsList g). (gr_name g, dm_proc_id d) \<notin> set (part_pairs ps))) \<and>
     (\<forall>p \<in> set ps. part_ok sset p) \<and> distinct (part_pairs ps) \<and>
     (\<forall>p \<in> set ps. (\<exists>q \<in> set ps. pt_name q = pt_name p \<and> pt_daemons q \<noteq> []) \<or>
        (\<exists>g \<in> set (GroupsList s). gr_name g = pt_name p))"

definition fresh_group :: "group_part \<Rightarrow> spread_group" where
  "fresh_group p = \<lparr>gr_name = pt_name p, grp_id = pt_grp_id p, changed = False, gr_num_members = 0,
                    DaemonsList = [], mboxes = []\<rparr>"

definition merged_part :: "groups_state \<Rightarrow> group_part \<Rightarrow> spread_group \<Rightarrow> spread_group" where
  "merged_part s p g = add_daemons (Cn_active s) (pt_daemons p) (g\<lparr>changed := changed g \<or> pt_changed p\<rparr>)"

lemma add_group_part_split:
  assumes srt: "skl_sorted gr_name G_compare_nameptr (GroupsList s)"
    and len: "length (pt_name p) < MAX_GROUP_NAME" "\<forall>g \<in> set (GroupsList s). length (gr_name g) < MAX_GROUP_NAME"
    and name: "\<And>g. gr_name (merged_part s p g) = gr_name g"
  obtains us g vs where
    "add_group_part p s = s\<lparr>GroupsList := us @ merged_part s p g # vs,
        Num_groups := Num_groups s + (int (length (us @ g # vs)) - int (length (GroupsList s)))\<rparr>"
    "GroupsList s = us @ g # vs \<or> GroupsList s = us @ vs \<and> g = fresh_group p"
    "gr_name g = pt_name p" "\<forall>u \<in> set us \<union> set vs. gr_name u \<noteq> pt_name p"
    "skl_sorted gr_name G_compare_nameptr (us @ merged_part s p g # vs)"
proof (cases "G_get_group (pt_name p) (GroupsList s)")
  case None
  have "skl_find gr_name G_compare_nameptr (gr_name (fresh_group p)) (GroupsList s) = None"
    using None by (simp add: G_get_group_def fresh_group_def)
  from names.skl_put_split [OF this] obtain us vs where
    uv: "GroupsList s = us @ vs" "skl_put gr_name G_compare_nameptr (fresh_group p) (GroupsList s) = us @ fresh_group p # vs" .
  have others: "\<forall>u \<in> set us \<union> set vs. gr_name u \<noteq> pt_name p"
    using None len uv(1) by (auto simp: G_get_group_def skl_find_None)
  have up: "skl_update gr_name G_compare_nameptr (pt_name p) (merged_part s p) (us @ fresh_group p # vs) =
      us @ merged_part s p (fresh_group p) # vs"
    by (rule skl_update_split) (use others len uv(1) in \<open>auto simp: fresh_group_def\<close>)
  have srt': "skl_sorted gr_name G_compare_nameptr (us @ merged_part s p (fresh_group p) # vs)"
    using names.skl_sorted_put [OF srt, of "fresh_group p"] uv(2) by (simp add: skl_sorted_keys name)
  have "add_group_part p s = s\<lparr>GroupsList := us @ merged_part s p (fresh_group p) # vs,
        Num_groups := Num_groups s + (int (length (us @ fresh_group p # vs)) - int (length (GroupsList s)))\<rparr>"
    using None uv up by (simp add: add_group_part_def fresh_group_def merged_part_def [abs_def] Let_def)
  with uv(1) others srt' show thesis by (intro that) (auto simp: fresh_group_def)
next
  case (Some g)
  from names.skl_find_split [OF srt Some [unfolded G_get_group_def]] obtain us vs where
    uv: "GroupsList s = us @ g # vs" "G_compare_nameptr (gr_name g) (pt_name p) = 0"
      "\<forall>u \<in> set us \<union> set vs. G_compare_nameptr (gr_name u) (pt_name p) \<noteq> 0" .
  then have others: "gr_name g = pt_name p" "\<forall>u \<in> set us \<union> set vs. gr_name u \<noteq> pt_name p"
    using len names.cmp_self by auto
  have up: "skl_update gr_name G_compare_nameptr (pt_name p) (merged_part s p) (us @ g # vs) = us @ merged_part s p g # vs"
    using uv(2,3) by (intro skl_update_split)
  have "skl_sorted gr_name G_compare_nameptr (us @ merged_part s p g # vs)"
    using srt by (simp add: skl_sorted_keys name uv(1))
  moreover have "add_group_part p s = s\<lparr>GroupsList := us @ merged_part s p g # vs,
        Num_groups := Num_groups s + (int (length (us @ g # vs)) - int (length (GroupsList s)))\<rparr>"
    using Some uv(1) up by (simp add: add_group_part_def merged_part_def [abs_def] Let_def)
  ultimately show thesis using others uv(1) by (intro that) auto
qed

lemma add_daemons_name: "gr_name (add_daemons c ds g) = gr_name g"
  by (induction c ds g rule: add_daemons.induct) simp_all

lemma merged_part_name [simp]: "gr_name (merged_part s p g) = gr_name g"
  by (simp add: merged_part_def add_daemons_name)

lemma merging_ok_frame:
  assumes "Cn_active t = Cn_active s" "Sessions t = Sessions s" "G_my t = G_my s" "MySyncedSet t = MySyncedSet s"
  shows "merging_ok t sset g = merging_ok s sset g"
  by (simp add: merging_ok_def assms)

text \<open>The members that messages tell of.\<close>

definition part_view :: "group_part list \<Rightarrow> (string \<times> int32u \<times> string) set" where
  "part_view ps =
     (\<Union>p \<in> set ps. Pair (pt_name p) ` (\<Union>d \<in> fst ` set (pt_daemons p). Pair (dm_proc_id d) ` set (MembersList d)))"

lemma part_view_simps: "part_view [] = {}" "part_view (p # ps) = part_view [p] \<union> part_view ps"
  "part_view (ps @ qs) = part_view ps \<union> part_view qs"
  by (simp_all add: part_view_def)

lemma part_view_one:
  "part_view [p] = Pair (pt_name p) ` (\<Union>d \<in> fst ` set (pt_daemons p). Pair (dm_proc_id d) ` set (MembersList d))"
  by (simp add: part_view_def)

lemma add_group_part_step:
  assumes m: "merging sset (p # ps) s" and my: "p_id (G_my s) \<notin> set sset"
  shows "merging sset ps (add_group_part p s)" and "view (add_group_part p s) = view s \<union> part_view [p]"
proof -
  have srt: "skl_sorted gr_name G_compare_nameptr (GroupsList s)" and num: "Num_groups s = int (length (GroupsList s))"
    and p: "part_ok sset p" using m by (auto simp: merging_def)
  have old: "\<And>g. g \<in> set (GroupsList s) \<Longrightarrow> length (gr_name g) < MAX_GROUP_NAME \<and> merging_ok s sset g \<and>
        (DaemonsList g = [] \<longrightarrow> (\<exists>q \<in> set (p # ps). pt_name q = gr_name g \<and> pt_daemons q \<noteq> [])) \<and>
        (\<forall>d \<in> set (DaemonsList g). (gr_name g, dm_proc_id d) \<notin> set (part_pairs (p # ps)))"
    using m unfolding merging_def by blast
  have plen: "length (pt_name p) < MAX_GROUP_NAME" using p by (simp add: part_ok_def)
  obtain us g vs where s': "add_group_part p s = s\<lparr>GroupsList := us @ merged_part s p g # vs,
        Num_groups := Num_groups s + (int (length (us @ g # vs)) - int (length (GroupsList s)))\<rparr>"
    and g: "GroupsList s = us @ g # vs \<or> GroupsList s = us @ vs \<and> g = fresh_group p" and name: "gr_name g = pt_name p"
    and others: "\<forall>u \<in> set us \<union> set vs. gr_name u \<noteq> pt_name p"
    and srt': "skl_sorted gr_name G_compare_nameptr (us @ merged_part s p g # vs)"
    using add_group_part_split [OF srt plen _ merged_part_name] old by blast
  have pairs: "part_pairs (p # ps) = map (\<lambda>x. (pt_name p, dm_proc_id (fst x))) (pt_daemons p) @ part_pairs ps"
    by (simp add: part_pairs_def)
  have dist: "distinct (map (\<lambda>x. dm_proc_id (fst x)) (pt_daemons p))" "distinct (part_pairs ps)"
    and apart: "\<forall>x \<in> set (pt_daemons p). (pt_name p, dm_proc_id (fst x)) \<notin> set (part_pairs ps)"
  proof -
    have "distinct (part_pairs (p # ps))" using m unfolding merging_def by blast
    then have d: "distinct (map (\<lambda>x. (pt_name p, dm_proc_id (fst x))) (pt_daemons p))" "distinct (part_pairs ps)"
      and a: "set (map (\<lambda>x. (pt_name p, dm_proc_id (fst x))) (pt_daemons p)) \<inter> set (part_pairs ps) = {}"
      unfolding pairs distinct_append by blast+
    have "map (\<lambda>x. (pt_name p, dm_proc_id (fst x))) (pt_daemons p) = map (Pair (pt_name p)) (map (\<lambda>x. dm_proc_id (fst x)) (pt_daemons p))"
      by simp
    with d(1) show "distinct (map (\<lambda>x. dm_proc_id (fst x)) (pt_daemons p))" by (simp only: distinct_map)
    show "distinct (part_pairs ps)" by (rule d(2))
    show "\<forall>x \<in> set (pt_daemons p). (pt_name p, dm_proc_id (fst x)) \<notin> set (part_pairs ps)" using a by auto
  qed
  have gok: "merging_ok s sset (g\<lparr>changed := changed g \<or> pt_changed p\<rparr>)"
  proof -
    have "merging_ok s sset g"
      using g
    proof
      assume "GroupsList s = us @ g # vs"
      with old show ?thesis by simp
    next
      assume "GroupsList s = us @ vs \<and> g = fresh_group p"
      with p show ?thesis
        by (simp add: merging_ok_def fresh_group_def daemons_ok_def boxes_ok_def ids_ok_def group_members_def members_at_def part_ok_def)
    qed
    then show ?thesis by (auto simp: merging_ok_def ids_ok_def)
  qed
  have new: "\<forall>x \<in> set (pt_daemons p). \<forall>u \<in> set (DaemonsList g). dm_proc_id u \<noteq> dm_proc_id (fst x)"
  proof (intro ballI notI)
    fix x u assume x: "x \<in> set (pt_daemons p)" and u: "u \<in> set (DaemonsList g)" "dm_proc_id u = dm_proc_id (fst x)"
    then have "GroupsList s = us @ g # vs" using g by (auto simp: fresh_group_def)
    moreover have "(gr_name g, dm_proc_id u) \<in> set (part_pairs (p # ps))"
      unfolding pairs name u(2) using x by simp
    ultimately show False using old [of g] u(1) by auto
  qed
  have mg: "merging_ok s sset (merged_part s p g) \<and> set (DaemonsList (merged_part s p g)) = set (DaemonsList g) \<union> fst ` set (pt_daemons p)"
    using merge_daemons [OF gok _ dist(1) _ my] p new unfolding merged_part_def by (simp add: part_ok_def)
  have rest: "(DaemonsList u = [] \<longrightarrow> (\<exists>q \<in> set ps. pt_name q = gr_name u \<and> pt_daemons q \<noteq> [])) \<and>
        (\<forall>d \<in> set (DaemonsList u). (gr_name u, dm_proc_id d) \<notin> set (part_pairs ps))"
    if "u \<in> set us \<union> set vs" for u
  proof -
    have "gr_name u \<noteq> pt_name p" using that others by blast
    moreover have "u \<in> set (GroupsList s)" using that g by auto
    ultimately show ?thesis using old [of u] unfolding pairs by auto
  qed
  have here: "DaemonsList (merged_part s p g) = [] \<longrightarrow> (\<exists>q \<in> set ps. pt_name q = pt_name p \<and> pt_daemons q \<noteq> [])"
  proof
    assume "DaemonsList (merged_part s p g) = []"
    with mg have e: "DaemonsList g = []" "pt_daemons p = []" by auto
    show "\<exists>q \<in> set ps. pt_name q = pt_name p \<and> pt_daemons q \<noteq> []"
      using g
    proof
      assume "GroupsList s = us @ g # vs"
      with old [of g] e name show ?thesis by auto
    next
      assume "GroupsList s = us @ vs \<and> g = fresh_group p"
      with m e others show ?thesis by (auto simp: merging_def)
    qed
  qed
  have free: "\<forall>d \<in> set (DaemonsList (merged_part s p g)). (pt_name p, dm_proc_id d) \<notin> set (part_pairs ps)"
    using mg apart g old [of g] name by (auto simp: pairs fresh_group_def)
  have goodu: "length (gr_name u) < MAX_GROUP_NAME \<and> merging_ok s sset u" if "u \<in> set us \<union> set vs" for u
    using that g old [of u] by auto
  have cover: "(\<exists>q \<in> set ps. pt_name q = pt_name r \<and> pt_daemons q \<noteq> []) \<or>
      (\<exists>u \<in> set (us @ merged_part s p g # vs). gr_name u = pt_name r)" if "r \<in> set ps" for r
  proof (cases "pt_name r = pt_name p")
    case True
    with name show ?thesis by simp
  next
    case False
    from m that have "(\<exists>q \<in> set (p # ps). pt_name q = pt_name r \<and> pt_daemons q \<noteq> []) \<or>
        (\<exists>u \<in> set (GroupsList s). gr_name u = pt_name r)" by (auto simp: merging_def)
    with False g name show ?thesis by auto
  qed
  have fr: "merging_ok (add_group_part p s) sset = merging_ok s sset"
    by (rule ext, rule merging_ok_frame) (simp_all add: s')
  have "GroupsList (add_group_part p s) = us @ merged_part s p g # vs"
    "Num_groups (add_group_part p s) = int (length (us @ merged_part s p g # vs))"
    using num by (simp_all add: s')
  then show "merging sset ps (add_group_part p s)"
    unfolding merging_def fr using srt' m dist(2) mg rest here free goodu cover name plen
    by (auto simp: merging_def)
  have "group_view (merged_part s p g) = group_view g \<union> (\<Union>d \<in> fst ` set (pt_daemons p). Pair (dm_proc_id d) ` set (MembersList d))"
    using mg by (auto simp: group_view_daemons [OF refl])
  moreover have "views (us @ g # vs) = view s"
    using g
  proof
    assume "GroupsList s = us @ vs \<and> g = fresh_group p"
    then show ?thesis by (simp add: view_def fresh_group_def group_view_def)
  qed (simp add: view_def)
  ultimately show "view (add_group_part p s) = view s \<union> part_view [p]"
    using name by (auto simp: view_def s' part_view_one)
qed

section \<open>The messages of a synced set\<close>

lemma fold_parts:
  assumes "merging sset ps s" "p_id (G_my s) \<notin> set sset"
  shows "merging sset [] (fold add_group_part ps s) \<and> view (fold add_group_part ps s) = view s \<union> part_view ps"
  using assms
proof (induction ps arbitrary: s)
  case (Cons p ps)
  have "G_my (add_group_part p s) = G_my s" by (simp add: add_group_part_def Let_def)
  with Cons.IH [OF add_group_part_step(1) [OF Cons.prems]] Cons.prems(2) add_group_part_step(2) [OF Cons.prems]
  show ?case by (simp add: part_view_simps(2) [of p ps] Un_assoc)
qed (simp add: part_view_simps)

lemma fold_parts_frame:
  "\<exists>gs n. fold add_group_part ps s = s\<lparr>GroupsList := gs, Num_groups := n\<rparr>"
proof (induction ps arbitrary: s)
  case Nil
  have "s = s\<lparr>GroupsList := GroupsList s, Num_groups := Num_groups s\<rparr>" by simp
  then show ?case by (metis fold_simps(1))
next
  case (Cons p ps)
  have "add_group_part p s =
      s\<lparr>GroupsList := GroupsList (add_group_part p s), Num_groups := Num_groups (add_group_part p s)\<rparr>"
    by (cases "G_get_group (pt_name p) (GroupsList s) = None") (simp_all add: add_group_part_def Let_def)
  then obtain gs n where a: "add_group_part p s = s\<lparr>GroupsList := gs, Num_groups := n\<rparr>" by blast
  from Cons [of "add_group_part p s"] obtain hs k where
    "fold add_group_part ps (add_group_part p s) = (add_group_part p s)\<lparr>GroupsList := hs, Num_groups := k\<rparr>" by blast
  then have "fold add_group_part (p # ps) s = s\<lparr>GroupsList := hs, Num_groups := k\<rparr>" by (simp add: a)
  then show ?case by blast
qed

text \<open>What the messages of a set say, read in the order in which they are kept.\<close>

fun link_content ::
  "groups_mess list \<Rightarrow> int32u list option \<Rightarrow> (int32u list option \<times> group_part list) option" where
  "link_content [] sset = Some (sset, [])"
| "link_content (m # ms) sset =
     (case read_synced_set (Same_endian (gm_type m)) (gm_data m) of
        None \<Rightarrow> None
      | Some (found, bs) \<Rightarrow>
          (case read_groups (Same_endian (gm_type m)) bs of
             None \<Rightarrow> None
           | Some ps \<Rightarrow>
               map_option (\<lambda>(r, qs). (r, ps @ qs)) (link_content ms (if found = None then sset else found))))"

lemma link_to_groups_content:
  "link_to_groups ms sset s = map_option (\<lambda>(r, ps). (r, fold add_group_part ps s)) (link_content ms sset)"
proof (induction ms arbitrary: sset s)
  case (Cons m ms)
  let ?same = "Same_endian (gm_type m)"
  show ?case
  proof (cases "read_synced_set ?same (gm_data m)")
    case None
    then show ?thesis by (simp add: G_mess_to_groups_def Let_def)
  next
    case (Some r)
    obtain found bs where r: "read_synced_set ?same (gm_data m) = Some (found, bs)" using Some by (cases r) simp
    show ?thesis
    proof (cases "read_groups ?same bs")
      case None
      then show ?thesis by (simp add: G_mess_to_groups_def Let_def r)
    next
      case (Some ps)
      let ?x = "if found = None then sset else found"
      have "link_to_groups (m # ms) sset s = link_to_groups ms ?x (fold add_group_part ps s)"
        by (simp add: G_mess_to_groups_def Let_def r Some)
      also have "\<dots> = map_option (\<lambda>(r, qs). (r, fold add_group_part qs (fold add_group_part ps s))) (link_content ms ?x)"
        by (rule Cons.IH)
      also have "\<dots> = map_option (\<lambda>(r, ps). (r, fold add_group_part ps s)) (link_content (m # ms) sset)"
        by (cases "link_content ms ?x") (auto simp: r Some split del: if_split)
      finally show ?thesis .
    qed
  qed
qed simp

end
