(* ===== verification/SyncedSets.thy ===== *)
theory SyncedSets
  imports GroupsMerge
begin

text \<open>
  Synced sets are lists of processes in the order of the configuration, and the first one leads.
  A merge is the union in that order, so it does not depend on who merges what first.
\<close>

abbreviation conf_index :: "configuration \<Rightarrow> int32u \<Rightarrow> int" where
  "conf_index c i \<equiv> fst (Conf_proc_by_id_in_conf c i)"

definition in_order :: "configuration \<Rightarrow> int32u list \<Rightarrow> bool" where
  "in_order c ids \<longleftrightarrow> sorted_wrt (\<lambda>i j. conf_index c i < conf_index c j) ids \<and> (\<forall>i \<in> set ids. conf_index c i \<noteq> -1)"

lemma conf_index_range: "conf_index c i \<noteq> -1 \<longleftrightarrow> 0 \<le> conf_index c i"
  using index_of_range [of "\<lambda>p. p_id p = i" "allprocs c"]
  by (auto simp: Conf_proc_by_id_in_conf_def Conf_proc_ref_by_id_in_conf_def Let_def)

lemma conf_index_inj: "conf_index c i \<noteq> -1 \<Longrightarrow> conf_index c i = conf_index c j \<Longrightarrow> i = j"
  by (rule Conf_proc_index_inj) (simp_all add: conf_index_range)

lemma in_order_simps [simp]:
  "in_order c []"
  "in_order c (i # ids) \<longleftrightarrow> (\<forall>j \<in> set ids. conf_index c i < conf_index c j) \<and> conf_index c i \<noteq> -1 \<and> in_order c ids"
  by (auto simp: in_order_def)

lemma in_order_filter: "in_order c ids \<Longrightarrow> in_order c (filter P ids)"
  by (auto simp: in_order_def sorted_wrt_filter)

text \<open>There is one such list of a set of processes.\<close>

lemma in_order_unique:
  assumes "in_order c xs" "in_order c ys" "set xs = set ys"
  shows "xs = ys"
proof -
  have "sorted_wrt (<) (map (conf_index c) xs)" "sorted_wrt (<) (map (conf_index c) ys)"
    using assms(1,2) by (simp_all add: in_order_def sorted_wrt_map)
  moreover have "set (map (conf_index c) xs) = set (map (conf_index c) ys)" using assms(3) by simp
  ultimately have "map (conf_index c) xs = map (conf_index c) ys"
    by (simp add: strict_sorted_equal)
  moreover have "inj_on (conf_index c) (set xs \<union> set ys)"
    using assms(1,2) conf_index_inj by (intro inj_onI) (auto simp: in_order_def)
  ultimately show ?thesis by (rule map_inj_on)
qed

text \<open>What a merge gives, and when it gives something.\<close>

lemma merge_synced_set: "merge_synced c ls rs = Some t \<Longrightarrow> set t = set ls \<union> set rs"
  by (induction c ls rs arbitrary: t rule: merge_synced.induct) (fastforce simp: Let_def split: if_splits)+

lemma merge_synced_order:
  "merge_synced c ls rs = Some t \<Longrightarrow> in_order c ls \<Longrightarrow> in_order c rs \<Longrightarrow>
     in_order c t \<and> set ls \<inter> set rs = {}"
proof (induction c ls rs arbitrary: t rule: merge_synced.induct)
  case (4 c l ls r rs)
  let ?l = "conf_index c l" and ?r = "conf_index c r"
  have known: "?l \<noteq> -1" "?r \<noteq> -1" and ne: "?l \<noteq> ?r" using "4.prems" by (auto simp: Let_def split: if_splits)
  show ?case
  proof (cases "?l < ?r")
    case True
    with "4.prems"(1) known obtain u where u: "merge_synced c ls (r # rs) = Some u" "t = l # u"
      by (auto simp: Let_def)
    from "4.IH"(1) [OF refl refl _ True u(1)] known "4.prems" have u2: "in_order c u \<and> set ls \<inter> set (r # rs) = {}"
      by simp
    moreover have "\<forall>j \<in> set u. ?l < conf_index c j"
      using merge_synced_set [OF u(1)] "4.prems"(2,3) True by auto
    moreover have "l \<notin> set (r # rs)" using "4.prems"(3) True by auto
    ultimately show ?thesis using u known by simp
  next
    case False
    with ne have less: "?r < ?l" by simp
    with False "4.prems"(1) known obtain u where u: "merge_synced c (l # ls) rs = Some u" "t = r # u"
      by (auto simp: Let_def)
    from "4.IH"(2) [OF refl refl _ False less u(1)] known "4.prems" have u2: "in_order c u \<and> set (l # ls) \<inter> set rs = {}"
      by simp
    moreover have "\<forall>j \<in> set u. ?r < conf_index c j"
      using merge_synced_set [OF u(1)] "4.prems"(2,3) less by auto
    moreover have "r \<notin> set (l # ls)" using "4.prems"(2) less by auto
    ultimately show ?thesis using u known by auto
  qed
qed (fastforce dest: merge_synced_set split: if_splits)+

lemma merge_synced_total:
  "in_order c ls \<Longrightarrow> in_order c rs \<Longrightarrow> set ls \<inter> set rs = {} \<Longrightarrow> \<exists>t. merge_synced c ls rs = Some t"
proof (induction c ls rs rule: merge_synced.induct)
  case (4 c l ls r rs)
  let ?l = "conf_index c l" and ?r = "conf_index c r"
  have "?l \<noteq> ?r" using "4.prems" conf_index_inj [of c l r] by auto
  then consider "?l < ?r" | "\<not> ?l < ?r" "?r < ?l" by linarith
  then show ?case
  proof cases
    case 1
    with "4.IH"(1) [OF refl refl _ 1] "4.prems" show ?thesis by (auto simp: Let_def)
  next
    case 2
    with "4.IH"(2) [OF refl refl _ 2] "4.prems" show ?thesis by (auto simp: Let_def)
  qed
qed (auto split: if_splits)

text \<open>Merging any number of sets into one's own.\<close>

fun merge_all :: "configuration \<Rightarrow> int32u list \<Rightarrow> int32u list list \<Rightarrow> int32u list option" where
  "merge_all c own [] = Some own"
| "merge_all c own (s # ss) = (case merge_synced c own s of None \<Rightarrow> None | Some t \<Rightarrow> merge_all c t ss)"

lemma merge_all_order:
  "merge_all c own ss = Some t \<Longrightarrow> in_order c own \<Longrightarrow> \<forall>s \<in> set ss. in_order c s \<Longrightarrow>
     in_order c t \<and> set t = set own \<union> (\<Union>s \<in> set ss. set s)"
proof (induction c own ss arbitrary: t rule: merge_all.induct)
  case (2 c own s ss)
  from "2.prems"(1) obtain u where u: "merge_synced c own s = Some u" "merge_all c u ss = Some t"
    by (auto split: option.splits)
  have "in_order c u" using merge_synced_order [OF u(1)] "2.prems"(2,3) by simp
  with "2.IH" [OF u(1) u(2)] "2.prems"(3) merge_synced_set [OF u(1)] show ?case by auto
qed simp

text \<open>The merges succeed exactly when no process is in two sets.\<close>

lemma in_order_distinct: "in_order c ids \<Longrightarrow> distinct ids"
  by (induction ids) auto

lemma merge_all_iff:
  "in_order c own \<Longrightarrow> \<forall>s \<in> set ss. in_order c s \<Longrightarrow>
     (\<exists>t. merge_all c own ss = Some t) \<longleftrightarrow> distinct (concat (own # ss))"
proof (induction c own ss rule: merge_all.induct)
  case (1 c own)
  then show ?case by (simp add: in_order_distinct)
next
  case (2 c own s ss)
  have d: "distinct own" "distinct s" using "2.prems" by (auto intro: in_order_distinct)
  show ?case
  proof (cases "merge_synced c own s")
    case None
    then have "set own \<inter> set s \<noteq> {}" using merge_synced_total [of c own s] "2.prems" by auto
    with None show ?thesis by auto
  next
    case (Some u)
    have u: "in_order c u" "set own \<inter> set s = {}" using merge_synced_order [OF Some] "2.prems" by auto
    from "2.IH" [OF Some u(1)] "2.prems"(2) merge_synced_set [OF Some] u d in_order_distinct [OF u(1)] Some
    show ?thesis by auto
  qed
qed

lemma merge_all_any_order:
  assumes "merge_all c own ss = Some t" "\<forall>s \<in> set (own # ss). in_order c s" "mset (own # ss) = mset (own' # ss')"
  shows "merge_all c own' ss' = Some t"
proof -
  have sets: "set (own # ss) = set (own' # ss')" using assms(3) by (rule mset_eq_setD)
  then have o: "\<forall>s \<in> set (own' # ss'). in_order c s" using assms(2) by simp
  have "distinct (concat (own # ss))" using merge_all_iff [of c own ss] assms(1,2) by auto
  moreover have "mset (concat (own # ss)) = mset (concat (own' # ss'))"
    using assms(3) by (simp only: mset_concat sum_mset_sum_list [symmetric] mset_map)
  ultimately have "distinct (concat (own' # ss'))" using mset_eq_imp_distinct_iff by blast
  then obtain t' where t': "merge_all c own' ss' = Some t'" using merge_all_iff [of c own' ss'] o by auto
  have a: "in_order c t" "set t = \<Union> (set ` set (own # ss))" using merge_all_order [OF assms(1)] assms(2) by auto
  have b: "in_order c t'" "set t' = \<Union> (set ` set (own' # ss'))" using merge_all_order [OF t'] o by auto
  have "t' = t" by (rule in_order_unique [OF b(1) a(1)]) (simp only: a(2) b(2) sets)
  with t' show ?thesis by simp
qed

text \<open>The sets of all messages, one after the other, and the bound of the array that they go to.\<close>

fun add_all :: "int32u list list \<Rightarrow> groups_state \<Rightarrow> groups_state option" where
  "add_all [] s = Some s"
| "add_all (ids # ss) s = (case G_add_to_synced_set (Some ids) s of None \<Rightarrow> None | Some t \<Rightarrow> add_all ss t)"

lemma add_all_merge:
  assumes "\<forall>ids \<in> set ss. in_order (G_conf s) ids" "in_order (G_conf s) (MySyncedSet s)" "int (length (MySyncedSet s)) \<le> MAX_PROCS_RING"
  shows "add_all ss s = (case merge_all (G_conf s) (MySyncedSet s) ss of None \<Rightarrow> None
    | Some ids \<Rightarrow> if int (length ids) > MAX_PROCS_RING then None else Some (s\<lparr>MySyncedSet := ids\<rparr>))"
  using assms
proof (induction ss arbitrary: s)
  case (Cons ids ss)
  show ?case
  proof (cases "merge_synced (G_conf s) (MySyncedSet s) ids")
    case None
    then show ?thesis by (simp add: G_add_to_synced_set_def)
  next
    case (Some u)
    have u: "in_order (G_conf s) u" using merge_synced_order [OF Some] Cons.prems by auto
    show ?thesis
    proof (cases "int (length u) > MAX_PROCS_RING")
      case True
      have "int (length t) > MAX_PROCS_RING" if t: "merge_all (G_conf s) u ss = Some t" for t
      proof -
        have t': "in_order (G_conf s) t" "set u \<subseteq> set t" using merge_all_order [OF t u] Cons.prems(1) by auto
        then have "card (set u) \<le> card (set t)" by (simp add: card_mono)
        then have "length u \<le> length t"
          using distinct_card [OF in_order_distinct [OF u]] distinct_card [OF in_order_distinct [OF t'(1)]] by simp
        with True show ?thesis by simp
      qed
      with True Some show ?thesis by (auto simp: G_add_to_synced_set_def split: option.splits)
    next
      case False
      with Some Cons.IH [of "s\<lparr>MySyncedSet := u\<rparr>"] Cons.prems u show ?thesis
        by (simp add: G_add_to_synced_set_def split: option.splits)
    qed
  qed
qed simp

end
