(* ===== verification/GroupsReach.thy ===== *)
theory GroupsReach
  imports SyncedSets
begin

text \<open>
  The groups of a daemon as a state machine, closed under the calls that sessions and protocol
  make: \<open>groups_step\<close>. \<open>groups_ok\<close> is its invariant.
\<close>

section \<open>The invariant\<close>

text \<open>The messages of a synced set that were sent by the same code.\<close>

definition link_ok :: "configuration \<Rightarrow> groups_message_link \<Rightarrow> bool" where
  "link_ok c l \<longleftrightarrow> (\<exists>sset ps. (\<forall>x. link_content (gl_messages l) x = Some (Some sset, ps)) \<and>
     in_order c sset \<and> parts_ok sset ps)"

definition daemon_in_ok :: "groups_state \<Rightarrow> bool" where
  "daemon_in_ok s \<longleftrightarrow> in_order (G_conf s) (MySyncedSet s) \<and> p_id (G_my s) \<in> set (MySyncedSet s) \<and>
     \<not> Is_unknown_memb_id (G_Reg_memb_id s) \<and> \<not> Is_unknown_memb_id (G_Trans_memb_id s) \<and>
     (\<forall>p \<in> set (allprocs (G_conf s)). p_id p = p_id (G_my s) \<longrightarrow> p_name p = p_name (G_my s)) \<and>
     (G_state s = GTRANS \<or> G_state s = GGT \<longrightarrow> Conf_id_in_conf (G_Trans_memb s) (p_id (G_my s)) \<noteq> -1) \<and>
     (\<forall>l \<in> set (Gathered s). gl_complete l \<longrightarrow> link_ok (G_conf s) l)"

definition list_ok :: "groups_state \<Rightarrow> bool" where
  "list_ok s \<longleftrightarrow> skl_sorted gr_name G_compare_nameptr (GroupsList s) \<and> Num_groups s = int (length (GroupsList s)) \<and>
     (\<forall>g \<in> set (GroupsList s). length (gr_name g) < MAX_GROUP_NAME \<and> group_ok s g)"

definition groups_ok :: "groups_state \<Rightarrow> bool" where
  "groups_ok s \<longleftrightarrow> daemon_in_ok s \<and> list_ok s"

text \<open>A loop over the groups whose step keeps names and sound groups.\<close>

lemma for_groups_result:
  assumes "for_groups step gs = Some (gs', acts)"
    and "\<And>g r acts. g \<in> set gs \<Longrightarrow> step g = Some (Some r, acts) \<Longrightarrow> gr_name r = gr_name g \<and> P r"
  shows "(\<forall>r \<in> set gs'. P r \<and> gr_name r \<in> gr_name ` set gs) \<and>
    (skl_sorted gr_name G_compare_nameptr gs \<longrightarrow> skl_sorted gr_name G_compare_nameptr gs')"
  using assms
proof (induction gs arbitrary: gs' acts)
  case (Cons g gs)
  from Cons.prems(1) obtain r a hs b where r: "step g = Some (r, a)" and hs: "for_groups step gs = Some (hs, b)"
    and gs': "gs' = (case r of None \<Rightarrow> hs | Some g' \<Rightarrow> g' # hs)"
    by (cases "step g"; cases "for_groups step gs") auto
  have IH: "(\<forall>r \<in> set hs. P r \<and> gr_name r \<in> gr_name ` set gs) \<and>
    (skl_sorted gr_name G_compare_nameptr gs \<longrightarrow> skl_sorted gr_name G_compare_nameptr hs)"
  proof (rule Cons.IH [OF hs])
    fix h r acts assume "h \<in> set gs" "step h = Some (Some r, acts)"
    then show "gr_name r = gr_name h \<and> P r" using Cons.prems(2) [of h r acts] by simp
  qed
  show ?case
  proof (cases r)
    case None
    with IH gs' show ?thesis by auto
  next
    case (Some g')
    with Cons.prems(2) [of g g' a] r have g': "gr_name g' = gr_name g" "P g'" by auto
    with IH gs' Some show ?thesis by auto
  qed
qed simp

lemma update_groups_cases:
  assumes "update_groups step s = Some t"
  obtains gs acts where "for_groups step (GroupsList s) = Some (gs, acts)"
    "t = g_emit acts (s\<lparr>GroupsList := gs, Num_groups := Num_groups s - (int (length (GroupsList s)) - int (length gs))\<rparr>)"
  using assms by (auto simp: update_groups_def split: option.splits)

lemma update_groups_list_ok:
  assumes up: "update_groups step s = Some t" and ok: "list_ok s"
    and keep: "\<And>g r acts. g \<in> set (GroupsList s) \<Longrightarrow> group_ok s g \<Longrightarrow> step g = Some (Some r, acts) \<Longrightarrow>
        gr_name r = gr_name g \<and> group_ok u r"
    and u: "GroupsList u = GroupsList t" "Num_groups u = Num_groups t"
  shows "list_ok u"
proof -
  from up obtain gs acts where gs: "for_groups step (GroupsList s) = Some (gs, acts)"
    and t: "t = g_emit acts (s\<lparr>GroupsList := gs, Num_groups := Num_groups s - (int (length (GroupsList s)) - int (length gs))\<rparr>)"
    by (rule update_groups_cases)
  have s: "skl_sorted gr_name G_compare_nameptr (GroupsList s)" "Num_groups s = int (length (GroupsList s))"
    "\<forall>g \<in> set (GroupsList s). length (gr_name g) < MAX_GROUP_NAME \<and> group_ok s g"
    using ok by (auto simp: list_ok_def)
  have "(\<forall>r \<in> set gs. group_ok u r \<and> gr_name r \<in> gr_name ` set (GroupsList s)) \<and>
    (skl_sorted gr_name G_compare_nameptr (GroupsList s) \<longrightarrow> skl_sorted gr_name G_compare_nameptr gs)"
    using gs by (rule for_groups_result) (use keep s(3) in blast)
  moreover have "GroupsList u = gs" "Num_groups u = int (length gs)"
    using t s(2) u by (simp_all add: g_emit_def)
  ultimately show ?thesis using s by (auto simp: list_ok_def)
qed

section \<open>The steps\<close>

inductive groups_step :: "groups_state \<Rightarrow> groups_state \<Rightarrow> bool" where
  join: "G_handle_join nm group_name s = Some t \<Longrightarrow> length group_name < MAX_GROUP_NAME \<Longrightarrow>
    (\<forall>prv prc p. G_private_to_names nm = Some (prv, prc) \<longrightarrow> snd (Conf_proc_by_name_in_conf (G_conf s) prc) = Some p \<longrightarrow>
       p_id p \<in> set (MySyncedSet s) \<or> G_state s = GTRANS \<and> Conf_id_in_conf (G_Trans_memb s) (p_id p) = -1) \<Longrightarrow>
    groups_step s t"
| leave: "G_handle_leave nm group_name s = Some t \<Longrightarrow> groups_step s t"
| kill: "G_handle_kill nm s = Some t \<Longrightarrow> groups_step s t"
| trans_memb: "G_handle_trans_memb c i s = Some t \<Longrightarrow> \<not> Is_unknown_memb_id i \<Longrightarrow>
    Conf_id_in_conf c (p_id (G_my s)) \<noteq> -1 \<Longrightarrow> groups_step s t"
| reg_memb: "G_handle_reg_memb c i s = Some t \<Longrightarrow> \<not> Is_unknown_memb_id i \<Longrightarrow> groups_step s t"
| groups: "G_handle_groups m s = Some t \<Longrightarrow>
    (\<forall>p own. let u = gathered m (p_id p) own s in
       snd (Conf_proc_by_name_in_conf (G_conf s) (gm_proc_name m)) = Some p \<longrightarrow> Is_synced_set_leader (p_id p) s = Some own \<longrightarrow>
       (\<forall>l \<in> set (Gathered u). gl_complete l \<longrightarrow> link_ok (G_conf s) l) \<and>
       (Num_daemons_gathered u = Conf_num_procs (G_Reg_memb u) \<longrightarrow> (\<forall>l \<in> set (Gathered u). gl_complete l))) \<Longrightarrow>
    groups_step s t"
| sessions: "(\<forall>g \<in> set (GroupsList s). \<forall>nm \<in> set (members_at (p_id (G_my s)) g). box ss nm = box (Sessions s) nm) \<Longrightarrow>
    groups_step s (s\<lparr>Sessions := ss\<rparr>)"

inductive groups_reachable :: "groups_state \<Rightarrow> groups_state \<Rightarrow> bool" for s where
  start: "groups_reachable s s"
| step: "groups_reachable s t \<Longrightarrow> groups_step t u \<Longrightarrow> groups_reachable s u"

section \<open>Joins and departures keep it\<close>

lemma group_ok_frame:
  assumes "Cn_active t = Cn_active s" "Sessions t = Sessions s" "G_my t = G_my s" "MySyncedSet t = MySyncedSet s"
    "G_state t = G_state s" "G_Trans_memb t = G_Trans_memb s"
  shows "group_ok t = group_ok s"
  by (rule ext) (simp add: group_ok_def assms)

lemma daemon_in_ok_frame:
  assumes "G_conf t = G_conf s" "MySyncedSet t = MySyncedSet s" "G_my t = G_my s" "G_state t = G_state s"
    "G_Reg_memb_id t = G_Reg_memb_id s" "G_Trans_memb_id t = G_Trans_memb_id s" "G_Trans_memb t = G_Trans_memb s"
    "Gathered t = Gathered s"
  shows "daemon_in_ok t = daemon_in_ok s"
  by (simp add: daemon_in_ok_def assms)

lemma list_ok_frame:
  assumes "group_ok t = group_ok s" "GroupsList t = GroupsList s" "Num_groups t = Num_groups s"
  shows "list_ok t = list_ok s"
  by (simp add: list_ok_def assms)

text \<open>One group of the list is changed, put in or taken out.\<close>

lemma list_ok_set:
  assumes ok: "list_ok s" and g: "group_ok s g" and there: "h \<in> set (GroupsList s)" "gr_name g = gr_name h"
  shows "list_ok (set_group g s)"
proof -
  let ?gs = "skl_update gr_name G_compare_nameptr (gr_name g) (\<lambda>_. g) (GroupsList s)"
  have s: "skl_sorted gr_name G_compare_nameptr (GroupsList s)" "Num_groups s = int (length (GroupsList s))"
    "\<forall>g \<in> set (GroupsList s). length (gr_name g) < MAX_GROUP_NAME \<and> group_ok s g"
    using ok by (auto simp: list_ok_def)
  have len: "length (gr_name g) < MAX_GROUP_NAME" using s(3) there by auto
  have "map gr_name ?gs = map gr_name (GroupsList s)"
    using s(3) len by (auto simp: skl_update_def)
  then have "skl_sorted gr_name G_compare_nameptr ?gs" using s(1) by (simp add: skl_sorted_keys)
  moreover have "set ?gs \<subseteq> insert g (set (GroupsList s))" by (auto simp: skl_update_def)
  moreover have "length ?gs = length (GroupsList s)" by (simp add: skl_update_def)
  moreover have "group_ok (set_group g s) = group_ok s" by (rule group_ok_frame) (simp_all add: set_group_def)
  ultimately show ?thesis using s g len by (auto simp: list_ok_def set_group_def)
qed

lemma list_ok_erase:
  assumes ok: "list_ok s" and g: "G_get_group nm (GroupsList s) = Some g"
  shows "list_ok (s\<lparr>GroupsList := skl_erase gr_name G_compare_nameptr nm (GroupsList s), Num_groups := Num_groups s - 1\<rparr>)"
proof -
  have s: "skl_sorted gr_name G_compare_nameptr (GroupsList s)" "Num_groups s = int (length (GroupsList s))"
    "\<forall>g \<in> set (GroupsList s). length (gr_name g) < MAX_GROUP_NAME \<and> group_ok s g"
    using ok by (auto simp: list_ok_def)
  from names.skl_find_split [OF s(1) g [unfolded G_get_group_def]] obtain us vs where uv:
    "GroupsList s = us @ g # vs" "G_compare_nameptr (gr_name g) nm = 0"
    "\<forall>u \<in> set us \<union> set vs. G_compare_nameptr (gr_name u) nm \<noteq> 0" .
  have e: "skl_erase gr_name G_compare_nameptr nm (GroupsList s) = us @ vs"
    unfolding uv(1) using uv(2,3) by (intro skl_erase_split)
  have "group_ok (s\<lparr>GroupsList := us @ vs, Num_groups := Num_groups s - 1\<rparr>) = group_ok s"
    by (rule group_ok_frame) simp_all
  with s show ?thesis unfolding e by (auto simp: list_ok_def uv(1) skl_sorted_append)
qed

end
