(* ===== verification/GroupsReach2.thy ===== *)
theory GroupsReach2
  imports GroupsReach
begin

text \<open>The handlers of members and of memberships keep the invariant of \<open>GroupsReach\<close>.\<close>

lemma Conf_proc_by_name_SomeD:
  assumes "snd (Conf_proc_by_name_in_conf c nm) = Some p"
  shows "p \<in> set (allprocs c) \<and> p_name p = nm"
proof -
  let ?i = "index_of (\<lambda>p. p_name p = nm) (allprocs c)"
  have "0 \<le> ?i" "p = allprocs c ! nat ?i"
    using assms by (auto simp: Conf_proc_by_name_in_conf_def Conf_proc_ref_by_name_in_conf_def Let_def split: if_splits)
  with index_of_nth [of "\<lambda>p. p_name p = nm" "allprocs c"] show ?thesis by auto
qed

lemma local_name:
  assumes "daemon_in_ok s" "snd (Conf_proc_by_name_in_conf (G_conf s) nm) = Some p" "p_id p = p_id (G_my s)"
  shows "nm = p_name (G_my s)"
  using assms Conf_proc_by_name_SomeD [OF assms(2)] by (auto simp: daemon_in_ok_def)

section \<open>Joining\<close>

lemma join_member_keeps:
  assumes j: "join_member s i nm private_name g = Some (g', acts)" and ok: "daemon_in_ok s"
    and g: "daemons_ok (Cn_active s) g" "boxes_ok (Sessions s) (G_my s) g" "ids_ok (set (MySyncedSet s)) g"
      "state_ok (G_state s) (G_Trans_memb s) g" "DaemonsList g \<noteq> [] \<or> \<not> is_member s i nm g"
    and quiet: "G_state s = GOP \<or> G_state s = GTRANS"
    and nm: "G_private_to_names nm = Some (private_name, proc_name)"
    and my: "i = p_id (G_my s) \<Longrightarrow> proc_name = p_name (G_my s)"
    and i: "i \<in> set (MySyncedSet s) \<or> G_state s = GTRANS \<and> Conf_id_in_conf (G_Trans_memb s) i = - 1"
  shows "group_ok s g' \<and> gr_name g' = gr_name g"
proof -
  note l = join_keeps_lists [OF j g(1)]
  have "DaemonsList g' \<noteq> []"
  proof (cases "is_member s i nm g")
    case True
    have "skl_sorted dm_proc_id (daemon_order s) (DaemonsList g)" using g(1) by (simp add: daemons_ok_def)
    with j have "g' = g"
      using True by (cases rule: join_member_cases) auto
    with g(5) True show ?thesis by simp
  qed (rule l(2))
  with l join_keeps_boxes [OF j g(1,2) nm my] join_keeps_ids [OF j g(1,3,4) quiet i] show ?thesis
    by (simp add: group_ok_def)
qed

lemma list_ok_put:
  assumes ok: "list_ok s" and none: "G_get_group (gr_name h) (GroupsList s) = None"
    and g: "group_ok s g" "gr_name g = gr_name h" "length (gr_name g) < MAX_GROUP_NAME"
  shows "list_ok (set_group g (s\<lparr>GroupsList := skl_put gr_name G_compare_nameptr h (GroupsList s),
      Num_groups := Num_groups s + 1\<rparr>))"
proof -
  have s: "skl_sorted gr_name G_compare_nameptr (GroupsList s)" "Num_groups s = int (length (GroupsList s))"
    "\<forall>g \<in> set (GroupsList s). length (gr_name g) < MAX_GROUP_NAME \<and> group_ok s g"
    using ok by (auto simp: list_ok_def)
  from names.skl_put_split [OF none [unfolded G_get_group_def]] obtain us vs where
    uv: "GroupsList s = us @ vs" "skl_put gr_name G_compare_nameptr h (GroupsList s) = us @ h # vs" .
  have others: "\<forall>u \<in> set us \<union> set vs. G_compare_nameptr (gr_name u) (gr_name g) \<noteq> 0"
    using none uv(1) g(2) by (auto simp: G_get_group_def skl_find_None)
  have up: "skl_update gr_name G_compare_nameptr (gr_name g) (\<lambda>_. g) (us @ h # vs) = us @ g # vs"
    using others g(2) names.cmp_self by (subst skl_update_split) auto
  have "skl_sorted gr_name G_compare_nameptr (us @ g # vs)"
    using names.skl_sorted_put [OF s(1), of h] g(2) by (simp add: uv(2) skl_sorted_keys)
  moreover have "group_ok (s\<lparr>GroupsList := us @ g # vs, Num_groups := Num_groups s + 1\<rparr>) = group_ok s"
    by (rule group_ok_frame) simp_all
  moreover have "set_group g (s\<lparr>GroupsList := skl_put gr_name G_compare_nameptr h (GroupsList s),
      Num_groups := Num_groups s + 1\<rparr>) = s\<lparr>GroupsList := us @ g # vs, Num_groups := Num_groups s + 1\<rparr>"
    by (simp add: set_group_def uv(2) up)
  ultimately show ?thesis
    using s g by (auto simp: list_ok_def uv(1))
qed

lemma g_emit_ok [simp]: "groups_ok (g_emit a s) = groups_ok s"
proof -
  have "group_ok (g_emit a s) = group_ok s" by (rule group_ok_frame) (simp_all add: g_emit_def)
  then have "list_ok (g_emit a s) = list_ok s" by (rule list_ok_frame) (simp_all add: g_emit_def)
  moreover have "daemon_in_ok (g_emit a s) = daemon_in_ok s" by (rule daemon_in_ok_frame) (simp_all add: g_emit_def)
  ultimately show ?thesis by (simp add: groups_ok_def)
qed

lemma groups_okI: "daemon_in_ok u \<Longrightarrow> list_ok u \<Longrightarrow> t = g_emit a u \<Longrightarrow> groups_ok t"
  using g_emit_ok [of a u] by (simp add: groups_ok_def)

lemma join_keeps:
  assumes h: "G_handle_join nm group_name s = Some t" and ok: "groups_ok s" and len: "length group_name < MAX_GROUP_NAME"
    and where_from: "\<And>prv prc p. G_private_to_names nm = Some (prv, prc) \<Longrightarrow>
       snd (Conf_proc_by_name_in_conf (G_conf s) prc) = Some p \<Longrightarrow>
       p_id p \<in> set (MySyncedSet s) \<or> G_state s = GTRANS \<and> Conf_id_in_conf (G_Trans_memb s) (p_id p) = -1"
  shows "groups_ok t"
proof -
  have quiet: "G_state s = GOP \<or> G_state s = GTRANS" using h by (cases "G_state s") (auto simp: G_handle_join_def)
  obtain prv prc where nm: "G_private_to_names nm = Some (prv, prc)"
    using h by (cases "G_private_to_names nm") (auto simp: G_handle_join_def split: if_splits)
  show ?thesis
  proof (cases "snd (Conf_proc_by_name_in_conf (G_conf s) prc)")
    case None
    with h nm ok show ?thesis by (auto simp: G_handle_join_def split: if_splits)
  next
    case (Some p)
    have d: "daemon_in_ok s" and l: "list_ok s" using ok by (auto simp: groups_ok_def)
    obtain g s1 where gs: "get_or_add_group s group_name = (g, s1)" by fastforce
    obtain g' acts where j: "join_member s1 (p_id p) nm prv g = Some (g', acts)"
      and t: "t = g_emit acts (set_group g' s1)"
      using h quiet nm Some gs
      by (cases "join_member s1 (p_id p) nm prv g") (auto simp: G_handle_join_def split: if_splits)
    have fr: "Cn_active s1 = Cn_active s" "Sessions s1 = Sessions s" "G_my s1 = G_my s" "MySyncedSet s1 = MySyncedSet s"
      "G_state s1 = G_state s" "G_Trans_memb s1 = G_Trans_memb s" "G_conf s1 = G_conf s" "Gathered s1 = Gathered s"
      "G_Reg_memb_id s1 = G_Reg_memb_id s" "G_Trans_memb_id s1 = G_Trans_memb_id s"
      using gs by (auto simp: get_or_add_group_def split: option.splits)
    have gok1: "group_ok s1 = group_ok s" by (rule group_ok_frame) (simp_all add: fr)
    have d1: "daemon_in_ok s1" using d daemon_in_ok_frame [of s1 s] fr by simp
    have my: "p_id p = p_id (G_my s1) \<Longrightarrow> prc = p_name (G_my s1)" using local_name [OF d Some] by (simp add: fr)
    have w: "p_id p \<in> set (MySyncedSet s1) \<or> G_state s1 = GTRANS \<and> Conf_id_in_conf (G_Trans_memb s1) (p_id p) = -1"
      using where_from [OF nm Some] by (simp add: fr)
    have q1: "G_state s1 = GOP \<or> G_state s1 = GTRANS" using quiet by (simp add: fr)
    have dt: "daemon_in_ok (set_group g' s1)"
      using d1 daemon_in_ok_frame [of "set_group g' s1" s1] by (simp add: set_group_def)
    show ?thesis
    proof (cases "G_get_group group_name (GroupsList s)")
      case None
      with gs have g: "g = new_group s group_name"
        and s1: "s1 = s\<lparr>GroupsList := skl_put gr_name G_compare_nameptr g (GroupsList s), Num_groups := Num_groups s + 1\<rparr>"
        by (auto simp: get_or_add_group_def)
      have "daemons_ok (Cn_active s1) g" "boxes_ok (Sessions s1) (G_my s1) g" "ids_ok (set (MySyncedSet s1)) g"
        "state_ok (G_state s1) (G_Trans_memb s1) g" "\<not> is_member s1 (p_id p) nm g"
        using d q1 by (auto simp: g new_group_def daemons_ok_def boxes_ok_def ids_ok_def state_ok_def group_members_def
            members_at_def is_member_def G_get_daemon_def daemon_in_ok_def)
      with join_member_keeps [OF j d1 _ _ _ _ _ q1 nm my w] have g': "group_ok s1 g'" "gr_name g' = gr_name g" by blast+
      have name: "gr_name g = group_name" by (simp add: g new_group_def)
      have "list_ok (set_group g' s1)"
        unfolding s1 using None l g' len by (intro list_ok_put) (simp_all add: name gok1)
      with dt t show ?thesis by (intro groups_okI)
    next
      case (Some h)
      with gs have gh: "g = h" "s1 = s" by (auto simp: get_or_add_group_def)
      from Some have "g \<in> set (GroupsList s)" by (auto simp: gh G_get_group_def dest: skl_find_SomeD)
      moreover from this l have "group_ok s g" by (auto simp: list_ok_def)
      with join_member_keeps [OF j d1 _ _ _ _ _ q1 nm my w] have "group_ok s g'" "gr_name g' = gr_name g"
        by (auto simp: group_ok_def gh(2))
      ultimately have "list_ok (set_group g' s1)" using list_ok_set [OF l] gh(2) by simp
      with dt t show ?thesis by (intro groups_okI)
    qed
  qed
qed

section \<open>Departing\<close>

lemma leave_keeps:
  assumes h: "G_handle_leave nm group_name s = Some t" and ok: "groups_ok s"
  shows "groups_ok t"
proof -
  have quiet: "G_state s = GOP \<or> G_state s = GTRANS" using h by (cases "G_state s") (auto simp: G_handle_leave_def)
  obtain prv prc where nm: "G_private_to_names nm = Some (prv, prc)"
    using h by (cases "G_private_to_names nm") (auto simp: G_handle_leave_def split: if_splits)
  have d: "daemon_in_ok s" and l: "list_ok s" using ok by (auto simp: groups_ok_def)
  consider "t = s" | p :: proc and g where "G_get_group group_name (GroupsList s) = Some g" "is_member s (p_id p) nm g"
      "(case leave_group s (p_id p) nm prv g of None \<Rightarrow> None
        | Some (None, acts) \<Rightarrow>
            Some (g_emit acts (s\<lparr>GroupsList := skl_erase gr_name G_compare_nameptr group_name (GroupsList s),
                                 Num_groups := Num_groups s - 1\<rparr>))
        | Some (Some g', acts) \<Rightarrow> Some (g_emit acts (set_group g' s))) = Some t"
  proof (cases "snd (Conf_proc_by_name_in_conf (G_conf s) prc)")
    case None
    with h nm that(1) show thesis by (auto simp: G_handle_leave_def split: if_splits)
  next
    case p: (Some p)
    show thesis
    proof (cases "G_get_group group_name (GroupsList s)")
      case None
      with h nm p that(1) show thesis by (auto simp: G_handle_leave_def split: if_splits)
    next
      case (Some g)
      from quiet have "\<not> (G_state s = GGATHER \<or> G_state s = GGT)" by auto
      with h nm p Some have "(if \<not> is_member s (p_id p) nm g then Some s
          else (case leave_group s (p_id p) nm prv g of None \<Rightarrow> None
        | Some (None, acts) \<Rightarrow>
            Some (g_emit acts (s\<lparr>GroupsList := skl_erase gr_name G_compare_nameptr group_name (GroupsList s),
                                 Num_groups := Num_groups s - 1\<rparr>))
        | Some (Some g', acts) \<Rightarrow> Some (g_emit acts (set_group g' s)))) = Some t"
        by (simp add: G_handle_leave_def split del: if_split)
      then show thesis using that(1) that(2) [OF Some, of p] by (simp split: if_splits)
    qed
  qed
  then show ?thesis
  proof cases
    case 1
    with ok show ?thesis by simp
  next
    case 2
    then obtain r acts where r: "leave_group s (p_id p) nm prv g = Some (r, acts)" by (auto split: option.splits)
    have gin: "g \<in> set (GroupsList s)" using 2(1) by (auto simp: G_get_group_def dest: skl_find_SomeD)
    then have gok: "group_ok s g" using l by (auto simp: list_ok_def)
    show ?thesis
    proof (cases r)
      case None
      let ?u = "s\<lparr>GroupsList := skl_erase gr_name G_compare_nameptr group_name (GroupsList s), Num_groups := Num_groups s - 1\<rparr>"
      have "t = g_emit acts ?u" using 2(3) r None by simp
      moreover have "list_ok ?u" by (rule list_ok_erase [OF l 2(1)])
      moreover have "daemon_in_ok ?u" using d daemon_in_ok_frame [of ?u s] by simp
      ultimately show ?thesis by (intro groups_okI)
    next
      case (Some g')
      have "t = g_emit acts (set_group g' s)" using 2(3) r Some by simp
      moreover have "group_ok s g' \<and> gr_name g' = gr_name g"
        using leave_group_keeps [OF _ gok 2(2) nm] r Some by blast
      then have "list_ok (set_group g' s)" using list_ok_set [OF l _ gin] by blast
      moreover have "daemon_in_ok (set_group g' s)"
        using d daemon_in_ok_frame [of "set_group g' s" s] by (simp add: set_group_def)
      ultimately show ?thesis by (intro groups_okI)
    qed
  qed
qed

lemma kill_keeps:
  assumes h: "G_handle_kill nm s = Some t" and ok: "groups_ok s"
  shows "groups_ok t"
proof -
  obtain prv prc where nm: "G_private_to_names nm = Some (prv, prc)"
    using h by (cases "G_private_to_names nm") (auto simp: G_handle_kill_def split: if_splits)
  have d: "daemon_in_ok s" and l: "list_ok s" using ok by (auto simp: groups_ok_def)
  consider "t = s" | p :: proc where "update_groups (kill_step s (p_id p) nm prv) s = Some t"
  proof (cases "snd (Conf_proc_by_name_in_conf (G_conf s) prc)")
    case None
    with h nm that(1) show thesis by (auto simp: G_handle_kill_def split: if_splits)
  next
    case (Some p)
    with h nm that(2) show thesis by (auto simp: G_handle_kill_def split: if_splits)
  qed
  then show ?thesis
  proof cases
    case 1
    with ok show ?thesis by simp
  next
    case 2
    from 2 obtain gs acts where t: "t = g_emit acts (s\<lparr>GroupsList := gs,
        Num_groups := Num_groups s - (int (length (GroupsList s)) - int (length gs))\<rparr>)"
      by (rule update_groups_cases)
    then have "group_ok t = group_ok s" by (intro group_ok_frame) (simp_all add: g_emit_def)
    then have "list_ok t"
      using kill_step_keeps [OF _ _ nm] by (intro update_groups_list_ok [OF 2 l]) auto
    moreover have "daemon_in_ok t" using d daemon_in_ok_frame [of t s] t by (simp add: g_emit_def)
    ultimately show ?thesis by (simp add: groups_ok_def)
  qed
qed

end
