(* ===== verification/GroupsReach3.thy ===== *)
theory GroupsReach3
  imports GroupsReach2
begin

text \<open>
  The memberships and the groups messages keep the invariant of \<open>GroupsReach\<close>, and so does every
  step: it holds in every reachable state.
\<close>

section \<open>Merging what was gathered\<close>

text \<open>What the messages of a synced set tell of the groups.\<close>

definition link_view :: "groups_message_link \<Rightarrow> (string \<times> int32u \<times> string) set" where
  "link_view l = (case link_content (gl_messages l) None of None \<Rightarrow> {} | Some (_, ps) \<Rightarrow> part_view ps)"

lemma link_merges:
  assumes d: "daemon_in_ok s" and l: "list_ok s" and st: "G_state s = GGATHER \<or> G_state s = GGT"
    and link: "link_ok (G_conf s) k" and run: "link_to_groups (gl_messages k) x s = Some (y, s1)"
    and add: "G_add_to_synced_set y (s1\<lparr>Groups_bufs_fresh := b\<rparr>) = Some s2"
  shows "\<exists>gs n ids. s2 = s\<lparr>GroupsList := gs, Num_groups := n, Groups_bufs_fresh := b, MySyncedSet := ids\<rparr> \<and>
    daemon_in_ok s2 \<and> list_ok s2 \<and> view s2 = view s \<union> link_view k"
proof -
  obtain sset ps where all: "\<forall>x. link_content (gl_messages k) x = Some (Some sset, ps)"
    and c: "link_content (gl_messages k) x = Some (Some sset, ps)" "in_order (G_conf s) sset" "parts_ok sset ps"
    using link by (auto simp: link_ok_def)
  have y: "y = Some sset" and s1: "s1 = fold add_group_part ps s"
    using run by (simp_all add: link_to_groups_content c(1))
  obtain gs n where f: "s1 = s\<lparr>GroupsList := gs, Num_groups := n\<rparr>" using fold_parts_frame s1 by blast
  obtain ids where m: "merge_synced (G_conf s) (MySyncedSet s) sset = Some ids"
    and s2: "s2 = s1\<lparr>Groups_bufs_fresh := b, MySyncedSet := ids\<rparr>"
    using add by (auto simp: G_add_to_synced_set_def y f split: option.splits if_splits)
  have o: "in_order (G_conf s) ids" "set (MySyncedSet s) \<inter> set sset = {}"
    using merge_synced_order [OF m] d c(2) by (auto simp: daemon_in_ok_def)
  have ids: "set ids = set (MySyncedSet s) \<union> set sset" by (rule merge_synced_set [OF m])
  have my: "p_id (G_my s) \<notin> set sset" using d o(2) by (auto simp: daemon_in_ok_def)
  have est: "Is_established_daemon x \<and> dm_proc_id x \<in> set (MySyncedSet s)" if "g \<in> set (GroupsList s)" "x \<in> set (DaemonsList g)" for g x
    using that l st by (auto simp: list_ok_def group_ok_def state_ok_def ids_ok_def)
  have "snd q \<in> set sset" if "q \<in> set (part_pairs ps)" for q
    using that c(3) by (fastforce simp: part_pairs_def parts_ok_def part_ok_def entry_ok_def)
  then have apart: "(gr_name g, dm_proc_id x) \<notin> set (part_pairs ps)" if "g \<in> set (GroupsList s)" "x \<in> set (DaemonsList g)" for g x
    using est [OF that] o(2) by fastforce
  have "merging sset ps s"
    unfolding merging_def
  proof (intro conjI ballI impI)
    fix g assume g: "g \<in> set (GroupsList s)"
    then show "merging_ok s sset g"
      using l est [OF g] by (auto simp: list_ok_def group_ok_def merging_ok_def ids_ok_def)
    show "\<exists>q \<in> set ps. pt_name q = gr_name g \<and> pt_daemons q \<noteq> []" if "DaemonsList g = []"
      using that g l by (auto simp: list_ok_def group_ok_def)
  qed (use l c(3) apart in \<open>auto simp: list_ok_def parts_ok_def\<close>)
  from fold_parts [OF this my] have mg: "merging sset [] s1" and v: "view s1 = view s \<union> part_view ps" by (simp_all add: s1)
  have "list_ok s2"
    using mg st unfolding list_ok_def merging_def
    by (auto simp: s2 f group_ok_def merging_ok_def ids state_ok_def)
  moreover have "daemon_in_ok s2" using d o(1) by (auto simp: daemon_in_ok_def s2 f ids)
  moreover have "view s2 = view s \<union> link_view k" using v all by (simp add: view_def s2 link_view_def)
  ultimately show ?thesis by (auto simp: s2 f)
qed

lemma links_merge:
  assumes "links_to_groups take_it ls x s = Some t" "daemon_in_ok s" "list_ok s" "G_state s = GGATHER \<or> G_state s = GGT"
    "\<And>l. l \<in> set ls \<Longrightarrow> take_it l \<Longrightarrow> link_ok (G_conf s) l"
  shows "\<exists>gs n b ids. t = s\<lparr>GroupsList := gs, Num_groups := n, Groups_bufs_fresh := b, MySyncedSet := ids, Gathered := []\<rparr> \<and>
    daemon_in_ok t \<and> list_ok t \<and> view t = view s \<union> (\<Union>l \<in> {l \<in> set ls. take_it l}. link_view l)"
  using assms
proof (induction take_it ls x s rule: links_to_groups.induct)
  case (1 take_it x s)
  have t: "t = s\<lparr>Gathered := []\<rparr>" using 1(1) by simp
  have "daemon_in_ok t" using 1(2) by (auto simp: daemon_in_ok_def t)
  moreover have "list_ok t" using 1(3) list_ok_frame [of t s] group_ok_frame [of t s] by (simp add: t)
  moreover have "t = s\<lparr>GroupsList := GroupsList s, Num_groups := Num_groups s, Groups_bufs_fresh := Groups_bufs_fresh s,
      MySyncedSet := MySyncedSet s, Gathered := []\<rparr>" by (simp add: t)
  moreover have "view t = view s" by (simp add: view_def t)
  ultimately show ?case by (simp only: list.set) blast
next
  case (2 take_it k ls x s)
  show ?case
  proof (cases "take_it k")
    case False
    then have "{l \<in> set (k # ls). take_it l} = {l \<in> set ls. take_it l}" by auto
    with 2 False show ?thesis by simp
  next
    case True
    let ?fresh = "\<lambda>s1. if gl_messages k = [] then s1 else s1\<lparr>Groups_bufs_fresh := False\<rparr>"
    from 2(3) True obtain y s1 s2 where r: "link_to_groups (gl_messages k) x s = Some (y, s1)"
      and a: "G_add_to_synced_set y (?fresh s1) = Some s2" and t: "links_to_groups take_it ls y s2 = Some t"
      by (auto split: option.splits)
    obtain b where "?fresh s1 = s1\<lparr>Groups_bufs_fresh := b\<rparr>"
      by (rule that [of "if gl_messages k = [] then Groups_bufs_fresh s1 else False"]) simp
    with a have a': "G_add_to_synced_set y (s1\<lparr>Groups_bufs_fresh := b\<rparr>) = Some s2" by simp
    obtain gs n ids where s2: "s2 = s\<lparr>GroupsList := gs, Num_groups := n, Groups_bufs_fresh := b, MySyncedSet := ids\<rparr>"
      "daemon_in_ok s2" "list_ok s2" "view s2 = view s \<union> link_view k"
      using link_merges [OF 2(4,5,6) 2(7) r a'] True by auto
    have "\<exists>gs n b ids. t = s2\<lparr>GroupsList := gs, Num_groups := n, Groups_bufs_fresh := b, MySyncedSet := ids, Gathered := []\<rparr> \<and>
      daemon_in_ok t \<and> list_ok t \<and> view t = view s2 \<union> (\<Union>l \<in> {l \<in> set ls. take_it l}. link_view l)"
    proof (rule 2(1) [OF True r _ _ t s2(2,3)])
      show "(y, s1) = (y, s1)" by simp
      show "G_add_to_synced_set y (?fresh s1) = Some s2" by (rule a)
      show "G_state s2 = GGATHER \<or> G_state s2 = GGT" using 2(6) by (simp add: s2(1))
      show "link_ok (G_conf s2) l" if "l \<in> set ls" "take_it l" for l using 2(7) that by (simp add: s2(1))
    qed
    moreover have "{l \<in> set (k # ls). take_it l} = insert k {l \<in> set ls. take_it l}" using True by auto
    ultimately show ?thesis using s2(1,4) by auto
  qed
qed

section \<open>Memberships\<close>

lemma group_ok_trans_memb:
  "G_state s \<noteq> GTRANS \<Longrightarrow> group_ok (s\<lparr>G_Trans_memb := c, G_Trans_memb_id := i\<rparr>) = group_ok s"
  by (rule ext) (cases "G_state s"; simp add: group_ok_def state_ok_def)

lemma synced_set_keeps:
  assumes "in_order (G_conf s) (MySyncedSet s)" "p_id (G_my s) \<in> set (MySyncedSet s)"
    "Conf_id_in_conf c (p_id (G_my s)) \<noteq> -1"
  shows "in_order (G_conf s) (G_update_synced_set c (MySyncedSet s)) \<and> p_id (G_my s) \<in> set (G_update_synced_set c (MySyncedSet s))"
  using assms in_order_filter synced_filter
  by (simp add: G_update_synced_set_def G_update_synced_set_status_def Let_def)

lemma trans_memb_keeps:
  assumes h: "G_handle_trans_memb c i s = Some t" and ok: "groups_ok s"
    and known: "\<not> Is_unknown_memb_id i" and my: "Conf_id_in_conf c (p_id (G_my s)) \<noteq> -1"
  shows "groups_ok t"
proof -
  let ?s = "s\<lparr>G_Trans_memb := c, G_Trans_memb_id := i\<rparr>"
  have st: "G_state s = GOP \<or> G_state s = GGATHER" using h by (cases "G_state s") (auto simp: G_handle_trans_memb_def)
  then have "group_ok ?s = group_ok s" by (intro group_ok_trans_memb) auto
  then have l: "list_ok ?s" using ok list_ok_frame [of ?s s] by (simp add: groups_ok_def)
  have d: "daemon_in_ok s" using ok by (simp add: groups_ok_def)
  show ?thesis
  proof (cases "G_state s = GOP")
    case True
    then obtain u where u: "update_groups (trans_step ?s) ?s = Some u"
      and t: "t = u\<lparr>G_state := GTRANS, MySyncedSet := G_update_synced_set c (MySyncedSet u)\<rparr>"
      using h by (auto simp: G_handle_trans_memb_def Let_def)
    from u obtain gs acts where u': "u = g_emit acts (?s\<lparr>GroupsList := gs,
        Num_groups := Num_groups ?s - (int (length (GroupsList ?s)) - int (length gs))\<rparr>)"
      by (rule update_groups_cases)
    have eq: "group_ok t = group_ok (?s\<lparr>G_state := GTRANS, MySyncedSet := G_update_synced_set (G_Trans_memb ?s) (MySyncedSet ?s)\<rparr>)"
      by (rule group_ok_frame) (simp_all add: t u' g_emit_def)
    have keep: "gr_name r = gr_name g \<and>
        group_ok (?s\<lparr>G_state := GTRANS, MySyncedSet := G_update_synced_set (G_Trans_memb ?s) (MySyncedSet ?s)\<rparr>) r"
      if "group_ok ?s g" "trans_step ?s g = Some (Some r, acts)" for g r acts
    proof (rule trans_step_keeps [OF that(2,1)])
      show "G_state ?s = GOP" "\<not> Is_unknown_memb_id (G_Trans_memb_id ?s)" using True known by simp_all
    qed (simp only: option.inject simp_thms)
    have "list_ok t"
      by (rule update_groups_list_ok [OF u l]) (use keep in \<open>simp_all only: eq\<close>, simp_all add: t)
    moreover have "daemon_in_ok t"
      using synced_set_keeps [of s c] d known my unfolding daemon_in_ok_def by (simp add: t u' g_emit_def)
    ultimately show ?thesis by (simp add: groups_ok_def)
  next
    case False
    with st have gather: "G_state s = GGATHER" by simp
    then obtain u where u: "update_groups (cascade_step ?s) ?s = Some u" and t: "t = u\<lparr>G_state := GGT\<rparr>"
      using h by (auto simp: G_handle_trans_memb_def Let_def)
    from u obtain gs acts where u': "u = g_emit acts (?s\<lparr>GroupsList := gs,
        Num_groups := Num_groups ?s - (int (length (GroupsList ?s)) - int (length gs))\<rparr>)"
      by (rule update_groups_cases)
    have eq: "group_ok t = group_ok (?s\<lparr>G_state := GGT\<rparr>)"
      by (rule group_ok_frame) (simp_all add: t u' g_emit_def)
    have keep: "gr_name r = gr_name g \<and> group_ok (?s\<lparr>G_state := GGT\<rparr>) r"
      if "group_ok ?s g" "cascade_step ?s g = Some (Some r, acts)" for g r acts
    proof (rule cascade_step_keeps [OF that(2,1)])
      show "G_state ?s = GGATHER" using gather by simp
    qed (simp only: option.inject simp_thms)
    have "list_ok t"
      by (rule update_groups_list_ok [OF u l]) (use keep in \<open>simp_all only: eq\<close>, simp_all add: t)
    moreover have "daemon_in_ok t"
      using d known my by (auto simp: daemon_in_ok_def t u' g_emit_def)
    ultimately show ?thesis by (simp add: groups_ok_def)
  qed
qed

text \<open>Building and sending the groups messages leaves everything else as it is.\<close>

lemma sends_frame:
  assumes "leader_sends f s = Some t" "f = rebuild_groups_bufs \<or> f = refresh_groups_bufs"
  shows "\<exists>bufs fresh acts. t = g_emit acts (s\<lparr>Groups_bufs := bufs, Groups_bufs_fresh := fresh\<rparr>)"
proof -
  have prep: "\<exists>bufs fresh. u = s\<lparr>Groups_bufs := bufs, Groups_bufs_fresh := fresh\<rparr>" if "f s = Some u" for u
  proof -
    from that assms(2) have "u = s\<lparr>Groups_bufs := Groups_bufs u, Groups_bufs_fresh := Groups_bufs_fresh u\<rparr>"
      by (auto simp: rebuild_groups_bufs_def refresh_groups_bufs_def G_build_new_groups_bufs_def G_stamp_groups_bufs_def
          G_discard_groups_bufs_def split: if_splits)
    then show ?thesis by blast
  qed
  from assms(1) consider "t = s" | u where "f s = Some u" "t = G_send_groups_messages u"
    by (auto simp: leader_sends_def split: option.splits bool.splits)
  then show ?thesis
  proof cases
    case 1
    then have "t = g_emit [] (s\<lparr>Groups_bufs := Groups_bufs s, Groups_bufs_fresh := Groups_bufs_fresh s\<rparr>)"
      by (simp add: g_emit_def)
    then show ?thesis by blast
  next
    case 2
    with prep show ?thesis by (fastforce simp: G_send_groups_messages_def)
  qed
qed

lemma sends_keep:
  assumes run: "leader_sends f s = Some t" "f = rebuild_groups_bufs \<or> f = refresh_groups_bufs"
    and ok: "daemon_in_ok (s\<lparr>G_state := GGATHER\<rparr>)" "list_ok (s\<lparr>G_state := GGATHER\<rparr>)"
  shows "groups_ok (t\<lparr>G_state := GGATHER\<rparr>)"
proof -
  obtain bufs fresh acts where t: "t = g_emit acts (s\<lparr>Groups_bufs := bufs, Groups_bufs_fresh := fresh\<rparr>)"
    using sends_frame [OF run] by blast
  let ?u = "s\<lparr>Groups_bufs := bufs, Groups_bufs_fresh := fresh, G_state := GGATHER\<rparr>"
  have "group_ok ?u = group_ok (s\<lparr>G_state := GGATHER\<rparr>)" by (rule group_ok_frame) simp_all
  then have "list_ok ?u" using ok(2) list_ok_frame [of ?u "s\<lparr>G_state := GGATHER\<rparr>"] by simp
  moreover have "daemon_in_ok ?u" using ok(1) daemon_in_ok_frame [of ?u "s\<lparr>G_state := GGATHER\<rparr>"] by simp
  ultimately show ?thesis by - (rule groups_okI [where a = acts], assumption+, simp add: t g_emit_def)
qed

lemma settle_keeps:
  assumes up: "update_groups (settle_step s) s = Some u" and st: "G_state s = GTRANS"
    and d: "daemon_in_ok s" and l: "list_ok s"
  shows "groups_ok (G_shift_to_GOP u)"
proof -
  let ?t = "u\<lparr>G_state := GOP\<rparr>"
  from up obtain gs acts where u: "u = g_emit acts (s\<lparr>GroupsList := gs,
      Num_groups := Num_groups s - (int (length (GroupsList s)) - int (length gs))\<rparr>)"
    by (rule update_groups_cases)
  have eq: "group_ok ?t = group_ok (s\<lparr>G_state := GOP\<rparr>)" by (rule group_ok_frame) (simp_all add: u g_emit_def)
  have keep: "gr_name r = gr_name g \<and> group_ok (s\<lparr>G_state := GOP\<rparr>) r"
    if "group_ok s g" "settle_step s g = Some (Some r, acts)" for g r acts
    using settle_step_keeps [OF that(2,1) st] d st by (simp add: daemon_in_ok_def)
  have "list_ok ?t" by (rule update_groups_list_ok [OF up l]) (use keep in \<open>simp_all only: eq\<close>, simp_all)
  moreover have "daemon_in_ok ?t" using d by (simp add: daemon_in_ok_def u g_emit_def)
  ultimately show ?thesis by - (rule groups_okI, assumption+, simp only: G_shift_to_GOP_def)
qed

lemma start_gathering_keeps:
  assumes run: "start_gathering s = Some t" and st: "G_state s = GTRANS" and d: "daemon_in_ok s" and l: "list_ok s"
  shows "groups_ok t"
proof -
  let ?acts = "[Session_threshold MEDIUM_PRIORITY, Prot_set_down_queue GROUPS_DOWNQUEUE, Prot_set_delivery_threshold AGREED_TYPE]"
  obtain u v where up: "update_groups (eliminate_step s) s = Some u"
    and v: "leader_sends rebuild_groups_bufs (g_emit ?acts u) = Some v" and t: "t = v\<lparr>G_state := GGATHER\<rparr>"
    using run by (auto simp: start_gathering_def split: option.splits)
  from up obtain gs acts where u: "u = g_emit acts (s\<lparr>GroupsList := gs,
      Num_groups := Num_groups s - (int (length (GroupsList s)) - int (length gs))\<rparr>)"
    by (rule update_groups_cases)
  let ?w = "(g_emit ?acts u)\<lparr>G_state := GGATHER\<rparr>"
  have eq: "group_ok ?w = group_ok (s\<lparr>G_state := GGATHER\<rparr>)" by (rule group_ok_frame) (simp_all add: u g_emit_def)
  have keep: "gr_name r = gr_name g \<and> group_ok (s\<lparr>G_state := GGATHER\<rparr>) r"
    if "group_ok s g" "eliminate_step s g = Some (Some r, acts)" for g r acts
    using eliminate_step_keeps [OF that(2,1) st] d st by (simp add: daemon_in_ok_def)
  have "list_ok ?w" by (rule update_groups_list_ok [OF up l]) (use keep in \<open>simp_all only: eq\<close>, simp_all add: g_emit_def)
  moreover have "daemon_in_ok ?w" using d by (simp add: daemon_in_ok_def u g_emit_def)
  ultimately show ?thesis unfolding t by (intro sends_keep [OF v]) simp_all
qed

lemma restart_gathering_keeps:
  assumes run: "restart_gathering s = Some t" and st: "G_state s = GGT" and d: "daemon_in_ok s" and l: "list_ok s"
  shows "groups_ok t"
proof -
  obtain s1 where m: "links_to_groups (\<lambda>l. Gathered_complete s \<and> gl_complete l) (Gathered s) None s = Some s1"
    using run by (auto simp: restart_gathering_def split: option.splits)
  have links: "\<And>l. l \<in> set (Gathered s) \<Longrightarrow> Gathered_complete s \<and> gl_complete l \<Longrightarrow> link_ok (G_conf s) l"
    using d by (simp add: daemon_in_ok_def)
  have "\<exists>gs n b ids. s1 = s\<lparr>GroupsList := gs, Num_groups := n, Groups_bufs_fresh := b, MySyncedSet := ids, Gathered := []\<rparr> \<and>
      daemon_in_ok s1 \<and> list_ok s1 \<and> view s1 = view s \<union> (\<Union>l \<in> {l \<in> set (Gathered s). Gathered_complete s \<and> gl_complete l}. link_view l)"
    by (rule links_merge [OF m d l]) (use st links in simp_all)
  then have ok1: "daemon_in_ok s1" "list_ok s1" and st1: "G_state s1 = GGT" using st by auto
  obtain gs acts where gs: "for_groups (cascade_eliminate_step s1) (GroupsList s1) = Some (gs, acts)"
    using run m by (auto simp: restart_gathering_def split: option.splits)
  let ?s2 = "s1\<lparr>GroupsList := gs, Num_groups := Num_groups s1 - (int (length (GroupsList s1)) - int (length gs))\<rparr>"
  have up: "update_groups (cascade_eliminate_step s1) s1 = Some (g_emit acts ?s2)"
    by (simp add: update_groups_def gs)
  let ?ids = "G_update_synced_set (G_Trans_memb s1) (MySyncedSet s1)"
  obtain b v where v: "leader_sends refresh_groups_bufs (reset_gathering (?s2\<lparr>MySyncedSet := ?ids, Groups_bufs_fresh := b\<rparr>)) = Some v"
      and t: "t = v\<lparr>G_state := GGATHER\<rparr>"
    using run m gs by (auto simp: restart_gathering_def G_update_synced_set_def Let_def split: prod.splits)
  let ?w = "(reset_gathering (?s2\<lparr>MySyncedSet := ?ids, Groups_bufs_fresh := b\<rparr>))\<lparr>G_state := GGATHER\<rparr>"
  have eq: "group_ok ?w = group_ok (s1\<lparr>G_state := GGATHER, MySyncedSet := ?ids\<rparr>)"
    by (rule group_ok_frame) (simp_all add: reset_gathering_def)
  have my: "Conf_id_in_conf (G_Trans_memb s1) (p_id (G_my s1)) \<noteq> - 1" using ok1(1) st1 by (simp add: daemon_in_ok_def)
  have keep: "gr_name r = gr_name g \<and> group_ok (s1\<lparr>G_state := GGATHER, MySyncedSet := ?ids\<rparr>) r"
    if "group_ok s1 g" "cascade_eliminate_step s1 g = Some (Some r, acts)" for g r acts
    by (rule cascade_eliminate_step_keeps [OF that(2,1) st1 my]) simp
  have "list_ok ?w"
    by (rule update_groups_list_ok [OF up ok1(2)]) (use keep in \<open>simp_all only: eq\<close>, simp_all add: g_emit_def reset_gathering_def)
  moreover have "daemon_in_ok ?w"
    using ok1(1) synced_set_keeps [of s1 "G_Trans_memb s1"] my by (simp add: daemon_in_ok_def reset_gathering_def)
  ultimately show ?thesis unfolding t by (intro sends_keep [OF v]) simp_all
qed

lemma reg_memb_keeps:
  assumes h: "G_handle_reg_memb c i s = Some t" and ok: "groups_ok s" and known: "\<not> Is_unknown_memb_id i"
  shows "groups_ok t"
proof -
  let ?s = "s\<lparr>G_Reg_memb := c, G_Reg_memb_id := i\<rparr>"
  have "group_ok ?s = group_ok s" by (rule group_ok_frame) simp_all
  then have l: "list_ok ?s" using ok list_ok_frame [of ?s s] by (simp add: groups_ok_def)
  have d: "daemon_in_ok ?s" using ok known by (simp add: groups_ok_def daemon_in_ok_def)
  consider u where "G_state ?s = GTRANS" "update_groups (settle_step ?s) ?s = Some u" "t = G_shift_to_GOP u"
    | "G_state ?s = GTRANS" "start_gathering ?s = Some t" | "G_state ?s = GGT" "restart_gathering ?s = Some t"
    using h by (cases "G_state s") (auto simp: G_handle_reg_memb_def Let_def split: if_splits)
  then show ?thesis
    by cases (use settle_keeps start_gathering_keeps restart_gathering_keeps d l in \<open>blast+\<close>)
qed

end
