(* ===== verification/GroupsSteps.thy ===== *)
theory GroupsSteps
  imports GroupsReach3
begin

text \<open>Groups messages keep the invariant of \<open>GroupsReach\<close>, and so does every step.\<close>

section \<open>Groups messages\<close>

lemma notify_keeps:
  assumes up: "update_groups (notify_step s) s = Some u" and st: "G_state s = GGATHER \<or> G_state s = GGT"
    and d: "daemon_in_ok s" and l: "list_ok s"
    and v: "v = (G_discard_groups_bufs (reset_gathering u))\<lparr>Groups_bufs_fresh := False\<rparr>"
  shows "groups_ok (G_shift_to_GOP v)" and "G_state v = G_state s" "G_Trans_memb v = G_Trans_memb s"
    "G_Trans_memb_id v = G_Trans_memb_id s" "G_my v = G_my s"
proof -
  let ?t = "v\<lparr>G_state := GOP\<rparr>"
  from up obtain gs acts where u: "u = g_emit acts (s\<lparr>GroupsList := gs,
      Num_groups := Num_groups s - (int (length (GroupsList s)) - int (length gs))\<rparr>)"
    by (rule update_groups_cases)
  note defs = v u g_emit_def reset_gathering_def G_discard_groups_bufs_def
  have eq: "group_ok ?t = group_ok (s\<lparr>G_state := GOP\<rparr>)" by (rule group_ok_frame) (simp_all add: defs)
  have known: "\<not> Is_unknown_memb_id (G_Reg_memb_id s)" using d by (simp add: daemon_in_ok_def)
  have keep: "gr_name r = gr_name g \<and> group_ok (s\<lparr>G_state := GOP\<rparr>) r"
    if "group_ok s g" "notify_step s g = Some (Some r, acts)" for g r acts
    by (rule notify_step_keeps [OF that(2,1) st known]) (simp only: option.inject simp_thms)
  have "list_ok ?t"
    by (rule update_groups_list_ok [OF up l]) (use keep in \<open>simp_all only: eq\<close>, simp_all add: defs)
  moreover have "daemon_in_ok ?t" using d by (simp add: daemon_in_ok_def defs)
  ultimately show "groups_ok (G_shift_to_GOP v)" by - (rule groups_okI, assumption+, simp only: G_shift_to_GOP_def)
  show "G_state v = G_state s" "G_Trans_memb v = G_Trans_memb s" "G_Trans_memb_id v = G_Trans_memb_id s" "G_my v = G_my s"
    by (simp_all add: defs)
qed

lemma finish_keeps:
  assumes run: "finish_gathering s = Some t" and st: "G_state s = GGATHER \<or> G_state s = GGT"
    and d: "daemon_in_ok s" and l: "list_ok s" and complete: "\<forall>l \<in> set (Gathered s). gl_complete l"
  shows "groups_ok t"
proof -
  let ?e = "g_emit [Prot_set_down_queue NORMAL_DOWNQUEUE, Session_threshold LOW_PRIORITY] s"
  obtain v where v: "G_compute_and_notify ?e = Some v"
    and t: "if G_state v = GGATHER then t = G_shift_to_GOP v
      else G_handle_trans_memb (G_Trans_memb v) (G_Trans_memb_id v) (G_shift_to_GOP v) = Some t"
    using run by (auto simp: finish_gathering_def split: option.splits if_splits)
  have de: "daemon_in_ok ?e" using d by (simp add: daemon_in_ok_def g_emit_def)
  have "group_ok ?e = group_ok s" by (rule group_ok_frame) (simp_all add: g_emit_def)
  then have le: "list_ok ?e" using l list_ok_frame [of ?e s] by (simp add: g_emit_def)
  obtain s1 u where m: "links_to_groups (\<lambda>_. True) (Gathered ?e) None ?e = Some s1"
    and up: "update_groups (notify_step s1) s1 = Some u"
    and v': "v = (G_discard_groups_bufs (reset_gathering u))\<lparr>Groups_bufs_fresh := False\<rparr>"
    using v by (auto simp: G_compute_and_notify_def split: option.splits)
  have links: "\<And>l. l \<in> set (Gathered ?e) \<Longrightarrow> link_ok (G_conf ?e) l" using de complete by (simp add: daemon_in_ok_def g_emit_def)
  have "\<exists>gs n b ids. s1 = ?e\<lparr>GroupsList := gs, Num_groups := n, Groups_bufs_fresh := b, MySyncedSet := ids, Gathered := []\<rparr> \<and>
      daemon_in_ok s1 \<and> list_ok s1 \<and> view s1 = view ?e \<union> (\<Union>l \<in> {l \<in> set (Gathered ?e). True}. link_view l)"
    by (rule links_merge [OF m de le]) (use st links in \<open>simp_all add: g_emit_def\<close>)
  then have ok1: "daemon_in_ok s1" "list_ok s1" "G_state s1 = GGATHER \<or> G_state s1 = GGT" using st by (auto simp: g_emit_def)
  note n = notify_keeps [OF up ok1(3,1,2) v']
  show ?thesis
  proof (cases "G_state v = GGATHER")
    case True
    with t n(1) show ?thesis by simp
  next
    case False
    then have "G_state s1 = GGT" using n(2) ok1(3) by simp
    then have "\<not> Is_unknown_memb_id (G_Trans_memb_id v)"
        "Conf_id_in_conf (G_Trans_memb v) (p_id (G_my (G_shift_to_GOP v))) \<noteq> - 1"
      using ok1(1) n(3-5) by (simp_all add: daemon_in_ok_def G_shift_to_GOP_def g_emit_def)
    moreover have "G_handle_trans_memb (G_Trans_memb v) (G_Trans_memb_id v) (G_shift_to_GOP v) = Some t"
      using t False by simp
    ultimately show ?thesis using trans_memb_keeps n(1) by blast
  qed
qed

lemma groups_keeps:
  assumes h: "G_handle_groups m s = Some t" and ok: "groups_ok s"
    and links: "\<And>p own u. u = gathered m (p_id p) own s \<Longrightarrow>
       snd (Conf_proc_by_name_in_conf (G_conf s) (gm_proc_name m)) = Some p \<Longrightarrow> Is_synced_set_leader (p_id p) s = Some own \<Longrightarrow>
       (\<forall>l \<in> set (Gathered u). gl_complete l \<longrightarrow> link_ok (G_conf s) l) \<and>
       (Num_daemons_gathered u = Conf_num_procs (G_Reg_memb u) \<longrightarrow> (\<forall>l \<in> set (Gathered u). gl_complete l))"
  shows "groups_ok t"
proof -
  have st: "G_state s = GGATHER \<or> G_state s = GGT" using h by (cases "G_state s") (auto simp: G_handle_groups_def)
  consider "t = s" | p own where "snd (Conf_proc_by_name_in_conf (G_conf s) (gm_proc_name m)) = Some p"
      "Is_synced_set_leader (p_id p) s = Some own"
      "let u = gathered m (p_id p) own s in if Num_daemons_gathered u \<noteq> Conf_num_procs (G_Reg_memb u) then t = u
         else finish_gathering u = Some t"
    using h by (fastforce simp: G_handle_groups_def Let_def split: if_splits option.splits)
  then show ?thesis
  proof cases
    case 1
    with ok show ?thesis by simp
  next
    case 2
    let ?u = "gathered m (p_id p) own s"
    note lk = links [OF refl 2(1,2)]
    have fr: "G_conf ?u = G_conf s" "MySyncedSet ?u = MySyncedSet s" "G_my ?u = G_my s" "G_state ?u = G_state s"
      "G_Reg_memb_id ?u = G_Reg_memb_id s" "G_Trans_memb_id ?u = G_Trans_memb_id s" "G_Trans_memb ?u = G_Trans_memb s"
      "Cn_active ?u = Cn_active s" "Sessions ?u = Sessions s" "GroupsList ?u = GroupsList s" "Num_groups ?u = Num_groups s"
      by (simp_all add: gathered_def Let_def)
    have "group_ok ?u = group_ok s" by (rule group_ok_frame) (simp_all add: fr)
    then have l: "list_ok ?u" using ok list_ok_frame [of ?u s] by (simp add: groups_ok_def fr)
    have d: "daemon_in_ok ?u" using ok lk by (simp add: groups_ok_def daemon_in_ok_def fr)
    show ?thesis
    proof (cases "Num_daemons_gathered ?u = Conf_num_procs (G_Reg_memb ?u)")
      case True
      have "finish_gathering ?u = Some t" using 2(3) True by (simp add: Let_def)
      then show ?thesis using finish_keeps [OF _ _ d l] st lk True by (simp add: fr)
    next
      case False
      then have "t = ?u" using 2(3) by (simp add: Let_def)
      with d l show ?thesis by (simp add: groups_ok_def)
    qed
  qed
qed

section \<open>Every step\<close>

lemma boxes_ok_sessions:
  assumes "\<forall>nm \<in> set (members_at (p_id my) g). box ss' nm = box ss nm"
  shows "boxes_ok ss' my g = boxes_ok ss my g"
proof -
  have "map (box ss') (members_at (p_id my) g) = map (box ss) (members_at (p_id my) g)" using assms by simp
  then show ?thesis by (simp only: boxes_ok_def)
qed

lemma sessions_keep:
  assumes "\<forall>g \<in> set (GroupsList s). \<forall>nm \<in> set (members_at (p_id (G_my s)) g). box ss nm = box (Sessions s) nm"
    and ok: "groups_ok s"
  shows "groups_ok (s\<lparr>Sessions := ss\<rparr>)"
proof -
  have "group_ok (s\<lparr>Sessions := ss\<rparr>) g = group_ok s g" if "g \<in> set (GroupsList s)" for g
    using boxes_ok_sessions [of "G_my s" g ss "Sessions s"] assms(1) that by (simp add: group_ok_def)
  moreover have "daemon_in_ok (s\<lparr>Sessions := ss\<rparr>) = daemon_in_ok s" by (rule daemon_in_ok_frame) simp_all
  ultimately show ?thesis using ok by (simp add: groups_ok_def list_ok_def)
qed

lemma groups_step_keeps: "groups_step s t \<Longrightarrow> groups_ok s \<Longrightarrow> groups_ok t"
proof (induction rule: groups_step.induct)
  case (join nm group_name s t)
  show ?case
  proof (rule join_keeps [OF join(1,4,2)])
    fix prv prc p
    assume "G_private_to_names nm = Some (prv, prc)" "snd (Conf_proc_by_name_in_conf (G_conf s) prc) = Some p"
    then show "p_id p \<in> set (MySyncedSet s) \<or> G_state s = GTRANS \<and> Conf_id_in_conf (G_Trans_memb s) (p_id p) = - 1"
      by (rule join(3) [rule_format])
  qed
next
  case (leave nm group_name s t)
  then show ?case by (rule leave_keeps)
next
  case (kill nm s t)
  then show ?case by (rule kill_keeps)
next
  case (trans_memb c i s t)
  show ?case by (rule trans_memb_keeps [OF trans_memb(1,4,2,3)])
next
  case (reg_memb c i s t)
  show ?case by (rule reg_memb_keeps [OF reg_memb(1,3,2)])
next
  case (groups m s t)
  show ?case by (rule groups_keeps [OF groups(1,3)]) (use groups(2) [unfolded Let_def] in blast)
next
  case (sessions s ss)
  then show ?case by (rule sessions_keep)
qed

lemma groups_reachable_keeps: "groups_reachable s t \<Longrightarrow> groups_ok s \<Longrightarrow> groups_ok t"
  by (induction rule: groups_reachable.induct) (simp_all add: groups_step_keeps)

lemma G_init_ok:
  assumes "p_id my \<in> p_id ` set (allprocs c)" "\<forall>p \<in> set (allprocs c). p_id p = p_id my \<longrightarrow> p_name p = p_name my"
    "\<not> Is_unknown_memb_id (G_Reg_memb_id s)" "\<not> Is_unknown_memb_id (G_Trans_memb_id s)"
  shows "groups_ok (G_init c my s)"
proof -
  have "conf_index c (p_id my) \<noteq> -1"
    using assms(1) by (auto simp: Conf_proc_by_id_in_conf_def Conf_proc_ref_by_id_in_conf_def Let_def index_of_minus_one)
  with assms(2-) show ?thesis
    by (simp add: G_init_def G_shift_to_GOP_def groups_ok_def daemon_in_ok_def list_ok_def g_emit_def)
qed

end
