(* ===== verification/GroupsEffects.thy ===== *)
theory GroupsEffects
  imports GroupsSteps
begin

text \<open>What the handlers of \<open>daemon/groups.c\<close> do to the view of the groups.\<close>

lemma views_set_group:
  assumes srt: "skl_sorted gr_name G_compare_nameptr gs" and len: "\<forall>h \<in> set gs. length (gr_name h) < MAX_GROUP_NAME"
    and h: "h \<in> set gs" "gr_name g = gr_name h"
  shows "views (skl_update gr_name G_compare_nameptr (gr_name g) (\<lambda>_. g) gs) =
    {x \<in> views gs. fst x \<noteq> gr_name g} \<union> Pair (gr_name g) ` group_view g"
proof -
  have short: "length (gr_name g) < MAX_GROUP_NAME" using len h by auto
  have "skl_update gr_name G_compare_nameptr (gr_name g) (\<lambda>_. g) gs = map (\<lambda>x. if gr_name x = gr_name g then g else x) gs"
    using len short by (auto simp: skl_update_def)
  with h show ?thesis by (auto simp: views_def)
qed

lemma views_in:
  assumes srt: "skl_sorted gr_name G_compare_nameptr gs" and g: "g \<in> set gs"
  shows "{x \<in> views gs. fst x = gr_name g} = Pair (gr_name g) ` group_view g"
proof -
  have "h = g" if "h \<in> set gs" "gr_name h = gr_name g" for h
    using that sorted_names_distinct [OF srt] g by (auto simp: distinct_map inj_on_def)
  then show ?thesis using g by (fastforce simp: views_def)
qed

lemma views_split: "views gs = {x \<in> views gs. fst x \<noteq> n} \<union> {x \<in> views gs. fst x = n}"
  by auto

lemma join_view:
  assumes h: "G_handle_join nm group_name s = Some t" and ok: "groups_ok s" and len: "length group_name < MAX_GROUP_NAME"
    and nm: "G_private_to_names nm = Some (prv, prc)" and p: "snd (Conf_proc_by_name_in_conf (G_conf s) prc) = Some p"
  shows "view t = insert (group_name, p_id p, nm) (view s)"
proof -
  have quiet: "\<not> (G_state s = GGATHER \<or> G_state s = GGT)" using h by (auto simp: G_handle_join_def)
  have l: "list_ok s" using ok by (auto simp: groups_ok_def)
  then have srt: "skl_sorted gr_name G_compare_nameptr (GroupsList s)"
    and all: "\<forall>g \<in> set (GroupsList s). length (gr_name g) < MAX_GROUP_NAME \<and> group_ok s g" by (auto simp: list_ok_def)
  obtain g s1 where gs: "get_or_add_group s group_name = (g, s1)" by fastforce
  obtain g' acts where j: "join_member s1 (p_id p) nm prv g = Some (g', acts)" and t: "t = g_emit acts (set_group g' s1)"
    using h quiet nm p gs
    by (cases "join_member s1 (p_id p) nm prv g") (auto simp: G_handle_join_def split: if_splits)
  have s1: "Cn_active s1 = Cn_active s" using gs by (auto simp: get_or_add_group_def split: option.splits)
  have short: "length nm < MAX_GROUP_NAME" by (rule private_length [OF nm])
  have known: "daemons_ok (Cn_active s1) g \<and> gr_name g = group_name \<and> g \<in> set (GroupsList s1) \<and> views (GroupsList s1) = view s \<and>
      skl_sorted gr_name G_compare_nameptr (GroupsList s1) \<and> (\<forall>h \<in> set (GroupsList s1). length (gr_name h) < MAX_GROUP_NAME)"
  proof (cases "G_get_group group_name (GroupsList s)")
    case None
    then have g: "g = new_group s group_name" and s1': "GroupsList s1 = skl_put gr_name G_compare_nameptr g (GroupsList s)"
      using gs by (auto simp: get_or_add_group_def)
    have name: "gr_name g = group_name" "group_view g = {}" "daemons_ok (Cn_active s1) g"
      by (simp_all add: g new_group_def group_view_def daemons_ok_def group_members_def)
    have "skl_find gr_name G_compare_nameptr (gr_name g) (GroupsList s) = None" using None by (simp add: name G_get_group_def)
    from names.skl_put_split [OF this] obtain us vs where "GroupsList s = us @ vs" "GroupsList s1 = us @ g # vs"
      unfolding s1' .
    moreover have "skl_sorted gr_name G_compare_nameptr (GroupsList s1)" using names.skl_sorted_put [OF srt, of g] s1' by simp
    ultimately show ?thesis using name all len by (auto simp: view_def)
  next
    case (Some k)
    then have g: "g = k" "s1 = s" using gs by (auto simp: get_or_add_group_def)
    with Some have gin: "g \<in> set (GroupsList s)" "G_compare_nameptr (gr_name g) group_name = 0"
      by (auto simp: G_get_group_def dest: skl_find_SomeD)
    with all len have "gr_name g = group_name" "group_ok s g" by auto
    with gin g srt all show ?thesis by (auto simp: view_def group_ok_def)
  qed
  have gv: "group_view g' = insert (p_id p, nm) (group_view g)" "gr_name g' = gr_name g"
    using join_member_view [OF j _ short] join_keeps_lists(3) [OF j] known by auto
  have "view t = {x \<in> views (GroupsList s1). fst x \<noteq> gr_name g'} \<union> Pair (gr_name g') ` group_view g'"
    using views_set_group [of "GroupsList s1" g g'] known gv(2) by (simp add: t view_def set_group_def g_emit_def)
  also have "\<dots> = insert (group_name, p_id p, nm)
      ({x \<in> views (GroupsList s1). fst x \<noteq> gr_name g} \<union> {x \<in> views (GroupsList s1). fst x = gr_name g})"
    using views_in [of "GroupsList s1" g] known by (simp add: gv)
  also have "\<dots> = insert (group_name, p_id p, nm) (view s)" using views_split known by metis
  finally show ?thesis .
qed

lemma leave_view:
  assumes h: "G_handle_leave nm group_name s = Some t" and ok: "groups_ok s" and len: "length group_name < MAX_GROUP_NAME"
    and nm: "G_private_to_names nm = Some (prv, prc)" and p: "snd (Conf_proc_by_name_in_conf (G_conf s) prc) = Some p"
  shows "view t = view s - {(group_name, p_id p, nm)}"
proof -
  have quiet: "\<not> (G_state s = GGATHER \<or> G_state s = GGT)" using h by (auto simp: G_handle_leave_def)
  have l: "list_ok s" using ok by (auto simp: groups_ok_def)
  then have srt: "skl_sorted gr_name G_compare_nameptr (GroupsList s)"
    and all: "\<forall>g \<in> set (GroupsList s). length (gr_name g) < MAX_GROUP_NAME \<and> group_ok s g" by (auto simp: list_ok_def)
  have short: "length nm < MAX_GROUP_NAME" by (rule private_length [OF nm])
  show ?thesis
  proof (cases "G_get_group group_name (GroupsList s)")
    case None
    then have "\<forall>g \<in> set (GroupsList s). gr_name g \<noteq> group_name"
      using all len by (auto simp: G_get_group_def skl_find_None)
    then have "(group_name, p_id p, nm) \<notin> view s" by (auto simp: view_def views_def)
    moreover have "t = s" using h quiet nm p None by (simp add: G_handle_leave_def)
    ultimately show ?thesis by simp
  next
    case (Some g)
    then have gin: "g \<in> set (GroupsList s)" "G_compare_nameptr (gr_name g) group_name = 0"
      by (auto simp: G_get_group_def dest: skl_find_SomeD)
    with all len have name: "gr_name g = group_name" and d: "daemons_ok (Cn_active s) g" by (auto simp: group_ok_def)
    have gv: "{x \<in> view s. fst x = group_name} = Pair group_name ` group_view g"
      using views_in [OF srt gin(1)] by (simp add: name view_def)
    have rest: "view s - {(group_name, p_id p, nm)} =
        {x \<in> view s. fst x \<noteq> group_name} \<union> Pair group_name ` (group_view g - {(p_id p, nm)})"
      using views_split [of "GroupsList s" group_name] gv by (auto simp: view_def)
    show ?thesis
    proof (cases "is_member s (p_id p) nm g")
      case False
      then have "t = s" using h quiet nm p Some by (simp add: G_handle_leave_def)
      moreover have "(p_id p, nm) \<notin> group_view g" using False is_member_iff [OF d short] by simp
      moreover have "(group_name, p_id p, nm) \<in> view s \<longleftrightarrow> (p_id p, nm) \<in> group_view g"
        using arg_cong [OF gv, of "\<lambda>S. (group_name, p_id p, nm) \<in> S"] by auto
      ultimately show ?thesis by simp
    next
      case True
      have run: "(case leave_group s (p_id p) nm prv g of None \<Rightarrow> None
          | Some (None, acts) \<Rightarrow>
              Some (g_emit acts (s\<lparr>GroupsList := skl_erase gr_name G_compare_nameptr group_name (GroupsList s),
                                   Num_groups := Num_groups s - 1\<rparr>))
          | Some (Some g', acts) \<Rightarrow> Some (g_emit acts (set_group g' s))) = Some t"
        using h quiet nm p Some True by (simp add: G_handle_leave_def split del: if_split)
      then obtain r acts where r: "leave_group s (p_id p) nm prv g = Some (r, acts)" by (auto split: option.splits)
      note v = leave_group_view [OF r d True short]
      show ?thesis
      proof (cases r)
        case None
        have "skl_erase gr_name G_compare_nameptr group_name (GroupsList s) = filter (\<lambda>h. gr_name h \<noteq> group_name) (GroupsList s)"
          using all len by (auto simp: skl_erase_def intro: filter_cong)
        then have "view t = {x \<in> view s. fst x \<noteq> group_name}" using run r None by (auto simp: view_def views_def g_emit_def)
        with rest v None show ?thesis by (simp only: option.case image_empty Un_empty_right)
      next
        case (Some g')
        then have "view t = {x \<in> views (GroupsList s). fst x \<noteq> gr_name g'} \<union> Pair (gr_name g') ` group_view g'"
          using run r v views_set_group [OF srt _ gin(1), of g'] all by (auto simp: view_def set_group_def g_emit_def)
        with rest v Some show ?thesis by (simp add: name view_def)
      qed
    qed
  qed
qed

lemma kill_view:
  assumes h: "G_handle_kill nm s = Some t" and ok: "groups_ok s"
    and nm: "G_private_to_names nm = Some (prv, prc)" and p: "snd (Conf_proc_by_name_in_conf (G_conf s) prc) = Some p"
  shows "view t = {(g, x). (g, x) \<in> view s \<and> x \<noteq> (p_id p, nm)}"
proof (rule update_groups_view)
  have "\<not> (G_state s = GGATHER \<or> G_state s = GGT)" using h by (auto simp: G_handle_kill_def)
  with h nm p show "update_groups (kill_step s (p_id p) nm prv) s = Some t" by (simp add: G_handle_kill_def)
  fix g r acts assume g: "g \<in> set (GroupsList s)" and r: "kill_step s (p_id p) nm prv g = Some (r, acts)"
  have d: "daemons_ok (Cn_active s) g" using g ok by (auto simp: groups_ok_def list_ok_def group_ok_def)
  have e: "{x \<in> group_view g. x \<noteq> (p_id p, nm)} = group_view g - {(p_id p, nm)}" by auto
  show "case r of None \<Rightarrow> {x \<in> group_view g. x \<noteq> (p_id p, nm)} = {}
    | Some g' \<Rightarrow> gr_name g' = gr_name g \<and> group_view g' = {x \<in> group_view g. x \<noteq> (p_id p, nm)}"
    unfolding e by (rule kill_step_view [OF r d private_length [OF nm]])
qed

lemma trans_memb_view:
  assumes "G_handle_trans_memb c i s = Some t"
  shows "view t = view s"
proof -
  let ?s = "s\<lparr>G_Trans_memb := c, G_Trans_memb_id := i\<rparr>"
  obtain step u where u: "update_groups step ?s = Some u" "view t = view u" "step = trans_step ?s \<or> step = cascade_step ?s"
    using assms by (cases "G_state s") (auto simp: G_handle_trans_memb_def Let_def view_def)
  have "view u = {(n, x). (n, x) \<in> view ?s \<and> True}"
    by (rule update_groups_view [OF u(1)]) (use u(3) trans_step_view cascade_step_view in fastforce)
  with u(2) show ?thesis by (simp add: view_def)
qed

text \<open>A regular membership leaves the members in the transitional one, and those that were gathered before it.\<close>

definition gathered_view :: "groups_state \<Rightarrow> (string \<times> int32u \<times> string) set" where
  "gathered_view s = (\<Union>l \<in> {l \<in> set (Gathered s). gl_complete l}. link_view l)"

lemma eliminated:
  assumes up: "update_groups step s = Some u" and d: "daemon_in_ok s" and l: "list_ok s"
    and st: "(step = settle_step s \<or> step = eliminate_step s) \<and> G_state s = GTRANS \<or> step = cascade_eliminate_step s \<and> G_state s = GGT"
  shows "view u = {(g, x). (g, x) \<in> view s \<and> in_trans s x}"
proof (rule update_groups_view [OF up])
  have my: "Conf_id_in_conf (G_Trans_memb s) (p_id (G_my s)) \<noteq> - 1" using d st by (auto simp: daemon_in_ok_def)
  fix g r acts assume g: "g \<in> set (GroupsList s)" and r: "step g = Some (r, acts)"
  have ok: "group_ok s g" using g l by (simp add: list_ok_def)
  show "case r of None \<Rightarrow> {x \<in> group_view g. in_trans s x} = {}
    | Some g' \<Rightarrow> gr_name g' = gr_name g \<and> group_view g' = {x \<in> group_view g. in_trans s x}"
    by (rule eliminating_view [OF ok my]) (use st r in blast)
qed

lemma sends_view:
  assumes "leader_sends f s = Some t" "f = rebuild_groups_bufs \<or> f = refresh_groups_bufs"
  shows "view t = view s"
  using sends_frame [OF assms] by (auto simp: view_def g_emit_def)

lemma reg_memb_view:
  assumes h: "G_handle_reg_memb c i s = Some t" and ok: "groups_ok s" and known: "\<not> Is_unknown_memb_id i"
  shows "view t = {(g, d, nm).
      (g, d, nm) \<in> view s \<union> (if G_state s = GGT \<and> Gathered_complete s then gathered_view s else {}) \<and>
      Conf_id_in_conf (G_Trans_memb s) d \<noteq> -1}"
proof -
  let ?s = "s\<lparr>G_Reg_memb := c, G_Reg_memb_id := i\<rparr>"
  have "group_ok ?s = group_ok s" by (rule group_ok_frame) simp_all
  then have l: "list_ok ?s" using ok list_ok_frame [of ?s s] by (simp add: groups_ok_def)
  have d: "daemon_in_ok ?s" using ok known by (simp add: groups_ok_def daemon_in_ok_def)
  consider u where "G_state ?s = GTRANS" "update_groups (settle_step ?s) ?s = Some u" "t = G_shift_to_GOP u"
    | "G_state ?s = GTRANS" "start_gathering ?s = Some t" | "G_state ?s = GGT" "restart_gathering ?s = Some t"
    using h by (cases "G_state s") (auto simp: G_handle_reg_memb_def Let_def split: if_splits)
  then show ?thesis
  proof cases
    case 1
    have "view t = view u" by (simp add: 1(3) G_shift_to_GOP_def view_def g_emit_def)
    with eliminated [OF 1(2) d l] 1(1) show ?thesis by (auto simp: view_def)
  next
    case 2
    obtain u v where up: "update_groups (eliminate_step ?s) ?s = Some u"
      and v: "leader_sends rebuild_groups_bufs (g_emit [Session_threshold MEDIUM_PRIORITY,
          Prot_set_down_queue GROUPS_DOWNQUEUE, Prot_set_delivery_threshold AGREED_TYPE] u) = Some v"
      and t: "t = v\<lparr>G_state := GGATHER\<rparr>"
      using 2(2) by (auto simp: start_gathering_def split: option.splits)
    have "view t = view u" using sends_view [OF v] by (simp add: t view_def g_emit_def)
    with eliminated [OF up d l] 2(1) show ?thesis by (auto simp: view_def)
  next
    case 3
    obtain s1 where m: "links_to_groups (\<lambda>l. Gathered_complete ?s \<and> gl_complete l) (Gathered ?s) None ?s = Some s1"
      using 3(2) by (auto simp: restart_gathering_def split: option.splits)
    have links: "\<And>l. l \<in> set (Gathered ?s) \<Longrightarrow> Gathered_complete ?s \<and> gl_complete l \<Longrightarrow> link_ok (G_conf ?s) l"
      using d by (simp add: daemon_in_ok_def)
    have "\<exists>gs n b ids. s1 = ?s\<lparr>GroupsList := gs, Num_groups := n, Groups_bufs_fresh := b, MySyncedSet := ids, Gathered := []\<rparr> \<and>
        daemon_in_ok s1 \<and> list_ok s1 \<and>
        view s1 = view ?s \<union> (\<Union>l \<in> {l \<in> set (Gathered ?s). Gathered_complete ?s \<and> gl_complete l}. link_view l)"
      by (rule links_merge [OF m d l]) (use 3(1) links in simp_all)
    then have ok1: "daemon_in_ok s1" "list_ok s1" "G_state s1 = GGT" "G_Trans_memb s1 = G_Trans_memb s"
      and v1: "view s1 = view s \<union> (if Gathered_complete s then gathered_view s else {})"
      using 3(1) by (auto simp: view_def gathered_view_def)
    obtain gs acts where gs: "for_groups (cascade_eliminate_step s1) (GroupsList s1) = Some (gs, acts)"
      using 3(2) m by (auto simp: restart_gathering_def split: option.splits)
    let ?s2 = "s1\<lparr>GroupsList := gs, Num_groups := Num_groups s1 - (int (length (GroupsList s1)) - int (length gs))\<rparr>"
    have up: "update_groups (cascade_eliminate_step s1) s1 = Some (g_emit acts ?s2)" by (simp add: update_groups_def gs)
    obtain w v where v: "leader_sends refresh_groups_bufs w = Some v" "GroupsList w = gs" and t: "t = v\<lparr>G_state := GGATHER\<rparr>"
      using 3(2) m gs by (auto simp: restart_gathering_def reset_gathering_def Let_def split: prod.splits)
    have "view t = view (g_emit acts ?s2)" using sends_view [OF v(1)] v(2) by (simp add: t view_def g_emit_def)
    also have "\<dots> = {(g, x). (g, x) \<in> view s1 \<and> in_trans s1 x}" by (rule eliminated [OF up ok1(1,2)]) (simp add: ok1(3))
    finally show ?thesis using v1 ok1(4) 3(1) by (auto split: if_splits)
  qed
qed

text \<open>The last groups message completes the view with what all other sets told.\<close>

lemma finish_view:
  assumes run: "finish_gathering s = Some t" and st: "G_state s = GGATHER \<or> G_state s = GGT"
    and d: "daemon_in_ok s" and l: "list_ok s" and complete: "\<forall>l \<in> set (Gathered s). gl_complete l"
  shows "view t = view s \<union> gathered_view s"
proof -
  let ?e = "g_emit [Prot_set_down_queue NORMAL_DOWNQUEUE, Session_threshold LOW_PRIORITY] s"
  obtain v where v: "G_compute_and_notify ?e = Some v"
    and t: "t = G_shift_to_GOP v \<or> G_handle_trans_memb (G_Trans_memb v) (G_Trans_memb_id v) (G_shift_to_GOP v) = Some t"
    using run by (auto simp: finish_gathering_def split: option.splits if_splits)
  have de: "daemon_in_ok ?e" using d by (simp add: daemon_in_ok_def g_emit_def)
  have "group_ok ?e = group_ok s" by (rule group_ok_frame) (simp_all add: g_emit_def)
  then have le: "list_ok ?e" using l list_ok_frame [of ?e s] by (simp add: g_emit_def)
  obtain s1 u where m: "links_to_groups (\<lambda>_. True) (Gathered ?e) None ?e = Some s1"
    and up: "update_groups (notify_step s1) s1 = Some u"
    and v': "v = (G_discard_groups_bufs (reset_gathering u))\<lparr>Groups_bufs_fresh := False\<rparr>"
    using v by (auto simp: G_compute_and_notify_def split: option.splits)
  have links: "\<And>l. l \<in> set (Gathered ?e) \<Longrightarrow> link_ok (G_conf ?e) l" using de complete by (simp add: daemon_in_ok_def g_emit_def)
  have "\<exists>gs n b ids. s1 = ?e\<lparr>GroupsList := gs, Num_groups := n, Groups_bufs_fresh := b, MySyncedSet := ids, Gathered := []\<rparr> \<and>
      daemon_in_ok s1 \<and> list_ok s1 \<and> view s1 = view ?e \<union> (\<Union>l \<in> {l \<in> set (Gathered ?e). True}. link_view l)"
    by (rule links_merge [OF m de le]) (use st links in \<open>simp_all add: g_emit_def\<close>)
  moreover have "{l \<in> set (Gathered ?e). True} = {l \<in> set (Gathered s). gl_complete l}" using complete by (auto simp: g_emit_def)
  ultimately have v1: "view s1 = view s \<union> gathered_view s" by (auto simp: gathered_view_def)
  have "view u = {(n, x). (n, x) \<in> view s1 \<and> True}"
    by (rule update_groups_view [OF up]) (use notify_step_view in fastforce)
  moreover have "view (G_shift_to_GOP v) = view u"
    by (simp add: v' G_shift_to_GOP_def view_def g_emit_def reset_gathering_def G_discard_groups_bufs_def)
  ultimately show ?thesis using t trans_memb_view v1 by auto
qed

lemma link_state: "link_to_groups ms x s = Some (y, t) \<Longrightarrow> G_state t = G_state s"
proof -
  assume "link_to_groups ms x s = Some (y, t)"
  then obtain ps where "t = fold add_group_part ps s" by (auto simp: link_to_groups_content)
  with fold_parts_frame [of ps s] show ?thesis by auto
qed

lemma links_state: "links_to_groups take_it ls x s = Some t \<Longrightarrow> G_state t = G_state s"
proof (induction take_it ls x s rule: links_to_groups.induct)
  case (2 take_it k ls x s)
  show ?case
  proof (cases "take_it k")
    case True
    let ?fresh = "\<lambda>s1. if gl_messages k = [] then s1 else s1\<lparr>Groups_bufs_fresh := False\<rparr>"
    from 2(3) True obtain y s1 s2 where r: "link_to_groups (gl_messages k) x s = Some (y, s1)"
      and a: "G_add_to_synced_set y (?fresh s1) = Some s2" and t: "links_to_groups take_it ls y s2 = Some t"
      by (auto split: option.splits)
    have "G_state s2 = G_state s1" using a by (auto simp: G_add_to_synced_set_def split: option.splits if_splits)
    with 2(1) [OF True r refl a t] link_state [OF r] show ?thesis by simp
  qed (use 2 in simp)
qed auto

lemma finish_state:
  assumes "finish_gathering s = Some t"
  shows "G_state s = GGATHER \<Longrightarrow> G_state t = GOP" and "G_state s = GGT \<Longrightarrow> G_state t = GTRANS"
proof -
  let ?e = "g_emit [Prot_set_down_queue NORMAL_DOWNQUEUE, Session_threshold LOW_PRIORITY] s"
  obtain v where v: "G_compute_and_notify ?e = Some v"
    and t: "if G_state v = GGATHER then t = G_shift_to_GOP v
      else G_handle_trans_memb (G_Trans_memb v) (G_Trans_memb_id v) (G_shift_to_GOP v) = Some t"
    using assms by (auto simp: finish_gathering_def split: option.splits if_splits)
  obtain s1 u where m: "links_to_groups (\<lambda>_. True) (Gathered ?e) None ?e = Some s1"
    and up: "update_groups (notify_step s1) s1 = Some u"
    and v': "v = (G_discard_groups_bufs (reset_gathering u))\<lparr>Groups_bufs_fresh := False\<rparr>"
    using v by (auto simp: G_compute_and_notify_def split: option.splits)
  have "G_state v = G_state s1"
    using up by (auto simp: v' update_groups_def g_emit_def reset_gathering_def G_discard_groups_bufs_def split: option.splits)
  also have "G_state s1 = G_state ?e" using links_state [OF m] .
  finally have st: "G_state v = G_state s" by (simp add: g_emit_def)
  then show "G_state s = GGATHER \<Longrightarrow> G_state t = GOP" using t by (simp add: G_shift_to_GOP_def g_emit_def)
  show "G_state t = GTRANS" if "G_state s = GGT"
  proof -
    have "G_handle_trans_memb (G_Trans_memb v) (G_Trans_memb_id v) (G_shift_to_GOP v) = Some t" using t st that by simp
    then show ?thesis by (auto simp: G_handle_trans_memb_def G_shift_to_GOP_def g_emit_def Let_def)
  qed
qed

end
