(* ===== verification/GroupsWire.thy ===== *)
theory GroupsWire
  imports GroupsEffects
begin

text \<open>
  The groups messages from end to end: the fields, the daemons and the groups of a buffer read
  back as they were written, and the buffers of a synced set tell all of its groups.
\<close>

section \<open>Fields\<close>

lemma get_put32 [simp]: "get32 (put32 w @ bs) = w"
  unfolding get32_def put32_def
proof (rule bit_word_eqI)
  fix n assume "n < LENGTH(32)"
  then consider "n < 8" | "8 \<le> n" "n < 16" | "16 \<le> n" "n < 24" | "24 \<le> n" "n < 32" by fastforce
  then show "bit (ucast (([ucast w, ucast (drop_bit 8 w), ucast (drop_bit 16 w), ucast (drop_bit 24 w)] @ bs) ! 0) OR
      push_bit 8 (ucast (([ucast w, ucast (drop_bit 8 w), ucast (drop_bit 16 w), ucast (drop_bit 24 w)] @ bs) ! 1)) OR
      push_bit 16 (ucast (([ucast w, ucast (drop_bit 8 w), ucast (drop_bit 16 w), ucast (drop_bit 24 w)] @ bs) ! 2)) OR
      push_bit 24 (ucast (([ucast w, ucast (drop_bit 8 w), ucast (drop_bit 16 w), ucast (drop_bit 24 w) :: 8 word] @ bs) ! 3))
      :: 32 word) n = bit w n"
    by cases (auto simp: bit_simps)
qed

lemma get_put16 [simp]: "get16 (put16 w @ bs) = w"
  unfolding get16_def put16_def
proof (rule bit_word_eqI)
  fix n assume "n < LENGTH(16)"
  then consider "n < 8" | "8 \<le> n" "n < 16" by fastforce
  then show "bit (ucast (([ucast w, ucast (drop_bit 8 w)] @ bs) ! 0) OR
      push_bit 8 (ucast (([ucast w, ucast (drop_bit 8 w) :: 8 word] @ bs) ! 1)) :: 16 word) n = bit w n"
    by cases (auto simp: bit_simps)
qed

lemma put_lengths [simp]:
  "length (put32 w) = 4" "length (put16 u) = 2" "length (put_name nm) = 32" "length (put_memb_id m) = 8"
  "length (put_grp_id g) = 12"
  by (simp_all add: put32_def put16_def put_name_def put_memb_id_def put_grp_id_def)

definition in_int32 :: "int \<Rightarrow> bool" where
  "in_int32 x \<longleftrightarrow> - (2 ^ 31) \<le> x \<and> x < 2 ^ 31"

lemma sint_in_int32: "in_int32 x \<Longrightarrow> sint (word_of_int x :: 32 word) = x"
  by (simp add: in_int32_def sint_sbintrunc' signed_take_bit_int_eq_self)

text \<open>Names as the protocol has them: shorter than their array and without null characters.\<close>

definition name_ok :: "string \<Rightarrow> bool" where
  "name_ok nm \<longleftrightarrow> length nm < MAX_GROUP_NAME \<and> CHR 0x00 \<notin> set nm"

lemma char_byte: "char_of (unat (of_nat (of_char ch) :: 8 word)) = ch"
proof -
  have "(of_char ch :: nat) < 256" by (rule nat_of_char_less_256)
  then show ?thesis by (simp add: unat_of_nat take_bit_nat_eq_self)
qed

lemma char_byte_zero: "(of_nat (of_char ch) :: 8 word) = 0 \<longleftrightarrow> ch = CHR 0x00"
proof
  assume "(of_nat (of_char ch) :: 8 word) = 0"
  then have "ch = char_of (0 :: nat)" using char_byte [of ch] by simp
  then show "ch = CHR 0x00" by (simp add: char_of_def)
qed simp

lemma get_put_name: "name_ok nm \<Longrightarrow> get_name (put_name nm @ bs) = nm"
proof -
  assume ok: "name_ok nm"
  let ?b = "\<lambda>ch. of_nat (of_char ch) :: 8 word"
  have "put_name nm = map ?b nm @ replicate (32 - length nm) 0" using ok by (simp add: put_name_def name_ok_def)
  moreover have "takeWhile (\<lambda>b. b \<noteq> 0) (map ?b nm @ replicate (32 - length nm) 0) = map ?b nm"
  proof -
    have all: "\<forall>b \<in> set (map ?b nm). b \<noteq> 0" using ok by (auto simp: name_ok_def char_byte_zero)
    obtain k where "32 - length nm = Suc k" using ok by (cases "32 - length nm") (auto simp: name_ok_def)
    with all show ?thesis by (subst takeWhile_append2) auto
  qed
  moreover have "take 32 (put_name nm @ bs) = put_name nm" by simp
  ultimately show ?thesis by (simp only: get_name_def map_map comp_def char_byte list.map_ident)
qed

lemma zero_in_name: "name_ok nm \<Longrightarrow> 0 \<in> set (take 32 (put_name nm @ bs))"
  by (auto simp: put_name_def name_ok_def)

definition memb_id_ok :: "membership_id \<Rightarrow> bool" where
  "memb_id_ok m \<longleftrightarrow> in_int32 (mi_time m)"

lemma get_put_memb_id [simp]: "memb_id_ok m \<Longrightarrow> get_memb_id True (put_memb_id m @ bs) = m"
  by (simp add: get_memb_id_def put_memb_id_def flip32_def memb_id_ok_def sint_in_int32)

definition grp_id_ok :: "group_id \<Rightarrow> bool" where
  "grp_id_ok g \<longleftrightarrow> memb_id_ok (gi_memb_id g) \<and> in_int32 (gi_index g)"

lemma get_put_grp_id [simp]: "grp_id_ok g \<Longrightarrow> get_grp_id True (put_grp_id g @ bs) = g"
  by (simp add: get_grp_id_def put_grp_id_def flip32_def grp_id_ok_def sint_in_int32)

section \<open>Members, daemons and groups\<close>

lemma read_put_members:
  assumes "\<forall>nm \<in> set ms. name_ok nm"
  shows "read_members (length ms) (concat (map put_name ms) @ bs) acc = Some (fold (skl_put id G_compare_nameptr) ms acc, bs)"
  using assms by (induction ms arbitrary: acc) (simp_all add: get_put_name)

lemma put_all_sorted:
  assumes "skl_sorted id G_compare_nameptr (xs @ ms)"
  shows "fold (skl_put id G_compare_nameptr) ms xs = xs @ ms"
  using assms
proof (induction ms arbitrary: xs)
  case (Cons m ms)
  have "\<forall>y \<in> set xs. 0 < G_compare_nameptr (id m) (id y)"
    using Cons.prems names.cmp_flip by (auto simp: skl_sorted_append)
  then have "skl_put id G_compare_nameptr m xs = xs @ [m]" by (rule skl_put_last)
  with Cons.IH [of "xs @ [m]"] Cons.prems show ?case by (simp only: fold_simps append_assoc append.simps)
qed simp

definition wire_daemon :: "daemon_members \<Rightarrow> bool" where
  "wire_daemon d \<longleftrightarrow> daemon_ok d \<and> (\<forall>nm \<in> set (MembersList d). name_ok nm)"

definition wire_group :: "spread_group \<Rightarrow> bool" where
  "wire_group g \<longleftrightarrow> name_ok (gr_name g) \<and> grp_id_ok (grp_id g) \<and> (\<forall>d \<in> set (DaemonsList g). wire_daemon d)"

text \<open>A daemon is written with the membership id of its group.\<close>

definition wired :: "spread_group \<Rightarrow> daemon_members \<Rightarrow> daemon_members \<times> int" where
  "wired g d = (d\<lparr>dm_memb_id := gi_memb_id (grp_id g)\<rparr>, int (length (MembersList d)))"

lemma length_names: "length (concat (map put_name ms)) = 32 * length ms"
  by (induction ms) simp_all

lemma length_infos [simp]:
  "length (daemon_info g d) = 14 + 32 * length (MembersList d)" "length (group_info g n) = 48"
  by (simp_all add: daemon_info_def group_info_def length_names)

lemma read_put_daemons:
  assumes "\<forall>d \<in> set ds. wire_daemon d \<and> length (MembersList d) < 2 ^ 16" "memb_id_ok (gi_memb_id (grp_id g))"
  shows "read_daemons True (length ds) (concat (map (daemon_info g) ds) @ bs) = Some (map (wired g) ds, bs)"
  using assms
proof (induction ds)
  case (Cons d ds)
  have d: "wire_daemon d" "length (MembersList d) < 2 ^ 16" using Cons.prems by auto
  let ?n = "of_nat (length (MembersList d)) :: 16 word"
  have n: "unat ?n = length (MembersList d)" using d(2) by (simp add: unat_of_nat take_bit_nat_eq_self)
  have m: "fold (skl_put id G_compare_nameptr) (MembersList d) [] = MembersList d"
    using put_all_sorted [of "[]"] d(1) by (simp add: wire_daemon_def daemon_ok_def)
  have "read_members (length (MembersList d)) (concat (map put_name (MembersList d)) @ concat (map (daemon_info g) ds) @ bs) [] =
      Some (MembersList d, concat (map (daemon_info g) ds) @ bs)"
    using read_put_members [of "MembersList d"] d(1) m by (simp add: wire_daemon_def)
  moreover have "get32 (daemon_info g d @ cs) = dm_proc_id d" "get_memb_id True (drop 4 (daemon_info g d @ cs)) = gi_memb_id (grp_id g)"
    "get16 (drop 12 (daemon_info g d @ cs)) = ?n" "drop 14 (daemon_info g d @ cs) = concat (map put_name (MembersList d)) @ cs" for cs
    using Cons.prems(2) by (simp_all add: daemon_info_def)
  moreover have "uint ?n = int (length (MembersList d))" using n by (simp only: uint_nat)
  ultimately show ?case using Cons n by (simp add: flip16_def flip32_def wired_def Let_def)
qed simp

definition part_of :: "spread_group \<Rightarrow> daemon_members list \<Rightarrow> group_part" where
  "part_of g ds = \<lparr>pt_name = gr_name g, pt_grp_id = grp_id g, pt_changed = changed g, pt_daemons = map (wired g) ds\<rparr>"

lemma read_put_group:
  assumes g: "name_ok (gr_name g)" "grp_id_ok (grp_id g)" and ds: "\<forall>d \<in> set ds. wire_daemon d \<and> length (MembersList d) < 2 ^ 16"
    and n: "length ds < 2 ^ 16"
  shows "read_group True (group_info g (length ds) @ concat (map (daemon_info g) ds) @ bs) = Some (part_of g ds, bs)"
proof -
  let ?n = "of_nat (length ds) :: 16 word" and ?c = "if changed g then 1 else 0 :: 16 word"
  have u: "unat ?n = length ds" using n by (simp add: unat_of_nat take_bit_nat_eq_self)
  have f: "0 \<in> set (take 32 (group_info g (length ds) @ cs))" "get_name (group_info g (length ds) @ cs) = gr_name g"
    "get_grp_id True (drop 32 (group_info g (length ds) @ cs)) = grp_id g"
    "get16 (drop 44 (group_info g (length ds) @ cs)) = ?c" "get16 (drop 46 (group_info g (length ds) @ cs)) = ?n"
    "drop 48 (group_info g (length ds) @ cs) = cs" for cs
    using g zero_in_name [of "gr_name g"] get_put_name [of "gr_name g"] by (simp_all add: group_info_def)
  have "read_daemons True (length ds) (concat (map (daemon_info g) ds) @ bs) = Some (map (wired g) ds, bs)"
    using ds g(2) by (intro read_put_daemons) (simp_all add: grp_id_ok_def)
  then show ?thesis using f u by (simp add: read_group_def flip16_def part_of_def)
qed

end
