(* ===== verification/GroupsBuild.thy ===== *)
theory GroupsBuild
  imports GroupsWire
begin

text \<open>
  The buffers of a synced set: what one buffer takes of the groups, when the loop that builds them
  ends, and that together they tell every daemon of every group once.
\<close>

section \<open>One buffer\<close>

type_synonym entry = "string \<times> group_id \<times> bool \<times> (daemon_members \<times> int)"

definition told :: "spread_group \<Rightarrow> daemon_members \<Rightarrow> entry" where
  "told g d = (gr_name g, grp_id g, changed g, wired g d)"

fun still_to_tell :: "spread_group list \<Rightarrow> daemon_members list \<Rightarrow> entry list" where
  "still_to_tell [] dit = []"
| "still_to_tell (g # gs) dit = map (told g) dit @ concat (map (\<lambda>h. map (told h) (DaemonsList h)) gs)"

definition part_entries :: "group_part \<Rightarrow> entry list" where
  "part_entries p = map (\<lambda>x. (pt_name p, pt_grp_id p, pt_changed p, x)) (pt_daemons p)"

lemma part_entries_of [simp]: "part_entries (part_of g ds) = map (told g) ds"
  by (simp add: part_entries_def part_of_def told_def)

definition part_key :: "group_part \<Rightarrow> string \<times> group_id" where
  "part_key p = (pt_name p, pt_grp_id p)"

definition group_key :: "spread_group \<Rightarrow> string \<times> group_id" where
  "group_key g = (gr_name g, grp_id g)"

lemma part_of_key [simp]: "part_key (part_of g ds) = group_key g"
  by (simp add: part_key_def group_key_def part_of_def)

lemma buf_daemons_split:
  assumes "buf_daemons g n dit = Some (bs, k, rest)" "n \<le> GROUPS_BUF_SIZE"
  obtains ds where "dit = ds @ rest" "bs = concat (map (daemon_info g) ds)" "k = length ds"
    "\<forall>d \<in> set ds. length (MembersList d) < 2 ^ 16 \<and> 14 + 32 * int (length (MembersList d)) + 48 \<le> GROUPS_BUF_SIZE - n"
    "n + int (length bs) \<le> GROUPS_BUF_SIZE"
proof -
  have "\<exists>ds. dit = ds @ rest \<and> bs = concat (map (daemon_info g) ds) \<and> k = length ds \<and>
    (\<forall>d \<in> set ds. length (MembersList d) < 2 ^ 16 \<and> 14 + 32 * int (length (MembersList d)) + 48 \<le> GROUPS_BUF_SIZE - n) \<and>
    n + int (length bs) \<le> GROUPS_BUF_SIZE"
    using assms
  proof (induction g n dit arbitrary: bs k rest rule: buf_daemons.induct)
    case (2 g n d ds)
    let ?m = "int (length (MembersList d))"
    show ?case
    proof (cases "14 + ?m * 32 + 48 > GROUPS_BUF_SIZE - n")
      case True
      with 2(2,3) show ?thesis by (simp add: Let_def)
    next
      case False
      then obtain cs j where m: "to_int16u ?m = ?m"
        and r: "buf_daemons g (n + int (length (daemon_info g d))) ds = Some (cs, j, rest)" "bs = daemon_info g d @ cs" "k = Suc j"
        using 2(2) by (auto simp: Let_def split: if_splits option.splits)
      have "n + int (length (daemon_info g d)) \<le> GROUPS_BUF_SIZE" using False by simp
      with 2(1) [OF refl _ _ r(1)] False m obtain es where
        es: "ds = es @ rest" "cs = concat (map (daemon_info g) es)" "j = length es"
        "\<forall>d' \<in> set es. length (MembersList d') < 2 ^ 16 \<and>
           14 + 32 * int (length (MembersList d')) + 48 \<le> GROUPS_BUF_SIZE - (n + int (length (daemon_info g d)))"
        "n + int (length (daemon_info g d)) + int (length cs) \<le> GROUPS_BUF_SIZE" by auto
      have small: "length (MembersList d) < 2 ^ 16" using m by (simp add: to_int16u_def take_bit_int_eq_self_iff)
      have "\<forall>d' \<in> set (d # es). length (MembersList d') < 2 ^ 16 \<and> 14 + 32 * int (length (MembersList d')) + 48 \<le> GROUPS_BUF_SIZE - n"
        using es(4) False small by auto
      moreover have "n + int (length bs) \<le> GROUPS_BUF_SIZE" using es(5) r(2) by simp
      ultimately show ?thesis using es(1,2,3) r(2,3) by (intro exI [of _ "d # es"]) simp
    qed
  qed simp
  with that show thesis by blast
qed

lemma length_daemon_infos: "14 * length ds \<le> length (concat (map (daemon_info g) ds))"
  by (induction ds) simp_all

lemma buf_groups_tells:
  assumes "buf_groups n gs dit = Some (bs, git, dit')" "0 \<le> n" "\<forall>g \<in> set gs. wire_group g" "\<forall>d \<in> set dit. wire_daemon d"
  obtains ps where "read_groups True bs = Some ps" "part_key ` set ps \<subseteq> group_key ` set gs"
    "still_to_tell gs dit = concat (map part_entries ps) @ still_to_tell git dit'"
    "set git \<subseteq> set gs" "\<forall>d \<in> set dit'. wire_daemon d"
proof -
  have "\<exists>ps. read_groups True bs = Some ps \<and> part_key ` set ps \<subseteq> group_key ` set gs \<and>
    still_to_tell gs dit = concat (map part_entries ps) @ still_to_tell git dit' \<and>
    set git \<subseteq> set gs \<and> (\<forall>d \<in> set dit'. wire_daemon d)"
    using assms
  proof (induction n gs dit arbitrary: bs git dit' rule: buf_groups.induct)
    case (1 n dit)
    then show ?case by (simp add: read_groups.simps [of True "[]"])
  next
    case (2 n g gs dit)
    show ?case
    proof (cases "48 + 48 > GROUPS_BUF_SIZE - n")
      case True
      with 2(2,5) show ?thesis by (simp add: read_groups.simps [of True "[]"])
    next
      case False
      obtain ds_bytes k rest where bd: "buf_daemons g (n + 48) dit = Some (ds_bytes, k, rest)"
        using 2(2) False by (cases "buf_daemons g (n + 48) dit") auto
      have fits: "n + 48 \<le> GROUPS_BUF_SIZE" using False by simp
      obtain ds where ds: "dit = ds @ rest" "ds_bytes = concat (map (daemon_info g) ds)" "k = length ds"
        "\<forall>d \<in> set ds. length (MembersList d) < 2 ^ 16 \<and> 14 + 32 * int (length (MembersList d)) + 48 \<le> GROUPS_BUF_SIZE - (n + 48)"
        "n + 48 + int (length ds_bytes) \<le> GROUPS_BUF_SIZE"
        using buf_daemons_split [OF bd fits] .
      have k: "length ds < 2 ^ 16" using length_daemon_infos [of ds g] ds(2,5) 2(3) by simp
      have g: "name_ok (gr_name g)" "grp_id_ok (grp_id g)" using 2(4) by (auto simp: wire_group_def)
      have w: "\<forall>d \<in> set ds. wire_daemon d \<and> length (MembersList d) < 2 ^ 16" using 2(5) ds(1,4) by auto
      note rg = read_put_group [OF g w k]
      have ne: "group_info g j \<noteq> []" for j
        using length_infos(2) [of g j] by (metis list.size(3) zero_neq_numeral)
      have step: "read_groups True (group_info g k @ ds_bytes @ cs) = map_option (\<lambda>ps. part_of g ds # ps) (read_groups True cs)" for cs
        using rg [of cs] ne by (subst read_groups.simps) (simp add: ds(2,3))
      show ?thesis
      proof (cases "rest = []")
        case False
        then have r: "bs = group_info g k @ ds_bytes" "git = g # gs" "dit' = rest"
          using 2(2) bd \<open>\<not> 48 + 48 > GROUPS_BUF_SIZE - n\<close> by auto
        have "read_groups True bs = Some [part_of g ds]"
          using step [of "[]"] by (simp add: r read_groups.simps [of True "[]"])
        then show ?thesis using r ds(1) 2(5) by (intro exI [of _ "[part_of g ds]"]) auto
      next
        case True
        let ?dit = "case gs of [] \<Rightarrow> [] | h # _ \<Rightarrow> DaemonsList h"
        obtain cs where cs: "buf_groups (n + int (length (group_info g k @ ds_bytes))) gs ?dit = Some (cs, git, dit')"
          and bs: "bs = group_info g k @ ds_bytes @ cs"
          using 2(2) bd True \<open>\<not> 48 + 48 > GROUPS_BUF_SIZE - n\<close> by (auto split: option.splits)
        have "\<forall>d \<in> set ?dit. wire_daemon d" using 2(4) by (cases gs) (auto simp: wire_group_def)
        with 2(1) [of "(ds_bytes, k, rest)" ds_bytes "(k, rest)" k rest cs git dit'] bd cs True False 2(3,4) obtain ps where
          ps: "read_groups True cs = Some ps" "part_key ` set ps \<subseteq> group_key ` set gs"
            "still_to_tell gs ?dit = concat (map part_entries ps) @ still_to_tell git dit'" "set git \<subseteq> set gs" "\<forall>d \<in> set dit'. wire_daemon d"
          by auto
        have "still_to_tell gs ?dit = concat (map (\<lambda>h. map (told h) (DaemonsList h)) gs)" by (cases gs) simp_all
        then have "still_to_tell (g # gs) dit = concat (map part_entries (part_of g ds # ps)) @ still_to_tell git dit'"
          using ps(3) ds(1) True by simp
        moreover have "read_groups True bs = Some (part_of g ds # ps)" using step [of cs] ps(1) by (simp add: bs)
        ultimately show ?thesis using ps(2,4,5) by (intro exI [of _ "part_of g ds # ps"]) auto
      qed
    qed
  qed
  with that show thesis by blast
qed

section \<open>All buffers\<close>

text \<open>What the values of a state have to be for their fields.\<close>

definition wire_state :: "groups_state \<Rightarrow> bool" where
  "wire_state s \<longleftrightarrow> memb_id_ok (G_Reg_memb_id s) \<and> int (length (MySyncedSet s)) \<le> MAX_PROCS_RING \<and>
     (\<forall>g \<in> set (GroupsList s). wire_group g)"

text \<open>The content of buffers in the order in which they were built.\<close>

fun bufs_content :: "8 word list list \<Rightarrow> int32u list option \<Rightarrow> (int32u list option \<times> group_part list) option" where
  "bufs_content [] sset = Some (sset, [])"
| "bufs_content (b # bs) sset =
     (case read_synced_set True b of
        None \<Rightarrow> None
      | Some (found, cs) \<Rightarrow>
          (case read_groups True cs of
             None \<Rightarrow> None
           | Some ps \<Rightarrow> map_option (\<lambda>(r, qs). (r, ps @ qs)) (bufs_content bs (if found = None then sset else found))))"

lemma get_put_ids: "map (\<lambda>i. get32 (drop (4 * i) (concat (map put32 xs) @ ys))) [0..<length xs] = xs"
proof (induction xs)
  case (Cons x xs)
  have "map (\<lambda>i. get32 (drop (4 * i) (concat (map put32 (x # xs)) @ ys))) [0..<length (x # xs)] =
      get32 (concat (map put32 (x # xs)) @ ys) # map (\<lambda>i. get32 (drop (4 * i) (concat (map put32 xs) @ ys))) [0..<length xs]"
    by (simp add: upt_conv_Cons map_Suc_upt [symmetric] comp_def del: upt_Suc)
  with Cons show ?case by simp
qed simp

lemma length_ids: "length (concat (map put32 xs)) = 4 * length xs"
  by (induction xs) simp_all

lemma read_put_synced_set:
  assumes "length m = 8" "int (length ids) \<le> MAX_PROCS_RING"
  shows "read_synced_set True (m @ [1] @ put32 (of_nat (length ids)) @ concat (map put32 ids) @ bs) = Some (Some ids, bs)"
    and "read_synced_set True (m @ [0] @ bs) = Some (None, bs)"
proof -
  let ?n = "of_nat (length ids) :: 32 word"
  have n: "unat ?n = length ids" using assms(2) by (simp add: unat_of_nat take_bit_nat_eq_self)
  have "drop 13 (m @ [1] @ put32 ?n @ concat (map put32 ids) @ bs) = concat (map put32 ids) @ bs" using assms(1) by simp
  then have skip: "drop (13 + 4 * i) (m @ [1] @ put32 ?n @ concat (map put32 ids) @ bs) = drop (4 * i) (concat (map put32 ids) @ bs)" for i
    using arg_cong [of _ _ "drop (4 * i)"] by (simp only: drop_drop [symmetric] add.commute [of 13])
  have "drop (13 + 4 * length ids) (m @ [1] @ put32 ?n @ concat (map put32 ids) @ bs) = bs"
    unfolding skip by (simp add: length_ids)
  moreover have "map (\<lambda>i. get32 (drop (13 + 4 * i) (m @ [1] @ put32 ?n @ concat (map put32 ids) @ bs))) [0..<length ids] = ids"
    by (simp only: skip get_put_ids)
  ultimately show "read_synced_set True (m @ [1] @ put32 ?n @ concat (map put32 ids) @ bs) = Some (Some ids, bs)"
    using n assms by (simp add: read_synced_set_def flip32_def nth_append length_ids Let_def)
  show "read_synced_set True (m @ [0] @ bs) = Some (None, bs)"
    using assms(1) by (simp add: read_synced_set_def nth_append)
qed

definition all_told :: "spread_group list \<Rightarrow> entry list" where
  "all_told gs = concat (map (\<lambda>g. map (told g) (DaemonsList g)) gs)"

lemma build_buf_tells:
  assumes b: "G_build_groups_buf s first_time git dit = Some (b, git', dit')" and w: "wire_state s"
    and later: "\<not> first_time \<Longrightarrow> set git \<subseteq> set (GroupsList s) \<and> (\<forall>d \<in> set dit. wire_daemon d)"
  obtains ps cs where "read_synced_set True b = Some (if first_time then Some (MySyncedSet s) else None, cs)"
    "read_groups True cs = Some ps" "get_memb_id True b = G_Reg_memb_id s" "part_key ` set ps \<subseteq> group_key ` set (GroupsList s)"
    "(if first_time then all_told (GroupsList s) else still_to_tell git dit) = concat (map part_entries ps) @ still_to_tell git' dit'"
    "set git' \<subseteq> set (GroupsList s)" "\<forall>d \<in> set dit'. wire_daemon d"
proof -
  let ?head = "if first_time then [1] @ put32 (of_nat (length (MySyncedSet s))) @ concat (map put32 (MySyncedSet s)) else [0]"
  let ?pre = "put_memb_id (G_Reg_memb_id s) @ ?head"
  define gs ds where "gs = (if first_time then GroupsList s else git)"
    and "ds = (if first_time then case GroupsList s of [] \<Rightarrow> [] | g # _ \<Rightarrow> DaemonsList g else dit)"
  obtain cs where cs: "buf_groups (int (length ?pre)) gs ds = Some (cs, git', dit')" and b': "b = ?pre @ cs"
    using b by (auto simp: G_build_groups_buf_def gs_def ds_def Let_def split: option.splits if_splits)
  have sub: "set gs \<subseteq> set (GroupsList s)" using later by (auto simp: gs_def)
  have wg: "\<forall>g \<in> set gs. wire_group g" using sub w by (auto simp: wire_state_def)
  have wd: "\<forall>d \<in> set ds. wire_daemon d"
    using later w by (cases "GroupsList s") (auto simp: ds_def wire_state_def wire_group_def)
  obtain ps where ps: "read_groups True cs = Some ps" "part_key ` set ps \<subseteq> group_key ` set gs"
    "still_to_tell gs ds = concat (map part_entries ps) @ still_to_tell git' dit'" "set git' \<subseteq> set gs" "\<forall>d \<in> set dit'. wire_daemon d"
    using buf_groups_tells [OF cs _ wg wd] by auto
  have a: "read_synced_set True b = Some (if first_time then Some (MySyncedSet s) else None, cs)"
    using read_put_synced_set [of "put_memb_id (G_Reg_memb_id s)" "MySyncedSet s" cs] w
    by (cases first_time) (simp_all add: b' wire_state_def)
  have m: "get_memb_id True b = G_Reg_memb_id s" using w by (simp add: b' wire_state_def)
  have c: "(if first_time then all_told (GroupsList s) else still_to_tell git dit) = still_to_tell gs ds"
    by (auto simp: gs_def ds_def all_told_def split: list.splits)
  show thesis
    by (rule that [OF a ps(1) m _ _ _ ps(5)]) (use ps(2,4) sub in blast, simp only: c ps(3), use ps(4) sub in blast)
qed

lemmas build_bufs_induct = build_bufs.raw_induct [rotated, consumes 1, case_names build]

text \<open>Each buffer starts with the membership, the first one with the synced set, and together they tell all.\<close>

lemma build_bufs_tells:
  assumes "build_bufs s first_time git dit bufs = Some r" "wire_state s"
    and "\<not> first_time \<Longrightarrow> set git \<subseteq> set (GroupsList s) \<and> (\<forall>d \<in> set dit. wire_daemon d)"
  shows "\<exists>news ps. r = rev news @ bufs \<and> (\<forall>b \<in> set news. get_memb_id True b = G_Reg_memb_id s) \<and>
    (\<forall>x. bufs_content news x = Some (if first_time then Some (MySyncedSet s) else x, ps)) \<and>
    part_key ` set ps \<subseteq> group_key ` set (GroupsList s) \<and>
    concat (map part_entries ps) = (if first_time then all_told (GroupsList s) else still_to_tell git dit)"
proof -
  have "wire_state s \<longrightarrow> (\<not> first_time \<longrightarrow> set git \<subseteq> set (GroupsList s) \<and> (\<forall>d \<in> set dit. wire_daemon d)) \<longrightarrow>
    (\<exists>news ps. r = rev news @ bufs \<and> (\<forall>b \<in> set news. get_memb_id True b = G_Reg_memb_id s) \<and>
    (\<forall>x. bufs_content news x = Some (if first_time then Some (MySyncedSet s) else x, ps)) \<and>
    part_key ` set ps \<subseteq> group_key ` set (GroupsList s) \<and>
    concat (map part_entries ps) = (if first_time then all_told (GroupsList s) else still_to_tell git dit))"
    using assms(1)
  proof (induction rule: build_bufs_induct)
    case (build build s first_time git dit bufs r)
    show ?case
    proof (intro impI)
      assume w: "wire_state s" and later: "\<not> first_time \<longrightarrow> set git \<subseteq> set (GroupsList s) \<and> (\<forall>d \<in> set dit. wire_daemon d)"
      obtain b git' dit' where b: "G_build_groups_buf s first_time git dit = Some (b, git', dit')"
        and r: "(if git' = [] then Some (b # bufs) else build s False git' dit' (b # bufs)) = Some r"
        using build(2) by (auto split: option.splits)
      obtain ps cs where p: "read_synced_set True b = Some (if first_time then Some (MySyncedSet s) else None, cs)"
        "read_groups True cs = Some ps" "get_memb_id True b = G_Reg_memb_id s" "part_key ` set ps \<subseteq> group_key ` set (GroupsList s)"
        "(if first_time then all_told (GroupsList s) else still_to_tell git dit) = concat (map part_entries ps) @ still_to_tell git' dit'"
        "set git' \<subseteq> set (GroupsList s)" "\<forall>d \<in> set dit'. wire_daemon d"
        using build_buf_tells [OF b w] later by metis
      show "\<exists>news ps. r = rev news @ bufs \<and> (\<forall>b \<in> set news. get_memb_id True b = G_Reg_memb_id s) \<and>
        (\<forall>x. bufs_content news x = Some (if first_time then Some (MySyncedSet s) else x, ps)) \<and>
        part_key ` set ps \<subseteq> group_key ` set (GroupsList s) \<and>
        concat (map part_entries ps) = (if first_time then all_told (GroupsList s) else still_to_tell git dit)"
      proof (cases "git' = []")
        case True
        with r p show ?thesis by (intro exI [of _ "[b]"] exI [of _ ps]) auto
      next
        case False
        then have "build s False git' dit' (b # bufs) = Some r" using r by simp
        from build(1) [OF this] w p(6,7) obtain news qs where n: "r = rev news @ b # bufs"
          "\<forall>b \<in> set news. get_memb_id True b = G_Reg_memb_id s" "\<forall>x. bufs_content news x = Some (x, qs)"
          "part_key ` set qs \<subseteq> group_key ` set (GroupsList s)" "concat (map part_entries qs) = still_to_tell git' dit'" by auto
        with p show ?thesis by (intro exI [of _ "b # news"] exI [of _ "ps @ qs"]) auto
      qed
    qed
  qed
  with assms(2,3) show ?thesis by blast
qed

end
