(* ===== verification/GroupsBuild2.thy ===== *)
theory GroupsBuild2
  imports GroupsBuild
begin

text \<open>
  When the loop that builds the groups messages ends: every daemon has to fit a buffer of its own.
  What the messages of a sound daemon are to those who merge them.
\<close>

section \<open>The end of the loop\<close>

text \<open>The constant of the source is one more than what fits beside a message header.\<close>

definition fits_buf :: "daemon_members \<Rightarrow> bool" where
  "fits_buf d \<longleftrightarrow> int (length (MembersList d)) < MAX_LOCAL_GROUP_MEMBERS"

fun remaining :: "spread_group list \<Rightarrow> daemon_members list \<Rightarrow> daemon_members list" where
  "remaining [] dit = []"
| "remaining (g # gs) dit = dit @ concat (map DaemonsList gs)"

fun steps_left :: "spread_group list \<Rightarrow> daemon_members list \<Rightarrow> nat" where
  "steps_left [] dit = 0"
| "steps_left (g # gs) dit = 1 + length dit + sum_list (map (\<lambda>h. 1 + length (DaemonsList h)) gs)"

lemma buf_daemons_total:
  assumes "\<forall>d \<in> set dit. fits_buf d"
  shows "\<exists>bs k rest. buf_daemons g n dit = Some (bs, k, rest) \<and> (n \<le> 57 \<and> dit \<noteq> [] \<longrightarrow> length rest < length dit) \<and>
    length rest \<le> length dit \<and> set rest \<subseteq> set dit"
  using assms
proof (induction g n dit rule: buf_daemons.induct)
  case (2 g n d ds)
  have d: "int (length (MembersList d)) \<le> 3121" using 2(2) by (simp add: fits_buf_def)
  then have u: "to_int16u (int (length (MembersList d))) = int (length (MembersList d))"
    by (simp add: to_int16u_def take_bit_int_eq_self)
  show ?case
  proof (cases "14 + int (length (MembersList d)) * 32 + 48 > GROUPS_BUF_SIZE - n")
    case True
    with d show ?thesis by (simp add: Let_def)
  next
    case False
    have "\<exists>bs k rest. buf_daemons g (n + int (length (daemon_info g d))) ds = Some (bs, k, rest) \<and>
        (n + int (length (daemon_info g d)) \<le> 57 \<and> ds \<noteq> [] \<longrightarrow> length rest < length ds) \<and>
        length rest \<le> length ds \<and> set rest \<subseteq> set ds"
      by (rule 2(1)) (use False u 2(2) in auto)
    with False u show ?thesis by (auto simp: Let_def)
  qed
qed simp

lemma buf_groups_total:
  assumes "\<forall>d \<in> set (remaining gs dit). fits_buf d"
  shows "\<exists>bs git dit'. buf_groups n gs dit = Some (bs, git, dit') \<and>
    (n \<le> 9 \<and> gs \<noteq> [] \<longrightarrow> steps_left git dit' < steps_left gs dit) \<and> steps_left git dit' \<le> steps_left gs dit"
  using assms
proof (induction n gs dit rule: buf_groups.induct)
  case (2 n g gs dit)
  show ?case
  proof (cases "48 + 48 > GROUPS_BUF_SIZE - n")
    case False
    have "\<forall>d \<in> set dit. fits_buf d" using 2(2) by simp
    from buf_daemons_total [OF this, of g "n + 48"] obtain bs k rest where bd:
      "buf_daemons g (n + 48) dit = Some (bs, k, rest)" "n \<le> 9 \<and> dit \<noteq> [] \<longrightarrow> length rest < length dit" "length rest \<le> length dit"
      by auto
    show ?thesis
    proof (cases "rest = []")
      case True
      let ?dit = "case gs of [] \<Rightarrow> [] | h # _ \<Rightarrow> DaemonsList h"
      have "\<forall>d \<in> set (remaining gs ?dit). fits_buf d" using 2(2) by (cases gs) auto
      with 2(1) [of "(bs, k, rest)" bs "(k, rest)" k rest] False bd(1) True obtain cs git dit' where
        cs: "buf_groups (n + int (length (group_info g k @ bs))) gs ?dit = Some (cs, git, dit')"
          "steps_left git dit' \<le> steps_left gs ?dit" by auto
      have "steps_left gs ?dit < steps_left (g # gs) dit" by (cases gs) simp_all
      with False bd(1) True cs show ?thesis by auto
    next
      case False
      with bd \<open>\<not> 48 + 48 > GROUPS_BUF_SIZE - n\<close> show ?thesis by auto
    qed
  qed auto
qed simp

lemma buf_groups_fit:
  assumes "buf_groups n gs dit = Some (bs, git, dit')" "9 \<le> n"
  obtains before where "remaining gs dit = before @ remaining git dit'" "\<forall>d \<in> set before. fits_buf d"
proof -
  have "\<exists>before. remaining gs dit = before @ remaining git dit' \<and> (\<forall>d \<in> set before. fits_buf d)"
    using assms
  proof (induction n gs dit arbitrary: bs git dit' rule: buf_groups.induct)
    case (2 n g gs dit)
    show ?case
    proof (cases "48 + 48 > GROUPS_BUF_SIZE - n")
      case True
      with 2(2) show ?thesis by simp
    next
      case False
      obtain db k rest where bd: "buf_daemons g (n + 48) dit = Some (db, k, rest)"
        using 2(2) False by (cases "buf_daemons g (n + 48) dit") auto
      have fits: "n + 48 \<le> GROUPS_BUF_SIZE" using False by simp
      obtain ds where ds: "dit = ds @ rest"
        "\<forall>d \<in> set ds. length (MembersList d) < 2 ^ 16 \<and> 14 + 32 * int (length (MembersList d)) + 48 \<le> GROUPS_BUF_SIZE - (n + 48)"
        using buf_daemons_split [OF bd fits] by metis
      have small: "\<forall>d \<in> set ds. fits_buf d" using ds(2) 2(3) by (auto simp: fits_buf_def)
      show ?thesis
      proof (cases "rest = []")
        case False
        then have "git = g # gs" "dit' = rest" using 2(2) bd \<open>\<not> 48 + 48 > GROUPS_BUF_SIZE - n\<close> by auto
        with ds(1) small show ?thesis by (intro exI [of _ ds]) simp
      next
        case True
        let ?dit = "case gs of [] \<Rightarrow> [] | h # _ \<Rightarrow> DaemonsList h"
        obtain cs where cs: "buf_groups (n + int (length (group_info g k @ db))) gs ?dit = Some (cs, git, dit')"
          using 2(2) bd True \<open>\<not> 48 + 48 > GROUPS_BUF_SIZE - n\<close> by (auto split: option.splits)
        with 2(1) [of "(db, k, rest)" db "(k, rest)" k rest cs git dit'] bd True False 2(3) obtain before where
          b: "remaining gs ?dit = before @ remaining git dit'" "\<forall>d \<in> set before. fits_buf d" by auto
        have "remaining (g # gs) dit = ds @ remaining gs ?dit" using ds(1) True by (cases gs) simp_all
        with b small show ?thesis by (intro exI [of _ "ds @ before"]) auto
      qed
    qed
  qed simp
  with that show thesis by blast
qed

lemma build_bufs_later:
  "\<forall>d \<in> set (remaining git dit). fits_buf d \<Longrightarrow> \<exists>r. build_bufs s False git dit bufs = Some r"
proof (induction "steps_left git dit" arbitrary: git dit bufs rule: less_induct)
  case less
  let ?pre = "put_memb_id (G_Reg_memb_id s) @ [0 :: 8 word]"
  obtain bs git' dit' where b: "buf_groups 9 git dit = Some (bs, git', dit')"
    "git \<noteq> [] \<Longrightarrow> steps_left git' dit' < steps_left git dit"
    using buf_groups_total [OF less(2), of 9] by auto
  obtain before where "remaining git dit = before @ remaining git' dit'" using buf_groups_fit [OF b(1)] by auto
  with less(2) have rest: "\<forall>d \<in> set (remaining git' dit'). fits_buf d" by simp
  have g: "G_build_groups_buf s False git dit = Some (?pre @ bs, git', dit')"
    using b(1) by (simp add: G_build_groups_buf_def)
  show ?case
  proof (cases "git' = []")
    case True
    with g show ?thesis by (subst build_bufs.simps) simp
  next
    case False
    then have "git \<noteq> []" using b(1) by auto
    from less(1) [OF b(2) [OF this] rest, of "(?pre @ bs) # bufs"] g False show ?thesis
      by (subst build_bufs.simps) simp
  qed
qed

lemma first_buf:
  obtains n where "9 \<le> n" "\<And>git dit. G_build_groups_buf s True git dit =
     map_option (\<lambda>(bs, rest). (put_memb_id (G_Reg_memb_id s) @ [1] @ put32 (of_nat (length (MySyncedSet s))) @
         concat (map put32 (MySyncedSet s)) @ bs, rest))
       (buf_groups n (GroupsList s) (case GroupsList s of [] \<Rightarrow> [] | g # _ \<Rightarrow> DaemonsList g))"
  by (rule that [of "13 + 4 * int (length (MySyncedSet s))"])
    (simp_all add: G_build_groups_buf_def length_ids algebra_simps split: option.splits)

lemma remaining_start:
  "remaining gs (case gs of [] \<Rightarrow> [] | g # _ \<Rightarrow> DaemonsList g) = concat (map DaemonsList gs)"
  by (cases gs) simp_all

lemma build_bufs_returns:
  assumes "\<forall>g \<in> set (GroupsList s). \<forall>d \<in> set (DaemonsList g). fits_buf d"
  shows "\<exists>r. build_bufs s True git dit bufs = Some r"
proof -
  let ?dit = "case GroupsList s of [] \<Rightarrow> [] | g # _ \<Rightarrow> DaemonsList g"
  have all: "\<forall>d \<in> set (remaining (GroupsList s) ?dit). fits_buf d"
    using assms unfolding remaining_start by auto
  obtain n where n: "9 \<le> n" "\<And>git dit. G_build_groups_buf s True git dit =
     map_option (\<lambda>(bs, rest). (put_memb_id (G_Reg_memb_id s) @ [1] @ put32 (of_nat (length (MySyncedSet s))) @
         concat (map put32 (MySyncedSet s)) @ bs, rest)) (buf_groups n (GroupsList s) ?dit)"
    using first_buf by blast
  obtain bs git' dit' where b: "buf_groups n (GroupsList s) ?dit = Some (bs, git', dit')"
    using buf_groups_total [OF all, of n] by blast
  obtain before where "remaining (GroupsList s) ?dit = before @ remaining git' dit'" using buf_groups_fit [OF b n(1)] .
  with all have "\<forall>d \<in> set (remaining git' dit'). fits_buf d" by simp
  from build_bufs_later [OF this, of s] b n(2) [of git dit] show ?thesis
    by (subst build_bufs.simps) simp
qed

lemma build_bufs_fit:
  assumes "build_bufs s first_time git dit bufs = Some r"
  shows "\<forall>d \<in> set (if first_time then concat (map DaemonsList (GroupsList s)) else remaining git dit). fits_buf d"
  using assms
proof (induction rule: build_bufs_induct)
  case (build build s first_time git dit bufs r)
  obtain b git' dit' where b: "G_build_groups_buf s first_time git dit = Some (b, git', dit')"
    and r: "(if git' = [] then Some (b # bufs) else build s False git' dit' (b # bufs)) = Some r"
    using build(2) by (auto split: option.splits)
  have rest: "\<forall>d \<in> set (remaining git' dit'). fits_buf d"
  proof (cases "git' = []")
    case False
    then have "build s False git' dit' (b # bufs) = Some r" using r by simp
    from build(1) [OF this] show ?thesis by simp
  qed simp
  show ?case
  proof (cases first_time)
    case True
    let ?dit = "case GroupsList s of [] \<Rightarrow> [] | g # _ \<Rightarrow> DaemonsList g"
    obtain n where n: "9 \<le> n" and run: "\<And>git dit. G_build_groups_buf s True git dit =
       map_option (\<lambda>(bs, rest). (put_memb_id (G_Reg_memb_id s) @ [1] @ put32 (of_nat (length (MySyncedSet s))) @
         concat (map put32 (MySyncedSet s)) @ bs, rest)) (buf_groups n (GroupsList s) ?dit)"
      using first_buf by blast
    obtain bs where bs: "buf_groups n (GroupsList s) ?dit = Some (bs, git', dit')"
      using b True run [of git dit] by auto
    obtain before where "concat (map DaemonsList (GroupsList s)) = before @ remaining git' dit'" "\<forall>d \<in> set before. fits_buf d"
      using buf_groups_fit [OF bs n] unfolding remaining_start .
    with rest True show ?thesis by auto
  next
    case False
    then obtain bs where bs: "buf_groups 9 git dit = Some (bs, git', dit')"
      using b by (auto simp: G_build_groups_buf_def split: option.splits)
    obtain before where "remaining git dit = before @ remaining git' dit'" "\<forall>d \<in> set before. fits_buf d"
      using buf_groups_fit [OF bs] by auto
    with rest False show ?thesis by auto
  qed
qed

section \<open>The messages of a sound daemon\<close>

lemma groups_message_of:
  "m \<in> set (groups_messages s bufs) \<Longrightarrow> Same_endian (gm_type m) = True \<and> gm_data m \<in> set bufs"
  by (induction bufs) (auto simp: G_build_groups_msg_hdr_def Let_def Same_endian_def Set_endian_def)

lemma groups_messages_content:
  "link_content (rev (groups_messages s bufs)) x = bufs_content (rev bufs) x"
proof -
  have data: "map gm_data (groups_messages s bufs) = bufs"
    by (induction bufs) (simp_all add: G_build_groups_msg_hdr_def Let_def)
  have same: "\<forall>m \<in> set (groups_messages s bufs). Same_endian (gm_type m)" using groups_message_of by simp
  have "link_content ms x = bufs_content (map gm_data ms) x" if "\<forall>m \<in> set ms. Same_endian (gm_type m)" for ms
    using that
  proof (induction ms arbitrary: x)
    case (Cons m ms)
    then have m: "Same_endian (gm_type m) = True"
      and IH: "\<And>x. link_content ms x = bufs_content (map gm_data ms) x" by auto
    show ?case unfolding link_content.simps m list.map(2) bufs_content.simps IH by (rule refl)
  qed simp
  from this [of "rev (groups_messages s bufs)"] same show ?thesis by (simp add: rev_map [symmetric] data)
qed

definition entry_pair :: "entry \<Rightarrow> string \<times> int32u" where
  "entry_pair e = (fst e, dm_proc_id (fst (snd (snd (snd e)))))"

definition entry_view :: "entry \<Rightarrow> (string \<times> int32u \<times> string) set" where
  "entry_view e = Pair (fst e) ` Pair (dm_proc_id (fst (snd (snd (snd e))))) ` set (MembersList (fst (snd (snd (snd e)))))"

lemma part_pairs_entries: "part_pairs ps = map entry_pair (concat (map part_entries ps))"
  by (simp add: part_pairs_def part_entries_def entry_pair_def map_concat comp_def)

lemma part_view_entries: "part_view ps = (\<Union>e \<in> set (concat (map part_entries ps)). entry_view e)"
  by (simp add: part_view_def part_entries_def entry_view_def image_UN image_image) blast

lemma view_all_told: "views gs = (\<Union>e \<in> set (all_told gs). entry_view e)"
  by (simp add: views_def group_view_daemons [OF refl] all_told_def told_def wired_def entry_view_def image_UN image_image) blast

lemma all_told_pairs: "map entry_pair (all_told gs) = concat (map (\<lambda>g. map (\<lambda>d. (gr_name g, dm_proc_id d)) (DaemonsList g)) gs)"
  by (simp add: all_told_def told_def wired_def entry_pair_def map_concat comp_def)

lemma distinct_told:
  assumes "distinct (map gr_name gs)" "\<And>g. g \<in> set gs \<Longrightarrow> distinct (map dm_proc_id (DaemonsList g))"
  shows "distinct (map entry_pair (all_told gs))"
  unfolding all_told_pairs using assms
proof (induction gs)
  case (Cons g gs)
  have "distinct (map (\<lambda>d. (gr_name g, dm_proc_id d)) (DaemonsList g))"
    using Cons.prems(2) [of g] by (simp add: distinct_map inj_on_def)
  moreover have "fst ` set (concat (map (\<lambda>g. map (\<lambda>d. (gr_name g, dm_proc_id d)) (DaemonsList g)) gs)) \<subseteq> gr_name ` set gs"
    by auto
  moreover have "gr_name g \<notin> gr_name ` set gs" using Cons.prems(1) by simp
  ultimately show ?case using Cons by (fastforce simp: inj_on_def)
qed simp

text \<open>
  What the leader of a synced set sends while it gathers is what the daemons of the other sets
  rely on when they merge it, and it tells the leader's whole view.
\<close>

lemma leader_messages:
  assumes ok: "groups_ok s" and st: "G_state s = GGATHER" and w: "wire_state s"
    and b: "build_bufs s True [] [] [] = Some bufs"
  obtains ps where "\<And>x. link_content (rev (groups_messages s bufs)) x = Some (Some (MySyncedSet s), ps)"
    "parts_ok (MySyncedSet s) ps" "part_view ps = view s" "\<forall>b \<in> set bufs. get_memb_id True b = G_Reg_memb_id s"
proof -
  obtain news ps where n: "bufs = rev news" "\<forall>b \<in> set news. get_memb_id True b = G_Reg_memb_id s"
    "\<forall>x. bufs_content news x = Some (Some (MySyncedSet s), ps)" "part_key ` set ps \<subseteq> group_key ` set (GroupsList s)"
    "concat (map part_entries ps) = all_told (GroupsList s)"
    using build_bufs_tells [OF b w] by auto
  have srt: "skl_sorted gr_name G_compare_nameptr (GroupsList s)"
    and g: "\<And>g. g \<in> set (GroupsList s) \<Longrightarrow> length (gr_name g) < MAX_GROUP_NAME \<and> group_ok s g"
    using ok by (auto simp: groups_ok_def list_ok_def)
  have names: "distinct (map gr_name (GroupsList s))" by (rule sorted_names_distinct [OF srt])
  have told: "\<exists>g \<in> set (GroupsList s). \<exists>d \<in> set (DaemonsList g). (pt_name p, pt_grp_id p, pt_changed p, x) = told g d"
    if "p \<in> set ps" "x \<in> set (pt_daemons p)" for p x
  proof -
    have "(pt_name p, pt_grp_id p, pt_changed p, x) \<in> set (concat (map part_entries ps))"
      using that by (auto simp: part_entries_def)
    then show ?thesis unfolding n(5) by (auto simp: all_told_def)
  qed
  have from_group: thesis
    if "p \<in> set ps" "\<And>h. h \<in> set (GroupsList s) \<Longrightarrow> pt_name p = gr_name h \<Longrightarrow> pt_grp_id p = grp_id h \<Longrightarrow> thesis" for p thesis
  proof -
    have "part_key p \<in> group_key ` set (GroupsList s)" using n(4) that(1) by blast
    then obtain h where "h \<in> set (GroupsList s)" "part_key p = group_key h" by blast
    then show thesis using that(2) [of h] by (simp add: part_key_def group_key_def)
  qed
  have "part_ok (MySyncedSet s) p" if p: "p \<in> set ps" for p
  proof -
    obtain h where h: "h \<in> set (GroupsList s)" "pt_name p = gr_name h" "pt_grp_id p = grp_id h" using from_group [OF p] .
    have "entry_ok (MySyncedSet s) x" if x: "x \<in> set (pt_daemons p)" for x
    proof -
      obtain k d where kd: "k \<in> set (GroupsList s)" "d \<in> set (DaemonsList k)" "x = wired k d"
        using told [OF p x] by (auto simp: told_def)
      have "group_ok s k" using g [OF kd(1)] by simp
      then have "daemon_ok d" "Is_established_daemon d" "dm_proc_id d \<in> set (MySyncedSet s)"
          "\<not> Is_unknown_memb_id (gi_memb_id (grp_id k))"
        using kd(2) st by (auto simp: group_ok_def daemons_ok_def state_ok_def ids_ok_def)
      then show ?thesis by (simp add: entry_ok_def kd(3) wired_def daemon_ok_def Is_established_daemon_def)
    qed
    moreover have "group_ok s h" "length (gr_name h) < MAX_GROUP_NAME" using g [OF h(1)] by auto
    ultimately show ?thesis by (simp add: part_ok_def h group_ok_def ids_ok_def)
  qed
  moreover have "distinct (part_pairs ps)"
    unfolding part_pairs_entries n(5)
  proof (rule distinct_told [OF names])
    fix h assume "h \<in> set (GroupsList s)"
    then have "daemons_ok (Cn_active s) h" using g by (simp add: group_ok_def)
    then show "distinct (map dm_proc_id (DaemonsList h))"
      using sorted_ids_distinct by (auto simp: daemons_ok_def)
  qed
  moreover have "\<exists>q \<in> set ps. pt_name q = pt_name p \<and> pt_daemons q \<noteq> []" if p: "p \<in> set ps" for p
  proof -
    obtain h where h: "h \<in> set (GroupsList s)" "pt_name p = gr_name h" using from_group [OF p] .
    obtain d where "d \<in> set (DaemonsList h)"
      using g [OF h(1)] by (cases "DaemonsList h") (auto simp: group_ok_def)
    then have "told h d \<in> set (concat (map part_entries ps))" unfolding n(5) using h(1) by (auto simp: all_told_def)
    then show ?thesis using h(2) by (auto simp: part_entries_def told_def)
  qed
  ultimately have "parts_ok (MySyncedSet s) ps" by (simp add: parts_ok_def)
  moreover have "part_view ps = view s" unfolding part_view_entries n(5) by (simp add: view_def view_all_told)
  moreover have "\<And>x. link_content (rev (groups_messages s bufs)) x = Some (Some (MySyncedSet s), ps)"
    using n(1,3) by (simp add: groups_messages_content)
  ultimately show thesis using that n(1,2) by auto
qed

end
