(* ===== verification/GroupsSamples.thy ===== *)
theory GroupsSamples
  imports GroupsBuild2
begin

text \<open>
  Two daemons, each with a client in the group \<open>g\<close>, that form a ring: from their start over the
  memberships to the groups messages.
\<close>

definition daemon_a :: proc where
  "daemon_a = \<lparr>p_name = ''a'', p_id = 10, p_seg_index = 0, p_index_in_seg = 0\<rparr>"

definition daemon_b :: proc where
  "daemon_b = \<lparr>p_name = ''b'', p_id = 20, p_seg_index = 0, p_index_in_seg = 1\<rparr>"

definition conf_of :: "proc list \<Rightarrow> configuration" where
  "conf_of ps = \<lparr>hash_code = 0, allprocs = [daemon_a, daemon_b], segments = [\<lparr>procs = ps\<rparr>]\<rparr>"

definition client_named :: "string \<Rightarrow> session" where
  "client_named nm = \<lparr>ses_name = nm, ses_mbox = 7, ses_memb = True\<rparr>"

definition before_init :: "string \<Rightarrow> groups_state" where
  "before_init nm =
     \<lparr>G_conf = conf_of [], G_my = daemon_a, Cn_active = conf_of [], G_state = GOP, G_Trans_memb = conf_of [],
      G_Trans_memb_id = \<lparr>mi_proc_id = 0, mi_time = 0\<rparr>, G_Reg_memb = conf_of [],
      G_Reg_memb_id = \<lparr>mi_proc_id = 0, mi_time = 0\<rparr>, Groups_bufs = [], Groups_bufs_fresh = False,
      Num_mess_gathered = 0, Num_daemons_gathered = 0, Gathered_complete = False, Gathered = [],
      GroupsList = [], Num_groups = 0, MySyncedSet = [], Sessions = [client_named nm], g_out = []\<rparr>"

definition ring :: configuration where
  "ring = conf_of [daemon_a, daemon_b]"

definition a0 :: groups_state where "a0 = G_init ring daemon_a (before_init ''u'')"
definition b0 :: groups_state where "b0 = G_init ring daemon_b (before_init ''v'')"

declare build_bufs.simps [code]

text \<open>Each client joins, the daemons meet, and each sends its groups.\<close>

definition a1 :: groups_state where "a1 = the (G_handle_join ''#u#a'' ''g'' a0)"
definition a2 :: groups_state where "a2 = the (G_handle_trans_memb (conf_of [daemon_a]) \<lparr>mi_proc_id = 10, mi_time = 5\<rparr> a1)"
definition a3 :: groups_state where "a3 = the (G_handle_reg_memb ring \<lparr>mi_proc_id = 10, mi_time = 6\<rparr> a2)"
definition b1 :: groups_state where "b1 = the (G_handle_join ''#v#b'' ''g'' b0)"
definition b2 :: groups_state where "b2 = the (G_handle_trans_memb (conf_of [daemon_b]) \<lparr>mi_proc_id = 20, mi_time = 5\<rparr> b1)"
definition b3 :: groups_state where "b3 = the (G_handle_reg_memb ring \<lparr>mi_proc_id = 10, mi_time = 6\<rparr> b2)"
definition from_a :: groups_mess where "from_a = hd (groups_messages a3 (Groups_bufs a3))"
definition from_b :: groups_mess where "from_b = hd (groups_messages b3 (Groups_bufs b3))"
definition a4 :: groups_state where "a4 = the (G_handle_groups from_a a3)"
definition a5 :: groups_state where "a5 = the (G_handle_groups from_b a4)"

lemma some_the: "x \<noteq> None \<Longrightarrow> x = Some (the x)"
  by simp

lemma a_runs:
  "G_handle_join ''#u#a'' ''g'' a0 = Some a1"
  "G_handle_trans_memb (conf_of [daemon_a]) \<lparr>mi_proc_id = 10, mi_time = 5\<rparr> a1 = Some a2"
  "G_handle_reg_memb ring \<lparr>mi_proc_id = 10, mi_time = 6\<rparr> a2 = Some a3"
  "G_handle_groups from_a a3 = Some a4" "G_handle_groups from_b a4 = Some a5"
  unfolding a1_def a2_def a3_def a4_def a5_def by (rule some_the, code_simp)+

lemma b_runs:
  "G_handle_join ''#v#b'' ''g'' b0 = Some b1"
  "G_handle_trans_memb (conf_of [daemon_b]) \<lparr>mi_proc_id = 20, mi_time = 5\<rparr> b1 = Some b2"
  "G_handle_reg_memb ring \<lparr>mi_proc_id = 10, mi_time = 6\<rparr> b2 = Some b3"
  unfolding b1_def b2_def b3_def by (rule some_the, code_simp)+

lemma views_code:
  "views gs = set (concat (map (\<lambda>g. concat (map (\<lambda>d. map (\<lambda>nm. (gr_name g, dm_proc_id d, nm)) (MembersList d)) (DaemonsList g))) gs))"
  by (auto simp: views_def group_view_def)

end
