(* ===== verification/GroupsTheorems.thy ===== *)
theory GroupsTheorems
  imports GroupsSamples
begin

text \<open>The properties of \<open>daemon/groups.c\<close>, each with an instance on the daemons of \<open>GroupsSamples\<close>.\<close>

section \<open>Reachable states\<close>

text \<open>What the main program gives to \<open>G_init\<close>: a daemon that is in its configuration.\<close>

definition groups_started :: "configuration \<Rightarrow> proc \<Rightarrow> groups_state \<Rightarrow> bool" where
  "groups_started c my s \<longleftrightarrow> p_id my \<in> p_id ` set (allprocs c) \<and>
     (\<forall>p \<in> set (allprocs c). p_id p = p_id my \<longrightarrow> p_name p = p_name my) \<and>
     \<not> Is_unknown_memb_id (G_Reg_memb_id s) \<and> \<not> Is_unknown_memb_id (G_Trans_memb_id s)"

lemma reachable_ok: "groups_started c my s \<Longrightarrow> groups_reachable (G_init c my s) t \<Longrightarrow> groups_ok t"
  using groups_reachable_keeps G_init_ok by (auto simp: groups_started_def)

lemma group_of: "groups_ok t \<Longrightarrow> g \<in> set (GroupsList t) \<Longrightarrow> length (gr_name g) < MAX_GROUP_NAME \<and> group_ok t g"
  by (simp add: groups_ok_def list_ok_def)

lemma members_at_distinct:
  assumes "daemons_ok c g"
  shows "distinct (members_at i g)"
proof -
  have ids: "distinct (map dm_proc_id (DaemonsList g))" using assms sorted_ids_distinct by (auto simp: daemons_ok_def)
  have members: "distinct (MembersList d)" if "d \<in> set (DaemonsList g)" for d
    using assms that names.sorted_keys_distinct [of id "MembersList d"] by (auto simp: daemons_ok_def daemon_ok_def)
  have "distinct (concat (map MembersList (filter (\<lambda>d. dm_proc_id d = i) ds)))"
    if "distinct (map dm_proc_id ds)" "set ds \<subseteq> set (DaemonsList g)" for ds
    using that
  proof (induction ds)
    case (Cons d ds)
    have "\<forall>e \<in> set ds. dm_proc_id e \<noteq> dm_proc_id d" using Cons.prems(1) by (simp add: image_iff) metis
    then have "filter (\<lambda>e. dm_proc_id e = i) ds = []" if "dm_proc_id d = i"
      using that by (simp add: filter_empty_conv)
    with Cons members show ?case by auto
  qed simp
  with ids show ?thesis by (simp add: members_at_def)
qed


lemma started: "groups_started ring daemon_a (before_init ''u'')" "groups_started ring daemon_b (before_init ''v'')"
  by (simp_all add: groups_started_def ring_def conf_of_def daemon_a_def daemon_b_def before_init_def Is_unknown_memb_id_def)

lemma a_reaches: "groups_reachable a0 a1" "groups_reachable a0 a2" "groups_reachable a0 a3" "groups_reachable a0 a4"
proof -
  have j: "\<exists>p. G_private_to_names ''#u#a'' = Some (''u'', ''a'') \<and>
      snd (Conf_proc_by_name_in_conf (G_conf a0) ''a'') = Some p \<and> p_id p \<in> set (MySyncedSet a0)"
    by (rule exI [of _ daemon_a]) code_simp
  have s1: "groups_step a0 a1"
    by (rule groups_step.join [OF a_runs(1)]) (use j in auto)
  then show r1: "groups_reachable a0 a1" by (rule groups_reachable.step [OF groups_reachable.start])
  have "groups_step a1 a2"
    by (rule groups_step.trans_memb [OF a_runs(2)]) code_simp+
  with r1 show r2: "groups_reachable a0 a2" by (rule groups_reachable.step)
  have "groups_step a2 a3"
    by (rule groups_step.reg_memb [OF a_runs(3)]) code_simp
  with r2 show r3: "groups_reachable a0 a3" by (rule groups_reachable.step)
  have "groups_step a3 a4"
  proof (rule groups_step.groups [OF a_runs(4)], unfold Let_def, intro allI impI)
    fix p own
    assume p: "snd (Conf_proc_by_name_in_conf (G_conf a3) (gm_proc_name from_a)) = Some p"
      and own: "Is_synced_set_leader (p_id p) a3 = Some own"
    have "snd (Conf_proc_by_name_in_conf (G_conf a3) (gm_proc_name from_a)) = Some daemon_a"
      "Is_synced_set_leader (p_id daemon_a) a3 = Some True" "Gathered (gathered from_a (p_id daemon_a) True a3) = []"
      by code_simp+
    with p own show "(\<forall>l \<in> set (Gathered (gathered from_a (p_id p) own a3)). gl_complete l \<longrightarrow> link_ok (G_conf a3) l) \<and>
        (Num_daemons_gathered (gathered from_a (p_id p) own a3) = Conf_num_procs (G_Reg_memb (gathered from_a (p_id p) own a3)) \<longrightarrow>
         (\<forall>l \<in> set (Gathered (gathered from_a (p_id p) own a3)). gl_complete l))" by simp
  qed
  with r3 show "groups_reachable a0 a4" by (rule groups_reachable.step)
qed




section \<open>Members and memberships\<close>

text \<open>
  C33: on the view of the groups, which is who is in which group at which daemon, the handlers of
  the clients' operations are the operations of a set: a join inserts the member, a leave deletes
  it from its group, and a disconnected member is deleted from all of its groups.
\<close>

theorem members_refine:
  assumes "groups_ok s" "length group_name < MAX_GROUP_NAME" "G_private_to_names nm = Some (private_name, proc_name)"
    and "snd (Conf_proc_by_name_in_conf (G_conf s) proc_name) = Some p"
  shows "(G_handle_join nm group_name s = Some t \<longrightarrow> view t = insert (group_name, p_id p, nm) (view s)) \<and>
    (G_handle_leave nm group_name s = Some t \<longrightarrow> view t = view s - {(group_name, p_id p, nm)}) \<and>
    (G_handle_kill nm s = Some t \<longrightarrow> view t = {(g, m). (g, m) \<in> view s \<and> m \<noteq> (p_id p, nm)})"
  using join_view [OF _ assms] leave_view [OF _ assms] kill_view [OF _ assms(1,3,4)] by blast

lemma a_ok: "groups_ok a0" "groups_ok a1" "groups_ok a2" "groups_ok a3" "groups_ok a4"
  using reachable_ok [OF started(1), folded a0_def] groups_reachable.start a_reaches by blast+

theorem members_refine_witness:
  "view a1 = insert (''g'', 10, ''#u#a'') (view a0) \<and> view (the (G_handle_leave ''#u#a'' ''g'' a1)) = {}"
proof -
  have nm: "G_private_to_names ''#u#a'' = Some (''u'', ''a'')" by code_simp
  have p: "snd (Conf_proc_by_name_in_conf (G_conf a0) ''a'') = Some daemon_a" "snd (Conf_proc_by_name_in_conf (G_conf a1) ''a'') = Some daemon_a"
    by code_simp+
  have v0: "view a0 = {}" by (simp add: view_def views_def a0_def G_init_def G_shift_to_GOP_def g_emit_def)
  have l: "G_handle_leave ''#u#a'' ''g'' a1 = Some (the (G_handle_leave ''#u#a'' ''g'' a1))"
    by (rule some_the) code_simp
  show ?thesis
    using members_refine [OF a_ok(1) _ nm p(1), of "''g''" a1] a_runs(1)
      members_refine [OF a_ok(2) _ nm p(2), of "''g''"] l v0
    by (simp add: daemon_a_def)
qed

text \<open>
  C34: a transitional membership leaves the view as it is, and the regular membership that follows
  it leaves exactly the members of the daemons in the transitional one, whether or not the daemon
  then gathers the groups of others; in a cascade, where it was gathering already, what it
  had gathered completely of other synced sets is merged first.
\<close>

theorem memberships_filter:
  assumes "groups_ok s" "\<not> Is_unknown_memb_id i"
  shows "(G_handle_trans_memb c i s = Some t \<longrightarrow> view t = view s) \<and>
    (G_handle_reg_memb c i s = Some t \<longrightarrow> view t = {(g, d, nm).
       (g, d, nm) \<in> view s \<union> (if G_state s = GGT \<and> Gathered_complete s then gathered_view s else {}) \<and>
       Conf_id_in_conf (G_Trans_memb s) d \<noteq> -1})"
  using trans_memb_view reg_memb_view assms by blast

theorem memberships_filter_witness:
  "view a2 = view a1 \<and> view a3 = {(g, d, nm). (g, d, nm) \<in> view a2 \<and> Conf_id_in_conf (G_Trans_memb a2) d \<noteq> -1}"
proof -
  have "G_state a2 \<noteq> GGT" by code_simp
  with memberships_filter [OF a_ok(2), of "\<lparr>mi_proc_id = 10, mi_time = 5\<rparr>" "conf_of [daemon_a]" a2] a_runs(2)
    memberships_filter [OF a_ok(3), of "\<lparr>mi_proc_id = 10, mi_time = 6\<rparr>" ring a3] a_runs(3)
  show ?thesis by (simp add: Is_unknown_memb_id_def)
qed

section \<open>Groups messages\<close>

text \<open>
  C32: the groups messages of a synced set's leader read back as what they were built from. In the
  order of their building they give the leader's synced set and, over all groups and each of
  their daemons in order, the group's name, id and flag and the daemon with its members; each
  message starts with the id of the regular membership.
\<close>

theorem groups_messages_round_trip:
  assumes "wire_state s" "build_bufs s True [] [] [] = Some bufs"
  shows "\<exists>ps. (\<forall>x. link_content (rev (groups_messages s bufs)) x = Some (Some (MySyncedSet s), ps)) \<and>
    concat (map part_entries ps) = concat (map (\<lambda>g. map (told g) (DaemonsList g)) (GroupsList s)) \<and>
    (\<forall>m \<in> set (groups_messages s bufs). get_memb_id (Same_endian (gm_type m)) (gm_data m) = G_Reg_memb_id s)"
proof -
  obtain news ps where n: "bufs = rev news" "\<forall>b \<in> set news. get_memb_id True b = G_Reg_memb_id s"
    "\<forall>x. bufs_content news x = Some (Some (MySyncedSet s), ps)" "concat (map part_entries ps) = all_told (GroupsList s)"
    using build_bufs_tells [OF assms(2,1)] by auto
  have "get_memb_id (Same_endian (gm_type m)) (gm_data m) = G_Reg_memb_id s" if "m \<in> set (groups_messages s bufs)" for m
    using groups_message_of [OF that] n(1,2) by simp
  with n show ?thesis by (intro exI [of _ ps]) (simp add: groups_messages_content all_told_def)
qed

theorem groups_messages_round_trip_witness:
  "\<exists>ps. link_content (rev (groups_messages b3 (Groups_bufs b3))) None = Some (Some [20], ps) \<and>
    part_view ps = {(''g'', 20, ''#v#b'')}"
proof -
  have w: "wire_state b3" and b: "build_bufs b3 True [] [] [] = Some (Groups_bufs b3)" by code_simp+
  have v: "views (GroupsList b3) = {(''g'', 20, ''#v#b'')}" "MySyncedSet b3 = [20]"
    unfolding views_code by code_simp+
  obtain ps where "\<forall>x. link_content (rev (groups_messages b3 (Groups_bufs b3))) x = Some (Some (MySyncedSet b3), ps)"
    "concat (map part_entries ps) = all_told (GroupsList b3)"
    using groups_messages_round_trip [OF w b] by (auto simp: all_told_def)
  moreover from this have "part_view ps = views (GroupsList b3)" by (simp only: part_view_entries view_all_told)
  ultimately show ?thesis using v by auto
qed

text \<open>
  C37: the leader's loop that builds the groups messages ends exactly when every daemon of every
  group has less than \<open>MAX_LOCAL_GROUP_MEMBERS\<close> members. With that many or more at one daemon, a
  daemon that never fits beside the message header is tried again forever.
\<close>

theorem groups_messages_end:
  "(\<exists>bufs. build_bufs s True [] [] [] = Some bufs) \<longleftrightarrow>
     (\<forall>g \<in> set (GroupsList s). \<forall>d \<in> set (DaemonsList g). int (length (MembersList d)) < MAX_LOCAL_GROUP_MEMBERS)"
proof
  assume "\<exists>bufs. build_bufs s True [] [] [] = Some bufs"
  then obtain bufs where "build_bufs s True [] [] [] = Some bufs" by blast
  from build_bufs_fit [OF this]
  show "\<forall>g \<in> set (GroupsList s). \<forall>d \<in> set (DaemonsList g). int (length (MembersList d)) < MAX_LOCAL_GROUP_MEMBERS"
    by (simp add: fits_buf_def)
qed (use build_bufs_returns in \<open>simp add: fits_buf_def\<close>)

theorem groups_messages_end_witness: "\<exists>bufs. build_bufs b3 True [] [] [] = Some bufs"
proof -
  have "\<forall>g \<in> set (GroupsList b3). \<forall>d \<in> set (DaemonsList g). int (length (MembersList d)) < MAX_LOCAL_GROUP_MEMBERS"
    by code_simp
  then show ?thesis by (simp only: groups_messages_end)
qed

text \<open>What the leader of another synced set sends, as it is kept for merging.\<close>

definition leader_link :: "groups_state \<Rightarrow> groups_message_link option" where
  "leader_link r = map_option (\<lambda>bufs. \<lparr>rep_proc_id = p_id (G_my r), gl_complete = True, gl_messages = rev (groups_messages r bufs)\<rparr>)
     (build_bufs r True [] [] [])"

text \<open>
  C31: when the last groups message completes what the leaders \<open>rs\<close> of the other synced sets sent
  from their sound states, the daemon's view becomes the union of its own with all of theirs, and
  it operates again, or is in the transitional state when a membership arrived in between.
\<close>

theorem views_merge:
  assumes ok: "groups_ok s" and h: "G_handle_groups m s = Some t"
    and id: "get_memb_id (Same_endian (gm_type m)) (gm_data m) = G_Reg_memb_id s"
    and p: "snd (Conf_proc_by_name_in_conf (G_conf s) (gm_proc_name m)) = Some p"
    and u: "u = gathered m (p_id p) (Is_synced_set_leader (p_id p) s = Some True) s"
    and last: "Num_daemons_gathered u = Conf_num_procs (G_Reg_memb u)"
    and sent: "map leader_link rs = map Some (Gathered u)"
    and leaders: "\<And>r. r \<in> set rs \<Longrightarrow> groups_ok r \<and> G_state r = GGATHER \<and> wire_state r \<and> G_conf r = G_conf s"
  shows "view t = view s \<union> (\<Union>r \<in> set rs. view r) \<and> (if G_state s = GGATHER then G_state t = GOP else G_state t = GTRANS)"
proof -
  have st: "G_state s = GGATHER \<or> G_state s = GGT" using h by (cases "G_state s") (auto simp: G_handle_groups_def)
  have fr: "G_conf u = G_conf s" "MySyncedSet u = MySyncedSet s" "G_my u = G_my s" "G_state u = G_state s"
      "G_Reg_memb_id u = G_Reg_memb_id s" "G_Trans_memb_id u = G_Trans_memb_id s" "G_Trans_memb u = G_Trans_memb s"
      "Cn_active u = Cn_active s" "Sessions u = Sessions s" "GroupsList u = GroupsList s" "Num_groups u = Num_groups s"
    by (simp_all add: u gathered_def Let_def)
  have run: "finish_gathering u = Some t"
    using h id p last u by (cases "Is_synced_set_leader (p_id p) s") (auto simp: G_handle_groups_def Let_def split: if_splits)
  have each: "gl_complete l \<and> link_ok (G_conf s) l \<and> link_view l = view r"
    if r: "r \<in> set rs" and l: "leader_link r = Some l" for r l
  proof -
    obtain bufs where b: "build_bufs r True [] [] [] = Some bufs" "gl_complete l" "gl_messages l = rev (groups_messages r bufs)"
      using l by (auto simp: leader_link_def)
    obtain ps where ps: "\<And>x. link_content (gl_messages l) x = Some (Some (MySyncedSet r), ps)"
        "parts_ok (MySyncedSet r) ps" "part_view ps = view r"
      using leader_messages [OF _ _ _ b(1)] leaders [OF r] b(3) by metis
    have "in_order (G_conf s) (MySyncedSet r)" using leaders [OF r] by (auto simp: groups_ok_def daemon_in_ok_def)
    with ps b(2) show ?thesis by (auto simp: link_ok_def link_view_def)
  qed
  have same: "leader_link ` set rs = Some ` set (Gathered u)" using arg_cong [OF sent, of set] by simp
  have links: "\<exists>r \<in> set rs. leader_link r = Some l" if "l \<in> set (Gathered u)" for l
  proof -
    have "Some l \<in> leader_link ` set rs" unfolding same using that by simp
    then show ?thesis by (metis imageE)
  qed
  have link_of: "\<exists>l \<in> set (Gathered u). leader_link r = Some l" if "r \<in> set rs" for r
  proof -
    have "leader_link r \<in> Some ` set (Gathered u)" unfolding same [symmetric] using that by simp
    then show ?thesis by blast
  qed
  have complete: "\<forall>l \<in> set (Gathered u). gl_complete l" using links each by blast
  have "group_ok u = group_ok s" by (rule group_ok_frame) (simp_all add: fr)
  then have l: "list_ok u" using ok list_ok_frame [of u s] by (simp add: groups_ok_def fr)
  have d: "daemon_in_ok u" using ok links each unfolding groups_ok_def daemon_in_ok_def fr by blast
  have "{l \<in> set (Gathered u). gl_complete l} = set (Gathered u)" using complete by blast
  then have "gathered_view u = (\<Union>l \<in> set (Gathered u). link_view l)" by (simp only: gathered_view_def)
  also have "\<dots> = (\<Union>r \<in> set rs. view r)"
  proof (intro equalityI UN_least)
    fix l assume "l \<in> set (Gathered u)"
    then obtain r where r: "r \<in> set rs" "leader_link r = Some l" using links by blast
    show "link_view l \<subseteq> (\<Union>r \<in> set rs. view r)" using each [OF r] r(1) by blast
  next
    fix r assume r: "r \<in> set rs"
    then obtain l where l: "l \<in> set (Gathered u)" "leader_link r = Some l" using link_of by blast
    show "view r \<subseteq> (\<Union>l \<in> set (Gathered u). link_view l)" using each [OF r l(2)] l(1) by blast
  qed
  finally have "gathered_view u = (\<Union>r \<in> set rs. view r)" .
  moreover have "view u = view s" by (simp add: view_def fr)
  moreover have "if G_state s = GGATHER then G_state t = GOP else G_state t = GTRANS"
    using finish_state [OF run] st fr(4) by auto
  ultimately show ?thesis using finish_view [OF run _ d l complete] st fr(4) by simp
qed

lemma b_reaches: "groups_reachable b0 b3"
proof -
  have j: "\<exists>p. G_private_to_names ''#v#b'' = Some (''v'', ''b'') \<and>
      snd (Conf_proc_by_name_in_conf (G_conf b0) ''b'') = Some p \<and> p_id p \<in> set (MySyncedSet b0)"
    by (rule exI [of _ daemon_b]) code_simp
  have "groups_step b0 b1" by (rule groups_step.join [OF b_runs(1)]) (use j in auto)
  moreover have "groups_step b1 b2" by (rule groups_step.trans_memb [OF b_runs(2)]) code_simp+
  moreover have "groups_step b2 b3" by (rule groups_step.reg_memb [OF b_runs(3)]) code_simp
  ultimately show ?thesis by (blast intro: groups_reachable.intros)
qed

theorem views_merge_witness:
  "view a5 = {(''g'', 10, ''#u#a''), (''g'', 20, ''#v#b'')} \<and> G_state a5 = GOP"
proof -
  have b: "groups_ok b3" using reachable_ok [OF started(2), folded b0_def] b_reaches by blast
  let ?u = "gathered from_b (p_id daemon_b) (Is_synced_set_leader (p_id daemon_b) a4 = Some True) a4"
  have "get_memb_id (Same_endian (gm_type from_b)) (gm_data from_b) = G_Reg_memb_id a4"
    "snd (Conf_proc_by_name_in_conf (G_conf a4) (gm_proc_name from_b)) = Some daemon_b"
    "Num_daemons_gathered ?u = Conf_num_procs (G_Reg_memb ?u)" "map leader_link [b3] = map Some (Gathered ?u)"
    by code_simp+
  note merge = views_merge [OF a_ok(5) a_runs(5) this(1,2) refl this(3,4)]
  have "G_state b3 = GGATHER" "wire_state b3" "G_conf b3 = G_conf a4" "G_state a4 = GGATHER" by code_simp+
  with b merge have "view a5 = view a4 \<union> view b3 \<and> G_state a5 = GOP" by simp
  moreover have "view a4 = {(''g'', 10, ''#u#a'')}" "view b3 = {(''g'', 20, ''#v#b'')}"
    unfolding view_def views_code by code_simp+
  ultimately show ?thesis by auto
qed

section \<open>Synced sets\<close>

text \<open>
  C38: all daemons of a ring come to the same synced set, and so to the same leader, whichever set
  they were in themselves and in whichever order they gathered the others; the merges of one
  succeed exactly when those of another do.
\<close>

theorem synced_sets_agree:
  assumes "G_conf s' = G_conf s" "mset (MySyncedSet s # ss) = mset (MySyncedSet s' # ss')"
    and "\<forall>ids \<in> set (MySyncedSet s # ss). int (length ids) \<le> MAX_PROCS_RING \<and>
      sorted_wrt (\<lambda>i j. fst (Conf_proc_by_id_in_conf (G_conf s) i) < fst (Conf_proc_by_id_in_conf (G_conf s) j)) ids \<and>
      (\<forall>i \<in> set ids. fst (Conf_proc_by_id_in_conf (G_conf s) i) \<noteq> -1)"
  shows "map_option MySyncedSet (add_all ss s) = map_option MySyncedSet (add_all ss' s')"
proof -
  have sets: "set (MySyncedSet s # ss) = set (MySyncedSet s' # ss')" using assms(2) by (rule mset_eq_setD)
  let ?c = "G_conf s"
  have o: "\<forall>ids \<in> set (MySyncedSet s # ss). in_order ?c ids \<and> int (length ids) \<le> MAX_PROCS_RING"
    using assms(3) by (simp add: in_order_def)
  then have o': "\<forall>ids \<in> set (MySyncedSet s' # ss'). in_order ?c ids \<and> int (length ids) \<le> MAX_PROCS_RING" unfolding sets .
  have "merge_all ?c (MySyncedSet s) ss = merge_all ?c (MySyncedSet s') ss'"
  proof (cases "merge_all ?c (MySyncedSet s) ss")
    case None
    then show ?thesis
      using merge_all_any_order [of ?c "MySyncedSet s'" ss' _ "MySyncedSet s" ss] o' assms(2)
      by (cases "merge_all ?c (MySyncedSet s') ss'") auto
  next
    case (Some t)
    with merge_all_any_order [OF Some _ assms(2)] o show ?thesis by auto
  qed
  with add_all_merge [of ss s] add_all_merge [of ss' s'] o o' assms(1) show ?thesis
    by (simp split: option.splits)
qed

lemma two_sets:
  "G_conf b3 = G_conf a4" "MySyncedSet a4 = [10]" "MySyncedSet b3 = [20]"
  "fst (Conf_proc_by_id_in_conf (G_conf a4) 10) = 0" "fst (Conf_proc_by_id_in_conf (G_conf a4) 20) = 1"
  by code_simp+

theorem synced_sets_agree_witness:
  "map_option MySyncedSet (add_all [[20]] a4) = Some [10, 20] \<and> map_option MySyncedSet (add_all [[10]] b3) = Some [10, 20]"
proof -
  have c: "G_conf b3 = G_conf a4" "mset (MySyncedSet a4 # [[20]]) = mset (MySyncedSet b3 # [[10]])"
    "\<forall>ids \<in> set (MySyncedSet a4 # [[20]]). int (length ids) \<le> MAX_PROCS_RING \<and>
      sorted_wrt (\<lambda>i j. fst (Conf_proc_by_id_in_conf (G_conf a4) i) < fst (Conf_proc_by_id_in_conf (G_conf a4) j)) ids \<and>
      (\<forall>i \<in> set ids. fst (Conf_proc_by_id_in_conf (G_conf a4) i) \<noteq> -1)"
    using two_sets by simp_all
  have "map_option MySyncedSet (add_all [[20]] a4) = Some [10, 20]" by code_simp
  with synced_sets_agree [OF c] show ?thesis by simp
qed

end
