(* ===== verification/MessageObj.thy ===== *)
theory MessageObj
  imports GroupsWire
begin

text \<open>
  The messages of \<open>daemon/message.c\<close> and \<open>daemon/sess_types.h\<close>: a message is a scatter of at
  most \<open>MAX_SCATTER_ELEMENTS\<close> buffers of the size of a packet body, and the first one starts with
  the message header. A buffer is the list of the bytes written to it so far; what was not
  written is not initialised, and an operation that reads it, or that leaves an array, is \<open>None\<close>
  as one that ends the process. Reference counts and the disposal of memory are left out.
\<close>

abbreviation (input) FRAG :: nat where "FRAG \<equiv> 1432"
abbreviation (input) HEAD :: nat where "HEAD \<equiv> 48"
abbreviation (input) MAX_FRAGS :: nat where "MAX_FRAGS \<equiv> 100"
abbreviation (input) MAX_GROUPS_PER_MESSAGE :: int where "MAX_GROUPS_PER_MESSAGE \<equiv> 100"

section \<open>Types of messages\<close>

abbreviation (input) UNRELIABLE_MESS :: "32 word" where "UNRELIABLE_MESS \<equiv> 0x00000001"
abbreviation (input) FIFO_MESS :: "32 word" where "FIFO_MESS \<equiv> 0x00000004"
abbreviation (input) CAUSAL_MESS :: "32 word" where "CAUSAL_MESS \<equiv> 0x00000008"
abbreviation (input) SAFE_MESS :: "32 word" where "SAFE_MESS \<equiv> 0x00000020"
abbreviation (input) REGULAR_MESS :: "32 word" where "REGULAR_MESS \<equiv> 0x0000003f"
abbreviation (input) NOT_REGULAR_MESS :: "32 word" where "NOT_REGULAR_MESS \<equiv> 0x00ffff00"
abbreviation (input) SELF_DISCARD :: "32 word" where "SELF_DISCARD \<equiv> 0x00000040"
abbreviation (input) REG_MEMB_MESS :: "32 word" where "REG_MEMB_MESS \<equiv> 0x00001000"
abbreviation (input) TRANSITION_MESS :: "32 word" where "TRANSITION_MESS \<equiv> 0x00002000"
abbreviation (input) JOIN_MESS :: "32 word" where "JOIN_MESS \<equiv> 0x00010000"
abbreviation (input) LEAVE_MESS :: "32 word" where "LEAVE_MESS \<equiv> 0x00020000"
abbreviation (input) KILL_MESS :: "32 word" where "KILL_MESS \<equiv> 0x00040000"
abbreviation (input) REJECT_MESS :: "32 word" where "REJECT_MESS \<equiv> 0x00400000"

definition Is_only_regular_mess :: "32 word \<Rightarrow> bool" where
  "Is_only_regular_mess t \<longleftrightarrow> Is_type REGULAR_MESS t \<and> \<not> Is_type NOT_REGULAR_MESS t"

text \<open>The type of the packets that carry a message; \<open>None\<close> stands for -1.\<close>

definition Message_get_packet_type :: "32 word \<Rightarrow> 32 word option" where
  "Message_get_packet_type t =
     (if Is_type UNRELIABLE_MESS t then Some RELIABLE_TYPE
      else if Is_type RELIABLE_MESS t then Some RELIABLE_TYPE
      else if Is_type FIFO_MESS t then Some FIFO_TYPE
      else if Is_type CAUSAL_MESS t \<or> Is_type AGREED_MESS t then Some AGREED_TYPE
      else if Is_type SAFE_MESS t then Some SAFE_TYPE
      else if Is_type JOIN_MESS t then Some AGREED_TYPE
      else if Is_type LEAVE_MESS t then Some AGREED_TYPE
      else if Is_type KILL_MESS t then Some AGREED_TYPE
      else None)"

section \<open>The header\<close>

text \<open>The name is the array of 32 bytes; a groups message keeps a number in its last four.\<close>

record message_header =
  mh_type :: "32 word"
  private_group_name :: "8 word list"
  num_groups :: int
  hint :: "32 word"
  mh_data_len :: int

definition read_head :: "8 word list \<Rightarrow> message_header" where
  "read_head bs =
     \<lparr>mh_type = get32 bs, private_group_name = take 32 (drop 4 bs), num_groups = sint (get32 (drop 36 bs)),
      hint = get32 (drop 40 bs), mh_data_len = sint (get32 (drop 44 bs))\<rparr>"

definition write_head :: "message_header \<Rightarrow> 8 word list" where
  "write_head h =
     put32 (mh_type h) @ private_group_name h @ put32 (word_of_int (num_groups h)) @
     put32 (hint h) @ put32 (word_of_int (mh_data_len h))"

definition Flip_mess :: "message_header \<Rightarrow> message_header" where
  "Flip_mess h =
     h\<lparr>mh_type := Flip_int32 (mh_type h),
       num_groups := sint (Flip_int32 (word_of_int (num_groups h))),
       mh_data_len := sint (Flip_int32 (word_of_int (mh_data_len h)))\<rparr>"

section \<open>Messages\<close>

record fragment =
  fr_buf :: "8 word list"
  fr_len :: nat

type_synonym message = "fragment list"

definition Message_get_message_header :: "message \<Rightarrow> message_header option" where
  "Message_get_message_header msg =
     (case msg of [] \<Rightarrow> None | f # _ \<Rightarrow> if length (fr_buf f) < HEAD then None else Some (read_head (fr_buf f)))"

text \<open>Assignments to fields of the header.\<close>

definition set_head :: "message_header \<Rightarrow> message \<Rightarrow> message" where
  "set_head h msg =
     (case msg of [] \<Rightarrow> [] | f # fs \<Rightarrow> f\<lparr>fr_buf := write_head h @ drop HEAD (fr_buf f)\<rparr> # fs)"

text \<open>The bytes that a message stands for, where all of them were written.\<close>

definition frag_bytes :: "fragment \<Rightarrow> 8 word list" where
  "frag_bytes f = take (fr_len f) (fr_buf f)"

definition msg_bytes :: "message \<Rightarrow> 8 word list" where
  "msg_bytes msg = concat (map frag_bytes msg)"

definition frag_written :: "fragment \<Rightarrow> bool" where
  "frag_written f \<longleftrightarrow> fr_len f \<le> length (fr_buf f)"

definition Message_populate_with_buffers :: message where
  "Message_populate_with_buffers = replicate MAX_FRAGS \<lparr>fr_buf = [], fr_len = FRAG\<rparr>"

definition Message_new_message :: message where
  "Message_new_message = [\<lparr>fr_buf = [], fr_len = HEAD\<rparr>]"

text \<open>The header is written with \<open>strncpy\<close>.\<close>

definition Message_create_message :: "32 word \<Rightarrow> string \<Rightarrow> message" where
  "Message_create_message mess_type sender_name =
     [\<lparr>fr_buf = write_head \<lparr>mh_type = Set_endian mess_type, private_group_name = put_name sender_name,
                            num_groups = 0, hint = Set_endian 0, mh_data_len = 0\<rparr>,
       fr_len = HEAD\<rparr>]"

definition Message_add_scat_element :: "message \<Rightarrow> message option" where
  "Message_add_scat_element msg =
     (if length msg < MAX_FRAGS then Some (msg @ [\<lparr>fr_buf = [], fr_len = FRAG\<rparr>]) else None)"

definition Message_remove_scat_element :: "message \<Rightarrow> message option" where
  "Message_remove_scat_element msg = (if length msg > 0 then Some (butlast msg) else None)"

text \<open>Copies of all fragments.\<close>

definition Message_copy_message :: "message \<Rightarrow> message" where
  "Message_copy_message msg = map (\<lambda>f. f\<lparr>fr_buf := take (fr_len f) (fr_buf f)\<rparr>) msg"

text \<open>The buffers of the first \<open>len\<close> bytes go to the duplicate; the message gets new ones.\<close>

fun dup_elements :: "nat \<Rightarrow> message \<Rightarrow> (message \<times> message) option" where
  "dup_elements 0 msg = Some ([], msg)"
| "dup_elements remain [] = None"
| "dup_elements remain (f # fs) =
     (case dup_elements (remain - FRAG) fs of
        None \<Rightarrow> None
      | Some (ds, rest) \<Rightarrow>
          Some (f\<lparr>fr_len := min remain FRAG\<rparr> # ds, \<lparr>fr_buf = [], fr_len = FRAG\<rparr> # rest))"

definition Message_dup_and_reset_old_message :: "message \<Rightarrow> nat \<Rightarrow> (message \<times> message) option" where
  "Message_dup_and_reset_old_message msg len = dup_elements len msg"

section \<open>Filling a message\<close>

text \<open>The fragments behind the first one.\<close>

fun body_fragments :: "nat \<Rightarrow> 8 word list \<Rightarrow> message" where
  "body_fragments 0 bs = []"
| "body_fragments (Suc n) bs =
     (let bytes_to_copy = min (length bs) FRAG
      in \<lparr>fr_buf = take bytes_to_copy bs, fr_len = bytes_to_copy\<rparr> # body_fragments n (drop bytes_to_copy bs))"

definition Message_Buffer_to_Message_Fragments :: "message \<Rightarrow> 8 word list \<Rightarrow> message option" where
  "Message_Buffer_to_Message_Fragments msg buf =
     (let num_bytes = length buf; num_elements = (num_bytes + HEAD - 1) div FRAG + 1
      in if num_elements > MAX_FRAGS then None
         else case msg of
           [] \<Rightarrow> None
         | f # _ \<Rightarrow>
             let bytes_to_copy = min num_bytes (FRAG - HEAD)
             in Some (f\<lparr>fr_buf := take HEAD (fr_buf f) @ take bytes_to_copy buf, fr_len := fr_len f + bytes_to_copy\<rparr> #
                      body_fragments (num_elements - 1) (drop bytes_to_copy buf)))"

text \<open>
  The lengths of the fragments of a message that was read. An element behind the last one may be
  written, but not one behind the array.
\<close>

definition Message_element_len_fixup :: "message \<Rightarrow> message option" where
  "Message_element_len_fixup msg =
     (case Message_get_message_header msg of
        None \<Rightarrow> None
      | Some h \<Rightarrow>
          let total_size = mh_data_len h + 32 * num_groups h + int HEAD;
              sum_size = int FRAG * (int (length msg) - 1);
              last = nat (total_size div int FRAG)
          in if total_size < 0 then None
             else if total_size < int FRAG
             then Some (msg[0 := (msg ! 0)\<lparr>fr_len := nat total_size\<rparr>])
             else if last \<ge> MAX_FRAGS \<or> total_size < sum_size then None
             else Some (let msg0 = msg[0 := (msg ! 0)\<lparr>fr_len := FRAG\<rparr>]
                        in msg0[last := (msg0 ! last)\<lparr>fr_len := nat (total_size - sum_size)\<rparr>]))"

section \<open>Where a partial message is\<close>

record partial_message_info =
  in_mess_head :: bool
  cur_element :: nat
  cur_byte :: nat
  total_bytes :: nat

definition Message_reset_current_location :: "partial_message_info \<Rightarrow> partial_message_info" where
  "Message_reset_current_location p = \<lparr>in_mess_head = False, cur_element = 0, cur_byte = 0, total_bytes = 0\<rparr>"

definition Message_set_location_begin_body :: "partial_message_info \<Rightarrow> partial_message_info" where
  "Message_set_location_begin_body p = p\<lparr>in_mess_head := False\<rparr>"

fun element_at :: "nat \<Rightarrow> message \<Rightarrow> nat \<times> nat" where
  "element_at len [] = (0, len)"
| "element_at len (f # fs) =
     (if len < fr_len f then (0, len) else case element_at (len - fr_len f) fs of (i, b) \<Rightarrow> (Suc i, b))"

definition Message_calculate_current_location ::
  "message \<Rightarrow> nat \<Rightarrow> partial_message_info \<Rightarrow> partial_message_info" where
  "Message_calculate_current_location msg len_sent p =
     (case element_at len_sent msg of (i, b) \<Rightarrow> p\<lparr>cur_element := i, cur_byte := b, in_mess_head := False\<rparr>)"

section \<open>Groups and data\<close>

text \<open>A pointer into a buffer is the list of the bytes from there on.\<close>

definition Message_get_first_data_ptr :: "message \<Rightarrow> 8 word list option" where
  "Message_get_first_data_ptr msg =
     (case Message_get_message_header msg of
        None \<Rightarrow> None
      | Some h \<Rightarrow>
          if Is_type REJECT_MESS (mh_type h)
          then Some (if length msg < 2 then [] else fr_buf (msg ! 1))
          else Some (drop HEAD (fr_buf (msg ! 0))))"

definition Message_get_first_data_len :: "message \<Rightarrow> nat option" where
  "Message_get_first_data_len msg =
     (case Message_get_message_header msg of
        None \<Rightarrow> None
      | Some h \<Rightarrow>
          if Is_type REJECT_MESS (mh_type h) then Some 0
          else if fr_len (msg ! 0) < HEAD then None else Some (fr_len (msg ! 0) - HEAD))"

definition Message_get_first_group :: "message \<Rightarrow> 8 word list option" where
  "Message_get_first_group msg =
     (case Message_get_message_header msg of
        None \<Rightarrow> None
      | Some h \<Rightarrow>
          if Is_type REJECT_MESS (mh_type h)
          then (if length msg < 2 then None else Some (drop 4 (fr_buf (msg ! 1))))
          else Some (drop HEAD (fr_buf (msg ! 0))))"

text \<open>The copy into \<open>Temp_buf\<close>, up to \<open>groups_bytes\<close> bytes.\<close>

fun copy_elements :: "nat \<Rightarrow> message \<Rightarrow> 8 word list option" where
  "copy_elements 0 fs = Some []"
| "copy_elements n [] = None"
| "copy_elements n (f # fs) =
     (let copy_bytes = min n (fr_len f)
      in if copy_bytes > length (fr_buf f) then None
         else map_option (\<lambda>bs. take copy_bytes (fr_buf f) @ bs) (copy_elements (n - copy_bytes) fs))"

definition Message_get_groups_array :: "message \<Rightarrow> 8 word list option" where
  "Message_get_groups_array msg =
     (case Message_get_message_header msg of
        None \<Rightarrow> None
      | Some h \<Rightarrow>
          let start = (if Is_type REJECT_MESS (mh_type h) then 4 else HEAD);
              first = (if Is_type REJECT_MESS (mh_type h) then 1 else 0);
              groups_bytes = int start + num_groups h * 32
          in if length msg \<le> first then None
             else if groups_bytes > int (fr_len (msg ! first))
             then (if groups_bytes > GROUPS_BUF_SIZE then None else copy_elements (nat groups_bytes) (drop first msg))
             else Some (drop start (fr_buf (msg ! first))))"

text \<open>
  A rejected message: its old type, its groups and its sender go to a new second fragment, with
  the rest of the first one. Copies with a negative length, from behind the first buffer and to
  an element behind the array are undefined.
\<close>

definition Message_add_oldtype_to_reject :: "message \<Rightarrow> 32 word \<Rightarrow> message option" where
  "Message_add_oldtype_to_reject msg old_type =
     (case Message_get_message_header msg of
        None \<Rightarrow> None
      | Some h \<Rightarrow>
          let f0 = msg ! 0; groups_len = nat (num_groups h * 32); old_byte_location = HEAD + groups_len;
              more = num_groups h < MAX_GROUPS_PER_MESSAGE
          in if length msg \<ge> MAX_FRAGS \<or> num_groups h < 0 \<or> old_byte_location > fr_len f0 \<or>
                fr_len f0 > length (fr_buf f0)
             then None
             else Some
               (set_head (if more then h\<lparr>num_groups := num_groups h + 1\<rparr> else h) [f0\<lparr>fr_len := HEAD\<rparr>] @
                (let groups = take groups_len (drop HEAD (fr_buf f0));
                     buf = put32 old_type @ (if more then groups else take (groups_len - 32) groups) @
                           private_group_name h @ drop old_byte_location (take (fr_len f0) (fr_buf f0))
                 in [\<lparr>fr_buf = buf, fr_len = length buf\<rparr>]) @
                tl msg))"

definition Message_endian_correct_message_header :: "message \<Rightarrow> message option" where
  "Message_endian_correct_message_header msg =
     (case Message_get_message_header msg of
        None \<Rightarrow> None
      | Some h \<Rightarrow> Some (if Same_endian (mh_type h) then msg else set_head (Flip_mess h) msg))"

end
