(* ===== verification/Acm.thy ===== *)
theory Acm
  imports MessageObj
begin

text \<open>
  Access control, \<open>daemon/acm.c\<close>: the tables of authentication methods and of access control
  policies, what a client has to pass before it is accepted, and the modules that the daemon is
  linked with, \<open>auth-null.c\<close>, \<open>auth-ip.c\<close> and \<open>acp-permit.c\<close>. A function pointer of a method is
  a value of \<open>auth_module\<close>.
\<close>

abbreviation (input) MAX_AUTH_METHODS :: nat where "MAX_AUTH_METHODS \<equiv> 3"
abbreviation (input) MAX_AUTH_NAME :: nat where "MAX_AUTH_NAME \<equiv> 30"

datatype auth_module = Null_auth | Ip_auth | No_auth

record auth_info =
  au_name :: string
  au_enabled :: bool
  au_required :: bool
  auth_client_connection :: auth_module

text \<open>A policy: whether a user may connect, join or leave a group, and send to private groups or
  to groups. The last two are also told the service type and the user's type of the message.\<close>

record acp_ops =
  open_connection :: "string \<Rightarrow> bool"
  join_group :: "string \<Rightarrow> string \<Rightarrow> bool"
  leave_group :: "string \<Rightarrow> string \<Rightarrow> bool"
  p2p_send :: "string \<Rightarrow> string list \<Rightarrow> 32 word \<Rightarrow> 32 word \<Rightarrow> bool"
  mcast_send :: "string \<Rightarrow> string list \<Rightarrow> 32 word \<Rightarrow> 32 word \<Rightarrow> bool"

record acp_info =
  acp_name :: string
  acp_info_ops :: acp_ops

text \<open>An address rule of \<open>spread.access_ip\<close>.\<close>

record ip_rule =
  network_address :: "32 word"
  prefix_length :: int

record acm =
  Auth_Methods :: "auth_info list"
  ACP_Methods :: "acp_info list"
  AccessControlPolicy :: int
  Allow_Rules :: "ip_rule list"
  IP_File_Loaded :: bool

definition permit_ops :: acp_ops where
  "permit_ops = \<lparr>open_connection = (\<lambda>_. True), join_group = (\<lambda>_ _. True), leave_group = (\<lambda>_ _. True),
     p2p_send = (\<lambda>_ _ _ _. True), mcast_send = (\<lambda>_ _ _ _. True)\<rparr>"

section \<open>The tables\<close>

definition acm_authname_to_type :: "string \<Rightarrow> acm \<Rightarrow> int" where
  "acm_authname_to_type nm a = index_of (\<lambda>m. strncmp MAX_AUTH_NAME (au_name m) nm = 0) (Auth_Methods a)"

definition acm_acpname_to_type :: "string \<Rightarrow> acm \<Rightarrow> int" where
  "acm_acpname_to_type nm a = index_of (\<lambda>m. strncmp MAX_AUTH_NAME (acp_name m) nm = 0) (ACP_Methods a)"

definition set_auth :: "string \<Rightarrow> (auth_info \<Rightarrow> auth_info) \<Rightarrow> acm \<Rightarrow> bool \<times> acm" where
  "set_auth nm f a =
     (let auth_type = acm_authname_to_type nm a
      in if auth_type = -1 then (False, a)
         else (True, a\<lparr>Auth_Methods := (Auth_Methods a)[nat auth_type := f (Auth_Methods a ! nat auth_type)]\<rparr>))"

definition Acm_auth_set_enabled :: "string \<Rightarrow> acm \<Rightarrow> bool \<times> acm" where
  "Acm_auth_set_enabled nm = set_auth nm (\<lambda>m. m\<lparr>au_enabled := True\<rparr>)"

definition Acm_auth_set_disabled :: "string \<Rightarrow> acm \<Rightarrow> bool \<times> acm" where
  "Acm_auth_set_disabled nm = set_auth nm (\<lambda>m. m\<lparr>au_enabled := False\<rparr>)"

definition Acm_auth_set_required :: "string \<Rightarrow> acm \<Rightarrow> bool \<times> acm" where
  "Acm_auth_set_required nm = set_auth nm (\<lambda>m. m\<lparr>au_required := True\<rparr>)"

definition Acm_auth_add_method :: "string \<Rightarrow> auth_module \<Rightarrow> acm \<Rightarrow> bool \<times> acm" where
  "Acm_auth_add_method nm ops a =
     (if length (Auth_Methods a) = MAX_AUTH_METHODS then (False, a)
      else (True, a\<lparr>Auth_Methods := Auth_Methods a @
                      [\<lparr>au_name = nm, au_enabled = False, au_required = False, auth_client_connection = ops\<rparr>]\<rparr>))"

definition Acm_auth_query_allowed :: "string \<Rightarrow> acm \<Rightarrow> bool" where
  "Acm_auth_query_allowed nm a =
     (let auth_type = acm_authname_to_type nm a
      in if auth_type = -1 then False else au_enabled (Auth_Methods a ! nat auth_type))"

text \<open>A method that was not registered has no function: its entry of the static table is zero.\<close>

definition Acm_auth_get_auth_client_connection :: "int \<Rightarrow> acm \<Rightarrow> auth_module option" where
  "Acm_auth_get_auth_client_connection authid a =
     (if authid < 0 \<or> authid \<ge> int MAX_AUTH_METHODS then None
      else if nat authid < length (Auth_Methods a)
      then Some (auth_client_connection (Auth_Methods a ! nat authid)) else Some No_auth)"

definition Acm_auth_get_auth_client_connection_byname :: "string \<Rightarrow> acm \<Rightarrow> auth_module option" where
  "Acm_auth_get_auth_client_connection_byname nm a =
     (let auth_type = acm_authname_to_type nm a
      in if auth_type = -1 then Some No_auth else Acm_auth_get_auth_client_connection auth_type a)"

definition Acm_auth_get_allowed_list :: "acm \<Rightarrow> string" where
  "Acm_auth_get_allowed_list a = concat (map (\<lambda>m. au_name m @ '' '') (filter au_enabled (Auth_Methods a)))"

definition Acm_acp_add_method :: "string \<Rightarrow> acp_ops \<Rightarrow> acm \<Rightarrow> bool \<times> acm" where
  "Acm_acp_add_method nm ops a =
     (if length (ACP_Methods a) = MAX_AUTH_METHODS then (False, a)
      else (True, a\<lparr>ACP_Methods := ACP_Methods a @ [\<lparr>acp_name = nm, acp_info_ops = ops\<rparr>]\<rparr>))"

definition Acm_acp_query_allowed :: "string \<Rightarrow> acm \<Rightarrow> bool" where
  "Acm_acp_query_allowed nm a \<longleftrightarrow> acm_acpname_to_type nm a \<noteq> -1"

definition Acm_acp_set_policy :: "string \<Rightarrow> acm \<Rightarrow> bool \<times> acm" where
  "Acm_acp_set_policy nm a =
     (if \<not> Acm_acp_query_allowed nm a then (False, a)
      else (True, a\<lparr>AccessControlPolicy := acm_acpname_to_type nm a\<rparr>))"

text \<open>\<open>None\<close> is a failed assertion.\<close>

definition Acm_acp_fill_ops :: "acm \<Rightarrow> acp_ops option" where
  "Acm_acp_fill_ops a =
     (if AccessControlPolicy a < 0 \<or> AccessControlPolicy a \<ge> int (length (ACP_Methods a)) then None
      else Some (acp_info_ops (ACP_Methods a ! nat (AccessControlPolicy a))))"

definition Acm_acp_fill_ops_byname :: "string \<Rightarrow> acm \<Rightarrow> acp_ops option" where
  "Acm_acp_fill_ops_byname nm a =
     (let acp_type = acm_acpname_to_type nm a
      in if acp_type = -1 then None else Some (acp_info_ops (ACP_Methods a ! nat acp_type)))"

text \<open>The tables at the start: nothing is registered in static memory.\<close>

definition no_methods :: acm where
  "no_methods = \<lparr>Auth_Methods = [], ACP_Methods = [], AccessControlPolicy = 0, Allow_Rules = [], IP_File_Loaded = False\<rparr>"

text \<open>\<open>None\<close> is the exit of \<open>null_init\<close>, \<open>permit_init\<close> or \<open>Acm_init\<close>.\<close>

definition null_init :: "acm \<Rightarrow> acm option" where
  "null_init a = (case Acm_auth_add_method ''NULL'' Null_auth a of (ok, a') \<Rightarrow> if ok then Some a' else None)"

definition permit_init :: "acm \<Rightarrow> acm option" where
  "permit_init a = (case Acm_acp_add_method ''PERMIT'' permit_ops a of (ok, a') \<Rightarrow> if ok then Some a' else None)"

definition Acm_init :: "acm \<Rightarrow> acm option" where
  "Acm_init a =
     (case Acm_acp_set_policy ''PERMIT'' (snd (Acm_auth_set_enabled ''NULL'' a)) of
        (ok, a') \<Rightarrow> if ok then Some a' else None)"

section \<open>What a client has to pass\<close>

record session_auth_info =
  sa_mbox :: int
  completed_required_auths :: nat
  required_auth_methods :: "int list"
  required_auth_results :: "bool list"

definition Acm_auth_create_sess_info_forIP :: "int \<Rightarrow> acm \<Rightarrow> session_auth_info" where
  "Acm_auth_create_sess_info_forIP mbox a =
     \<lparr>sa_mbox = mbox, completed_required_auths = 0, required_auth_methods = [acm_authname_to_type ''IP'' a],
      required_auth_results = [False]\<rparr>"

text \<open>
  The names that a client sends are three arrays of \<open>MAX_AUTH_NAME\<close> bytes. A loop over them that
  finds none of them empty reads on behind the third, which is \<open>None\<close>.
\<close>

definition auth_entry :: "nat \<Rightarrow> 8 word list \<Rightarrow> string" where
  "auth_entry i bs = map (\<lambda>b. char_of (unat b)) (takeWhile (\<lambda>b. b \<noteq> 0) (drop (i * MAX_AUTH_NAME) bs))"

fun auth_entries :: "nat \<Rightarrow> nat \<Rightarrow> 8 word list \<Rightarrow> string list option" where
  "auth_entries 0 i bs = None"
| "auth_entries (Suc n) i bs =
     (if auth_entry i bs = [] then Some [] else map_option ((#) (auth_entry i bs)) (auth_entries n (Suc i) bs))"

definition requested :: "8 word list \<Rightarrow> string list option" where
  "requested bs = auth_entries MAX_AUTH_METHODS 0 bs"

text \<open>The enabled methods among the requested ones; an unknown one reads \<open>Auth_Methods[-1]\<close>.\<close>

fun requested_methods :: "acm \<Rightarrow> string list \<Rightarrow> int list option" where
  "requested_methods a [] = Some []"
| "requested_methods a (nm # nms) =
     (let type = acm_authname_to_type nm a
      in if type = -1 then None
         else map_option (\<lambda>ts. if au_enabled (Auth_Methods a ! nat type) then type # ts else ts)
                (requested_methods a nms))"

fun add_required :: "int \<Rightarrow> auth_info list \<Rightarrow> int list \<Rightarrow> int list" where
  "add_required i [] ts = ts"
| "add_required i (m # ms) ts =
     add_required (i + 1) ms (if au_required m \<and> i \<notin> set ts then ts @ [i] else ts)"

text \<open>
  The outer \<open>None\<close> is undefined behaviour, which includes writing more than three methods; the
  inner one is the null pointer.
\<close>

definition Acm_auth_create_sess_info :: "int \<Rightarrow> 8 word list \<Rightarrow> acm \<Rightarrow> session_auth_info option option" where
  "Acm_auth_create_sess_info mbox auth_name a =
     (case requested auth_name of
        None \<Rightarrow> None
      | Some nms \<Rightarrow>
          (case requested_methods a nms of
             None \<Rightarrow> None
           | Some ts \<Rightarrow>
               if ts = [] then Some None
               else let all = add_required 0 (Auth_Methods a) ts
                    in if length all > MAX_AUTH_METHODS then None
                       else Some (Some \<lparr>sa_mbox = mbox, completed_required_auths = 0, required_auth_methods = all,
                              required_auth_results = replicate MAX_AUTH_METHODS False\<rparr>)))"

section \<open>Addresses\<close>

definition insert_ip_rule :: "32 word \<Rightarrow> int \<Rightarrow> acm \<Rightarrow> acm" where
  "insert_ip_rule net prefix a =
     a\<lparr>Allow_Rules := \<lparr>network_address = net, prefix_length = prefix\<rparr> # Allow_Rules a\<rparr>"

text \<open>
  A shift by 32 bits or more, for a prefix of length 0 or less, or by a negative number is not
  defined in C.
\<close>

fun ip_allowed :: "32 word \<Rightarrow> ip_rule list \<Rightarrow> bool option" where
  "ip_allowed client_ip [] = Some False"
| "ip_allowed client_ip (r # rs) =
     (if prefix_length r \<le> 0 \<or> prefix_length r > 32 then None
      else if network_address r = client_ip AND push_bit (nat (32 - prefix_length r)) (- 1) then Some True
      else ip_allowed client_ip rs)"

text \<open>
  The decision of \<open>ip_auth_client_connection\<close> about the address of a session, \<open>None\<close> for an
  address that is not one of IPv4.
\<close>

definition ip_auth_decision :: "32 word option \<Rightarrow> acm \<Rightarrow> bool option" where
  "ip_auth_decision addr a =
     (if \<not> IP_File_Loaded a then Some False
      else case addr of None \<Rightarrow> Some False | Some ip \<Rightarrow> ip_allowed ip (Allow_Rules a))"

end
