(* ===== verification/SessTable.thy ===== *)
theory SessTable
  imports Acm
begin

text \<open>
  The table of sessions of \<open>daemon/session.c\<close>: the array \<open>Sessions\<close>, a doubly linked list of the
  sessions in use that is sorted by name, a list of the free entries, and a hash table from
  mailboxes to sessions. A pointer to a session is its index in the array, \<open>None\<close> the null
  pointer. The entry behind the last one is the template that accepting fills in.
\<close>

abbreviation (input) MAX_SESSIONS :: nat where "MAX_SESSIONS \<equiv> 997"

record client =
  cl_name :: string
  lib_version :: "int \<times> int \<times> int"
  cl_addr :: "32 word option"
  cl_status :: "32 word"
  cl_priority :: int
  cl_mbox :: int
  cl_acp_ops :: acp_ops
  cl_read :: partial_message_info
  cl_read_mess :: "message option"
  cl_num_mess :: int
  cl_write :: partial_message_info
  cl_queue :: "message list"
  sort_prev :: "nat option"
  sort_next :: "nat option"
  hash_next :: "nat option"

record sess_table =
  slots :: "nat \<Rightarrow> client"
  Sessions_hash_head :: "nat \<Rightarrow> nat option"
  Sessions_head :: "nat option"
  Sessions_tail :: "nat option"
  Sessions_free :: "nat option"

definition upd :: "nat \<Rightarrow> (client \<Rightarrow> client) \<Rightarrow> ('b) sess_table_scheme \<Rightarrow> ('b) sess_table_scheme" where
  "upd i f s = s\<lparr>slots := (slots s)(i := f (slots s i))\<rparr>"

section \<open>Status bits\<close>

abbreviation (input) MEMB_SESSION :: "32 word" where "MEMB_SESSION \<equiv> 0x00000001"
abbreviation (input) OP_SESSION :: "32 word" where "OP_SESSION \<equiv> 0x00000010"
abbreviation (input) PRE_AUTH_SESSION :: "32 word" where "PRE_AUTH_SESSION \<equiv> 0x00000100"

abbreviation Is_memb_session :: "client \<Rightarrow> bool" where "Is_memb_session c \<equiv> Is_type MEMB_SESSION (cl_status c)"
abbreviation Is_op_session :: "client \<Rightarrow> bool" where "Is_op_session c \<equiv> Is_type OP_SESSION (cl_status c)"
abbreviation Is_preauth_session :: "client \<Rightarrow> bool" where
  "Is_preauth_session c \<equiv> Is_type PRE_AUTH_SESSION (cl_status c)"

definition set_status :: "32 word \<Rightarrow> client \<Rightarrow> client" where
  "set_status m c = c\<lparr>cl_status := cl_status c OR m\<rparr>"

definition clear_status :: "32 word \<Rightarrow> client \<Rightarrow> client" where
  "clear_status m c = c\<lparr>cl_status := cl_status c AND NOT m\<rparr>"

section \<open>The free entries\<close>

definition Sess_free_session :: "nat \<Rightarrow> ('b) sess_table_scheme \<Rightarrow> ('b) sess_table_scheme" where
  "Sess_free_session i s = (upd i (\<lambda>c. c\<lparr>sort_next := Sessions_free s\<rparr>) s)\<lparr>Sessions_free := Some i\<rparr>"

definition Sess_init_sessions :: "('b) sess_table_scheme \<Rightarrow> ('b) sess_table_scheme" where
  "Sess_init_sessions s =
     fold Sess_free_session [0..<MAX_SESSIONS]
       (s\<lparr>Sessions_hash_head := (\<lambda>_. None), Sessions_free := None, Sessions_head := None, Sessions_tail := None\<rparr>)"

text \<open>Without a free entry the null pointer is used.\<close>

definition Sess_get_free_session :: "('b) sess_table_scheme \<Rightarrow> (nat \<times> ('b) sess_table_scheme) option" where
  "Sess_get_free_session s =
     (case Sessions_free s of
        None \<Rightarrow> None
      | Some i \<Rightarrow> Some (i, s\<lparr>Sessions_free := sort_next (slots s i)\<rparr>))"

section \<open>The hash table\<close>

text \<open>The exclusive or of the four bytes of the mailbox.\<close>

definition mbox_hash :: "int \<Rightarrow> nat" where
  "mbox_hash mbox =
     (let m = word_of_int mbox :: 32 word
      in unat ((m XOR drop_bit 8 m XOR drop_bit 16 m XOR drop_bit 24 m) AND 0xff))"

definition Sess_hash_session :: "nat \<Rightarrow> ('b) sess_table_scheme \<Rightarrow> ('b) sess_table_scheme" where
  "Sess_hash_session i s =
     (let h = mbox_hash (cl_mbox (slots s i))
      in (upd i (\<lambda>c. c\<lparr>hash_next := Sessions_hash_head s h\<rparr>) s)
           \<lparr>Sessions_hash_head := (Sessions_hash_head s)(h := Some i)\<rparr>)"

text \<open>The entry whose successor is \<open>i\<close>; the end of the chain is a null pointer.\<close>

partial_function (option) hash_pred ::
  "(nat \<Rightarrow> client) \<Rightarrow> nat \<Rightarrow> nat option \<Rightarrow> nat option" where
  "hash_pred t i p =
     (case p of
        None \<Rightarrow> None
      | Some j \<Rightarrow> if hash_next (t j) = Some i then Some j else hash_pred t i (hash_next (t j)))"

definition Sess_unhash_session :: "nat \<Rightarrow> ('b) sess_table_scheme \<Rightarrow> ('b) sess_table_scheme option" where
  "Sess_unhash_session i s =
     (let h = mbox_hash (cl_mbox (slots s i)); nxt = hash_next (slots s i); clear = upd i (\<lambda>c. c\<lparr>hash_next := None\<rparr>)
      in if Sessions_hash_head s h = Some i
         then Some (clear (s\<lparr>Sessions_hash_head := (Sessions_hash_head s)(h := nxt)\<rparr>))
         else (case hash_pred (slots s) i (Sessions_hash_head s h) of
                 None \<Rightarrow> None
               | Some j \<Rightarrow> Some (clear (upd j (\<lambda>c. c\<lparr>hash_next := nxt\<rparr>) s))))"

text \<open>The result of a walk: \<open>None\<close> if it does not end, else the session found.\<close>

partial_function (option) hash_walk ::
  "(nat \<Rightarrow> client) \<Rightarrow> int \<Rightarrow> nat option \<Rightarrow> nat option option" where
  "hash_walk t mbox p =
     (case p of
        None \<Rightarrow> Some None
      | Some j \<Rightarrow> if cl_mbox (t j) = mbox then Some (Some j) else hash_walk t mbox (hash_next (t j)))"

definition Sess_get_session_index_tab :: "int \<Rightarrow> ('b) sess_table_scheme \<Rightarrow> nat option option" where
  "Sess_get_session_index_tab mbox s = hash_walk (slots s) mbox (Sessions_hash_head s (mbox_hash mbox))"

section \<open>The sorted list\<close>

text \<open>The copy of the template takes its links along; they are set behind it.\<close>

definition Sess_insert_new_session ::
  "nat option \<Rightarrow> nat \<Rightarrow> ('b) sess_table_scheme \<Rightarrow> (nat \<times> ('b) sess_table_scheme) option" where
  "Sess_insert_new_session whr template s =
     (case Sess_get_free_session s of
        None \<Rightarrow> None
      | Some (i, s1) \<Rightarrow>
          let s2 = upd i (\<lambda>_. slots s1 template) s1
          in Some (i,
             (case whr of
                None \<Rightarrow>
                  (case Sessions_tail s2 of
                     None \<Rightarrow> (upd i (\<lambda>c. c\<lparr>sort_next := None, sort_prev := None\<rparr>) s2)
                               \<lparr>Sessions_head := Some i, Sessions_tail := Some i\<rparr>
                   | Some t \<Rightarrow> (upd t (\<lambda>c. c\<lparr>sort_next := Some i\<rparr>)
                                 (upd i (\<lambda>c. c\<lparr>sort_next := None, sort_prev := Some t\<rparr>) s2))\<lparr>Sessions_tail := Some i\<rparr>)
              | Some w \<Rightarrow>
                  (let prev = sort_prev (slots s2 w);
                       s3 = upd w (\<lambda>c. c\<lparr>sort_prev := Some i\<rparr>)
                              (upd i (\<lambda>c. c\<lparr>sort_next := Some w, sort_prev := prev\<rparr>) s2)
                   in case prev of
                        None \<Rightarrow> s3\<lparr>Sessions_head := Some i\<rparr>
                      | Some p \<Rightarrow> upd p (\<lambda>c. c\<lparr>sort_next := Some i\<rparr>) s3))))"

text \<open>Closing the mailbox is left to the caller, which emits it.\<close>

definition Sess_unlink_session :: "nat \<Rightarrow> ('b) sess_table_scheme \<Rightarrow> ('b) sess_table_scheme" where
  "Sess_unlink_session i s =
     (case (sort_prev (slots s i), sort_next (slots s i)) of
        (None, None) \<Rightarrow> s\<lparr>Sessions_head := None, Sessions_tail := None\<rparr>
      | (None, Some n) \<Rightarrow> upd n (\<lambda>c. c\<lparr>sort_prev := None\<rparr>) (s\<lparr>Sessions_head := Some n\<rparr>)
      | (Some p, None) \<Rightarrow> upd p (\<lambda>c. c\<lparr>sort_next := None\<rparr>) (s\<lparr>Sessions_tail := Some p\<rparr>)
      | (Some p, Some n) \<Rightarrow>
          upd p (\<lambda>c. c\<lparr>sort_next := Some n\<rparr>) (upd n (\<lambda>c. c\<lparr>sort_prev := Some p\<rparr>) s))"

definition Sess_remove_session_tab :: "nat \<Rightarrow> ('b) sess_table_scheme \<Rightarrow> ('b) sess_table_scheme" where
  "Sess_remove_session_tab i s =
     Sess_free_session i
       (upd i (\<lambda>c. c\<lparr>sort_prev := None, sort_next := None, cl_mbox := -1\<rparr>) (Sess_unlink_session i s))"

partial_function (option) name_walk ::
  "(nat \<Rightarrow> client) \<Rightarrow> string \<Rightarrow> nat option \<Rightarrow> nat option option" where
  "name_walk t nm p =
     (case p of
        None \<Rightarrow> Some None
      | Some j \<Rightarrow>
          let ret = strcmp (cl_name (t j)) nm
          in if ret < 0 then name_walk t nm (sort_next (t j))
             else if ret = 0 then Some (Some j) else Some None)"

definition Sess_get_session_tab :: "string \<Rightarrow> ('b) sess_table_scheme \<Rightarrow> nat option option" where
  "Sess_get_session_tab nm s = name_walk (slots s) nm (Sessions_head s)"

text \<open>The search for a new name: the entry it stops at, and whether the name is not there.\<close>

partial_function (option) place_walk ::
  "(nat \<Rightarrow> client) \<Rightarrow> string \<Rightarrow> nat option \<Rightarrow> (nat option \<times> bool) option" where
  "place_walk t nm p =
     (case p of
        None \<Rightarrow> Some (None, True)
      | Some j \<Rightarrow>
          let ret = strcmp nm (cl_name (t j))
          in if ret \<le> 0 then Some (Some j, ret \<noteq> 0) else place_walk t nm (sort_next (t j)))"

definition find_place :: "string \<Rightarrow> ('b) sess_table_scheme \<Rightarrow> (nat option \<times> bool) option" where
  "find_place nm s = place_walk (slots s) nm (Sessions_head s)"

text \<open>The sessions in the order of the list, as the groups see them.\<close>

partial_function (option) list_walk :: "(nat \<Rightarrow> client) \<Rightarrow> nat option \<Rightarrow> nat list option" where
  "list_walk t p =
     (case p of
        None \<Rightarrow> Some []
      | Some j \<Rightarrow> do { js \<leftarrow> list_walk t (sort_next (t j)); Some (j # js) })"

definition session_of :: "client \<Rightarrow> session" where
  "session_of c = \<lparr>ses_name = cl_name c, ses_mbox = cl_mbox c, ses_memb = Is_memb_session c\<rparr>"

definition Sessions_list :: "('b) sess_table_scheme \<Rightarrow> session list option" where
  "Sessions_list s = map_option (map (\<lambda>i. session_of (slots s i))) (list_walk (slots s) (Sessions_head s))"

declare hash_pred.simps [code] hash_walk.simps [code] name_walk.simps [code] place_walk.simps [code]
  list_walk.simps [code]

end
