(* ===== verification/SessState.thy ===== *)
theory SessState
  imports Events EventsFd SessTable
begin

text \<open>
  The state of \<open>daemon/session.c\<close> and its calls of the operating system. What the coming calls of
  \<open>recv\<close> and \<open>send\<close> return is part of the state: \<open>recv\<close> takes from a list of the pieces that
  arrive, and \<open>send\<close> takes the number of bytes that it accepts, all of them when the list is
  empty. \<open>s_out\<close> is the list of what was handed out, in order.
\<close>

abbreviation (input) WRITE_FD :: int where "WRITE_FD \<equiv> 1"
abbreviation (input) EXCEPT_FD :: int where "EXCEPT_FD \<equiv> 2"

datatype recv_result = Data "8 word list" | Would_block | Recv_error

datatype sess_handler =
    Sess_accept_handler
  | Sess_accept_continue_handler
  | Sess_recv_client_auth_handler
  | Sess_read_handler
  | Sess_badger_handler

datatype sess_action =
    Sent int "8 word list"
  | Closed int
  | Attached int int sess_handler
  | Detached int int
  | Queued sess_handler int sp_time
  | Dequeued sess_handler int
  | New_message "32 word" message
  | Groups_do group_action
  | Active_threshold priority

record sess_state = sess_table +
  Num_sessions :: int
  Sess_My :: proc
  Session_threshold :: priority
  Protocol_threshold :: priority
  Accept_inet_mbox :: "int list"
  Accept_unix_mbox :: int
  Acl :: acm
  max_session_messages :: int
  Grp :: groups_state
  recv_results :: "recv_result list"
  send_results :: "int list"
  draws :: "nat list"
  s_out :: "sess_action list"

definition semit :: "sess_action list \<Rightarrow> sess_state \<Rightarrow> sess_state" where
  "semit as s = s\<lparr>s_out := s_out s @ as\<rparr>"

section \<open>Sockets\<close>

text \<open>
  \<open>recv\<close> returns at most \<open>n\<close> bytes of the piece that is there and leaves the rest of it. No bytes
  are the end of the stream.
\<close>

definition recv :: "nat \<Rightarrow> sess_state \<Rightarrow> recv_result \<times> sess_state" where
  "recv n s =
     (case recv_results s of
        [] \<Rightarrow> (Would_block, s)
      | Data bs # rs \<Rightarrow>
          if length bs \<le> n then (Data bs, s\<lparr>recv_results := rs\<rparr>)
          else (Data (take n bs), s\<lparr>recv_results := Data (drop n bs) # rs\<rparr>)
      | r # rs \<Rightarrow> (r, s\<lparr>recv_results := rs\<rparr>))"

text \<open>The result of \<open>send\<close> is the number of bytes sent, or -1.\<close>

definition send :: "int \<Rightarrow> 8 word list \<Rightarrow> sess_state \<Rightarrow> int \<times> sess_state" where
  "send mbox bs s =
     (let r = (case send_results s of [] \<Rightarrow> int (length bs) | r # _ \<Rightarrow> if r < 0 then -1 else min r (int (length bs)));
          s1 = s\<lparr>send_results := tl (send_results s)\<rparr>
      in (r, if r > 0 then semit [Sent mbox (take (nat r) bs)] s1 else s1))"

definition send_ignored :: "int \<Rightarrow> 8 word list \<Rightarrow> sess_state \<Rightarrow> sess_state" where
  "send_ignored mbox bs s = snd (send mbox bs s)"

definition chars :: "string \<Rightarrow> 8 word list" where
  "chars nm = map (\<lambda>ch. of_nat (of_char ch)) nm"

definition string_of :: "8 word list \<Rightarrow> string" where
  "string_of bs = map (\<lambda>b. char_of (unat b)) bs"

text \<open>The name of a session's private group, cut by \<open>snprintf\<close>.\<close>

definition private_group :: "string \<Rightarrow> string \<Rightarrow> string" where
  "private_group nm proc_name = take 31 (''#'' @ nm @ ''#'' @ proc_name)"

section \<open>Responses to a client\<close>

abbreviation (input) ACCEPT_SESSION :: int where "ACCEPT_SESSION \<equiv> 1"
abbreviation (input) REJECT_QUOTA :: int where "REJECT_QUOTA \<equiv> - 3"
abbreviation (input) REJECT_ILLEGAL_NAME :: int where "REJECT_ILLEGAL_NAME \<equiv> - 5"
abbreviation (input) REJECT_NOT_UNIQUE :: int where "REJECT_NOT_UNIQUE \<equiv> - 6"
abbreviation (input) REJECT_VERSION :: int where "REJECT_VERSION \<equiv> - 7"
abbreviation (input) REJECT_AUTH :: int where "REJECT_AUTH \<equiv> - 9"
abbreviation (input) SP_MAJOR_VERSION :: int where "SP_MAJOR_VERSION \<equiv> 5"
abbreviation (input) SP_MINOR_VERSION :: int where "SP_MINOR_VERSION \<equiv> 0"
abbreviation (input) SP_PATCH_VERSION :: int where "SP_PATCH_VERSION \<equiv> 1"

definition send_code :: "int \<Rightarrow> int \<Rightarrow> sess_state \<Rightarrow> sess_state" where
  "send_code mbox code = send_ignored mbox [word_of_int code]"

definition close_mbox :: "int \<Rightarrow> sess_state \<Rightarrow> sess_state" where
  "close_mbox mbox = semit [Closed mbox]"

definition refuse :: "int \<Rightarrow> int \<Rightarrow> sess_state \<Rightarrow> sess_state" where
  "refuse mbox code s = close_mbox mbox (send_code mbox code s)"

definition Sess_remove_session :: "nat \<Rightarrow> sess_state \<Rightarrow> sess_state" where
  "Sess_remove_session i s = close_mbox (cl_mbox (slots s i)) (Sess_remove_session_tab i s)"

section \<open>Thresholds\<close>

definition rank :: "priority \<Rightarrow> int" where
  "rank p = (case p of LOW_PRIORITY \<Rightarrow> 0 | MEDIUM_PRIORITY \<Rightarrow> 1)"

definition Sess_set_active_threshold :: "sess_state \<Rightarrow> sess_state" where
  "Sess_set_active_threshold s =
     (if rank (Protocol_threshold s) > rank (Session_threshold s)
      then semit [Active_threshold (Protocol_threshold s)] s
      else semit [Active_threshold (Session_threshold s)] s)"

definition Sess_block_users_level :: "sess_state \<Rightarrow> sess_state" where
  "Sess_block_users_level s =
     (if rank (Protocol_threshold s) < rank MEDIUM_PRIORITY
      then Sess_set_active_threshold (s\<lparr>Protocol_threshold := MEDIUM_PRIORITY\<rparr>) else s)"

definition Sess_unblock_users_level :: "sess_state \<Rightarrow> sess_state" where
  "Sess_unblock_users_level s =
     (if rank (Protocol_threshold s) > rank LOW_PRIORITY
      then Sess_set_active_threshold (s\<lparr>Protocol_threshold := LOW_PRIORITY\<rparr>) else s)"

section \<open>Start and reload\<close>

definition Sess_attach_accept :: "sess_state \<Rightarrow> sess_state" where
  "Sess_attach_accept s =
     semit (concat (map (\<lambda>m. [Attached m READ_FD Sess_accept_handler, Attached m EXCEPT_FD Sess_accept_handler])
              (Accept_inet_mbox s)) @ [Attached (Accept_unix_mbox s) READ_FD Sess_accept_handler]) s"

definition Sess_detach_accept :: "sess_state \<Rightarrow> sess_state" where
  "Sess_detach_accept s =
     semit (concat (map (\<lambda>m. [Detached m READ_FD, Detached m EXCEPT_FD]) (Accept_inet_mbox s)) @
       [Detached (Accept_unix_mbox s) READ_FD]) s"

text \<open>The sockets that the daemon listens on were opened: \<open>inet\<close>, one for each interface, and
  \<open>unix\<close>.\<close>

definition Sess_init :: "configuration \<Rightarrow> proc \<Rightarrow> int list \<Rightarrow> int \<Rightarrow> sess_state \<Rightarrow> sess_state" where
  "Sess_init c my inet unix s =
     (let s1 = (Sess_init_sessions s)\<lparr>Num_sessions := 0, Sess_My := my, Session_threshold := LOW_PRIORITY,
                  Protocol_threshold := LOW_PRIORITY, Accept_inet_mbox := inet, Accept_unix_mbox := unix\<rparr>
      in (Sess_attach_accept s1)\<lparr>Grp := G_init c my (Grp s)\<rparr>)"

definition Sess_signal_conf_reload :: "proc \<Rightarrow> sess_state \<Rightarrow> sess_state" where
  "Sess_signal_conf_reload my s =
     s\<lparr>Sess_My := my, Grp := G_signal_conf_reload ((Grp s)\<lparr>G_my := my\<rparr>)\<rparr>"

end
