(* ===== verification/SessWrite.thy ===== *)
theory SessWrite
  imports SessState
begin

text \<open>
  Writing to the clients, \<open>daemon/session.c\<close>: a message goes out at once as far as the socket takes
  it; what is left waits in the session's queue, which is written again when the socket accepts
  data or a timer runs out. A session whose queue is full is killed: its queue is dropped, and
  a message about it goes to all daemons.
\<close>

definition Badger_timeout :: sp_time where
  "Badger_timeout = \<lparr>sec = 0, usec = 100000\<rparr>"

section \<open>Killing a session\<close>

definition clear_client :: "client \<Rightarrow> client" where
  "clear_client c =
     clear_status OP_SESSION
       (c\<lparr>cl_num_mess := min 0 (cl_num_mess c), cl_queue := [], cl_read_mess := None,
          cl_read := (Message_reset_current_location (cl_read c))\<lparr>in_mess_head := True\<rparr>,
          cl_write := Message_reset_current_location (cl_write c)\<rparr>)"

text \<open>A counter above the length of the queue follows a null pointer.\<close>

definition Sess_clear_session :: "nat \<Rightarrow> sess_state \<Rightarrow> sess_state option" where
  "Sess_clear_session i s =
     (let c = slots s i; m = cl_mbox c
      in if cl_num_mess c > int (length (cl_queue c)) then None
         else Some (semit [Dequeued Sess_badger_handler m, Detached m READ_FD, Detached m EXCEPT_FD, Detached m WRITE_FD]
                (upd i clear_client s)))"

definition kill_message :: "string \<Rightarrow> message" where
  "kill_message pg = Message_create_message (KILL_MESS OR SAFE_MESS) pg"

text \<open>
  A session that is killed already is killed again. \<open>Message_kill_mess_fixup\<close> does nothing.
\<close>

definition Sess_kill :: "int \<Rightarrow> sess_state \<Rightarrow> sess_state option" where
  "Sess_kill mbox s =
     (case Sess_get_session_index_tab mbox s of
        None \<Rightarrow> None
      | Some None \<Rightarrow> Some s
      | Some (Some i) \<Rightarrow>
          if \<not> Is_op_session (slots s i) \<and> Is_preauth_session (slots s i) then None
          else
            let kill_mess = kill_message (private_group (cl_name (slots s i)) (p_name (Sess_My s)))
            in case Message_get_message_header kill_mess of
                 None \<Rightarrow> None
               | Some h \<Rightarrow>
                   (case Message_get_packet_type (mh_type h) of
                      None \<Rightarrow> None
                    | Some t \<Rightarrow> Sess_clear_session i (semit [New_message t kill_mess] s)))"

section \<open>Sending what waits\<close>

text \<open>\<open>n\<close> bytes from a pointer, which have to be there.\<close>

definition send_part :: "int \<Rightarrow> nat \<Rightarrow> 8 word list \<Rightarrow> sess_state \<Rightarrow> (int \<times> sess_state) option" where
  "send_part mbox n ptr s = (if n > length ptr then None else Some (send mbox (take n ptr) s))"

text \<open>The fragments from the current one; the result tells whether all of them were sent.\<close>

fun badger_elements ::
  "int \<Rightarrow> message \<Rightarrow> nat \<Rightarrow> partial_message_info \<Rightarrow> sess_state \<Rightarrow> (bool \<times> partial_message_info \<times> sess_state) option" where
  "badger_elements mbox [] from w s = Some (True, w, s)"
| "badger_elements mbox (f # fs) from w s =
     (if from > fr_len f then None
      else case send_part mbox (fr_len f - from) (drop from (fr_buf f)) s of
        None \<Rightarrow> None
      | Some (ret, s1) \<Rightarrow>
          if ret = int (fr_len f - from)
          then badger_elements mbox fs 0 (w\<lparr>cur_byte := 0, cur_element := Suc (cur_element w)\<rparr>) s1
          else Some (False, (if ret > 0 then w\<lparr>cur_byte := cur_byte w + nat ret\<rparr> else w), s1))"

text \<open>The header first, if the message is still there.\<close>

definition badger_head ::
  "int \<Rightarrow> message \<Rightarrow> partial_message_info \<Rightarrow> sess_state \<Rightarrow> (bool \<times> partial_message_info \<times> sess_state) option" where
  "badger_head mbox msg w s =
     (if \<not> in_mess_head w then Some (True, w, s)
      else if msg = [] \<or> cur_byte w > HEAD then None
      else case send_part mbox (HEAD - cur_byte w) (drop (cur_byte w) (fr_buf (hd msg))) s of
        None \<Rightarrow> None
      | Some (ret, s1) \<Rightarrow>
          if ret = int (HEAD - cur_byte w) then Some (True, Message_set_location_begin_body w, s1)
          else Some (False, (if ret > 0 then w\<lparr>cur_byte := cur_byte w + nat ret\<rparr> else w), s1))"

text \<open>The queue, with the counter that the loop runs by.\<close>

fun badger_queue ::
  "int \<Rightarrow> nat \<Rightarrow> message list \<Rightarrow> partial_message_info \<Rightarrow> sess_state \<Rightarrow>
     (nat \<times> message list \<times> partial_message_info \<times> sess_state) option" where
  "badger_queue mbox 0 q w s = Some (0, q, w, s)"
| "badger_queue mbox (Suc n) [] w s = None"
| "badger_queue mbox (Suc n) (msg # q) w s =
     (case badger_head mbox msg w s of
        None \<Rightarrow> None
      | Some (False, w1, s1) \<Rightarrow> Some (Suc n, msg # q, w1, s1)
      | Some (True, w1, s1) \<Rightarrow>
          (case badger_elements mbox (drop (cur_element w1) msg) (cur_byte w1) w1 s1 of
             None \<Rightarrow> None
           | Some (False, w2, s2) \<Rightarrow> Some (Suc n, msg # q, w2, s2)
           | Some (True, w2, s2) \<Rightarrow> badger_queue mbox n q (Message_reset_current_location w2) s2))"

definition Sess_badger :: "int \<Rightarrow> sess_state \<Rightarrow> sess_state option" where
  "Sess_badger mbox s =
     (let no_work = semit [Dequeued Sess_badger_handler mbox, Detached mbox WRITE_FD]
      in case Sess_get_session_index_tab mbox s of
           None \<Rightarrow> None
         | Some None \<Rightarrow> Some (no_work s)
         | Some (Some i) \<Rightarrow>
             let c = slots s i
             in if \<not> Is_op_session c \<or> cl_num_mess c \<le> 0 then Some (no_work s)
                else (case badger_queue mbox (nat (cl_num_mess c)) (cl_queue c) (cl_write c) s of
                        None \<Rightarrow> None
                      | Some (n, q, w, s1) \<Rightarrow>
                          let s2 = upd i (\<lambda>c. c\<lparr>cl_num_mess := int n, cl_queue := q, cl_write := w\<rparr>) s1
                          in Some (if n > 0
                               then semit [Queued Sess_badger_handler mbox Badger_timeout,
                                           Attached mbox WRITE_FD Sess_badger_handler] s2
                               else no_work s2)))"

section \<open>Writing a message\<close>

fun write_elements :: "int \<Rightarrow> message \<Rightarrow> sess_state \<Rightarrow> (nat \<times> sess_state) option" where
  "write_elements mbox [] s = Some (0, s)"
| "write_elements mbox (f # fs) s =
     (case send_part mbox (fr_len f) (fr_buf f) s of
        None \<Rightarrow> None
      | Some (ret, s1) \<Rightarrow>
          if ret \<noteq> int (fr_len f) then Some (nat ret, s1)
          else map_option (\<lambda>(n, s2). (nat ret + n, s2)) (write_elements mbox fs s1))"

text \<open>The number of bytes that were sent: the header, the data of the first fragment, the others.\<close>

definition write_message :: "int \<Rightarrow> message \<Rightarrow> sess_state \<Rightarrow> (nat \<times> sess_state) option" where
  "write_message mbox msg s =
     (case msg of
        [] \<Rightarrow> None
      | f # fs \<Rightarrow>
          (case send_part mbox HEAD (fr_buf f) s of
             None \<Rightarrow> None
           | Some (ret, s1) \<Rightarrow>
               if ret \<noteq> int HEAD then Some (nat ret, s1)
               else (case (Message_get_first_data_ptr msg, Message_get_first_data_len msg) of
                   (Some ptr, Some len) \<Rightarrow>
                     (case send_part mbox len ptr s1 of
                        None \<Rightarrow> None
                      | Some (ret2, s2) \<Rightarrow>
                          if ret2 \<noteq> int len then Some (HEAD + nat ret2, s2)
                          else map_option (\<lambda>(n, s3). (HEAD + len + n, s3)) (write_elements mbox fs s2))
                 | _ \<Rightarrow> None)))"

text \<open>
  \<open>needed\<close> counts the queues that the message was put into: the first one takes the message
  itself, the others copies.
\<close>

definition link_message :: "nat \<Rightarrow> message \<Rightarrow> nat \<Rightarrow> nat \<Rightarrow> sess_state \<Rightarrow> nat \<times> sess_state" where
  "link_message i msg len_sent needed s =
     (let tmp = (if needed > 0 then Message_copy_message msg else msg); c = slots s i; m = cl_mbox c
      in (Suc needed,
          if cl_num_mess c = 0
          then semit [Queued Sess_badger_handler m Badger_timeout, Attached m WRITE_FD Sess_badger_handler]
                 (upd i (\<lambda>c. c\<lparr>cl_queue := [tmp], cl_num_mess := cl_num_mess c + 1,
                              cl_write := Message_calculate_current_location tmp len_sent (cl_write c)\<rparr>) s)
          else upd i (\<lambda>c. c\<lparr>cl_queue := cl_queue c @ [tmp], cl_num_mess := cl_num_mess c + 1\<rparr>) s))"

definition total_to_send :: "message \<Rightarrow> nat" where
  "total_to_send msg = sum_list (map fr_len msg)"

definition Sess_write_msg :: "nat \<Rightarrow> message \<Rightarrow> nat \<Rightarrow> sess_state \<Rightarrow> (nat \<times> sess_state) option" where
  "Sess_write_msg i msg needed s =
     (let m = cl_mbox (slots s i)
      in if \<not> Is_op_session (slots s i) then Some (needed, s)
         else if cl_num_mess (slots s i) \<ge> max_session_messages s then map_option (Pair needed) (Sess_kill m s)
         else (case (if cl_num_mess (slots s i) > 0 then Sess_badger m s else Some s) of
                 None \<Rightarrow> None
               | Some s1 \<Rightarrow>
                   (case (if cl_num_mess (slots s1 i) = 0 then write_message m msg s1 else Some (0, s1)) of
                      None \<Rightarrow> None
                    | Some (len_sent, s2) \<Rightarrow>
                        Some (if len_sent < total_to_send msg then link_message i msg len_sent needed s2
                              else (needed, s2)))))"

end
