(* ===== verification/SessDeliver.thy ===== *)
theory SessDeliver
  imports SessWrite
begin

text \<open>
  Messages that the protocol delivers, \<open>daemon/session.c\<close>: joins, leaves, disconnections and groups
  messages go to the groups, which see the sorted list of the sessions, and what they write to
  the members of a group goes to their sessions. Other messages are written to the sessions of
  the groups they were sent to.
\<close>

section \<open>What the groups write\<close>

definition message_with_head :: "message_header \<Rightarrow> message" where
  "message_with_head h = [\<lparr>fr_buf = write_head h, fr_len = HEAD\<rparr>]"

definition vs_set_bytes :: "string list \<Rightarrow> 8 word list" where
  "vs_set_bytes nms = put32 (of_nat (length nms)) @ concat (map put_name nms)"

definition memb_mess_bytes :: "memb_mess \<Rightarrow> 8 word list" where
  "memb_mess_bytes m =
     concat (map put_name (mm_members m)) @ put_grp_id (mm_grp_id m) @ put32 (of_nat (length (mm_vs_sets m))) @
     put32 (word_of_int (mm_offset m)) @ concat (map vs_set_bytes (mm_vs_sets m))"

text \<open>The message objects that \<open>groups.c\<close> builds.\<close>

definition client_message :: "client_mess \<Rightarrow> message option" where
  "client_message c =
     (case c of
        Reg_memb_mess m \<Rightarrow>
          Message_Buffer_to_Message_Fragments
            (message_with_head \<lparr>mh_type = Set_endian REG_MEMB_MESS OR mm_caused m, private_group_name = put_name (mm_group m),
               num_groups = mm_num_groups m, hint = Set_endian 0, mh_data_len = data_len m\<rparr>)
            (memb_mess_bytes m)
      | Transition_mess nm gid \<Rightarrow>
          Some [\<lparr>fr_buf = write_head \<lparr>mh_type = Set_endian TRANSITION_MESS, private_group_name = put_name nm,
                   num_groups = 0, hint = Set_endian 0, mh_data_len = 12\<rparr> @ put_grp_id gid,
                 fr_len = HEAD + 12\<rparr>]
      | Self_leave_mess nm \<Rightarrow>
          Message_Buffer_to_Message_Fragments
            (message_with_head \<lparr>mh_type = Set_endian CAUSED_BY_LEAVE, private_group_name = put_name nm,
               num_groups = 0, hint = Set_endian 0, mh_data_len = 0\<rparr>) [])"

text \<open>
  The groups write the same message to several sessions; a queue takes the message itself or a
  copy of it, which are the same here.
\<close>

fun do_group_actions :: "group_action list \<Rightarrow> sess_state \<Rightarrow> sess_state option" where
  "do_group_actions [] s = Some s"
| "do_group_actions (a # as) s =
     (case (case a of
              Sess_write m c \<Rightarrow>
                (case (Sess_get_session_index_tab m s, client_message c) of
                   (Some (Some i), Some msg) \<Rightarrow> map_option snd (Sess_write_msg i msg 0 s)
                 | _ \<Rightarrow> None)
            | GroupsState.Session_threshold p \<Rightarrow> Some (Sess_set_active_threshold (s\<lparr>Session_threshold := p\<rparr>))
            | _ \<Rightarrow> Some (semit [Groups_do a] s)) of
        None \<Rightarrow> None
      | Some s1 \<Rightarrow> do_group_actions as s1)"

text \<open>A call of the groups, with the sessions as they are.\<close>

definition with_groups :: "(groups_state \<Rightarrow> groups_state option) \<Rightarrow> sess_state \<Rightarrow> sess_state option" where
  "with_groups f s =
     (case Sessions_list s of
        None \<Rightarrow> None
      | Some l \<Rightarrow>
          (case f ((Grp s)\<lparr>Sessions := l, g_out := []\<rparr>) of
             None \<Rightarrow> None
           | Some g \<Rightarrow> do_group_actions (g_out g) (s\<lparr>Grp := g\<lparr>g_out := []\<rparr>\<rparr>)))"

section \<open>Joining, leaving, disconnecting\<close>

definition head_name :: "message_header \<Rightarrow> string" where
  "head_name h = get_name (private_group_name h)"

text \<open>A string in a buffer; it may not run into what was not written.\<close>

definition c_string :: "8 word list \<Rightarrow> string option" where
  "c_string bs = (if 0 \<in> set bs then Some (string_of (takeWhile (\<lambda>b. b \<noteq> 0) bs)) else None)"

definition group_name_of :: "message \<Rightarrow> string option" where
  "group_name_of msg = (case Message_get_first_group msg of None \<Rightarrow> None | Some bs \<Rightarrow> c_string bs)"

text \<open>A group's name is copied with \<open>strcpy\<close> when the group is new, which a name that does not fit
  always is.\<close>

definition Sess_handle_join :: "message \<Rightarrow> sess_state \<Rightarrow> sess_state option" where
  "Sess_handle_join msg s =
     (case (Message_get_message_header msg, group_name_of msg) of
        (Some h, Some group_name) \<Rightarrow>
          if length group_name \<ge> MAX_GROUP_NAME then None
          else with_groups (G_handle_join (head_name h) group_name) s
      | _ \<Rightarrow> None)"

definition Sess_handle_leave :: "message \<Rightarrow> sess_state \<Rightarrow> sess_state option" where
  "Sess_handle_leave msg s =
     (case (Message_get_message_header msg, group_name_of msg) of
        (Some h, Some group_name) \<Rightarrow> with_groups (G_handle_leave (head_name h) group_name) s
      | _ \<Rightarrow> None)"

definition Sess_handle_kill :: "message \<Rightarrow> sess_state \<Rightarrow> sess_state option" where
  "Sess_handle_kill msg s =
     (case Message_get_message_header msg of
        None \<Rightarrow> None
      | Some h \<Rightarrow>
          (case G_private_to_names (head_name h) of
             None \<Rightarrow> None
           | Some (private_name, proc_name) \<Rightarrow>
               (case with_groups (G_handle_kill (head_name h)) s of
                  None \<Rightarrow> None
                | Some s1 \<Rightarrow>
                    if p_name (Sess_My s1) \<noteq> proc_name then Some s1
                    else (case Sess_get_session_tab private_name s1 of
                            None \<Rightarrow> None
                          | Some None \<Rightarrow> Some s1
                          | Some (Some i) \<Rightarrow>
                              if Is_op_session (slots s1 i) then None
                              else (case Sess_unhash_session i s1 of
                                      None \<Rightarrow> None
                                    | Some s2 \<Rightarrow>
                                        Some ((Sess_remove_session i s2)\<lparr>Num_sessions := Num_sessions s2 - 1\<rparr>))))))"

section \<open>Delivery\<close>

text \<open>A groups message, whose count of daemons is in the last four bytes of its name field.\<close>

definition groups_mess_of :: "message_header \<Rightarrow> message \<Rightarrow> groups_mess" where
  "groups_mess_of h msg =
     \<lparr>gm_type = mh_type h, gm_proc_name = head_name h, gm_num_daemons = get32 (drop 28 (private_group_name h)),
      gm_data = drop HEAD (msg_bytes msg)\<rparr>"

fun names_of :: "nat \<Rightarrow> 8 word list \<Rightarrow> string list option" where
  "names_of 0 bs = Some []"
| "names_of (Suc n) bs =
     (if length bs < 32 then None else map_option ((#) (get_name bs)) (names_of n (drop 32 bs)))"

text \<open>The sessions a message goes to, -1 for none; the groups find them by their mailboxes.\<close>

definition target_sessions :: "message_header \<Rightarrow> message \<Rightarrow> sess_state \<Rightarrow> nat option list option" where
  "target_sessions h msg s =
     (if Is_type REJECT_MESS (mh_type h)
      then (case G_private_to_names (head_name h) of
              None \<Rightarrow> None
            | Some (private_name, proc_name) \<Rightarrow> map_option (\<lambda>r. [r]) (Sess_get_session_tab private_name s))
      else (case (Message_get_groups_array msg, Sessions_list s) of
              (Some bs, Some l) \<Rightarrow>
                (case names_of (nat (num_groups h)) bs of
                   None \<Rightarrow> None
                 | Some nms \<Rightarrow>
                     (case G_analize_groups nms ((Grp s)\<lparr>Sessions := l\<rparr>) of
                        None \<Rightarrow> None
                      | Some xs \<Rightarrow>
                          those (map (\<lambda>x. case x of None \<Rightarrow> Some None
                                          | Some y \<Rightarrow> Sess_get_session_index_tab (ses_mbox y) s) xs)))
            | _ \<Rightarrow> None))"

text \<open>The sender's own session, if it does not want the message back; -1 equals the index of a
  target that was not found.\<close>

definition source_session :: "message_header \<Rightarrow> nat option list \<Rightarrow> sess_state \<Rightarrow> nat option option" where
  "source_session h targets s =
     (if targets \<noteq> [] \<and> Is_type SELF_DISCARD (mh_type h)
      then (case G_private_to_names (head_name h) of
              None \<Rightarrow> None
            | Some (private_name, proc_name) \<Rightarrow>
                if p_name (Sess_My s) = proc_name then Sess_get_session_tab private_name s else Some None)
      else Some None)"

fun write_targets ::
  "nat option \<Rightarrow> message \<Rightarrow> nat option list \<Rightarrow> nat \<Rightarrow> sess_state \<Rightarrow> sess_state option" where
  "write_targets source msg [] needed s = Some s"
| "write_targets source msg (t # ts) needed s =
     (if source = t then write_targets source msg ts needed s
      else case t of
        None \<Rightarrow> None
      | Some i \<Rightarrow>
          (case Sess_write_msg i msg needed s of
             None \<Rightarrow> None
           | Some (needed', s1) \<Rightarrow> write_targets source msg ts needed' s1))"

definition deliver_regular :: "message_header \<Rightarrow> message \<Rightarrow> sess_state \<Rightarrow> sess_state option" where
  "deliver_regular h msg s =
     (let h1 = h\<lparr>mh_type := Set_endian (mh_type h)\<rparr>; msg1 = set_head h1 msg
      in case target_sessions h1 msg1 s of
           None \<Rightarrow> None
         | Some targets \<Rightarrow>
             (case source_session h1 targets s of
                None \<Rightarrow> None
              | Some source \<Rightarrow> write_targets source msg1 targets 0 s))"

definition Sess_deliver_message :: "message \<Rightarrow> sess_state \<Rightarrow> sess_state option" where
  "Sess_deliver_message msg0 s =
     (case Message_endian_correct_message_header msg0 of
        None \<Rightarrow> None
      | Some msg \<Rightarrow>
          (case Message_get_message_header msg of
             None \<Rightarrow> None
           | Some h \<Rightarrow>
               if Is_type JOIN_MESS (mh_type h) then Sess_handle_join msg s
               else if Is_type LEAVE_MESS (mh_type h) then Sess_handle_leave msg s
               else if Is_type KILL_MESS (mh_type h) then Sess_handle_kill msg s
               else if Is_type GROUPS_MESS (mh_type h) then with_groups (G_handle_groups (groups_mess_of h msg)) s
               else deliver_regular h msg s))"

definition Sess_deliver_reg_memb :: "configuration \<Rightarrow> membership_id \<Rightarrow> sess_state \<Rightarrow> sess_state option" where
  "Sess_deliver_reg_memb reg_memb reg_memb_id = with_groups (G_handle_reg_memb reg_memb reg_memb_id)"

definition Sess_deliver_trans_memb :: "configuration \<Rightarrow> membership_id \<Rightarrow> sess_state \<Rightarrow> sess_state option" where
  "Sess_deliver_trans_memb trans_memb trans_memb_id = with_groups (G_handle_trans_memb trans_memb trans_memb_id)"

end
