(* ===== verification/SessConnect.thy ===== *)
theory SessConnect
  imports SessState
begin

text \<open>
  How a client connects, \<open>daemon/session.c\<close>: the accepted mailbox waits in the template, the
  connect message is read and checked, the session is put into the table without being in
  operation, and it is authorized or denied when its authentication has ended.
\<close>

abbreviation (input) TMPL :: nat where "TMPL \<equiv> MAX_SESSIONS"

section \<open>Accepting\<close>

text \<open>\<open>accepted\<close> is the result of \<open>accept\<close>: the new mailbox, -1 for an error, and the address of
  the peer.\<close>

definition Sess_accept :: "bool \<Rightarrow> int \<Rightarrow> 32 word option \<Rightarrow> sess_state \<Rightarrow> sess_state option" where
  "Sess_accept is_unix accepted addr s =
     (let s1 = upd TMPL (\<lambda>c. c\<lparr>cl_addr := if is_unix then None else addr, cl_mbox := accepted\<rparr>) s
      in if accepted = -1 then Some s1
         else if Num_sessions s \<ge> int MAX_SESSIONS then Some (refuse accepted REJECT_QUOTA s1)
         else (case Sess_get_session_index_tab accepted s1 of
                 None \<Rightarrow> None
               | Some r \<Rightarrow>
                   if (case r of None \<Rightarrow> False | Some i \<Rightarrow> Is_op_session (slots s1 i)) then None
                   else Some (semit [Attached accepted READ_FD Sess_accept_continue_handler,
                                     Attached accepted EXCEPT_FD Sess_accept_continue_handler,
                                     Queued Sess_accept_continue_handler 1 \<lparr>sec = 1, usec = 0\<rparr>]
                           (Sess_detach_accept s1))))"

section \<open>Authorized or denied\<close>

definition Sess_session_denied :: "nat \<Rightarrow> sess_state \<Rightarrow> sess_state option" where
  "Sess_session_denied i s =
     (if \<not> Is_preauth_session (slots s i) then None
      else case Sess_unhash_session i (send_code (cl_mbox (slots s i)) REJECT_AUTH s) of
        None \<Rightarrow> None
      | Some s1 \<Rightarrow> Some ((Sess_remove_session i s1)\<lparr>Num_sessions := Num_sessions s1 - 1\<rparr>))"

definition version_number :: "int \<times> int \<times> int \<Rightarrow> int" where
  "version_number v = (case v of (a, b, c) \<Rightarrow> a * 10000 + b * 100 + c)"

definition authorize :: "client \<Rightarrow> client" where
  "authorize c =
     (clear_status PRE_AUTH_SESSION (set_status OP_SESSION c))
       \<lparr>cl_read := (Message_reset_current_location (cl_read c))\<lparr>in_mess_head := True\<rparr>,
        cl_write := Message_reset_current_location (cl_write c)\<rparr>"

definition Sess_session_authorized :: "nat \<Rightarrow> sess_state \<Rightarrow> sess_state option" where
  "Sess_session_authorized i s =
     (if \<not> Is_preauth_session (slots s i) then None
      else
        let c = slots s i; m = cl_mbox c; pg = private_group (cl_name c) (p_name (Sess_My s));
            s1 = send_code m SP_MINOR_VERSION (send_code m SP_MAJOR_VERSION (send_code m ACCEPT_SESSION
                   (upd i (\<lambda>c. c\<lparr>cl_num_mess := 0\<rparr>) s)));
            s2 = (if version_number (lib_version c) \<ge> 31500 then send_code m SP_PATCH_VERSION s1 else s1);
            s3 = send_ignored m (chars pg) (send_code m (int (length pg)) s2)
        in Some (upd i authorize (semit [Attached m READ_FD Sess_read_handler, Attached m EXCEPT_FD Sess_read_handler] s3)))"

section \<open>Authentication\<close>

text \<open>What the module of a method reports about a session; \<open>No_auth\<close> calls a null pointer.\<close>

definition module_decision :: "auth_module \<Rightarrow> int \<Rightarrow> sess_state \<Rightarrow> bool option" where
  "module_decision m mbox s =
     (case m of
        Null_auth \<Rightarrow> Some True
      | Ip_auth \<Rightarrow>
          if \<not> IP_File_Loaded (Acl s) then Some False
          else (case Sess_get_session_index_tab mbox s of
                  Some (Some i) \<Rightarrow> ip_auth_decision (cl_addr (slots s i)) (Acl s)
                | _ \<Rightarrow> None)
      | No_auth \<Rightarrow> None)"

text \<open>The methods are called one after the other; each reports its result here.\<close>

function Sess_session_report_auth_result ::
  "session_auth_info \<Rightarrow> bool \<Rightarrow> sess_state \<Rightarrow> sess_state option" where
  "Sess_session_report_auth_result sa authenticated_p s =
     (case Sess_get_session_index_tab (sa_mbox sa) s of
        None \<Rightarrow> None
      | Some None \<Rightarrow> Some s
      | Some (Some i) \<Rightarrow>
          let k = completed_required_auths sa;
              num_auths = length (required_auth_methods sa);
              sa1 = sa\<lparr>required_auth_results := (required_auth_results sa)[k := authenticated_p],
                       completed_required_auths := Suc k\<rparr>
          in if Suc k < num_auths
             then (case Acm_auth_get_auth_client_connection (required_auth_methods sa ! Suc k) (Acl s) of
                     None \<Rightarrow> None
                   | Some auth_open \<Rightarrow>
                       if auth_open = No_auth then Sess_session_denied i s
                       else (case module_decision auth_open (sa_mbox sa) s of
                               None \<Rightarrow> None
                             | Some res \<Rightarrow> Sess_session_report_auth_result sa1 res s))
             else if \<not> list_all id (take num_auths (required_auth_results sa1)) then Sess_session_denied i s
             else if \<not> open_connection (cl_acp_ops (slots s i)) (cl_name (slots s i)) then Sess_session_denied i s
             else Sess_session_authorized i s)"
  by pat_completeness auto
termination
  by (relation "measure (\<lambda>(sa, _, _). length (required_auth_methods sa) - completed_required_auths sa)") auto

declare Sess_session_report_auth_result.simps [simp del]

definition auth_open :: "auth_module \<Rightarrow> session_auth_info \<Rightarrow> sess_state \<Rightarrow> sess_state option" where
  "auth_open m sa s =
     (case module_decision m (sa_mbox sa) s of
        None \<Rightarrow> None
      | Some res \<Rightarrow> Sess_session_report_auth_result sa res s)"

text \<open>The check of the names that a client sends; the third one has to be followed by an end.\<close>

fun names_allowed :: "nat \<Rightarrow> nat \<Rightarrow> 8 word list \<Rightarrow> acm \<Rightarrow> bool option" where
  "names_allowed 0 i bs a = None"
| "names_allowed (Suc n) i bs a =
     (if auth_entry i bs = [] then Some True
      else if \<not> Acm_auth_query_allowed (auth_entry i bs) a then Some False
      else names_allowed n (Suc i) bs a)"

definition Sess_recv_client_auth :: "int \<Rightarrow> sess_state \<Rightarrow> sess_state option" where
  "Sess_recv_client_auth mbox s =
     (case Sess_get_session_index_tab mbox s of
        None \<Rightarrow> None
      | Some None \<Rightarrow> Some s
      | Some (Some i) \<Rightarrow>
          if \<not> Is_preauth_session (slots s i) then None
          else
            (case recv (MAX_AUTH_NAME * MAX_AUTH_METHODS) (semit [Detached mbox READ_FD, Detached mbox EXCEPT_FD] s) of
               (Data bs, s1) \<Rightarrow>
                 if length bs < MAX_AUTH_NAME * MAX_AUTH_METHODS then Sess_session_denied i s1
                 else (case names_allowed MAX_AUTH_METHODS 0 bs (Acl s) of
                         None \<Rightarrow> None
                       | Some False \<Rightarrow> Sess_session_denied i s1
                       | Some True \<Rightarrow>
                           (case Acm_acp_fill_ops (Acl s) of
                              None \<Rightarrow> None
                            | Some ops \<Rightarrow>
                                let s2 = upd i (\<lambda>c. c\<lparr>cl_acp_ops := ops\<rparr>) s1
                                in case Acm_auth_create_sess_info mbox bs (Acl s) of
                                     None \<Rightarrow> None
                                   | Some None \<Rightarrow> Sess_session_denied i s2
                                   | Some (Some sa) \<Rightarrow>
                                       (case Acm_auth_get_auth_client_connection (hd (required_auth_methods sa)) (Acl s) of
                                          None \<Rightarrow> None
                                        | Some m \<Rightarrow> if m = No_auth then Sess_session_denied i s2 else auth_open m sa s2)))
             | (_, s1) \<Rightarrow> Sess_session_denied i s1))"

section \<open>The connect message\<close>

text \<open>A \<open>char\<close> is signed. Reading exactly \<open>n\<close> of them fails if less are there.\<close>

definition recv_chars :: "nat \<Rightarrow> sess_state \<Rightarrow> int list option \<times> sess_state" where
  "recv_chars n s =
     (case recv n s of
        (Data bs, s1) \<Rightarrow> (if length bs = n then Some (map sint bs) else None, s1)
      | (_, s1) \<Rightarrow> (None, s1))"

text \<open>The version of the library; its third part is sent from version 3.15 on. \<open>None\<close> is a
  failed read.\<close>

definition recv_version :: "sess_state \<Rightarrow> (int \<times> int \<times> int) option \<times> sess_state" where
  "recv_version s =
     (case recv_chars 2 s of
        (Some [a, b], s1) \<Rightarrow>
          if version_number (a, b, 0) > 31400
          then (case recv_chars 1 s1 of
                  (Some [c], s2) \<Rightarrow> (Some (a, b, c), s2)
                | (_, s2) \<Rightarrow> (None, s2))
          else (Some (a, b, 0), s1)
      | (_, s1) \<Rightarrow> (None, s1))"

definition digit :: "nat \<Rightarrow> char" where
  "digit d = char_of (48 + d)"

fun decimal :: "nat \<Rightarrow> string" where
  "decimal n = (if n < 10 then [digit n] else decimal (n div 10) @ [digit (n mod 10)])"

text \<open>
  A random name, cut by \<open>snprintf\<close>; another one is drawn while it is taken. \<open>draws\<close> holds the
  random numbers below 9999 that are drawn, and \<open>None\<close> is a loop that did not end with them.
\<close>

definition random_name :: "nat \<Rightarrow> int \<Rightarrow> string" where
  "random_name rnum mbox = take 9 (''r'' @ decimal rnum @ ''-'' @ decimal (unat (word_of_int mbox :: 32 word)))"

fun draw_name :: "nat list \<Rightarrow> int \<Rightarrow> sess_state \<Rightarrow> (string \<times> nat option \<times> nat list) option" where
  "draw_name [] mbox s = None"
| "draw_name (r # rs) mbox s =
     (case find_place (random_name r mbox) s of
        None \<Rightarrow> None
      | Some (place, unique) \<Rightarrow>
          if unique then Some (random_name r mbox, place, rs) else draw_name rs mbox s)"

text \<open>The name of the session and its place: \<open>Inl\<close> has the response to a client that is refused,
  0 where the mailbox is closed without one.\<close>

definition private_name_of :: "int \<Rightarrow> int \<Rightarrow> sess_state \<Rightarrow> (int + (string \<times> nat option)) option \<times> sess_state" where
  "private_name_of mbox name_len s =
     (if name_len = 0
      then (case draw_name (draws s) mbox s of
              None \<Rightarrow> (None, s)
            | Some (nm, place, rs) \<Rightarrow> (Some (Inr (nm, place)), s\<lparr>draws := rs\<rparr>))
      else (case recv MAX_PRIVATE_NAME s of
              (Data bs, s1) \<Rightarrow>
                if int (length bs) \<noteq> name_len then (Some (Inl REJECT_ILLEGAL_NAME), s1)
                else if \<not> list_all legal_char (string_of bs) then (Some (Inl REJECT_ILLEGAL_NAME), s1)
                else (case find_place (string_of bs) s1 of
                        None \<Rightarrow> (None, s1)
                      | Some (place, unique) \<Rightarrow>
                          (Some (if unique then Inr (string_of bs, place) else Inl REJECT_NOT_UNIQUE), s1))
            | (_, s1) \<Rightarrow> (Some (Inl 0), s1)))"

text \<open>An old library cannot authenticate: it is accepted by its address, or when \<open>NULL\<close> is
  allowed.\<close>

definition admit_old :: "nat \<Rightarrow> sess_state \<Rightarrow> sess_state option" where
  "admit_old i s =
     (case Acm_acp_fill_ops (Acl s) of
        None \<Rightarrow> None
      | Some ops \<Rightarrow>
          let s1 = upd i (\<lambda>c. c\<lparr>cl_acp_ops := ops\<rparr>) s
          in if Acm_auth_query_allowed ''IP'' (Acl s)
             then (case Acm_auth_get_auth_client_connection_byname ''IP'' (Acl s) of
                     None \<Rightarrow> None
                   | Some m \<Rightarrow> auth_open m (Acm_auth_create_sess_info_forIP (cl_mbox (slots s i)) (Acl s)) s1)
             else if Acm_auth_query_allowed ''NULL'' (Acl s) then Sess_session_authorized i s1
             else Sess_session_denied i s1)"

definition admit :: "nat \<Rightarrow> int \<times> int \<times> int \<Rightarrow> sess_state \<Rightarrow> sess_state option" where
  "admit i version s =
     (if version_number version < 31600 then admit_old i s
      else
        let m = cl_mbox (slots s i); allowed = Acm_auth_get_allowed_list (Acl s);
            s1 = send_ignored m (chars allowed) (send_code m (int (length allowed)) s)
        in if allowed = [] then Sess_session_denied i s1
           else Some (semit [Attached m READ_FD Sess_recv_client_auth_handler,
                             Attached m EXCEPT_FD Sess_recv_client_auth_handler] s1))"

definition enter_session :: "nat option \<Rightarrow> int \<times> int \<times> int \<Rightarrow> sess_state \<Rightarrow> sess_state option" where
  "enter_session place version s =
     (case Sess_insert_new_session place TMPL s of
        None \<Rightarrow> None
      | Some (i, s1) \<Rightarrow>
          admit i version (Sess_hash_session i
            (upd i (set_status PRE_AUTH_SESSION) (s1\<lparr>Num_sessions := Num_sessions s1 + 1\<rparr>))))"

definition Sess_accept_continue :: "sess_state \<Rightarrow> sess_state option" where
  "Sess_accept_continue s =
     (let m = cl_mbox (slots s TMPL);
          s0 = Sess_attach_accept (semit [Dequeued Sess_accept_continue_handler 1, Detached m READ_FD, Detached m EXCEPT_FD] s)
      in case recv_version s0 of
           (None, s1) \<Rightarrow> Some (close_mbox m s1)
         | (Some version, s1) \<Rightarrow>
             if version_number version < 30100 then Some (refuse m REJECT_VERSION s1)
             else (case recv_chars 2 s1 of
                 (Some [conn, name_len], s2) \<Rightarrow>
                   let s3 = upd TMPL (\<lambda>c. (if conn mod 2 = 1 \<and> conn > 0 then set_status MEMB_SESSION c else clear_status MEMB_SESSION c)
                              \<lparr>lib_version := version, cl_priority := (if conn < 0 then - (- conn div 16) else conn div 16)\<rparr>) s2
                   in if name_len > int MAX_PRIVATE_NAME \<or> name_len < 0 then Some (refuse m REJECT_ILLEGAL_NAME s3)
                      else (case private_name_of m name_len s3 of
                          (None, _) \<Rightarrow> None
                        | (Some (Inl code), s4) \<Rightarrow> Some (if code = 0 then close_mbox m s4 else refuse m code s4)
                        | (Some (Inr (nm, place)), s4) \<Rightarrow>
                            enter_session place version (upd TMPL (\<lambda>c. c\<lparr>cl_name := nm\<rparr>) s4))
               | (_, s2) \<Rightarrow> Some (close_mbox m (upd TMPL (\<lambda>c. c\<lparr>lib_version := version\<rparr>) s2))))"

end
