(* ===== verification/SessRead.thy ===== *)
theory SessRead
  imports SessDeliver SessConnect
begin

text \<open>
  Reading from the clients, \<open>daemon/session.c\<close>: a message comes in pieces, its header is checked as
  soon as it is complete, its body is put into fragments, and the complete message is checked
  by the access control policy and given to the protocol.
\<close>

section \<open>The header\<close>

text \<open>The bits from \<open>first_index\<close> up to, but without, \<open>last_index\<close>.\<close>

definition count_bits_set :: "32 word \<Rightarrow> nat \<Rightarrow> nat \<Rightarrow> nat" where
  "count_bits_set field first_index last_index =
     length (filter (\<lambda>i. bit field i) [first_index..<last_index])"

text \<open>The name is terminated before it is looked at.\<close>

definition terminate_name :: "message_header \<Rightarrow> message_header" where
  "terminate_name h = h\<lparr>private_group_name := take 31 (private_group_name h) @ [0]\<rparr>"

text \<open>The header as the check leaves it, or that it is refused.\<close>

definition Sess_validate_read_header :: "nat \<Rightarrow> message_header \<Rightarrow> sess_state \<Rightarrow> message_header option" where
  "Sess_validate_read_header ses h0 s =
     (let type_bits = count_bits_set (mh_type h0) 0 6; memb_bits = count_bits_set (mh_type h0) 16 19;
          h = terminate_name h0
      in if type_bits > 1 \<or> memb_bits > 1 \<or> type_bits + memb_bits \<noteq> 1 then None
         else case G_private_to_names (head_name h) of
           None \<Rightarrow> None
         | Some (private_name, proc_name) \<Rightarrow>
             if strncmp MAX_PROC_NAME proc_name (p_name (Sess_My s)) \<noteq> 0 then None
             else if strncmp MAX_PRIVATE_NAME private_name (cl_name (slots s ses)) \<noteq> 0 then None
             else if num_groups h < 0 \<or> num_groups h > MAX_GROUPS_PER_MESSAGE then None
             else if hint h AND NOT (0x80000080 OR 0x00ffff00) \<noteq> 0 then None
             else if mh_data_len h < 0 \<or> mh_data_len h > MAX_MESSAGE_BODY_LEN then None
             else if mh_data_len h + 32 * num_groups h > MAX_MESSAGE_BODY_LEN - int HEAD then None
             else Some h)"

section \<open>Reading a message\<close>

text \<open>
  What one call does with the bytes that are there: it waits for more, has to kill the session,
  or has a complete message. The bytes read so far are kept in the session.
\<close>

datatype reading = Waiting | Broken | Complete message

definition write_at :: "nat \<Rightarrow> 8 word list \<Rightarrow> 8 word list \<Rightarrow> 8 word list option" where
  "write_at k bs buf = (if k > length buf then None else Some (take k buf @ bs @ drop (k + length bs) buf))"

definition store :: "nat \<Rightarrow> nat \<Rightarrow> 8 word list \<Rightarrow> message \<Rightarrow> message option" where
  "store e k bs msg =
     (if e \<ge> length msg then None
      else map_option (\<lambda>b. msg[e := (msg ! e)\<lparr>fr_buf := b\<rparr>]) (write_at k bs (fr_buf (msg ! e))))"

definition set_reading :: "nat \<Rightarrow> partial_message_info \<Rightarrow> message option \<Rightarrow> sess_state \<Rightarrow> sess_state" where
  "set_reading i p m s = upd i (\<lambda>c. c\<lparr>cl_read := p, cl_read_mess := m\<rparr>) s"

text \<open>The header is brought into the order of this host, marked so, and checked.\<close>

definition finish_header :: "nat \<Rightarrow> message \<Rightarrow> sess_state \<Rightarrow> (message + message) option" where
  "finish_header i msg s =
     (case Message_get_message_header msg of
        None \<Rightarrow> None
      | Some h0 \<Rightarrow>
          let h1 = (if Same_endian (mh_type h0) then h0 else Flip_mess h0);
              h2 = h1\<lparr>mh_type := Set_endian (mh_type h1)\<rparr>
          in Some (case Sess_validate_read_header i h2 s of
                     None \<Rightarrow> Inl (set_head h2 msg)
                   | Some h3 \<Rightarrow> Inr (set_head h3 msg)))"

text \<open>\<open>Inl\<close> is the result of a call that ends here, \<open>Inr\<close> the message to read the body of.\<close>

definition read_header ::
  "nat \<Rightarrow> partial_message_info \<Rightarrow> message \<Rightarrow> sess_state \<Rightarrow>
     (reading + (partial_message_info \<times> message)) option \<times> sess_state" where
  "read_header i p msg s =
     (if \<not> in_mess_head p then (Some (Inr (p, msg)), s)
      else if cur_byte p > HEAD then (None, s)
      else
        (case recv (HEAD - cur_byte p) s of
           (Data bs, s1) \<Rightarrow>
             if bs = [] then (Some (Inl Broken), set_reading i p (Some msg) s1)
             else (case store 0 (cur_byte p) bs msg of
                 None \<Rightarrow> (None, s1)
               | Some msg1 \<Rightarrow>
                   let p1 = p\<lparr>cur_byte := cur_byte p + length bs\<rparr>
                   in if length bs = HEAD - cur_byte p
                      then (case finish_header i msg1 s1 of
                              None \<Rightarrow> (None, s1)
                            | Some (Inl msg2) \<Rightarrow>
                                (Some (Inl Broken), set_reading i (Message_set_location_begin_body p1) (Some msg2) s1)
                            | Some (Inr msg2) \<Rightarrow> (Some (Inr (Message_set_location_begin_body p1, msg2)), s1))
                      else (Some (Inl Waiting), set_reading i p1 (Some msg1) s1))
         | (Would_block, s1) \<Rightarrow> (Some (Inl Waiting), set_reading i p (Some msg) s1)
         | (Recv_error, s1) \<Rightarrow> (Some (Inl Broken), set_reading i p (Some msg) s1)))"

text \<open>
  A round of the loop over the fragments, with \<open>remain\<close> bytes missing: \<open>Inr\<close> goes on behind the
  bytes that were read. A fragment that is full when it is read would be an endless loop.
\<close>

definition body_round ::
  "nat \<Rightarrow> nat \<Rightarrow> partial_message_info \<Rightarrow> message \<Rightarrow> sess_state \<Rightarrow>
     (reading option \<times> sess_state) + (nat \<times> partial_message_info \<times> message \<times> sess_state)" where
  "body_round i remain p msg s =
     (if cur_byte p \<ge> FRAG \<or> cur_element p \<ge> length msg \<and> cur_byte p \<noteq> 0 then Inl (None, s)
      else
        (case (if cur_element p \<ge> length msg then Message_add_scat_element msg else Some msg) of
           None \<Rightarrow> Inl (None, s)
         | Some msg1 \<Rightarrow>
             let to_read = min (FRAG - cur_byte p) remain
             in (case recv to_read s of
                   (Data bs, s1) \<Rightarrow>
                     if bs = [] then Inl (Some Broken, set_reading i p (Some msg1) s1)
                     else (case store (cur_element p) (cur_byte p) bs msg1 of
                         None \<Rightarrow> Inl (None, s1)
                       | Some msg2 \<Rightarrow>
                           if length bs = to_read
                           then Inr (length bs,
                                  p\<lparr>cur_byte := 0, cur_element := Suc (cur_element p), total_bytes := total_bytes p + length bs\<rparr>,
                                  msg2, s1)
                           else Inl (Some Waiting,
                                 set_reading i (p\<lparr>cur_byte := cur_byte p + length bs, total_bytes := total_bytes p + length bs\<rparr>)
                                   (Some msg2) s1))
                 | (Would_block, s1) \<Rightarrow> Inl (Some Waiting, set_reading i p (Some msg1) s1)
                 | (Recv_error, s1) \<Rightarrow> Inl (Some Broken, set_reading i p (Some msg1) s1))))"

lemma body_round_reads: "body_round i remain p msg s = Inr (n, r) \<Longrightarrow> 0 < n"
  by (auto simp: body_round_def Let_def split: if_splits option.splits prod.splits recv_result.splits)

function read_body ::
  "nat \<Rightarrow> nat \<Rightarrow> partial_message_info \<Rightarrow> message \<Rightarrow> sess_state \<Rightarrow> reading option \<times> sess_state" where
  "read_body i remain p msg s =
     (if remain = 0
      then (map_option Complete (Message_element_len_fixup msg),
            set_reading i ((Message_reset_current_location p)\<lparr>in_mess_head := True\<rparr>) None s)
      else (case body_round i remain p msg s of
              Inl r \<Rightarrow> r
            | Inr (n, p1, msg1, s1) \<Rightarrow> read_body i (remain - n) p1 msg1 s1))"
  by pat_completeness auto
termination
  by (relation "measure (\<lambda>(i, remain, _). remain)") (auto dest: body_round_reads)

declare read_body.simps [simp del]

definition read_message :: "nat \<Rightarrow> sess_state \<Rightarrow> reading option \<times> sess_state" where
  "read_message i s =
     (let msg = (case cl_read_mess (slots s i) of None \<Rightarrow> Message_new_message | Some m \<Rightarrow> m)
      in case read_header i (cl_read (slots s i)) msg s of
           (None, s1) \<Rightarrow> (None, s1)
         | (Some (Inl r), s1) \<Rightarrow> (Some r, s1)
         | (Some (Inr (p, msg1)), s1) \<Rightarrow>
             (case Message_get_message_header msg1 of
                None \<Rightarrow> (None, s1)
              | Some h \<Rightarrow> read_body i (nat (mh_data_len h + 32 * num_groups h - int (total_bytes p))) p msg1 s1))"

section \<open>Rejecting a message\<close>

definition Sess_create_reject_message :: "message \<Rightarrow> message option" where
  "Sess_create_reject_message msg =
     (case Message_get_message_header msg of
        None \<Rightarrow> None
      | Some h \<Rightarrow>
          let t = Set_endian REJECT_MESS
          in Message_add_oldtype_to_reject
               (set_head (h\<lparr>mh_type := if Is_type SELF_DISCARD (mh_type h) then t OR SELF_DISCARD else t\<rparr>) msg)
               (mh_type h))"

definition Sess_deliver_reject :: "message \<Rightarrow> sess_state \<Rightarrow> sess_state option" where
  "Sess_deliver_reject msg = Sess_deliver_message msg"

definition reject :: "message \<Rightarrow> sess_state \<Rightarrow> sess_state option" where
  "reject msg s = (case Sess_create_reject_message msg of None \<Rightarrow> None | Some m \<Rightarrow> Sess_deliver_reject m s)"

text \<open>The type that a rejected join or leave is given first.\<close>

definition caused_type :: "32 word \<Rightarrow> 32 word \<Rightarrow> message_header \<Rightarrow> message_header" where
  "caused_type mess caused h = h\<lparr>mh_type := (mh_type h AND NOT mess) OR caused\<rparr>"

section \<open>Access control\<close>

definition Sess_get_p2p_dests :: "string list \<Rightarrow> string list" where
  "Sess_get_p2p_dests groups = filter (\<lambda>g. g \<noteq> [] \<and> hd g = CHR ''#'') groups"

definition mess_type :: "message_header \<Rightarrow> 32 word" where
  "mess_type h = drop_bit 8 (hint h) AND 0x0000ffff"

text \<open>
  Whether the message may go on, or the header that it is rejected with. The outer \<open>None\<close> is
  undefined behaviour.
\<close>

definition check_leave :: "client \<Rightarrow> message_header \<Rightarrow> message \<Rightarrow> message_header option option" where
  "check_leave c h msg =
     (if \<not> Is_type LEAVE_MESS (mh_type h) then Some None
      else map_option (\<lambda>g. if leave_group (cl_acp_ops c) (head_name h) g then None
                           else Some (caused_type LEAVE_MESS CAUSED_BY_LEAVE h))
             (group_name_of msg))"

definition check_join :: "client \<Rightarrow> message_header \<Rightarrow> message \<Rightarrow> groups_state \<Rightarrow> message_header option option" where
  "check_join c h msg g =
     (if \<not> Is_type JOIN_MESS (mh_type h) then Some None
      else map_option (\<lambda>nm. if G_get_num_local nm g = MAX_LOCAL_GROUP_MEMBERS \<or>
                              \<not> join_group (cl_acp_ops c) (head_name h) nm
                            then Some (caused_type JOIN_MESS CAUSED_BY_JOIN h) else None)
             (group_name_of msg))"

definition check_send :: "client \<Rightarrow> message_header \<Rightarrow> message \<Rightarrow> message_header option option" where
  "check_send c h msg =
     (if \<not> Is_only_regular_mess (mh_type h) then Some None
      else (case Message_get_groups_array msg of
              None \<Rightarrow> None
            | Some bs \<Rightarrow>
                (case names_of (nat (num_groups h)) bs of
                   None \<Rightarrow> None
                 | Some groups \<Rightarrow>
                     let dests = Sess_get_p2p_dests groups
                     in Some (if dests \<noteq> [] \<and> \<not> p2p_send (cl_acp_ops c) (head_name h) dests (mh_type h) (mess_type h)
                              then Some h
                              else if num_groups h > int (length dests) \<and>
                                      \<not> mcast_send (cl_acp_ops c) (head_name h) groups (mh_type h) (mess_type h)
                              then Some h else None))))"

section \<open>Sending it on\<close>

definition forward_message :: "nat \<Rightarrow> message_header \<Rightarrow> message \<Rightarrow> sess_state \<Rightarrow> sess_state option" where
  "forward_message i h msg s =
     (let m = cl_mbox (slots s i)
      in case Message_get_packet_type (mh_type h) of
           None \<Rightarrow> Sess_kill m s
         | Some t \<Rightarrow>
             (case (if Is_type KILL_MESS (mh_type h) then Sess_clear_session i s else Some s) of
                None \<Rightarrow> None
              | Some s1 \<Rightarrow> Some (semit [New_message t msg] s1)))"

definition dispatch_message :: "nat \<Rightarrow> message \<Rightarrow> sess_state \<Rightarrow> sess_state option" where
  "dispatch_message i msg s =
     (case Message_get_message_header msg of
        None \<Rightarrow> None
      | Some h \<Rightarrow>
          (case check_leave (slots s i) h msg of
             None \<Rightarrow> None
           | Some (Some h1) \<Rightarrow> reject (set_head h1 msg) s
           | Some None \<Rightarrow>
               (case check_join (slots s i) h msg (Grp s) of
                  None \<Rightarrow> None
                | Some (Some h1) \<Rightarrow> reject (set_head h1 msg) s
                | Some None \<Rightarrow>
                    (case check_send (slots s i) h msg of
                       None \<Rightarrow> None
                     | Some (Some h1) \<Rightarrow> reject msg s
                     | Some None \<Rightarrow> forward_message i h msg s))))"

definition Sess_read :: "int \<Rightarrow> sess_state \<Rightarrow> sess_state option" where
  "Sess_read mbox s =
     (case Sess_get_session_index_tab mbox s of
        None \<Rightarrow> None
      | Some None \<Rightarrow> Some s
      | Some (Some i) \<Rightarrow>
          (case read_message i s of
             (None, _) \<Rightarrow> None
           | (Some Waiting, s1) \<Rightarrow> Some s1
           | (Some Broken, s1) \<Rightarrow> Sess_kill mbox s1
           | (Some (Complete msg), s1) \<Rightarrow> dispatch_message i msg s1))"

end
