(* ===== verification/SessTableInv.thy ===== *)
theory SessTableInv
  imports SessTable
begin

text \<open>
  What the linked structures of the table of sessions stand for: the sorted list and the free
  list share the array between them, and the chain of a hash value holds the sessions whose
  mailbox has that value. The operations on pointers are those on lists and sets.
\<close>

section \<open>Chains of pointers\<close>

fun seg :: "('i \<Rightarrow> 'i option) \<Rightarrow> 'i option \<Rightarrow> 'i list \<Rightarrow> 'i option \<Rightarrow> bool" where
  "seg n p [] q \<longleftrightarrow> p = q"
| "seg n p (x # xs) q \<longleftrightarrow> p = Some x \<and> seg n (n x) xs q"

lemma seg_append [simp]: "seg n p (xs @ ys) q \<longleftrightarrow> (\<exists>r. seg n p xs r \<and> seg n r ys q)"
  by (induction xs arbitrary: p) auto

lemma seg_cong: "(\<And>x. x \<in> set xs \<Longrightarrow> n x = m x) \<Longrightarrow> seg n p xs q = seg m p xs q"
  by (induction xs arbitrary: p) auto

lemma seg_upd [simp]: "x \<notin> set xs \<Longrightarrow> seg (n(x := y)) p xs q = seg n p xs q"
  by (rule seg_cong) auto

lemma seg_None: "seg n None xs None \<longleftrightarrow> xs = []"
  by (cases xs) auto

lemma seg_first: "seg n p xs None \<Longrightarrow> p = (case xs of [] \<Rightarrow> None | x # _ \<Rightarrow> Some x)"
  by (cases xs) auto

text \<open>An entry that changes is not on the chain, or its link stays.\<close>

lemma seg_entry [simp]:
  "x \<notin> set xs \<or> sort_next c = sort_next (g x) \<Longrightarrow>
     seg (\<lambda>j. sort_next ((g(x := c)) j)) p xs q = seg (\<lambda>j. sort_next (g j)) p xs q"
  "x \<notin> set xs \<or> sort_prev c = sort_prev (g x) \<Longrightarrow>
     seg (\<lambda>j. sort_prev ((g(x := c)) j)) p xs q = seg (\<lambda>j. sort_prev (g j)) p xs q"
  "x \<notin> set xs \<or> hash_next c = hash_next (g x) \<Longrightarrow>
     seg (\<lambda>j. hash_next ((g(x := c)) j)) p xs q = seg (\<lambda>j. hash_next (g j)) p xs q"
  by (rule seg_cong; auto)+

section \<open>The lists\<close>

abbreviation nxt :: "('b) sess_table_scheme \<Rightarrow> nat \<Rightarrow> nat option" where
  "nxt s i \<equiv> sort_next (slots s i)"
abbreviation prv :: "('b) sess_table_scheme \<Rightarrow> nat \<Rightarrow> nat option" where
  "prv s i \<equiv> sort_prev (slots s i)"
abbreviation hnx :: "('b) sess_table_scheme \<Rightarrow> nat \<Rightarrow> nat option" where
  "hnx s i \<equiv> hash_next (slots s i)"

definition links_ok :: "('b) sess_table_scheme \<Rightarrow> nat list \<Rightarrow> nat list \<Rightarrow> bool" where
  "links_ok s xs fs \<longleftrightarrow>
     seg (nxt s) (Sessions_head s) xs None \<and> seg (prv s) (Sessions_tail s) (rev xs) None \<and>
     seg (nxt s) (Sessions_free s) fs None \<and> distinct (xs @ fs) \<and> set (xs @ fs) = {..<MAX_SESSIONS}"

text \<open>What an entry is apart from its place in the sorted list.\<close>

definition core :: "client \<Rightarrow> client" where
  "core c = c\<lparr>sort_prev := None, sort_next := None\<rparr>"

lemma core_eqs:
  assumes "core c = core d"
  shows "cl_name c = cl_name d" "cl_mbox c = cl_mbox d" "cl_status c = cl_status d" "hash_next c = hash_next d"
    "cl_num_mess c = cl_num_mess d" "cl_queue c = cl_queue d" "cl_write c = cl_write d" "cl_read c = cl_read d"
    "cl_read_mess c = cl_read_mess d" "cl_acp_ops c = cl_acp_ops d"
  using assms by (cases c; cases d; simp add: core_def)+

lemma core_links [simp]:
  "core (c\<lparr>sort_prev := p\<rparr>) = core c" "core (c\<lparr>sort_next := n\<rparr>) = core c"
  "core (c\<lparr>sort_next := n, sort_prev := p\<rparr>) = core c"
  by (simp_all add: core_def)

text \<open>The state apart from the sorted list and the free list.\<close>

definition same_but :: "nat set \<Rightarrow> ('b) sess_table_scheme \<Rightarrow> ('b) sess_table_scheme \<Rightarrow> bool" where
  "same_but I s t \<longleftrightarrow>
     (\<forall>j. j \<notin> I \<longrightarrow> core (slots t j) = core (slots s j)) \<and> Sessions_hash_head t = Sessions_hash_head s \<and>
     sess_table.more t = sess_table.more s"

lemma same_butD:
  "same_but I s t \<Longrightarrow> j \<notin> I \<Longrightarrow> core (slots t j) = core (slots s j)"
  "same_but I s t \<Longrightarrow> Sessions_hash_head t = Sessions_hash_head s"
  "same_but I s t \<Longrightarrow> sess_table.more t = sess_table.more s"
  by (simp_all add: same_but_def)

lemma upd_simps [simp]:
  "slots (upd i f s) = (slots s)(i := f (slots s i))" "Sessions_hash_head (upd i f s) = Sessions_hash_head s"
  "Sessions_head (upd i f s) = Sessions_head s" "Sessions_tail (upd i f s) = Sessions_tail s"
  "Sessions_free (upd i f s) = Sessions_free s" "sess_table.more (upd i f s) = sess_table.more s"
  by (simp_all add: upd_def)

lemma links_ok_cong:
  assumes "links_ok s xs fs" "\<And>j. j < MAX_SESSIONS \<Longrightarrow> nxt t j = nxt s j \<and> prv t j = prv s j"
    "Sessions_head t = Sessions_head s" "Sessions_tail t = Sessions_tail s" "Sessions_free t = Sessions_free s"
  shows "links_ok t xs fs"
proof -
  have "j < MAX_SESSIONS" if "j \<in> set xs \<or> j \<in> set fs" for j
    using assms(1) that unfolding links_ok_def by auto
  then have n: "nxt t j = nxt s j" "prv t j = prv s j" if "j \<in> set xs \<or> j \<in> set fs" for j
    using assms(2) that by auto
  have "seg (nxt t) p xs q = seg (nxt s) p xs q" "seg (nxt t) p fs q = seg (nxt s) p fs q"
    "seg (prv t) p (rev xs) q = seg (prv s) p (rev xs) q" for p q
    by (rule seg_cong; simp add: n)+
  with assms show ?thesis by (simp add: links_ok_def)
qed

section \<open>Walking the list\<close>

lemma list_walk_seg: "seg (\<lambda>i. sort_next (t i)) p xs None \<Longrightarrow> list_walk t p = Some xs"
proof (induction xs arbitrary: p)
  case (Cons x xs)
  then show ?case by (subst list_walk.simps) simp
qed (simp add: list_walk.simps)

lemma Sessions_links_ok: "links_ok s xs fs \<Longrightarrow> Sessions_list s = Some (map (\<lambda>i. session_of (slots s i)) xs)"
  using list_walk_seg [of "slots s" "Sessions_head s" xs] by (simp add: links_ok_def Sessions_list_def)

lemma name_walk_seg:
  "seg (\<lambda>i. sort_next (t i)) p xs None \<Longrightarrow>
     \<exists>r. name_walk t nm p = Some r \<and> map_option (\<lambda>i. session_of (t i)) r = Sess_get_session nm (map (\<lambda>i. session_of (t i)) xs) \<and>
         (\<forall>i. r = Some i \<longrightarrow> i \<in> set xs)"
proof (induction xs arbitrary: p)
  case (Cons x xs)
  then have p: "p = Some x" and IH: "\<exists>r. name_walk t nm (sort_next (t x)) = Some r \<and>
      map_option (\<lambda>i. session_of (t i)) r = Sess_get_session nm (map (\<lambda>i. session_of (t i)) xs) \<and> (\<forall>i. r = Some i \<longrightarrow> i \<in> set xs)"
    by auto
  from IH show ?case by (subst name_walk.simps) (auto simp: p Let_def session_of_def)
qed (simp add: name_walk.simps)

text \<open>Finding a session by its name is what the groups take it for.\<close>

lemma Sess_get_session_refines:
  assumes "links_ok s xs fs"
  shows "\<exists>r. Sess_get_session_tab nm s = Some r \<and>
    map_option (\<lambda>i. session_of (slots s i)) r = Sess_get_session nm (map (\<lambda>i. session_of (slots s i)) xs) \<and>
    (\<forall>i. r = Some i \<longrightarrow> i \<in> set xs)"
  using name_walk_seg [of "slots s" "Sessions_head s" xs nm] assms
  by (simp add: Sess_get_session_tab_def links_ok_def)

abbreviation names :: "('b) sess_table_scheme \<Rightarrow> nat list \<Rightarrow> string list" where
  "names s xs \<equiv> map (\<lambda>i. cl_name (slots s i)) xs"

lemma place_walk_seg:
  "seg (\<lambda>i. sort_next (t i)) p xs None \<Longrightarrow>
     \<exists>as bs. xs = as @ bs \<and> (\<forall>i \<in> set as. strcmp nm (cl_name (t i)) > 0) \<and>
       (\<forall>b bs'. bs = b # bs' \<longrightarrow> strcmp nm (cl_name (t b)) \<le> 0) \<and>
       place_walk t nm p = Some (case bs of [] \<Rightarrow> (None, True) | b # _ \<Rightarrow> (Some b, strcmp nm (cl_name (t b)) \<noteq> 0))"
proof (induction xs arbitrary: p)
  case (Cons x xs)
  show ?case
  proof (cases "strcmp nm (cl_name (t x)) \<le> 0")
    case True
    with Cons.prems have "place_walk t nm p = Some (Some x, strcmp nm (cl_name (t x)) \<noteq> 0)"
      by (subst place_walk.simps) simp
    with True show ?thesis by (intro exI [of _ "[]"] exI [of _ "x # xs"]) simp
  next
    case False
    from Cons.prems have "seg (\<lambda>i. sort_next (t i)) (sort_next (t x)) xs None" by simp
    from Cons.IH [OF this] obtain as bs where ab: "xs = as @ bs" "\<forall>i \<in> set as. strcmp nm (cl_name (t i)) > 0"
      "\<forall>b bs'. bs = b # bs' \<longrightarrow> strcmp nm (cl_name (t b)) \<le> 0"
      "place_walk t nm (sort_next (t x)) = Some (case bs of [] \<Rightarrow> (None, True) | b # _ \<Rightarrow> (Some b, strcmp nm (cl_name (t b)) \<noteq> 0))"
      by blast
    from False Cons.prems have "place_walk t nm p = place_walk t nm (sort_next (t x))"
      by (subst place_walk.simps) simp
    with ab False show ?thesis by (intro exI [of _ "x # as"] exI [of _ bs]) simp
  qed
qed (simp add: place_walk.simps)

section \<open>Inserting and removing\<close>

text \<open>A new session goes between two parts of the list.\<close>

lemma insert_ok:
  assumes ok: "links_ok s (as @ bs) (i # fs)" and tm: "template \<ge> MAX_SESSIONS"
  shows "\<exists>t. Sess_insert_new_session (case bs of [] \<Rightarrow> None | b # _ \<Rightarrow> Some b) template s = Some (i, t) \<and>
    links_ok t (as @ i # bs) fs \<and> same_but {i} s t \<and> core (slots t i) = core (slots s template)"
proof -
  from ok have i: "i \<notin> set as" "i \<notin> set bs" "i \<notin> set fs" and free: "Sessions_free s = Some i"
    and d: "distinct as" "distinct bs" "set as \<inter> set bs = {}" "set fs \<inter> set as = {}" "set fs \<inter> set bs = {}" "distinct fs"
    and fs: "seg (nxt s) (nxt s i) fs None"
    and xs: "seg (nxt s) (Sessions_head s) (as @ bs) None" "seg (prv s) (Sessions_tail s) (rev (as @ bs)) None"
    and N: "set ((as @ bs) @ i # fs) = {..<MAX_SESSIONS}"
    unfolding links_ok_def by auto
  have dN: "distinct ((as @ i # bs) @ fs)" "set ((as @ i # bs) @ fs) = {..<MAX_SESSIONS}"
    using i d N by auto
  note defs = Sess_insert_new_session_def Sess_get_free_session_def free Let_def
  show ?thesis
  proof (cases bs)
    case Nil
    show ?thesis
    proof (cases as rule: rev_cases)
      case Nil': Nil
      have e: "Sessions_head s = None" "Sessions_tail s = None" using xs Nil Nil' by simp_all
      let ?t = "(upd i (\<lambda>c. c\<lparr>sort_next := None, sort_prev := None\<rparr>) (upd i (\<lambda>_. slots s template)
        (s\<lparr>Sessions_free := nxt s i\<rparr>)))\<lparr>Sessions_head := Some i, Sessions_tail := Some i\<rparr>"
      have "Sess_insert_new_session (case bs of [] \<Rightarrow> None | b # _ \<Rightarrow> Some b) template s = Some (i, ?t)"
        using Nil e by (simp add: defs)
      moreover have "links_ok ?t (as @ i # bs) fs"
        unfolding links_ok_def using dN fs i Nil Nil' by (simp del: fun_upd_apply) simp
      moreover have "same_but {i} s ?t" by (simp add: same_but_def)
      ultimately show ?thesis by (intro exI conjI) (assumption | simp)+
    next
      case (snoc as' a)
      have e: "Sessions_tail s = Some a" and a: "a \<noteq> i" "a \<notin> set as'" "a \<notin> set fs" using xs Nil snoc i d by auto
      let ?t = "(upd a (\<lambda>c. c\<lparr>sort_next := Some i\<rparr>) (upd i (\<lambda>c. c\<lparr>sort_next := None, sort_prev := Some a\<rparr>)
        (upd i (\<lambda>_. slots s template) (s\<lparr>Sessions_free := nxt s i\<rparr>))))\<lparr>Sessions_tail := Some i\<rparr>"
      have "Sess_insert_new_session (case bs of [] \<Rightarrow> None | b # _ \<Rightarrow> Some b) template s = Some (i, ?t)"
        using Nil e by (simp add: defs)
      moreover have "links_ok ?t (as @ i # bs) fs"
        unfolding links_ok_def using dN fs i Nil snoc xs a by (simp del: fun_upd_apply) simp
      moreover have "same_but {i} s ?t" using a by (simp add: same_but_def)
      ultimately show ?thesis using a by (intro exI conjI) (assumption | simp)+
    qed
  next
    case (Cons b bs')
    have b: "b \<noteq> i" "b \<notin> set as" "b \<notin> set bs'" "b \<notin> set fs" using Cons i d by auto
    show ?thesis
    proof (cases as rule: rev_cases)
      case Nil
      have e: "prv s b = None" using xs Nil Cons by (auto dest: seg_first)
      let ?t = "(upd b (\<lambda>c. c\<lparr>sort_prev := Some i\<rparr>) (upd i (\<lambda>c. c\<lparr>sort_next := Some b, sort_prev := None\<rparr>)
        (upd i (\<lambda>_. slots s template) (s\<lparr>Sessions_free := nxt s i\<rparr>))))\<lparr>Sessions_head := Some i\<rparr>"
      have "Sess_insert_new_session (case bs of [] \<Rightarrow> None | b # _ \<Rightarrow> Some b) template s = Some (i, ?t)"
        using Cons e b by (simp add: defs)
      moreover have "links_ok ?t (as @ i # bs) fs"
        unfolding links_ok_def using dN fs i Nil Cons xs b by (simp del: fun_upd_apply) simp
      moreover have "same_but {i} s ?t" using b by (simp add: same_but_def)
      ultimately show ?thesis using b by (intro exI conjI) (assumption | simp)+
    next
      case (snoc as' a)
      have a: "a \<noteq> i" "a \<notin> set as'" "a \<notin> set fs" "a \<noteq> b" "a \<notin> set bs'" "b \<notin> set as'" using Cons snoc i d by auto
      have e: "prv s b = Some a" using xs snoc Cons by auto
      let ?t = "upd a (\<lambda>c. c\<lparr>sort_next := Some i\<rparr>) (upd b (\<lambda>c. c\<lparr>sort_prev := Some i\<rparr>)
        (upd i (\<lambda>c. c\<lparr>sort_next := Some b, sort_prev := Some a\<rparr>)
        (upd i (\<lambda>_. slots s template) (s\<lparr>Sessions_free := nxt s i\<rparr>))))"
      have "Sess_insert_new_session (case bs of [] \<Rightarrow> None | b # _ \<Rightarrow> Some b) template s = Some (i, ?t)"
        using Cons e b by (simp add: defs)
      moreover have "links_ok ?t (as @ i # bs) fs"
        unfolding links_ok_def using dN fs i snoc Cons xs a b by (simp del: fun_upd_apply) simp
      moreover have "same_but {i} s ?t" using a b by (simp add: same_but_def)
      ultimately show ?thesis using a b by (intro exI conjI) (assumption | simp)+
    qed
  qed
qed

lemma unlink_ok:
  assumes ok: "links_ok s (as @ i # bs) fs"
  shows "seg (nxt (Sess_unlink_session i s)) (Sessions_head (Sess_unlink_session i s)) (as @ bs) None \<and>
    seg (prv (Sess_unlink_session i s)) (Sessions_tail (Sess_unlink_session i s)) (rev (as @ bs)) None \<and>
    seg (nxt (Sess_unlink_session i s)) (Sessions_free s) fs None \<and>
    Sessions_free (Sess_unlink_session i s) = Sessions_free s \<and> same_but {} s (Sess_unlink_session i s)"
proof -
  from ok have i: "i \<notin> set as" "i \<notin> set bs" "i \<notin> set fs"
    and d: "distinct as" "distinct bs" "set as \<inter> set bs = {}" "set fs \<inter> set as = {}" "set fs \<inter> set bs = {}"
    and fs: "seg (nxt s) (Sessions_free s) fs None"
    and xs: "seg (nxt s) (Sessions_head s) (as @ i # bs) None" "seg (prv s) (Sessions_tail s) (rev (as @ i # bs)) None"
    unfolding links_ok_def by auto
  show ?thesis
  proof (cases bs)
    case Nil
    show ?thesis
    proof (cases as rule: rev_cases)
      case Nil': Nil
      then show ?thesis using Nil xs fs by (simp add: Sess_unlink_session_def same_but_def)
    next
      case (snoc as' a)
      then have "a \<noteq> i" "a \<notin> set as'" "a \<notin> set fs" "prv s i = Some a" "nxt s i = None" using Nil xs i d by auto
      then show ?thesis using Nil snoc xs fs i
        by (simp add: Sess_unlink_session_def same_but_def del: fun_upd_apply) simp
    qed
  next
    case (Cons b bs')
    then have b: "b \<noteq> i" "b \<notin> set as" "b \<notin> set bs'" "b \<notin> set fs" "nxt s i = Some b" using i d xs by auto
    show ?thesis
    proof (cases as rule: rev_cases)
      case Nil
      then have "prv s i = None" using xs Cons by (auto dest: seg_first)
      then show ?thesis using Cons Nil xs fs i b
        by (simp add: Sess_unlink_session_def same_but_def del: fun_upd_apply) simp
    next
      case (snoc as' a)
      then have "a \<noteq> i" "a \<notin> set as'" "a \<notin> set fs" "a \<noteq> b" "a \<notin> set bs'" "b \<notin> set as'" "prv s i = Some a"
        using Cons i d xs by auto
      then show ?thesis using Cons snoc xs fs i b
        by (simp add: Sess_unlink_session_def same_but_def del: fun_upd_apply) simp
    qed
  qed
qed

lemma remove_ok:
  assumes ok: "links_ok s (as @ i # bs) fs"
  shows "links_ok (Sess_remove_session_tab i s) (as @ bs) (i # fs) \<and> same_but {i} s (Sess_remove_session_tab i s) \<and>
    hnx (Sess_remove_session_tab i s) i = hnx s i"
proof -
  let ?u = "Sess_unlink_session i s"
  note u = unlink_ok [OF ok]
  from ok have i: "i \<notin> set as" "i \<notin> set bs" "i \<notin> set fs"
    by (auto simp: links_ok_def)
  have d: "distinct ((as @ bs) @ i # fs)" using ok unfolding links_ok_def by auto
  have "set ((as @ bs) @ i # fs) = set ((as @ i # bs) @ fs)" by auto
  with ok have N: "set ((as @ bs) @ i # fs) = {..<MAX_SESSIONS}" unfolding links_ok_def by simp
  have "hash_next (slots ?u i) = hash_next (slots s i)"
    by (rule core_eqs(4) [OF same_butD(1) [where I = "{}"]]) (use u in blast)+
  moreover have "links_ok (Sess_remove_session_tab i s) (as @ bs) (i # fs)"
    unfolding links_ok_def Sess_remove_session_tab_def Sess_free_session_def
    using u d N i by (simp del: fun_upd_apply) simp
  moreover have "same_but {i} s (Sess_remove_session_tab i s)"
    using u by (simp add: same_but_def Sess_remove_session_tab_def Sess_free_session_def)
  ultimately show ?thesis by (simp add: Sess_remove_session_tab_def Sess_free_session_def)
qed

section \<open>The hash table\<close>

definition hash_ok :: "('b) sess_table_scheme \<Rightarrow> nat set \<Rightarrow> bool" where
  "hash_ok s H \<longleftrightarrow>
     (\<forall>h. \<exists>xs. seg (hnx s) (Sessions_hash_head s h) xs None \<and> distinct xs \<and>
        set xs = {i \<in> H. mbox_hash (cl_mbox (slots s i)) = h})"

lemma hash_ok_cong:
  assumes "hash_ok s H" "\<And>i. i \<in> H \<Longrightarrow> hnx t i = hnx s i \<and> cl_mbox (slots t i) = cl_mbox (slots s i)"
    "Sessions_hash_head t = Sessions_hash_head s"
  shows "hash_ok t H"
  unfolding hash_ok_def
proof
  fix h
  obtain xs where xs: "seg (hnx s) (Sessions_hash_head s h) xs None" "distinct xs"
    "set xs = {i \<in> H. mbox_hash (cl_mbox (slots s i)) = h}"
    using assms(1) unfolding hash_ok_def by blast
  have "seg (hnx t) (Sessions_hash_head s h) xs None = seg (hnx s) (Sessions_hash_head s h) xs None"
    by (rule seg_cong) (use xs(3) assms(2) in auto)
  moreover have "set xs = {i \<in> H. mbox_hash (cl_mbox (slots t i)) = h}" using xs(3) assms(2) by auto
  ultimately show "\<exists>xs. seg (hnx t) (Sessions_hash_head t h) xs None \<and> distinct xs \<and>
      set xs = {i \<in> H. mbox_hash (cl_mbox (slots t i)) = h}"
    using xs(1,2) assms(3) by auto
qed

lemma hash_insert_ok:
  assumes ok: "hash_ok s H" and i: "i \<notin> H"
  shows "hash_ok (Sess_hash_session i s) (insert i H)"
  unfolding hash_ok_def
proof
  fix h
  let ?t = "Sess_hash_session i s" and ?m = "mbox_hash (cl_mbox (slots s i))"
  obtain xs where xs: "seg (hnx s) (Sessions_hash_head s h) xs None" "distinct xs"
    "set xs = {j \<in> H. mbox_hash (cl_mbox (slots s j)) = h}"
    using ok unfolding hash_ok_def by blast
  with i have ix: "i \<notin> set xs" by auto
  then have s: "seg (hnx ?t) p xs q = seg (hnx s) p xs q" for p q
    by (simp add: Sess_hash_session_def Let_def del: fun_upd_apply)
  have m: "cl_mbox (slots ?t j) = cl_mbox (slots s j)" for j by (simp add: Sess_hash_session_def Let_def)
  show "\<exists>ys. seg (hnx ?t) (Sessions_hash_head ?t h) ys None \<and> distinct ys \<and>
      set ys = {j \<in> insert i H. mbox_hash (cl_mbox (slots ?t j)) = h}"
  proof (cases "h = ?m")
    case True
    have "seg (hnx ?t) (Sessions_hash_head ?t h) (i # xs) None"
      using xs(1) True s by (simp add: Sess_hash_session_def Let_def del: fun_upd_apply) simp
    then show ?thesis using xs ix True unfolding m by (intro exI [of _ "i # xs"]) auto
  next
    case False
    have "seg (hnx ?t) (Sessions_hash_head ?t h) xs None"
      using xs(1) False s by (simp add: Sess_hash_session_def Let_def)
    then show ?thesis using xs ix False unfolding m by (intro exI [of _ xs]) auto
  qed
qed

lemma hash_pred_seg:
  "seg (\<lambda>j. hash_next (t j)) p (as @ a # i # bs) None \<Longrightarrow> distinct (as @ a # i # bs) \<Longrightarrow> hash_pred t i p = Some a"
proof (induction as arbitrary: p)
  case (Cons x xs)
  then have "hash_next (t x) \<noteq> Some i" by (cases xs) auto
  with Cons show ?case by (subst hash_pred.simps) simp
qed (simp add: hash_pred.simps)

lemma unhash_ok:
  assumes ok: "hash_ok s H" and i: "i \<in> H"
  shows "\<exists>t. Sess_unhash_session i s = Some t \<and> hash_ok t (H - {i}) \<and>
    (\<forall>j. (slots t j)\<lparr>hash_next := None\<rparr> = (slots s j)\<lparr>hash_next := None\<rparr>) \<and>
    Sessions_head t = Sessions_head s \<and> Sessions_tail t = Sessions_tail s \<and> Sessions_free t = Sessions_free s \<and>
    sess_table.more t = sess_table.more s"
proof -
  let ?h = "mbox_hash (cl_mbox (slots s i))"
  obtain xs where xs: "seg (hnx s) (Sessions_hash_head s ?h) xs None" "distinct xs"
    "set xs = {j \<in> H. mbox_hash (cl_mbox (slots s j)) = ?h}"
    using ok unfolding hash_ok_def by blast
  with i have "i \<in> set xs" by simp
  then obtain as bs where ab: "xs = as @ i # bs" by (auto simp: in_set_conv_decomp)
  have others: "\<exists>ys. seg (hnx t) (Sessions_hash_head t h) ys None \<and> distinct ys \<and>
      set ys = {j \<in> H - {i}. mbox_hash (cl_mbox (slots s j)) = h}"
    if "h \<noteq> ?h" "\<And>j. j \<notin> set xs \<Longrightarrow> hnx t j = hnx s j" "Sessions_hash_head t h = Sessions_hash_head s h" for t :: "('a) sess_table_scheme" and h
  proof -
    obtain ys where ys: "seg (hnx s) (Sessions_hash_head s h) ys None" "distinct ys"
      "set ys = {j \<in> H. mbox_hash (cl_mbox (slots s j)) = h}"
      using ok unfolding hash_ok_def by blast
    have "seg (hnx t) (Sessions_hash_head s h) ys None = seg (hnx s) (Sessions_hash_head s h) ys None"
      by (rule seg_cong) (use that(1,2) ys(3) xs(3) in auto)
    with ys that show ?thesis by (intro exI [of _ ys]) auto
  qed
  show ?thesis
  proof (cases as rule: rev_cases)
    case Nil
    let ?t = "upd i (\<lambda>c. c\<lparr>hash_next := None\<rparr>) (s\<lparr>Sessions_hash_head := (Sessions_hash_head s)(?h := hnx s i)\<rparr>)"
    have e: "Sess_unhash_session i s = Some ?t" using xs ab Nil by (simp add: Sess_unhash_session_def Let_def)
    have m: "cl_mbox (slots ?t j) = cl_mbox (slots s j)" for j by simp
    have "\<exists>ys. seg (hnx ?t) (Sessions_hash_head ?t h) ys None \<and> distinct ys \<and>
        set ys = {j \<in> H - {i}. mbox_hash (cl_mbox (slots s j)) = h}" for h
    proof (cases "h = ?h")
      case True
      have "seg (hnx ?t) (Sessions_hash_head ?t h) bs None"
        using xs ab Nil True by (simp del: fun_upd_apply) simp
      then show ?thesis using xs ab Nil True by (intro exI [of _ bs]) auto
    next
      case False
      show ?thesis by (rule others [OF False]) (use False xs ab in auto)
    qed
    then have "hash_ok ?t (H - {i})" unfolding hash_ok_def m by blast
    with e show ?thesis by (intro exI [of _ ?t]) simp
  next
    case (snoc as' a)
    let ?t = "upd i (\<lambda>c. c\<lparr>hash_next := None\<rparr>) (upd a (\<lambda>c. c\<lparr>hash_next := hnx s i\<rparr>) s)"
    have "Sessions_hash_head s ?h \<noteq> Some i" using xs ab snoc by (cases as') auto
    moreover have "hash_pred (slots s) i (Sessions_hash_head s ?h) = Some a"
      by (rule hash_pred_seg) (use xs ab snoc in auto)
    ultimately have e: "Sess_unhash_session i s = Some ?t" by (simp add: Sess_unhash_session_def Let_def)
    have n: "a \<noteq> i" "a \<notin> set as'" "i \<notin> set as'" "i \<notin> set bs" "a \<notin> set bs" using xs ab snoc by auto
    have m: "cl_mbox (slots ?t j) = cl_mbox (slots s j)" for j by simp
    have "\<exists>ys. seg (hnx ?t) (Sessions_hash_head ?t h) ys None \<and> distinct ys \<and>
        set ys = {j \<in> H - {i}. mbox_hash (cl_mbox (slots s j)) = h}" for h
    proof (cases "h = ?h")
      case True
      have "seg (hnx ?t) (Sessions_hash_head ?t h) (as' @ a # bs) None"
        using xs(1) ab snoc True n by (simp del: fun_upd_apply) simp
      then show ?thesis using xs ab snoc True n by (intro exI [of _ "as' @ a # bs"]) auto
    next
      case False
      show ?thesis by (rule others [OF False]) (use xs ab snoc in auto)
    qed
    then have "hash_ok ?t (H - {i})" unfolding hash_ok_def m by blast
    with e show ?thesis using n by (intro exI [of _ ?t]) simp
  qed
qed

lemma hash_walk_seg:
  "seg (\<lambda>j. hash_next (t j)) p xs None \<Longrightarrow> hash_walk t m p = Some (find (\<lambda>j. cl_mbox (t j) = m) xs)"
proof (induction xs arbitrary: p)
  case (Cons x xs)
  then show ?case by (subst hash_walk.simps) simp
qed (simp add: hash_walk.simps)

text \<open>A mailbox is found exactly if a session of the table has it.\<close>

lemma index_tab:
  assumes ok: "hash_ok s H" and inj: "inj_on (\<lambda>i. cl_mbox (slots s i)) H"
  shows "Sess_get_session_index_tab m s = Some (if \<exists>i \<in> H. cl_mbox (slots s i) = m
      then Some (THE i. i \<in> H \<and> cl_mbox (slots s i) = m) else None)"
proof -
  obtain xs where xs: "seg (hnx s) (Sessions_hash_head s (mbox_hash m)) xs None"
    "set xs = {i \<in> H. mbox_hash (cl_mbox (slots s i)) = mbox_hash m}"
    using ok unfolding hash_ok_def by blast
  have w: "Sess_get_session_index_tab m s = Some (find (\<lambda>j. cl_mbox (slots s j) = m) xs)"
    unfolding Sess_get_session_index_tab_def by (rule hash_walk_seg) (rule xs)
  show ?thesis
  proof (cases "\<exists>i \<in> H. cl_mbox (slots s i) = m")
    case True
    then obtain i where i: "i \<in> H" "cl_mbox (slots s i) = m" by blast
    with xs(2) have "find (\<lambda>j. cl_mbox (slots s j) = m) xs \<noteq> None" by (auto simp: find_None_iff)
    then obtain j where j: "find (\<lambda>j. cl_mbox (slots s j) = m) xs = Some j" by blast
    then have jm: "j \<in> set xs \<and> cl_mbox (slots s j) = m" by (auto simp: find_Some_iff)
    have "(THE i. i \<in> H \<and> cl_mbox (slots s i) = m) = j"
      by (rule the_equality) (use jm xs(2) inj in \<open>auto dest: inj_onD\<close>)
    with w j True show ?thesis by simp
  next
    case False
    then have "find (\<lambda>j. cl_mbox (slots s j) = m) xs = None" using xs(2) by (auto simp: find_None_iff)
    with w False show ?thesis by simp
  qed
qed

lemma index_tab_Some:
  assumes "hash_ok s H" "inj_on (\<lambda>i. cl_mbox (slots s i)) H" "i \<in> H"
  shows "Sess_get_session_index_tab (cl_mbox (slots s i)) s = Some (Some i)"
proof -
  have "(THE j. j \<in> H \<and> cl_mbox (slots s j) = cl_mbox (slots s i)) = i"
    by (rule the_equality) (use assms(2,3) in \<open>auto dest: inj_onD\<close>)
  with index_tab [OF assms(1,2), of "cl_mbox (slots s i)"] assms(3) show ?thesis by auto
qed

lemma index_tab_None:
  assumes "hash_ok s H" "inj_on (\<lambda>i. cl_mbox (slots s i)) H" "\<forall>i \<in> H. cl_mbox (slots s i) \<noteq> m"
  shows "Sess_get_session_index_tab m s = Some None"
  using index_tab [OF assms(1,2), of m] assms(3) by auto

section \<open>The empty table\<close>

lemma free_sessions:
  assumes "Sessions_free s = None"
  shows "seg (nxt (fold Sess_free_session [0..<n] s)) (Sessions_free (fold Sess_free_session [0..<n] s)) (rev [0..<n]) None \<and>
    Sessions_head (fold Sess_free_session [0..<n] s) = Sessions_head s \<and>
    Sessions_tail (fold Sess_free_session [0..<n] s) = Sessions_tail s \<and>
    Sessions_hash_head (fold Sess_free_session [0..<n] s) = Sessions_hash_head s \<and>
    sess_table.more (fold Sess_free_session [0..<n] s) = sess_table.more s"
proof (induction n)
  case (Suc n)
  then show ?case by (simp add: Sess_free_session_def del: fun_upd_apply) simp
qed (simp add: assms)

lemma init_ok: "links_ok (Sess_init_sessions s) [] (rev [0..<MAX_SESSIONS])" "hash_ok (Sess_init_sessions s) {}"
proof -
  let ?s = "s\<lparr>Sessions_hash_head := (\<lambda>_. None), Sessions_free := None, Sessions_head := None, Sessions_tail := None\<rparr>"
  have r: "distinct (rev [0..<MAX_SESSIONS])" "set (rev [0..<MAX_SESSIONS]) = {..<MAX_SESSIONS}"
    by (simp_all only: distinct_rev distinct_upt set_rev set_upt atLeast0LessThan)
  have "Sessions_free ?s = None" by simp
  note f = free_sessions [OF this, of MAX_SESSIONS, folded Sess_init_sessions_def]
  show "links_ok (Sess_init_sessions s) [] (rev [0..<MAX_SESSIONS])"
    unfolding links_ok_def append_Nil rev.simps(1) seg.simps(1) using f r by simp
  show "hash_ok (Sess_init_sessions s) {}"
    unfolding hash_ok_def using f by auto
qed

text \<open>The same table in one step, to compute with.\<close>

lemma free_slots:
  assumes "Sessions_free s = None"
  shows "fold Sess_free_session [0..<n] s = s\<lparr>slots := (\<lambda>i. if i < n then (slots s i)\<lparr>sort_next := if i = 0 then None else Some (i - 1)\<rparr> else slots s i),
      Sessions_free := if n = 0 then None else Some (n - 1)\<rparr>"
proof (induction n)
  case (Suc n)
  then show ?case
    by (auto simp: Sess_free_session_def upd_def fun_eq_iff less_Suc_eq)
qed (simp add: assms)

lemma Sess_init_sessions_code [code]:
  "Sess_init_sessions s = s\<lparr>slots := (\<lambda>i. if i < MAX_SESSIONS
        then (slots s i)\<lparr>sort_next := if i = 0 then None else Some (i - 1)\<rparr> else slots s i),
      Sessions_hash_head := (\<lambda>_. None), Sessions_free := Some 996, Sessions_head := None, Sessions_tail := None\<rparr>"
proof -
  let ?s = "s\<lparr>Sessions_hash_head := (\<lambda>_. None), Sessions_free := None, Sessions_head := None, Sessions_tail := None\<rparr>"
  have "Sessions_free ?s = None" by simp
  note f = free_slots [OF this, of MAX_SESSIONS, folded Sess_init_sessions_def]
  show ?thesis unfolding f by (simp add: fun_eq_iff)
qed

end
