(* ===== verification/MessageFacts.thy ===== *)
theory MessageFacts
  imports MessageObj
begin

text \<open>
  Facts about messages: their header is read back as it was written, filling a message keeps the
  bytes in their order, a position in a message cuts its bytes, and what is read of a message's
  groups.
\<close>

section \<open>The header\<close>

definition head_ok :: "message_header \<Rightarrow> bool" where
  "head_ok h \<longleftrightarrow> length (private_group_name h) = 32 \<and> in_int32 (num_groups h) \<and> in_int32 (mh_data_len h)"

lemma length_write_head [simp]: "length (private_group_name h) = 32 \<Longrightarrow> length (write_head h) = HEAD"
  by (simp add: write_head_def)

lemma drop_put32 [simp]: "drop n (put32 w @ bs) = (if n < 4 then drop n (put32 w) @ bs else drop (n - 4) bs)"
  by (simp add: not_less)

lemma read_write_head [simp]: "head_ok h \<Longrightarrow> read_head (write_head h @ bs) = h"
  by (cases h) (simp add: read_head_def write_head_def head_ok_def sint_in_int32)

lemma in_int32_sint [simp]: "in_int32 (sint (w :: 32 word))"
  using sint_greater_eq [of w] sint_less [of w] by (simp add: in_int32_def)

lemma head_ok_read [simp]: "HEAD \<le> length bs \<Longrightarrow> head_ok (read_head bs)"
  by (simp add: head_ok_def read_head_def)

lemma head_of [simp]: "head_ok h \<Longrightarrow> Message_get_message_header (\<lparr>fr_buf = write_head h @ bs, fr_len = n\<rparr> # fs) = Some h"
  by (simp add: Message_get_message_header_def head_ok_def)

lemma head_ok_type [simp]: "head_ok (h\<lparr>mh_type := t\<rparr>) = head_ok h"
  by (simp add: head_ok_def)

lemma get_head_set_head:
  assumes "Message_get_message_header msg = Some h" "head_ok h'"
  shows "Message_get_message_header (set_head h' msg) = Some h'"
  using assms by (cases msg) (simp_all add: Message_get_message_header_def set_head_def head_ok_def split: if_splits)

section \<open>Bytes of messages\<close>

lemma msg_bytes_simps [simp]:
  "msg_bytes [] = []" "msg_bytes (f # fs) = frag_bytes f @ msg_bytes fs"
  "msg_bytes (fs @ gs) = msg_bytes fs @ msg_bytes gs"
  by (simp_all add: msg_bytes_def)

lemma length_frag_bytes [simp]: "frag_written f \<Longrightarrow> length (frag_bytes f) = fr_len f"
  by (simp add: frag_bytes_def frag_written_def)

lemma length_msg_bytes: "list_all frag_written msg \<Longrightarrow> length (msg_bytes msg) = sum_list (map fr_len msg)"
  by (induction msg) simp_all

lemma copy_bytes [simp]: "msg_bytes (Message_copy_message msg) = msg_bytes msg"
  by (induction msg) (simp_all add: Message_copy_message_def frag_bytes_def)

lemma copy_written [simp]: "list_all frag_written (Message_copy_message msg) = list_all frag_written msg"
  by (auto simp: Message_copy_message_def frag_written_def list_all_iff)

lemma copy_lens [simp]: "map fr_len (Message_copy_message msg) = map fr_len msg"
  by (simp add: Message_copy_message_def)

text \<open>Splitting a message into fragments.\<close>

lemma body_fragments_bytes:
  "length bs \<le> n * FRAG \<Longrightarrow> msg_bytes (body_fragments n bs) = bs"
  by (induction n arbitrary: bs) (auto simp: Let_def frag_bytes_def min_def)

lemma body_fragments_written: "list_all (\<lambda>f. frag_written f \<and> fr_len f \<le> FRAG) (body_fragments n bs)"
  by (induction n arbitrary: bs) (simp_all add: Let_def frag_written_def)

lemma length_body_fragments [simp]: "length (body_fragments n bs) = n"
  by (induction n arbitrary: bs) (simp_all add: Let_def)

lemma buffer_to_fragments:
  assumes "length h = HEAD"
  shows "Message_Buffer_to_Message_Fragments [\<lparr>fr_buf = h, fr_len = HEAD\<rparr>] buf =
    (if length buf \<le> 143152
     then Some (\<lparr>fr_buf = h @ take (FRAG - HEAD) buf, fr_len = HEAD + min (length buf) (FRAG - HEAD)\<rparr> #
            body_fragments ((length buf + HEAD - 1) div FRAG) (drop (FRAG - HEAD) buf))
     else None)"
proof -
  have "(length buf + HEAD - 1) div FRAG + 1 > MAX_FRAGS \<longleftrightarrow> length buf > 143152"
    by (simp add: less_eq_div_iff_mult_less_eq flip: Suc_le_eq)
  with assms show ?thesis
    by (auto simp: Message_Buffer_to_Message_Fragments_def Let_def min_def)
qed

lemma fragments_bytes:
  assumes "length h = HEAD" "Message_Buffer_to_Message_Fragments [\<lparr>fr_buf = h, fr_len = HEAD\<rparr>] buf = Some msg"
  shows "msg_bytes msg = h @ buf" "list_all (\<lambda>f. frag_written f \<and> fr_len f \<le> FRAG) msg" "length msg \<le> MAX_FRAGS"
proof -
  from assms have le: "length buf \<le> 143152" and m: "msg = \<lparr>fr_buf = h @ take (FRAG - HEAD) buf, fr_len = HEAD + min (length buf) (FRAG - HEAD)\<rparr> #
      body_fragments ((length buf + HEAD - 1) div FRAG) (drop (FRAG - HEAD) buf)"
    by (auto simp: buffer_to_fragments split: if_splits)
  have "length (drop (FRAG - HEAD) buf) \<le> (length buf + HEAD - 1) div FRAG * FRAG"
    by (simp add: div_mult2_eq)
  then show "msg_bytes msg = h @ buf"
    using assms(1) unfolding m by (simp add: body_fragments_bytes frag_bytes_def min_def)
  show "list_all (\<lambda>f. frag_written f \<and> fr_len f \<le> FRAG) msg"
    using assms(1) body_fragments_written unfolding m by (simp add: frag_written_def min_def)
  show "length msg \<le> MAX_FRAGS" using le unfolding m by simp
qed

section \<open>Positions\<close>

text \<open>What is left of a message at a position.\<close>

definition rest_of :: "partial_message_info \<Rightarrow> message \<Rightarrow> 8 word list" where
  "rest_of w msg = drop (cur_byte w) (msg_bytes (drop (cur_element w) msg))"

lemma element_at_rest:
  "list_all frag_written msg \<Longrightarrow> element_at n msg = (e, b) \<Longrightarrow>
     drop n (msg_bytes msg) = drop b (msg_bytes (drop e msg)) \<and> (e < length msg \<longrightarrow> b < fr_len (msg ! e)) \<and> e \<le> length msg"
proof (induction msg arbitrary: n e)
  case (Cons f fs)
  show ?case
  proof (cases "n < fr_len f")
    case True
    with Cons.prems show ?thesis by auto
  next
    case False
    with Cons.prems obtain e' where e: "element_at (n - fr_len f) fs = (e', b)" "e = Suc e'"
      by (auto split: prod.splits)
    with Cons.IH [OF _ e(1)] Cons.prems(1) False show ?thesis by simp
  qed
qed auto

lemma location_rest:
  assumes "list_all frag_written msg"
  shows "rest_of (Message_calculate_current_location msg n w) msg = drop n (msg_bytes msg)"
proof (cases "element_at n msg")
  case (Pair e b)
  with element_at_rest [OF assms Pair] show ?thesis by (simp add: rest_of_def Message_calculate_current_location_def)
qed

end
