(* ===== verification/SessStream.thy ===== *)
theory SessStream
  imports SessWrite SessTableInv MessageFacts
begin

text \<open>
  What a client receives: the bytes sent to its mailbox and those that wait in its session's
  queue are together the messages that were written to it, in their order and without gaps,
  however much the socket takes at a time.
\<close>

section \<open>Bytes sent\<close>

definition sent_to :: "int \<Rightarrow> sess_action list \<Rightarrow> 8 word list" where
  "sent_to m as = concat (map (\<lambda>a. case a of Sent m' bs \<Rightarrow> if m' = m then bs else [] | _ \<Rightarrow> []) as)"

lemma sent_to_append [simp]: "sent_to m (as @ bs) = sent_to m as @ sent_to m bs"
  by (simp add: sent_to_def)

lemma sent_to_simps [simp]:
  "sent_to m [] = []" "sent_to m (Sent m' bs # as) = (if m' = m then bs else []) @ sent_to m as"
  "sent_to m (Queued h k t # as) = sent_to m as" "sent_to m (Attached k f h # as) = sent_to m as"
  "sent_to m (Dequeued h k # as) = sent_to m as" "sent_to m (Detached k f # as) = sent_to m as"
  "sent_to m (New_message u msg # as) = sent_to m as" "sent_to m (Closed k # as) = sent_to m as"
  by (simp_all add: sent_to_def)

lemma semit_simps [simp]:
  "slots (semit as s) = slots s" "s_out (semit as s) = s_out s @ as" "Sessions_hash_head (semit as s) = Sessions_hash_head s"
  "Sessions_head (semit as s) = Sessions_head s" "Sessions_tail (semit as s) = Sessions_tail s"
  "Sessions_free (semit as s) = Sessions_free s" "max_session_messages (semit as s) = max_session_messages s"
  by (simp_all add: semit_def)

text \<open>Everything but the sockets and what was handed out.\<close>

definition quiet :: "sess_state \<Rightarrow> sess_state" where
  "quiet s = s\<lparr>s_out := [], send_results := [], recv_results := []\<rparr>"

lemma quiet_semit [simp]: "quiet (semit as s) = quiet s"
  by (simp add: quiet_def semit_def)

lemma upd_eq: "f (slots s i) = g (slots s i) \<Longrightarrow> upd i f s = upd i g s"
  by (simp add: upd_def)

lemma upd_upd: "upd i f (upd i g s) = upd i (\<lambda>c. f (g c)) s"
  by (simp add: upd_def)

lemma s_out_upd [simp]: "s_out (upd i f s) = s_out s" "max_session_messages (upd i f s) = max_session_messages s"
  by (simp_all add: upd_def)

lemma slots_quiet [simp]: "slots (quiet s) = slots s"
  by (simp add: quiet_def)

lemma quiet_upd [simp]: "quiet (upd i f s) = upd i f (quiet s)"
  by (simp add: quiet_def upd_def)

lemma quiet_eqs:
  assumes "quiet s = quiet t"
  shows "slots s = slots t" "Sessions_hash_head s = Sessions_hash_head t" "Sessions_head s = Sessions_head t"
    "Sessions_tail s = Sessions_tail t" "Sessions_free s = Sessions_free t" "Num_sessions s = Num_sessions t"
    "max_session_messages s = max_session_messages t" "Sess_My s = Sess_My t" "Grp s = Grp t" "Acl s = Acl t"
  using assms by (cases s; cases t; simp add: quiet_def)+

lemma send_spec:
  assumes "send m bs s = (r, t)"
  shows "quiet t = quiet s" "sent_to k (s_out t) = sent_to k (s_out s) @ (if k = m then take (nat r) bs else [])"
    "r \<le> int (length bs)" "recv_results t = recv_results s"
  using assms
  by (auto simp: send_def Let_def quiet_def semit_def not_less split: list.splits if_splits)

lemma send_part_spec:
  assumes "send_part m n ptr s = Some (r, t)"
  shows "quiet t = quiet s" "sent_to k (s_out t) = sent_to k (s_out s) @ (if k = m then take (nat r) ptr else [])"
    "r \<le> int n" "n \<le> length ptr"
  using assms send_spec [of m "take n ptr" s r t]
  by (auto simp: send_part_def min_def split: if_splits)

lemma send_part_Some: "n \<le> length ptr \<Longrightarrow> \<exists>r t. send_part m n ptr s = Some (r, t)"
  by (cases "send m (take n ptr) s") (auto simp: send_part_def)

section \<open>The queue\<close>

text \<open>The bytes that wait in a session.\<close>

definition pending :: "client \<Rightarrow> 8 word list" where
  "pending c = (case cl_queue c of [] \<Rightarrow> [] | msg # q \<Rightarrow> rest_of (cl_write c) msg @ concat (map msg_bytes q))"

definition at_ok :: "partial_message_info \<Rightarrow> message \<Rightarrow> bool" where
  "at_ok w msg \<longleftrightarrow> \<not> in_mess_head w \<and>
     (case drop (cur_element w) msg of [] \<Rightarrow> cur_byte w = 0 | f # _ \<Rightarrow> cur_byte w \<le> fr_len f)"

definition writer_ok :: "client \<Rightarrow> bool" where
  "writer_ok c \<longleftrightarrow> cl_num_mess c = int (length (cl_queue c)) \<and> \<not> in_mess_head (cl_write c) \<and>
     list_all (list_all frag_written) (cl_queue c) \<and>
     (case cl_queue c of [] \<Rightarrow> True | msg # _ \<Rightarrow> at_ok (cl_write c) msg)"

lemma badger_elements_spec:
  assumes "list_all frag_written fs" "fs = drop (cur_element w) msg" "at_ok w msg" "from = cur_byte w"
  shows "\<exists>all w' t. badger_elements m fs from w s = Some (all, w', t) \<and> quiet t = quiet s \<and>
    sent_to m (s_out t) @ (if all then [] else rest_of w' msg) = sent_to m (s_out s) @ drop from (msg_bytes fs) \<and>
    (\<forall>k. k \<noteq> m \<longrightarrow> sent_to k (s_out t) = sent_to k (s_out s)) \<and> (\<not> all \<longrightarrow> at_ok w' msg)"
  using assms
proof (induction fs arbitrary: w s "from")
  case Nil
  then show ?case by (intro exI [of _ True] exI [of _ w] exI [of _ s]) (simp add: at_ok_def)
next
  case (Cons f fs)
  from Cons.prems have f: "frag_written f" "from \<le> fr_len f" and fs: "list_all frag_written fs"
    and head: "\<not> in_mess_head w"
    by (auto simp: at_ok_def split: list.splits)
  have tl: "fs = drop (Suc (cur_element w)) msg" using Cons.prems(2) by (metis drop_Suc list.sel(3) tl_drop)
  have len: "length (drop from (frag_bytes f)) = fr_len f - from" using f(1) by simp
  have "fr_len f - from \<le> length (drop from (fr_buf f))" using f by (simp add: frag_written_def)
  then obtain r t where r: "send_part m (fr_len f - from) (drop from (fr_buf f)) s = Some (r, t)"
    using send_part_Some by blast
  note sp = send_part_spec [OF r]
  have bytes: "take (fr_len f - from) (drop from (fr_buf f)) = drop from (frag_bytes f)"
    by (simp add: frag_bytes_def drop_take)
  show ?case
  proof (cases "r = int (fr_len f - from)")
    case True
    let ?w = "w\<lparr>cur_byte := 0, cur_element := Suc (cur_element w)\<rparr>"
    have "at_ok ?w msg" using head by (simp add: at_ok_def split: list.splits)
    from Cons.IH [OF fs _ this, of 0 t] tl obtain all w' u where
      u: "badger_elements m fs 0 ?w t = Some (all, w', u)" "quiet u = quiet t"
        "sent_to m (s_out u) @ (if all then [] else rest_of w' msg) = sent_to m (s_out t) @ msg_bytes fs"
        "\<forall>k. k \<noteq> m \<longrightarrow> sent_to k (s_out u) = sent_to k (s_out t)" "\<not> all \<longrightarrow> at_ok w' msg"
      by auto
    from True r f(2) u(1) have "badger_elements m (f # fs) from w s = Some (all, w', u)" by simp
    moreover have "sent_to m (s_out t) = sent_to m (s_out s) @ drop from (frag_bytes f)"
      using sp(2) [of m] True bytes by simp
    ultimately show ?thesis using u sp(1) sp(2) f len by auto
  next
    case False
    let ?w = "if r > 0 then w\<lparr>cur_byte := cur_byte w + nat r\<rparr> else w"
    from False r f(2) have e: "badger_elements m (f # fs) from w s = Some (False, ?w, t)" by simp
    have less: "nat r < fr_len f - from \<or> r \<le> 0" using False sp(3) by linarith
    then have ok: "at_ok ?w msg" using Cons.prems(2-4) head f(2) by (auto simp: at_ok_def split: list.splits)
    have tk: "take (nat r) (drop from (fr_buf f)) = take (nat r) (drop from (frag_bytes f))"
      using less bytes [symmetric] by (auto simp: min_def)
    have "rest_of ?w msg = drop (from + nat r) (msg_bytes (f # fs))"
      using Cons.prems(2,4) by (simp add: rest_of_def)
    also have "\<dots> = drop (nat r) (drop from (frag_bytes f)) @ msg_bytes fs"
      using less f len by (auto simp: ac_simps)
    finally have "take (nat r) (drop from (fr_buf f)) @ rest_of ?w msg =
        take (nat r) (drop from (frag_bytes f)) @ drop (nat r) (drop from (frag_bytes f)) @ msg_bytes fs"
      by (simp only: tk)
    also have "\<dots> = drop from (frag_bytes f) @ msg_bytes fs"
      by (metis append_assoc append_take_drop_id)
    also have "\<dots> = drop from (msg_bytes (f # fs))" using f by simp
    finally have "take (nat r) (drop from (fr_buf f)) @ rest_of ?w msg = drop from (msg_bytes (f # fs))" .
    with sp(2) [of m] have "sent_to m (s_out t) @ rest_of ?w msg = sent_to m (s_out s) @ drop from (msg_bytes (f # fs))"
      by (simp only: append_assoc if_True simp_thms)
    with e sp(1) ok show ?thesis
      by (intro exI [of _ False] exI [of _ ?w] exI [of _ t]) (simp add: sp(2))
  qed
qed

lemma badger_queue_spec:
  assumes "list_all (list_all frag_written) q" "\<not> in_mess_head w" "q = [] \<or> at_ok w (hd q)"
  shows "\<exists>n q' w' t. badger_queue m (length q) q w s = Some (n, q', w', t) \<and> n = length q' \<and> quiet t = quiet s \<and>
    sent_to m (s_out t) @ (case q' of [] \<Rightarrow> [] | msg # r \<Rightarrow> rest_of w' msg @ concat (map msg_bytes r)) =
      sent_to m (s_out s) @ (case q of [] \<Rightarrow> [] | msg # r \<Rightarrow> rest_of w msg @ concat (map msg_bytes r)) \<and>
    (\<forall>k. k \<noteq> m \<longrightarrow> sent_to k (s_out t) = sent_to k (s_out s)) \<and>
    list_all (list_all frag_written) q' \<and> \<not> in_mess_head w' \<and> (q' = [] \<or> at_ok w' (hd q'))"
  using assms
proof (induction q arbitrary: w s)
  case Nil
  then show ?case by simp
next
  case (Cons msg q)
  from Cons.prems have wr: "list_all frag_written (drop (cur_element w) msg)" and ok: "at_ok w msg"
    by (auto simp: list_all_iff dest: in_set_dropD)
  from badger_elements_spec [OF wr refl ok refl, of m s] obtain all w1 t where
    t: "badger_elements m (drop (cur_element w) msg) (cur_byte w) w s = Some (all, w1, t)" "quiet t = quiet s"
      "sent_to m (s_out t) @ (if all then [] else rest_of w1 msg) = sent_to m (s_out s) @ rest_of w msg"
      "\<forall>k. k \<noteq> m \<longrightarrow> sent_to k (s_out t) = sent_to k (s_out s)" "\<not> all \<longrightarrow> at_ok w1 msg"
    unfolding rest_of_def by auto
  show ?case
  proof (cases all)
    case False
    with t(1) Cons.prems(2) have "badger_queue m (length (msg # q)) (msg # q) w s = Some (length (msg # q), msg # q, w1, t)"
      by (simp add: badger_head_def)
    then show ?thesis using t False Cons.prems by (simp add: at_ok_def)
  next
    case True
    let ?w = "Message_reset_current_location w1"
    have w: "\<not> in_mess_head ?w" "q = [] \<or> at_ok ?w (hd q)" "\<And>msg. rest_of ?w msg = msg_bytes msg"
      by (auto simp: Message_reset_current_location_def at_ok_def rest_of_def split: list.splits)
    from Cons.IH [OF _ w(1,2), of t] Cons.prems(1) obtain n q' w' u where
      u: "badger_queue m (length q) q ?w t = Some (n, q', w', u)" "n = length q'" "quiet u = quiet t"
        "sent_to m (s_out u) @ (case q' of [] \<Rightarrow> [] | msg # r \<Rightarrow> rest_of w' msg @ concat (map msg_bytes r)) =
           sent_to m (s_out t) @ (case q of [] \<Rightarrow> [] | msg # r \<Rightarrow> rest_of ?w msg @ concat (map msg_bytes r))"
        "\<forall>k. k \<noteq> m \<longrightarrow> sent_to k (s_out u) = sent_to k (s_out t)" "list_all (list_all frag_written) q'"
        "\<not> in_mess_head w'" "q' = [] \<or> at_ok w' (hd q')"
      by auto
    have b: "badger_queue m (length (msg # q)) (msg # q) w s = Some (n, q', w', u)"
      using t(1) True Cons.prems(2) u(1) by (simp add: badger_head_def)
    have c: "(case q of [] \<Rightarrow> [] | msg # r \<Rightarrow> rest_of ?w msg @ concat (map msg_bytes r)) = concat (map msg_bytes q)"
      using w(3) by (simp split: list.splits)
    show ?thesis
      using b u t True unfolding c by (intro exI conjI) (assumption | simp)+
  qed
qed

lemma pending_cases: "pending c = (case cl_queue c of [] \<Rightarrow> [] | msg # r \<Rightarrow> rest_of (cl_write c) msg @ concat (map msg_bytes r))"
  by (simp add: pending_def)

text \<open>Writing what waits moves bytes from the queue to the socket.\<close>

lemma badger_spec:
  assumes ix: "Sess_get_session_index_tab m s = Some (Some i)" and m: "cl_mbox (slots s i) = m"
    and op: "Is_op_session (slots s i)" and ok: "writer_ok (slots s i)" and q: "cl_queue (slots s i) \<noteq> []"
  shows "\<exists>t n q w. Sess_badger m s = Some t \<and>
    quiet t = upd i (\<lambda>c. c\<lparr>cl_num_mess := n, cl_queue := q, cl_write := w\<rparr>) (quiet s) \<and> writer_ok (slots t i) \<and>
    sent_to m (s_out t) @ pending (slots t i) = sent_to m (s_out s) @ pending (slots s i) \<and>
    (\<forall>k. k \<noteq> m \<longrightarrow> sent_to k (s_out t) = sent_to k (s_out s))"
proof -
  let ?c = "slots s i"
  have "nat (cl_num_mess ?c) = length (cl_queue ?c)" using ok by (simp add: writer_ok_def)
  moreover have "cl_queue ?c = [] \<or> at_ok (cl_write ?c) (hd (cl_queue ?c))"
    using ok by (auto simp: writer_ok_def split: list.splits)
  ultimately obtain n q' w' t where
    t: "badger_queue m (nat (cl_num_mess ?c)) (cl_queue ?c) (cl_write ?c) s = Some (n, q', w', t)" "n = length q'" "quiet t = quiet s"
      "sent_to m (s_out t) @ (case q' of [] \<Rightarrow> [] | msg # r \<Rightarrow> rest_of w' msg @ concat (map msg_bytes r)) =
         sent_to m (s_out s) @ pending ?c"
      "\<forall>k. k \<noteq> m \<longrightarrow> sent_to k (s_out t) = sent_to k (s_out s)" "list_all (list_all frag_written) q'"
      "\<not> in_mess_head w'" "q' = [] \<or> at_ok w' (hd q')"
    using badger_queue_spec [of "cl_queue ?c" "cl_write ?c" m s] ok unfolding pending_cases by (auto simp: writer_ok_def)
  let ?f = "\<lambda>c. c\<lparr>cl_num_mess := int n, cl_queue := q', cl_write := w'\<rparr>"
  have "cl_num_mess ?c > 0" using ok q by (simp add: writer_ok_def)
  with ix op t(1) obtain acts where u: "Sess_badger m s = Some (semit acts (upd i ?f t))" "\<And>k. sent_to k acts = []"
    by (cases "n > 0") (auto simp: Sess_badger_def Let_def)
  let ?u = "semit acts (upd i ?f t)"
  have sl: "slots ?u i = ?f ?c" using quiet_eqs(1) [OF t(3)] by simp
  have "quiet ?u = upd i ?f (quiet s)" using t(3) by simp
  moreover have "writer_ok (slots ?u i)" unfolding sl using t by (auto simp: writer_ok_def split: list.splits)
  moreover have "sent_to m (s_out ?u) @ pending (slots ?u i) = sent_to m (s_out s) @ pending ?c"
    unfolding sl pending_cases [of "?f ?c"] using t(4) u(2) by (cases q') (simp_all add: upd_def)
  moreover have "\<forall>k. k \<noteq> m \<longrightarrow> sent_to k (s_out ?u) = sent_to k (s_out s)"
    using t(5) u(2) by (simp add: upd_def)
  ultimately show ?thesis using u(1) by blast
qed

section \<open>Writing a message\<close>

text \<open>A message that can be written: a reject message has nothing but its header in the first
  fragment.\<close>

definition message_ok :: "message \<Rightarrow> bool" where
  "message_ok msg \<longleftrightarrow> list_all frag_written msg \<and>
     (\<exists>h. Message_get_message_header msg = Some h \<and> HEAD \<le> fr_len (hd msg) \<and>
        (Is_type REJECT_MESS (mh_type h) \<longrightarrow> fr_len (hd msg) = HEAD))"

lemma copy_message_ok [simp]: "message_ok msg \<Longrightarrow> message_ok (Message_copy_message msg)"
proof -
  assume ok: "message_ok msg"
  then obtain f fs h where m: "msg = f # fs" "Message_get_message_header msg = Some h" "HEAD \<le> fr_len f"
    "Is_type REJECT_MESS (mh_type h) \<longrightarrow> fr_len f = HEAD" "list_all frag_written msg"
    unfolding message_ok_def by (cases msg) (auto simp: Message_get_message_header_def)
  have "read_head (take (fr_len f) (fr_buf f)) = read_head (fr_buf f)"
    using m(1,3,5) by (simp add: read_head_def get32_def drop_take frag_written_def)
  then have "Message_get_message_header (Message_copy_message msg) = Some h"
    using m by (auto simp: Message_get_message_header_def Message_copy_message_def frag_written_def split: if_splits)
  with m show ?thesis by (simp add: message_ok_def) (simp add: Message_copy_message_def)
qed

lemma write_elements_spec:
  assumes "list_all frag_written fs"
  shows "\<exists>n t. write_elements m fs s = Some (n, t) \<and> quiet t = quiet s \<and>
    sent_to m (s_out t) = sent_to m (s_out s) @ take n (msg_bytes fs) \<and>
    (\<forall>k. k \<noteq> m \<longrightarrow> sent_to k (s_out t) = sent_to k (s_out s)) \<and> n \<le> length (msg_bytes fs)"
  using assms
proof (induction fs arbitrary: s)
  case (Cons f fs)
  then have f: "frag_written f" and fs: "list_all frag_written fs" by auto
  then obtain r t where r: "send_part m (fr_len f) (fr_buf f) s = Some (r, t)"
    using send_part_Some [of "fr_len f" "fr_buf f" m s] by (auto simp: frag_written_def)
  note sp = send_part_spec [OF r]
  have "nat r \<le> fr_len f" using sp(3) by linarith
  then have tk: "take (nat r) (fr_buf f) = take (nat r) (frag_bytes f)" by (simp add: frag_bytes_def min_def)
  show ?case
  proof (cases "r = int (fr_len f)")
    case True
    from Cons.IH [OF fs, of t] obtain n u where u: "write_elements m fs t = Some (n, u)" "quiet u = quiet t"
      "sent_to m (s_out u) = sent_to m (s_out t) @ take n (msg_bytes fs)"
      "\<forall>k. k \<noteq> m \<longrightarrow> sent_to k (s_out u) = sent_to k (s_out t)" "n \<le> length (msg_bytes fs)" by blast
    have "write_elements m (f # fs) s = Some (fr_len f + n, u)" using r True u(1) by simp
    moreover have "sent_to m (s_out t) = sent_to m (s_out s) @ frag_bytes f" using sp(2) [of m] True tk f by simp
    ultimately show ?thesis using u sp(1,2) f by (intro exI [of _ "fr_len f + n"] exI [of _ u]) simp
  next
    case False
    then have e: "write_elements m (f # fs) s = Some (nat r, t)" using r by simp
    have "nat r \<le> fr_len f" using sp(3) by simp
    with f tk sp(1,2) e show ?thesis by (intro exI [of _ "nat r"] exI [of _ t]) (simp del: write_elements.simps)
  qed
qed simp

lemma write_message_spec:
  assumes ok: "message_ok msg"
  shows "\<exists>n t. write_message m msg s = Some (n, t) \<and> quiet t = quiet s \<and>
    sent_to m (s_out t) = sent_to m (s_out s) @ take n (msg_bytes msg) \<and>
    (\<forall>k. k \<noteq> m \<longrightarrow> sent_to k (s_out t) = sent_to k (s_out s)) \<and> n \<le> length (msg_bytes msg)"
proof -
  obtain f fs h where msg: "msg = f # fs" and h: "Message_get_message_header msg = Some h" and len: "HEAD \<le> fr_len f"
    and rej: "Is_type REJECT_MESS (mh_type h) \<Longrightarrow> fr_len f = HEAD" and w: "frag_written f" "list_all frag_written fs"
    using ok unfolding message_ok_def by (cases msg) (auto simp: Message_get_message_header_def)
  define ptr where "ptr = the (Message_get_first_data_ptr msg)"
  let ?n = "fr_len f - HEAD"
  have fp: "Message_get_first_data_ptr msg = Some ptr" "Message_get_first_data_len msg = Some ?n"
    using h msg len rej
    by (auto simp: ptr_def Message_get_first_data_ptr_def Message_get_first_data_len_def)
  have d: "take ?n ptr = drop HEAD (frag_bytes f)" "?n \<le> length ptr"
    using h msg rej w(1) len by (auto simp: ptr_def Message_get_first_data_ptr_def frag_bytes_def drop_take frag_written_def)
  have lf: "length (frag_bytes f) = fr_len f" using w(1) by simp
  have "HEAD \<le> length (fr_buf f)" using len w(1) by (simp add: frag_written_def)
  then obtain r t where r: "send_part m HEAD (fr_buf f) s = Some (r, t)" using send_part_Some by blast
  note sp = send_part_spec [OF r]
  have "nat r \<le> fr_len f" using sp(3) len by linarith
  then have tk: "take (nat r) (fr_buf f) = take (nat r) (frag_bytes f)" by (simp add: frag_bytes_def min_def)
  show ?thesis
  proof (cases "r = int HEAD")
    case False
    then have "write_message m msg s = Some (nat r, t)" using r msg by (simp add: write_message_def)
    moreover have "nat r \<le> fr_len f" using sp(3) len by simp
    ultimately show ?thesis using sp(1,2) tk lf msg by (intro exI [of _ "nat r"] exI [of _ t]) simp
  next
    case True
    have st: "sent_to m (s_out t) = sent_to m (s_out s) @ take HEAD (frag_bytes f)" using sp(2) [of m] True tk by simp
    obtain r2 t2 where r2: "send_part m ?n ptr t = Some (r2, t2)" using send_part_Some [OF d(2)] by blast
    note sp2 = send_part_spec [OF r2]
    have tk2: "take (nat r2) ptr = take (nat r2) (drop HEAD (frag_bytes f))"
      using sp2(3) d(1) [symmetric] by (simp add: min_def)
    have st2: "sent_to m (s_out t2) = sent_to m (s_out s) @ take (HEAD + nat r2) (frag_bytes f)"
      using sp2(2) [of m] st tk2 lf len by (simp add: take_add)
    show ?thesis
    proof (cases "r2 = int ?n")
      case False
      then have e: "write_message m msg s = Some (HEAD + nat r2, t2)"
        using r r2 True msg fp by (simp add: write_message_def)
      have "HEAD + nat r2 \<le> fr_len f" using sp2(3) len by linarith
      with sp(1,2) sp2(1,2) st2 lf msg e show ?thesis
        by (intro exI [of _ "HEAD + nat r2"] exI [of _ t2]) simp
    next
      case full: True
      from write_elements_spec [OF w(2), of m t2] obtain n u where
        u: "write_elements m fs t2 = Some (n, u)" "quiet u = quiet t2"
          "sent_to m (s_out u) = sent_to m (s_out t2) @ take n (msg_bytes fs)"
          "\<forall>k. k \<noteq> m \<longrightarrow> sent_to k (s_out u) = sent_to k (s_out t2)" "n \<le> length (msg_bytes fs)" by blast
      have e: "write_message m msg s = Some (HEAD + ?n + n, u)"
        using r r2 True msg fp full u(1) by (simp add: write_message_def)
      have "sent_to m (s_out u) = sent_to m (s_out s) @ take (HEAD + ?n + n) (msg_bytes msg)"
        using u(3) st2 full msg lf len by simp
      with e u sp(1,2) sp2(1,2) msg lf len show ?thesis
        by (intro exI [of _ "HEAD + ?n + n"] exI [of _ u]) simp
    qed
  qed
qed

section \<open>The stream of a session\<close>

lemma at_ok_location:
  assumes "list_all frag_written msg" "\<not> in_mess_head w" "n < length (msg_bytes msg)"
  shows "at_ok (Message_calculate_current_location msg n w) msg"
proof (cases "element_at n msg")
  case (Pair e b)
  from element_at_rest [OF assms(1) Pair] assms(3) have "e < length msg" "b < fr_len (msg ! e)"
    using length_drop [of n "msg_bytes msg"] by (auto simp: le_less)
  moreover from this have "drop e msg = (msg ! e) # drop (Suc e) msg" by (simp add: Cons_nth_drop_Suc)
  ultimately show ?thesis using Pair by (simp add: at_ok_def Message_calculate_current_location_def)
qed

lemma link_spec:
  assumes ok: "writer_ok (slots s i)" and msg: "message_ok msg" and m: "cl_mbox (slots s i) = m"
    and n: "n < length (msg_bytes msg)" and first: "cl_queue (slots s i) \<noteq> [] \<longrightarrow> n = 0"
  shows "\<exists>k t num q w. link_message i msg n needed s = (k, t) \<and>
    quiet t = upd i (\<lambda>c. c\<lparr>cl_num_mess := num, cl_queue := q, cl_write := w\<rparr>) (quiet s) \<and>
    writer_ok (slots t i) \<and> pending (slots t i) = pending (slots s i) @ drop n (msg_bytes msg) \<and>
    (\<forall>k. sent_to k (s_out t) = sent_to k (s_out s))"
proof -
  let ?c = "slots s i"
  define tmp where "tmp = (if needed > 0 then Message_copy_message msg else msg)"
  have wr: "list_all frag_written tmp" and b: "msg_bytes tmp = msg_bytes msg"
    using msg by (auto simp: tmp_def message_ok_def)
  have w: "\<not> in_mess_head (cl_write ?c)" and wq: "list_all (list_all frag_written) (cl_queue ?c)"
    and num: "cl_num_mess ?c = int (length (cl_queue ?c))" using ok by (auto simp: writer_ok_def)
  show ?thesis
  proof (cases "cl_queue ?c")
    case Nil
    let ?w = "Message_calculate_current_location tmp n (cl_write ?c)"
    let ?f = "\<lambda>c. c\<lparr>cl_queue := [tmp], cl_num_mess := cl_num_mess c + 1, cl_write := Message_calculate_current_location tmp n (cl_write c)\<rparr>"
    let ?g = "\<lambda>c. c\<lparr>cl_num_mess := 1, cl_queue := [tmp], cl_write := ?w\<rparr>"
    have f: "?f ?c = ?g ?c" using Nil num by (cases ?c) simp
    then have "upd i ?f (quiet s) = upd i ?g (quiet s)" by (intro upd_eq) simp
    moreover obtain acts where "link_message i msg n needed s = (Suc needed, semit acts (upd i ?f s))" "\<And>k. sent_to k acts = []"
      using Nil num by (simp add: link_message_def Let_def tmp_def)
    moreover have "at_ok ?w tmp" using at_ok_location [OF wr w] n b by simp
    then have "writer_ok (?f ?c)" using wr Nil num by (simp add: writer_ok_def at_ok_def)
    moreover have "pending (?f ?c) = pending ?c @ drop n (msg_bytes msg)"
      using Nil location_rest [OF wr, of n "cl_write ?c"] b by (simp add: pending_def)
    ultimately show ?thesis
      by (intro exI [of _ "Suc needed"] exI [of _ "semit acts (upd i ?f s)"] exI [of _ 1] exI [of _ "[tmp]"] exI [of _ ?w]) simp
  next
    case (Cons a q)
    let ?f = "\<lambda>c. c\<lparr>cl_queue := cl_queue c @ [tmp], cl_num_mess := cl_num_mess c + 1\<rparr>"
    let ?g = "\<lambda>c. c\<lparr>cl_num_mess := cl_num_mess ?c + 1, cl_queue := cl_queue ?c @ [tmp], cl_write := cl_write ?c\<rparr>"
    have f: "?f ?c = ?g ?c" by (cases ?c) simp
    then have "upd i ?f (quiet s) = upd i ?g (quiet s)" by (intro upd_eq) simp
    moreover have "link_message i msg n needed s = (Suc needed, upd i ?f s)"
      using Cons num by (simp add: link_message_def Let_def tmp_def)
    moreover have "writer_ok (?f ?c)" using wr wq w Cons num ok by (simp add: writer_ok_def)
    moreover have "pending (?f ?c) = pending ?c @ drop n (msg_bytes msg)"
      using Cons first b by (simp add: pending_def)
    ultimately show ?thesis
      by (intro exI [of _ "Suc needed"] exI [of _ "upd i ?f s"] exI [of _ "cl_num_mess ?c + 1"]
          exI [of _ "cl_queue ?c @ [tmp]"] exI [of _ "cl_write ?c"]) simp
  qed
qed

text \<open>A message written to a session in operation whose queue is not full is the next one in its
  stream; other sessions are not touched.\<close>

lemma write_spec:
  assumes ix: "Sess_get_session_index_tab m s = Some (Some i)" and m: "cl_mbox (slots s i) = m"
    and op: "Is_op_session (slots s i)" and ok: "writer_ok (slots s i)" and msg: "message_ok msg"
    and room: "cl_num_mess (slots s i) < max_session_messages s"
  shows "\<exists>k t n q w. Sess_write_msg i msg needed s = Some (k, t) \<and>
    quiet t = upd i (\<lambda>c. c\<lparr>cl_num_mess := n, cl_queue := q, cl_write := w\<rparr>) (quiet s) \<and> writer_ok (slots t i) \<and>
    sent_to m (s_out t) @ pending (slots t i) = sent_to m (s_out s) @ pending (slots s i) @ msg_bytes msg \<and>
    (\<forall>k. k \<noteq> m \<longrightarrow> sent_to k (s_out t) = sent_to k (s_out s))"
proof -
  have num: "cl_num_mess (slots s i) = int (length (cl_queue (slots s i)))" using ok by (simp add: writer_ok_def)
  have "\<exists>s1 n q w. (if cl_num_mess (slots s i) > 0 then Sess_badger m s else Some s) = Some s1 \<and>
      quiet s1 = upd i (\<lambda>c. c\<lparr>cl_num_mess := n, cl_queue := q, cl_write := w\<rparr>) (quiet s) \<and> writer_ok (slots s1 i) \<and>
      sent_to m (s_out s1) @ pending (slots s1 i) = sent_to m (s_out s) @ pending (slots s i) \<and>
      (\<forall>k. k \<noteq> m \<longrightarrow> sent_to k (s_out s1) = sent_to k (s_out s))"
  proof (cases "cl_queue (slots s i)")
    case Nil
    have "slots s i = (slots s i)\<lparr>cl_num_mess := cl_num_mess (slots s i), cl_queue := cl_queue (slots s i), cl_write := cl_write (slots s i)\<rparr>"
      by simp
    then have "quiet s = upd i (\<lambda>c. c\<lparr>cl_num_mess := cl_num_mess (slots s i), cl_queue := cl_queue (slots s i), cl_write := cl_write (slots s i)\<rparr>) (quiet s)"
      by (simp add: upd_def quiet_def)
    with Nil num ok show ?thesis
      by (intro exI [of _ s] exI [of _ "cl_num_mess (slots s i)"] exI [of _ "cl_queue (slots s i)"] exI [of _ "cl_write (slots s i)"]) simp
  next
    case (Cons a q)
    then have "cl_queue (slots s i) \<noteq> []" "cl_num_mess (slots s i) > 0" using num by auto
    with badger_spec [OF ix m op ok] show ?thesis by auto
  qed
  then obtain s1 n q w where s1: "(if cl_num_mess (slots s i) > 0 then Sess_badger m s else Some s) = Some s1"
    "quiet s1 = upd i (\<lambda>c. c\<lparr>cl_num_mess := n, cl_queue := q, cl_write := w\<rparr>) (quiet s)" "writer_ok (slots s1 i)"
    "sent_to m (s_out s1) @ pending (slots s1 i) = sent_to m (s_out s) @ pending (slots s i)"
    "\<forall>k. k \<noteq> m \<longrightarrow> sent_to k (s_out s1) = sent_to k (s_out s)" by blast
  have sl: "slots s1 i = (slots s i)\<lparr>cl_num_mess := n, cl_queue := q, cl_write := w\<rparr>"
    using arg_cong [OF s1(2), of slots] by simp
  have num1: "cl_num_mess (slots s1 i) = int (length (cl_queue (slots s1 i)))" using s1(3) by (simp add: writer_ok_def)
  have tot: "total_to_send msg = length (msg_bytes msg)" using msg by (simp add: total_to_send_def message_ok_def length_msg_bytes)
  have e: "Sess_write_msg i msg needed s =
      (case (if cl_num_mess (slots s1 i) = 0 then write_message m msg s1 else Some (0, s1)) of
         None \<Rightarrow> None
       | Some (len_sent, s2) \<Rightarrow>
           Some (if len_sent < total_to_send msg then link_message i msg len_sent needed s2 else (needed, s2)))"
    using op room s1(1) by (simp add: Sess_write_msg_def Let_def m)
  have "\<exists>len s2. (if cl_num_mess (slots s1 i) = 0 then write_message m msg s1 else Some (0, s1)) = Some (len, s2) \<and>
      quiet s2 = quiet s1 \<and> sent_to m (s_out s2) = sent_to m (s_out s1) @ take len (msg_bytes msg) \<and>
      (\<forall>k. k \<noteq> m \<longrightarrow> sent_to k (s_out s2) = sent_to k (s_out s1)) \<and> len \<le> length (msg_bytes msg) \<and>
      (cl_queue (slots s1 i) \<noteq> [] \<longrightarrow> len = 0)"
    using write_message_spec [OF msg, of m s1] num1 by (cases "cl_queue (slots s1 i)") auto
  then obtain len s2 where s2: "(if cl_num_mess (slots s1 i) = 0 then write_message m msg s1 else Some (0, s1)) = Some (len, s2)"
    "quiet s2 = quiet s1" "sent_to m (s_out s2) = sent_to m (s_out s1) @ take len (msg_bytes msg)"
    "\<forall>k. k \<noteq> m \<longrightarrow> sent_to k (s_out s2) = sent_to k (s_out s1)" "len \<le> length (msg_bytes msg)"
    "cl_queue (slots s1 i) \<noteq> [] \<longrightarrow> len = 0" by blast
  have sl2: "slots s2 = slots s1" using quiet_eqs(1) [OF s2(2)] .
  show ?thesis
  proof (cases "len < length (msg_bytes msg)")
    case False
    then have "len = length (msg_bytes msg)" "cl_queue (slots s1 i) = []"
      using s2(5,6) msg by (auto simp: tot [symmetric] total_to_send_def message_ok_def Message_get_message_header_def split: list.splits)
    then have "sent_to m (s_out s2) @ pending (slots s2 i) = sent_to m (s_out s) @ pending (slots s i) @ msg_bytes msg"
      using s1(4) s2(3) sl2 by (simp add: pending_def)
    moreover have "Sess_write_msg i msg needed s = Some (needed, s2)" using e s2(1) False tot by simp
    ultimately show ?thesis using s1 s2 sl2
      by (intro exI [of _ needed] exI [of _ s2] exI [of _ n] exI [of _ q] exI [of _ w]) simp
  next
    case True
    have ok2: "writer_ok (slots s2 i)" "cl_mbox (slots s2 i) = m" using s1(3) sl2 sl m by simp_all
    have first: "cl_queue (slots s2 i) \<noteq> [] \<longrightarrow> len = 0" using s2(6) sl2 by simp
    from link_spec [OF ok2(1) msg ok2(2) True first, of needed] obtain k t n' q' w' where
      t: "link_message i msg len needed s2 = (k, t)"
        "quiet t = upd i (\<lambda>c. c\<lparr>cl_num_mess := n', cl_queue := q', cl_write := w'\<rparr>) (quiet s2)" "writer_ok (slots t i)"
        "pending (slots t i) = pending (slots s2 i) @ drop len (msg_bytes msg)"
        "\<forall>k. sent_to k (s_out t) = sent_to k (s_out s2)" by blast
    have p: "pending (slots s1 i) @ take len (msg_bytes msg) = take len (msg_bytes msg) @ pending (slots s1 i)"
      using s2(6) by (cases "cl_queue (slots s1 i)") (simp_all add: pending_def)
    have "sent_to m (s_out t) @ pending (slots t i) =
        sent_to m (s_out s1) @ (take len (msg_bytes msg) @ pending (slots s1 i)) @ drop len (msg_bytes msg)"
      using t(4,5) s2(3) sl2 by simp
    also have "\<dots> = (sent_to m (s_out s1) @ pending (slots s1 i)) @ msg_bytes msg"
      unfolding p [symmetric] by simp
    finally have st: "sent_to m (s_out t) @ pending (slots t i) = sent_to m (s_out s) @ pending (slots s i) @ msg_bytes msg"
      using s1(4) by simp
    have "quiet t = upd i (\<lambda>c. c\<lparr>cl_num_mess := n', cl_queue := q', cl_write := w'\<rparr>) (quiet s)"
      using t(2) s2(2) s1(2) by (simp add: upd_upd)
    moreover have "Sess_write_msg i msg needed s = Some (k, t)" using e s2(1) True tot t(1) by simp
    ultimately show ?thesis using st t s1(5) s2(4) by (intro exI conjI) (assumption | simp)+
  qed
qed

end
