(* ===== verification/SessInv.thy ===== *)
theory SessInv
  imports SessRead SessTableInv SessStream
begin

text \<open>
  The table of sessions stays a table: whatever the clients, the protocol and the timers make the
  daemon do, the list of sessions is sorted by name, without double names, the hash table finds
  exactly its sessions, and the counter is its length.
\<close>

section \<open>The invariant\<close>

definition sess_ok :: "sess_state \<Rightarrow> nat list \<Rightarrow> nat list \<Rightarrow> bool" where
  "sess_ok s xs fs \<longleftrightarrow>
     links_ok s xs fs \<and> hash_ok s (set xs) \<and> inj_on (\<lambda>i. cl_mbox (slots s i)) (set xs) \<and>
     sorted_wrt (<) (names s xs) \<and> Num_sessions s = int (length xs)"

lemma strcmp_less: "strcmp a b < 0 \<longleftrightarrow> a < b"
  by (simp add: strcmp_def strncmp_less)

lemma strcmp_greater: "0 < strcmp a b \<longleftrightarrow> b < a"
  using strcmp_less [of a b] strcmp_zero [of a b] by (metis antisym_conv3 not_less_iff_gr_or_eq order_less_asym)

section \<open>What leaves the table alone\<close>

definition lk :: "client \<Rightarrow> string \<times> int \<times> nat option \<times> nat option \<times> nat option" where
  "lk c = (cl_name c, cl_mbox c, sort_prev c, sort_next c, hash_next c)"

definition same_tab :: "sess_state \<Rightarrow> sess_state \<Rightarrow> bool" where
  "same_tab s t \<longleftrightarrow>
     (\<forall>j. lk (slots t j) = lk (slots s j)) \<and> Sessions_hash_head t = Sessions_hash_head s \<and>
     Sessions_head t = Sessions_head s \<and> Sessions_tail t = Sessions_tail s \<and> Sessions_free t = Sessions_free s \<and>
     Num_sessions t = Num_sessions s"

lemma same_tab_refl [simp]: "same_tab s s"
  by (simp add: same_tab_def)

lemma same_tab_trans [trans]: "same_tab s t \<Longrightarrow> same_tab t u \<Longrightarrow> same_tab s u"
  by (simp add: same_tab_def)

lemma same_tab_sym: "same_tab s t \<Longrightarrow> same_tab t s"
  by (simp add: same_tab_def)

lemma lk_eqs:
  assumes "lk c = lk d"
  shows "cl_name c = cl_name d" "cl_mbox c = cl_mbox d" "sort_prev c = sort_prev d" "sort_next c = sort_next d"
    "hash_next c = hash_next d"
  using assms by (simp_all add: lk_def)

lemma same_tab_upd [simp]: "lk (f (slots t i)) = lk (slots t i) \<Longrightarrow> same_tab s (upd i f t) = same_tab s t"
  by (auto simp: same_tab_def upd_def)

lemma same_tab_simps [simp]:
  "same_tab s (semit as t) = same_tab s t" "same_tab s (t\<lparr>recv_results := r\<rparr>) = same_tab s t"
  "same_tab s (t\<lparr>send_results := q\<rparr>) = same_tab s t" "same_tab s (t\<lparr>Grp := g\<rparr>) = same_tab s t"
  "same_tab s (t\<lparr>SessState.Session_threshold := p\<rparr>) = same_tab s t"
  "same_tab s (t\<lparr>Protocol_threshold := p\<rparr>) = same_tab s t" "same_tab s (t\<lparr>draws := ds\<rparr>) = same_tab s t"
  by (simp_all add: same_tab_def semit_def)

lemma same_tab_calls [simp]:
  "same_tab s (snd (send m bs t)) = same_tab s t" "same_tab s (snd (recv n t)) = same_tab s t"
  "same_tab s (send_ignored m bs t) = same_tab s t" "same_tab s (send_code m k t) = same_tab s t"
  "same_tab s (close_mbox m t) = same_tab s t" "same_tab s (refuse m k t) = same_tab s t"
  "same_tab s (Sess_set_active_threshold t) = same_tab s t" "same_tab s (Sess_attach_accept t) = same_tab s t"
  "same_tab s (Sess_detach_accept t) = same_tab s t" "same_tab s (set_reading i p msg t) = same_tab s t"
  by (simp_all add: send_def recv_def send_ignored_def send_code_def close_mbox_def refuse_def Let_def
      Sess_set_active_threshold_def Sess_attach_accept_def Sess_detach_accept_def split: list.split recv_result.split)
     (simp add: set_reading_def lk_def)

lemma same_tab_ok: "sess_ok s xs fs \<Longrightarrow> same_tab s t \<Longrightarrow> sess_ok t xs fs"
proof -
  assume ok: "sess_ok s xs fs" and st: "same_tab s t"
  have e: "cl_name (slots t i) = cl_name (slots s i)" "cl_mbox (slots t i) = cl_mbox (slots s i)"
    "prv t i = prv s i" "nxt t i = nxt s i" "hnx t i = hnx s i" for i
    using st by (auto simp: same_tab_def dest: lk_eqs)
  have "links_ok t xs fs"
    by (rule links_ok_cong [of s]) (use ok st in \<open>simp_all add: e sess_ok_def same_tab_def\<close>)
  moreover have "hash_ok t (set xs)"
    by (rule hash_ok_cong [of s]) (use ok st in \<open>simp_all add: e sess_ok_def same_tab_def\<close>)
  ultimately show ?thesis using ok st by (simp add: sess_ok_def same_tab_def e)
qed

section \<open>Writing\<close>

lemma same_tab_clear: "Sess_clear_session i s = Some t \<Longrightarrow> same_tab s t"
  by (auto simp: Sess_clear_session_def Let_def clear_client_def clear_status_def lk_def split: if_splits)

lemma same_tab_kill: "Sess_kill m s = Some t \<Longrightarrow> same_tab s t"
  unfolding Sess_kill_def Let_def
  by (auto split: option.splits if_splits dest!: same_tab_clear simp: same_tab_def semit_def)

lemma same_tab_part: "send_part m n bs s = Some (r, t) \<Longrightarrow> same_tab s t"
  using same_tab_calls(1) [of s m "take n bs" s] by (cases "send m (take n bs) s") (auto simp: send_part_def split: if_splits)

lemma same_tab_elements: "badger_elements m fs k w s = Some (b, w', t) \<Longrightarrow> same_tab s t"
proof (induction m fs k w s rule: badger_elements.induct)
  case (2 m f fs k w s)
  then show ?case
    by (auto split: if_splits option.splits prod.splits dest: same_tab_part intro: same_tab_trans)
qed simp

lemma same_tab_head: "badger_head m msg w s = Some (b, w', t) \<Longrightarrow> same_tab s t"
  unfolding badger_head_def
  by (auto split: if_splits option.splits prod.splits dest: same_tab_part)

lemma same_tab_queue: "badger_queue m n q w s = Some (n', q', w', t) \<Longrightarrow> same_tab s t"
proof (induction m n q w s rule: badger_queue.induct)
  case (3 m n msg q w s)
  show ?case
  proof (cases "badger_head m msg w s")
    case (Some r)
    obtain b w1 s1 where r: "r = (b, w1, s1)" by (cases r)
    have a: "same_tab s s1" using Some r by (blast intro: same_tab_head)
    show ?thesis
    proof (cases b)
      case False
      with "3.prems" Some r a show ?thesis by simp
    next
      case True
      with "3.prems" Some r obtain b2 w2 s2 where e: "badger_elements m (drop (cur_element w1) msg) (cur_byte w1) w1 s1 = Some (b2, w2, s2)"
        by (auto split: option.splits)
      have c: "same_tab s1 s2" using e by (rule same_tab_elements)
      show ?thesis
      proof (cases b2)
        case False
        with "3.prems" Some r True e a c show ?thesis by (auto intro: same_tab_trans)
      next
        case t2: True
        have "same_tab s2 t"
          using "3.prems" Some r True e t2 by (intro "3.IH" [OF Some r [symmetric] _ refl e refl _ refl]) simp_all
        with a c show ?thesis by (blast intro: same_tab_trans)
      qed
    qed
  qed (use "3.prems" in simp)
qed simp_all

lemma same_tab_badger: "Sess_badger m s = Some t \<Longrightarrow> same_tab s t"
  unfolding Sess_badger_def Let_def
  by (auto split: option.splits if_splits prod.splits dest!: same_tab_queue simp: lk_def)

lemma same_tab_write_elements: "write_elements m fs s = Some (n, t) \<Longrightarrow> same_tab s t"
proof (induction m fs s arbitrary: n rule: write_elements.induct)
  case (2 m f fs s)
  then show ?case
    by (auto split: if_splits option.splits prod.splits dest: same_tab_part intro: same_tab_trans)
qed simp

lemma same_tab_write_message: "write_message m msg s = Some (n, t) \<Longrightarrow> same_tab s t"
  unfolding write_message_def
  by (auto split: if_splits option.splits prod.splits list.splits dest!: same_tab_part same_tab_write_elements
      intro: same_tab_trans)

lemma same_tab_link: "same_tab s (snd (link_message i msg n k s))"
  by (simp add: link_message_def Let_def lk_def)

lemma same_tab_write: "Sess_write_msg i msg n s = Some (k, t) \<Longrightarrow> same_tab s t"
proof -
  assume w: "Sess_write_msg i msg n s = Some (k, t)"
  let ?m = "cl_mbox (slots s i)"
  consider "t = s" | "Sess_kill ?m s = Some t"
    | s1 len s2 where "(if cl_num_mess (slots s i) > 0 then Sess_badger ?m s else Some s) = Some s1"
        "(if cl_num_mess (slots s1 i) = 0 then write_message ?m msg s1 else Some (0, s1)) = Some (len, s2)"
        "t = s2 \<or> t = snd (link_message i msg len n s2)"
    using w unfolding Sess_write_msg_def Let_def
    by (auto split: if_splits option.splits prod.splits)
  then show ?thesis
  proof cases
    case 3
    have "same_tab s s1" using 3(1) by (auto split: if_splits dest: same_tab_badger)
    also have "same_tab s1 s2" using 3(2) by (auto split: if_splits dest: same_tab_write_message)
    also have "same_tab s2 t" using 3(3) same_tab_link by auto
    finally show ?thesis .
  qed (auto dest: same_tab_kill)
qed

section \<open>Delivering\<close>

lemma same_tab_actions: "do_group_actions as s = Some t \<Longrightarrow> same_tab s t"
proof (induction as arbitrary: s)
  case (Cons a as)
  let ?r = "case a of Sess_write m c \<Rightarrow>
                (case (Sess_get_session_index_tab m s, client_message c) of
                   (Some (Some i), Some msg) \<Rightarrow> map_option snd (Sess_write_msg i msg 0 s)
                 | _ \<Rightarrow> None)
            | GroupsState.Session_threshold p \<Rightarrow> Some (Sess_set_active_threshold (s\<lparr>SessState.Session_threshold := p\<rparr>))
            | _ \<Rightarrow> Some (semit [Groups_do a] s)"
  from Cons.prems obtain s1 where s1: "?r = Some s1" "do_group_actions as s1 = Some t"
    by (simp split: option.splits)
  have "same_tab s s1" using s1(1)
    by (auto split: group_action.splits option.splits prod.splits dest: same_tab_write)
  moreover have "same_tab s1 t" by (rule Cons.IH [OF s1(2)])
  ultimately show ?case by (rule same_tab_trans)
qed simp

lemma same_tab_groups: "with_groups f s = Some t \<Longrightarrow> same_tab s t"
  unfolding with_groups_def by (auto split: option.splits dest!: same_tab_actions simp: same_tab_def)

lemma same_tab_join: "Sess_handle_join msg s = Some t \<Longrightarrow> same_tab s t"
  and same_tab_leave: "Sess_handle_leave msg s = Some t \<Longrightarrow> same_tab s t"
  unfolding Sess_handle_join_def Sess_handle_leave_def
  by (auto split: option.splits if_splits dest: same_tab_groups)

lemma same_tab_targets: "write_targets src msg ts n s = Some t \<Longrightarrow> same_tab s t"
proof (induction src msg ts n s rule: write_targets.induct)
  case (2 src msg i ts n s)
  then show ?case
    by (auto split: if_splits option.splits prod.splits dest: same_tab_write intro: same_tab_trans)
qed simp

lemma same_tab_regular: "deliver_regular h msg s = Some t \<Longrightarrow> same_tab s t"
  unfolding deliver_regular_def Let_def by (auto split: option.splits dest: same_tab_targets)

section \<open>Sessions that go\<close>

text \<open>A session is taken out of both tables; the counter follows.\<close>

definition take_out :: "nat \<Rightarrow> sess_state \<Rightarrow> sess_state option" where
  "take_out i s =
     (case Sess_unhash_session i s of
        None \<Rightarrow> None
      | Some s1 \<Rightarrow> Some ((Sess_remove_session i s1)\<lparr>Num_sessions := Num_sessions s1 - 1\<rparr>))"

lemma denied_takes_out:
  "Sess_session_denied i s = (if \<not> Is_preauth_session (slots s i) then None
     else take_out i (send_code (cl_mbox (slots s i)) REJECT_AUTH s))"
  by (simp add: Sess_session_denied_def take_out_def)

lemma take_out_ok:
  assumes ok: "sess_ok s (as @ i # bs) fs"
  shows "\<exists>t. take_out i s = Some t \<and> sess_ok t (as @ bs) (i # fs) \<and>
    (\<forall>j. j \<noteq> i \<longrightarrow> cl_name (slots t j) = cl_name (slots s j) \<and> cl_mbox (slots t j) = cl_mbox (slots s j)) \<and>
    s_out t = s_out s @ [Closed (cl_mbox (slots s i))]"
proof -
  let ?xs = "as @ i # bs"
  have l: "links_ok s ?xs fs" and h: "hash_ok s (set ?xs)" and inj: "inj_on (\<lambda>j. cl_mbox (slots s j)) (set ?xs)"
    and so: "sorted_wrt (<) (names s ?xs)" and n: "Num_sessions s = int (length ?xs)"
    using ok unfolding sess_ok_def by blast+
  have "distinct (?xs @ fs)" using l unfolding links_ok_def by blast
  then have d: "distinct ?xs" by (simp only: distinct_append)
  from unhash_ok [OF h, of i] obtain u where u: "Sess_unhash_session i s = Some u" "hash_ok u (set ?xs - {i})"
    "\<forall>j. (slots u j)\<lparr>hash_next := None\<rparr> = (slots s j)\<lparr>hash_next := None\<rparr>"
    "Sessions_head u = Sessions_head s" "Sessions_tail u = Sessions_tail s" "Sessions_free u = Sessions_free s"
    "sess_table.more u = sess_table.more s" by auto
  have e: "cl_name (slots u j) = cl_name (slots s j)" "cl_mbox (slots u j) = cl_mbox (slots s j)"
    "prv u j = prv s j" "nxt u j = nxt s j" for j
    using u(3) [rule_format, of j] by (cases "slots u j"; cases "slots s j"; simp)+
  have "links_ok u ?xs fs" by (rule links_ok_cong [OF l]) (simp_all add: e u)
  note r = remove_ok [OF this]
  let ?v = "Sess_remove_session_tab i u"
  have c: "core (slots ?v j) = core (slots u j)" if "j \<noteq> i" for j
    using r that by (simp add: same_but_def)
  have ev: "cl_name (slots ?v j) = cl_name (slots s j)" "cl_mbox (slots ?v j) = cl_mbox (slots s j)" "hnx ?v j = hnx u j"
    if "j \<noteq> i" for j
    using core_eqs [OF c [OF that]] e by simp_all
  let ?t = "(Sess_remove_session i u)\<lparr>Num_sessions := Num_sessions u - 1\<rparr>"
  have st: "slots ?t = slots ?v" "Sessions_head ?t = Sessions_head ?v" "Sessions_tail ?t = Sessions_tail ?v"
    "Sessions_free ?t = Sessions_free ?v" "Sessions_hash_head ?t = Sessions_hash_head ?v"
    by (simp_all add: Sess_remove_session_def close_mbox_def)
  have H: "set ?xs - {i} = set (as @ bs)" using d by auto
  have ne: "j \<noteq> i" if "j \<in> set (as @ bs)" for j using that d by auto
  have tl: "links_ok ?t (as @ bs) (i # fs)" by (rule links_ok_cong [of ?v]) (use r in \<open>simp_all add: st\<close>)
  have th: "hash_ok ?t (set (as @ bs))"
    by (rule hash_ok_cong [of u]) (use r u(2) H ne ev e in \<open>simp_all add: st same_but_def\<close>)
  have ti: "inj_on (\<lambda>j. cl_mbox (slots ?t j)) (set (as @ bs))"
    using inj ne ev by (auto simp: st inj_on_def)
  have "names ?t (as @ bs) = names s (as @ bs)" using ne ev by (simp add: st)
  moreover have "sorted_wrt (<) (names s (as @ bs))" using so by (simp add: sorted_wrt_append)
  ultimately have ts: "sorted_wrt (<) (names ?t (as @ bs))" by (simp only:)
  have um: "Num_sessions u = Num_sessions s" "s_out u = s_out s" using u(7) by (cases u; cases s; simp)+
  have "sess_ok ?t (as @ bs) (i # fs)" using tl th ti ts um(1) n by (simp add: sess_ok_def del: map_append)
  moreover have "s_out ?v = s_out u" using r by (cases ?v; cases u; simp add: same_but_def)
  then have "s_out ?t = s_out s @ [Closed (cl_mbox (slots s i))]"
    using um(2) e by (simp add: Sess_remove_session_def close_mbox_def)
  ultimately show ?thesis using u(1) ne ev by (intro exI [of _ ?t] conjI) (simp_all add: take_out_def st)
qed

section \<open>Steps\<close>

text \<open>
  \<open>w\<close> tells whether a connection waits to be continued. The mailbox that waits in the template is
  then not one of the table, and an entry is free.
\<close>

definition sess_inv :: "sess_state \<Rightarrow> bool \<Rightarrow> bool" where
  "sess_inv s w \<longleftrightarrow> (\<exists>xs fs. sess_ok s xs fs \<and>
     (w \<longrightarrow> cl_mbox (slots s TMPL) \<notin> (\<lambda>i. cl_mbox (slots s i)) ` set xs \<and> length xs < MAX_SESSIONS))"

lemma sess_invI: "sess_ok s xs fs \<Longrightarrow>
    (w \<Longrightarrow> cl_mbox (slots s TMPL) \<notin> (\<lambda>i. cl_mbox (slots s i)) ` set xs \<and> length xs < MAX_SESSIONS) \<Longrightarrow> sess_inv s w"
  by (auto simp: sess_inv_def)

lemma inv_same_tab: "sess_inv s w \<Longrightarrow> same_tab s t \<Longrightarrow> sess_inv t w"
proof -
  assume "sess_inv s w" and st: "same_tab s t"
  then obtain xs fs where x: "sess_ok s xs fs"
    "w \<longrightarrow> cl_mbox (slots s TMPL) \<notin> (\<lambda>i. cl_mbox (slots s i)) ` set xs \<and> length xs < MAX_SESSIONS"
    by (auto simp: sess_inv_def)
  have "cl_mbox (slots t i) = cl_mbox (slots s i)" for i using st by (auto simp: same_tab_def dest: lk_eqs)
  with x same_tab_ok [OF x(1) st] show ?thesis by (intro sess_invI) simp_all
qed

lemma sess_ok_TMPL: "sess_ok s xs fs \<Longrightarrow> i \<in> set xs \<Longrightarrow> i \<noteq> TMPL"
  by (auto simp: sess_ok_def links_ok_def)

text \<open>An entry of the table.\<close>

definition in_table :: "nat \<Rightarrow> sess_state \<Rightarrow> bool" where
  "in_table i s \<longleftrightarrow> (\<forall>xs fs. sess_ok s xs fs \<longrightarrow> i \<in> set xs)"

lemma in_table_same: "in_table i s \<Longrightarrow> same_tab s t \<Longrightarrow> in_table i t"
  unfolding in_table_def using same_tab_ok [OF _ same_tab_sym] by blast

lemma index_found: "Sess_get_session_index_tab m s = Some (Some i) \<Longrightarrow> in_table i s"
  unfolding in_table_def
proof (intro allI impI)
  fix xs fs
  assume r: "Sess_get_session_index_tab m s = Some (Some i)" and ok: "sess_ok s xs fs"
  have h: "hash_ok s (set xs)" "inj_on (\<lambda>i. cl_mbox (slots s i)) (set xs)" using ok by (simp_all add: sess_ok_def)
  with index_tab_None [OF h] r obtain j where j: "j \<in> set xs" "cl_mbox (slots s j) = m" by force
  with index_tab_Some [OF h j(1)] r show "i \<in> set xs" by auto
qed

lemma index_in:
  assumes "sess_ok s xs fs" "Sess_get_session_index_tab m s = Some (Some i)"
  shows "cl_mbox (slots s i) = m"
proof -
  have h: "hash_ok s (set xs)" "inj_on (\<lambda>i. cl_mbox (slots s i)) (set xs)" using assms(1) by (simp_all add: sess_ok_def)
  with index_tab_None [OF h] assms(2) obtain j where j: "j \<in> set xs" "cl_mbox (slots s j) = m" by force
  with index_tab_Some [OF h j(1)] assms(2) show ?thesis by auto
qed

lemma name_found: "Sess_get_session_tab nm s = Some (Some i) \<Longrightarrow> in_table i s"
  unfolding in_table_def
proof (intro allI impI)
  fix xs fs
  assume r: "Sess_get_session_tab nm s = Some (Some i)" and ok: "sess_ok s xs fs"
  have "links_ok s xs fs" using ok by (simp add: sess_ok_def)
  from Sess_get_session_refines [OF this, of nm] r show "i \<in> set xs" by auto
qed

lemma inv_take_out:
  assumes inv: "sess_inv s w" and i: "in_table i s" and t: "take_out i s = Some t"
  shows "sess_inv t w"
proof -
  from inv obtain xs fs where x: "sess_ok s xs fs"
    "w \<longrightarrow> cl_mbox (slots s TMPL) \<notin> (\<lambda>i. cl_mbox (slots s i)) ` set xs \<and> length xs < MAX_SESSIONS"
    by (auto simp: sess_inv_def)
  have xi: "i \<in> set xs" using i x(1) unfolding in_table_def by blast
  then obtain as bs where s: "xs = as @ i # bs" by (meson split_list)
  have r: "sess_ok t (as @ bs) (i # fs)" "\<And>j. j \<noteq> i \<Longrightarrow> cl_mbox (slots t j) = cl_mbox (slots s j)"
    using take_out_ok [OF x(1) [unfolded s]] t by auto
  have T: "i \<noteq> TMPL" using sess_ok_TMPL [OF x(1) xi] .
  have "distinct (xs @ fs)" using x(1) unfolding sess_ok_def links_ok_def by blast
  then have d: "i \<notin> set (as @ bs)" by (simp add: s)
  have "(\<lambda>j. cl_mbox (slots t j)) ` set (as @ bs) = (\<lambda>j. cl_mbox (slots s j)) ` set (as @ bs)"
    by (rule image_cong) (use r(2) d in \<open>force+\<close>)
  then show ?thesis using r(1) r(2) [of TMPL] T x(2) s by (intro sess_invI [of t "as @ bs" "i # fs"]) auto
qed

lemma inv_denied:
  assumes "sess_inv s w" "in_table i s" "Sess_session_denied i s = Some t"
  shows "sess_inv t w"
proof -
  let ?s = "send_code (cl_mbox (slots s i)) REJECT_AUTH s"
  have st: "same_tab s ?s" by simp
  have "sess_inv ?s w" "in_table i ?s" using inv_same_tab [OF assms(1) st] in_table_same [OF assms(2) st] .
  with assms(3) show ?thesis by (auto simp: denied_takes_out split: if_splits intro: inv_take_out)
qed

lemma inv_authorized: "sess_inv s w \<Longrightarrow> Sess_session_authorized i s = Some t \<Longrightarrow> sess_inv t w"
proof (rule inv_same_tab)
  assume "Sess_session_authorized i s = Some t"
  then show "same_tab s t"
    by (auto simp: Sess_session_authorized_def Let_def authorize_def clear_status_def set_status_def lk_def split: if_splits)
qed

lemma inv_report:
  "sess_inv s w \<Longrightarrow> Sess_session_report_auth_result sa b s = Some t \<Longrightarrow> sess_inv t w"
proof (induction sa b s rule: Sess_session_report_auth_result.induct)
  case (1 sa b s)
  show ?case
  proof (cases "Sess_get_session_index_tab (sa_mbox sa) s")
    case (Some r)
    show ?thesis
    proof (cases r)
      case None
      with "1.prems" Some show ?thesis by (simp add: Sess_session_report_auth_result.simps)
    next
      case (Some i)
      have it: "in_table i s" using \<open>Sess_get_session_index_tab (sa_mbox sa) s = Some r\<close> Some by (auto intro: index_found)
      note idx = \<open>Sess_get_session_index_tab (sa_mbox sa) s = Some r\<close> [unfolded Some]
      show ?thesis
      proof (cases "Suc (completed_required_auths sa) < length (required_auth_methods sa)")
        case True
        with "1.prems"(2) idx obtain m where m: "Acm_auth_get_auth_client_connection
            (required_auth_methods sa ! Suc (completed_required_auths sa)) (Acl s) = Some m"
          by (auto simp: Sess_session_report_auth_result.simps Let_def split: option.splits)
        show ?thesis
        proof (cases "m = No_auth")
          case No: True
          with "1.prems" idx True m it show ?thesis
            by (auto simp: Sess_session_report_auth_result.simps [of sa] Let_def intro: inv_denied)
        next
          case False
          with "1.prems"(2) idx True m obtain res where res: "module_decision m (sa_mbox sa) s = Some res"
            by (auto simp: Sess_session_report_auth_result.simps [of sa] Let_def split: option.splits)
          show ?thesis
            by (rule "1.IH" [OF idx refl refl refl refl True m False res "1.prems"(1)])
               (use "1.prems"(2) idx True m False res in \<open>simp add: Sess_session_report_auth_result.simps [of sa] Let_def\<close>)
        qed
      next
        case False
        with "1.prems" idx it show ?thesis
          by (auto simp: Sess_session_report_auth_result.simps [of sa] Let_def split: if_splits
              intro: inv_denied inv_authorized)
      qed
    qed
  qed (use "1.prems" in \<open>simp add: Sess_session_report_auth_result.simps\<close>)
qed

lemma inv_auth_open: "sess_inv s w \<Longrightarrow> auth_open m sa s = Some t \<Longrightarrow> sess_inv t w"
  by (auto simp: auth_open_def split: option.splits intro: inv_report)

lemma inv_ops: "sess_inv (upd i (\<lambda>c. c\<lparr>cl_acp_ops := ops\<rparr>) s) w = sess_inv s w"
  and in_table_ops: "in_table j (upd i (\<lambda>c. c\<lparr>cl_acp_ops := ops\<rparr>) s) = in_table j s"
proof -
  have st: "same_tab s (upd i (\<lambda>c. c\<lparr>cl_acp_ops := ops\<rparr>) s)" by (simp add: lk_def)
  show "sess_inv (upd i (\<lambda>c. c\<lparr>cl_acp_ops := ops\<rparr>) s) w = sess_inv s w"
    using inv_same_tab [OF _ st] inv_same_tab [OF _ same_tab_sym [OF st]] by blast
  show "in_table j (upd i (\<lambda>c. c\<lparr>cl_acp_ops := ops\<rparr>) s) = in_table j s"
    using in_table_same [OF _ st] in_table_same [OF _ same_tab_sym [OF st]] by blast
qed

lemma inv_admit: "sess_inv s w \<Longrightarrow> in_table i s \<Longrightarrow> admit i v s = Some t \<Longrightarrow> sess_inv t w"
proof -
  assume inv: "sess_inv s w" and i: "in_table i s" and t: "admit i v s = Some t"
  show ?thesis
  proof (cases "version_number v < 31600")
    case True
    with t have "admit_old i s = Some t" by (simp add: admit_def)
    then obtain ops where o: "Acm_acp_fill_ops (Acl s) = Some ops" by (auto simp: admit_old_def split: option.splits)
    define u where "u = upd i (\<lambda>c. c\<lparr>cl_acp_ops := ops\<rparr>) s"
    have u: "sess_inv u w" "in_table i u" using inv i by (simp_all only: u_def inv_ops in_table_ops)
    consider a sa where "auth_open a sa u = Some t" | "Sess_session_authorized i u = Some t" | "Sess_session_denied i u = Some t"
      using \<open>admit_old i s = Some t\<close> unfolding admit_old_def o option.case Let_def u_def [symmetric]
      by (auto split: option.splits if_splits)
    then show ?thesis
      by cases (use u in \<open>blast intro: inv_auth_open inv_authorized inv_denied\<close>)+
  next
    case False
    let ?m = "cl_mbox (slots s i)" and ?a = "Acm_auth_get_allowed_list (Acl s)"
    let ?s = "send_ignored ?m (chars ?a) (send_code ?m (int (length ?a)) s)"
    have st: "same_tab s ?s" by simp
    have s: "sess_inv ?s w" "in_table i ?s" using inv_same_tab [OF inv st] in_table_same [OF i st] .
    consider "Sess_session_denied i ?s = Some t" | as where "t = semit as ?s"
      using t False by (auto simp: admit_def Let_def split: if_splits)
    then show ?thesis
    proof cases
      case 1
      with s show ?thesis by (rule inv_denied)
    next
      case 2
      with s(1) show ?thesis by (auto intro: inv_same_tab)
    qed
  qed
qed

lemma inv_client_auth: "sess_inv s w \<Longrightarrow> Sess_recv_client_auth m s = Some t \<Longrightarrow> sess_inv t w"
proof -
  assume inv: "sess_inv s w" and t: "Sess_recv_client_auth m s = Some t"
  let ?s = "semit [Detached m READ_FD, Detached m EXCEPT_FD] s" and ?n = "MAX_AUTH_NAME * MAX_AUTH_METHODS"
  consider "t = s" | i where "Sess_get_session_index_tab m s = Some (Some i)"
    using t by (auto simp: Sess_recv_client_auth_def split: option.splits)
  then show ?thesis
  proof cases
    case 2
    let ?u = "snd (recv ?n ?s)"
    have st: "same_tab s ?u" by simp
    have u: "sess_inv ?u w" "in_table i ?u" using inv_same_tab [OF inv st] in_table_same [OF index_found [OF 2] st] .
    obtain r u' where r: "recv ?n ?s = (r, u')" by (cases "recv ?n ?s")
    have t2: "(case r of Data bs \<Rightarrow>
        if length bs < ?n then Sess_session_denied i u'
        else (case names_allowed MAX_AUTH_METHODS 0 bs (Acl s) of
                None \<Rightarrow> None
              | Some False \<Rightarrow> Sess_session_denied i u'
              | Some True \<Rightarrow>
                  (case Acm_acp_fill_ops (Acl s) of
                     None \<Rightarrow> None
                   | Some ops \<Rightarrow>
                       let s2 = upd i (\<lambda>c. c\<lparr>cl_acp_ops := ops\<rparr>) u'
                       in case Acm_auth_create_sess_info m bs (Acl s) of
                            None \<Rightarrow> None
                          | Some None \<Rightarrow> Sess_session_denied i s2
                          | Some (Some sa) \<Rightarrow>
                              (case Acm_auth_get_auth_client_connection (hd (required_auth_methods sa)) (Acl s) of
                                 None \<Rightarrow> None
                               | Some m \<Rightarrow> if m = No_auth then Sess_session_denied i s2 else auth_open m sa s2)))
      | _ \<Rightarrow> Sess_session_denied i u') = Some t"
      using t 2 r by (simp add: Sess_recv_client_auth_def split: if_splits)
    consider "Sess_session_denied i u' = Some t"
      | ops where "Sess_session_denied i (upd i (\<lambda>c. c\<lparr>cl_acp_ops := ops\<rparr>) u') = Some t"
      | ops a sa where "auth_open a sa (upd i (\<lambda>c. c\<lparr>cl_acp_ops := ops\<rparr>) u') = Some t"
    proof (cases r)
      case (Data bs)
      show ?thesis
      proof (cases "length bs < ?n \<or> names_allowed MAX_AUTH_METHODS 0 bs (Acl s) = Some False")
        case False
        with t2 Data have n: "names_allowed MAX_AUTH_METHODS 0 bs (Acl s) = Some True"
          by (simp split: option.splits bool.splits)
        with t2 Data False obtain ops where "Acm_acp_fill_ops (Acl s) = Some ops" by (simp split: option.splits)
        with t2 Data False n that(2,3) show ?thesis by (simp add: Let_def split: option.splits if_splits)
      next
        case True
        then have "Sess_session_denied i u' = Some t" by (cases "length bs < ?n") (use t2 Data in simp_all)
        then show ?thesis by (rule that(1))
      qed
    qed (use t2 that(1) in \<open>simp_all\<close>)
    then show ?thesis
    proof cases
      case 1
      with u r show ?thesis by (auto intro: inv_denied)
    next
      case (2 ops)
      with u r show ?thesis by (intro inv_denied [OF _ _ 2]) (simp_all only: inv_ops in_table_ops snd_conv)
    next
      case (3 ops a sa)
      with u r show ?thesis by (intro inv_auth_open [OF _ 3]) (simp only: inv_ops snd_conv)
    qed
  qed (use inv in simp)
qed

section \<open>The handlers\<close>

lemma inv_handle_kill: "sess_inv s w \<Longrightarrow> Sess_handle_kill msg s = Some t \<Longrightarrow> sess_inv t w"
proof -
  assume inv: "sess_inv s w" and k: "Sess_handle_kill msg s = Some t"
  then obtain h priv pn s1 where s1: "with_groups (G_handle_kill (head_name h)) s = Some s1"
    and r: "(if p_name (Sess_My s1) \<noteq> pn then Some s1
             else case Sess_get_session_tab priv s1 of
                    None \<Rightarrow> None
                  | Some None \<Rightarrow> Some s1
                  | Some (Some i) \<Rightarrow> if Is_op_session (slots s1 i) then None else take_out i s1) = Some t"
    unfolding Sess_handle_kill_def take_out_def
    by (auto simp only: option.case prod.case split: option.splits prod.splits)
  have "sess_inv s1 w" using inv same_tab_groups [OF s1] by (rule inv_same_tab)
  then show ?thesis using r
    by (auto split: if_splits option.splits dest: name_found intro: inv_take_out)
qed

lemma inv_deliver: "sess_inv s w \<Longrightarrow> Sess_deliver_message msg s = Some t \<Longrightarrow> sess_inv t w"
proof -
  assume inv: "sess_inv s w" and d: "Sess_deliver_message msg s = Some t"
  then consider m where "Sess_handle_join m s = Some t" | m where "Sess_handle_leave m s = Some t"
    | m where "Sess_handle_kill m s = Some t" | f where "with_groups f s = Some t" | h m where "deliver_regular h m s = Some t"
    unfolding Sess_deliver_message_def by (auto split: option.splits if_splits)
  then show ?thesis
    by cases (use inv in \<open>blast intro: inv_same_tab inv_handle_kill same_tab_join same_tab_leave same_tab_groups same_tab_regular\<close>)+
qed

lemma same_tab_header: "same_tab s (snd (read_header i p msg s))"
proof (cases "in_mess_head p \<and> \<not> cur_byte p > HEAD")
  case True
  obtain r u where r: "recv (HEAD - cur_byte p) s = (r, u)" by (cases "recv (HEAD - cur_byte p) s")
  have u: "same_tab s u" using same_tab_calls(2) [of s "HEAD - cur_byte p" s] r by simp
  show ?thesis using True r u
    by (auto simp: read_header_def Let_def split: recv_result.split option.split sum.split)
qed (auto simp: read_header_def)

lemma same_tab_round:
  "body_round i n p msg s = Inl (r, t) \<Longrightarrow> same_tab s t" "body_round i n p msg s = Inr (k, p', msg', t) \<Longrightarrow> same_tab s t"
proof -
  have "case body_round i n p msg s of Inl (r, t) \<Rightarrow> same_tab s t | Inr (k, p', msg', t) \<Rightarrow> same_tab s t"
  proof (cases "cur_byte p \<ge> FRAG \<or> cur_element p \<ge> length msg \<and> cur_byte p \<noteq> 0")
    case False
    obtain r u where r: "recv (min (FRAG - cur_byte p) n) s = (r, u)" by (cases "recv (min (FRAG - cur_byte p) n) s")
    have u: "same_tab s u" using same_tab_calls(2) [of s "min (FRAG - cur_byte p) n" s] r by simp
    show ?thesis unfolding body_round_def if_not_P [OF False] Let_def r prod.case
      using u by (simp split: recv_result.split option.split)
  qed (simp add: body_round_def)
  then show "body_round i n p msg s = Inl (r, t) \<Longrightarrow> same_tab s t" "body_round i n p msg s = Inr (k, p', msg', t) \<Longrightarrow> same_tab s t"
    by auto
qed

lemma same_tab_body: "same_tab s (snd (read_body i n p msg s))"
proof (induction i n p msg s rule: read_body.induct)
  case (1 i n p msg s)
  show ?case
  proof (cases "n = 0")
    case True
    then show ?thesis by (subst read_body.simps) simp
  next
    case False
    show ?thesis
    proof (cases "body_round i n p msg s")
      case (Inl r)
      with False same_tab_round(1) [of i n p msg s "fst r" "snd r"] show ?thesis by (subst read_body.simps) simp
    next
      case (Inr r)
      obtain k p1 m1 s1 where r: "r = (k, p1, m1, s1)" by (cases r)
      have "same_tab s s1" using Inr r same_tab_round(2) by blast
      also have "same_tab s1 (snd (read_body i (n - k) p1 m1 s1))" using "1.IH" [OF False Inr] r by blast
      finally show ?thesis using False Inr r by (subst read_body.simps) simp
    qed
  qed
qed

lemma same_tab_read: "same_tab s (snd (read_message i s))"
proof -
  define msg where "msg = (case cl_read_mess (slots s i) of None \<Rightarrow> Message_new_message | Some m \<Rightarrow> m)"
  obtain r u where r: "read_header i (cl_read (slots s i)) msg s = (r, u)" by (cases "read_header i (cl_read (slots s i)) msg s")
  have u: "same_tab s u" using same_tab_header [of s i "cl_read (slots s i)" msg] r by simp
  show ?thesis unfolding read_message_def msg_def [symmetric] Let_def r prod.case
    using u same_tab_trans [OF u same_tab_body] by (auto split: option.split sum.split)
qed

lemma inv_dispatch: "sess_inv s w \<Longrightarrow> dispatch_message i msg s = Some t \<Longrightarrow> sess_inv t w"
proof -
  assume inv: "sess_inv s w" and d: "dispatch_message i msg s = Some t"
  have rej: "sess_inv t w" if "reject m s = Some t" for m
    using that inv unfolding reject_def Sess_deliver_reject_def by (auto split: option.splits intro: inv_deliver)
  from d obtain h where "(\<exists>m. reject m s = Some t) \<or> forward_message i h msg s = Some t"
    unfolding dispatch_message_def by (auto split: option.splits)
  then show ?thesis
  proof
    assume f: "forward_message i h msg s = Some t"
    have "same_tab s t" using f unfolding forward_message_def Let_def
      by (auto split: option.splits if_splits dest: same_tab_kill same_tab_clear)
    with inv show ?thesis by (rule inv_same_tab)
  qed (use rej in blast)
qed

lemma inv_read: "sess_inv s w \<Longrightarrow> Sess_read m s = Some t \<Longrightarrow> sess_inv t w"
proof -
  assume inv: "sess_inv s w" and d: "Sess_read m s = Some t"
  show ?thesis
  proof (cases "Sess_get_session_index_tab m s")
    case (Some found)
    show ?thesis
    proof (cases found)
      case None
      with d inv Some show ?thesis by (simp add: Sess_read_def)
    next
      case (Some i)
      obtain r u where r: "read_message i s = (r, u)" by (cases "read_message i s")
      have u: "sess_inv u w" using inv_same_tab [OF inv] same_tab_read [of s i] r by simp
      show ?thesis using d \<open>Sess_get_session_index_tab m s = Some found\<close> Some r u
        by (auto simp: Sess_read_def split: option.splits reading.splits dest: same_tab_kill intro: inv_same_tab inv_dispatch)
    qed
  qed (use d in \<open>simp add: Sess_read_def\<close>)
qed

end
