(* ===== verification/SessSteps.thy ===== *)
theory SessSteps
  imports SessInv
begin

text \<open>
  Connecting, and the steps of the session layer as a whole: the table stays a table from the
  start of the daemon on.
\<close>

section \<open>The template\<close>

lemma sess_ok_template: "sess_ok s xs fs \<Longrightarrow> sess_ok (upd TMPL f s) xs fs"
proof -
  assume ok: "sess_ok s xs fs"
  then have l: "links_ok s xs fs" and h: "hash_ok s (set xs)" by (simp_all add: sess_ok_def)
  have n: "i \<noteq> TMPL" if "i \<in> set xs" for i using sess_ok_TMPL [OF ok that] .
  have "links_ok (upd TMPL f s) xs fs" by (rule links_ok_cong [OF l]) simp_all
  moreover have "hash_ok (upd TMPL f s) (set xs)" by (rule hash_ok_cong [OF h]) (use n in auto)
  moreover have "names (upd TMPL f s) xs = names s xs" using n by auto
  moreover have "inj_on (\<lambda>i. cl_mbox (slots (upd TMPL f s) i)) (set xs) = inj_on (\<lambda>i. cl_mbox (slots s i)) (set xs)"
    using n by (intro inj_on_cong) auto
  moreover have "Num_sessions (upd TMPL f s) = Num_sessions s" by (simp add: upd_def)
  ultimately show ?thesis using ok by (simp only: sess_ok_def)
qed

lemma inv_template:
  assumes "sess_inv s w" "w \<Longrightarrow> cl_mbox (f (slots s TMPL)) = cl_mbox (slots s TMPL)"
  shows "sess_inv (upd TMPL f s) w"
proof -
  from assms(1) obtain xs fs where x: "sess_ok s xs fs"
    "w \<longrightarrow> cl_mbox (slots s TMPL) \<notin> (\<lambda>i. cl_mbox (slots s i)) ` set xs \<and> length xs < MAX_SESSIONS"
    by (auto simp: sess_inv_def)
  have "(\<lambda>i. cl_mbox (slots (upd TMPL f s) i)) ` set xs = (\<lambda>i. cl_mbox (slots s i)) ` set xs"
    by (rule image_cong) (use sess_ok_TMPL [OF x(1)] in auto)
  then show ?thesis using x(2) assms(2) sess_ok_template [OF x(1)] by (intro sess_invI [of _ xs fs]) auto
qed

lemma sess_ok_unique: "sess_ok s xs fs \<Longrightarrow> sess_ok s ys gs \<Longrightarrow> ys = xs"
proof -
  assume "sess_ok s xs fs" "sess_ok s ys gs"
  then have "list_walk (slots s) (Sessions_head s) = Some xs" "list_walk (slots s) (Sessions_head s) = Some ys"
    by (auto simp: sess_ok_def links_ok_def intro: list_walk_seg)
  then show ?thesis by simp
qed

lemma in_tableI: "sess_ok s xs fs \<Longrightarrow> i \<in> set xs \<Longrightarrow> in_table i s"
  by (auto simp: in_table_def dest: sess_ok_unique)

section \<open>Accepting\<close>

text \<open>The mailbox of a new connection is not one of an open session.\<close>

definition new_mbox :: "int \<Rightarrow> sess_state \<Rightarrow> bool" where
  "new_mbox m s \<longleftrightarrow> Sess_get_session_index_tab m s = Some None"

definition waits_after :: "int \<Rightarrow> sess_state \<Rightarrow> bool" where
  "waits_after m s \<longleftrightarrow> m \<noteq> -1 \<and> Num_sessions s < int MAX_SESSIONS"

lemma inv_accept:
  assumes "sess_inv s False" "new_mbox m s" "Sess_accept u m a s = Some t"
  shows "sess_inv t (waits_after m s)"
proof -
  from assms(1) obtain xs fs where ok: "sess_ok s xs fs" by (auto simp: sess_inv_def)
  then have h: "hash_ok s (set xs)" "inj_on (\<lambda>i. cl_mbox (slots s i)) (set xs)" and n: "Num_sessions s = int (length xs)"
    by (simp_all add: sess_ok_def)
  have m: "m \<notin> (\<lambda>i. cl_mbox (slots s i)) ` set xs"
    using index_tab_Some [OF h] assms(2) by (auto simp: new_mbox_def)
  let ?f = "\<lambda>c. c\<lparr>cl_addr := if u then None else a, cl_mbox := m\<rparr>" let ?s = "upd TMPL ?f s"
  have ok1: "sess_ok ?s xs fs" using ok by (rule sess_ok_template)
  have "(\<lambda>i. cl_mbox (slots ?s i)) ` set xs = (\<lambda>i. cl_mbox (slots s i)) ` set xs"
    by (rule image_cong) (use sess_ok_TMPL [OF ok] in auto)
  then have "sess_inv ?s (waits_after m s)"
    using m n by (intro sess_invI [OF ok1]) (simp add: waits_after_def)
  moreover have "same_tab ?s t"
    using assms(3) by (auto simp: Sess_accept_def Let_def split: if_splits option.splits)
  ultimately show ?thesis by (rule inv_same_tab)
qed

section \<open>A new session\<close>

lemma place_ok:
  assumes ok: "sess_ok s xs fs" and f: "find_place nm s = Some (place, True)"
  obtains as bs where "xs = as @ bs" "place = (case bs of [] \<Rightarrow> None | b # _ \<Rightarrow> Some b)"
    "\<forall>i \<in> set as. cl_name (slots s i) < nm" "\<forall>i \<in> set bs. nm < cl_name (slots s i)"
proof -
  have "seg (nxt s) (Sessions_head s) xs None" and so: "sorted_wrt (<) (names s xs)"
    using ok by (simp_all add: sess_ok_def links_ok_def)
  from place_walk_seg [OF this(1), of nm] obtain as bs where p: "xs = as @ bs"
    "\<forall>i \<in> set as. strcmp nm (cl_name (slots s i)) > 0"
    "\<forall>b bs'. bs = b # bs' \<longrightarrow> strcmp nm (cl_name (slots s b)) \<le> 0"
    "find_place nm s = Some (case bs of [] \<Rightarrow> (None, True) | b # _ \<Rightarrow> (Some b, strcmp nm (cl_name (slots s b)) \<noteq> 0))"
    unfolding find_place_def by blast
  have "\<forall>i \<in> set bs. nm < cl_name (slots s i)"
  proof (cases bs)
    case (Cons b bs')
    with p(3,4) f have "strcmp nm (cl_name (slots s b)) < 0" by auto
    then have "nm < cl_name (slots s b)" by (simp add: strcmp_less)
    with so p(1) Cons show ?thesis by (auto simp: sorted_wrt_append)
  qed simp
  moreover have "place = (case bs of [] \<Rightarrow> None | b # _ \<Rightarrow> Some b)" using p(4) f by (cases bs) auto
  ultimately show thesis using p(1,2) that by (auto simp: strcmp_greater)
qed

text \<open>The entry is counted, marked and hashed.\<close>

lemma enter_ok:
  assumes ok: "sess_ok s (as @ bs) (i # fs)"
    and nm: "\<forall>j \<in> set as. cl_name (slots s j) < cl_name (slots s TMPL)"
      "\<forall>j \<in> set bs. cl_name (slots s TMPL) < cl_name (slots s j)"
    and mb: "cl_mbox (slots s TMPL) \<notin> (\<lambda>j. cl_mbox (slots s j)) ` set (as @ bs)"
    and t: "Sess_insert_new_session (case bs of [] \<Rightarrow> None | b # _ \<Rightarrow> Some b) TMPL s = Some (k, t)"
  shows "k = i \<and> sess_ok (Sess_hash_session i (upd i (set_status PRE_AUTH_SESSION) (t\<lparr>Num_sessions := Num_sessions t + 1\<rparr>)))
    (as @ i # bs) fs"
proof -
  have l: "links_ok s (as @ bs) (i # fs)" and h: "hash_ok s (set (as @ bs))" and n: "Num_sessions s = int (length (as @ bs))"
    and so: "sorted_wrt (<) (names s (as @ bs))" and inj: "inj_on (\<lambda>j. cl_mbox (slots s j)) (set (as @ bs))"
    using ok unfolding sess_ok_def by blast+
  from insert_ok [OF l, of TMPL] t have k: "k = i" and lt: "links_ok t (as @ i # bs) fs"
    and sb: "same_but {i} s t" and ci: "core (slots t i) = core (slots s TMPL)" by auto
  have "distinct ((as @ bs) @ i # fs)" using l unfolding links_ok_def by blast
  then have i: "i \<notin> set (as @ bs)" by simp
  have e: "cl_name (slots t j) = cl_name (slots s j)" "cl_mbox (slots t j) = cl_mbox (slots s j)" "hnx t j = hnx s j"
    if "j \<noteq> i" for j using sb that core_eqs [of "slots t j" "slots s j"] by (simp_all add: same_but_def)
  have ei: "cl_name (slots t i) = cl_name (slots s TMPL)" "cl_mbox (slots t i) = cl_mbox (slots s TMPL)"
    using core_eqs [OF ci] by simp_all
  let ?v = "upd i (set_status PRE_AUTH_SESSION) (t\<lparr>Num_sessions := Num_sessions t + 1\<rparr>)"
  let ?u = "Sess_hash_session i ?v"
  have nt: "Num_sessions t = Num_sessions s" using sb by (cases t; cases s; simp add: same_but_def)
  have "links_ok ?v (as @ i # bs) fs"
    by (rule links_ok_cong [OF lt]) (simp_all add: set_status_def)
  then have lu: "links_ok ?u (as @ i # bs) fs"
    by (rule links_ok_cong) (simp_all add: Sess_hash_session_def Let_def)
  have "hash_ok ?v (set (as @ bs))"
    by (rule hash_ok_cong [OF h]) (use i e sb in \<open>auto simp: same_but_def\<close>)
  then have hu: "hash_ok ?u (set (as @ i # bs))" using hash_insert_ok [of ?v "set (as @ bs)" i] i by simp
  have f: "cl_name (slots ?u j) = cl_name (slots t j)" "cl_mbox (slots ?u j) = cl_mbox (slots t j)" for j
    by (simp_all add: Sess_hash_session_def Let_def set_status_def)
  have g: "cl_name (slots ?u j) = cl_name (slots s j)" "cl_mbox (slots ?u j) = cl_mbox (slots s j)"
    if "j \<in> set (as @ bs)" for j
  proof -
    have "j \<noteq> i" using that i by auto
    then show "cl_name (slots ?u j) = cl_name (slots s j)" "cl_mbox (slots ?u j) = cl_mbox (slots s j)"
      using e f by simp_all
  qed
  have "names ?u as = names s as" "names ?u bs = names s bs" using g by simp_all
  then have su: "sorted_wrt (<) (names ?u (as @ i # bs))"
  proof -
    have "names ?u (as @ i # bs) = names s as @ cl_name (slots s TMPL) # names s bs"
      using \<open>names ?u as = names s as\<close> \<open>names ?u bs = names s bs\<close> f ei by simp
    then show ?thesis using so nm by (simp only: sorted_wrt_append map_append sorted_wrt.simps) auto
  qed
  have "inj_on (\<lambda>j. cl_mbox (slots ?u j)) (set (as @ bs))" using inj g by (simp add: inj_on_def)
  moreover have "cl_mbox (slots ?u i) \<notin> (\<lambda>j. cl_mbox (slots ?u j)) ` set (as @ bs)"
    using mb f ei g by (auto simp: image_iff)
  ultimately have iu: "inj_on (\<lambda>j. cl_mbox (slots ?u j)) (set (as @ i # bs))" using i by auto
  have "Num_sessions ?u = int (length (as @ i # bs))"
    using n nt by (simp add: Sess_hash_session_def Let_def upd_def)
  then show ?thesis using k lu hu su iu by (simp only: sess_ok_def)
qed

lemma inv_enter:
  assumes "sess_inv s True" "find_place (cl_name (slots s TMPL)) s = Some (place, True)" "enter_session place v s = Some t"
  shows "sess_inv t False"
proof -
  from assms(1) obtain xs fs where ok: "sess_ok s xs fs"
    and mb: "cl_mbox (slots s TMPL) \<notin> (\<lambda>i. cl_mbox (slots s i)) ` set xs" by (auto simp: sess_inv_def)
  from place_ok [OF ok assms(2)] obtain as bs where p: "xs = as @ bs" "place = (case bs of [] \<Rightarrow> None | b # _ \<Rightarrow> Some b)"
    "\<forall>i \<in> set as. cl_name (slots s i) < cl_name (slots s TMPL)"
    "\<forall>i \<in> set bs. cl_name (slots s TMPL) < cl_name (slots s i)" by blast
  from assms(3) obtain k u where u: "Sess_insert_new_session place TMPL s = Some (k, u)"
    "admit k v (Sess_hash_session k (upd k (set_status PRE_AUTH_SESSION) (u\<lparr>Num_sessions := Num_sessions u + 1\<rparr>))) = Some t"
    by (auto simp: enter_session_def split: option.splits)
  show ?thesis
  proof (cases fs)
    case Nil
    then have "Sessions_free s = None" using ok by (simp add: sess_ok_def links_ok_def)
    with u(1) show ?thesis by (simp add: Sess_insert_new_session_def Sess_get_free_session_def)
  next
    case (Cons i fs')
    let ?u = "Sess_hash_session i (upd i (set_status PRE_AUTH_SESSION) (u\<lparr>Num_sessions := Num_sessions u + 1\<rparr>))"
    have e: "k = i \<and> sess_ok ?u (as @ i # bs) fs'"
      using enter_ok [of s as bs i fs' k u] ok mb p u(1) Cons by simp
    then have "in_table i ?u" by (intro in_tableI [of _ "as @ i # bs" fs']) simp_all
    moreover have "sess_inv ?u False" using e by (intro sess_invI [of _ "as @ i # bs" fs']) simp_all
    ultimately show ?thesis using u(2) e by (intro inv_admit [of ?u False i v t]) simp_all
  qed
qed

section \<open>The connect message\<close>

lemma same_tab_chars: "recv_chars n s = (r, t) \<Longrightarrow> same_tab s t"
  using same_tab_calls(2) [of s n s] by (cases "recv n s") (auto simp: recv_chars_def split: recv_result.splits)

lemma same_tab_version: "recv_version s = (r, t) \<Longrightarrow> same_tab s t"
proof -
  assume r: "recv_version s = (r, t)"
  obtain q u where u: "recv_chars 2 s = (q, u)" by (cases "recv_chars 2 s")
  obtain q' u' where u': "recv_chars 1 u = (q', u')" by (cases "recv_chars 1 u")
  have "t = u \<or> t = u'" using r unfolding recv_version_def u prod.case
    using u' by (auto split: option.splits list.splits if_splits simp del: One_nat_def)
  with same_tab_chars [OF u] same_tab_chars [OF u'] show ?thesis by (auto intro: same_tab_trans)
qed

lemma find_place_same: "slots t = slots s \<Longrightarrow> Sessions_head t = Sessions_head s \<Longrightarrow> find_place nm t = find_place nm s"
  by (simp add: find_place_def)

lemma draw_name_place: "draw_name rs m s = Some (nm, place, qs) \<Longrightarrow> find_place nm s = Some (place, True)"
  by (induction rs) (auto split: option.splits if_splits)

text \<open>The name that was found free is still free when the state has the rest of the bytes.\<close>

lemma name_free:
  assumes "private_name_of m n s = (Some (Inr (nm, place)), t)"
  shows "find_place nm t = Some (place, True)" "same_tab s t"
proof -
  have sl: "slots (snd (recv MAX_PRIVATE_NAME s)) = slots s" "Sessions_head (snd (recv MAX_PRIVATE_NAME s)) = Sessions_head s"
    by (simp_all add: recv_def split: list.split recv_result.split)
  obtain r u where r: "recv MAX_PRIVATE_NAME s = (r, u)" by (cases "recv MAX_PRIVATE_NAME s")
  have u: "same_tab s u" using same_tab_calls(2) [of s MAX_PRIVATE_NAME s] r by simp
  consider rs where "draw_name (draws s) m s = Some (nm, place, rs)" "t = s\<lparr>draws := rs\<rparr>"
    | "find_place nm u = Some (place, True)" "t = u"
    using assms unfolding private_name_of_def r prod.case
    by (auto split: if_splits option.splits recv_result.splits)
  then have "find_place nm t = Some (place, True) \<and> same_tab s t"
  proof cases
    case 1
    then show ?thesis using draw_name_place [OF 1(1)] find_place_same [of t s] by simp
  next
    case 2
    with u show ?thesis by simp
  qed
  then show "find_place nm t = Some (place, True)" "same_tab s t" by blast+
qed

lemma same_tab_name: "private_name_of m n s = (r, t) \<Longrightarrow> same_tab s t"
proof -
  assume p: "private_name_of m n s = (r, t)"
  obtain q u where q: "recv MAX_PRIVATE_NAME s = (q, u)" by (cases "recv MAX_PRIVATE_NAME s")
  have u: "same_tab s u" using same_tab_calls(2) [of s MAX_PRIVATE_NAME s] q by simp
  have "t = s \<or> (\<exists>rs. t = s\<lparr>draws := rs\<rparr>) \<or> t = u"
    using p unfolding private_name_of_def q prod.case by (auto split: if_splits option.splits recv_result.splits)
  with u show ?thesis by auto
qed

text \<open>The name of the template does not matter for the search.\<close>

lemma find_place_template:
  assumes "sess_ok s xs fs"
  shows "find_place nm (upd TMPL f s) = find_place nm s"
proof -
  have "seg (nxt s) (Sessions_head s) xs None" using assms by (simp add: sess_ok_def links_ok_def)
  moreover have "place_walk (slots (upd TMPL f s)) nm p = place_walk (slots s) nm p"
    if "seg (nxt s) p ys None" "set ys \<subseteq> set xs" for p ys
    using that
  proof (induction ys arbitrary: p)
    case (Cons y ys)
    then have y: "y \<noteq> TMPL" using sess_ok_TMPL [OF assms, of y] by auto
    have "place_walk (slots (upd TMPL f s)) nm (nxt s y) = place_walk (slots s) nm (nxt s y)"
      using Cons by (intro Cons.IH) simp_all
    with Cons.prems(1) y show ?case by (subst (1 2) place_walk.simps) (simp add: Let_def)
  qed (simp add: place_walk.simps)
  ultimately show ?thesis by (simp add: find_place_def)
qed

lemma inv_weaken: "sess_inv s w \<Longrightarrow> sess_inv s False"
  by (auto simp: sess_inv_def)

lemma inv_accept_continue: "sess_inv s True \<Longrightarrow> Sess_accept_continue s = Some t \<Longrightarrow> sess_inv t False"
proof -
  assume inv: "sess_inv s True" and t: "Sess_accept_continue s = Some t"
  let ?m = "cl_mbox (slots s TMPL)"
  define s0 where "s0 = Sess_attach_accept (semit [Dequeued Sess_accept_continue_handler 1, Detached ?m READ_FD, Detached ?m EXCEPT_FD] s)"
  obtain q s1 where q: "recv_version s0 = (q, s1)" by (cases "recv_version s0")
  have i1: "sess_inv s1 True" using same_tab_version [OF q] inv
    by (intro inv_same_tab [OF inv]) (simp add: s0_def same_tab_trans [of s s0 s1])
  have end1: "sess_inv u False" if "same_tab s' u" "sess_inv s' True" for s' u
    using inv_weaken inv_same_tab that by blast
  note t = t [unfolded Sess_accept_continue_def Let_def s0_def [symmetric] q prod.case]
  show ?thesis
  proof (cases q)
    case None
    with t end1 [OF _ i1] show ?thesis by auto
  next
    case (Some v)
    show ?thesis
    proof (cases "version_number v < 30100")
      case True
      with t Some end1 [OF _ i1] show ?thesis by auto
    next
      case False
      obtain r s2 where r: "recv_chars 2 s1 = (r, s2)" by (cases "recv_chars 2 s1")
      have i2: "sess_inv s2 True" by (rule inv_same_tab [OF i1 same_tab_chars [OF r]])
      have bad: "sess_inv t False" if "t = close_mbox ?m (upd TMPL (\<lambda>c. c\<lparr>lib_version := v\<rparr>) s2)"
        unfolding that by (rule end1 [OF _ i2]) (simp add: lk_def)
      show ?thesis
      proof (cases "\<exists>conn name_len. r = Some [conn, name_len]")
        case True
        then obtain conn name_len where rr: "r = Some [conn, name_len]" by blast
        define s3 where "s3 = upd TMPL (\<lambda>c. (if conn mod 2 = 1 \<and> conn > 0 then set_status MEMB_SESSION c else clear_status MEMB_SESSION c)
            \<lparr>lib_version := v, cl_priority := (if conn < 0 then - (- conn div 16) else conn div 16)\<rparr>) s2"
        have "same_tab s2 s3" by (simp add: s3_def lk_def set_status_def clear_status_def)
        then have i3: "sess_inv s3 True" by (rule inv_same_tab [OF i2])
        note t3 = t [unfolded Some option.case if_not_P [OF False] r prod.case rr list.case s3_def [symmetric]]
        show ?thesis
        proof (cases "name_len > int MAX_PRIVATE_NAME \<or> name_len < 0")
          case True
          with t3 end1 [OF _ i3] show ?thesis by auto
        next
          case ok_len: False
          obtain p s4 where p: "private_name_of ?m name_len s3 = (p, s4)" by (cases "private_name_of ?m name_len s3")
          have i4: "sess_inv s4 True" by (rule inv_same_tab [OF i3 same_tab_name [OF p]])
          note t4 = t3 [unfolded if_not_P [OF ok_len] p prod.case]
          from t4 obtain found where o: "p = Some found" by (cases p) auto
          show ?thesis
          proof (cases found)
            case (Inl code)
            with t4 o end1 [OF _ i4] show ?thesis by (auto split: if_splits)
          next
            case (Inr np)
            obtain nm place where np: "np = (nm, place)" by (cases np)
            let ?s5 = "upd TMPL (\<lambda>c. c\<lparr>cl_name := nm\<rparr>) s4"
            have free: "find_place nm s4 = Some (place, True)" using name_free(1) p o Inr np by blast
            have i5: "sess_inv ?s5 True" by (rule inv_template [OF i4]) simp
            have "enter_session place v ?s5 = Some t" using t4 o Inr np by simp
            moreover have "find_place (cl_name (slots ?s5 TMPL)) ?s5 = Some (place, True)"
              using free find_place_template i4 by (auto simp: sess_inv_def)
            ultimately show ?thesis using i5 by (intro inv_enter)
          qed
        qed
      next
        case no: False
        then have "t = close_mbox ?m (upd TMPL (\<lambda>c. c\<lparr>lib_version := v\<rparr>) s2)"
          using t [unfolded Some option.case if_not_P [OF False] r prod.case]
          by (auto split: option.splits list.splits)
        then show ?thesis by (rule bad)
      qed
    qed
  qed
qed

section \<open>The session layer\<close>

text \<open>
  What can happen to it: a connection is accepted, unless one waits already, and continued; a
  client authenticates or sends; a queue is written; the protocol delivers a message or a
  membership, blocks the clients or lets them go on; the configuration is loaded again. What the
  sockets and the random numbers give next may change in between.
\<close>

inductive sess_step :: "sess_state \<times> bool \<Rightarrow> sess_state \<times> bool \<Rightarrow> bool" where
  accept: "new_mbox m s \<Longrightarrow> Sess_accept u m a s = Some t \<Longrightarrow> sess_step (s, False) (t, waits_after m s)"
| continue: "Sess_accept_continue s = Some t \<Longrightarrow> sess_step (s, True) (t, False)"
| authenticate: "Sess_recv_client_auth m s = Some t \<Longrightarrow> sess_step (s, w) (t, w)"
| read: "Sess_read m s = Some t \<Longrightarrow> sess_step (s, w) (t, w)"
| badger: "Sess_badger m s = Some t \<Longrightarrow> sess_step (s, w) (t, w)"
| deliver: "Sess_deliver_message msg s = Some t \<Longrightarrow> sess_step (s, w) (t, w)"
| reg_memb: "Sess_deliver_reg_memb c cid s = Some t \<Longrightarrow> sess_step (s, w) (t, w)"
| trans_memb: "Sess_deliver_trans_memb c cid s = Some t \<Longrightarrow> sess_step (s, w) (t, w)"
| block: "sess_step (s, w) (Sess_block_users_level s, w)"
| unblock: "sess_step (s, w) (Sess_unblock_users_level s, w)"
| reload: "sess_step (s, w) (Sess_signal_conf_reload my s, w)"
| environment: "sess_step (s, w) (s\<lparr>recv_results := r, send_results := q, draws := d\<rparr>, w)"

inductive sess_reachable :: "sess_state \<times> bool \<Rightarrow> bool" where
  start: "sess_reachable (Sess_init c my inet unix s, False)"
| step: "sess_reachable p \<Longrightarrow> sess_step p q \<Longrightarrow> sess_reachable q"

lemma inv_step: "sess_step p q \<Longrightarrow> sess_inv (fst p) (snd p) \<Longrightarrow> sess_inv (fst q) (snd q)"
proof (induction rule: sess_step.induct)
  case (accept m s u a t)
  then show ?case by (simp add: inv_accept)
next
  case (continue s t)
  then show ?case by (simp add: inv_accept_continue)
next
  case (authenticate m s t w)
  then show ?case by (simp add: inv_client_auth)
next
  case (read m s t w)
  then show ?case by (simp add: inv_read)
next
  case (badger m s t w)
  then show ?case by (auto intro: inv_same_tab same_tab_badger)
next
  case (deliver msg s t w)
  then show ?case by (simp add: inv_deliver)
next
  case (reg_memb c cid s t w)
  then show ?case by (auto simp: Sess_deliver_reg_memb_def intro: inv_same_tab same_tab_groups)
next
  case (trans_memb c cid s t w)
  then show ?case by (auto simp: Sess_deliver_trans_memb_def intro: inv_same_tab same_tab_groups)
next
  case (block s w)
  then show ?case by (auto simp: Sess_block_users_level_def intro: inv_same_tab)
next
  case (unblock s w)
  then show ?case by (auto simp: Sess_unblock_users_level_def intro: inv_same_tab)
next
  case (reload s w my)
  then show ?case by (auto intro: inv_same_tab simp: Sess_signal_conf_reload_def same_tab_def)
next
  case (environment s w r q d)
  then show ?case by (auto intro: inv_same_tab)
qed

lemma inv_start: "sess_inv (Sess_init c my inet unix s) False"
proof -
  let ?i = "Sess_init_sessions s" and ?t = "Sess_init c my inet unix s"
  have sl: "slots ?t = slots ?i" "Sessions_head ?t = Sessions_head ?i" "Sessions_tail ?t = Sessions_tail ?i"
    "Sessions_free ?t = Sessions_free ?i" "Sessions_hash_head ?t = Sessions_hash_head ?i" "Num_sessions ?t = 0"
    by (simp_all add: Sess_init_def Let_def Sess_attach_accept_def semit_def)
  have "links_ok ?t [] (rev [0..<MAX_SESSIONS])" by (rule links_ok_cong [OF init_ok(1)]) (simp_all only: sl)
  moreover have "hash_ok ?t (set [])" by (rule hash_ok_cong [of ?i]) (use init_ok(2) sl in simp_all)
  ultimately have "sess_ok ?t [] (rev [0..<MAX_SESSIONS])" using sl(6) unfolding sess_ok_def by simp
  then show ?thesis by (rule sess_invI) simp
qed

lemma reachable_inv: "sess_reachable p \<Longrightarrow> sess_inv (fst p) (snd p)"
  by (induction rule: sess_reachable.induct) (simp_all add: inv_start inv_step)

end
