(* ===== verification/SessTargets.thy ===== *)
theory SessTargets
  imports SessSteps
begin

text \<open>
  A message that is delivered goes to the sessions of its groups and to no other, once to each,
  behind what they were sent before.
\<close>

text \<open>The stream of a session: what was sent to it and what waits for it.\<close>

definition stream_of :: "nat \<Rightarrow> sess_state \<Rightarrow> 8 word list" where
  "stream_of i s = sent_to (cl_mbox (slots s i)) (s_out s) @ pending (slots s i)"

text \<open>A session that can take another message.\<close>

definition takes :: "nat \<Rightarrow> sess_state \<Rightarrow> bool" where
  "takes i s \<longleftrightarrow> in_table i s \<and> Is_op_session (slots s i) \<and> writer_ok (slots s i) \<and>
     cl_num_mess (slots s i) < max_session_messages s"

lemma mbox_differs:
  assumes "sess_inv s w" "in_table i s" "in_table j s" "i \<noteq> j"
  shows "cl_mbox (slots s i) \<noteq> cl_mbox (slots s j)"
proof -
  from assms(1) obtain xs fs where "sess_ok s xs fs" by (auto simp: sess_inv_def)
  with assms(2-4) show ?thesis by (auto simp: in_table_def sess_ok_def inj_on_def)
qed

lemma index_of_session:
  assumes "sess_inv s w" "in_table i s"
  shows "Sess_get_session_index_tab (cl_mbox (slots s i)) s = Some (Some i)"
proof -
  from assms(1) obtain xs fs where ok: "sess_ok s xs fs" by (auto simp: sess_inv_def)
  moreover have "i \<in> set xs" using assms(2) ok by (auto simp: in_table_def)
  ultimately show ?thesis by (intro index_tab_Some [of s "set xs"]) (simp_all add: sess_ok_def)
qed

text \<open>Writing to one session.\<close>

lemma write_one:
  assumes inv: "sess_inv s w" and i: "takes i s" and msg: "message_ok msg"
  shows "\<exists>k t. Sess_write_msg i msg n s = Some (k, t) \<and> same_tab s t \<and>
    stream_of i t = stream_of i s @ msg_bytes msg \<and>
    (\<forall>j. j \<noteq> i \<longrightarrow> slots t j = slots s j) \<and> max_session_messages t = max_session_messages s \<and>
    (\<forall>m. m \<noteq> cl_mbox (slots s i) \<longrightarrow> sent_to m (s_out t) = sent_to m (s_out s))"
proof -
  have ix: "Sess_get_session_index_tab (cl_mbox (slots s i)) s = Some (Some i)"
    using index_of_session [OF inv] i by (simp add: takes_def)
  from write_spec [OF ix refl _ _ msg, of n] i obtain k t num q wr where t: "Sess_write_msg i msg n s = Some (k, t)"
    "quiet t = upd i (\<lambda>c. c\<lparr>cl_num_mess := num, cl_queue := q, cl_write := wr\<rparr>) (quiet s)"
    "sent_to (cl_mbox (slots s i)) (s_out t) @ pending (slots t i) =
       sent_to (cl_mbox (slots s i)) (s_out s) @ pending (slots s i) @ msg_bytes msg"
    "\<forall>m. m \<noteq> cl_mbox (slots s i) \<longrightarrow> sent_to m (s_out t) = sent_to m (s_out s)"
    unfolding takes_def by blast
  have sl: "slots t = (slots s)(i := (slots s i)\<lparr>cl_num_mess := num, cl_queue := q, cl_write := wr\<rparr>)"
    using arg_cong [OF t(2), of slots] by simp
  have "max_session_messages (quiet t) = max_session_messages (quiet s)" unfolding t(2) by simp
  then have "max_session_messages t = max_session_messages s" by (simp add: quiet_def)
  moreover have "stream_of i t = stream_of i s @ msg_bytes msg" using t(3) sl by (simp add: stream_of_def)
  ultimately show ?thesis using t(1,4) same_tab_write [OF t(1)] sl by auto
qed

lemma write_targets_spec:
  assumes msg: "message_ok msg"
  shows "sess_inv s w \<Longrightarrow> list_all (\<lambda>t. case t of None \<Rightarrow> False | Some i \<Rightarrow> takes i s) ts \<Longrightarrow> distinct ts \<Longrightarrow>
    \<exists>t. write_targets source msg ts n s = Some t \<and>
      (\<forall>j. in_table j s \<longrightarrow> stream_of j t = stream_of j s @ (if Some j \<in> set ts \<and> source \<noteq> Some j then msg_bytes msg else []))"
proof (induction ts arbitrary: s n)
  case Nil
  then show ?case by simp
next
  case (Cons x ts)
  then obtain i where x: "x = Some i" and i: "takes i s" by (cases x) auto
  show ?case
  proof (cases "source = x")
    case True
    with Cons x obtain t where "write_targets source msg ts n s = Some t"
      "\<forall>j. in_table j s \<longrightarrow> stream_of j t = stream_of j s @ (if Some j \<in> set ts \<and> source \<noteq> Some j then msg_bytes msg else [])"
      by force
    with True x show ?thesis by (intro exI [of _ t]) auto
  next
    case False
    from write_one [OF Cons.prems(1) i msg, of n] obtain k u where u: "Sess_write_msg i msg n s = Some (k, u)" "same_tab s u"
      "stream_of i u = stream_of i s @ msg_bytes msg" "\<forall>j. j \<noteq> i \<longrightarrow> slots u j = slots s j"
      "max_session_messages u = max_session_messages s"
      "\<forall>m. m \<noteq> cl_mbox (slots s i) \<longrightarrow> sent_to m (s_out u) = sent_to m (s_out s)" by blast
    have tk: "takes j u" if "takes j s" "j \<noteq> i" for j
      using that u(4,5) in_table_same [OF _ u(2)] by (simp add: takes_def)
    have inv: "sess_inv u w" using Cons.prems(1) u(2) by (rule inv_same_tab)
    have "list_all (\<lambda>t. case t of None \<Rightarrow> False | Some i \<Rightarrow> takes i u) ts"
      using Cons.prems(2,3) tk x by (auto simp: list_all_iff split: option.splits)
    from Cons.IH [OF inv this, of k] Cons.prems(3) obtain t where t: "write_targets source msg ts k u = Some t"
      "\<forall>j. in_table j u \<longrightarrow> stream_of j t = stream_of j u @ (if Some j \<in> set ts \<and> source \<noteq> Some j then msg_bytes msg else [])"
      by auto
    have "stream_of j t = stream_of j s @ (if Some j \<in> set (x # ts) \<and> source \<noteq> Some j then msg_bytes msg else [])"
      if j: "in_table j s" for j
    proof -
      have tj: "stream_of j t = stream_of j u @ (if Some j \<in> set ts \<and> source \<noteq> Some j then msg_bytes msg else [])"
        using t(2) in_table_same [OF j u(2)] by blast
      show ?thesis
      proof (cases "j = i")
        case True
        then have "Some j \<notin> set ts" using Cons.prems(3) x by simp
        with tj u(3) True False x show ?thesis by simp
      next
        case ne: False
        have "cl_mbox (slots s j) \<noteq> cl_mbox (slots s i)"
          using mbox_differs [OF Cons.prems(1) j _ ne] i by (simp add: takes_def)
        then have "stream_of j u = stream_of j s" using u(4,6) ne by (simp add: stream_of_def)
        with tj x ne show ?thesis by simp
      qed
    qed
    moreover have "write_targets source msg (x # ts) n s = Some t" using False x u(1) t(1) by simp
    ultimately show ?thesis by blast
  qed
qed

end
