(* ===== verification/SessReading.thy ===== *)
theory SessReading
  imports SessRead SessStream
begin

text \<open>
  What the daemon reads from a client does not depend on how the network cuts the stream: it is
  what a parser finds in the bytes. The parser also says when the daemon ends, which is when a
  message does not fit the fragments.
\<close>

abbreviation (input) FULL :: nat where "FULL \<equiv> 143200"

section \<open>The reference\<close>

definition body_size :: "message_header \<Rightarrow> nat" where
  "body_size h = nat (mh_data_len h + 32 * num_groups h)"

text \<open>The header as the daemon keeps it.\<close>

definition norm_head :: "nat \<Rightarrow> sess_state \<Rightarrow> 8 word list \<Rightarrow> message_header option" where
  "norm_head i s bs =
     (let h0 = read_head bs; h1 = (if Same_endian (mh_type h0) then h0 else Flip_mess h0)
      in Sess_validate_read_header i (h1\<lparr>mh_type := Set_endian (mh_type h1)\<rparr>) s)"

text \<open>The bytes in buffers of the size of a packet body, and a message of full buffers.\<close>

function bufs :: "8 word list \<Rightarrow> 8 word list list" where
  "bufs xs = (if xs = [] then [] else take FRAG xs # bufs (drop FRAG xs))"
  by pat_completeness auto
termination
  by (relation "measure length") auto

declare bufs.simps [simp del]

definition fragments_of :: "8 word list \<Rightarrow> message" where
  "fragments_of xs = map (\<lambda>b. \<lparr>fr_buf = b, fr_len = length b\<rparr>) (bufs xs)"

text \<open>
  The messages of a stream, and the bytes of the one that is not complete yet, or that the client
  broke the rules. \<open>None\<close> is the end of the daemon.
\<close>

function parse_stream ::
  "(8 word list \<Rightarrow> message_header option) \<Rightarrow> 8 word list \<Rightarrow> (message list \<times> 8 word list option) option" where
  "parse_stream norm bs =
     (if length bs < HEAD then Some ([], Some bs)
      else case norm (take HEAD bs) of
        None \<Rightarrow> Some ([], None)
      | Some h \<Rightarrow>
          if length bs < min (HEAD + body_size h) FULL then Some ([], Some bs)
          else if HEAD + body_size h \<ge> FULL then None
          else map_option (\<lambda>(ms, r). (fragments_of (write_head h @ take (body_size h) (drop HEAD bs)) # ms, r))
                 (parse_stream norm (drop (HEAD + body_size h) bs)))"
  by pat_completeness auto
termination
  by (relation "measure (\<lambda>(norm, bs). length bs)") auto

declare parse_stream.simps [simp del]

text \<open>The calls of \<open>Sess_read\<close> for a session, as far as they read.\<close>

fun reads_of :: "nat \<Rightarrow> nat \<Rightarrow> sess_state \<Rightarrow> (message list \<times> sess_state option) option" where
  "reads_of 0 i s = Some ([], Some s)"
| "reads_of (Suc n) i s =
     (case read_message i s of
        (None, _) \<Rightarrow> None
      | (Some Broken, t) \<Rightarrow> Some ([], None)
      | (Some Waiting, t) \<Rightarrow> reads_of n i t
      | (Some (Complete m), t) \<Rightarrow> map_option (\<lambda>(ms, r). (m # ms, r)) (reads_of n i t))"

section \<open>Headers that pass\<close>

lemma valid_head:
  assumes "Sess_validate_read_header i h0 s = Some h" "head_ok h0"
  shows "head_ok h" "0 \<le> num_groups h" "num_groups h \<le> 100" "0 \<le> mh_data_len h"
    "mh_data_len h + 32 * num_groups h \<le> 143952" "mh_type h = mh_type h0"
  using assms
  by (auto simp: Sess_validate_read_header_def Let_def terminate_name_def head_ok_def split: if_splits option.splits)

lemma norm_head_ok:
  assumes "norm_head i s bs = Some h" "HEAD \<le> length bs"
  shows "head_ok h" "0 \<le> num_groups h" "0 \<le> mh_data_len h" "body_size h \<le> 143952"
    "mh_data_len h + 32 * num_groups h = int (body_size h)"
proof -
  have f: "head_ok (Flip_mess (read_head bs))"
    using head_ok_read [OF assms(2)] by (simp add: head_ok_def Flip_mess_def)
  define h1 where "h1 = (if Same_endian (mh_type (read_head bs)) then read_head bs else Flip_mess (read_head bs))"
  have "head_ok (h1\<lparr>mh_type := Set_endian (mh_type h1)\<rparr>)" using f head_ok_read [OF assms(2)] by (simp add: h1_def)
  moreover have "Sess_validate_read_header i (h1\<lparr>mh_type := Set_endian (mh_type h1)\<rparr>) s = Some h"
    using assms(1) by (simp only: norm_head_def Let_def h1_def)
  ultimately have "head_ok h \<and> 0 \<le> num_groups h \<and> 0 \<le> mh_data_len h \<and> mh_data_len h + 32 * num_groups h \<le> 143952"
    using valid_head by blast
  then show "head_ok h" "0 \<le> num_groups h" "0 \<le> mh_data_len h" "body_size h \<le> 143952"
    "mh_data_len h + 32 * num_groups h = int (body_size h)" by (auto simp: body_size_def)
qed

lemma norm_head_cong:
  assumes "Sess_My t = Sess_My s" "cl_name (slots t i) = cl_name (slots s i)"
  shows "norm_head i t = norm_head i s"
proof -
  have "Sess_validate_read_header i h t = Sess_validate_read_header i h s" for h
    by (simp only: Sess_validate_read_header_def assms)
  then show ?thesis by (simp only: norm_head_def fun_eq_iff) simp
qed

section \<open>Buffers\<close>

lemma bufs_Nil [simp]: "bufs [] = []"
  by (simp add: bufs.simps)

lemma bufs_short: "xs \<noteq> [] \<Longrightarrow> length xs \<le> FRAG \<Longrightarrow> bufs xs = [xs]"
  by (subst bufs.simps) simp

lemma bufs_full: "length xs = FRAG \<Longrightarrow> bufs (xs @ ys) = xs # bufs ys"
  by (subst bufs.simps) auto

lemma concat_bufs [simp]: "concat (bufs xs) = xs"
  by (induction xs rule: bufs.induct) (subst bufs.simps, simp)

lemma bufs_append:
  assumes "bs \<noteq> []" "length xs mod FRAG + length bs \<le> FRAG"
  shows "bufs (xs @ bs) = (if length xs mod FRAG = 0 then bufs xs @ [bs] else butlast (bufs xs) @ [last (bufs xs) @ bs])"
  using assms
proof (induction xs rule: bufs.induct)
  case (1 xs)
  consider "xs = []" | "xs \<noteq> []" "length xs < FRAG" | "FRAG \<le> length xs" by linarith
  then show ?case
  proof cases
    case 1
    with "1.prems" show ?thesis by (simp add: bufs_short)
  next
    case 2
    with "1.prems" show ?thesis by (simp add: bufs_short)
  next
    case 3
    let ?d = "drop FRAG xs"
    have x: "xs = take FRAG xs @ ?d" "length (take FRAG xs) = FRAG" using 3 by simp_all
    have b: "bufs xs = take FRAG xs # bufs ?d" "bufs (xs @ bs) = take FRAG xs # bufs (?d @ bs)"
      by (metis append_assoc append_take_drop_id bufs_full x(2))+
    have m: "length ?d mod FRAG = length xs mod FRAG" using 3 by (simp add: le_mod_geq)
    have "xs \<noteq> []" using 3 by auto
    from "1.IH" [OF this "1.prems"(1)] "1.prems"(2) m
    have IH: "bufs (?d @ bs) = (if length xs mod FRAG = 0 then bufs ?d @ [bs] else butlast (bufs ?d) @ [last (bufs ?d) @ bs])"
      by simp
    have "bufs ?d \<noteq> []" if "length xs mod FRAG \<noteq> 0"
      using that m by (subst bufs.simps) auto
    then show ?thesis unfolding b IH by auto
  qed
qed

lemma length_bufs: "length (bufs xs) = (length xs + FRAG - 1) div FRAG"
proof (induction xs rule: bufs.induct)
  case (1 xs)
  show ?case
  proof (cases "xs = []")
    case False
    have "length (bufs xs) = Suc (length (bufs (drop FRAG xs)))" using False by (subst bufs.simps) simp
    also have "\<dots> = Suc ((length xs - FRAG + FRAG - 1) div FRAG)" using "1.IH" [OF False] by simp
    also have "\<dots> = (length xs + FRAG - 1) div FRAG"
    proof (cases "length xs < FRAG")
      case True
      then have "(length xs + FRAG - 1) div FRAG = 1" using False by (intro div_nat_eqI) (auto simp: Suc_le_eq)
      with True show ?thesis by simp
    next
      case False
      then have "length xs + FRAG - 1 = length xs - FRAG + FRAG - 1 + FRAG" by simp
      then show ?thesis by simp
    qed
    finally show ?thesis .
  qed simp
qed

lemma bufs_lengths: "b \<in> set (butlast (bufs xs)) \<Longrightarrow> length b = FRAG"
proof (induction xs rule: bufs.induct)
  case (1 xs)
  show ?case
  proof (cases "drop FRAG xs = []")
    case True
    with "1.prems" show ?thesis by (subst (asm) bufs.simps) (simp split: if_splits)
  next
    case False
    then have "FRAG < length xs" "xs \<noteq> []" by auto
    with 1 show ?thesis by (subst (asm) (2) bufs.simps) (auto split: if_splits)
  qed
qed

lemma bufs_nonempty: "b \<in> set (bufs xs) \<Longrightarrow> b \<noteq> [] \<and> length b \<le> FRAG"
proof (induction xs rule: bufs.induct)
  case (1 xs)
  then show ?case by (subst (asm) bufs.simps) (auto split: if_splits)
qed

lemma bufs_last: "xs \<noteq> [] \<Longrightarrow> length (last (bufs xs)) = (if length xs mod FRAG = 0 then FRAG else length xs mod FRAG)"
proof (induction xs rule: bufs.induct)
  case (1 xs)
  show ?case
  proof (cases "drop FRAG xs = []")
    case True
    then have "length xs \<le> FRAG" by simp
    with "1.prems" show ?thesis by (auto simp: bufs_short le_less)
  next
    case False
    then have l: "FRAG < length xs" and d: "bufs (drop FRAG xs) \<noteq> []" by (auto simp: bufs.simps)
    have "length (drop FRAG xs) mod FRAG = length xs mod FRAG" using l by (simp add: le_mod_geq)
    with "1.IH" [OF "1.prems" False] "1.prems" d show ?thesis by (subst bufs.simps) simp
  qed
qed

lemma bufs_empty [simp]: "bufs xs = [] \<longleftrightarrow> xs = []"
  by (subst bufs.simps) simp

lemma length_bufs_mod: "length (bufs xs) = length xs div FRAG + (if length xs mod FRAG = 0 then 0 else 1)"
proof -
  define q r where "q = length xs div FRAG" and "r = length xs mod FRAG"
  have n: "length xs = q * FRAG + r" "r < FRAG" by (simp_all add: q_def r_def)
  have "(r + (FRAG - 1)) div FRAG = (if r = 0 then 0 else 1)" using n(2) by (auto intro: div_nat_eqI)
  moreover have "(q * FRAG + (r + (FRAG - 1))) div FRAG = q + (r + (FRAG - 1)) div FRAG" by simp
  moreover have "length xs + FRAG - 1 = q * FRAG + (r + (FRAG - 1))" using n by simp
  ultimately show ?thesis by (simp only: length_bufs flip: q_def r_def)
qed

section \<open>A message that fills\<close>

text \<open>The lengths of its fragments are not set yet; another fragment may be there already.\<close>

definition filling :: "8 word list \<Rightarrow> bool \<Rightarrow> message" where
  "filling xs extra =
     (case bufs xs @ (if extra then [[]] else []) of
        [] \<Rightarrow> []
      | b # bs \<Rightarrow> \<lparr>fr_buf = b, fr_len = HEAD\<rparr> # map (\<lambda>b. \<lparr>fr_buf = b, fr_len = FRAG\<rparr>) bs)"

lemma length_filling: "length (filling xs extra) = length (bufs xs) + (if extra then 1 else 0)"
  by (auto simp: filling_def split: list.splits)

lemma filling_head:
  assumes "head_ok h"
  shows "Message_get_message_header (filling (write_head h @ ys) extra) = Some h"
proof -
  have n: "write_head h @ ys \<noteq> []" "length (write_head h) = HEAD" using assms by (auto simp: head_ok_def write_head_def)
  then have "take FRAG (write_head h @ ys) = write_head h @ take (FRAG - HEAD) ys" by simp
  then have "bufs (write_head h @ ys) = (write_head h @ take (FRAG - HEAD) ys) # bufs (drop FRAG (write_head h @ ys))"
    using n by (subst bufs.simps) simp
  with assms show ?thesis by (simp add: filling_def)
qed

lemma filling_append:
  assumes "xs \<noteq> []" "bs \<noteq> []" "length xs mod FRAG + length bs \<le> FRAG" "extra \<longleftrightarrow> length xs mod FRAG = 0"
  shows "store (length xs div FRAG) (length xs mod FRAG) bs (filling xs extra) = Some (filling (xs @ bs) False)"
proof (cases "length xs mod FRAG = 0")
  case True
  then have e: "length (bufs xs) = length xs div FRAG" by (simp add: length_bufs_mod)
  obtain b r where b: "bufs xs = b # r" using assms(1) by (cases "bufs xs") auto
  have f: "filling xs extra = (\<lparr>fr_buf = b, fr_len = HEAD\<rparr> # map (\<lambda>b. \<lparr>fr_buf = b, fr_len = FRAG\<rparr>) r) @ [\<lparr>fr_buf = [], fr_len = FRAG\<rparr>]"
    using assms(4) True b by (simp add: filling_def)
  have l: "length xs div FRAG = length (\<lparr>fr_buf = b, fr_len = HEAD\<rparr> # map (\<lambda>b. \<lparr>fr_buf = b, fr_len = FRAG\<rparr>) r)"
    using e b by simp
  have "filling (xs @ bs) False = (\<lparr>fr_buf = b, fr_len = HEAD\<rparr> # map (\<lambda>b. \<lparr>fr_buf = b, fr_len = FRAG\<rparr>) r) @ [\<lparr>fr_buf = bs, fr_len = FRAG\<rparr>]"
    using bufs_append [OF assms(2,3)] True b by (simp add: filling_def)
  then show ?thesis unfolding f store_def l True write_at_def nth_append_length list_update_length by simp
next
  case False
  then have e: "length (bufs xs) = Suc (length xs div FRAG)" by (simp add: length_bufs_mod)
  obtain bl l where b: "bufs xs = bl @ [l]" using assms(1) by (cases "bufs xs" rule: rev_cases) auto
  have ll: "length l = length xs mod FRAG" using bufs_last [OF assms(1)] False b by simp
  have n: "bufs (xs @ bs) = bl @ [l @ bs]" using bufs_append [OF assms(2,3)] False b by simp
  have bl: "length bl = length xs div FRAG" using e b by simp
  show ?thesis
  proof (cases bl)
    case Nil
    then show ?thesis using False assms(4) b n bl ll by (simp add: filling_def store_def write_at_def)
  next
    case (Cons a r)
    have f: "filling xs extra = (\<lparr>fr_buf = a, fr_len = HEAD\<rparr> # map (\<lambda>b. \<lparr>fr_buf = b, fr_len = FRAG\<rparr>) r) @ [\<lparr>fr_buf = l, fr_len = FRAG\<rparr>]"
      "filling (xs @ bs) False = (\<lparr>fr_buf = a, fr_len = HEAD\<rparr> # map (\<lambda>b. \<lparr>fr_buf = b, fr_len = FRAG\<rparr>) r) @ [\<lparr>fr_buf = l @ bs, fr_len = FRAG\<rparr>]"
      using assms(4) False b n Cons by (simp_all add: filling_def)
    have k: "length xs div FRAG = length (\<lparr>fr_buf = a, fr_len = HEAD\<rparr> # map (\<lambda>b. \<lparr>fr_buf = b, fr_len = FRAG\<rparr>) r)"
      using bl Cons by simp
    show ?thesis unfolding f store_def k write_at_def nth_append_length list_update_length using ll by simp
  qed
qed

lemma filling_add:
  assumes "xs \<noteq> []"
  shows "Message_add_scat_element (filling xs False) = (if length (bufs xs) < MAX_FRAGS then Some (filling xs True) else None)"
  using assms by (cases "bufs xs") (auto simp: Message_add_scat_element_def length_filling filling_def)

text \<open>When everything is there the lengths are set, unless the message fills all fragments.\<close>

lemma filling_fixup:
  assumes h: "head_ok h" "mh_data_len h + 32 * num_groups h = int (length ys)"
  shows "Message_element_len_fixup (filling (write_head h @ ys) False) =
    (if HEAD + length ys \<ge> FULL then None else Some (fragments_of (write_head h @ ys)))"
proof -
  let ?xs = "write_head h @ ys" and ?n = "HEAD + length ys"
  have n: "length ?xs = ?n" "?xs \<noteq> []" using h(1) by (auto simp: head_ok_def write_head_def)
  have tot: "mh_data_len h + 32 * num_groups h + int HEAD = int ?n" using h(2) by simp
  show ?thesis
  proof (cases "?n < FRAG")
    case True
    then have b: "bufs ?xs = [?xs]" using n by (intro bufs_short) auto
    then have f: "filling ?xs False = [\<lparr>fr_buf = ?xs, fr_len = HEAD\<rparr>]" by (simp add: filling_def)
    show ?thesis using True n(1) b h
      by (simp add: Message_element_len_fixup_def filling_head [OF h(1)] tot fragments_of_def Let_def)
         (simp add: f nat_add_distrib)
  next
    case False
    obtain bl l where b: "bufs ?xs = bl @ [l]" using n(2) by (cases "bufs ?xs" rule: rev_cases) auto
    define k where "k = length (bufs ?xs)"
    let ?f = "\<lambda>b. \<lparr>fr_buf = b, fr_len = FRAG\<rparr>"
    have f0: "(filling ?xs False)[0 := (filling ?xs False ! 0)\<lparr>fr_len := FRAG\<rparr>] = map ?f (bufs ?xs)"
      using n(2) by (cases "bufs ?xs") (auto simp: filling_def)
    have lk: "length (filling ?xs False) = k" "length bl = k - 1" "k > 0" using b by (simp_all add: length_filling k_def)
    have kn: "k = ?n div FRAG + (if ?n mod FRAG = 0 then 0 else 1)" using length_bufs_mod [of ?xs] n(1) by (simp add: k_def)
    have l: "length l = (if ?n mod FRAG = 0 then FRAG else ?n mod FRAG)" using bufs_last [OF n(2)] b n(1) by simp
    have sum: "?n = (k - 1) * FRAG + length l"
    proof (cases "?n mod FRAG = 0")
      case True
      then have "?n = k * FRAG" using kn div_mult_mod_eq [of ?n FRAG] by simp
      with lk(3) l True show ?thesis by (cases k) simp_all
    next
      case False
      with kn l div_mult_mod_eq [of ?n FRAG] show ?thesis by simp
    qed
    have bl: "map ?f bl = map (\<lambda>b. \<lparr>fr_buf = b, fr_len = length b\<rparr>) bl"
      using bufs_lengths [of _ ?xs] b by auto
    have last: "nat (int ?n div int FRAG) = ?n div FRAG" by (simp add: nat_div_distrib)
    have upd: "(map ?f (bufs ?xs))[?n div FRAG := (map ?f (bufs ?xs) ! (?n div FRAG))\<lparr>fr_len := length l\<rparr>] = fragments_of ?xs"
    proof (cases "?n mod FRAG = 0")
      case True
      then have "length (map ?f (bufs ?xs)) \<le> ?n div FRAG" using kn k_def by simp
      then have "(map ?f (bufs ?xs))[?n div FRAG := x] = map ?f (bufs ?xs)" for x by (rule list_update_beyond)
      moreover have "length l = FRAG" using l True by simp
      then have "map ?f (bufs ?xs) = fragments_of ?xs" unfolding b fragments_of_def map_append bl by simp
      ultimately show ?thesis by simp
    next
      case False
      then have "?n div FRAG = length bl" using kn lk by simp
      then show ?thesis unfolding b map_append fragments_of_def bl by (simp add: list_update_append nth_append)
    qed
    have s: "int ?n - int FRAG * (int k - 1) = int (length l)" "\<not> int ?n < int FRAG * (int k - 1)"
      using sum lk(3) by (simp_all add: of_nat_diff algebra_simps)
    have "?n div FRAG \<ge> MAX_FRAGS \<longleftrightarrow> ?n \<ge> FULL" by (simp add: less_eq_div_iff_mult_less_eq)
    then show ?thesis using False s last upd
      unfolding Message_element_len_fixup_def filling_head [OF h(1)] option.case Let_def tot lk(1) f0
      by simp
  qed
qed

section \<open>Reading what is there\<close>

text \<open>Pieces of the stream, none of them empty, wait at the socket.\<close>

definition arrives :: "8 word list list \<Rightarrow> sess_state \<Rightarrow> bool" where
  "arrives cs s \<longleftrightarrow> recv_results s = map Data cs \<and> [] \<notin> set cs"

lemma recv_arrives:
  assumes "arrives cs s" "cs \<noteq> []" "0 < n"
  shows "\<exists>bs cs'. recv n s = (Data bs, s\<lparr>recv_results := map Data cs'\<rparr>) \<and> bs \<noteq> [] \<and> length bs \<le> n \<and>
    concat cs = bs @ concat cs' \<and> [] \<notin> set cs'"
proof -
  obtain c r where c: "cs = c # r" using assms(2) by (cases cs) auto
  show ?thesis
  proof (cases "length c \<le> n")
    case True
    with assms c show ?thesis by (intro exI [of _ c] exI [of _ r]) (auto simp: recv_def arrives_def)
  next
    case False
    with assms c show ?thesis by (intro exI [of _ "take n c"] exI [of _ "drop n c # r"]) (auto simp: recv_def arrives_def)
  qed
qed

lemma recv_nothing: "arrives [] s \<Longrightarrow> recv n s = (Would_block, s)"
  by (simp add: recv_def arrives_def)

lemma arrives_upd [simp]: "[] \<notin> set cs \<Longrightarrow> arrives cs (s\<lparr>recv_results := map Data cs\<rparr>)"
  by (simp add: arrives_def)

definition position :: "8 word list \<Rightarrow> partial_message_info \<Rightarrow> bool" where
  "position xs p \<longleftrightarrow> \<not> in_mess_head p \<and> cur_element p = length xs div FRAG \<and> cur_byte p = length xs mod FRAG \<and>
     total_bytes p = length xs - HEAD"

abbreviation (input) fresh :: partial_message_info where
  "fresh \<equiv> \<lparr>in_mess_head = True, cur_element = 0, cur_byte = 0, total_bytes = 0\<rparr>"

lemma position_append:
  assumes "position xs p" "HEAD \<le> length xs" "length xs mod FRAG + length bs < FRAG"
  shows "position (xs @ bs) (p\<lparr>cur_byte := cur_byte p + length bs, total_bytes := total_bytes p + length bs\<rparr>)"
proof -
  have b: "length bs < FRAG" using assms(3) by simp
  have "length (xs @ bs) div FRAG = length xs div FRAG"
    using div_add1_eq [of "length xs" "length bs" FRAG] b assms(3) by simp
  moreover have "length (xs @ bs) mod FRAG = length xs mod FRAG + length bs"
    using mod_add_eq [of "length xs" FRAG "length bs"] b assms(3) by simp
  ultimately show ?thesis using assms by (simp add: position_def)
qed

lemma position_fill:
  assumes "position xs p" "HEAD \<le> length xs" "length xs mod FRAG + length bs = FRAG"
  shows "position (xs @ bs) (p\<lparr>cur_byte := 0, cur_element := Suc (cur_element p), total_bytes := total_bytes p + length bs\<rparr>)"
proof -
  have "length (xs @ bs) = Suc (length xs div FRAG) * FRAG"
    using assms(3) div_mult_mod_eq [of "length xs" FRAG] unfolding length_append mult_Suc by linarith
  then have "length (xs @ bs) div FRAG = Suc (length xs div FRAG)" "length (xs @ bs) mod FRAG = 0"
    by (simp_all only: nonzero_mult_div_cancel_right mod_mult_self2_is_0)
  with assms show ?thesis by (simp add: position_def)
qed

lemma block_bounds:
  fixes a b k :: nat
  shows "a mod k + b \<le> k \<Longrightarrow> a + b \<le> (a div k + 1) * k" "a mod k + b < k \<Longrightarrow> a + b < (a div k + 1) * k"
proof -
  have "a + b = a div k * k + (a mod k + b)" "(a div k + 1) * k = a div k * k + k"
    by (simp_all add: div_mult_mod_eq)
  then show "a mod k + b \<le> k \<Longrightarrow> a + b \<le> (a div k + 1) * k" "a mod k + b < k \<Longrightarrow> a + b < (a div k + 1) * k"
    by linarith+
qed

text \<open>A round of the loop takes something, or finds no place.\<close>

lemma round_reads:
  assumes xs: "HEAD \<le> length xs" "length xs \<le> FULL" and p: "position xs p"
    and ex: "extra \<longrightarrow> length xs mod FRAG = 0 \<and> length xs < FULL" and remain: "0 < remain" and cs: "arrives cs s"
  obtains
    (full) "length xs = FULL" "body_round i remain p (filling xs extra) s = Inl (None, s)"
  | (dry) extra' where "length xs < FULL" "cs = []" "extra' \<longrightarrow> length xs mod FRAG = 0"
      "body_round i remain p (filling xs extra) s = Inl (Some Waiting, set_reading i p (Some (filling xs extra')) s)"
  | (goes_on) bs cs' p' where "length xs < FULL" "bs \<noteq> []" "concat cs = bs @ concat cs'" "[] \<notin> set cs'" "length bs \<le> remain"
      "length xs + length bs \<le> FULL" "position (xs @ bs) p' \<or> length bs = remain \<and> \<not> in_mess_head p'"
      "body_round i remain p (filling xs extra) s = Inr (length bs, p', filling (xs @ bs) False, s\<lparr>recv_results := map Data cs'\<rparr>)"
  | (waits) bs cs' p' where "length xs < FULL" "bs \<noteq> []" "concat cs = bs @ concat cs'" "[] \<notin> set cs'" "length bs < remain"
      "length xs + length bs < FULL" "position (xs @ bs) p'"
      "body_round i remain p (filling xs extra) s =
         Inl (Some Waiting, set_reading i p' (Some (filling (xs @ bs) False)) (s\<lparr>recv_results := map Data cs'\<rparr>))"
proof -
  let ?e = "length xs div FRAG" and ?b = "length xs mod FRAG"
  have ne: "xs \<noteq> []" using xs by auto
  have pp: "cur_byte p = ?b" "cur_element p = ?e" using p by (simp_all add: position_def)
  have b: "?b < FRAG" by simp
  have lb: "length (bufs xs) = ?e + (if ?b = 0 then 0 else 1)" by (rule length_bufs_mod)
  have lf: "length (filling xs extra) \<le> ?e \<longleftrightarrow> ?b = 0 \<and> \<not> extra" using ex by (auto simp: length_filling lb)
  have guard: "\<not> (cur_byte p \<ge> FRAG \<or> cur_element p \<ge> length (filling xs extra) \<and> cur_byte p \<noteq> 0)"
    using lf pp b by auto
  define m1 where "m1 = (if cur_element p \<ge> length (filling xs extra) then Message_add_scat_element (filling xs extra)
      else Some (filling xs extra))"
  show thesis
  proof (cases "length xs = FULL")
    case True
    then have "\<not> extra" "?b = 0" "?e = 100" using ex by auto
    then have "m1 = None" using lf pp lb filling_add [OF ne] by (simp add: m1_def)
    then have "body_round i remain p (filling xs extra) s = Inl (None, s)"
      using guard by (simp add: body_round_def m1_def [symmetric])
    with True show thesis by (rule full)
  next
    case False
    with xs have less: "length xs < FULL" by simp
    then have "?e < 100" by (simp add: less_mult_imp_div_less)
    then have m1: "m1 = Some (filling xs (?b = 0))"
      using lf pp lb ex filling_add [OF ne] by (cases extra) (auto simp: m1_def)
    let ?r = "min (FRAG - ?b) remain"
    show thesis
    proof (cases "cs = []")
      case True
      then have e: "body_round i remain p (filling xs extra) s = Inl (Some Waiting, set_reading i p (Some (filling xs (?b = 0))) s)"
        using guard m1 recv_nothing [of s ?r] cs unfolding body_round_def m1_def [symmetric] pp(1) by (simp add: Let_def)
      show thesis by (rule dry [OF less True _ e]) simp
    next
      case ne_cs: False
      have "0 < ?r" using b remain by simp
      from recv_arrives [OF cs ne_cs this] obtain bs cs' where
        bs: "recv ?r s = (Data bs, s\<lparr>recv_results := map Data cs'\<rparr>)" "bs \<noteq> []" "length bs \<le> ?r"
          "concat cs = bs @ concat cs'" "[] \<notin> set cs'" by blast
      have "length bs \<le> FRAG - ?b" using bs(3) by simp
      then have fit: "?b + length bs \<le> FRAG" using b by linarith
      have st: "store ?e ?b bs (filling xs (?b = 0)) = Some (filling (xs @ bs) False)"
        using filling_append [OF ne bs(2) fit] by simp
      have "length xs + length bs \<le> (?e + 1) * FRAG" using fit by (rule block_bounds)
      also have "\<dots> \<le> FULL" using \<open>?e < 100\<close> by simp
      finally have le: "length xs + length bs \<le> FULL" .
      show thesis
      proof (cases "length bs = ?r")
        case True
        let ?p = "p\<lparr>cur_byte := 0, cur_element := Suc (cur_element p), total_bytes := total_bytes p + length bs\<rparr>"
        have e: "body_round i remain p (filling xs extra) s =
            Inr (length bs, ?p, filling (xs @ bs) False, s\<lparr>recv_results := map Data cs'\<rparr>)"
          unfolding body_round_def m1_def [symmetric] if_not_P [OF guard] m1 option.case unfolding pp
          using bs(1,2) st True by (simp add: Let_def)
        have "position (xs @ bs) ?p \<or> length bs = remain \<and> \<not> in_mess_head ?p"
        proof (cases "length bs = remain")
          case True
          with p show ?thesis by (simp add: position_def)
        next
          case False
          with True b have "?b + length bs = FRAG" by (auto simp: min_def split: if_splits)
          with position_fill [OF p xs(1)] show ?thesis by simp
        qed
        moreover have "length bs \<le> remain" using True by simp
        ultimately show thesis by (intro goes_on [OF less bs(2,4,5) _ le _ e])
      next
        case False
        let ?p = "p\<lparr>cur_byte := cur_byte p + length bs, total_bytes := total_bytes p + length bs\<rparr>"
        have "length bs < FRAG - ?b" "length bs < remain" using False bs(3) by auto
        then have pos: "position (xs @ bs) ?p" by (intro position_append [OF p xs(1)]) simp
        have "?b + length bs < FRAG" using \<open>length bs < FRAG - ?b\<close> by simp
        then have "length xs + length bs < (?e + 1) * FRAG" by (rule block_bounds)
        also have "\<dots> \<le> FULL" using \<open>?e < 100\<close> by simp
        finally have lt: "length xs + length bs < FULL" .
        have e: "body_round i remain p (filling xs extra) s =
            Inl (Some Waiting, set_reading i ?p (Some (filling (xs @ bs) False)) (s\<lparr>recv_results := map Data cs'\<rparr>))"
          unfolding body_round_def m1_def [symmetric] if_not_P [OF guard] m1 option.case unfolding pp
          using bs(1,2) st False by (simp add: Let_def)
        then show thesis by (rule waits [OF less bs(2,4,5) \<open>length bs < remain\<close> lt pos])
      qed
    qed
  qed
qed

section \<open>Reading the body\<close>

text \<open>
  What reading a body can lead to: the daemon ends because the fragments are full, or what was
  there is in the fragments and more is missing, or the message is complete.
\<close>

definition body_ends :: "message_header \<Rightarrow> 8 word list \<Rightarrow> 8 word list list \<Rightarrow> reading option \<times> sess_state \<Rightarrow> bool" where
  "body_ends h xs cs r \<longleftrightarrow> fst r = None \<and> FULL \<le> HEAD + body_size h \<and> FULL \<le> length xs + length (concat cs)"

definition body_waits ::
  "message_header \<Rightarrow> 8 word list \<Rightarrow> 8 word list list \<Rightarrow> nat \<Rightarrow> sess_state \<Rightarrow> reading option \<times> sess_state \<Rightarrow> bool" where
  "body_waits h xs cs i s r \<longleftrightarrow>
     (\<exists>zs cs' p extra. concat cs = zs @ concat cs' \<and> [] \<notin> set cs' \<and> (zs = [] \<longrightarrow> cs = []) \<and>
        length (xs @ zs) < min (HEAD + body_size h) FULL \<and> position (xs @ zs) p \<and>
        (extra \<longrightarrow> length (xs @ zs) mod FRAG = 0) \<and>
        r = (Some Waiting, set_reading i p (Some (filling (xs @ zs) extra)) (s\<lparr>recv_results := map Data cs'\<rparr>)))"

definition body_done ::
  "message_header \<Rightarrow> 8 word list \<Rightarrow> 8 word list list \<Rightarrow> nat \<Rightarrow> sess_state \<Rightarrow> reading option \<times> sess_state \<Rightarrow> bool" where
  "body_done h xs cs i s r \<longleftrightarrow>
     (\<exists>zs cs'. concat cs = zs @ concat cs' \<and> [] \<notin> set cs' \<and> length (xs @ zs) = HEAD + body_size h \<and>
        HEAD + body_size h < FULL \<and>
        r = (Some (Complete (fragments_of (xs @ zs))), set_reading i fresh None (s\<lparr>recv_results := map Data cs'\<rparr>)))"

lemma body_ends_step: "concat cs = bs @ concat cs' \<Longrightarrow> body_ends h (xs @ bs) cs' r \<Longrightarrow> body_ends h xs cs r"
  by (simp add: body_ends_def add.assoc)

lemma body_waits_step:
  assumes "concat cs = bs @ concat cs'" "bs \<noteq> []" "body_waits h (xs @ bs) cs' i (s\<lparr>recv_results := q\<rparr>) r"
  shows "body_waits h xs cs i s r"
proof -
  obtain zs c p extra where "concat cs' = zs @ concat c" "[] \<notin> set c" "length (xs @ bs @ zs) < min (HEAD + body_size h) FULL"
    "position (xs @ bs @ zs) p" "extra \<longrightarrow> length (xs @ bs @ zs) mod FRAG = 0"
    "r = (Some Waiting, set_reading i p (Some (filling (xs @ bs @ zs) extra)) (s\<lparr>recv_results := map Data c\<rparr>))"
    using assms(3) unfolding body_waits_def by (auto simp: add.assoc)
  with assms(1,2) show ?thesis
    unfolding body_waits_def by (intro exI [of _ "bs @ zs"] exI [of _ c] exI [of _ p] exI [of _ extra]) simp
qed

lemma body_done_step:
  assumes "concat cs = bs @ concat cs'" "body_done h (xs @ bs) cs' i (s\<lparr>recv_results := q\<rparr>) r"
  shows "body_done h xs cs i s r"
proof -
  obtain zs c where "concat cs' = zs @ concat c" "[] \<notin> set c" "length (xs @ bs @ zs) = HEAD + body_size h"
    "HEAD + body_size h < FULL"
    "r = (Some (Complete (fragments_of (xs @ bs @ zs))), set_reading i fresh None (s\<lparr>recv_results := map Data c\<rparr>))"
    using assms(2) unfolding body_done_def by (auto simp: add.assoc)
  with assms(1) show ?thesis unfolding body_done_def by (intro exI [of _ "bs @ zs"] exI [of _ c]) simp
qed

lemma read_body_spec:
  assumes h: "head_ok h" "mh_data_len h + 32 * num_groups h = int (body_size h)"
  shows "remain = body_size h - length ys \<Longrightarrow> length ys \<le> body_size h \<Longrightarrow> HEAD + length ys \<le> FULL \<Longrightarrow>
    position (write_head h @ ys) p \<or> remain = 0 \<and> \<not> in_mess_head p \<Longrightarrow>
    extra \<longrightarrow> (HEAD + length ys) mod FRAG = 0 \<and> HEAD + length ys < FULL \<and> 0 < remain \<Longrightarrow> arrives cs s \<Longrightarrow>
    body_ends h (write_head h @ ys) cs (read_body i remain p (filling (write_head h @ ys) extra) s) \<or>
    body_waits h (write_head h @ ys) cs i s (read_body i remain p (filling (write_head h @ ys) extra) s) \<or>
    body_done h (write_head h @ ys) cs i s (read_body i remain p (filling (write_head h @ ys) extra) s)"
proof (induction remain arbitrary: ys p extra cs s rule: less_induct)
  case (less remain)
  let ?xs = "write_head h @ ys" and ?r = "read_body i remain p (filling (write_head h @ ys) extra) s"
  have lx: "length ?xs = HEAD + length ys" using h(1) by (simp add: head_ok_def)
  show ?case
  proof (cases "remain = 0")
    case True
    with less.prems have ys: "body_size h = length ys" "\<not> extra" by auto
    have ar: "s\<lparr>recv_results := map Data cs\<rparr> = s" "[] \<notin> set cs" using less.prems(6) by (auto simp: arrives_def)
    have r: "?r = (map_option Complete (Message_element_len_fixup (filling ?xs False)), set_reading i fresh None s)"
      using True ys(2) by (subst read_body.simps) (simp add: Message_reset_current_location_def)
    show ?thesis
    proof (cases "HEAD + length ys \<ge> FULL")
      case True
      then have "fst ?r = None" unfolding r using filling_fixup [OF h(1), of ys] h(2) ys(1) by simp
      with True ys(1) lx show ?thesis by (simp add: body_ends_def)
    next
      case False
      then have "?r = (Some (Complete (fragments_of ?xs)), set_reading i fresh None s)"
        unfolding r using filling_fixup [OF h(1), of ys] h(2) ys(1) by simp
      with False have "body_done h ?xs cs i s ?r"
        unfolding body_done_def using ys(1) lx ar by (intro exI [of _ "[]"] exI [of _ cs]) simp
      then show ?thesis by simp
    qed
  next
    case False
    then have rem: "0 < remain" by simp
    have r: "?r = (case body_round i remain p (filling ?xs extra) s of Inl r \<Rightarrow> r
        | Inr (n, p1, msg1, s1) \<Rightarrow> read_body i (remain - n) p1 msg1 s1)"
      using rem by (subst read_body.simps) simp
    have pos: "position ?xs p" using less.prems(4) rem by simp
    have ex: "extra \<longrightarrow> length ?xs mod FRAG = 0 \<and> length ?xs < FULL" using less.prems(5) lx by simp
    from less.prems(3) lx have b: "HEAD \<le> length ?xs" "length ?xs \<le> FULL" by simp_all
    have T: "length ?xs + remain = HEAD + body_size h" using lx less.prems(1,2) by simp
    from b pos ex rem less.prems(6) show ?thesis
    proof (cases rule: round_reads [where i = i])
      case full
      then have "fst ?r = None" using r by simp
      with full(1) T show ?thesis by (simp add: body_ends_def)
    next
      case (dry extra')
      have "s\<lparr>recv_results := map Data cs\<rparr> = s" using less.prems(6) by (auto simp: arrives_def)
      then have "body_waits h ?xs cs i s ?r"
        unfolding body_waits_def r dry(4) sum.case using dry(1-3) T rem pos
        by (intro exI [of _ "[]"] exI [of _ cs] exI [of _ p] exI [of _ extra']) simp
      then show ?thesis by simp
    next
      case (goes_on bs cs' p')
      let ?s = "s\<lparr>recv_results := map Data cs'\<rparr>"
      have e: "?r = read_body i (remain - length bs) p' (filling (write_head h @ (ys @ bs)) False) ?s"
        unfolding r goes_on(8) by simp
      have lt: "remain - length bs < remain" using goes_on(2) rem by simp
      have "body_ends h (write_head h @ (ys @ bs)) cs' ?r \<or> body_waits h (write_head h @ (ys @ bs)) cs' i ?s ?r \<or>
          body_done h (write_head h @ (ys @ bs)) cs' i ?s ?r"
        unfolding e by (rule less.IH [OF lt]) (use goes_on less.prems(1,2) lx T in auto)
      then show ?thesis
        unfolding append_assoc [symmetric]
        using body_ends_step [OF goes_on(3)] body_waits_step [OF goes_on(3,2)] body_done_step [OF goes_on(3)] by blast
    next
      case (waits bs cs' p')
      have "body_waits h ?xs cs i s ?r"
        unfolding body_waits_def r waits(8) sum.case using waits(2-7) T
        by (intro exI [of _ bs] exI [of _ cs'] exI [of _ p'] exI [of _ False]) simp
      then show ?thesis by simp
    qed
  qed
qed

section \<open>Reading messages\<close>

text \<open>A session holds the bytes of a message that is not complete.\<close>

definition holds :: "nat \<Rightarrow> (8 word list \<Rightarrow> message_header option) \<Rightarrow> sess_state \<Rightarrow> 8 word list \<Rightarrow> bool" where
  "holds i norm s raw \<longleftrightarrow>
     norm_head i s = norm \<and>
     (length raw < HEAD \<and> cl_read (slots s i) = fresh\<lparr>cur_byte := length raw\<rparr> \<and>
        (case cl_read_mess (slots s i) of None \<Rightarrow> Message_new_message | Some m \<Rightarrow> m) = [\<lparr>fr_buf = raw, fr_len = HEAD\<rparr>] \<or>
      (\<exists>hb ys h extra. raw = hb @ ys \<and> length hb = HEAD \<and> norm hb = Some h \<and> length ys < body_size h \<and>
         HEAD + length ys < FULL \<and> position (write_head h @ ys) (cl_read (slots s i)) \<and>
         cl_read_mess (slots s i) = Some (filling (write_head h @ ys) extra) \<and>
         (extra \<longrightarrow> (HEAD + length ys) mod FRAG = 0)))"

definition message_result ::
  "bool \<Rightarrow> nat \<Rightarrow> (8 word list \<Rightarrow> message_header option) \<Rightarrow> 8 word list \<Rightarrow> 8 word list list \<Rightarrow> reading option \<times> sess_state \<Rightarrow> bool" where
  "message_result strict i norm raw cs r \<longleftrightarrow>
     fst r = None \<and> parse_stream norm (raw @ concat cs) = None \<or>
     fst r = Some Broken \<and> parse_stream norm (raw @ concat cs) = Some ([], None) \<or>
     (\<exists>zs cs' t. r = (Some Waiting, t) \<and> concat cs = zs @ concat cs' \<and> arrives cs' t \<and> (zs = [] \<longrightarrow> cs = []) \<and>
        holds i norm t (raw @ zs)) \<or>
     (\<exists>m zs cs' t. r = (Some (Complete m), t) \<and> concat cs = zs @ concat cs' \<and> arrives cs' t \<and> holds i norm t [] \<and>
        (strict \<longrightarrow> zs \<noteq> []) \<and>
        parse_stream norm (raw @ concat cs) =
          map_option (\<lambda>(ms, r). (m # ms, r)) (parse_stream norm (concat cs')))"

lemma message_result_step:
  assumes "concat cs = bs @ concat cs'" "bs \<noteq> []" "message_result b i norm (raw @ bs) cs' r"
  shows "message_result b' i norm raw cs r"
proof -
  have e: "(raw @ bs) @ concat cs' = raw @ concat cs" using assms(1) by simp
  from assms(3) consider "fst r = None \<and> parse_stream norm (raw @ concat cs) = None"
    | "fst r = Some Broken \<and> parse_stream norm (raw @ concat cs) = Some ([], None)"
    | zs c t where "r = (Some Waiting, t)" "concat cs' = zs @ concat c" "arrives c t" "holds i norm t (raw @ bs @ zs)"
    | m zs c t where "r = (Some (Complete m), t)" "concat cs' = zs @ concat c" "arrives c t" "holds i norm t []"
        "parse_stream norm (raw @ concat cs) = map_option (\<lambda>(ms, r). (m # ms, r)) (parse_stream norm (concat c))"
    unfolding message_result_def e by (auto simp only: append_assoc)
  then show ?thesis
  proof cases
    case 3
    then show ?thesis unfolding message_result_def using assms(1,2)
      by (intro disjI2 disjI1 exI [of _ "bs @ zs"] exI [of _ c] exI [of _ t]) simp
  next
    case 4
    then show ?thesis unfolding message_result_def using assms(1,2)
      by (intro disjI2 exI [of _ m] exI [of _ "bs @ zs"] exI [of _ c] exI [of _ t]) simp
  qed (simp_all add: message_result_def)
qed

lemma set_reading_simps [simp]:
  "arrives cs (set_reading i p m s) = arrives cs s" "norm_head j (set_reading i p m s) = norm_head j s"
  "cl_read (slots (set_reading i p m s) i) = p" "cl_read_mess (slots (set_reading i p m s) i) = m"
  by (auto simp: set_reading_def upd_def arrives_def intro!: norm_head_cong)

lemma norm_head_recv [simp]: "norm_head i (s\<lparr>recv_results := q\<rparr>) = norm_head i s"
  by (rule norm_head_cong) simp_all

lemma parse_body:
  assumes "length hb = HEAD" "norm hb = Some h"
  shows "parse_stream norm (hb @ bs) =
    (if HEAD + length bs < min (HEAD + body_size h) FULL then Some ([], Some (hb @ bs))
     else if HEAD + body_size h \<ge> FULL then None
     else map_option (\<lambda>(ms, r). (fragments_of (write_head h @ take (body_size h) bs) # ms, r))
            (parse_stream norm (drop (body_size h) bs)))"
  using assms by (subst parse_stream.simps) simp

lemma body_phase:
  assumes hb: "length hb = HEAD" "norm hb = Some h" "norm_head i s = norm"
    and ys: "length ys \<le> body_size h" "HEAD + length ys < FULL" "remain = body_size h - length ys"
    and p: "position (write_head h @ ys) p" "extra \<longrightarrow> (HEAD + length ys) mod FRAG = 0 \<and> 0 < remain"
    and cs: "arrives cs s"
  shows "message_result (length ys < body_size h) i norm (hb @ ys) cs (read_body i remain p (filling (write_head h @ ys) extra) s)"
    (is "message_result ?b i norm _ cs ?r")
proof -
  have h: "head_ok h" "mh_data_len h + 32 * num_groups h = int (body_size h)"
    using norm_head_ok [of i s hb h] hb by simp_all
  have len: "length (write_head h) = HEAD" using h(1) by (simp add: head_ok_def)
  have "HEAD + length ys \<le> FULL" using ys(2) by simp
  then consider "body_ends h (write_head h @ ys) cs ?r" | "body_waits h (write_head h @ ys) cs i s ?r"
    | "body_done h (write_head h @ ys) cs i s ?r"
    using read_body_spec [OF h ys(3,1), of p extra cs s i] p ys(2) cs by blast
  then show ?thesis
  proof cases
    case 1
    then show ?thesis using hb len by (simp add: message_result_def body_ends_def parse_body)
  next
    case 2
    then obtain zs cs' p' e where w: "concat cs = zs @ concat cs'" "[] \<notin> set cs'" "zs = [] \<longrightarrow> cs = []"
      "length (write_head h @ ys @ zs) < min (HEAD + body_size h) FULL" "position (write_head h @ ys @ zs) p'"
      "e \<longrightarrow> length (write_head h @ ys @ zs) mod FRAG = 0"
      "?r = (Some Waiting, set_reading i p' (Some (filling (write_head h @ ys @ zs) e)) (s\<lparr>recv_results := map Data cs'\<rparr>))"
      (is "_ = (_, ?t)")
      unfolding body_waits_def by auto
    have "holds i norm ?t (hb @ ys @ zs)" unfolding holds_def using w(4-6) hb len
      by (intro conjI disjI2 exI [of _ hb] exI [of _ "ys @ zs"] exI [of _ h] exI [of _ e]) simp_all
    then show ?thesis unfolding message_result_def using w(1,2,3,7)
      by (intro disjI2 disjI1 exI [of _ zs] exI [of _ cs'] exI [of _ ?t]) simp
  next
    case 3
    then obtain zs cs' where w: "concat cs = zs @ concat cs'" "[] \<notin> set cs'" "length (write_head h @ ys @ zs) = HEAD + body_size h"
      "HEAD + body_size h < FULL"
      "?r = (Some (Complete (fragments_of (write_head h @ ys @ zs))), set_reading i fresh None (s\<lparr>recv_results := map Data cs'\<rparr>))"
      (is "_ = (_, ?t)")
      unfolding body_done_def by auto
    have b: "body_size h = length (ys @ zs)" using w(3) len by simp
    then have "?b \<longrightarrow> zs \<noteq> []" by auto
    moreover
    have "parse_stream norm (hb @ ((ys @ zs) @ concat cs')) =
        map_option (\<lambda>(ms, r). (fragments_of (write_head h @ ys @ zs) # ms, r)) (parse_stream norm (concat cs'))"
      unfolding parse_body [of hb norm h, OF hb(1,2)] using w(4) b by simp
    moreover have "holds i norm ?t []" using hb(3) by (simp add: holds_def Message_new_message_def)
    ultimately show ?thesis unfolding message_result_def using w(1,2,5)
      by (intro disjI2 exI [of _ "fragments_of (write_head h @ ys @ zs)"] exI [of _ zs] exI [of _ cs'] exI [of _ ?t]) simp
  qed
qed

lemma finish_header_norm:
  assumes "length bs = HEAD"
  shows "norm_head i s bs = None \<Longrightarrow> \<exists>m. finish_header i [\<lparr>fr_buf = bs, fr_len = n\<rparr>] s = Some (Inl m)"
    "norm_head i s bs = Some h \<Longrightarrow>
      finish_header i [\<lparr>fr_buf = bs, fr_len = n\<rparr>] s = Some (Inr [\<lparr>fr_buf = write_head h, fr_len = n\<rparr>])"
proof -
  have "Message_get_message_header [\<lparr>fr_buf = bs, fr_len = n\<rparr>] = Some (read_head bs)"
    using assms by (simp add: Message_get_message_header_def)
  then show "norm_head i s bs = None \<Longrightarrow> \<exists>m. finish_header i [\<lparr>fr_buf = bs, fr_len = n\<rparr>] s = Some (Inl m)"
    "norm_head i s bs = Some h \<Longrightarrow>
      finish_header i [\<lparr>fr_buf = bs, fr_len = n\<rparr>] s = Some (Inr [\<lparr>fr_buf = write_head h, fr_len = n\<rparr>])"
    using assms by (simp_all add: finish_header_def norm_head_def Let_def set_head_def)
qed

lemma read_message_spec:
  assumes hs: "holds i norm s raw" and cs: "arrives cs s"
  shows "message_result True i norm raw cs (read_message i s)"
proof -
  define msg where "msg = (case cl_read_mess (slots s i) of None \<Rightarrow> Message_new_message | Some m \<Rightarrow> m)"
  have nm: "norm_head i s = norm" using hs by (simp add: holds_def)
  have ar: "s\<lparr>recv_results := map Data cs\<rparr> = s" "[] \<notin> set cs" using cs by (auto simp: arrives_def)
  have rm: "read_message i s =
      (case read_header i (cl_read (slots s i)) msg s of
           (None, s1) \<Rightarrow> (None, s1)
         | (Some (Inl r), s1) \<Rightarrow> (Some r, s1)
         | (Some (Inr (p, msg1)), s1) \<Rightarrow>
             (case Message_get_message_header msg1 of
                None \<Rightarrow> (None, s1)
              | Some h \<Rightarrow> read_body i (nat (mh_data_len h + 32 * num_groups h - int (total_bytes p))) p msg1 s1))"
    by (simp only: read_message_def Let_def msg_def)
  from hs consider
      (head) "length raw < HEAD" "cl_read (slots s i) = fresh\<lparr>cur_byte := length raw\<rparr>" "msg = [\<lparr>fr_buf = raw, fr_len = HEAD\<rparr>]"
    | (body) hb ys h extra where "raw = hb @ ys" "length hb = HEAD" "norm hb = Some h" "length ys < body_size h"
        "HEAD + length ys < FULL" "position (write_head h @ ys) (cl_read (slots s i))"
        "msg = filling (write_head h @ ys) extra" "extra \<longrightarrow> (HEAD + length ys) mod FRAG = 0"
    unfolding holds_def msg_def [symmetric]
  proof (elim conjE disjE exE)
    fix hb ys h extra
    assume a: "cl_read_mess (slots s i) = Some (filling (write_head h @ ys) extra)" "raw = hb @ ys" "length hb = HEAD"
      "norm hb = Some h" "length ys < body_size h" "HEAD + length ys < FULL"
      "position (write_head h @ ys) (cl_read (slots s i))" "extra \<longrightarrow> (HEAD + length ys) mod FRAG = 0"
    moreover have "msg = filling (write_head h @ ys) extra" using a(1) by (simp add: msg_def)
    ultimately show thesis by (intro body)
  qed (rule head)
  then show ?thesis
  proof cases
    case body
    let ?p = "cl_read (slots s i)"
    have h: "head_ok h" "mh_data_len h + 32 * num_groups h = int (body_size h)"
      using norm_head_ok [of i s hb h] body(2,3) nm by simp_all
    have len: "length (write_head h) = HEAD" using h(1) by (simp add: head_ok_def)
    have "\<not> in_mess_head ?p" "total_bytes ?p = length ys" using body(6) len by (simp_all add: position_def)
    moreover have "nat (int (body_size h) - int (length ys)) = body_size h - length ys" by simp
    ultimately have "read_message i s =
        read_body i (body_size h - length ys) ?p (filling (write_head h @ ys) extra) s"
      unfolding rm by (simp add: read_header_def body(7) filling_head [OF h(1)] h(2))
    then show ?thesis
      using body_phase [OF body(2,3) nm, of ys "body_size h - length ys" ?p extra cs] body cs by simp
  next
    case head
    show ?thesis
    proof (cases "cs = []")
      case True
      let ?t = "set_reading i (fresh\<lparr>cur_byte := length raw\<rparr>) (Some [\<lparr>fr_buf = raw, fr_len = HEAD\<rparr>]) s"
      have "read_message i s = (Some Waiting, ?t)"
        unfolding rm using head recv_nothing [of s] cs True by (simp add: read_header_def)
      moreover have "holds i norm ?t raw" unfolding holds_def using head nm by simp
      ultimately show ?thesis unfolding message_result_def using True cs
        by (intro disjI2 disjI1 exI [of _ "[]"] exI [of _ "[]"] exI [of _ ?t]) simp
    next
      case False
      have "0 < HEAD - length raw" using head(1) by simp
      from recv_arrives [OF cs False this] obtain bs cs' where
        bs: "recv (HEAD - length raw) s = (Data bs, s\<lparr>recv_results := map Data cs'\<rparr>)" "bs \<noteq> []" "length bs \<le> HEAD - length raw"
          "concat cs = bs @ concat cs'" "[] \<notin> set cs'" by blast
      let ?s = "s\<lparr>recv_results := map Data cs'\<rparr>"
      have st: "store 0 (length raw) bs [\<lparr>fr_buf = raw, fr_len = HEAD\<rparr>] = Some [\<lparr>fr_buf = raw @ bs, fr_len = HEAD\<rparr>]"
        by (simp add: store_def write_at_def)
      show ?thesis
      proof (cases "length bs = HEAD - length raw")
        case full: True
        then have hb: "length (raw @ bs) = HEAD" using head(1) by simp
        have n: "norm_head i ?s = norm" using nm by simp
        let ?p = "\<lparr>in_mess_head = False, cur_element = 0, cur_byte = HEAD, total_bytes = 0\<rparr>"
        have hd: "read_header i (cl_read (slots s i)) msg s =
            (case finish_header i [\<lparr>fr_buf = raw @ bs, fr_len = HEAD\<rparr>] ?s of
               None \<Rightarrow> (None, ?s)
             | Some (Inl msg2) \<Rightarrow> (Some (Inl Broken), set_reading i ?p (Some msg2) ?s)
             | Some (Inr msg2) \<Rightarrow> (Some (Inr (?p, msg2)), ?s))"
          using head bs(1,2) st full hb
          by (simp add: read_header_def Let_def Message_set_location_begin_body_def split: option.split sum.split)
        show ?thesis
        proof (cases "norm (raw @ bs)")
          case None
          with n finish_header_norm(1) [OF hb, of i ?s HEAD] obtain m
            where "finish_header i [\<lparr>fr_buf = raw @ bs, fr_len = HEAD\<rparr>] ?s = Some (Inl m)" by auto
          then have "fst (read_message i s) = Some Broken" unfolding rm hd by simp
          moreover have "take HEAD ((raw @ bs) @ concat cs') = raw @ bs" using hb by simp
          then have "parse_stream norm ((raw @ bs) @ concat cs') = Some ([], None)"
            using None hb by (subst parse_stream.simps) simp
          then have "parse_stream norm (raw @ concat cs) = Some ([], None)" using bs(4) by simp
          ultimately show ?thesis by (simp add: message_result_def)
        next
          case (Some h)
          have h: "head_ok h" "mh_data_len h + 32 * num_groups h = int (body_size h)"
            using norm_head_ok [of i ?s "raw @ bs" h] hb n Some by simp_all
          have len: "length (write_head h) = HEAD" using h(1) by (simp add: head_ok_def)
          then have fl: "[\<lparr>fr_buf = write_head h, fr_len = HEAD\<rparr>] = filling (write_head h @ []) False"
            using bufs_short [of "write_head h"] by (cases "write_head h = []") (simp, simp add: filling_def)
          have "finish_header i [\<lparr>fr_buf = raw @ bs, fr_len = HEAD\<rparr>] ?s = Some (Inr (filling (write_head h @ []) False))"
            using finish_header_norm(2) [OF hb, of i ?s h HEAD] n Some fl by simp
          then have "read_message i s = read_body i (body_size h - length []) ?p (filling (write_head h @ []) False) ?s"
            unfolding rm hd by (simp add: filling_head [OF h(1), of "[]", simplified] h(2))
          moreover have "position (write_head h @ []) ?p" using len by (simp add: position_def)
          then have "message_result (length ([] :: 8 word list) < body_size h) i norm ((raw @ bs) @ []) cs' (read_body i (body_size h - length []) ?p (filling (write_head h @ []) False) ?s)"
            using bs(5) by (intro body_phase [OF hb Some n]) simp_all
          ultimately show ?thesis using message_result_step [OF bs(4,2)] by simp
        qed
      next
        case False
        let ?t = "set_reading i (fresh\<lparr>cur_byte := length (raw @ bs)\<rparr>) (Some [\<lparr>fr_buf = raw @ bs, fr_len = HEAD\<rparr>]) ?s"
        have "read_message i s = (Some Waiting, ?t)"
          unfolding rm using head bs(1,2) st False by (simp add: read_header_def Let_def)
        moreover have "holds i norm ?t (raw @ bs)" unfolding holds_def using head(1) bs(3) False nm
          by (intro conjI disjI1) (simp, use head(1) bs(3) False in \<open>simp add: le_neq_implies_less\<close>, simp_all)
        ultimately show ?thesis unfolding message_result_def using bs
          by (intro disjI2 disjI1 exI [of _ bs] exI [of _ cs'] exI [of _ ?t]) simp
      qed
    qed
  qed
qed

lemma parse_held: "holds i norm s raw \<Longrightarrow> parse_stream norm raw = Some ([], Some raw)"
proof -
  assume "holds i norm s raw"
  then consider "length raw < HEAD"
    | hb ys h where "raw = hb @ ys" "length hb = HEAD" "norm hb = Some h" "length ys < body_size h" "HEAD + length ys < FULL"
    unfolding holds_def by blast
  then show ?thesis by cases (simp add: parse_stream.simps, simp add: parse_body)
qed

text \<open>Whatever the pieces, the calls find what the parser finds.\<close>

lemma reads_parse:
  "holds i norm s raw \<Longrightarrow> arrives cs s \<Longrightarrow> length (concat cs) \<le> n \<Longrightarrow>
   (case parse_stream norm (raw @ concat cs) of
      None \<Rightarrow> reads_of n i s = None
    | Some (ms, None) \<Rightarrow> reads_of n i s = Some (ms, None)
    | Some (ms, Some rest) \<Rightarrow> \<exists>t. reads_of n i s = Some (ms, Some t) \<and> holds i norm t rest \<and> arrives [] t)"
proof (induction n arbitrary: s raw cs)
  case 0
  then have cs: "cs = []" by (cases cs) (auto simp: arrives_def)
  with "0.prems" parse_held [OF "0.prems"(1)] show ?case by simp
next
  case (Suc n)
  let ?r = "read_message i s" and ?P = "parse_stream norm (raw @ concat cs)"
  have "message_result True i norm raw cs ?r" by (rule read_message_spec [OF Suc.prems(1,2)])
  then consider "fst ?r = None" "?P = None" | "fst ?r = Some Broken" "?P = Some ([], None)"
    | (wait) zs cs' t where "?r = (Some Waiting, t)" "concat cs = zs @ concat cs'" "arrives cs' t"
        "zs = [] \<longrightarrow> cs = []" "holds i norm t (raw @ zs)"
    | (mess) m zs cs' t where "?r = (Some (Complete m), t)" "concat cs = zs @ concat cs'" "arrives cs' t" "holds i norm t []" "zs \<noteq> []"
        "?P = map_option (\<lambda>(ms, r). (m # ms, r)) (parse_stream norm (concat cs'))"
    unfolding message_result_def by (elim disjE conjE exE) simp_all
  then show ?case
  proof cases
    case 1
    then show ?thesis by (cases ?r) simp
  next
    case 2
    then show ?thesis by (cases ?r) simp
  next
    case wait
    have "length (concat cs') \<le> n"
    proof (cases "zs = []")
      case True
      with wait(2,4) have "concat cs' = []" by simp
      then show ?thesis by (simp only: list.size)
    next
      case False
      then have "0 < length zs" by simp
      moreover have "length (concat cs) = length zs + length (concat cs')" using wait(2) by simp
      ultimately show ?thesis using Suc.prems(3) by linarith
    qed
    note IH = Suc.IH [OF wait(5,3) this]
    have e: "reads_of (Suc n) i s = reads_of n i t" using wait(1) by simp
    show ?thesis unfolding e wait(2) using IH by (simp only: append_assoc)
  next
    case mess
    have "0 < length zs" "length (concat cs) = length zs + length (concat cs')" using mess(2,5) by simp_all
    then have "length (concat cs') \<le> n" using Suc.prems(3) by linarith
    from Suc.IH [OF mess(4,3) this] show ?thesis using mess(1,6)
      by (cases "parse_stream norm (concat cs')") (auto split: option.splits)
  qed
qed

end
