(* ===== verification/SessAuth.thy ===== *)
theory SessAuth
  imports SessInv
begin

text \<open>
  Who gets into operation: a client is authorized only when every method that it asked for, and
  every method that is required, has accepted it, and the policy lets it connect.
\<close>

section \<open>The methods one after the other\<close>

text \<open>A method that a session has to pass, by its number in the table.\<close>

definition method_accepts :: "int \<Rightarrow> int \<Rightarrow> sess_state \<Rightarrow> bool" where
  "method_accepts mbox type s \<longleftrightarrow>
     (\<exists>m. Acm_auth_get_auth_client_connection type (Acl s) = Some m \<and> m \<noteq> No_auth \<and>
        module_decision m mbox s = Some True)"

definition connects :: "nat \<Rightarrow> sess_state \<Rightarrow> bool" where
  "connects i s \<longleftrightarrow> open_connection (cl_acp_ops (slots s i)) (cl_name (slots s i))"

lemma report_result:
  "Sess_session_report_auth_result sa b s = Some t \<Longrightarrow> Sess_get_session_index_tab (sa_mbox sa) s = Some (Some i) \<Longrightarrow>
   completed_required_auths sa < length (required_auth_methods sa) \<Longrightarrow>
   length (required_auth_methods sa) \<le> length (required_auth_results sa) \<Longrightarrow>
   Sess_session_denied i s = Some t \<or>
   Sess_session_authorized i s = Some t \<and> b \<and> connects i s \<and>
     (\<forall>j < completed_required_auths sa. required_auth_results sa ! j) \<and>
     (\<forall>j. completed_required_auths sa < j \<and> j < length (required_auth_methods sa) \<longrightarrow>
        method_accepts (sa_mbox sa) (required_auth_methods sa ! j) s)"
proof (induction sa b s rule: Sess_session_report_auth_result.induct)
  case (1 sa b s)
  let ?k = "completed_required_auths sa" and ?n = "length (required_auth_methods sa)" and ?rs = "required_auth_results sa"
  note idx = "1.prems"(2)
  show ?case
  proof (cases "Suc ?k < ?n")
    case True
    with "1.prems"(1) idx obtain m where m: "Acm_auth_get_auth_client_connection (required_auth_methods sa ! Suc ?k) (Acl s) = Some m"
      by (auto simp: Sess_session_report_auth_result.simps [of sa] Let_def split: option.splits)
    show ?thesis
    proof (cases "m = No_auth")
      case No: True
      with "1.prems"(1) idx True m show ?thesis
        by (simp add: Sess_session_report_auth_result.simps [of sa] Let_def)
    next
      case False
      with "1.prems"(1) idx True m obtain res where res: "module_decision m (sa_mbox sa) s = Some res"
        by (auto simp: Sess_session_report_auth_result.simps [of sa] Let_def split: option.splits)
      let ?sa = "sa\<lparr>required_auth_results := ?rs[?k := b], completed_required_auths := Suc ?k\<rparr>"
      have "Sess_session_report_auth_result ?sa res s = Some t"
        using "1.prems"(1) idx True m False res by (simp add: Sess_session_report_auth_result.simps [of sa] Let_def)
      then have IH: "Sess_session_denied i s = Some t \<or>
          Sess_session_authorized i s = Some t \<and> res \<and> connects i s \<and> (\<forall>j < Suc ?k. ?rs[?k := b] ! j) \<and>
            (\<forall>j. Suc ?k < j \<and> j < ?n \<longrightarrow> method_accepts (sa_mbox sa) (required_auth_methods sa ! j) s)"
        using "1.IH" [OF idx refl refl refl refl True m False res] idx True "1.prems"(4) by simp
      show ?thesis
      proof (cases "Sess_session_denied i s = Some t")
        case no: False
        with IH have a: "Sess_session_authorized i s = Some t" "res" "connects i s" "\<forall>j < Suc ?k. ?rs[?k := b] ! j"
          "\<forall>j. Suc ?k < j \<and> j < ?n \<longrightarrow> method_accepts (sa_mbox sa) (required_auth_methods sa ! j) s" by blast+
        have "?k < length ?rs" using "1.prems"(3,4) by simp
        then have "b" using a(4) [rule_format, of ?k] by simp
        moreover have "?rs ! j" if "j < ?k" for j using a(4) [rule_format, of j] that by simp
        moreover have "method_accepts (sa_mbox sa) (required_auth_methods sa ! Suc ?k) s"
          using m False res a(2) by (auto simp: method_accepts_def)
        then have "method_accepts (sa_mbox sa) (required_auth_methods sa ! j) s" if "?k < j" "j < ?n" for j
          using a(5) that by (cases "j = Suc ?k") simp_all
        ultimately show ?thesis using a(1,3) by blast
      qed simp
    qed
  next
    case False
    then have n: "?n = Suc ?k" using "1.prems"(3) by simp
    have r: "(if \<not> list_all id (take ?n (?rs[?k := b])) then Sess_session_denied i s
        else if \<not> connects i s then Sess_session_denied i s else Sess_session_authorized i s) = Some t"
      using "1.prems"(1) idx False
      by (simp add: Sess_session_report_auth_result.simps [of sa] Let_def connects_def split: if_splits)
    show ?thesis
    proof (cases "list_all id (take ?n (?rs[?k := b])) \<and> connects i s")
      case True
      have l: "Suc ?k \<le> length ?rs" using "1.prems"(4) n by simp
      have all: "?rs[?k := b] ! j" if "j < Suc ?k" for j
        using True that l n by (auto simp: list_all_length)
      have "b" using all [of ?k] l by simp
      moreover have "?rs ! j" if "j < ?k" for j using all [of j] that by simp
      ultimately show ?thesis using r True n by auto
    qed (use r in \<open>auto split: if_splits\<close>)
  qed
qed

section \<open>Denied is not in operation\<close>

lemma slots_send: "slots (send_code m k s) = slots s" "slots (send_ignored m bs s) = slots s" "slots (snd (send m bs s)) = slots s"
  by (simp_all add: send_code_def send_ignored_def send_def Let_def)

lemma send_simps:
  "Sessions_hash_head (send_ignored m bs s) = Sessions_hash_head s" "Sessions_head (send_ignored m bs s) = Sessions_head s"
  "Sess_My (send_ignored m bs s) = Sess_My s" "max_session_messages (send_ignored m bs s) = max_session_messages s"
  "Sessions_hash_head (send_code m k s) = Sessions_hash_head s" "Sessions_head (send_code m k s) = Sessions_head s"
  "Sess_My (send_code m k s) = Sess_My s" "max_session_messages (send_code m k s) = max_session_messages s"
  "Sess_My (semit as s) = Sess_My s" "max_session_messages (semit as s) = max_session_messages s"
  by (simp_all add: send_code_def send_ignored_def send_def Let_def semit_def)

lemma status_unhash: "Sess_unhash_session i s = Some t \<Longrightarrow> cl_status (slots t j) = cl_status (slots s j)"
  by (auto simp: Sess_unhash_session_def Let_def upd_def split: if_splits option.splits)

lemma status_take_out:
  assumes "take_out i s = Some t" shows "cl_status (slots t j) = cl_status (slots s j)"
proof -
  from assms obtain u where u: "Sess_unhash_session i s = Some u"
    "t = (Sess_remove_session i u)\<lparr>Num_sessions := Num_sessions u - 1\<rparr>"
    by (auto simp: take_out_def split: option.splits)
  have "cl_status (slots t j) = cl_status (slots u j)"
    unfolding u(2) by (auto simp: Sess_remove_session_def Sess_remove_session_tab_def Sess_free_session_def close_mbox_def
        Sess_unlink_session_def upd_def split: option.splits)
  also have "\<dots> = cl_status (slots s j)" using status_unhash [OF u(1)] .
  finally show ?thesis .
qed

lemma status_denied: "Sess_session_denied i s = Some t \<Longrightarrow> cl_status (slots t j) = cl_status (slots s j)"
  using status_take_out [of i "send_code (cl_mbox (slots s i)) REJECT_AUTH s" t j]
  by (simp add: denied_takes_out send_code_def send_ignored_def send_def Let_def split: if_splits)

section \<open>What a client asks for\<close>

lemma names_allowed_entries:
  "names_allowed n i bs a = Some True \<Longrightarrow>
     \<exists>nms. auth_entries n i bs = Some nms \<and> list_all (\<lambda>nm. Acm_auth_query_allowed nm a) nms"
  by (induction n i bs a rule: names_allowed.induct) (auto split: if_splits)

lemma requested_methods_all:
  "requested_methods a nms = Some ts \<Longrightarrow> list_all (\<lambda>nm. Acm_auth_query_allowed nm a) nms \<Longrightarrow>
     ts = map (\<lambda>nm. acm_authname_to_type nm a) nms"
  by (induction nms arbitrary: ts) (auto simp: Let_def Acm_auth_query_allowed_def split: if_splits)

lemma add_required_set:
  "set (add_required i ms ts) = set ts \<union> {j. \<exists>k < length ms. j = i + int k \<and> au_required (ms ! k)}"
proof (induction i ms ts rule: add_required.induct)
  case (2 i m ms ts)
  have "{j. \<exists>k < length (m # ms). j = i + int k \<and> au_required ((m # ms) ! k)} =
    (if au_required m then {i} else {}) \<union> {j. \<exists>k < length ms. j = i + 1 + int k \<and> au_required (ms ! k)}"
    by (auto simp: less_Suc_eq_0_disj)
  with 2 show ?case by auto
qed simp

lemma sess_info_methods:
  assumes "Acm_auth_create_sess_info mbox bs a = Some (Some sa)" "names_allowed MAX_AUTH_METHODS 0 bs a = Some True"
  obtains nms where "requested bs = Some nms" "nms \<noteq> []" "list_all (\<lambda>nm. Acm_auth_query_allowed nm a) nms"
    "set (required_auth_methods sa) = (\<lambda>nm. acm_authname_to_type nm a) ` set nms \<union>
       {int k | k. k < length (Auth_Methods a) \<and> au_required (Auth_Methods a ! k)}"
    "sa_mbox sa = mbox" "completed_required_auths sa = 0" "required_auth_methods sa \<noteq> []"
    "length (required_auth_methods sa) \<le> length (required_auth_results sa)"
proof -
  from names_allowed_entries [OF assms(2)] obtain nms where n: "requested bs = Some nms"
    "list_all (\<lambda>nm. Acm_auth_query_allowed nm a) nms" by (auto simp: requested_def)
  with assms(1) obtain ts where ts: "requested_methods a nms = Some ts" "ts \<noteq> []"
    "length (add_required 0 (Auth_Methods a) ts) \<le> MAX_AUTH_METHODS"
    "sa = \<lparr>sa_mbox = mbox, completed_required_auths = 0, required_auth_methods = add_required 0 (Auth_Methods a) ts,
       required_auth_results = replicate MAX_AUTH_METHODS False\<rparr>"
    unfolding Acm_auth_create_sess_info_def Let_def by (auto simp: not_less split: option.splits if_splits)
  have e: "ts = map (\<lambda>nm. acm_authname_to_type nm a) nms" by (rule requested_methods_all [OF ts(1) n(2)])
  have s: "set (add_required 0 (Auth_Methods a) ts) = (\<lambda>nm. acm_authname_to_type nm a) ` set nms \<union>
       {int k | k. k < length (Auth_Methods a) \<and> au_required (Auth_Methods a ! k)}"
    unfolding add_required_set e by auto
  moreover have "nms \<noteq> []" using e ts(2) by simp
  moreover from s this have "add_required 0 (Auth_Methods a) ts \<noteq> []" by auto
  ultimately show thesis using n ts(3,4) by (intro that [of nms]) simp_all
qed

lemma auth_open_result:
  assumes "auth_open m sa s = Some t" "Sess_get_session_index_tab (sa_mbox sa) s = Some (Some i)"
    "Acm_auth_get_auth_client_connection (hd (required_auth_methods sa)) (Acl s) = Some m" "m \<noteq> No_auth"
    "completed_required_auths sa = 0" "required_auth_methods sa \<noteq> []"
    "length (required_auth_methods sa) \<le> length (required_auth_results sa)"
  shows "Sess_session_denied i s = Some t \<or>
    Sess_session_authorized i s = Some t \<and> connects i s \<and>
      list_all (\<lambda>type. method_accepts (sa_mbox sa) type s) (required_auth_methods sa)"
proof -
  from assms(1) obtain res where res: "module_decision m (sa_mbox sa) s = Some res"
    "Sess_session_report_auth_result sa res s = Some t" by (auto simp: auth_open_def split: option.splits)
  have "method_accepts (sa_mbox sa) (required_auth_methods sa ! j) s"
    if "res" "\<forall>j. 0 < j \<and> j < length (required_auth_methods sa) \<longrightarrow> method_accepts (sa_mbox sa) (required_auth_methods sa ! j) s"
      "j < length (required_auth_methods sa)" for j
  proof (cases j)
    case 0
    have "hd (required_auth_methods sa) = required_auth_methods sa ! 0" by (rule hd_conv_nth [OF assms(6)])
    with 0 assms(3,4) res(1) that(1) show ?thesis by (auto simp: method_accepts_def)
  qed (use that in simp)
  then show ?thesis
    using report_result [OF res(2) assms(2)] assms(5-7) by (auto simp: list_all_length)
qed

end
