(* ===== verification/SessSamples.thy ===== *)
theory SessSamples
  imports SessTargets SessReading SessAuth
begin

text \<open>
  States of the session layer for examples: the start, and tables with a few sessions.
\<close>

definition host_a :: proc where
  "host_a = \<lparr>p_name = ''a'', p_id = 10, p_seg_index = 0, p_index_in_seg = 0\<rparr>"

definition host_conf :: configuration where
  "host_conf = \<lparr>hash_code = 0, allprocs = [host_a], segments = [\<lparr>procs = [host_a]\<rparr>]\<rparr>"

definition no_groups :: groups_state where
  "no_groups =
     \<lparr>G_conf = host_conf, G_my = host_a, Cn_active = host_conf, G_state = GOP, G_Trans_memb = host_conf,
      G_Trans_memb_id = \<lparr>mi_proc_id = 0, mi_time = 0\<rparr>, G_Reg_memb = host_conf,
      G_Reg_memb_id = \<lparr>mi_proc_id = 0, mi_time = 0\<rparr>, Groups_bufs = [], Groups_bufs_fresh = False,
      Num_mess_gathered = 0, Num_daemons_gathered = 0, Gathered_complete = False, Gathered = [],
      GroupsList = [], Num_groups = 0, MySyncedSet = [], Sessions = [], g_out = []\<rparr>"

definition no_client :: client where
  "no_client = \<lparr>cl_name = [], lib_version = (0, 0, 0), cl_addr = None, cl_status = 0, cl_priority = 0, cl_mbox = 0,
     cl_acp_ops = permit_ops,
     cl_read = \<lparr>in_mess_head = True, cur_element = 0, cur_byte = 0, total_bytes = 0\<rparr>, cl_read_mess = None, cl_num_mess = 0,
     cl_write = \<lparr>in_mess_head = False, cur_element = 0, cur_byte = 0, total_bytes = 0\<rparr>, cl_queue = [],
     sort_prev = None, sort_next = None, hash_next = None\<rparr>"

definition null_acm :: acm where
  "null_acm = the (do { a \<leftarrow> null_init no_methods; b \<leftarrow> permit_init a; Acm_init b })"

definition no_sessions :: sess_state where
  "no_sessions =
     \<lparr>slots = (\<lambda>_. no_client), Sessions_hash_head = (\<lambda>_. None), Sessions_head = None, Sessions_tail = None,
      Sessions_free = None, Num_sessions = 0, Sess_My = host_a, Session_threshold = LOW_PRIORITY,
      Protocol_threshold = LOW_PRIORITY, Accept_inet_mbox = [], Accept_unix_mbox = 0, Acl = null_acm,
      max_session_messages = 1000, Grp = no_groups, recv_results = [], send_results = [], draws = [], s_out = []\<rparr>"

definition arriving :: "8 word list list \<Rightarrow> sess_state \<Rightarrow> sess_state" where
  "arriving cs s = s\<lparr>recv_results := map Data cs, send_results := [], draws := []\<rparr>"

text \<open>The entries when all of them are free.\<close>

definition free_slots :: "nat \<Rightarrow> client" where
  "free_slots i = (if i < MAX_SESSIONS then no_client\<lparr>sort_next := if i = 0 then None else Some (i - 1)\<rparr> else no_client)"

definition s0 :: sess_state where "s0 = Sess_init host_conf host_a [3] 4 no_sessions"

definition groups0 :: groups_state where "groups0 = G_init host_conf host_a no_groups"

lemma s0_eq:
  "s0 = no_sessions\<lparr>slots := free_slots, Sessions_free := Some 996, Accept_inet_mbox := [3], Accept_unix_mbox := 4, Grp := groups0,
     s_out := [Attached 3 READ_FD Sess_accept_handler, Attached 3 EXCEPT_FD Sess_accept_handler, Attached 4 READ_FD Sess_accept_handler]\<rparr>"
  by (simp add: s0_def Sess_init_def Sess_init_sessions_code Sess_attach_accept_def semit_def no_sessions_def groups0_def
      free_slots_def fun_eq_iff)

lemma free_slots_eqs [simp]: "free_slots 996 = no_client\<lparr>sort_next := Some 995\<rparr>" "free_slots TMPL = no_client"
  by (simp_all add: free_slots_def)

lemma walk_None [simp]: "hash_walk t m None = Some None"
  by (simp add: hash_walk.simps)

text \<open>A first connection is accepted.\<close>

definition s1 :: sess_state where "s1 = the (Sess_accept False 7 (Some 1) s0)"

lemma s1_eq: "Sess_accept False 7 (Some 1) s0 = Some s1"
  "s1 = s0\<lparr>slots := free_slots(TMPL := no_client\<lparr>cl_addr := Some 1, cl_mbox := 7\<rparr>),
     s_out := s_out s0 @ [Detached 3 READ_FD, Detached 3 EXCEPT_FD, Detached 4 READ_FD,
        Attached 7 READ_FD Sess_accept_continue_handler, Attached 7 EXCEPT_FD Sess_accept_continue_handler,
        Queued Sess_accept_continue_handler 1 \<lparr>sec = 1, usec = 0\<rparr>]\<rparr>"
  unfolding s1_def s0_eq
  by (simp_all add: Sess_accept_def Let_def Sess_get_session_index_tab_def upd_def no_sessions_def
      Sess_detach_accept_def semit_def)

lemma s0_facts: "new_mbox 7 s0" "waits_after 7 s0"
  by (simp_all add: new_mbox_def waits_after_def s0_eq no_sessions_def Sess_get_session_index_tab_def)

text \<open>The client sends its version, its options and its name, and asks for \<open>NULL\<close>.\<close>

definition connect_pieces :: "8 word list list" where "connect_pieces = [[5, 0], [1], [1, 1], [117]]"
definition null_request :: "8 word list" where "null_request = [78, 85, 76, 76] @ replicate 86 0"
definition null_session :: session_auth_info where
  "null_session = \<lparr>sa_mbox = 7, completed_required_auths = 0, required_auth_methods = [0],
     required_auth_results = [False, False, False]\<rparr>"

lemma u_name: "string_of [117] = ''u''" "legal_char CHR ''u''"
  by code_simp+

lemma acm_eqs: "Acm_auth_get_allowed_list null_acm = ''NULL ''" "chars ''NULL '' = [78, 85, 76, 76, 32]"
  "names_allowed MAX_AUTH_METHODS 0 null_request null_acm = Some True"
  "Acm_auth_create_sess_info 7 null_request null_acm = Some (Some null_session)" "length null_request = 90"
  "Acm_auth_get_auth_client_connection 0 null_acm = Some Null_auth"
  by code_simp+

lemma acm_ops: "Acm_acp_fill_ops null_acm = Some permit_ops"
  by (simp add: null_acm_def null_init_def permit_init_def no_methods_def Acm_init_def Acm_auth_add_method_def
      Acm_acp_add_method_def Acm_auth_set_enabled_def set_auth_def Acm_acp_set_policy_def Acm_acp_query_allowed_def
      acm_acpname_to_type_def acm_authname_to_type_def Acm_acp_fill_ops_def Let_def strncmp_zero)

definition s2 :: sess_state where "s2 = the (Sess_accept_continue (arriving connect_pieces s1))"

definition client2 :: client where
  "client2 = no_client\<lparr>cl_name := ''u'', lib_version := (5, 0, 1), cl_addr := Some 1, cl_status := 257, cl_mbox := 7\<rparr>"

lemma continued: "\<exists>out. Sess_accept_continue (arriving connect_pieces s1) =
  Some (s1\<lparr>slots := free_slots(TMPL := client2\<lparr>cl_status := 1\<rparr>, 996 := client2), Sessions_hash_head := (\<lambda>_. None)(7 := Some 996),
    Sessions_head := Some 996, Sessions_tail := Some 996, Sessions_free := Some 995, Num_sessions := 1, s_out := out\<rparr>)"
  apply (simp add: s1_eq s0_eq no_sessions_def arriving_def connect_pieces_def Sess_accept_continue_def Let_def recv_version_def
      recv_chars_def recv_def semit_def Sess_attach_accept_def version_number_def u_name)
  apply (simp add: private_name_of_def recv_def find_place_def place_walk.simps upd_def u_name)
  apply (simp add: enter_session_def Sess_insert_new_session_def Sess_get_free_session_def upd_def set_status_def no_client_def Let_def)
  apply (simp add: admit_def Sess_hash_session_def upd_def Let_def version_number_def mbox_hash_def acm_eqs send_ignored_def
      send_code_def send_def semit_def client2_def no_client_def)
  done

lemma s2_eq:
  "Sess_accept_continue (arriving connect_pieces s1) = Some s2"
  "slots s2 = free_slots(TMPL := client2\<lparr>cl_status := 1\<rparr>, 996 := client2)" "Sessions_hash_head s2 = (\<lambda>_. None)(7 := Some 996)"
  "Acl s2 = null_acm" "Sess_My s2 = host_a" "Sessions_head s2 = Some 996" "max_session_messages s2 = 1000"
  using continued unfolding s2_def by (auto simp: s1_eq s0_eq no_sessions_def)

lemma s2_reachable: "sess_reachable (arriving [null_request] s2, False)"
proof -
  have env: "sess_step (s, w) (arriving cs s, w)" for s w cs unfolding arriving_def by (rule sess_step.environment)
  have "sess_reachable (s0, False)" unfolding s0_def by (rule sess_reachable.start)
  then have "sess_reachable (s1, True)"
    by (rule sess_reachable.step) (use sess_step.accept [OF _ s1_eq(1)] s0_facts in simp)
  then have "sess_reachable (arriving connect_pieces s1, True)" using env by (rule sess_reachable.step)
  then have "sess_reachable (s2, False)" using sess_step.continue [OF s2_eq(1)] by (rule sess_reachable.step)
  then show ?thesis using env by (rule sess_reachable.step)
qed

lemma index_2: "Sessions_hash_head s 7 = Some 996 \<Longrightarrow> cl_mbox (slots s 996) = 7 \<Longrightarrow>
    Sess_get_session_index_tab 7 s = Some (Some 996)"
  by (simp add: Sess_get_session_index_tab_def mbox_hash_def hash_walk.simps)

definition s3 :: sess_state where "s3 = the (Sess_recv_client_auth 7 (arriving [null_request] s2))"

lemma s3_runs:
  "Sess_recv_client_auth 7 (arriving [null_request] s2) = Some s3 \<and>
   slots s3 996 = client2\<lparr>cl_status := 17\<rparr> \<and> Sessions_hash_head s3 7 = Some 996 \<and> Sessions_head s3 = Some 996 \<and>
   Sess_My s3 = host_a \<and> max_session_messages s3 = 1000"
proof -
  let ?s = "arriving [null_request] s2"
  define u where "u = upd 996 (\<lambda>c. c\<lparr>cl_acp_ops := permit_ops\<rparr>) ((semit [Detached 7 READ_FD, Detached 7 EXCEPT_FD] ?s)\<lparr>recv_results := []\<rparr>)"
  have u: "slots u 996 = client2" "Sessions_hash_head u 7 = Some 996" "Acl u = null_acm" "Sess_My u = host_a"
    by (simp_all add: u_def arriving_def upd_def semit_def s2_eq client2_def no_client_def)
  have s: "slots ?s 996 = client2" "Sessions_hash_head ?s 7 = Some 996" "Acl ?s = null_acm"
    by (simp_all add: arriving_def s2_eq)
  have ix: "Sess_get_session_index_tab 7 ?s = Some (Some 996)" "Sess_get_session_index_tab 7 u = Some (Some 996)"
    using s u by (auto intro: index_2 simp: client2_def)
  have r: "recv 90 (semit [Detached 7 READ_FD, Detached 7 EXCEPT_FD] ?s) =
      (Data null_request, (semit [Detached 7 READ_FD, Detached 7 EXCEPT_FD] ?s)\<lparr>recv_results := []\<rparr>)"
    by (simp add: recv_def arriving_def semit_def acm_eqs)
  have st: "cl_status client2 = 257" "Is_type PRE_AUTH_SESSION 257" by (simp add: client2_def, code_simp)
  have op: "Is_type OP_SESSION 17" by code_simp
  have "Sess_recv_client_auth 7 ?s = auth_open Null_auth null_session u"
    unfolding Sess_recv_client_auth_def ix option.case
    by (simp add: r s st acm_eqs acm_ops null_session_def [THEN arg_cong, of required_auth_methods] u_def)
  also have "\<dots> = Sess_session_authorized 996 u"
    using ix(2) by (simp add: auth_open_def module_decision_def Sess_session_report_auth_result.simps null_session_def Let_def
        u client2_def permit_ops_def no_client_def)
  finally have a: "Sess_recv_client_auth 7 ?s = Sess_session_authorized 996 u" .
  obtain t where t: "Sess_session_authorized 996 u = Some t"
    by (simp add: Sess_session_authorized_def u st Let_def)
  then have "s3 = t" using a by (simp add: s3_def)
  moreover have "slots t 996 = client2\<lparr>cl_status := 17\<rparr> \<and> Sessions_hash_head t = Sessions_hash_head u \<and>
      Sessions_head t = Sessions_head u \<and> Sess_My t = Sess_My u \<and> max_session_messages t = max_session_messages u"
    using t by (auto simp: Sess_session_authorized_def u st Let_def upd_def authorize_def clear_status_def set_status_def
        slots_send send_simps client2_def no_client_def permit_ops_def Message_reset_current_location_def)
  moreover have "Sessions_head u = Some 996" "max_session_messages u = 1000"
    by (simp_all add: u_def arriving_def s2_eq semit_def upd_def)
  ultimately show ?thesis using a t u by simp
qed

text \<open>A session of the user \<open>u\<close> in operation, which the hash table finds.\<close>

definition user :: client where
  "user = no_client\<lparr>cl_name := ''u'', cl_mbox := 7, cl_status := OP_SESSION\<rparr>"

definition one_user :: sess_state where
  "one_user = no_sessions\<lparr>slots := (\<lambda>_. user), Sessions_hash_head := (\<lambda>_. None)(7 := Some 0)\<rparr>"

text \<open>Its messages: a header without a body, in pieces.\<close>

definition user_head :: message_header where
  "user_head = \<lparr>mh_type = Set_endian FIFO_MESS, private_group_name = put_name ''#u#a'', num_groups = 0, hint = 0x80000080,
     mh_data_len = 0\<rparr>"

definition stream :: "8 word list" where "stream = write_head user_head @ [1, 2]"
definition pieces :: "8 word list list" where "pieces = [take 20 stream, take 29 (drop 20 stream), drop 49 stream]"

end
