(* ===== verification/SessTheorems.thy ===== *)
theory SessTheorems
  imports SessSamples
begin

text \<open>
  The properties of the sessions: their table, who gets into operation, what a client's bytes
  become, and what is written to the clients.
\<close>

section \<open>The table\<close>

lemma find_by_name:
  "sorted_wrt (<) (map ses_name xs) \<Longrightarrow> x \<in> set xs \<Longrightarrow> Sess_get_session (ses_name x) xs = Some x"
proof (induction xs)
  case (Cons y xs)
  show ?case
  proof (cases "x = y")
    case True
    moreover have "strcmp (ses_name y) (ses_name y) = 0" by (simp add: strcmp_zero)
    ultimately show ?thesis by (simp add: Let_def)
  next
    case False
    with Cons.prems have "x \<in> set xs" "ses_name y < ses_name x" by auto
    with Cons show ?thesis by (simp add: Let_def strcmp_less)
  qed
qed simp

lemma session_by_name:
  assumes ok: "sess_ok s xs fs" and i: "i \<in> set xs"
  shows "Sess_get_session_tab (cl_name (slots s i)) s = Some (Some i)"
proof -
  let ?nm = "cl_name (slots s i)" and ?l = "map (\<lambda>i. session_of (slots s i)) xs"
  have l: "links_ok s xs fs" and so: "sorted_wrt (<) (names s xs)" using ok by (simp_all add: sess_ok_def)
  from Sess_get_session_refines [OF l, of ?nm] obtain r where r: "Sess_get_session_tab ?nm s = Some r"
    "map_option (\<lambda>i. session_of (slots s i)) r = Sess_get_session ?nm ?l" "\<forall>j. r = Some j \<longrightarrow> j \<in> set xs" by blast
  have nm: "ses_name (session_of c) = cl_name c" for c by (simp add: session_of_def)
  have "map ses_name ?l = names s xs" by (simp add: nm)
  moreover have "session_of (slots s i) \<in> set ?l" using i by simp
  ultimately have "Sess_get_session ?nm ?l = Some (session_of (slots s i))"
    using find_by_name [of ?l "session_of (slots s i)"] so by (simp only: nm)
  with r(2) obtain j where j: "r = Some j" "session_of (slots s j) = session_of (slots s i)" by auto
  have "inj_on (\<lambda>i. cl_mbox (slots s i)) (set xs)" using ok by (simp add: sess_ok_def)
  moreover have "cl_mbox (slots s j) = cl_mbox (slots s i)" using j(2) by (simp add: session_of_def)
  ultimately have "j = i" using r(3) j(1) i by (auto dest: inj_onD)
  with r(1) j(1) show ?thesis by simp
qed

lemma session_by_mbox:
  assumes "sess_ok s xs fs"
  shows "i \<in> set xs \<Longrightarrow> Sess_get_session_index_tab (cl_mbox (slots s i)) s = Some (Some i)"
    "m \<notin> (\<lambda>i. cl_mbox (slots s i)) ` set xs \<Longrightarrow> Sess_get_session_index_tab m s = Some None"
  using assms index_tab_Some [of s "set xs"] index_tab_None [of s "set xs" m] by (auto simp: sess_ok_def)

text \<open>
  C9: However clients connect, authenticate, send and go, and whatever the protocol delivers, the
  walks over the table of sessions end: the list is sorted by name without double names, its length
  is the counter, every session of it is found by its name and by its mailbox, and no other mailbox
  is found.
\<close>

theorem session_table_invariant:
  assumes "sess_reachable (s, w)"
  shows "\<exists>xs. Sessions_list s = Some (map (\<lambda>i. session_of (slots s i)) xs) \<and>
    sorted_wrt (<) (map (\<lambda>i. cl_name (slots s i)) xs) \<and> Num_sessions s = int (length xs) \<and> length xs \<le> MAX_SESSIONS \<and>
    (\<forall>i \<in> set xs. Sess_get_session_index_tab (cl_mbox (slots s i)) s = Some (Some i) \<and>
       Sess_get_session_tab (cl_name (slots s i)) s = Some (Some i)) \<and>
    (\<forall>m. m \<notin> (\<lambda>i. cl_mbox (slots s i)) ` set xs \<longrightarrow> Sess_get_session_index_tab m s = Some None)"
proof -
  from reachable_inv [OF assms] obtain xs fs where ok: "sess_ok s xs fs" by (auto simp: sess_inv_def)
  then have l: "links_ok s xs fs" by (simp add: sess_ok_def)
  have "card (set (xs @ fs)) = length (xs @ fs)" "set (xs @ fs) = {..<MAX_SESSIONS}"
    using l unfolding links_ok_def by (blast intro: distinct_card)+
  then have "length (xs @ fs) = MAX_SESSIONS" by (simp only: card_lessThan)
  then have "length xs \<le> MAX_SESSIONS" by simp
  then show ?thesis
    using ok Sessions_links_ok [OF l] session_by_name [OF ok] session_by_mbox [OF ok] unfolding sess_ok_def
    by (intro exI [of _ xs]) blast
qed

theorem session_table_invariant_witness:
  "\<exists>xs. Sessions_list s0 = Some (map (\<lambda>i. session_of (slots s0 i)) xs) \<and> Num_sessions s0 = int (length xs)"
  using session_table_invariant [OF sess_reachable.start, of host_conf host_a "[3]" 4 no_sessions] unfolding s0_def by blast

section \<open>The list of sessions\<close>

lemma insort_between:
  assumes "\<forall>x \<in> set as. ses_name x < ses_name y" "\<forall>x \<in> set bs. ses_name y < ses_name x"
  shows "insort_key ses_name y (as @ bs) = as @ y # bs"
  using assms by (induction as) (cases bs, auto simp: not_le)

lemma map_others: "(\<And>x. x \<noteq> i \<Longrightarrow> f x = g x) \<Longrightarrow> i \<notin> set xs \<Longrightarrow> map f xs = map g xs"
  by (rule map_cong) (metis+)

lemma list_operations:
  assumes "sess_inv s True" "Sessions_list s = Some l"
  shows "find_place (cl_name (slots s TMPL)) s = Some (place, True) \<Longrightarrow> Sess_insert_new_session place TMPL s = Some (i, t) \<Longrightarrow>
      Sessions_list t = Some (insort_key ses_name (session_of (slots s TMPL)) l)"
    and "in_table j s \<Longrightarrow> \<exists>u. Sess_unhash_session j s = Some u \<and>
      Sessions_list (Sess_remove_session j u) = Some (filter (\<lambda>x. ses_mbox x \<noteq> cl_mbox (slots s j)) l)"
proof -
  from assms(1) obtain xs fs where ok: "sess_ok s xs fs" by (auto simp: sess_inv_def)
  then have lk: "links_ok s xs fs" and inj: "inj_on (\<lambda>i. cl_mbox (slots s i)) (set xs)" by (simp_all add: sess_ok_def)
  have l: "l = map (\<lambda>i. session_of (slots s i)) xs" using assms(2) Sessions_links_ok [OF lk] by simp
  show "Sessions_list t = Some (insort_key ses_name (session_of (slots s TMPL)) l)"
    if f: "find_place (cl_name (slots s TMPL)) s = Some (place, True)" and t: "Sess_insert_new_session place TMPL s = Some (i, t)"
  proof -
    from place_ok [OF ok f] obtain as bs where p: "xs = as @ bs" "place = (case bs of [] \<Rightarrow> None | b # _ \<Rightarrow> Some b)"
      "\<forall>i \<in> set as. cl_name (slots s i) < cl_name (slots s TMPL)"
      "\<forall>i \<in> set bs. cl_name (slots s TMPL) < cl_name (slots s i)" by blast
    obtain k fs' where fs: "fs = k # fs'"
      using lk t by (cases fs) (auto simp: links_ok_def Sess_insert_new_session_def Sess_get_free_session_def)
    from insert_ok [of s as bs k fs' TMPL] lk p(1,2) fs t have e: "k = i" "links_ok t (as @ i # bs) fs'" "same_but {i} s t"
      "core (slots t i) = core (slots s TMPL)" by auto
    have "distinct (xs @ fs)" using lk unfolding links_ok_def by blast
    then have ne: "i \<notin> set as" "i \<notin> set bs" using p(1) fs e(1) by auto
    have c: "session_of (slots t x) = session_of (slots s y)" if "core (slots t x) = core (slots s y)" for x y
      using core_eqs [OF that] by (simp add: session_of_def)
    have "session_of (slots t x) = session_of (slots s x)" if "x \<noteq> i" for x using c e(3) that by (simp add: same_but_def)
    note same = this
    have m: "map (\<lambda>i. session_of (slots t i)) ys = map (\<lambda>i. session_of (slots s i)) ys" if "i \<notin> set ys" for ys
      by (rule map_others [OF _ that]) (rule same)
    have "map (\<lambda>i. session_of (slots t i)) (as @ i # bs) =
        map (\<lambda>i. session_of (slots s i)) as @ session_of (slots s TMPL) # map (\<lambda>i. session_of (slots s i)) bs"
      using m [OF ne(1)] m [OF ne(2)] c [OF e(4)] by (simp only: map_append list.map)
    also have "\<dots> = insort_key ses_name (session_of (slots s TMPL)) l"
      unfolding l p(1) map_append using p(3,4) by (intro insort_between [symmetric]) (simp_all add: session_of_def)
    finally show ?thesis using Sessions_links_ok [OF e(2)] by simp
  qed
  show "\<exists>u. Sess_unhash_session j s = Some u \<and>
      Sessions_list (Sess_remove_session j u) = Some (filter (\<lambda>x. ses_mbox x \<noteq> cl_mbox (slots s j)) l)"
    if "in_table j s"
  proof -
    have j: "j \<in> set xs" using that ok unfolding in_table_def by blast
    then obtain as bs where p: "xs = as @ j # bs" by (meson split_list)
    from take_out_ok [OF ok [unfolded p]] obtain t where t: "take_out j s = Some t" "sess_ok t (as @ bs) (j # fs)"
      "\<forall>i. i \<noteq> j \<longrightarrow> cl_name (slots t i) = cl_name (slots s i) \<and> cl_mbox (slots t i) = cl_mbox (slots s i)" by blast
    from t(1) obtain u where u: "Sess_unhash_session j s = Some u"
      "t = (Sess_remove_session j u)\<lparr>Num_sessions := Num_sessions u - 1\<rparr>" by (auto simp: take_out_def split: option.splits)
    have se: "session_of (slots t i) = session_of (slots s i)" if "i \<noteq> j" for i
      using t(3) that status_take_out [OF t(1)] by (simp add: session_of_def)
    have "distinct xs" using ok unfolding sess_ok_def links_ok_def by simp
    then have ne: "j \<notin> set as" "j \<notin> set bs" using p by auto
    have mb: "ses_mbox (session_of c) = cl_mbox c" for c by (simp add: session_of_def)
    have other: "cl_mbox (slots s i) \<noteq> cl_mbox (slots s j)" if "i \<in> set as \<union> set bs" for i
      using inj that p ne by (auto simp: inj_on_def)
    have "filter (\<lambda>x. ses_mbox x \<noteq> cl_mbox (slots s j)) l = map (\<lambda>i. session_of (slots s i)) (as @ bs)"
      unfolding l p using other by (simp add: filter_map comp_def mb)
    also have "\<dots> = map (\<lambda>i. session_of (slots t i)) (as @ bs)" by (rule map_others [of j, symmetric]) (use se ne in simp_all)
    finally have "Sessions_list t = Some (filter (\<lambda>x. ses_mbox x \<noteq> cl_mbox (slots s j)) l)"
      using Sessions_links_ok [of t "as @ bs"] t(2) unfolding sess_ok_def by metis
    moreover have "Sessions_list t = Sessions_list (Sess_remove_session j u)" unfolding u(2) by (simp add: Sessions_list_def)
    ultimately show ?thesis using u(1) by simp
  qed
qed

text \<open>
  C15: Entering a session at the place that the search for its name gives inserts it into the sorted
  list of sessions, and taking one out of the hash table and the list removes that session and
  leaves the others.
\<close>

theorem sessions_refine_list:
  assumes "sess_inv s True" "Sessions_list s = Some l" "find_place (cl_name (slots s TMPL)) s = Some (place, True)"
    "Sess_insert_new_session place TMPL s = Some (i, t)"
  shows "Sessions_list t = Some (insort_key ses_name (session_of (slots s TMPL)) l) \<and>
    (\<forall>j. in_table j s \<longrightarrow> (\<exists>u. Sess_unhash_session j s = Some u \<and>
      Sessions_list (Sess_remove_session j u) = Some (filter (\<lambda>x. ses_mbox x \<noteq> cl_mbox (slots s j)) l)))"
  using list_operations [OF assms(1,2)] assms(3,4) by blast

text \<open>The first client of the daemon.\<close>

lemma accepted_first:
  "sess_inv s1 True \<and> Sessions_list s1 = Some [] \<and> find_place (cl_name (slots s1 TMPL)) s1 = Some (None, True) \<and>
   Sess_insert_new_session None TMPL s1 = Some (996, snd (the (Sess_insert_new_session None TMPL s1)))"
proof -
  have "sess_reachable (s0, False)" unfolding s0_def by (rule sess_reachable.start)
  then have "sess_reachable (s1, True)"
    by (rule sess_reachable.step) (use sess_step.accept [OF _ s1_eq(1)] s0_facts in simp)
  note inv = reachable_inv [OF this, simplified]
  show ?thesis using inv
    by (simp add: s1_eq s0_eq no_sessions_def Sessions_list_def list_walk.simps find_place_def place_walk.simps
        Sess_insert_new_session_def Sess_get_free_session_def Let_def)
qed

theorem sessions_refine_list_witness:
  "Sessions_list (snd (the (Sess_insert_new_session None TMPL s1))) = Some [session_of (slots s1 TMPL)]"
  using sessions_refine_list [of s1 "[]" None 996] accepted_first by simp

section \<open>Authorization\<close>


lemma s3_operates: "\<not> Is_op_session (slots (arriving [null_request] s2) 996)" "Is_op_session (slots s3 996)"
proof -
  have "\<not> Is_type OP_SESSION 257" "Is_type OP_SESSION 17" by code_simp+
  then show "\<not> Is_op_session (slots (arriving [null_request] s2) 996)" "Is_op_session (slots s3 996)"
    using s3_runs by (simp_all add: arriving_def s2_eq client2_def)
qed


section \<open>What a client's bytes become\<close>

text \<open>Nothing of a message was read.\<close>

definition at_start :: "nat \<Rightarrow> sess_state \<Rightarrow> bool" where
  "at_start i s \<longleftrightarrow> cl_read (slots s i) = \<lparr>in_mess_head = True, cur_element = 0, cur_byte = 0, total_bytes = 0\<rparr> \<and>
     cl_read_mess (slots s i) = None"

lemma at_start_holds: "at_start i s \<Longrightarrow> holds i (norm_head i s) s []"
  by (simp add: at_start_def holds_def Message_new_message_def)

lemma reads_arriving:
  assumes "at_start i s" "length (concat cs) \<le> n" "[] \<notin> set cs"
  shows "case parse_stream (norm_head i s) (concat cs) of
      None \<Rightarrow> reads_of n i (arriving cs s) = None
    | Some (ms, None) \<Rightarrow> reads_of n i (arriving cs s) = Some (ms, None)
    | Some (ms, Some rest) \<Rightarrow> \<exists>t. reads_of n i (arriving cs s) = Some (ms, Some t) \<and> holds i (norm_head i s) t rest"
proof -
  have "norm_head i (arriving cs s) = norm_head i s" by (rule norm_head_cong) (simp_all add: arriving_def)
  moreover have "at_start i (arriving cs s)" using assms(1) by (simp add: at_start_def arriving_def)
  ultimately have "holds i (norm_head i s) (arriving cs s) []" using at_start_holds by metis
  moreover have "arrives cs (arriving cs s)" using assms(3) by (simp add: arrives_def arriving_def)
  ultimately show ?thesis using reads_parse [of i "norm_head i s" "arriving cs s" "[]" cs n] assms(2)
    by (auto split: option.splits)
qed

lemma one_user_start: "at_start 0 one_user" "concat pieces = stream" "length stream = 50" "[] \<notin> set pieces"
  by (simp add: at_start_def one_user_def no_sessions_def user_def no_client_def) code_simp+

lemma one_user_parses: "parse_stream (norm_head 0 one_user) stream = Some ([fragments_of (write_head user_head)], Some [1, 2])"
proof -
  have n: "norm_head 0 one_user (write_head user_head) = Some user_head" by code_simp
  have l: "length (write_head user_head) = HEAD" by code_simp
  have b: "body_size user_head = 0" by (simp add: body_size_def user_head_def)
  show ?thesis unfolding stream_def
    by (subst parse_stream.simps) (simp add: l n b parse_stream.simps [of _ "[1, 2]"])
qed

lemma one_user_reads:
  "\<exists>t. reads_of 50 0 (arriving pieces one_user) = Some ([fragments_of (write_head user_head)], Some t)"
  using reads_arriving [OF one_user_start(1), of pieces 50] one_user_start one_user_parses by auto

text \<open>
  C11: However the network cuts a client's stream into pieces, the calls that read from the client
  find the same messages: those that the parser finds in the whole stream. They keep the bytes of
  the message that is not complete, stop at a header that is not acceptable, and end the daemon at
  a message that does not fit its fragments, as the parser says.
\<close>

theorem reading_ignores_cutting:
  assumes "at_start i s" "length (concat cs) \<le> n" "[] \<notin> set cs"
  shows "case parse_stream (norm_head i s) (concat cs) of
      None \<Rightarrow> reads_of n i (arriving cs s) = None
    | Some (ms, None) \<Rightarrow> reads_of n i (arriving cs s) = Some (ms, None)
    | Some (ms, Some rest) \<Rightarrow> \<exists>t. reads_of n i (arriving cs s) = Some (ms, Some t) \<and> holds i (norm_head i s) t rest"
  using assms by (rule reads_arriving)

theorem reading_ignores_cutting_witness:
  "\<exists>t. reads_of 50 0 (arriving pieces one_user) = Some ([fragments_of (write_head user_head)], Some t) \<and>
     holds 0 (norm_head 0 one_user) t [1, 2]"
  using reading_ignores_cutting [OF one_user_start(1), of pieces 50] one_user_start one_user_parses by simp

text \<open>The messages of a stream have headers that were accepted.\<close>

lemma parsed_heads:
  "parse_stream norm bs = Some (ms, r) \<Longrightarrow> m \<in> set ms \<Longrightarrow> \<forall>hb h. norm hb = Some h \<and> length hb = HEAD \<longrightarrow> head_ok h \<Longrightarrow>
   \<exists>hb h ys. norm hb = Some h \<and> length hb = HEAD \<and> Message_get_message_header m = Some h \<and>
     msg_bytes m = write_head h @ ys \<and> length ys = body_size h \<and> length m \<le> MAX_FRAGS"
proof (induction norm bs arbitrary: ms r rule: parse_stream.induct)
  case (1 norm bs)
  show ?case
  proof (cases "length bs < HEAD")
    case True
    with "1.prems" show ?thesis by (simp add: parse_stream.simps)
  next
    case False
    then have len: "length (take HEAD bs) = HEAD" by simp
    show ?thesis
    proof (cases "norm (take HEAD bs)")
      case None
      with "1.prems" False show ?thesis by (simp add: parse_stream.simps)
    next
      case (Some h)
      have hk: "head_ok h" using "1.prems"(3) Some len by blast
      let ?T = "HEAD + body_size h" and ?m = "fragments_of (write_head h @ take (body_size h) (drop HEAD bs))"
      have p: "parse_stream norm bs = (if length bs < min ?T FULL then Some ([], Some bs) else if ?T \<ge> FULL then None
          else map_option (\<lambda>(ms, r). (?m # ms, r)) (parse_stream norm (drop ?T bs)))"
        using False Some by (subst parse_stream.simps) simp
      show ?thesis
      proof (cases "length bs < min ?T FULL \<or> ?T \<ge> FULL")
        case True
        with "1.prems" p show ?thesis by (auto split: if_splits)
      next
        case go: False
        with "1.prems"(1) p obtain ms' where ms: "parse_stream norm (drop ?T bs) = Some (ms', r)" "ms = ?m # ms'" by auto
        show ?thesis
        proof (cases "m \<in> set ms'")
          case True
          have g: "\<not> length bs < min ?T FULL" "\<not> ?T \<ge> FULL" using go by auto
          show ?thesis by (rule "1.IH" [OF False Some g ms(1) True]) (rule "1.prems"(3))
        next
          case no: False
          with ms(2) "1.prems"(2) have m: "m = ?m" by simp
          let ?x = "write_head h @ take (body_size h) (drop HEAD bs)"
          have lx: "length (write_head h) = HEAD" "length (take (body_size h) (drop HEAD bs)) = body_size h"
            using hk go by (auto simp: head_ok_def)
          have ne: "?x \<noteq> []" using lx(1) by auto
          then obtain b r where b: "bufs ?x = b # r" by (cases "bufs ?x") auto
          have "bufs ?x = take FRAG ?x # bufs (drop FRAG ?x)" using ne by (subst bufs.simps) (simp only: if_False)
          then have "b = take FRAG ?x" using b by simp
          then have "b = write_head h @ take (FRAG - HEAD) (take (body_size h) (drop HEAD bs))" using lx(1) by simp
          then have "Message_get_message_header ?m = Some h"
            using b hk lx(1) by (simp add: fragments_of_def Message_get_message_header_def)
          moreover have "msg_bytes ?m = ?x"
            by (simp add: fragments_of_def msg_bytes_def frag_bytes_def comp_def)
          moreover have "length ?m \<le> MAX_FRAGS"
          proof -
            have "length ?x < FULL" using lx go by simp
            then show ?thesis using length_bufs [of ?x] by (simp add: fragments_of_def) 
          qed
          ultimately show ?thesis using Some len lx(2) unfolding m by blast
        qed
      qed
    qed
  qed
qed

lemma valid_sender:
  assumes "Sess_validate_read_header i h0 s = Some h" "length (p_name (Sess_My s)) < MAX_PROC_NAME"
    "length (cl_name (slots s i)) \<le> MAX_PRIVATE_NAME"
  shows "G_private_to_names (head_name h) = Some (cl_name (slots s i), p_name (Sess_My s))"
proof -
  from assms(1) obtain prv pn where p: "G_private_to_names (head_name h) = Some (prv, pn)"
    "strncmp MAX_PROC_NAME pn (p_name (Sess_My s)) = 0" "strncmp MAX_PRIVATE_NAME prv (cl_name (slots s i)) = 0"
    by (auto simp: Sess_validate_read_header_def Let_def split: if_splits option.splits)
  from p(1) have "length prv \<le> MAX_PRIVATE_NAME" "length pn < MAX_PROC_NAME"
    by (auto simp: G_private_to_names_def Let_def split: if_splits)
  with p assms(2,3) show ?thesis by (simp add: strncmp_zero)
qed

lemma norm_sender:
  assumes "norm_head i s bs = Some h" "length (p_name (Sess_My s)) < MAX_PROC_NAME"
    "length (cl_name (slots s i)) \<le> MAX_PRIVATE_NAME"
  shows "G_private_to_names (head_name h) = Some (cl_name (slots s i), p_name (Sess_My s))"
  using assms(1) valid_sender [OF _ assms(2,3)] by (auto simp: norm_head_def Let_def)

lemma norm_bounds:
  assumes "norm_head i s bs = Some h" "length bs = HEAD"
  shows "0 \<le> num_groups h \<and> num_groups h \<le> MAX_GROUPS_PER_MESSAGE \<and> 0 \<le> mh_data_len h"
proof -
  have f: "head_ok (Flip_mess (read_head bs))"
    using head_ok_read [of bs] assms(2) by (simp add: head_ok_def Flip_mess_def)
  define h1 where "h1 = (if Same_endian (mh_type (read_head bs)) then read_head bs else Flip_mess (read_head bs))"
  have "head_ok (h1\<lparr>mh_type := Set_endian (mh_type h1)\<rparr>)" using f head_ok_read [of bs] assms(2) by (simp add: h1_def)
  moreover have "Sess_validate_read_header i (h1\<lparr>mh_type := Set_endian (mh_type h1)\<rparr>) s = Some h"
    using assms(1) by (simp only: norm_head_def Let_def h1_def)
  ultimately show ?thesis using valid_head by blast
qed

text \<open>
  C13: Every message that is read from a client carries the private group of that client's session
  at this daemon as its sender, at most 100 groups and a length that is the number of the bytes
  behind its header, in at most 100 fragments: a client cannot send in the name of another.
\<close>

theorem messages_carry_their_sender:
  assumes s: "at_start i s" "length (concat cs) \<le> n" "[] \<notin> set cs"
    and nm: "length (p_name (Sess_My s)) < MAX_PROC_NAME" "length (cl_name (slots s i)) \<le> MAX_PRIVATE_NAME"
    and r: "reads_of n i (arriving cs s) = Some (ms, r)" "m \<in> set ms"
  shows "\<exists>h ys. Message_get_message_header m = Some h \<and>
    G_private_to_names (head_name h) = Some (cl_name (slots s i), p_name (Sess_My s)) \<and>
    0 \<le> num_groups h \<and> num_groups h \<le> MAX_GROUPS_PER_MESSAGE \<and> 0 \<le> mh_data_len h \<and>
    msg_bytes m = write_head h @ ys \<and> int (length ys) = mh_data_len h + 32 * num_groups h \<and> length m \<le> MAX_FRAGS"
proof -
  let ?norm = "norm_head i s"
  obtain q where p: "parse_stream ?norm (concat cs) = Some (ms, q)"
    using reads_arriving [OF s] r(1) by (auto split: option.splits)
  have hk: "\<forall>hb h. ?norm hb = Some h \<and> length hb = HEAD \<longrightarrow> head_ok h" using norm_head_ok(1) by auto
  from parsed_heads [OF p r(2) hk] obtain hb h ys where h: "?norm hb = Some h" "length hb = HEAD"
    "Message_get_message_header m = Some h" "msg_bytes m = write_head h @ ys" "length ys = body_size h" "length m \<le> MAX_FRAGS"
    by blast
  have "mh_data_len h + 32 * num_groups h = int (body_size h)" using norm_head_ok(5) [OF h(1)] h(2) by simp
  then show ?thesis using h norm_sender [OF h(1) nm] norm_bounds [OF h(1,2)] by auto
qed

theorem messages_carry_their_sender_witness:
  "\<exists>h ys. Message_get_message_header (fragments_of (write_head user_head)) = Some h \<and>
     G_private_to_names (head_name h) = Some (''u'', ''a'') \<and> msg_bytes (fragments_of (write_head user_head)) = write_head h @ ys"
proof -
  obtain t where t: "reads_of 50 0 (arriving pieces one_user) = Some ([fragments_of (write_head user_head)], Some t)"
    using one_user_reads by blast
  have nm: "cl_name (slots one_user 0) = ''u''" "p_name (Sess_My one_user) = ''a''"
    by (simp_all add: one_user_def user_def no_sessions_def host_a_def)
  show ?thesis
    using messages_carry_their_sender [OF one_user_start(1) _ one_user_start(4) _ _ t, of "fragments_of (write_head user_head)"]
      one_user_start(2,3) nm by auto
qed



section \<open>What is written to the clients\<close>


text \<open>A rejected message goes back to its sender.\<close>

definition reject_head :: message_header where
  "reject_head = user_head\<lparr>mh_type := Set_endian (REJECT_MESS OR FIFO_MESS)\<rparr>"

definition rejected :: message where
  "rejected = [\<lparr>fr_buf = write_head reject_head, fr_len = HEAD\<rparr>]"

lemma rejected_facts: "reject_head\<lparr>mh_type := Set_endian (mh_type reject_head)\<rparr> = reject_head" "set_head reject_head rejected = rejected"
  "Is_type REJECT_MESS (mh_type reject_head)" "\<not> Is_type SELF_DISCARD (mh_type reject_head)"
  "G_private_to_names (head_name reject_head) = Some (''u'', ''a'')" "message_ok rejected"
proof -
  show "reject_head\<lparr>mh_type := Set_endian (mh_type reject_head)\<rparr> = reject_head" "set_head reject_head rejected = rejected"
    "Is_type REJECT_MESS (mh_type reject_head)" "\<not> Is_type SELF_DISCARD (mh_type reject_head)"
    "G_private_to_names (head_name reject_head) = Some (''u'', ''a'')" by code_simp+
  have "length (write_head reject_head) = HEAD" by code_simp
  then show "message_ok rejected" by (simp add: message_ok_def rejected_def frag_written_def Message_get_message_header_def)
qed


section \<open>Slow clients\<close>

lemma slots_part: "send_part m n bs s = Some (r, t) \<Longrightarrow> slots t = slots s"
  using slots_send(3) [of m "take n bs" s] by (cases "send m (take n bs) s") (auto simp: send_part_def split: if_splits)

lemma slots_write_elements: "write_elements m fs s = Some (n, t) \<Longrightarrow> slots t = slots s"
proof (induction m fs s arbitrary: n rule: write_elements.induct)
  case (2 m f fs s)
  then show ?case by (auto split: if_splits option.splits prod.splits dest!: slots_part)
qed simp

lemma slots_write_message: "write_message m msg s = Some (n, t) \<Longrightarrow> slots t = slots s"
  unfolding write_message_def
  by (auto split: if_splits option.splits prod.splits list.splits dest!: slots_part slots_write_elements)

lemma slots_elements: "badger_elements m fs k w s = Some (b, w', t) \<Longrightarrow> slots t = slots s"
proof (induction m fs k w s rule: badger_elements.induct)
  case (2 m f fs k w s)
  then show ?case by (auto split: if_splits option.splits prod.splits dest!: slots_part)
qed simp

lemma slots_head: "badger_head m msg w s = Some (b, w', t) \<Longrightarrow> slots t = slots s"
  unfolding badger_head_def by (auto split: if_splits option.splits prod.splits dest!: slots_part)

lemma badger_queue_shrinks: "badger_queue m n q w s = Some (n', q', w', t) \<Longrightarrow> n' \<le> n \<and> slots t = slots s"
proof (induction m n q w s rule: badger_queue.induct)
  case (3 m n msg q w s)
  from "3.prems" obtain b w1 s1 where h: "badger_head m msg w s = Some (b, w1, s1)" by (auto split: option.splits)
  have sl: "slots s1 = slots s" using slots_head [OF h] .
  show ?case
  proof (cases b)
    case False
    with "3.prems" h sl show ?thesis by simp
  next
    case True
    with "3.prems" h obtain b2 w2 s2 where e: "badger_elements m (drop (cur_element w1) msg) (cur_byte w1) w1 s1 = Some (b2, w2, s2)"
      by (auto split: option.splits)
    have sl2: "slots s2 = slots s" using slots_elements [OF e] sl by simp
    show ?thesis
    proof (cases b2)
      case False
      with "3.prems" h True e sl2 show ?thesis by simp
    next
      case t2: True
      have "n' \<le> n \<and> slots t = slots s2"
        using "3.prems" h True e t2 by (intro "3.IH" [OF h refl _ refl e refl _ refl]) simp_all
      with sl2 show ?thesis by simp
    qed
  qed
qed simp_all

lemma badger_shrinks:
  assumes "Sess_badger m s = Some t" "Sess_get_session_index_tab m s = Some (Some i)" "0 \<le> cl_num_mess (slots s i)"
  shows "0 \<le> cl_num_mess (slots t i) \<and> cl_num_mess (slots t i) \<le> cl_num_mess (slots s i) \<and> cl_mbox (slots t i) = cl_mbox (slots s i)"
proof (cases "\<not> Is_op_session (slots s i) \<or> cl_num_mess (slots s i) \<le> 0")
  case True
  with assms show ?thesis by (auto simp: Sess_badger_def Let_def)
next
  case False
  with assms(1,2) obtain n q w s1 where b: "badger_queue m (nat (cl_num_mess (slots s i))) (cl_queue (slots s i)) (cl_write (slots s i)) s = Some (n, q, w, s1)"
    by (auto simp: Sess_badger_def Let_def split: option.splits)
  from badger_queue_shrinks [OF b] have "n \<le> nat (cl_num_mess (slots s i))" "slots s1 = slots s" by simp_all
  moreover have "slots t = (slots s1)(i := (slots s1 i)\<lparr>cl_num_mess := int n, cl_queue := q, cl_write := w\<rparr>)"
    using assms(1,2) False b by (auto simp: Sess_badger_def Let_def split: if_splits)
  ultimately show ?thesis using assms(3) by simp
qed

lemma link_adds: "link_message i msg n k s = (k', t) \<Longrightarrow> cl_num_mess (slots t i) = cl_num_mess (slots s i) + 1"
  by (auto simp: link_message_def Let_def split: if_splits)


text \<open>A limit of no messages at all makes every client slow.\<close>

definition full_state :: sess_state where
  "full_state = s3\<lparr>max_session_messages := 0\<rparr>"

lemma full_facts:
  "\<exists>t. Sess_write_msg 996 rejected 0 full_state = Some (0, t)" "Is_op_session (slots full_state 996)"
  "Sess_get_session_index_tab (cl_mbox (slots full_state 996)) full_state = Some (Some 996)"
  "cl_num_mess (slots full_state 996) = 0" "max_session_messages full_state = 0"
proof -
  have s: "slots full_state 996 = client2\<lparr>cl_status := 17\<rparr>" "Sess_My full_state = host_a"
    "max_session_messages full_state = 0" "Sessions_hash_head full_state 7 = Some 996"
    using s3_runs by (simp_all add: full_state_def)
  show op: "Is_op_session (slots full_state 996)" using s3_operates(2) by (simp add: full_state_def)
  have m: "cl_mbox (slots full_state 996) = 7" by (simp add: s client2_def)
  show ix: "Sess_get_session_index_tab (cl_mbox (slots full_state 996)) full_state = Some (Some 996)"
    unfolding m by (rule index_2) (simp_all add: s client2_def)
  show num: "cl_num_mess (slots full_state 996) = 0" by (simp add: s client2_def no_client_def)
  show "max_session_messages full_state = 0" by (rule s)
  have pg: "private_group (cl_name (slots full_state 996)) (p_name (Sess_My full_state)) = ''#u#a''"
    by (simp add: s client2_def host_a_def private_group_def)
  have km: "\<exists>h type. Message_get_message_header (kill_message ''#u#a'') = Some h \<and> Message_get_packet_type (mh_type h) = Some type"
  proof -
    have "case Message_get_message_header (kill_message ''#u#a'') of None \<Rightarrow> False
      | Some h \<Rightarrow> Message_get_packet_type (mh_type h) \<noteq> None" by code_simp
    then show ?thesis by (auto split: option.splits)
  qed
  then obtain h type where "Message_get_message_header (kill_message ''#u#a'') = Some h" "Message_get_packet_type (mh_type h) = Some type"
    by blast
  then show "\<exists>t. Sess_write_msg 996 rejected 0 full_state = Some (0, t)"
    using op ix num s(3) pg m
    by (simp add: Sess_write_msg_def Let_def Sess_kill_def Sess_clear_session_def)
qed


section \<open>Fragments\<close>

text \<open>
  C39: A buffer becomes the body of a message of at most 100 fragments, none longer than the body of a
  packet, whose header stays and whose bytes are those of the header and the buffer; only a buffer
  of more than 143152 bytes does not fit.
\<close>

theorem buffer_round_trip:
  assumes "head_ok h"
  shows "case Message_Buffer_to_Message_Fragments (message_with_head h) buf of
      None \<Rightarrow> 143152 < length buf
    | Some msg \<Rightarrow> length buf \<le> 143152 \<and> Message_get_message_header msg = Some h \<and> msg_bytes msg = write_head h @ buf \<and>
        length msg \<le> MAX_FRAGS \<and> list_all (\<lambda>f. frag_written f \<and> fr_len f \<le> FRAG) msg"
proof (cases "Message_Buffer_to_Message_Fragments (message_with_head h) buf")
  case None
  then show ?thesis using assms by (simp add: message_with_head_def buffer_to_fragments head_ok_def split: if_splits)
next
  case (Some msg)
  have l: "length (write_head h) = HEAD" using assms by (simp add: head_ok_def)
  note f = fragments_bytes [OF l Some [unfolded message_with_head_def]]
  from Some l have m: "length buf \<le> 143152" "\<exists>fs. msg = \<lparr>fr_buf = write_head h @ take (FRAG - HEAD) buf,
      fr_len = HEAD + min (length buf) (FRAG - HEAD)\<rparr> # fs"
    by (auto simp: message_with_head_def buffer_to_fragments split: if_splits)
  then have "Message_get_message_header msg = Some h" using assms l by (auto simp: Message_get_message_header_def)
  with f m(1) Some show ?thesis by simp
qed

theorem buffer_round_trip_witness:
  "\<exists>msg. Message_Buffer_to_Message_Fragments (message_with_head user_head) (replicate 2000 5) = Some msg \<and>
     msg_bytes msg = write_head user_head @ replicate 2000 5"
proof -
  have "head_ok user_head" by code_simp
  then show ?thesis using buffer_round_trip [of user_head "replicate 2000 5"] by (auto simp del: replicate.simps split: option.splits)
qed

end
