(* ===== verification/Spec2Isabelle.thy ===== *)
theory Spec2Isabelle
  imports ControlTheorems EventsTheorems DaemonTheorems GroupsTheorems SessTheorems
begin

text \<open>
  The core of the Spread toolkit's daemon (\<open>src/ProjetoFinal/spread/spread-src-5.0.1\<close>): the ring
  protocol that orders packets with a token, the membership protocol that forms the rings, the
  process groups on top of them, the sessions of the clients, and what they rest on. Paths below are
  relative to that directory.

  Parts. A daemon is the record \<open>daemon\<close> (\<open>DaemonState\<close>): the static variables of
  \<open>daemon/protocol.c\<close>, \<open>daemon/membership.c\<close> and \<open>daemon/flow_control.c\<close>, the timer queue and
  descriptor tables of \<open>libspread-util/src/events.c\<close>, and \<open>out\<close>, the list of what was handed to
  the network and to the sessions, in order. A handler of the source is a function on this
  record with result \<open>daemon option\<close>; \<open>None\<close> is the end of the process (\<open>Alarmp( SPLOG_FATAL\<close>)
  or behaviour that C does not define. Timers are queued under the names of their functions
  (\<open>handler\<close>); \<open>run_handler\<close> runs them. \<open>Reachable\<close> closes the system: \<open>daemon_step\<close> is the arrival
  of a packet or a token, a timer that is due, a message of a session, a change of the delivery
  threshold, or time that passes.

  The groups are a state of their own, the record \<open>groups_state\<close> (\<open>GroupsState\<close>) with the static
  variables of \<open>daemon/groups.c\<close>: what a handler hands to sessions and to the ring protocol are
  entries of \<open>g_out\<close>. \<open>groups_step\<close> (\<open>GroupsReach\<close>) closes it: joins, departures, memberships,
  groups messages of other daemons, and sessions that come and go.

  The sessions are the record \<open>sess_state\<close> (\<open>SessState\<close>) with the static variables of
  \<open>daemon/session.c\<close>; it holds the state of the groups, which \<open>with_groups\<close> calls with the sorted
  list of the sessions, and the tables of \<open>daemon/acm.c\<close>. A client sends bytes, which \<open>Sess_read\<close>
  makes a message; \<open>New_message\<close> in \<open>s_out\<close> is the call of \<open>Prot_new_message\<close>, and what the ring
  protocol delivers comes back to \<open>Sess_deliver_message\<close>, which gives it to the groups or writes it
  to the sessions it is for. \<open>sess_step\<close> (\<open>SessSteps\<close>) closes it: connections, authentication,
  reads, writes that go on, deliveries and memberships, with any results of \<open>recv\<close> and \<open>send\<close>.

  Theories and code.
  \<^item> \<open>Prelude\<close>, \<open>Arrays\<close>: loops, searches, arrays as functions on indices, a selection sort over a
    locale \<open>smallest_entry\<close> that both sorts of the membership protocol interpret.
  \<^item> \<open>Events\<close>, \<open>EventsFd\<close>, \<open>EventsTheorems\<close>: \<open>events.c\<close>, timers, times and descriptors.
  \<^item> \<open>NetTypes\<close>: \<open>daemon/net_types.h\<close> and \<open>daemon/arch.h\<close>.
  \<^item> \<open>Configuration\<close>, \<open>ConfParams\<close>: \<open>daemon/configuration.c\<close>, rings, lookups, parameters.
  \<^item> \<open>FlowControl\<close>: \<open>daemon/flow_control.c\<close>.
  \<^item> \<open>MembData\<close>, \<open>MembSteps\<close>, \<open>MembGather\<close>, \<open>FormTokens\<close>, \<open>ReadForm2\<close>, \<open>MembHandlers\<close>:
    \<open>daemon/membership.c\<close>, from the lists it gathers to the handlers of its messages and tokens.
  \<^item> \<open>Delivery\<close>, \<open>ProtSend\<close>, \<open>ProtHurry\<close>, \<open>ProtBcast\<close>, \<open>ProtToken\<close>: \<open>daemon/protocol.c\<close>.
  \<^item> \<open>Packing\<close>, \<open>SendSpec\<close>, \<open>DeliverySpec\<close>, \<open>Window\<close>, \<open>TokenSpec\<close>, \<open>RingInvariant\<close>: what sending,
    delivering and a visit of the token achieve. A packet is read back with the parser of
    \<open>Deliver_packet\<close>; \<open>window_ok\<close> and \<open>regular_ok\<close> say what the table of packets holds.
  \<^item> \<open>InstallSpec\<close>, \<open>FormSpec\<close>: the installation of a ring and what a form token collects.
  \<^item> \<open>Control\<close>, \<open>ControlOps\<close>, \<open>ControlHandlers\<close>, \<open>ControlSteps\<close>, \<open>Reachable\<close>: the invariant of
    states, token and timers, kept by every operation and so by every reachable daemon.
  \<^item> \<open>SkipList\<close>: the contract of \<open>stdutil/src/stdskl.c\<close> as a locale \<open>comparison\<close>, interpreted on the
    orders of names, processes and membership ids in \<open>GroupsData\<close>.
  \<^item> \<open>GroupsData\<close>, \<open>GroupsState\<close>, \<open>GroupsBufs\<close>, \<open>GroupsOps\<close>, \<open>GroupsHandlers\<close>: \<open>daemon/groups.c\<close>, from the
    groups and the messages that clients get over the bytes of the groups messages to the handlers.
  \<^item> \<open>GroupsInv\<close>, \<open>GroupsKeep\<close>, \<open>GroupsMerge\<close>, \<open>SyncedSets\<close>, \<open>GroupsReach\<close>, \<open>GroupsReach2\<close>,
    \<open>GroupsReach3\<close>, \<open>GroupsSteps\<close>: the invariant \<open>groups_ok\<close> and that every step keeps it.
  \<^item> \<open>GroupsView\<close>, \<open>GroupsEffects\<close>: the abstract state, who is in which group where, and what each
    handler does to it. \<open>GroupsWire\<close>, \<open>GroupsBuild\<close>, \<open>GroupsBuild2\<close>: the groups messages read back.
  \<^item> \<open>GroupsSamples\<close>: two daemons that meet. \<open>GroupsTheorems\<close>: the properties of the groups.
  \<^item> \<open>MessageObj\<close>, \<open>MessageFacts\<close>: \<open>daemon/message.c\<close>, messages as scatters of buffers, and the header
    read back from its bytes. \<open>Acm\<close>: \<open>daemon/acm.c\<close> and the modules linked into the daemon.
  \<^item> \<open>SessTable\<close>, \<open>SessTableInv\<close>: the array of sessions with its sorted list, its free list and its
    hash chains, and that each operation keeps the links sound.
  \<^item> \<open>SessState\<close>, \<open>SessConnect\<close>, \<open>SessWrite\<close>, \<open>SessDeliver\<close>, \<open>SessRead\<close>: the rest of \<open>daemon/session.c\<close>:
    accepting and authorizing, writing and killing, delivering, reading and checking.
  \<^item> \<open>SessInv\<close>, \<open>SessSteps\<close>: the invariant \<open>sess_inv\<close> and that every step keeps it. \<open>SessStream\<close>,
    \<open>SessTargets\<close>: the bytes that a session has got or will get, and what a write adds to them.
    \<open>SessReading\<close>: the parser \<open>parse_stream\<close> of a client's bytes. \<open>SessAuth\<close>: what an authorized
    session has passed.
  \<^item> \<open>SessSamples\<close>: a daemon with its first client. \<open>SessTheorems\<close>: the properties of the sessions.
  \<^item> \<open>Samples\<close>: concrete daemons. \<open>RingTheorems\<close>, \<open>TokenTheorems\<close>, \<open>MembTheorems\<close>,
    \<open>DaemonTheorems\<close>, \<open>ControlTheorems\<close>, \<open>EventsTheorems\<close>: the properties, each with an instance.

  What is shown. For sending: the packets carry the queued fragments in order, once, and with a
  sound window none of the fatal errors of sending occurs. For delivering: agreed order follows
  the sequence numbers and is the same at all daemons that hold the packets; discarding hands
  over the safe messages and nothing twice. For the token: what a daemon discards, every member
  of the ring had when the token passed it; no token is served twice; requests are answered and
  made. For memberships: the order of the events of an installation, the members of the new
  ring, the entry that the members of an old ring write on the form token, backing out of an
  installation. For the control flow: the timers that each state relies on are queued, and the
  token is never lost in a state that the source takes for a bug. For the event system: the
  timer queue refines a sorted list with one entry for each event, and the masks show exactly
  the active descriptors of the priorities that count. For the groups: the abstract state that each
  handler reaches, that merged views agree, and that the groups messages are read back as they
  were built. For the sessions: the table stays a sorted list in which every session is found,
  no session operates that was not authorized, a client's bytes become the same messages however
  they are cut, with its own name as the sender, and a message for a session becomes the next
  part of its stream, in order and once.

  Conventions and bounds. Sequence numbers and times are \<open>int\<close>; they stay below 2^30 in the
  source, which checks \<open>MAX_WRAP_SEQUENCE_VALUE\<close>. Type words and process ids are \<open>32 word\<close>, bytes
  \<open>8 word\<close>; fields of 16 bits are read with \<open>to_int16\<close>, \<open>to_int16u\<close>. The body of a token is the
  list of its requests, that of a form token the record \<open>form_body\<close>; their sizes in bytes are
  computed where the source checks them. The buffer of a packet is a function on offsets. The
  loop over the fragments of a foreign packet and the one that builds the groups messages may
  not end and are \<open>partial_function\<close>s; all other
  loops end, by structure or by a measure. No fuel is used. \<open>Conf_reload_initiate\<close> reads a file;
  its result is the argument \<open>reloaded\<close>. The constants of \<open>AF_INET\<close> are arguments.

  Sessions. A pointer to a session is its index. A buffer is the list of the bytes that were written
  to it: reading behind them is \<open>None\<close>. \<open>recv\<close> and \<open>send\<close> take their results from lists of the state,
  and the random numbers of \<open>draw_name\<close> come from another: when it is used up, the loop that
  draws names did not end, which is \<open>None\<close>. The walks along links are \<open>partial_function\<close>s; the invariant
  shows that they end. \<open>reads_of\<close> calls \<open>read_message\<close> at most \<open>n\<close> times, and the number of the
  bytes that arrive is enough, for every call that finds a piece takes a byte or more.

  Not modelled. In \<open>session.c\<close> opening the sockets, their options, \<open>Sess_fini\<close>, the start of the ring protocol from
  \<open>Sess_init\<close>, and the time stamps of \<open>PROBE_LATENCY\<close>; reading \<open>spread.access_ip\<close> in \<open>ip_init\<close>, passwords and the list of
  interfaces; the group masks of \<open>SPREAD_PROTOCOL\<close> 4, the network layer (\<open>network.c\<close>, \<open>data_link.c\<close>), the memory pools,
  statistics, logging and printing, the configuration parser (generated from a grammar), the links and towers
  inside the containers of \<open>stdutil\<close>, the client library \<open>libspread\<close>, and the main loop around \<open>select\<close>: mostly
  input and output.
  The header fields that the network layer stamps (\<open>transmiter_id\<close>, \<open>conf_hash\<close>) and its check of
  them are left out. A groups message that ends too early makes the source read old bytes of a
  buffer; the model stops there. \<open>groups_step\<close> leaves out the reload of the configuration, which
  \<open>G_signal_conf_reload\<close> models. The Java exercises beside the toolkit are not part of the model.
\<close>

end
